(* ===== verification/Fluxion_Prelude.thy ===== *)
theory Fluxion_Prelude
  imports Main "HOL-Library.Monad_Syntax"
begin

text \<open>
  Shared vocabulary of the development: the error numbers the code stores in
  \<^verbatim>\<open>errno\<close>, the 64-bit integer conversions, the result type of the C
  interfaces, and the generic lemmas on lists and options the components use.

  A partial operation that the source performs through a null pointer, or on an
  intrusive tree node in the wrong linking state, has no defined behaviour; such an
  execution is the value \<open>None\<close> of an \<open>option\<close>, so that ``never
  \<open>None\<close>'' is a safety theorem. A failure that the source reports (a return
  value of \<open>-1\<close> with \<^verbatim>\<open>errno\<close> set) is \<open>Inl\<close> of the
  error number.
\<close>

named_theorems flux_simps \<open>equations that unfold the model's small operations\<close>
named_theorems flux_intros \<open>preservation facts of the components' invariants\<close>

section \<open>Error numbers and results\<close>

datatype errno = EINVAL | ERANGE | EBUSY | ENOENT | EEXIST | ENOTSUP | ENOMEM | ENODEV
  | ENODATA | EPROTO | EAGAIN | EOVERFLOW | UNSET

text \<open>
  \<open>UNSET\<close> marks a failure that is returned without storing an error number.
  \<open>'a result\<close> is what a C interface function hands back: \<open>Inl e\<close> for the
  failure value with \<^verbatim>\<open>errno\<close> equal to \<open>e\<close>, \<open>Inr v\<close> for
  the value \<open>v\<close>.
\<close>

type_synonym 'a result = "errno + 'a"

section \<open>64-bit integers\<close>

text \<open>
  Times and quantities are \<^verbatim>\<open>int64_t\<close>, durations and requests
  \<^verbatim>\<open>uint64_t\<close>. Both are \<open>int\<close> here; \<open>i64\<close> is the
  conversion \<^verbatim>\<open>static_cast<int64_t>\<close> of a value computed in 64 bits
  and \<open>u64\<close> the conversion to \<^verbatim>\<open>uint64_t\<close>; \<open>i32\<close> and
  \<open>u32\<close> are the conversions to \<^verbatim>\<open>int\<close> and \<^verbatim>\<open>unsigned int\<close>.
\<close>

definition i64 :: "int \<Rightarrow> int" where
  "i64 x = (x + 2 ^ 63) mod 2 ^ 64 - 2 ^ 63"

definition u64 :: "int \<Rightarrow> int" where
  "u64 x = x mod 2 ^ 64"

definition i32 :: "int \<Rightarrow> int" where
  "i32 x = (x + 2 ^ 31) mod 2 ^ 32 - 2 ^ 31"

definition u32 :: "int \<Rightarrow> int" where
  "u32 x = x mod 2 ^ 32"

definition int64_max :: int where
  "int64_max = 2 ^ 63 - 1"

definition is_i64 :: "int \<Rightarrow> bool" where
  "is_i64 x \<longleftrightarrow> - (2 ^ 63) \<le> x \<and> x < 2 ^ 63"

definition is_u64 :: "int \<Rightarrow> bool" where
  "is_u64 x \<longleftrightarrow> 0 \<le> x \<and> x < 2 ^ 64"

lemma i64_id: "is_i64 x \<Longrightarrow> i64 x = x"
  by (simp add: is_i64_def i64_def)

lemma i64_range: "is_i64 (i64 x)"
  using pos_mod_bound [of "2 ^ 64" "x + 2 ^ 63"] pos_mod_sign [of "2 ^ 64" "x + 2 ^ 63"]
  by (simp add: is_i64_def i64_def)

lemma u64_id: "is_u64 x \<Longrightarrow> u64 x = x"
  by (simp add: is_u64_def u64_def)

lemma i64_small: "0 \<le> x \<Longrightarrow> x \<le> int64_max \<Longrightarrow> i64 x = x"
  by (simp add: int64_max_def i64_def)

section \<open>Lists and options\<close>

lemma bind_eq_SomeE:
  assumes "x \<bind> f = Some y"
  obtains z where "x = Some z" and "f z = Some y"
  using assms by (cases x) auto

lemma map_option_bind: "map_option f (x \<bind> g) = x \<bind> (\<lambda>y. map_option f (g y))"
  by (cases x) auto

lemma bind_map_option: "map_option f x \<bind> g = x \<bind> (\<lambda>y. g (f y))"
  by (cases x) auto

lemma sorted_insort_split:
  assumes "sorted (map k (xs @ ys))"
    and "\<And>y. y \<in> set xs \<Longrightarrow> k y < k x" and "\<And>y. y \<in> set ys \<Longrightarrow> k x \<le> k y"
  shows "insort_key k x (xs @ ys) = xs @ x # ys"
  using assms
proof (induction xs)
  case Nil
  then show ?case by (cases ys) auto
next
  case (Cons a xs)
  from Cons.prems(2) [of a] have "\<not> k x \<le> k a" by simp
  moreover have "insort_key k x (xs @ ys) = xs @ x # ys"
    using Cons.prems by (intro Cons.IH) auto
  ultimately show ?case by simp
qed

lemma distinct_map_insort:
  "distinct (map f (insort_key k x xs)) \<longleftrightarrow> f x \<notin> f ` set xs \<and> distinct (map f xs)"
  by (induction xs) (auto simp: set_insort_key)

lemma filter_ge_split:
  fixes k :: "'a \<Rightarrow> 'b::linorder"
  assumes "sorted_wrt (<) (map k (xs @ y # ys))"
  shows "filter (\<lambda>p. k y \<le> k p) (xs @ y # ys) = y # ys"
  using assms
proof (induction xs)
  case Nil
  then have "\<forall>z\<in>set ys. k y \<le> k z" by (auto intro: less_imp_le)
  then show ?case by (simp add: filter_id_conv)
qed auto

lemma dom_eq_None: "dom A = dom B \<Longrightarrow> A a = None \<longleftrightarrow> B a = None"
  by (metis domIff)

end
