(* ===== verification/Ordered_Map.thy ===== *)
theory Ordered_Map
  imports Fluxion_Prelude
begin

text \<open>
  \<^verbatim>\<open>std::map\<close> as the code uses it: an association list in strictly
  increasing key order, so that a range-based \<^verbatim>\<open>for\<close> is a recursion over
  the list. An iterator is the key of its element, the past-the-end position, or singular
  (never set, or invalidated by an erasure); stepping an iterator that does not stand at
  an element is undefined.
\<close>

type_synonym ('k, 'v) omap = "('k \<times> 'v) list"

datatype 'k iter = Singular | At 'k | End

section \<open>Operations\<close>

definition om_find :: "'k \<Rightarrow> ('k, 'v) omap \<Rightarrow> 'v option" where
  "om_find k m = map_of m k"

text \<open>\<^verbatim>\<open>m[k] = v\<close>\<close>

fun om_assign :: "'k::linorder \<Rightarrow> 'v \<Rightarrow> ('k, 'v) omap \<Rightarrow> ('k, 'v) omap" where
  "om_assign k v [] = [(k, v)]"
| "om_assign k v ((j, w) # m) =
     (if k < j then (k, v) # (j, w) # m
      else if k = j then (k, v) # m
      else (j, w) # om_assign k v m)"

text \<open>\<^verbatim>\<open>m.insert ({k, v})\<close>, which leaves an existing element alone; the
  second component is the \<^verbatim>\<open>second\<close> of the returned pair.\<close>

definition om_insert :: "'k::linorder \<Rightarrow> 'v \<Rightarrow> ('k, 'v) omap \<Rightarrow> ('k, 'v) omap \<times> bool" where
  "om_insert k v m = (if om_find k m = None then (om_assign k v m, True) else (m, False))"

definition om_erase :: "'k \<Rightarrow> ('k, 'v) omap \<Rightarrow> ('k, 'v) omap" where
  "om_erase k m = filter (\<lambda>(j, _). j \<noteq> k) m"

fun om_begin :: "('k, 'v) omap \<Rightarrow> 'k iter" where
  "om_begin [] = End"
| "om_begin ((k, _) # m) = At k"

fun om_next :: "'k iter \<Rightarrow> ('k::linorder, 'v) omap \<Rightarrow> 'k iter option" where
  "om_next (At k) m = (if om_find k m = None then None
     else Some (om_begin (filter (\<lambda>(j, _). k < j) m)))"
| "om_next _ m = None"

text \<open>The state of an iterator after the element at \<open>k\<close> was erased, and after
  \<^verbatim>\<open>clear ()\<close>.\<close>

fun iter_after_erase :: "'k \<Rightarrow> 'k iter \<Rightarrow> 'k iter" where
  "iter_after_erase k (At j) = (if j = k then Singular else At j)"
| "iter_after_erase k i = i"

fun iter_after_clear :: "'k iter \<Rightarrow> 'k iter" where
  "iter_after_clear (At j) = Singular"
| "iter_after_clear i = i"

section \<open>Laws\<close>

definition om_ok :: "('k::linorder, 'v) omap \<Rightarrow> bool" where
  "om_ok m \<longleftrightarrow> sorted_wrt (<) (map fst m)"

lemma om_ok_Nil [simp]: "om_ok []"
  by (simp add: om_ok_def)

lemma om_ok_Cons: "om_ok ((k, v) # m) \<longleftrightarrow> (\<forall>j\<in>fst ` set m. k < j) \<and> om_ok m"
  by (auto simp: om_ok_def)

lemma om_ok_distinct: "om_ok m \<Longrightarrow> distinct (map fst m)"
  by (simp add: om_ok_def strict_sorted_iff)

lemma om_find_Nil [simp]: "om_find k [] = None"
  by (simp add: om_find_def)

lemma om_find_Some_iff: "om_ok m \<Longrightarrow> om_find k m = Some v \<longleftrightarrow> (k, v) \<in> set m"
  by (simp add: om_find_def om_ok_distinct)

lemma om_find_None_iff: "om_find k m = None \<longleftrightarrow> k \<notin> fst ` set m"
  by (simp add: om_find_def map_of_eq_None_iff)

lemma set_om_assign: "om_ok m \<Longrightarrow> set (om_assign k v m) = insert (k, v) {(j, w) \<in> set m. j \<noteq> k}"
  by (induction k v m rule: om_assign.induct) (auto simp: om_ok_Cons)

lemma om_ok_assign [simp]: "om_ok m \<Longrightarrow> om_ok (om_assign k v m)"
  by (induction k v m rule: om_assign.induct) (auto simp: om_ok_Cons set_om_assign)

lemma om_ok_erase [simp]: "om_ok m \<Longrightarrow> om_ok (om_erase k m)"
  by (induction m) (auto simp: om_erase_def om_ok_Cons)

lemma om_ok_insert [simp]: "om_ok m \<Longrightarrow> om_ok (fst (om_insert k v m))"
  by (simp add: om_insert_def)

lemma set_om_erase: "set (om_erase k m) = {(j, w) \<in> set m. j \<noteq> k}"
  by (auto simp: om_erase_def)

lemma om_find_assign: "om_ok m \<Longrightarrow> om_find j (om_assign k v m) = (if j = k then Some v else om_find j m)"
  by (induction k v m rule: om_assign.induct) (auto simp: om_ok_Cons om_find_def)

lemma om_find_erase: "om_find j (om_erase k m) = (if j = k then None else om_find j m)"
  by (induction m) (auto simp: om_erase_def om_find_def)

lemma om_find_assign_fun: "om_ok m \<Longrightarrow> map_of (om_assign k v m) = (map_of m)(k \<mapsto> v)"
  using om_find_assign [of m _ k v] by (auto simp: fun_eq_iff om_find_def)

text \<open>Summing over the elements, when one is added, removed or replaced.\<close>

lemma sum_list_assign_new:
  assumes "om_ok m" and "om_find k m = None"
  shows "sum_list (map f (om_assign k v m)) = f (k, v) + (sum_list (map f m) :: int)"
  using assms by (induction k v m rule: om_assign.induct) (auto simp: om_ok_Cons om_find_def split: if_splits)

lemma sum_list_erase:
  assumes "om_ok m" and "om_find k m = Some v"
  shows "sum_list (map f (om_erase k m)) = (sum_list (map f m) :: int) - f (k, v)"
  using assms
proof (induction m)
  case (Cons a m)
  obtain j w where a: "a = (j, w)" by fastforce
  show ?case
  proof (cases "j = k")
    case True
    with Cons.prems a have "om_erase k m = m" by (auto simp: om_erase_def om_ok_Cons filter_id_conv)
    with True Cons.prems a show ?thesis by (simp add: om_erase_def om_find_def)
  next
    case False
    with Cons a show ?thesis by (simp add: om_erase_def om_find_def om_ok_Cons)
  qed
qed (simp add: om_find_def)

lemma sum_list_assign_old:
  assumes "om_ok m" and "om_find k m = Some u"
  shows "sum_list (map f (om_assign k v m)) = (sum_list (map f m) :: int) - f (k, u) + f (k, v)"
  using assms
proof (induction m)
  case (Cons a m)
  obtain j w where a: "a = (j, w)" by fastforce
  from Cons.prems a have "j \<le> k" by (force simp: om_find_def om_ok_Cons split: if_splits dest: map_of_SomeD)
  with Cons a show ?case by (auto simp: om_find_def om_ok_Cons split: if_splits)
qed (simp add: om_find_def)

lemma om_erase_assign:
  assumes "om_ok m" and "om_find k m = None"
  shows "om_erase k (om_assign k v m) = m"
  using assms
proof (induction k v m rule: om_assign.induct)
  case (2 k v j w m)
  then have "k \<notin> fst ` set m" by (auto simp: om_find_None_iff)
  then have "om_erase k m = m" by (force simp: om_erase_def filter_id_conv)
  with 2 show ?case by (auto simp: om_erase_def om_find_def om_ok_Cons split: if_splits)
qed (simp add: om_erase_def)

lemma om_assign_twice:
  assumes "om_ok m" and "om_find k m = None"
  shows "om_assign k v (om_assign k u m) = om_assign k v m"
  using assms by (induction k u m rule: om_assign.induct) (auto simp: om_find_def om_ok_Cons split: if_splits)

end
