(* ===== verification/Queue_Policy_Base.thy ===== *)
theory Queue_Policy_Base
  imports Ordered_Map "HOL-Library.Product_Lexorder" "HOL-Library.List_Lexorder" "HOL-Library.Char_ord"
begin

text \<open>
  The base class of the queueing policies
  (\<^verbatim>\<open>src/qmanager/policies/base/queue_policy_base.hpp\<close>): the jobs of one queue, the
  maps that say where each job stands, and the operations the queue manager calls.

  The policies extend the record of the base class with their own fields, so every operation
  is stated for any extension. Two things the base class leaves to its derived classes are
  parameters: \<^verbatim>\<open>cancel_sched_loop\<close>, a virtual method, and the resource interface
  \<^verbatim>\<open>reapi_type\<close>, a remote service whose answers are the fields of a record. What the
  queue hands to that service is its output and is logged in \<open>sent\<close>.

  A finite \<^verbatim>\<open>double\<close> is a multiple of the least positive one, and the code only
  copies and compares submission times: they are \<open>int\<close> in that unit. The iterator that
  each derived class keeps into \<open>m_pending\<close> is a field of the base record, because
  the base operations can invalidate it.
\<close>

section \<open>Jobs\<close>

datatype job_state_kind = INIT | PENDING | REJECTED | RUNNING | ALLOC_RUNNING | CANCELED | COMPLETE

datatype job_selection_type = UNKNOWN | IMMEDIATE | BACKFILL | RESERVED

record schedule =
  sched_R :: string
  reserved :: bool
  was_reserved :: bool
  selection_type :: job_selection_type
  sched_at :: int
  sched_old_at :: int
  sched_ov :: int

definition job_selection_type_str :: "job_selection_type \<Rightarrow> string" where
  "job_selection_type_str mode =
     (case mode of
        IMMEDIATE \<Rightarrow> ''immediate''
      | BACKFILL \<Rightarrow> ''backfill''
      | RESERVED \<Rightarrow> ''reserved''
      | UNKNOWN \<Rightarrow> ''unknown'')"

record t_stamps =
  pending_ts :: int
  running_ts :: int
  rejected_ts :: int
  complete_ts :: int
  canceled_ts :: int

type_synonym pending_key = "int \<times> int \<times> int"

type_synonym job_map = "(pending_key, int) omap"

record job =
  job_state :: job_state_kind
  job_id :: int
  userid :: int
  priority :: int
  t_submit :: int
  jobspec :: string
  job_note :: string
  stamps :: t_stamps
  schedule_of :: schedule

definition is_pending :: "job \<Rightarrow> bool" where
  "is_pending j \<longleftrightarrow> job_state j = PENDING"

definition get_key :: "job \<Rightarrow> pending_key" where
  "get_key j = (priority j, t_submit j, pending_ts (stamps j))"

section \<open>The queue\<close>

record queue =
  m_schedulable :: bool
  m_scheduled :: bool
  m_annotation_dirty :: bool
  m_sched_loop_active :: bool
  m_pq_cnt :: int
  m_rq_cnt :: int
  m_dq_cnt :: int
  m_cq_cnt :: int
  m_oq_cnt :: int
  m_cancel_cnt :: int
  m_reprio_cnt :: int
  m_queue_depth :: int
  m_max_queue_depth :: int
  m_blocked :: job_map
  m_pending :: job_map
  m_pending_provisional :: job_map
  m_pending_cancel_provisional :: "(int, int) omap"
  m_pending_reconsider :: bool
  m_pending_reprio_provisional :: "(int, int \<times> int) omap"
  m_running :: "(int, int) omap"
  m_alloced :: "(int, int) omap"
  m_rejected :: "(int, int) omap"
  m_canceled :: "(int, int) omap"
  m_jobs :: "(int, job) omap"
  m_qparams :: "(string, string) omap"
  m_pparams :: "(string, string) omap"
  m_pending_iter :: "pending_key iter"
  m_iter_valid :: bool
  m_in_progress_iter :: "pending_key iter"
  sent :: "(bool \<times> (int \<times> string) list) list"

definition MAX_QUEUE_DEPTH :: int where
  "MAX_QUEUE_DEPTH = 1000000"

definition DEFAULT_QUEUE_DEPTH :: int where
  "DEFAULT_QUEUE_DEPTH = 32"

text \<open>The answers of the resource interface, and whether a jobspec is a JSON text.\<close>

record reapi =
  match_allocate_multi :: "bool \<Rightarrow> (int \<times> string) list \<Rightarrow> int"
  reapi_cancel :: "int \<Rightarrow> bool \<Rightarrow> int"
  reapi_partial_cancel :: "int \<Rightarrow> string \<Rightarrow> bool \<Rightarrow> int \<times> bool"
  update_allocate :: "int \<Rightarrow> string \<Rightarrow> int \<Rightarrow> int \<Rightarrow> int result"
  json_loads :: "string \<Rightarrow> bool"

section \<open>Flags and lookup\<close>

definition set_schedulability :: "bool \<Rightarrow> 'a queue_scheme \<Rightarrow> 'a queue_scheme" where
  "set_schedulability b q = q\<lparr>m_schedulable := b\<rparr>"

definition reset_scheduled :: "'a queue_scheme \<Rightarrow> 'a queue_scheme" where
  "reset_scheduled q = q\<lparr>m_scheduled := False, m_annotation_dirty := False\<rparr>"

definition lookup_job :: "int \<Rightarrow> 'a queue_scheme \<Rightarrow> job result" where
  "lookup_job i q = (case om_find i (m_jobs q) of None \<Rightarrow> Inl ENOENT | Some j \<Rightarrow> Inr j)"

text \<open>Writing through a shared pointer held in \<open>m_jobs\<close>.\<close>

definition modify_job :: "int \<Rightarrow> (job \<Rightarrow> job) \<Rightarrow> 'a queue_scheme \<Rightarrow> 'a queue_scheme" where
  "modify_job i f q = q\<lparr>m_jobs := map (\<lambda>(k, j). (k, if k = i then f j else j)) (m_jobs q)\<rparr>"

abbreviation set_state :: "job_state_kind \<Rightarrow> job \<Rightarrow> job" where
  "set_state s j \<equiv> j\<lparr>job_state := s\<rparr>"

definition get_inflight_jobs :: "'a queue_scheme \<Rightarrow> nat" where
  "get_inflight_jobs q = length (m_alloced q) + length (m_running q)"

section \<open>Pending jobs\<close>

text \<open>Erasing an element of \<open>m_pending\<close> invalidates the iterators that stand on it.\<close>

definition erase_pending :: "pending_key \<Rightarrow> 'a queue_scheme \<Rightarrow> 'a queue_scheme" where
  "erase_pending k q = q\<lparr>m_pending := om_erase k (m_pending q),
     m_pending_iter := iter_after_erase k (m_pending_iter q),
     m_in_progress_iter := iter_after_erase k (m_in_progress_iter q)\<rparr>"

definition q_insert :: "job option \<Rightarrow> 'a queue_scheme \<Rightarrow> int result \<times> 'a queue_scheme" where
  "q_insert jp q =
     (case jp of
        None \<Rightarrow> (Inl EINVAL, q)
      | Some j \<Rightarrow>
          (if om_find (job_id j) (m_jobs q) \<noteq> None then (Inl EINVAL, q)
           else
             (let j = j\<lparr>job_state := PENDING, stamps := (stamps j)\<lparr>pending_ts := m_pq_cnt q\<rparr>\<rparr>
              in (Inr 0, set_schedulability True
                   (q\<lparr>m_pq_cnt := u64 (m_pq_cnt q + 1),
                      m_pending_provisional := fst (om_insert (get_key j) (job_id j) (m_pending_provisional q)),
                      m_jobs := fst (om_insert (job_id j) j (m_jobs q))\<rparr>)))))"

definition insert_pending_job :: "job \<Rightarrow> bool \<Rightarrow> 'a queue_scheme \<Rightarrow> int result \<times> 'a queue_scheme" where
  "insert_pending_job j into_provisional q =
     (if into_provisional then
        (case om_insert (get_key j) (job_id j) (m_pending_provisional q) of
           (m, ok) \<Rightarrow> (if ok then Inr 0 else Inl EEXIST, q\<lparr>m_pending_provisional := m\<rparr>))
      else
        (case om_insert (get_key j) (job_id j) (m_pending q) of
           (m, ok) \<Rightarrow> (if ok then Inr 0 else Inl EEXIST, q\<lparr>m_pending := m\<rparr>)))"

text \<open>\<open>Inr\<close> of the out-parameter \<^verbatim>\<open>found_in_prov\<close>, which starts as false.\<close>

definition erase_pending_job :: "job \<Rightarrow> 'a queue_scheme \<Rightarrow> bool result \<times> 'a queue_scheme" where
  "erase_pending_job j q =
     (let k = get_key j
      in if om_find k (m_pending q) \<noteq> None then (Inr False, erase_pending k q)
         else if om_find k (m_blocked q) \<noteq> None then (Inr False, q\<lparr>m_blocked := om_erase k (m_blocked q)\<rparr>)
         else if om_find k (m_pending_provisional q) = None then (Inl ENOENT, q)
         else (Inr True, q\<lparr>m_pending_provisional := om_erase k (m_pending_provisional q)\<rparr>))"

text \<open>\<^verbatim>\<open>dst.merge (src)\<close>: the elements whose key \<open>dst\<close> has not move over.\<close>

definition om_merge :: "('k::linorder, 'v) omap \<Rightarrow> ('k, 'v) omap \<Rightarrow> ('k, 'v) omap \<times> ('k, 'v) omap" where
  "om_merge dst src =
     (fold (\<lambda>(k, v) m. fst (om_insert k v m)) src dst, filter (\<lambda>(k, _). om_find k dst \<noteq> None) src)"

definition process_provisional_reconsider :: "'a queue_scheme \<Rightarrow> 'a queue_scheme" where
  "process_provisional_reconsider q =
     (if \<not> m_pending_reconsider q then q
      else
        (let (p, b) = om_merge (m_pending q) (m_blocked q);
             q' = q\<lparr>m_pending_reconsider := False, m_pending := p, m_blocked := b\<rparr>
         in if m_blocked q \<noteq> [] then set_schedulability True q' else q'))"

definition reconsider_blocked_jobs :: "'a queue_scheme \<Rightarrow> 'a queue_scheme" where
  "reconsider_blocked_jobs q =
     (let q = q\<lparr>m_pending_reconsider := True\<rparr>
      in if \<not> m_sched_loop_active q then process_provisional_reconsider q else q)"

section \<open>Work put off while the scheduling loop runs\<close>

fun reprio_loop :: "(int \<times> int \<times> int) list \<Rightarrow> 'a queue_scheme \<Rightarrow> int result \<times> 'a queue_scheme" where
  "reprio_loop [] q = (Inr 0, q\<lparr>m_pending_reprio_provisional := []\<rparr>)"
| "reprio_loop ((_, i, prio) # rest) q =
     (case om_find i (m_jobs q) of
        None \<Rightarrow> (Inl ENOENT, q)
      | Some j \<Rightarrow>
          (if job_state j = PENDING then
             (case erase_pending_job j q of
                (Inl e, q) \<Rightarrow> (Inl e, q)
              | (Inr prov, q) \<Rightarrow>
                  (case insert_pending_job (j\<lparr>priority := prio\<rparr>) prov (modify_job i (\<lambda>j. j\<lparr>priority := prio\<rparr>) q) of
                     (Inl e, q) \<Rightarrow> (Inl e, q)
                   | (Inr _, q) \<Rightarrow> reprio_loop rest (reconsider_blocked_jobs (set_schedulability True q))))
           else reprio_loop rest q))"

definition process_provisional_reprio :: "'a queue_scheme \<Rightarrow> int result \<times> 'a queue_scheme" where
  "process_provisional_reprio q = reprio_loop (m_pending_reprio_provisional q) q"

text \<open>The cancellation proper: the job leaves the pending maps and becomes canceled.\<close>

definition cancel_job :: "int \<Rightarrow> job \<Rightarrow> 'a queue_scheme \<Rightarrow> int result \<times> 'a queue_scheme" where
  "cancel_job i j q =
     (case erase_pending_job j q of
        (Inl e, q) \<Rightarrow> (Inl e, q)
      | (Inr _, q) \<Rightarrow>
          (let q = modify_job i (set_state CANCELED) q;
               (m, ok) = om_insert (canceled_ts (stamps j)) (job_id j) (m_canceled q);
               q = q\<lparr>m_canceled := m\<rparr>
           in if ok then (Inr 0, set_schedulability True q) else (Inl EEXIST, q)))"

fun cancel_loop :: "(int \<times> int) list \<Rightarrow> 'a queue_scheme \<Rightarrow> int result \<times> 'a queue_scheme" where
  "cancel_loop [] q = (Inr 0, q\<lparr>m_pending_cancel_provisional := []\<rparr>)"
| "cancel_loop ((_, i) # rest) q =
     (case om_find i (m_jobs q) of
        None \<Rightarrow> (Inl ENOENT, q)
      | Some j \<Rightarrow>
          (if job_state j = PENDING then
             (case cancel_job i j q of (Inl e, q) \<Rightarrow> (Inl e, q) | (Inr _, q) \<Rightarrow> cancel_loop rest q)
           else cancel_loop rest q))"

definition process_provisional_cancel :: "'a queue_scheme \<Rightarrow> int result \<times> 'a queue_scheme" where
  "process_provisional_cancel q = cancel_loop (m_pending_cancel_provisional q) q"

definition rc_of :: "int result \<Rightarrow> int" where
  "rc_of r = (case r of Inl _ \<Rightarrow> - 1 | Inr v \<Rightarrow> v)"

definition set_sched_loop_active :: "bool \<Rightarrow> 'a queue_scheme \<Rightarrow> int \<times> 'a queue_scheme" where
  "set_sched_loop_active active q =
     (let prev = m_sched_loop_active q; q = q\<lparr>m_sched_loop_active := active\<rparr>
      in if prev \<and> \<not> active then
           (let (rc1, q) = process_provisional_reprio q;
                (rc2, q) = process_provisional_cancel q
            in (rc_of rc1 + rc_of rc2, process_provisional_reconsider q))
         else (0, q))"

text \<open>The default of the virtual method.\<close>

definition cancel_sched_loop :: "'a queue_scheme \<Rightarrow> int \<times> 'a queue_scheme" where
  "cancel_sched_loop q = (if m_sched_loop_active q then - 1 else 0, q)"

section \<open>Removal\<close>

text \<open>The job is the one of that id in \<open>m_jobs\<close>, a null pointer when there is none.\<close>

definition remove_pending ::
  "('a queue_scheme \<Rightarrow> int \<times> 'a queue_scheme) \<Rightarrow> int \<Rightarrow> 'a queue_scheme \<Rightarrow> int result \<times> 'a queue_scheme" where
  "remove_pending cancel_sl i q =
     (case om_find i (m_jobs q) of
        None \<Rightarrow> (Inl EINVAL, q)
      | Some j \<Rightarrow>
          (if job_state j \<noteq> PENDING then (Inl EINVAL, q)
           else
             (let ts = m_cancel_cnt q;
                  stamp = (\<lambda>j. j\<lparr>stamps := (stamps j)\<lparr>canceled_ts := ts\<rparr>\<rparr>);
                  q = modify_job i stamp (q\<lparr>m_cancel_cnt := u64 (ts + 1)\<rparr>);
                  (rc, q) = (if m_sched_loop_active q then cancel_sl q else (0, q))
              in if rc < 0 then
                   (case om_insert ts (job_id j) (m_pending_cancel_provisional q) of
                      (m, ok) \<Rightarrow> (if ok then Inr 0 else Inl EEXIST, q\<lparr>m_pending_cancel_provisional := m\<rparr>))
                 else cancel_job i (stamp j) q)))"

text \<open>The running case of \<^verbatim>\<open>remove\<close>, up to the label \<^verbatim>\<open>out\<close>; the first
  cancel is the partial one.\<close>

definition remove_running :: "reapi \<Rightarrow> int \<Rightarrow> job \<Rightarrow> bool \<Rightarrow> string \<Rightarrow> 'a queue_scheme \<Rightarrow> int result \<times> 'a queue_scheme" where
  "remove_running api i j fin R q =
     (let (rc, full_removal) = (if \<not> fin then reapi_partial_cancel api (job_id j) R True
                                else (reapi_cancel api (job_id j) True, True))
      in if rc \<noteq> 0 then (Inl (if fin then EPROTO else EINVAL), q)
         else
           (let q = set_schedulability True q
            in if full_removal \<or> fin then
                 (let q = q\<lparr>m_alloced := om_erase (running_ts (stamps j)) (m_alloced q),
                            m_running := om_erase (running_ts (stamps j)) (m_running q),
                            m_cq_cnt := u64 (m_cq_cnt q + 1),
                            m_jobs := om_erase i (m_jobs q)\<rparr>
                  in if full_removal \<and> \<not> fin then (Inl EPROTO, q) else (Inr 0, q))
               else (Inr 0, q)))"

definition q_remove ::
  "('a queue_scheme \<Rightarrow> int \<times> 'a queue_scheme) \<Rightarrow> reapi \<Rightarrow> int \<Rightarrow> bool \<Rightarrow> string \<Rightarrow> 'a queue_scheme
     \<Rightarrow> int result \<times> 'a queue_scheme" where
  "q_remove cancel_sl api i fin R q =
     (let (rc, q) =
        (case om_find i (m_jobs q) of
           None \<Rightarrow> (Inl ENOENT, q)
         | Some j \<Rightarrow>
             (if job_state j = PENDING then (Inr 0, snd (remove_pending cancel_sl i q))
              else if job_state j = ALLOC_RUNNING \<or> job_state j = RUNNING then remove_running api i j fin R q
              else (Inr 0, q)))
      in (rc, reconsider_blocked_jobs (snd (cancel_sl q))))"

definition pending_reprioritize ::
  "('a queue_scheme \<Rightarrow> int \<times> 'a queue_scheme) \<Rightarrow> int \<Rightarrow> int \<Rightarrow> 'a queue_scheme \<Rightarrow> int result \<times> 'a queue_scheme" where
  "pending_reprioritize cancel_sl i prio q =
     (case om_find i (m_jobs q) of
        None \<Rightarrow> (Inl ENOENT, q)
      | Some j \<Rightarrow>
          (if job_state j \<noteq> PENDING then (Inl EINVAL, q)
           else
             (let (m, ok) = om_insert (m_reprio_cnt q) (job_id j, prio) (m_pending_reprio_provisional q);
                  q = q\<lparr>m_pending_reprio_provisional := m, m_reprio_cnt := u64 (m_reprio_cnt q + 1)\<rparr>
              in if \<not> ok then (Inl EEXIST, q)
                 else
                   (let (rc, q) = (if \<not> m_sched_loop_active q then (0, q) else cancel_sl q)
                    in if rc = 0 then process_provisional_reprio q else (Inr 0, q)))))"

section \<open>Moving a job on\<close>

text \<open>The iterator stands at the element with key \<open>k\<close>; the result is the iterator
  returned. Anything but an element under it is undefined.\<close>

definition to_running :: "pending_key \<Rightarrow> bool \<Rightarrow> 'a queue_scheme \<Rightarrow> (pending_key iter \<times> 'a queue_scheme) option" where
  "to_running k use_alloced_queue q = do {
     i \<leftarrow> om_find k (m_pending q);
     (case om_find i (m_jobs q) of
        None \<Rightarrow> Some (At k, q)
      | Some j \<Rightarrow> do {
          let ts = m_rq_cnt q;
          let q = modify_job i (\<lambda>j. j\<lparr>job_state := RUNNING, stamps := (stamps j)\<lparr>running_ts := ts\<rparr>\<rparr>)
                    (q\<lparr>m_rq_cnt := u64 (ts + 1)\<rparr>);
          let (m, ok) = om_insert ts (job_id j) (m_running q);
          let q = q\<lparr>m_running := m\<rparr>;
          (if \<not> ok then Some (At k, q)
           else do {
             let (q, ok) = (if use_alloced_queue then
                    (let q = modify_job i (set_state ALLOC_RUNNING) q; (m, ok) = om_insert ts (job_id j) (m_alloced q)
                     in (q\<lparr>m_alloced := m, m_scheduled := (if ok then True else m_scheduled q)\<rparr>, ok))
                  else (q, True));
             (if \<not> ok then Some (At k, q)
              else do { nxt \<leftarrow> om_next (At k) (m_pending q); Some (nxt, erase_pending k q) })
           })
        })
   }"

definition to_rejected :: "pending_key \<Rightarrow> string \<Rightarrow> 'a queue_scheme \<Rightarrow> (pending_key iter \<times> 'a queue_scheme) option" where
  "to_rejected k msg q = do {
     i \<leftarrow> om_find k (m_pending q);
     (case om_find i (m_jobs q) of
        None \<Rightarrow> Some (At k, q)
      | Some j \<Rightarrow> do {
          let ts = m_dq_cnt q;
          let q = modify_job i (\<lambda>j. j\<lparr>job_state := REJECTED, job_note := msg, stamps := (stamps j)\<lparr>rejected_ts := ts\<rparr>\<rparr>)
                    (q\<lparr>m_dq_cnt := u64 (ts + 1)\<rparr>);
          let (m, ok) = om_insert ts (job_id j) (m_rejected q);
          let q = q\<lparr>m_rejected := m\<rparr>;
          (if \<not> ok then Some (At k, q)
           else do { nxt \<leftarrow> om_next (At k) (m_pending q); Some (nxt, erase_pending k (q\<lparr>m_scheduled := True\<rparr>)) })
        })
   }"

section \<open>Handing jobs to the queue manager\<close>

definition pending_pop :: "'a queue_scheme \<Rightarrow> job option \<times> 'a queue_scheme" where
  "pending_pop q =
     (case m_pending q of
        [] \<Rightarrow> (None, q)
      | (_, i) # _ \<Rightarrow>
          (case om_find i (m_jobs q) of
             None \<Rightarrow> (None, q)
           | Some j \<Rightarrow> (Some j, (erase_pending (get_key j) q)\<lparr>m_jobs := om_erase i (m_jobs q)\<rparr>)))"

definition alloced_pop :: "'a queue_scheme \<Rightarrow> job option \<times> 'a queue_scheme" where
  "alloced_pop q =
     (case m_alloced q of
        [] \<Rightarrow> (None, q)
      | (_, i) # _ \<Rightarrow>
          (case om_find i (m_jobs q) of
             None \<Rightarrow> (None, q)
           | Some j \<Rightarrow> (Some j, q\<lparr>m_alloced := om_erase (running_ts (stamps j)) (m_alloced q)\<rparr>)))"

definition rejected_pop :: "'a queue_scheme \<Rightarrow> job option \<times> 'a queue_scheme" where
  "rejected_pop q =
     (case m_rejected q of
        [] \<Rightarrow> (None, q)
      | (_, i) # _ \<Rightarrow>
          (case om_find i (m_jobs q) of
             None \<Rightarrow> (None, q)
           | Some j \<Rightarrow> (Some j, q\<lparr>m_rejected := om_erase (rejected_ts (stamps j)) (m_rejected q)\<rparr>)))"

definition canceled_pop :: "'a queue_scheme \<Rightarrow> job option \<times> 'a queue_scheme" where
  "canceled_pop q =
     (case m_canceled q of
        [] \<Rightarrow> (None, q)
      | (_, i) # _ \<Rightarrow>
          (case om_find i (m_jobs q) of
             None \<Rightarrow> (None, q)
           | Some j \<Rightarrow> (Some j, q\<lparr>m_canceled := om_erase (canceled_ts (stamps j)) (m_canceled q),
                                   m_jobs := om_erase i (m_jobs q)\<rparr>)))"

text \<open>The job under the iterator; an iterator that was invalidated may not be looked at.\<close>

definition job_under :: "pending_key iter \<Rightarrow> 'a queue_scheme \<Rightarrow> (job option \<times> 'a queue_scheme) option" where
  "job_under it q =
     (case it of
        Singular \<Rightarrow> None
      | End \<Rightarrow> Some (None, q\<lparr>m_pending_iter := End, m_iter_valid := False\<rparr>)
      | At k \<Rightarrow> do {
          i \<leftarrow> om_find k (m_pending q);
          Some (om_find i (m_jobs q), q\<lparr>m_pending_iter := At k, m_iter_valid := True\<rparr>)
        })"

definition pending_begin :: "'a queue_scheme \<Rightarrow> (job option \<times> 'a queue_scheme) option" where
  "pending_begin q = job_under (om_begin (m_pending q)) q"

definition pending_next :: "'a queue_scheme \<Rightarrow> (job option \<times> 'a queue_scheme) option" where
  "pending_next q =
     (if \<not> m_iter_valid q then Some (None, q)
      else do { it \<leftarrow> om_next (m_pending_iter q) (m_pending q); job_under it q })"

section \<open>Reconstruction after a restart\<close>

definition reconstruct_queue :: "job option \<Rightarrow> 'a queue_scheme \<Rightarrow> int result \<times> 'a queue_scheme" where
  "reconstruct_queue jp q =
     (case jp of
        None \<Rightarrow> (Inl EINVAL, q)
      | Some j \<Rightarrow>
          (if om_find (job_id j) (m_jobs q) \<noteq> None then (Inl EINVAL, q)
           else
             (let ts = m_rq_cnt q;
                  j = j\<lparr>stamps := (stamps j)\<lparr>running_ts := ts\<rparr>\<rparr>;
                  q = q\<lparr>m_rq_cnt := u64 (ts + 1)\<rparr>;
                  (m, ok) = om_insert ts (job_id j) (m_running q)
              in if \<not> ok then (Inl ENOMEM, q)
                 else
                   (let q = q\<lparr>m_running := m\<rparr>; (js, ok) = om_insert (job_id j) j (m_jobs q)
                    in if \<not> ok then (Inl ENOMEM, q\<lparr>m_running := om_erase ts (m_running q)\<rparr>)
                       else (Inr 0, q\<lparr>m_jobs := js\<rparr>)))))"

text \<open>Both policies implement \<^verbatim>\<open>reconstruct_resource\<close> by the same call.\<close>

definition reconstruct_resource :: "reapi \<Rightarrow> job \<Rightarrow> int result" where
  "reconstruct_resource api j =
     (let s = schedule_of j in update_allocate api (job_id j) (sched_R s) (sched_at s) (sched_ov s))"

definition reconstruct :: "reapi \<Rightarrow> job \<Rightarrow> 'a queue_scheme \<Rightarrow> int result \<times> 'a queue_scheme" where
  "reconstruct api j q =
     (case reconstruct_resource api j of
        Inl e \<Rightarrow> (Inl e, q)
      | Inr _ \<Rightarrow> reconstruct_queue (Some j) q)"

end
