(* ===== verification/Queue_Params.thy ===== *)
theory Queue_Params
  imports Queue_Policy_Base
begin

text \<open>
  The parameters of a queue: the comma-delimited text of key-value pairs
  (\<^verbatim>\<open>set_params\<close>, \<^verbatim>\<open>set_param\<close>) and their use
  (\<^verbatim>\<open>apply_params\<close>) in the base class.
\<close>

section \<open>Text\<close>

definition isspace :: "char \<Rightarrow> bool" where
  "isspace c \<longleftrightarrow> c \<in> {CHR '' '', CHR 0x09, CHR 0x0A, CHR 0x0B, CHR 0x0C, CHR 0x0D}"

definition isdigit :: "char \<Rightarrow> bool" where
  "isdigit c \<longleftrightarrow> (48::int) \<le> of_char c \<and> of_char c \<le> (57::int)"

definition is_number :: "string \<Rightarrow> bool" where
  "is_number s \<longleftrightarrow> s \<noteq> [] \<and> list_all isdigit s"

datatype stoi_error = Invalid_argument | Out_of_range

definition decimal :: "string \<Rightarrow> int" where
  "decimal s = fold (\<lambda>c v. 10 * v + (of_char c - 48)) s 0"

text \<open>\<^verbatim>\<open>std::stoi\<close>: leading space, an optional sign, the digits that follow.\<close>

definition stoi :: "string \<Rightarrow> stoi_error + int" where
  "stoi s =
     (let s = dropWhile isspace s;
          (neg, s) = (case s of
             c # t \<Rightarrow> (if c = CHR ''-'' then (True, t) else if c = CHR ''+'' then (False, t) else (False, c # t))
           | [] \<Rightarrow> (False, []));
          ds = takeWhile isdigit s;
          v = (if neg then - decimal ds else decimal ds)
      in if ds = [] then Inl Invalid_argument
         else if v < - (2 ^ 31) \<or> v \<ge> 2 ^ 31 then Inl Out_of_range else Inr v)"

section \<open>Setting\<close>

definition set_param :: "string \<Rightarrow> (string, string) omap \<Rightarrow> (string, string) omap result" where
  "set_param pair m =
     (if CHR ''='' \<notin> set pair then Inl EINVAL
      else
        (let raw = takeWhile (\<lambda>c. c \<noteq> CHR ''='') pair;
             k = filter (\<lambda>c. \<not> isspace c) raw;
             v = filter (\<lambda>c. \<not> isspace c) (drop (Suc (length raw)) pair)
         in if k = [] then Inl EINVAL else Inr (om_assign k v m)))"

text \<open>The pairs before the first bad one stay set.\<close>

function set_params :: "string \<Rightarrow> (string, string) omap \<Rightarrow> int result \<times> (string, string) omap" where
  "set_params params m =
     (if CHR '','' \<in> set params then
        (let pair = takeWhile (\<lambda>c. c \<noteq> CHR '','') params
         in case set_param pair m of
              Inl e \<Rightarrow> (Inl e, m)
            | Inr m \<Rightarrow> set_params (drop (Suc (length pair)) params) m)
      else case set_param params m of Inl e \<Rightarrow> (Inl e, m) | Inr m \<Rightarrow> (Inr 0, m))"
  by pat_completeness auto

termination
proof (relation "measure (\<lambda>(params, m). length params)")
  fix params :: string and m :: "(string, string) omap" and x :: string and x2
  assume "CHR '','' \<in> set params" and "x = takeWhile (\<lambda>c. c \<noteq> CHR '','') params"
  then show "((drop (Suc (length x)) params, x2), params, m) \<in> measure (\<lambda>(params, m). length params)"
    by (cases params) auto
qed simp

definition set_queue_params :: "string \<Rightarrow> 'a queue_scheme \<Rightarrow> int result \<times> 'a queue_scheme" where
  "set_queue_params params q = (case set_params params (m_qparams q) of (r, m) \<Rightarrow> (r, q\<lparr>m_qparams := m\<rparr>))"

definition set_policy_params :: "string \<Rightarrow> 'a queue_scheme \<Rightarrow> int result \<times> 'a queue_scheme" where
  "set_policy_params params q = (case set_params params (m_pparams q) of (r, m) \<Rightarrow> (r, q\<lparr>m_pparams := m\<rparr>))"

section \<open>Applying\<close>

text \<open>One parameter of \<^verbatim>\<open>apply_params\<close>: the change of the return code and of the queue,
  or \<open>Inl\<close> when \<^verbatim>\<open>std::stoi\<close> throws, which leaves the whole function.\<close>

definition apply_depth :: "string \<Rightarrow> (int \<Rightarrow> 'a queue_scheme \<Rightarrow> 'a queue_scheme) \<Rightarrow> 'a queue_scheme
    \<Rightarrow> stoi_error + int \<times> 'a queue_scheme" where
  "apply_depth k f q =
     (case om_find k (m_qparams q) of
        None \<Rightarrow> Inr (0, q)
      | Some s \<Rightarrow>
          (if \<not> is_number s then Inr (- 1, q)
           else case stoi s of
                  Inl e \<Rightarrow> Inl e
                | Inr depth \<Rightarrow> Inr (if depth < 1 then (- 1, q) else (0, f depth q))))"

definition set_max_depth :: "int \<Rightarrow> 'a queue_scheme \<Rightarrow> 'a queue_scheme" where
  "set_max_depth depth q =
     q\<lparr>m_max_queue_depth := depth, m_queue_depth := (if depth < m_queue_depth q then depth else m_queue_depth q)\<rparr>"

definition set_depth :: "int \<Rightarrow> 'a queue_scheme \<Rightarrow> 'a queue_scheme" where
  "set_depth depth q =
     q\<lparr>m_queue_depth := (if depth < m_max_queue_depth q then depth else m_max_queue_depth q)\<rparr>"

definition apply_params :: "'a queue_scheme \<Rightarrow> int \<times> 'a queue_scheme" where
  "apply_params q =
     (case apply_depth ''max-queue-depth'' set_max_depth q of
        Inl _ \<Rightarrow> (- 1, q)
      | Inr (rc1, q) \<Rightarrow>
          (case apply_depth ''queue-depth'' set_depth q of
             Inl _ \<Rightarrow> (- 1, q)
           | Inr (rc2, q) \<Rightarrow> (rc1 + rc2, q)))"

section \<open>Properties\<close>

definition depths_ok :: "'a queue_scheme \<Rightarrow> bool" where
  "depths_ok q \<longleftrightarrow> 1 \<le> m_queue_depth q \<and> m_queue_depth q \<le> m_max_queue_depth q"

lemma apply_depth_ok:
  assumes "apply_depth k f q = Inr (rc, q')" and "depths_ok q"
    and "\<And>d. 1 \<le> d \<Longrightarrow> depths_ok (f d q)"
  shows "depths_ok q'"
  using assms by (auto simp: apply_depth_def split: option.splits if_splits sum.splits)

lemma set_depths_ok:
  assumes "depths_ok q" and "1 \<le> d"
  shows "depths_ok (set_max_depth d q)" and "depths_ok (set_depth d q)"
  using assms by (auto simp: depths_ok_def set_max_depth_def set_depth_def)

lemma apply_params_ok:
  assumes "depths_ok q"
  shows "depths_ok (snd (apply_params q))"
proof (cases "apply_depth ''max-queue-depth'' set_max_depth q")
  case (Inl e)
  with assms show ?thesis by (simp add: apply_params_def)
next
  case (Inr r)
  obtain rc1 q1 where r: "r = (rc1, q1)" by fastforce
  have q1: "depths_ok q1" using apply_depth_ok [OF Inr [unfolded r] assms] set_depths_ok(1) [OF assms] by blast
  show ?thesis
  proof (cases "apply_depth ''queue-depth'' set_depth q1")
    case (Inl e)
    with Inr r q1 show ?thesis by (simp add: apply_params_def)
  next
    case (Inr r2)
    obtain rc2 q2 where r2: "r2 = (rc2, q2)" by fastforce
    have "depths_ok q2" using apply_depth_ok [OF Inr [unfolded r2] q1] set_depths_ok(2) [OF q1] by blast
    with \<open>apply_depth ''max-queue-depth'' set_max_depth q = Inr r\<close> Inr r r2 show ?thesis by (simp add: apply_params_def)
  qed
qed

text \<open>A text printed from pairs whose keys and values hold no separator and no space is read
  back as those pairs, in order.\<close>

definition plain :: "string \<Rightarrow> bool" where
  "plain s \<longleftrightarrow> (\<forall>c\<in>set s. c \<noteq> CHR '','' \<and> c \<noteq> CHR ''='' \<and> \<not> isspace c)"

fun print_params :: "(string \<times> string) list \<Rightarrow> string" where
  "print_params [] = []"
| "print_params [(k, v)] = k @ CHR ''='' # v"
| "print_params ((k, v) # kvs) = k @ CHR ''='' # v @ CHR '','' # print_params kvs"

lemma takeWhile_hit: "\<forall>x\<in>set xs. P x \<Longrightarrow> \<not> P y \<Longrightarrow> takeWhile P (xs @ y # ys) = xs"
  by (simp add: takeWhile_tail)

lemma set_param_pair:
  assumes "plain k" and "plain v" and "k \<noteq> []"
  shows "set_param (k @ CHR ''='' # v) m = Inr (om_assign k v m)"
proof -
  have "takeWhile (\<lambda>c. c \<noteq> CHR ''='') (k @ CHR ''='' # v) = k"
    using assms(1) by (intro takeWhile_hit) (auto simp: plain_def)
  moreover have "filter (\<lambda>c. \<not> isspace c) k = k" "filter (\<lambda>c. \<not> isspace c) v = v"
    using assms(1,2) by (auto simp: plain_def filter_id_conv)
  ultimately show ?thesis using assms(3) by (simp add: set_param_def Let_def)
qed

lemma set_params_print:
  assumes "\<forall>(k, v)\<in>set kvs. plain k \<and> plain v \<and> k \<noteq> []" and "kvs \<noteq> []"
  shows "set_params (print_params kvs) m = (Inr 0, fold (\<lambda>(k, v). om_assign k v) kvs m)"
  using assms
proof (induction kvs arbitrary: m rule: print_params.induct)
  case (2 k v)
  then have "CHR '','' \<notin> set (k @ CHR ''='' # v)" by (auto simp: plain_def)
  with 2 show ?case by (simp add: set_param_pair)
next
  case (3 k v kv kvs)
  let ?pair = "k @ CHR ''='' # v" and ?rest = "print_params (kv # kvs)"
  have t: "takeWhile (\<lambda>c. c \<noteq> CHR '','') (?pair @ CHR '','' # ?rest) = ?pair"
    using 3(2) by (intro takeWhile_hit) (auto simp: plain_def)
  have d: "drop (Suc (length ?pair)) (?pair @ CHR '','' # ?rest) = ?rest" by simp
  have "print_params ((k, v) # kv # kvs) = ?pair @ CHR '','' # ?rest" by simp
  then have "set_params (print_params ((k, v) # kv # kvs)) m =
      (case set_param ?pair m of Inl e \<Rightarrow> (Inl e, m) | Inr m \<Rightarrow> set_params ?rest m)"
    by (subst set_params.simps) (simp only: t d Let_def, simp)
  also have "\<dots> = set_params ?rest (om_assign k v m)"
    using 3(2) by (simp add: set_param_pair)
  also have "\<dots> = (Inr 0, fold (\<lambda>(k, v). om_assign k v) ((k, v) # kv # kvs) m)"
    using 3(1) [of "om_assign k v m"] 3(2) by simp
  finally show ?case .
qed simp

end
