(* ===== verification/Matcher.thy ===== *)
theory Matcher
  imports Queue_Params
begin

text \<open>
  What the match policies share (\<^verbatim>\<open>src/resource/policies/base/matcher.cpp\<close>,
  \<^verbatim>\<open>match_op.cpp\<close>): the match operations and their names, how many resources a jobspec
  asks for, the subsystems of a matcher and its pruning filters.

  Types of resources and subsystems are interned strings; here they are the strings. The
  order of interned strings is that of their interning, which none of these results depends
  on; here it is that of the strings.
\<close>

section \<open>Match operations\<close>

datatype match_op = MATCH_UNKNOWN | MATCH_ALLOCATE | MATCH_ALLOCATE_W_SATISFIABILITY | MATCH_ALLOCATE_ORELSE_RESERVE
  | MATCH_SATISFIABILITY | MATCH_WITHOUT_ALLOCATING | MATCH_WITHOUT_ALLOCATING_FUTURE | END_MATCH_OP

definition opt_map :: "(match_op \<times> string) list" where
  "opt_map = [(MATCH_ALLOCATE, ''allocate''), (MATCH_ALLOCATE_ORELSE_RESERVE, ''allocate_orelse_reserve''),
     (MATCH_ALLOCATE_W_SATISFIABILITY, ''allocate_with_satisfiability''), (MATCH_SATISFIABILITY, ''satisfiability''),
     (MATCH_WITHOUT_ALLOCATING, ''without_allocating''), (MATCH_WITHOUT_ALLOCATING_FUTURE, ''without_allocating_future'')]"

fun op_to_loop :: "(match_op \<times> string) list \<Rightarrow> match_op \<Rightarrow> string result" where
  "op_to_loop [] m = Inl ENOENT"
| "op_to_loop ((op, op_str) # rest) m = (if op = m then Inr op_str else op_to_loop rest m)"

definition match_op_to_string :: "match_op \<Rightarrow> string result" where
  "match_op_to_string m = (if m = END_MATCH_OP then Inl EINVAL else op_to_loop opt_map m)"

fun op_from_loop :: "(match_op \<times> string) list \<Rightarrow> string \<Rightarrow> match_op" where
  "op_from_loop [] str = MATCH_UNKNOWN"
| "op_from_loop ((op, op_str) # rest) str = (if op_str = str then op else op_from_loop rest str)"

text \<open>A null pointer is \<open>None\<close>.\<close>

definition match_op_from_string :: "string option \<Rightarrow> match_op" where
  "match_op_from_string s = (case s of None \<Rightarrow> MATCH_UNKNOWN | Some str \<Rightarrow> op_from_loop opt_map str)"

definition match_op_valid :: "match_op \<Rightarrow> bool" where
  "match_op_valid m \<longleftrightarrow> (case match_op_to_string m of Inl _ \<Rightarrow> False | Inr _ \<Rightarrow> True)"

section \<open>Requests\<close>

datatype tristate = FALSE | TRUE | UNSPECIFIED

record res_count =
  count_min :: int
  count_max :: int
  count_oper :: char
  count_operand :: int

datatype resource = Resource (res_type: string) (request_count: res_count) (res_unit: string) (res_label: string) (res_id: string)
  (res_exclusive: tristate) (res_with: "resource list") (user_data: "(string, int) omap")

text \<open>The loops multiply an \<^verbatim>\<open>unsigned int\<close>. They need not end: \<open>None\<close>.\<close>

partial_function (option) mult_loop :: "int \<Rightarrow> int \<Rightarrow> int \<Rightarrow> int \<Rightarrow> int \<Rightarrow> int option" where
  "mult_loop qc mx operand cnt cur =
     (if cur \<le> qc \<and> cur \<le> mx then mult_loop qc mx operand cur (u32 (cur * u32 operand)) else Some cnt)"

fun pow_times :: "nat \<Rightarrow> int \<Rightarrow> int \<Rightarrow> int" where
  "pow_times 0 base cur = cur"
| "pow_times (Suc n) base cur = pow_times n base (u32 (cur * base))"

partial_function (option) pow_loop :: "int \<Rightarrow> int \<Rightarrow> int \<Rightarrow> int \<Rightarrow> int \<Rightarrow> int option" where
  "pow_loop qc mx operand cnt cur =
     (if cur \<le> qc \<and> cur \<le> mx then pow_loop qc mx operand cur (pow_times (nat (operand - 1)) cur cur) else Some cnt)"

declare mult_loop.simps [code] pow_loop.simps [code]

text \<open>\<open>None\<close> also for the remainder by zero.\<close>

definition calc_count :: "res_count \<Rightarrow> int \<Rightarrow> int option" where
  "calc_count c qc =
     (if count_min c > count_max c \<or> count_min c > qc then Some 0
      else if count_oper c = CHR ''+'' then
        (if u32 (count_operand c) = 0 then None
         else
           (let cnt = (if qc < count_max c then qc else count_max c); range = u32 (cnt - count_min c)
            in Some (u32 (cnt - range mod u32 (count_operand c)))))
      else if count_oper c = CHR ''*'' then
        (if count_operand c = 1 then Some (count_min c)
         else mult_loop qc (count_max c) (count_operand c) 0 (count_min c))
      else if count_oper c = CHR ''^'' then
        (if count_operand c < 2 \<or> count_min c = 1 then Some (count_min c)
         else pow_loop qc (count_max c) (count_operand c) 0 (count_min c))
      else Some 0)"

definition calc_effective_max :: "res_count \<Rightarrow> int option" where
  "calc_effective_max c = calc_count c (2 ^ 32 - 1)"

section \<open>Subsystems\<close>

record matcher_data =
  m_name :: string
  m_err_subsystem :: string
  m_subsystems :: "string list"
  m_subsystems_map :: "(string, (string, unit) omap) omap"

definition new_matcher_data :: "string \<Rightarrow> matcher_data" where
  "new_matcher_data name = \<lparr>m_name = name, m_err_subsystem = ''error'', m_subsystems = [], m_subsystems_map = []\<rparr>"

text \<open>\<^verbatim>\<open>m[k]\<close>, which makes an empty entry when there is none.\<close>

definition om_get :: "'v \<Rightarrow> 'k \<Rightarrow> ('k, 'v) omap \<Rightarrow> 'v" where
  "om_get d k m = (case om_find k m of None \<Rightarrow> d | Some v \<Rightarrow> v)"

definition add_subsystem :: "string \<Rightarrow> string \<Rightarrow> matcher_data \<Rightarrow> int \<times> matcher_data" where
  "add_subsystem s tf d =
     (let e = om_get [] s (m_subsystems_map d)
      in if e = [] then
           (0, d\<lparr>m_subsystems := m_subsystems d @ [s],
                 m_subsystems_map := om_assign s (om_assign tf () e) (m_subsystems_map d)\<rparr>)
         else (- 1, d))"

definition matcher_name :: "matcher_data \<Rightarrow> string" where
  "matcher_name = m_name"

definition set_matcher_name :: "string \<Rightarrow> matcher_data \<Rightarrow> matcher_data" where
  "set_matcher_name name d = d\<lparr>m_name := name\<rparr>"

definition dom_subsystem :: "matcher_data \<Rightarrow> string" where
  "dom_subsystem d = (case m_subsystems d of s # _ \<Rightarrow> s | [] \<Rightarrow> m_err_subsystem d)"

section \<open>Pruning filters\<close>

type_synonym type_set = "(string, unit) omap"

record matcher_util =
  m_x_resource_types :: type_set
  m_pruning_types :: "(string, (string, type_set) omap) omap"
  m_total_set :: "(string, type_set) omap"

definition ANY_RESOURCE_TYPE :: string where
  "ANY_RESOURCE_TYPE = ''*''"

definition has_type :: "string \<Rightarrow> type_set \<Rightarrow> bool" where
  "has_type t s \<longleftrightarrow> om_find t s \<noteq> None"

definition add_at :: "string \<Rightarrow> string \<Rightarrow> (string, type_set) omap \<Rightarrow> (string, type_set) omap" where
  "add_at a p s = om_assign a (om_assign p () (om_get [] a s)) s"

definition set_pruning_type :: "string \<Rightarrow> string \<Rightarrow> string \<Rightarrow> matcher_util \<Rightarrow> matcher_util" where
  "set_pruning_type subsystem anchor_type prune_type u =
     (let s = om_get [] subsystem (m_pruning_types u);
          s = (if anchor_type = ANY_RESOURCE_TYPE then
                 add_at anchor_type prune_type (map (\<lambda>(a, ps). (a, om_erase prune_type ps)) s)
               else
                 (case om_find ANY_RESOURCE_TYPE s of
                    None \<Rightarrow> add_at anchor_type prune_type s
                  | Some ps \<Rightarrow> (if has_type prune_type ps then s else add_at anchor_type prune_type s)))
      in u\<lparr>m_pruning_types := om_assign subsystem s (m_pruning_types u),
           m_total_set := add_at subsystem prune_type (m_total_set u)\<rparr>)"

definition is_my_pruning_type :: "string \<Rightarrow> string \<Rightarrow> string \<Rightarrow> matcher_util \<Rightarrow> bool" where
  "is_my_pruning_type subsystem anchor_type prune_type u =
     (case om_find subsystem (m_pruning_types u) of
        None \<Rightarrow> False
      | Some s \<Rightarrow>
          (case om_find anchor_type s of
             Some m \<Rightarrow> has_type prune_type m
           | None \<Rightarrow> (case om_find ANY_RESOURCE_TYPE s of Some m \<Rightarrow> has_type prune_type m | None \<Rightarrow> False)))"

definition is_pruning_type :: "string \<Rightarrow> string \<Rightarrow> matcher_util \<Rightarrow> bool" where
  "is_pruning_type subsystem prune_type u =
     (case om_find subsystem (m_total_set u) of None \<Rightarrow> False | Some s \<Rightarrow> has_type prune_type s)"

definition get_my_pruning_types :: "string \<Rightarrow> string \<Rightarrow> matcher_util \<Rightarrow> bool \<times> string list" where
  "get_my_pruning_types subsystem anchor_type u =
     (case om_find subsystem (m_pruning_types u) of
        None \<Rightarrow> (False, [])
      | Some s \<Rightarrow>
          (True,
           (case om_find anchor_type s of Some m \<Rightarrow> map fst m | None \<Rightarrow> []) @
           (if anchor_type \<noteq> ANY_RESOURCE_TYPE then
              (case om_find ANY_RESOURCE_TYPE s of Some m \<Rightarrow> filter (\<lambda>k. k \<noteq> anchor_type) (map fst m) | None \<Rightarrow> [])
            else [])))"

text \<open>A pair without its colon fails without an error number.\<close>

definition register_resource_pair :: "string \<Rightarrow> string \<Rightarrow> matcher_util \<Rightarrow> int result \<times> matcher_util" where
  "register_resource_pair subsystem r_pair u =
     (if CHR '':'' \<notin> set r_pair then (Inl UNSET, u)
      else
        (let raw = takeWhile (\<lambda>c. c \<noteq> CHR '':'') r_pair;
             h = filter (\<lambda>c. \<not> isspace c) raw;
             l = filter (\<lambda>c. \<not> isspace c) (drop (Suc (length raw)) r_pair)
         in if h = [] then (Inl EINVAL, u)
            else if l = [] then (Inl EINVAL, u)
            else (Inr 0, set_pruning_type subsystem (if h = ''ALL'' then ANY_RESOURCE_TYPE else h) l u)))"

function set_pruning_types_w_spec :: "string \<Rightarrow> string \<Rightarrow> matcher_util \<Rightarrow> int result \<times> matcher_util" where
  "set_pruning_types_w_spec subsystem spec u =
     (if CHR '','' \<in> set spec then
        (let pair = takeWhile (\<lambda>c. c \<noteq> CHR '','') spec
         in case register_resource_pair subsystem pair u of
              (Inl e, u) \<Rightarrow> (Inl e, u)
            | (Inr _, u) \<Rightarrow> set_pruning_types_w_spec subsystem (drop (Suc (length pair)) spec) u)
      else register_resource_pair subsystem spec u)"
  by pat_completeness auto

termination
proof (relation "measure (\<lambda>(subsystem, spec, u). length spec)")
  fix subsystem spec :: string and u :: matcher_util and x :: string and xa y xb
  assume "CHR '','' \<in> set spec" and "x = takeWhile (\<lambda>c. c \<noteq> CHR '','') spec"
  then show "((subsystem, drop (Suc (length x)) spec, y), subsystem, spec, u) \<in> measure (\<lambda>(subsystem, spec, u). length spec)"
    by (cases spec) auto
qed simp

definition add_exclusive_resource_type :: "string \<Rightarrow> matcher_util \<Rightarrow> int \<times> matcher_util" where
  "add_exclusive_resource_type t u = (0, u\<lparr>m_x_resource_types := om_assign t () (m_x_resource_types u)\<rparr>)"

definition reset_exclusive_resource_types :: "type_set \<Rightarrow> matcher_util \<Rightarrow> int \<times> matcher_util" where
  "reset_exclusive_resource_types ts u = (0, u\<lparr>m_x_resource_types := ts\<rparr>)"

definition is_resource_type_exclusive :: "string \<Rightarrow> matcher_util \<Rightarrow> bool" where
  "is_resource_type_exclusive t u = has_type t (m_x_resource_types u)"

lemma om_get_assign: "om_ok m \<Longrightarrow> om_get d a (om_assign b v m) = (if a = b then v else om_get d a m)"
  by (simp add: om_get_def om_find_assign)

end
