(* ===== verification/Ygg_RBTree.thy ===== *)
theory Ygg_RBTree
  imports Fluxion_Prelude
begin

text \<open>
  The intrusive red-black tree \<^verbatim>\<open>ygg::RBTree\<close>
  (\<^verbatim>\<open>src/src/common/yggdrasil/rbtree.cpp\<close>, \<^verbatim>\<open>bst.cpp\<close>,
  \<^verbatim>\<open>tree_iterator.cpp\<close>) on which both trees of the planner are built.

  A node pointer together with the parent pointers above it is a cursor: the subtree
  whose root is the node, and the list of frames from its parent up to the root. Going
  to \<^verbatim>\<open>get_parent()\<close> takes the first frame, the loops that climb
  the tree are recursions over the frame list. The hooks of the
  \<^verbatim>\<open>NodeTraits\<close> template parameter are a record of functions on
  cursors. A step through a null pointer is \<open>None\<close>.

  The theory holds the operations and the facts that do not depend on balance: which
  sequence of elements each operation leaves in the tree, and that a trait which only
  writes into the nodes' own bookkeeping does not change what the tree does
  (locale \<open>traits\<close>).
\<close>

section \<open>Nodes, cursors, traits\<close>

datatype color = RED | BLACK

datatype 'a rbtree = Null | Node color "'a rbtree" 'a "'a rbtree"

text \<open>\<open>InLeft c x r\<close>: the cursor is the left child of a node of colour \<open>c\<close> with
  content \<open>x\<close> and right subtree \<open>r\<close>; \<open>InRight\<close> likewise.\<close>

datatype 'a frame = InLeft color 'a "'a rbtree" | InRight color "'a rbtree" 'a

type_synonym 'a cursor = "'a rbtree \<times> 'a frame list"

fun plug1 :: "'a frame \<Rightarrow> 'a rbtree \<Rightarrow> 'a rbtree" where
  "plug1 (InLeft c x r) t = Node c t x r"
| "plug1 (InRight c l x) t = Node c l x t"

fun plug :: "'a rbtree \<Rightarrow> 'a frame list \<Rightarrow> 'a rbtree" where
  "plug t [] = t"
| "plug t (f # ctx) = plug (plug1 f t) ctx"

fun up :: "'a cursor \<Rightarrow> 'a cursor" where
  "up (t, []) = (t, [])"
| "up (t, f # ctx) = (plug1 f t, ctx)"

fun is_left :: "'a frame \<Rightarrow> bool" where
  "is_left (InLeft _ _ _) = True"
| "is_left (InRight _ _ _) = False"

fun is_red :: "'a rbtree \<Rightarrow> bool" where
  "is_red Null = False"
| "is_red (Node c _ _ _) = (c = RED)"

text \<open>``null or black'', the test the code applies to nephews.\<close>

abbreviation is_black :: "'a rbtree \<Rightarrow> bool" where
  "is_black t \<equiv> \<not> is_red t"

fun frame_color :: "'a frame \<Rightarrow> color" where
  "frame_color (InLeft c _ _) = c"
| "frame_color (InRight c _ _) = c"

fun sibling :: "'a frame \<Rightarrow> 'a rbtree" where
  "sibling (InLeft _ _ r) = r"
| "sibling (InRight _ l _) = l"

fun paint :: "color \<Rightarrow> 'a rbtree \<Rightarrow> 'a rbtree" where
  "paint c Null = Null"
| "paint c (Node _ l x r) = Node c l x r"

fun paint_frame :: "color \<Rightarrow> 'a frame \<Rightarrow> 'a frame" where
  "paint_frame c (InLeft _ x r) = InLeft c x r"
| "paint_frame c (InRight _ l x) = InRight c l x"

fun paint_sibling :: "color \<Rightarrow> 'a frame \<Rightarrow> 'a frame" where
  "paint_sibling c (InLeft c' x r) = InLeft c' x (paint c r)"
| "paint_sibling c (InRight c' l x) = InRight c' (paint c l) x"

fun set_color :: "color \<Rightarrow> 'a cursor \<Rightarrow> 'a cursor" where
  "set_color c (t, ctx) = (paint c t, ctx)"

fun set_parent_color :: "color \<Rightarrow> 'a cursor \<Rightarrow> 'a cursor" where
  "set_parent_color c (t, []) = (t, [])"
| "set_parent_color c (t, f # ctx) = (t, paint_frame c f # ctx)"

text \<open>
  The hooks: \<open>leaf_inserted\<close>, \<open>rotated_left\<close>, \<open>rotated_right\<close> and
  \<open>deleted_below\<close> are called at the cursor's node; \<open>swapped k\<close> is called with the
  cursor at the lower of the two exchanged nodes, the upper one being \<open>k + 1\<close> levels
  above. The \<open>delete_leaf\<close> hook is empty in every instance of the program.
\<close>

record 'a node_traits =
  leaf_inserted :: "'a cursor \<Rightarrow> 'a cursor"
  rotated_left :: "'a cursor \<Rightarrow> 'a cursor"
  rotated_right :: "'a cursor \<Rightarrow> 'a cursor"
  deleted_below :: "'a cursor \<Rightarrow> 'a cursor"
  swapped :: "nat \<Rightarrow> 'a cursor \<Rightarrow> 'a cursor"

definition default_traits :: "'a node_traits" where
  "default_traits = \<lparr>leaf_inserted = id, rotated_left = id, rotated_right = id,
     deleted_below = id, swapped = (\<lambda>_. id)\<rparr>"

lemma default_traits_sel [simp]:
  "leaf_inserted default_traits z = z" "rotated_left default_traits z = z"
  "rotated_right default_traits z = z" "deleted_below default_traits z = z"
  "swapped default_traits k z = z"
  by (simp_all add: default_traits_def)

section \<open>Insertion\<close>

fun rotate_left :: "'a node_traits \<Rightarrow> 'a cursor \<Rightarrow> 'a cursor option" where
  "rotate_left tr (Node c l x (Node c' l' x' r'), ctx) =
     Some (rotated_left tr (Node c l x l', InLeft c' x' r' # ctx))"
| "rotate_left tr z = None"

fun rotate_right :: "'a node_traits \<Rightarrow> 'a cursor \<Rightarrow> 'a cursor option" where
  "rotate_right tr (Node c (Node c' l' x' r') x r, ctx) =
     Some (rotated_right tr (Node c r' x r, InRight c' l' x' # ctx))"
| "rotate_right tr z = None"

text \<open>
  The rotations that end \<^verbatim>\<open>fixup_after_insert\<close>: the cursor is at the
  parent, \<open>gl\<close> says that the parent is its parent's left child, \<open>pl\<close> that the
  node is the parent's left child (``straight'' when both agree, ``folded in'' otherwise).
\<close>

definition fixup_insert_rotate ::
  "'a node_traits \<Rightarrow> bool \<Rightarrow> bool \<Rightarrow> 'a cursor \<Rightarrow> 'a rbtree option" where
  "fixup_insert_rotate tr gl pl z =
     (if gl then do {
        z \<leftarrow> (if pl then Some (set_color BLACK z)
             else map_option (\<lambda>z. up (set_parent_color BLACK z)) (rotate_left tr z));
        z \<leftarrow> rotate_right tr (up z);
        Some (case_prod plug (set_color RED z))
      } else do {
        z \<leftarrow> (if pl then map_option (\<lambda>z. up (set_parent_color BLACK z)) (rotate_right tr z)
             else Some (set_color BLACK z));
        z \<leftarrow> rotate_left tr (up z);
        Some (case_prod plug (set_color RED z))
      })"

fun fixup_after_insert :: "'a node_traits \<Rightarrow> 'a rbtree \<Rightarrow> 'a frame list \<Rightarrow> 'a rbtree option" where
  "fixup_after_insert tr n [] = None"
| "fixup_after_insert tr n [p] =
     (if frame_color p = BLACK then Some (plug n [p]) else None)"
| "fixup_after_insert tr n (p # g # ctx) =
     (if frame_color p = BLACK then Some (plug n (p # g # ctx))
      else if is_red (sibling g) then
        (let p' = paint_frame BLACK p; g' = paint_sibling BLACK g
         in if ctx = [] then Some (plug n [p', g'])
            else fixup_after_insert tr (plug1 (paint_frame RED g') (plug1 p' n)) ctx)
      else fixup_insert_rotate tr (is_left g) (is_left p) (plug1 p n, g # ctx))"

text \<open>The descent of \<^verbatim>\<open>insert_leaf_base\<close>: right when the visited node is
  strictly smaller, left otherwise, so that an equal element goes to the left.\<close>

fun insert_path :: "('a \<Rightarrow> 'k::linorder) \<Rightarrow> 'k \<Rightarrow> 'a rbtree \<Rightarrow> 'a frame list \<Rightarrow> 'a frame list" where
  "insert_path key k Null ctx = ctx"
| "insert_path key k (Node c l y r) ctx =
     (if key y < k then insert_path key k r (InRight c l y # ctx)
      else insert_path key k l (InLeft c y r # ctx))"

definition insert_leaf_base ::
  "'a node_traits \<Rightarrow> ('a \<Rightarrow> 'k::linorder) \<Rightarrow> 'a \<Rightarrow> 'a rbtree \<Rightarrow> 'a rbtree option" where
  "insert_leaf_base tr key x t =
     (case insert_path key (key x) t [] of
        [] \<Rightarrow> Some (case_prod plug (leaf_inserted tr (Node BLACK Null x Null, [])))
      | f # ctx \<Rightarrow>
          (case leaf_inserted tr (Node RED Null x Null, f # ctx) of
             (n, ctx') \<Rightarrow> fixup_after_insert tr n ctx'))"

section \<open>Removal\<close>

fun down :: "bool \<Rightarrow> 'a cursor \<Rightarrow> 'a cursor" where
  "down left (Null, ctx) = (Null, ctx)"
| "down left (Node c l x r, ctx) =
     (if left then (l, InLeft c x r # ctx) else (r, InRight c l x # ctx))"

fun swap_color_with_parent :: "'a cursor \<Rightarrow> 'a cursor" where
  "swap_color_with_parent (Node c l x r, f # ctx) =
     (Node (frame_color f) l x r, paint_frame c f # ctx)"
| "swap_color_with_parent z = z"

fun blacken_sibling :: "'a cursor \<Rightarrow> 'a cursor option" where
  "blacken_sibling (t, f # ctx) =
     (if sibling f = Null then None else Some (t, paint_sibling BLACK f # ctx))"
| "blacken_sibling (t, []) = None"

definition rotate :: "'a node_traits \<Rightarrow> bool \<Rightarrow> 'a cursor \<Rightarrow> 'a cursor option" where
  "rotate tr left z = (if left then rotate_left tr z else rotate_right tr z)"

text \<open>
  Case 2 of the deletion fixup: a red sibling is rotated up. The cursor stays at the
  parent; \<open>dl\<close> says that the node was deleted on the parent's left.
\<close>

definition fixup_delete_case2 :: "'a node_traits \<Rightarrow> bool \<Rightarrow> 'a cursor \<Rightarrow> 'a cursor option" where
  "fixup_delete_case2 tr dl z =
     (if is_red (fst (down (\<not> dl) z))
      then rotate tr dl (set_color RED (up (set_color BLACK (down (\<not> dl) z))))
      else Some z)"

text \<open>Cases 5 and 6: unfold the sibling when its far child is not red, then rotate the
  parent down, exchange the colours of parent and sibling, blacken the far nephew.\<close>

definition fixup_delete_case56 :: "'a node_traits \<Rightarrow> bool \<Rightarrow> 'a cursor \<Rightarrow> 'a rbtree option" where
  "fixup_delete_case56 tr dl z = do {
     z \<leftarrow> (let s = down (\<not> dl) z
          in if is_black (fst (down (\<not> dl) s))
             then map_option (\<lambda>z. up (up (set_parent_color BLACK (set_color RED z))))
                    (rotate tr (\<not> dl) s)
             else Some z);
     z \<leftarrow> rotate tr dl z;
     z \<leftarrow> blacken_sibling (swap_color_with_parent z);
     Some (case_prod plug z)
   }"

definition fixup_delete_finish :: "'a node_traits \<Rightarrow> bool \<Rightarrow> 'a cursor \<Rightarrow> 'a rbtree option" where
  "fixup_delete_finish tr dl z = do {
     z \<leftarrow> fixup_delete_case2 tr dl z;
     (case fst (down (\<not> dl) z) of
        Null \<Rightarrow> None
      | Node sc sl sx sr \<Rightarrow>
          (if sc = BLACK \<and> is_black sl \<and> is_black sr
           then Some (case_prod plug (set_color BLACK (up (set_color RED (down (\<not> dl) z)))))
           else fixup_delete_case56 tr dl z))
   }"

fun fixup_after_delete ::
  "'a node_traits \<Rightarrow> 'a rbtree \<Rightarrow> 'a frame list \<Rightarrow> bool \<Rightarrow> 'a rbtree option" where
  "fixup_after_delete tr p ctx dl =
     (case p of
        Null \<Rightarrow> None
      | Node pc l x r \<Rightarrow>
        (case (if dl then r else l) of
           Null \<Rightarrow> None
         | Node sc sl sx sr \<Rightarrow>
           (if pc = BLACK \<and> sc = BLACK \<and> is_black sl \<and> is_black sr
            then (let p' = (if dl then Node pc l x (Node RED sl sx sr)
                            else Node pc (Node RED sl sx sr) x r)
                  in case ctx of
                       [] \<Rightarrow> Some p'
                     | f # ctx' \<Rightarrow> fixup_after_delete tr (plug1 f p') ctx' (is_left f))
            else fixup_delete_finish tr dl (p, ctx))))"

declare fixup_after_delete.simps [simp del]

fun leftmost :: "'a rbtree \<Rightarrow> 'a frame list \<Rightarrow> 'a cursor" where
  "leftmost (Node c (Node c' l' x' r') x r) ctx = leftmost (Node c' l' x' r') (InLeft c x r # ctx)"
| "leftmost t ctx = (t, ctx)"

text \<open>
  The first half of \<^verbatim>\<open>remove_to_leaf\<close>: the node is exchanged with the
  leftmost node of its right subtree, or with its only left child. The exchange moves
  the contents; the colours stay at their positions
  (\<^verbatim>\<open>swap_nodes (.., .., false)\<close>).
\<close>

fun swap_to_leaf :: "'a node_traits \<Rightarrow> 'a cursor \<Rightarrow> 'a cursor" where
  "swap_to_leaf tr (Node c l x r, ctx) =
     (case leftmost r [] of
        (Node cc cl y cr, cm) \<Rightarrow>
          (if l \<noteq> Null
           then swapped tr (length cm) (Node cc cl x cr, cm @ InRight c l y # ctx)
           else (Node c l x r, ctx))
      | (Null, cm) \<Rightarrow>
          (case l of
             Node cc cl y cr \<Rightarrow> swapped tr 0 (Node cc cl x cr, InLeft c y r # ctx)
           | Null \<Rightarrow> (Node c l x r, ctx)))"
| "swap_to_leaf tr z = z"

text \<open>
  The second half: a pseudo-leaf with a right child is exchanged with that child
  (which keeps its own colour, \<^verbatim>\<open>swap_nodes (.., .., true)\<close>, and is then
  blackened); a leaf is unlinked, and when it was black the fixup starts at its parent.
\<close>

fun unlink_leaf :: "'a node_traits \<Rightarrow> 'a cursor \<Rightarrow> 'a rbtree option" where
  "unlink_leaf tr (Node c l x (Node rc rl y rr), ctx) =
     (case swapped tr 0 (Node c rl x rr, InRight rc l y # ctx) of
        (_, InRight rc' l' y' # ctx') \<Rightarrow>
          Some (case_prod plug (deleted_below tr (Node BLACK l' y' Null, ctx')))
      | _ \<Rightarrow> None)"
| "unlink_leaf tr (Node c l x Null, []) = Some Null"
| "unlink_leaf tr (Node c l x Null, f # ctx) =
     (case deleted_below tr (plug1 f Null, ctx) of
        (p, ctx') \<Rightarrow>
          (if c = BLACK then fixup_after_delete tr p ctx' (is_left f) else Some (plug p ctx')))"
| "unlink_leaf tr (Null, ctx) = None"

definition remove_to_leaf :: "'a node_traits \<Rightarrow> 'a cursor \<Rightarrow> 'a rbtree option" where
  "remove_to_leaf tr z = unlink_leaf tr (swap_to_leaf tr z)"

text \<open>The position of a node, found by its identity: what a node reference and the
  parent pointers give the code directly.\<close>

fun locate :: "('a \<Rightarrow> bool) \<Rightarrow> 'a rbtree \<Rightarrow> 'a frame list \<Rightarrow> 'a cursor option" where
  "locate P Null ctx = None"
| "locate P (Node c l x r) ctx =
     (if P x then Some (Node c l x r, ctx)
      else case locate P l (InLeft c x r # ctx) of
             Some z \<Rightarrow> Some z
           | None \<Rightarrow> locate P r (InRight c l x # ctx))"

definition rb_remove :: "'a node_traits \<Rightarrow> ('a \<Rightarrow> bool) \<Rightarrow> 'a rbtree \<Rightarrow> 'a rbtree option" where
  "rb_remove tr P t = locate P t [] \<bind> remove_to_leaf tr"

section \<open>Searching and iterating\<close>

fun find_loop :: "('a \<Rightarrow> 'k::linorder) \<Rightarrow> 'k \<Rightarrow> 'a rbtree \<Rightarrow> 'a option \<Rightarrow> 'a option" where
  "find_loop key q Null last_left = last_left"
| "find_loop key q (Node c l x r) last_left =
     (if key x < q then find_loop key q r last_left else find_loop key q l (Some x))"

definition rb_find :: "('a \<Rightarrow> 'k::linorder) \<Rightarrow> 'k \<Rightarrow> 'a rbtree \<Rightarrow> 'a option" where
  "rb_find key q t =
     (case find_loop key q t None of
        Some x \<Rightarrow> if \<not> q < key x then Some x else None
      | None \<Rightarrow> None)"

text \<open>\<^verbatim>\<open>step_forward\<close>: down to the leftmost node of the right subtree,
  or up past the frames in which the node is a right child.\<close>

fun climb_right :: "'a cursor \<Rightarrow> 'a cursor option" where
  "climb_right (t, []) = None"
| "climb_right (t, InLeft c x r # ctx) = Some (Node c t x r, ctx)"
| "climb_right (t, InRight c l x # ctx) = climb_right (Node c l x t, ctx)"

fun step_forward :: "'a cursor \<Rightarrow> 'a cursor option" where
  "step_forward (Null, ctx) = None"
| "step_forward (Node c l x r, ctx) =
     (if r \<noteq> Null then Some (leftmost r (InRight c l x # ctx))
      else climb_right (Node c l x r, ctx))"

fun cursor_data :: "'a cursor \<Rightarrow> 'a option" where
  "cursor_data (Null, ctx) = None"
| "cursor_data (Node c l x r, ctx) = Some x"

fun get_smallest :: "'a rbtree \<Rightarrow> 'a option" where
  "get_smallest t = cursor_data (leftmost t [])"

section \<open>The integrity checks of the library\<close>

fun verify_red_black :: "'a rbtree \<Rightarrow> bool" where
  "verify_red_black Null = True"
| "verify_red_black (Node c l x r) =
     ((c = RED \<longrightarrow> \<not> is_red r \<and> \<not> is_red l) \<and> verify_red_black l \<and> verify_red_black r)"

fun verify_black_paths :: "'a rbtree \<Rightarrow> nat option" where
  "verify_black_paths Null = Some 0"
| "verify_black_paths (Node c l x r) =
     (case (verify_black_paths l, verify_black_paths r) of
        (Some m, Some n) \<Rightarrow>
          if m = n then Some (if c = BLACK then m + 1 else m) else None
      | _ \<Rightarrow> None)"

definition verify_black_root :: "'a rbtree \<Rightarrow> bool" where
  "verify_black_root t \<longleftrightarrow> \<not> is_red t"

definition dbg_verify :: "'a rbtree \<Rightarrow> bool" where
  "dbg_verify t \<longleftrightarrow>
     verify_black_paths t \<noteq> None \<and> verify_red_black t \<and> verify_black_root t"

section \<open>The sequence of elements\<close>

fun inorder :: "'a rbtree \<Rightarrow> 'a list" where
  "inorder Null = []"
| "inorder (Node c l x r) = inorder l @ x # inorder r"

fun before :: "'a frame list \<Rightarrow> 'a list" where
  "before [] = []"
| "before (InLeft c x r # ctx) = before ctx"
| "before (InRight c l x # ctx) = before ctx @ inorder l @ [x]"

fun after :: "'a frame list \<Rightarrow> 'a list" where
  "after [] = []"
| "after (InLeft c x r # ctx) = x # inorder r @ after ctx"
| "after (InRight c l x # ctx) = after ctx"

lemma inorder_plug: "inorder (plug t ctx) = before ctx @ inorder t @ after ctx"
proof (induction ctx arbitrary: t)
  case (Cons f ctx)
  then show ?case by (cases f) auto
qed simp

lemma before_append: "before (xs @ ys) = before ys @ before xs"
proof (induction xs)
  case (Cons f xs)
  then show ?case by (cases f) auto
qed simp

lemma after_append: "after (xs @ ys) = after xs @ after ys"
proof (induction xs)
  case (Cons f xs)
  then show ?case by (cases f) auto
qed simp

lemma inorder_paint [simp]: "inorder (paint c t) = inorder t"
  by (cases t) auto

lemma inorder_plug1_paint [simp]: "inorder (plug1 (paint_frame c f) t) = inorder (plug1 f t)"
  by (cases f) auto

lemma before_paint [simp]: "before (paint_frame c f # ctx) = before (f # ctx)"
  by (cases f) auto

lemma after_paint [simp]: "after (paint_frame c f # ctx) = after (f # ctx)"
  by (cases f) auto

lemma before_paint_sibling [simp]: "before (paint_sibling c f # ctx) = before (f # ctx)"
  by (cases f) auto

lemma after_paint_sibling [simp]: "after (paint_sibling c f # ctx) = after (f # ctx)"
  by (cases f) auto

section \<open>Traits that only write bookkeeping\<close>

text \<open>
  \<open>erase p\<close> forgets, at every node of a cursor, what \<open>p\<close> does not see. A trait
  whose hooks are invisible after erasure leaves the shape of the tree to the default
  traits: the operation and its default version agree after erasure.
\<close>

definition erase :: "('a \<Rightarrow> 'b) \<Rightarrow> 'a cursor \<Rightarrow> 'b cursor" where
  "erase p z = (map_rbtree p (fst z), map (map_frame p) (snd z))"

lemma erase_pair [simp]: "erase p (t, ctx) = (map_rbtree p t, map (map_frame p) ctx)"
  by (simp add: erase_def)

lemma map_plug1 [simp]: "map_rbtree p (plug1 f t) = plug1 (map_frame p f) (map_rbtree p t)"
  by (cases f) auto

lemma map_plug [simp]: "map_rbtree p (plug t ctx) = plug (map_rbtree p t) (map (map_frame p) ctx)"
  by (induction ctx arbitrary: t) auto

lemma map_plug_cursor: "map_rbtree p (case_prod plug z) = case_prod plug (erase p z)"
  by (cases z) simp

lemma map_eq_Null [simp]: "map_rbtree p t = Null \<longleftrightarrow> t = Null"
  by (cases t) auto

lemma is_red_map [simp]: "is_red (map_rbtree p t) = is_red t"
  by (cases t) auto

lemma is_left_map [simp]: "is_left (map_frame p f) = is_left f"
  by (cases f) auto

lemma frame_color_map [simp]: "frame_color (map_frame p f) = frame_color f"
  by (cases f) auto

lemma sibling_map [simp]: "sibling (map_frame p f) = map_rbtree p (sibling f)"
  by (cases f) auto

lemma paint_map: "map_rbtree p (paint c t) = paint c (map_rbtree p t)"
  by (cases t) auto

lemma paint_frame_map: "map_frame p (paint_frame c f) = paint_frame c (map_frame p f)"
  by (cases f) auto

lemma paint_sibling_map: "map_frame p (paint_sibling c f) = paint_sibling c (map_frame p f)"
  by (cases f) (auto simp: paint_map)

lemma erase_up: "erase p (up z) = up (erase p z)"
  by (cases z rule: up.cases) auto

lemma erase_down: "erase p (down b z) = down b (erase p z)"
  by (cases "(b, z)" rule: down.cases) auto

lemma erase_set_color: "erase p (set_color c z) = set_color c (erase p z)"
  by (cases z) (auto simp: paint_map)

lemma erase_set_parent_color: "erase p (set_parent_color c z) = set_parent_color c (erase p z)"
  by (cases "(c, z)" rule: set_parent_color.cases) (auto simp: paint_frame_map)

lemma erase_swap_color: "erase p (swap_color_with_parent z) = swap_color_with_parent (erase p z)"
  by (cases z rule: swap_color_with_parent.cases) (auto simp: paint_frame_map)

lemma erase_blacken_sibling:
  "map_option (erase p) (blacken_sibling z) = blacken_sibling (erase p z)"
  by (cases z rule: blacken_sibling.cases) (auto simp: paint_sibling_map)

lemma erase_leftmost: "erase p (leftmost t ctx) = leftmost (map_rbtree p t) (map (map_frame p) ctx)"
  by (induction t ctx rule: leftmost.induct) auto

lemma fst_down_erase: "fst (down b (erase p z)) = map_rbtree p (fst (down b z))"
  by (simp flip: erase_down) (simp add: erase_def)

lemmas erase_simps = map_plug_cursor erase_up erase_down erase_set_color
  erase_set_parent_color erase_swap_color paint_map paint_frame_map paint_sibling_map

lemma insert_path_map:
  assumes "\<And>x. key' (p x) = key x"
  shows "map (map_frame p) (insert_path key k t ctx) =
    insert_path key' k (map_rbtree p t) (map (map_frame p) ctx)"
  by (induction t arbitrary: ctx) (auto simp: assms)

lemma locate_map:
  assumes "\<And>x. Q (p x) = P x"
  shows "map_option (erase p) (locate P t ctx) = locate Q (map_rbtree p t) (map (map_frame p) ctx)"
proof (induction t arbitrary: ctx)
  case (Node c l x r)
  show ?case
    using Node.IH(1) [of "InLeft c x r # ctx"] Node.IH(2) [of "InRight c l x # ctx"]
    by (auto simp: assms split: option.splits)
qed simp

lemma inorder_map: "inorder (map_rbtree p t) = map p (inorder t)"
  by (induction t) auto

lemma verify_red_black_map [simp]: "verify_red_black (map_rbtree p t) = verify_red_black t"
  by (induction t) auto

lemma verify_black_paths_map [simp]: "verify_black_paths (map_rbtree p t) = verify_black_paths t"
  by (induction t) (auto split: option.splits)

lemma dbg_verify_map [simp]: "dbg_verify (map_rbtree p t) = dbg_verify t"
  by (simp add: dbg_verify_def verify_black_root_def)

locale traits =
  fixes tr :: "'a node_traits" and proj :: "'a \<Rightarrow> 'b"
  assumes erase_leaf_inserted: "erase proj (leaf_inserted tr z) = erase proj z"
    and erase_rotated_left: "erase proj (rotated_left tr z) = erase proj z"
    and erase_rotated_right: "erase proj (rotated_right tr z) = erase proj z"
    and erase_deleted_below: "erase proj (deleted_below tr z) = erase proj z"
    and erase_swapped: "erase proj (swapped tr k z) = erase proj z"
begin

lemmas erase_hooks = erase_leaf_inserted erase_rotated_left erase_rotated_right
  erase_deleted_below erase_swapped

lemma erase_rotate_left:
  "map_option (erase proj) (rotate_left tr z) = rotate_left default_traits (erase proj z)"
  by (cases "(tr, z)" rule: rotate_left.cases) (auto simp: erase_hooks)

lemma erase_rotate_right:
  "map_option (erase proj) (rotate_right tr z) = rotate_right default_traits (erase proj z)"
  by (cases "(tr, z)" rule: rotate_right.cases) (auto simp: erase_hooks)

lemma erase_rotate:
  "map_option (erase proj) (rotate tr b z) = rotate default_traits b (erase proj z)"
  by (simp add: rotate_def erase_rotate_left erase_rotate_right)

lemma erase_fixup_insert_rotate:
  "map_option (map_rbtree proj) (fixup_insert_rotate tr gl pl z) =
   fixup_insert_rotate default_traits gl pl (erase proj z)"
proof -
  note rot = erase_rotate_left [symmetric] erase_rotate_right [symmetric]
  have r: "rotate_right default_traits (up (set_color BLACK (erase proj z))) =
      map_option (erase proj) (rotate_right tr (up (set_color BLACK z)))"
    and l: "rotate_left default_traits (up (set_color BLACK (erase proj z))) =
      map_option (erase proj) (rotate_left tr (up (set_color BLACK z)))" for z
    by (simp_all add: erase_rotate_left erase_rotate_right erase_simps)
  have r': "rotate_right default_traits (up (up (set_parent_color BLACK (erase proj z)))) =
      map_option (erase proj) (rotate_right tr (up (up (set_parent_color BLACK z))))"
    and l': "rotate_left default_traits (up (up (set_parent_color BLACK (erase proj z)))) =
      map_option (erase proj) (rotate_left tr (up (up (set_parent_color BLACK z))))" for z
    by (simp_all add: erase_rotate_left erase_rotate_right erase_simps)
  show ?thesis
    by (simp add: fixup_insert_rotate_def rot r l r' l' map_option_bind bind_map_option
          bind_map_option [where f = "\<lambda>z. up (set_parent_color BLACK z)"] erase_simps
          del: erase_pair)
qed

lemma erase_fixup_after_insert:
  "map_option (map_rbtree proj) (fixup_after_insert tr n ctx) =
   fixup_after_insert default_traits (map_rbtree proj n) (map (map_frame proj) ctx)"
proof (induction ctx arbitrary: n rule: induct_list012)
  case (3 p g ctx)
  then show ?case
    by (simp add: Let_def erase_simps erase_fixup_insert_rotate)
qed auto

lemma erase_insert_leaf_base:
  assumes "\<And>x. key' (proj x) = key x"
  shows "map_option (map_rbtree proj) (insert_leaf_base tr key x t) =
    insert_leaf_base default_traits key' (proj x) (map_rbtree proj t)"
proof -
  have path: "insert_path key' (key x) (map_rbtree proj t) [] =
      map (map_frame proj) (insert_path key (key x) t [])"
    using insert_path_map [of key' proj key "key x" t "[]"] assms by simp
  show ?thesis
  proof (cases "insert_path key (key x) t []")
    case Nil
    have "erase proj (leaf_inserted tr (Node BLACK Null x Null, [])) =
        (Node BLACK Null (proj x) Null, [])"
      by (simp add: erase_hooks)
    with Nil path show ?thesis
      by (simp add: insert_leaf_base_def assms map_plug_cursor del: erase_pair)
  next
    case (Cons f ctx)
    obtain n ctx' where z: "leaf_inserted tr (Node RED Null x Null, f # ctx) = (n, ctx')"
      by fastforce
    with erase_leaf_inserted [of "(Node RED Null x Null, f # ctx)"]
    have "map_rbtree proj n = Node RED Null (proj x) Null"
      and "map (map_frame proj) ctx' = map_frame proj f # map (map_frame proj) ctx"
      by simp_all
    with Cons path z erase_fixup_after_insert [of n ctx'] show ?thesis
      by (simp add: insert_leaf_base_def assms)
  qed
qed

lemma erase_case2:
  "map_option (erase proj) (fixup_delete_case2 tr dl z) =
   fixup_delete_case2 default_traits dl (erase proj z)"
  by (simp add: fixup_delete_case2_def erase_rotate erase_simps fst_down_erase del: erase_pair)

lemma erase_case56:
  "map_option (map_rbtree proj) (fixup_delete_case56 tr dl z) =
   fixup_delete_case56 default_traits dl (erase proj z)"
proof -
  have d: "down b (down b' (erase proj z)) = erase proj (down b (down b' z))" for b b' z
    by (simp add: erase_simps)
  have r1: "rotate default_traits b (down b' (erase proj z)) =
      map_option (erase proj) (rotate tr b (down b' z))" for b b' z
    by (simp add: erase_rotate erase_simps)
  have r2: "rotate default_traits b (erase proj z) = map_option (erase proj) (rotate tr b z)" for b z
    by (simp add: erase_rotate)
  have r3: "rotate default_traits b (up (up (set_parent_color c (set_color c' (erase proj z))))) =
      map_option (erase proj) (rotate tr b (up (up (set_parent_color c (set_color c' z)))))" for b c c' z
    by (simp add: erase_rotate erase_simps)
  have b: "blacken_sibling (swap_color_with_parent (erase proj z)) =
      map_option (erase proj) (blacken_sibling (swap_color_with_parent z))" for z
    by (simp add: erase_blacken_sibling erase_simps)
  show ?thesis
    by (simp add: fixup_delete_case56_def Let_def d r1 r2 r3 b map_option_bind bind_map_option
          bind_map_option [where f = "\<lambda>z. up (up (set_parent_color BLACK (set_color RED z)))"]
          map_plug_cursor del: erase_pair)
       (simp add: erase_def)
qed

lemma erase_finish:
  "map_option (map_rbtree proj) (fixup_delete_finish tr dl z) =
   fixup_delete_finish default_traits dl (erase proj z)"
proof (cases "fixup_delete_case2 tr dl z")
  case None
  with erase_case2 [of dl z] show ?thesis by (simp add: fixup_delete_finish_def)
next
  case (Some y)
  with erase_case2 [of dl z]
  have "fixup_delete_case2 default_traits dl (erase proj z) = Some (erase proj y)" by simp
  with Some show ?thesis
    by (simp add: fixup_delete_finish_def fst_down_erase erase_case56 erase_simps del: erase_pair
          split: rbtree.split)
qed

lemma erase_fixup_after_delete:
  "map_option (map_rbtree proj) (fixup_after_delete tr p ctx dl) =
   fixup_after_delete default_traits (map_rbtree proj p) (map (map_frame proj) ctx) dl"
proof (induction ctx arbitrary: p dl)
  case Nil
  show ?case
    by (subst (1 2) fixup_after_delete.simps)
       (auto simp: Let_def erase_finish split: rbtree.split)
next
  case (Cons f ctx)
  show ?case
    by (subst (1 2) fixup_after_delete.simps)
       (auto simp: Let_def erase_finish Cons.IH split: rbtree.split)
qed

lemma erase_swap_to_leaf: "erase proj (swap_to_leaf tr z) = swap_to_leaf default_traits (erase proj z)"
proof (cases "(tr, z)" rule: swap_to_leaf.cases)
  case (1 tr' c l x r ctx)
  obtain t cm where lm: "leftmost r [] = (t, cm)" by fastforce
  with erase_leftmost [of proj r "[]"]
  have "leftmost (map_rbtree proj r) [] = (map_rbtree proj t, map (map_frame proj) cm)" by simp
  moreover from 1 have "z = (Node c l x r, ctx)" by simp
  ultimately show ?thesis
    using lm by (auto simp: erase_hooks split: rbtree.split)
qed auto

lemma erase_unlink_leaf:
  "map_option (map_rbtree proj) (unlink_leaf tr z) = unlink_leaf default_traits (erase proj z)"
proof (cases "(tr, z)" rule: unlink_leaf.cases)
  case (1 tr' c l x rc rl y rr ctx)
  obtain n fs where s: "swapped tr 0 (Node c rl x rr, InRight rc l y # ctx) = (n, fs)" by fastforce
  with erase_swapped [of 0 "(Node c rl x rr, InRight rc l y # ctx)"]
  have fs: "map (map_frame proj) fs = map (map_frame proj) (InRight rc l y # ctx)" by simp
  then obtain l' y' ctx' where "fs = InRight rc l' y' # ctx'" and "map_rbtree proj l' = map_rbtree proj l"
    and "proj y' = proj y" and "map (map_frame proj) ctx' = map (map_frame proj) ctx"
    by (cases fs; cases "hd fs") auto
  moreover from 1 have "z = (Node c l x (Node rc rl y rr), ctx)" by simp
  ultimately show ?thesis
    using s by (simp add: map_plug_cursor erase_hooks)
next
  case (3 tr' c l x f ctx)
  obtain p ctx' where d: "deleted_below tr (plug1 f Null, ctx) = (p, ctx')" by fastforce
  with erase_deleted_below [of "(plug1 f Null, ctx)"]
  have "map_rbtree proj p = plug1 (map_frame proj f) Null"
    and "map (map_frame proj) ctx' = map (map_frame proj) ctx" by simp_all
  moreover from 3 have "z = (Node c l x Null, f # ctx)" by simp
  ultimately show ?thesis
    using d erase_fixup_after_delete [of p ctx'] by simp
qed auto

lemma erase_rb_remove:
  assumes "\<And>x. Q (proj x) = P x"
  shows "map_option (map_rbtree proj) (rb_remove tr P t) = rb_remove default_traits Q (map_rbtree proj t)"
proof -
  have "locate Q (map_rbtree proj t) [] = map_option (erase proj) (locate P t [])"
    using locate_map [of Q proj P t "[]"] assms by simp
  then show ?thesis
    by (simp add: rb_remove_def remove_to_leaf_def map_option_bind bind_map_option
          erase_unlink_leaf erase_swap_to_leaf del: erase_pair)
qed

end

interpretation default_tr: traits default_traits id
  by unfold_locales (simp_all add: erase_def)

end
