(* ===== verification/Ygg_RBTree_Correct.thy ===== *)
theory Ygg_RBTree_Correct
  imports Ygg_RBTree
begin

text \<open>
  Correctness of the red-black tree with the default traits: insertion places the
  element before the equal ones in the sorted sequence, removal takes exactly the
  addressed element out, both keep the library's own integrity checks
  (\<open>dbg_verify\<close>), and on a tree that passes the checks no step of either operation
  goes through a null pointer. Searching and stepping follow the sequence of elements.
  Locale \<open>traits\<close> carries the results over to every trait that only writes
  bookkeeping.
\<close>

section \<open>What recolouring and rotating keep\<close>

text \<open>
  Both fixup loops only recolour nodes and rotate. A property of the tree that does not
  look at colours and that every rotation keeps (with its hook) is therefore kept by the
  fixups. The sequence of elements is one such property; the subtree minima of the
  min-time tree will be another.
\<close>

locale rotation_inv =
  fixes tr :: "'a node_traits" and I :: "'a rbtree \<Rightarrow> bool"
  assumes I_paint: "I (plug (paint c t) ctx) \<longleftrightarrow> I (plug t ctx)"
    and I_rotate_left: "rotate_left tr z = Some y \<Longrightarrow> I (case_prod plug z) \<Longrightarrow> I (case_prod plug y)"
    and I_rotate_right: "rotate_right tr z = Some y \<Longrightarrow> I (case_prod plug z) \<Longrightarrow> I (case_prod plug y)"
begin

definition holds :: "'a cursor \<Rightarrow> bool" where
  "holds z \<longleftrightarrow> I (case_prod plug z)"

lemma holds_pair: "holds (t, ctx) \<longleftrightarrow> I (plug t ctx)"
  by (simp add: holds_def)

lemma holds_up: "holds (up z) \<longleftrightarrow> holds z"
  by (cases z rule: up.cases) (auto simp: holds_def)

lemma holds_down: "holds (down b z) \<longleftrightarrow> holds z"
  by (cases "(b, z)" rule: down.cases) (auto simp: holds_def)

lemma holds_set_color: "holds (set_color c z) \<longleftrightarrow> holds z"
  by (cases z) (simp add: holds_pair I_paint)

lemma I_paint_frame: "I (plug t (paint_frame c f # ctx)) \<longleftrightarrow> I (plug t (f # ctx))"
  using I_paint [of c "plug1 f t" ctx] by (cases f) auto

lemma I_paint_sibling: "I (plug t (paint_sibling c f # ctx)) \<longleftrightarrow> I (plug t (f # ctx))"
proof (cases f)
  case (InLeft d x r)
  with I_paint [of c r "InRight d t x # ctx"] show ?thesis by simp
next
  case (InRight d l x)
  with I_paint [of c l "InLeft d x t # ctx"] show ?thesis by simp
qed

lemma holds_set_parent_color: "holds (set_parent_color c z) \<longleftrightarrow> holds z"
  by (cases "(c, z)" rule: set_parent_color.cases) (auto simp: holds_pair I_paint_frame simp del: plug.simps)

lemma holds_swap_color: "holds (swap_color_with_parent z) \<longleftrightarrow> holds z"
proof (cases z rule: swap_color_with_parent.cases)
  case (1 c l x r f ctx)
  have "I (plug (Node (frame_color f) l x r) (f # ctx)) \<longleftrightarrow> I (plug (Node c l x r) (f # ctx))"
    using I_paint [of "frame_color f" "Node c l x r" "f # ctx"] by simp
  with 1 show ?thesis by (simp add: holds_pair I_paint_frame del: plug.simps)
qed auto

lemma holds_blacken_sibling: "blacken_sibling z = Some y \<Longrightarrow> holds y \<longleftrightarrow> holds z"
  by (cases z rule: blacken_sibling.cases)
     (auto simp: holds_pair I_paint_sibling simp del: plug.simps split: if_splits)

lemmas holds_simps = holds_up holds_down holds_set_color holds_set_parent_color holds_swap_color
lemmas keep_ops = set_color.simps up.simps down.simps set_parent_color.simps

lemma holds_rotate_left: "rotate_left tr z = Some y \<Longrightarrow> holds z \<Longrightarrow> holds y"
  by (simp add: holds_def I_rotate_left)

lemma holds_rotate_right: "rotate_right tr z = Some y \<Longrightarrow> holds z \<Longrightarrow> holds y"
  by (simp add: holds_def I_rotate_right)

lemma holds_rotate: "rotate tr b z = Some y \<Longrightarrow> holds z \<Longrightarrow> holds y"
  by (auto simp: rotate_def holds_rotate_left holds_rotate_right split: if_splits)

lemma inv_fixup_insert_rotate:
  assumes "fixup_insert_rotate tr gl pl z = Some t" and "holds z"
  shows "I t"
proof -
  have fin: "Some (case_prod plug (set_color RED y)) = Some t \<Longrightarrow> holds y \<Longrightarrow> I t" for y
    using holds_set_color [of RED y] by (auto simp: holds_def)
  have rot: "map_option (\<lambda>z. up (set_parent_color BLACK z)) (rotate_left tr z) = Some y \<Longrightarrow> holds y"
    "map_option (\<lambda>z. up (set_parent_color BLACK z)) (rotate_right tr z) = Some y \<Longrightarrow> holds y" for y
    using assms(2) by (auto simp: holds_simps simp del: keep_ops intro: holds_rotate_left holds_rotate_right)
  show ?thesis
  proof (cases gl)
    case True
    with assms obtain y1 y2 where
      1: "(if pl then Some (set_color BLACK z)
           else map_option (\<lambda>z. up (set_parent_color BLACK z)) (rotate_left tr z)) = Some y1"
      and 2: "rotate_right tr (up y1) = Some y2"
      and 3: "Some (case_prod plug (set_color RED y2)) = Some t"
      by (simp only: fixup_insert_rotate_def bind_eq_Some_conv if_True) blast
    from 1 rot assms(2) have "holds (up y1)"
      by (auto simp: holds_simps simp del: keep_ops split: if_splits)
    from fin [OF 3 holds_rotate_right [OF 2 this]] show ?thesis .
  next
    case False
    with assms obtain y1 y2 where
      1: "(if pl then map_option (\<lambda>z. up (set_parent_color BLACK z)) (rotate_right tr z)
           else Some (set_color BLACK z)) = Some y1"
      and 2: "rotate_left tr (up y1) = Some y2"
      and 3: "Some (case_prod plug (set_color RED y2)) = Some t"
      by (simp only: fixup_insert_rotate_def bind_eq_Some_conv if_False) blast
    from 1 rot assms(2) have "holds (up y1)"
      by (auto simp: holds_simps simp del: keep_ops split: if_splits)
    from fin [OF 3 holds_rotate_left [OF 2 this]] show ?thesis .
  qed
qed

lemma inv_fixup_after_insert:
  "fixup_after_insert tr n ctx = Some t \<Longrightarrow> I (plug n ctx) \<Longrightarrow> I t"
proof (induction ctx arbitrary: n rule: induct_list012)
  case (3 p g ctx)
  show ?case
  proof (cases "frame_color p = BLACK")
    case True
    with 3 show ?thesis by simp
  next
    case False
    show ?thesis
    proof (cases "is_red (sibling g)")
      case True
      have "I (plug (plug1 (paint_frame BLACK p) n) (g # ctx))"
        using "3.prems"(2) I_paint_frame [of n BLACK p "g # ctx"] by simp
      then have "I (plug (plug1 (paint_frame BLACK p) n) (paint_frame RED (paint_sibling BLACK g) # ctx))"
        and "I (plug (plug1 (paint_frame BLACK p) n) (paint_sibling BLACK g # ctx))"
        by (simp_all only: I_paint_frame I_paint_sibling)
      then show ?thesis
        using 3 False True by (auto simp: Let_def split: if_splits)
    next
      case False
      with \<open>frame_color p \<noteq> BLACK\<close> "3.prems" show ?thesis
        by (auto dest!: inv_fixup_insert_rotate simp: holds_def)
    qed
  qed
qed (auto split: if_splits)

lemma holds_case2:
  assumes "fixup_delete_case2 tr dl z = Some y" and "holds z"
  shows "holds y"
proof (cases "is_red (fst (down (\<not> dl) z))")
  case True
  with assms(1) have "rotate tr dl (set_color RED (up (set_color BLACK (down (\<not> dl) z)))) = Some y"
    by (simp only: fixup_delete_case2_def if_True)
  then show ?thesis
    by (rule holds_rotate) (use assms(2) in \<open>simp only: holds_simps\<close>)
qed (use assms in \<open>auto simp: fixup_delete_case2_def\<close>)

lemma inv_case56:
  assumes "fixup_delete_case56 tr dl z = Some t" and "holds z"
  shows "I t"
proof -
  let ?s = "down (\<not> dl) z"
  from assms obtain y1 y2 y3 where
    1: "(if is_black (fst (down (\<not> dl) ?s))
         then map_option (\<lambda>z. up (up (set_parent_color BLACK (set_color RED z)))) (rotate tr (\<not> dl) ?s)
         else Some z) = Some y1"
    and 2: "rotate tr dl y1 = Some y2"
    and 3: "blacken_sibling (swap_color_with_parent y2) = Some y3"
    and 4: "Some (case_prod plug y3) = Some t"
    by (simp only: fixup_delete_case56_def bind_eq_Some_conv Let_def) blast
  have "holds ?s" using assms(2) by (simp only: holds_simps)
  with 1 assms(2) have "holds y1"
    by (auto simp: holds_simps dest!: holds_rotate split: if_splits simp del: keep_ops)
  from holds_rotate [OF 2 this] holds_blacken_sibling [OF 3] have "holds y3"
    by (simp only: holds_simps)
  with 4 show ?thesis by (simp add: holds_def)
qed

lemma inv_finish:
  assumes "fixup_delete_finish tr dl z = Some t" and "holds z"
  shows "I t"
proof -
  from assms obtain y where y: "fixup_delete_case2 tr dl z = Some y"
    and t: "(case fst (down (\<not> dl) y) of Null \<Rightarrow> None
      | Node sc sl sx sr \<Rightarrow>
          (if sc = BLACK \<and> is_black sl \<and> is_black sr
           then Some (case_prod plug (set_color BLACK (up (set_color RED (down (\<not> dl) y)))))
           else fixup_delete_case56 tr dl y)) = Some t"
    by (simp only: fixup_delete_finish_def bind_eq_Some_conv) blast
  have y': "holds y" by (rule holds_case2 [OF y assms(2)])
  then have "I (case_prod plug (set_color BLACK (up (set_color RED (down (\<not> dl) y)))))"
    by (simp only: holds_def [symmetric] holds_simps)
  with t y' show ?thesis
    by (auto intro: inv_case56 split: rbtree.splits if_splits simp del: keep_ops)
qed

lemma inv_fixup_after_delete:
  "fixup_after_delete tr p ctx dl = Some t \<Longrightarrow> I (plug p ctx) \<Longrightarrow> I t"
proof (induction ctx arbitrary: p dl)
  case Nil
  have red: "I (Node pc l x (Node RED sl sx sr)) \<longleftrightarrow> I (Node pc l x (Node sc sl sx sr))"
    "I (Node pc (Node RED sl sx sr) x l) \<longleftrightarrow> I (Node pc (Node sc sl sx sr) x l)" for pc l x sl sx sr sc
    using I_paint [of RED "Node sc sl sx sr" "[InRight pc l x]"]
      I_paint [of RED "Node sc sl sx sr" "[InLeft pc x l]"] by auto
  from Nil show ?case
    by (subst (asm) fixup_after_delete.simps)
       (auto simp: Let_def holds_def red [of _ _ _ _ _ _ BLACK] intro: inv_finish split: rbtree.splits if_splits)
next
  case (Cons f ctx)
  have red: "I (plug (Node pc l x (Node RED sl sx sr)) fs) \<longleftrightarrow> I (plug (Node pc l x (Node sc sl sx sr)) fs)"
    "I (plug (Node pc (Node RED sl sx sr) x l) fs) \<longleftrightarrow> I (plug (Node pc (Node sc sl sx sr) x l) fs)"
    for pc l x sl sx sr sc fs
    using I_paint [of RED "Node sc sl sx sr" "InRight pc l x # fs"]
      I_paint [of RED "Node sc sl sx sr" "InLeft pc x l # fs"] by auto
  note red' = red [of _ _ _ _ _ _ "f # ctx" BLACK]
  from Cons.prems show ?case
    by (subst (asm) fixup_after_delete.simps)
       (auto simp: Let_def holds_def red' [simplified] intro: inv_finish Cons.IH
         split: rbtree.splits if_splits)
qed

end

section \<open>Every step keeps the sequence of elements\<close>

lemma inorder_rotate_left:
  "rotate_left default_traits z = Some y \<Longrightarrow> inorder (case_prod plug y) = inorder (case_prod plug z)"
  by (cases z; cases "fst z" rule: rbtree.exhaust; cases "case fst z of Node c l x r \<Rightarrow> r | Null \<Rightarrow> Null")
     (auto simp: inorder_plug)

lemma inorder_rotate_right:
  "rotate_right default_traits z = Some y \<Longrightarrow> inorder (case_prod plug y) = inorder (case_prod plug z)"
  by (cases z; cases "fst z" rule: rbtree.exhaust; cases "case fst z of Node c l x r \<Rightarrow> l | Null \<Rightarrow> Null")
     (auto simp: inorder_plug)

interpretation sequence: rotation_inv default_traits "\<lambda>t. inorder t = xs"
  by unfold_locales (auto simp: inorder_plug inorder_rotate_left inorder_rotate_right split: prod.splits)

lemma inorder_fixup_after_insert:
  "fixup_after_insert default_traits n ctx = Some t \<Longrightarrow> inorder t = inorder (plug n ctx)"
  by (rule sequence.inv_fixup_after_insert) simp_all

lemma inorder_fixup_after_delete:
  "fixup_after_delete default_traits p ctx dl = Some t \<Longrightarrow> inorder t = inorder (plug p ctx)"
  by (rule sequence.inv_fixup_after_delete) simp_all

lemma insert_path_split:
  assumes "sorted (map key (inorder t))"
  shows "before (insert_path key k t ctx) = before ctx @ filter (\<lambda>y. key y < k) (inorder t)
    \<and> after (insert_path key k t ctx) = filter (\<lambda>y. k \<le> key y) (inorder t) @ after ctx"
  using assms
proof (induction t arbitrary: ctx)
  case (Node c l y r)
  have l: "\<forall>z\<in>set (inorder l). key z \<le> key y" and r: "\<forall>z\<in>set (inorder r). key y \<le> key z"
    using Node.prems by (auto simp: sorted_append)
  show ?case
  proof (cases "key y < k")
    case True
    with l have "filter (\<lambda>y. key y < k) (inorder l) = inorder l"
      and "filter (\<lambda>y. k \<le> key y) (inorder l) = []"
      by (fastforce simp: filter_id_conv filter_empty_conv)+
    with True Node show ?thesis by (simp add: sorted_append)
  next
    case False
    with r have "filter (\<lambda>y. key y < k) (inorder r) = []"
      and "filter (\<lambda>y. k \<le> key y) (inorder r) = inorder r"
      by (fastforce simp: filter_id_conv filter_empty_conv)+
    with False Node show ?thesis by (simp add: sorted_append)
  qed
qed simp

lemma insort_filter:
  assumes "sorted (map key xs)"
  shows "insort_key key x xs =
    filter (\<lambda>y. key y < key x) xs @ x # filter (\<lambda>y. key x \<le> key y) xs"
  using assms
proof (induction xs)
  case (Cons a xs)
  show ?case
  proof (cases "key x \<le> key a")
    case True
    with Cons.prems have "\<forall>y\<in>set xs. key x \<le> key y" by auto
    with True have "filter (\<lambda>y. key y < key x) xs = []" and "filter (\<lambda>y. key x \<le> key y) xs = xs"
      by (auto simp: filter_empty_conv filter_id_conv)
    with True show ?thesis by simp
  qed (use Cons in auto)
qed simp

lemma inorder_insert_default:
  assumes "sorted (map key (inorder t))"
    and "insert_leaf_base default_traits key x t = Some t'"
  shows "inorder t' = insort_key key x (inorder t)"
proof (cases "insert_path key (key x) t []")
  case Nil
  with insert_path_split [OF assms(1), of "key x" "[]"]
  have "filter (\<lambda>y. key y < key x) (inorder t) = []" and "filter (\<lambda>y. key x \<le> key y) (inorder t) = []"
    by simp_all
  with Nil assms(2) show ?thesis
    by (auto simp: insert_leaf_base_def insort_filter [OF assms(1)])
next
  case (Cons f ctx)
  with assms(2) have "inorder t' = inorder (plug (Node RED Null x Null) (f # ctx))"
    by (auto simp: insert_leaf_base_def dest: inorder_fixup_after_insert)
  with insert_path_split [OF assms(1), of "key x" "[]"] Cons show ?thesis
    by (simp only: inorder_plug insort_filter [OF assms(1)]) simp
qed

section \<open>Balance\<close>

text \<open>\<open>good h t\<close>: the subtree passes the colour check and has black height \<open>h\<close>;
  \<open>wfc h ctx\<close>: the frames form a checked tree around any such subtree whose root may
  stand there.\<close>

definition good :: "nat \<Rightarrow> 'a rbtree \<Rightarrow> bool" where
  "good h t \<longleftrightarrow> verify_black_paths t = Some h \<and> verify_red_black t"

fun parent_black :: "'a frame list \<Rightarrow> bool" where
  "parent_black [] = False"
| "parent_black (f # ctx) = (frame_color f = BLACK)"

definition lift_h :: "color \<Rightarrow> nat \<Rightarrow> nat" where
  "lift_h c h = (if c = BLACK then Suc h else h)"

lemma lift_h_simps [simp]: "lift_h RED h = h" "lift_h BLACK h = Suc h"
  by (simp_all add: lift_h_def)

fun wfc :: "nat \<Rightarrow> 'a frame list \<Rightarrow> bool" where
  "wfc h [] = True"
| "wfc h (f # ctx) =
     (good h (sibling f) \<and> (frame_color f = RED \<longrightarrow> \<not> is_red (sibling f) \<and> parent_black ctx)
      \<and> wfc (lift_h (frame_color f) h) ctx)"

lemma color_cases: "c \<noteq> RED \<longleftrightarrow> c = BLACK" "c \<noteq> BLACK \<longleftrightarrow> c = RED"
  by (cases c; simp)+

lemma good_Null [simp]: "good h Null \<longleftrightarrow> h = 0"
  by (auto simp: good_def)

lemma good_Node: "good h (Node c l x r) \<longleftrightarrow>
  (\<exists>m. good m l \<and> good m r \<and> (c = RED \<longrightarrow> \<not> is_red l \<and> \<not> is_red r) \<and> h = lift_h c m)"
  by (auto simp: good_def lift_h_def split: option.splits if_splits)

lemma good_RED [simp]: "good h (Node RED l x r) \<longleftrightarrow> good h l \<and> good h r \<and> \<not> is_red l \<and> \<not> is_red r"
  by (auto simp: good_Node)

lemma good_Suc_BLACK [simp]: "good (Suc h) (Node BLACK l x r) \<longleftrightarrow> good h l \<and> good h r"
  by (auto simp: good_Node)

lemma not_good_0_BLACK [simp]: "\<not> good 0 (Node BLACK l x r)"
  by (simp add: good_Node)

lemma good_lift [simp]: "good (lift_h c h) (Node c l x r) \<longleftrightarrow>
  good h l \<and> good h r \<and> (c = RED \<longrightarrow> \<not> is_red l \<and> \<not> is_red r)"
  by (auto simp: good_Node lift_h_def split: if_splits)

lemma is_redE:
  assumes "is_red t"
  obtains l x r where "t = Node RED l x r"
  using assms by (cases t) auto

lemma good_unique: "good m t \<Longrightarrow> good n t \<Longrightarrow> m = n"
  by (simp add: good_def)

lemma dbg_verify_plug:
  "dbg_verify (plug t ctx) \<longleftrightarrow> (\<exists>h. good h t \<and> (is_red t \<longrightarrow> parent_black ctx) \<and> wfc h ctx)"
proof (induction ctx arbitrary: t)
  case Nil
  then show ?case by (auto simp: dbg_verify_def good_def verify_black_root_def)
next
  case (Cons f ctx)
  have "good h (plug1 f t) \<longleftrightarrow> (\<exists>m. good m t \<and> good m (sibling f)
      \<and> (frame_color f = RED \<longrightarrow> \<not> is_red t \<and> \<not> is_red (sibling f)) \<and> h = lift_h (frame_color f) m)" for h
    by (cases f) (auto simp: good_Node)
  moreover have "is_red (plug1 f t) \<longleftrightarrow> frame_color f = RED"
    by (cases f) auto
  ultimately show ?case
    using Cons.IH [of "plug1 f t"] by (auto simp: color_cases)
qed

lemma dbg_verify_plugI:
  "good h t \<Longrightarrow> (is_red t \<Longrightarrow> parent_black ctx) \<Longrightarrow> wfc h ctx \<Longrightarrow> dbg_verify (plug t ctx)"
  by (auto simp: dbg_verify_plug)

lemma dbg_verify_plugE:
  assumes "dbg_verify (plug t ctx)"
  obtains h where "good h t" and "is_red t \<longrightarrow> parent_black ctx" and "wfc h ctx"
  using assms by (auto simp: dbg_verify_plug)

lemma fixup_insert_rotate_ok:
  assumes "good h n" "is_red n" "frame_color p = RED" "frame_color g = BLACK" "good h (sibling p)"
    "\<not> is_red (sibling p)" "good h (sibling g)" "\<not> is_red (sibling g)" "wfc (Suc h) ctx"
  shows "\<exists>t. fixup_insert_rotate default_traits (is_left g) (is_left p) (plug1 p n, g # ctx) = Some t
    \<and> dbg_verify t"
  using assms
  by (cases n; cases p; cases g)
     (auto simp: fixup_insert_rotate_def intro!: dbg_verify_plugI [where h = "Suc h"])

lemma fixup_after_insert_ok:
  "good h n \<Longrightarrow> is_red n \<Longrightarrow> wfc h ctx \<Longrightarrow> ctx \<noteq> [] \<Longrightarrow>
   \<exists>t. fixup_after_insert default_traits n ctx = Some t \<and> dbg_verify t"
proof (induction ctx arbitrary: n h rule: induct_list012)
  case (2 p)
  then have "frame_color p = BLACK" by (auto simp: color_cases)
  with 2 dbg_verify_plugI [of h n "[p]"] show ?case by auto
next
  case (3 p g ctx)
  show ?case
  proof (cases "frame_color p = BLACK")
    case True
    with "3.prems" dbg_verify_plugI [of h n "p # g # ctx"] show ?thesis by auto
  next
    case p: False
    with "3.prems" have g: "frame_color g = BLACK" by (auto simp: color_cases)
    show ?thesis
    proof (cases "is_red (sibling g)")
      case True
      let ?n = "plug1 (paint_frame RED (paint_sibling BLACK g)) (plug1 (paint_frame BLACK p) n)"
      have n: "good (Suc h) ?n" "is_red ?n" and w: "wfc (Suc h) ctx"
        using "3.prems" p g True by (cases p; cases g; cases "sibling g"; auto simp: color_cases)+
      have "dbg_verify (plug n [paint_frame BLACK p, paint_sibling BLACK g])"
        using "3.prems" p g True
        by (cases p; cases g; cases "sibling g")
           (auto simp: color_cases intro!: dbg_verify_plugI [of "Suc (Suc h)" _ "[]", simplified])
      with 3(1) [OF n w] p True show ?thesis by (auto simp: Let_def)
    next
      case False
      with "3.prems" p g fixup_insert_rotate_ok [of h n p g ctx] show ?thesis
        by (auto simp: color_cases)
    qed
  qed
qed simp

lemma insert_path_plug: "plug Null (insert_path key k t ctx) = plug t ctx"
  by (induction t arbitrary: ctx) auto

lemma insert_default_ok:
  assumes "dbg_verify t"
  shows "\<exists>t'. insert_leaf_base default_traits key x t = Some t' \<and> dbg_verify t'"
proof (cases "insert_path key (key x) t []")
  case Nil
  then show ?thesis
    by (auto simp: insert_leaf_base_def intro!: dbg_verify_plugI [of "Suc 0" _ "[]", simplified])
next
  case (Cons f ctx)
  with insert_path_plug [of key "key x" t "[]"] assms have "dbg_verify (plug Null (f # ctx))" by simp
  then obtain h where "good h (Null :: 'a rbtree)" and "wfc h (f # ctx)"
    by (rule dbg_verify_plugE) blast
  then have "wfc 0 (f # ctx)" by simp
  with Cons fixup_after_insert_ok [of 0 "Node RED Null x Null" "f # ctx"] show ?thesis
    by (simp add: insert_leaf_base_def)
qed

text \<open>
  The state in which the deletion fixup runs: below the parent, the side the node was
  deleted from has black height \<open>h\<close> and a black root, the other side \<open>h + 1\<close>.
\<close>

definition one_short :: "nat \<Rightarrow> 'a rbtree \<Rightarrow> 'a frame list \<Rightarrow> bool \<Rightarrow> bool" where
  "one_short h p ctx dl \<longleftrightarrow>
     (\<exists>c l x r. p = Node c l x r
        \<and> (if dl then good h l \<and> \<not> is_red l \<and> good (Suc h) r
           else good h r \<and> \<not> is_red r \<and> good (Suc h) l)
        \<and> (c = RED \<longrightarrow> \<not> is_red l \<and> \<not> is_red r \<and> parent_black ctx)
        \<and> wfc (lift_h c (Suc h)) ctx)"

lemma case56_ok:
  assumes "one_short h p ctx dl" and "fst (down (\<not> dl) (p, ctx)) = Node BLACK sl sx sr"
    and "is_red sl \<or> is_red sr"
  shows "\<exists>t. fixup_delete_case56 default_traits dl (p, ctx) = Some t \<and> dbg_verify t"
proof -
  from assms(1) obtain c l x r where p: "p = Node c l x r"
    and side: "if dl then good h l \<and> \<not> is_red l \<and> good (Suc h) r
       else good h r \<and> \<not> is_red r \<and> good (Suc h) l"
    and c: "c = RED \<longrightarrow> parent_black ctx" and w: "wfc (lift_h c (Suc h)) ctx"
    unfolding one_short_def by blast
  show ?thesis
  proof (cases "is_red (if dl then sr else sl)")
    case True
    then obtain a y b where "(if dl then sr else sl) = Node RED a y b" by (rule is_redE)
    with assms(2) p side c w show ?thesis
      by (cases dl)
         (auto simp: fixup_delete_case56_def Let_def rotate_def
           intro!: dbg_verify_plugI [where h = "lift_h c (Suc h)"])
  next
    case False
    with assms(3) have "is_red (if dl then sl else sr)" by (auto split: if_splits)
    then obtain a y b where "(if dl then sl else sr) = Node RED a y b" by (rule is_redE)
    with False assms(2) p side c w show ?thesis
      by (cases dl)
         (auto simp: fixup_delete_case56_def Let_def rotate_def
           intro!: dbg_verify_plugI [where h = "lift_h c (Suc h)"])
  qed
qed

lemma case4_ok:
  assumes "one_short h p ctx dl" and "fst (down (\<not> dl) (p, ctx)) = Node BLACK sl sx sr"
    and "\<not> is_red sl" "\<not> is_red sr" and "is_red p"
  shows "dbg_verify (case_prod plug (set_color BLACK (up (set_color RED (down (\<not> dl) (p, ctx))))))"
  using assms unfolding one_short_def
  by (cases dl) (auto simp: color_cases intro!: dbg_verify_plugI [where h = "Suc h"])

lemma black_sibling_ok:
  assumes "one_short h p ctx dl" and "fst (down (\<not> dl) (p, ctx)) = Node BLACK sl sx sr"
    and "is_red p \<or> is_red sl \<or> is_red sr"
  shows "\<exists>t. fixup_delete_finish default_traits dl (p, ctx) = Some t \<and> dbg_verify t"
proof -
  have "fixup_delete_case2 default_traits dl (p, ctx) = Some (p, ctx)"
    using assms(2) by (simp add: fixup_delete_case2_def del: down.simps)
  with case4_ok [OF assms(1,2)] case56_ok [OF assms(1,2)] assms(2,3) show ?thesis
    by (cases "is_red sl \<or> is_red sr")
       (auto simp: fixup_delete_finish_def simp del: down.simps)
qed

lemma good_Suc_cases:
  assumes "good (Suc h) t" and "\<not> is_red t"
  obtains l x r where "t = Node BLACK l x r" and "good h l" and "good h r"
  using assms by (cases t) (auto simp: good_Node color_cases)

lemma case2_ok:
  assumes "one_short h p ctx dl" and "is_red (fst (down (\<not> dl) (p, ctx)))"
  shows "\<exists>p' ctx' sl sx sr. fixup_delete_case2 default_traits dl (p, ctx) = Some (p', ctx')
    \<and> one_short h p' ctx' dl \<and> is_red p' \<and> fst (down (\<not> dl) (p', ctx')) = Node BLACK sl sx sr"
proof -
  from assms(1) obtain c l x r where p: "p = Node c l x r"
    and side: "if dl then good h l \<and> \<not> is_red l \<and> good (Suc h) r
       else good h r \<and> \<not> is_red r \<and> good (Suc h) l"
    and c: "c = RED \<longrightarrow> \<not> is_red l \<and> \<not> is_red r" and w: "wfc (lift_h c (Suc h)) ctx"
    unfolding one_short_def by blast
  from assms(2) p c have [simp]: "c = BLACK" by (cases dl) (auto simp: color_cases)
  from assms(2) p side obtain sl sx sr where
    s: "(if dl then r else l) = Node RED sl sx sr" and "good (Suc h) sl" "good (Suc h) sr"
    and "\<not> is_red sl" "\<not> is_red sr"
    by (cases dl; cases l; cases r) auto
  then obtain al ax ar bl bx br where
    "sl = Node BLACK al ax ar" "good h al" "good h ar" "sr = Node BLACK bl bx br" "good h bl" "good h br"
    by (meson good_Suc_cases)
  with s p side w show ?thesis
    by (cases dl) (auto simp: fixup_delete_case2_def rotate_def one_short_def)
qed

lemma finish_ok:
  assumes "one_short h p ctx dl"
    and "\<not> (is_black p \<and> (\<exists>sl sx sr. fst (down (\<not> dl) (p, ctx)) = Node BLACK sl sx sr
           \<and> is_black sl \<and> is_black sr))"
  shows "\<exists>t. fixup_delete_finish default_traits dl (p, ctx) = Some t \<and> dbg_verify t"
proof (cases "is_red (fst (down (\<not> dl) (p, ctx)))")
  case True
  with assms(1) obtain p' ctx' sl sx sr where
    2: "fixup_delete_case2 default_traits dl (p, ctx) = Some (p', ctx')"
    and os: "one_short h p' ctx' dl" and red: "is_red p'"
    and s: "fst (down (\<not> dl) (p', ctx')) = Node BLACK sl sx sr"
    using case2_ok by blast
  obtain t where "fixup_delete_finish default_traits dl (p', ctx') = Some t" and "dbg_verify t"
    using black_sibling_ok [OF os s] red by blast
  moreover have "fixup_delete_case2 default_traits dl (p', ctx') = Some (p', ctx')"
    using s by (simp add: fixup_delete_case2_def del: down.simps)
  ultimately show ?thesis
    using 2 by (simp add: fixup_delete_finish_def del: down.simps)
next
  case False
  from assms(1) obtain sl sx sr where "fst (down (\<not> dl) (p, ctx)) = Node BLACK sl sx sr"
    using False by (cases dl) (auto simp: one_short_def elim: good_Suc_cases)
  with assms black_sibling_ok [OF assms(1), of sl sx sr] show ?thesis by (auto simp del: down.simps)
qed

lemma fixup_after_delete_ok:
  "one_short h p ctx dl \<Longrightarrow> \<exists>t. fixup_after_delete default_traits p ctx dl = Some t \<and> dbg_verify t"
proof (induction ctx arbitrary: h p dl)
  case Nil
  show ?case
  proof (cases "is_black p \<and> (\<exists>sl sx sr. fst (down (\<not> dl) (p, [])) = Node BLACK sl sx sr
           \<and> is_black sl \<and> is_black sr)")
    case True
    with Nil show ?thesis
      by (subst fixup_after_delete.simps)
         (cases dl; auto simp: one_short_def color_cases
           intro!: dbg_verify_plugI [of "Suc h" _ "[]", simplified])
  next
    case False
    from finish_ok [OF Nil False] Nil False show ?thesis
      by (subst fixup_after_delete.simps)
         (cases dl; auto simp: one_short_def elim: good_Suc_cases split: rbtree.splits)
  qed
next
  case (Cons f ctx)
  show ?case
  proof (cases "is_black p \<and> (\<exists>sl sx sr. fst (down (\<not> dl) (p, f # ctx)) = Node BLACK sl sx sr
           \<and> is_black sl \<and> is_black sr)")
    case True
    then obtain l x r sl sx sr where p: "p = Node BLACK l x r"
      and s: "(if dl then r else l) = Node BLACK sl sx sr" and sb: "is_black sl" "is_black sr"
      by (cases p; cases dl) (auto simp: color_cases)
    let ?p = "if dl then Node BLACK l x (Node RED sl sx sr) else Node BLACK (Node RED sl sx sr) x r"
    from p s sb Cons.prems have "one_short (Suc h) (plug1 f ?p) ctx (is_left f)"
      by (cases f; cases dl) (auto simp: one_short_def color_cases)
    from Cons.IH [OF this] p s sb show ?thesis
      by (subst fixup_after_delete.simps) (auto simp: Let_def)
  next
    case False
    from finish_ok [OF Cons.prems False] Cons.prems False show ?thesis
      by (subst fixup_after_delete.simps)
         (cases dl; auto simp: one_short_def elim: good_Suc_cases split: rbtree.splits)
  qed
qed

section \<open>Removal\<close>

lemma leftmost_plug: "case_prod plug (leftmost t ctx) = plug t ctx"
  by (induction t ctx rule: leftmost.induct) auto

lemma leftmost_append: "leftmost t (ctx @ ctx') = (case leftmost t ctx of (u, c) \<Rightarrow> (u, c @ ctx'))"
  by (induction t ctx rule: leftmost.induct) auto

lemma leftmost_Node:
  assumes "t \<noteq> Null"
  obtains c x r cm where "leftmost t ctx = (Node c Null x r, cm @ ctx)" and "before cm = []"
proof -
  have "t \<noteq> Null \<Longrightarrow> \<exists>c x r cm. leftmost t ctx = (Node c Null x r, cm @ ctx) \<and> before cm = []"
  proof (induction t ctx rule: leftmost.induct)
    case (1 c c' l' x' r' x r ctx)
    then obtain d y s cm where "leftmost (Node c' l' x' r') (InLeft c x r # ctx) =
        (Node d Null y s, cm @ InLeft c x r # ctx)" and "before cm = []"
      by auto
    then show ?case
      by (intro exI [of _ d] exI [of _ y] exI [of _ s] exI [of _ "cm @ [InLeft c x r]"])
         (simp add: before_append)
  qed auto
  with assms that show thesis by blast
qed

text \<open>A leaf or a node whose only child is a red leaf: what stands at the bottom of a
  checked tree when one child is missing.\<close>

lemma good_half:
  assumes "good h (Node c Null x r)"
  shows "r = Null \<or> c = BLACK \<and> (\<exists>y. r = Node RED Null y Null)"
proof (cases r)
  case (Node rc rl y rr)
  with assms show ?thesis
    by (cases c; cases rc; cases rl; cases rr) (auto simp: good_Node lift_h_def color_cases split: if_splits)
qed simp

lemma good_half_right:
  assumes "good h (Node c l x Null)"
  shows "l = Null \<or> c = BLACK \<and> (\<exists>y. l = Node RED Null y Null)"
proof (cases l)
  case (Node rc rl y rr)
  with assms show ?thesis
    by (cases c; cases rc; cases rl; cases rr) (auto simp: good_Node lift_h_def color_cases split: if_splits)
qed simp

lemma good_content: "good h (Node c l x r) \<longleftrightarrow> good h (Node c l y r)"
  by (simp add: good_Node)

lemma wfc_append_content: "wfc h (cm @ InRight c l x # ctx) \<longleftrightarrow> wfc h (cm @ InRight c l y # ctx)"
proof (induction cm arbitrary: h)
  case (Cons f cm)
  moreover have "parent_black (cm @ InRight c l x # ctx) \<longleftrightarrow> parent_black (cm @ InRight c l y # ctx)"
    by (cases cm) auto
  ultimately show ?case by auto
qed simp

lemma parent_black_content:
  "parent_black (cm @ InRight c l x # ctx) \<longleftrightarrow> parent_black (cm @ InRight c l y # ctx)"
  by (cases cm) auto

lemma unlink_ok:
  assumes "good h (Node c Null x r)" and "c = RED \<Longrightarrow> parent_black ctx" and "wfc h ctx"
  shows "\<exists>t. unlink_leaf default_traits (Node c Null x r, ctx) = Some t \<and> dbg_verify t
    \<and> inorder t = before ctx @ inorder r @ after ctx"
proof (cases "r = Null")
  case False
  with good_half [OF assms(1)] obtain y where r: "c = BLACK" "r = Node RED Null y Null" by auto
  with assms(1) have "h = Suc 0" by (simp add: good_Node)
  with r assms(3) show ?thesis
    by (auto simp: inorder_plug intro!: dbg_verify_plugI [of "Suc 0"])
next
  case r: True
  show ?thesis
  proof (cases ctx)
    case Nil
    with r show ?thesis
      by (simp add: dbg_verify_def verify_black_root_def)
  next
    case (Cons f fs)
    show ?thesis
    proof (cases "c = BLACK")
      case True
      with assms(1) r have "h = Suc 0" by (simp add: good_Node)
      with assms(3) Cons have "one_short 0 (plug1 f Null) fs (is_left f)"
        by (cases f) (auto simp: one_short_def)
      from fixup_after_delete_ok [OF this] obtain t where
        "fixup_after_delete default_traits (plug1 f Null) fs (is_left f) = Some t" and "dbg_verify t"
        by blast
      moreover from this(1) have "inorder t = inorder (plug (plug1 f Null) fs)"
        by (rule inorder_fixup_after_delete)
      ultimately show ?thesis
        using True r Cons by (cases f) (auto simp: inorder_plug)
    next
      case False
      with assms r Cons have "dbg_verify (plug Null (f # fs))"
        by (intro dbg_verify_plugI [of 0]) (auto simp: good_Node color_cases)
      with False r Cons show ?thesis
        by (cases f) (auto simp: inorder_plug)
    qed
  qed
qed

lemma remove_to_leaf_ok:
  assumes "dbg_verify (plug (Node c l x r) ctx)"
  shows "\<exists>t. remove_to_leaf default_traits (Node c l x r, ctx) = Some t \<and> dbg_verify t
    \<and> inorder t = before ctx @ inorder l @ inorder r @ after ctx"
proof -
  obtain h where h: "good h (Node c l x r)" and red: "is_red (Node c l x r) \<longrightarrow> parent_black ctx"
    and w: "wfc h ctx"
    using assms by (rule dbg_verify_plugE)
  show ?thesis
  proof (cases "r = Null")
    case r: True
    show ?thesis
    proof (cases "l = Null")
      case True
      with h have "good h (Node c Null x r)" by simp
      from unlink_ok [OF this _ w] red r True show ?thesis
        by (simp add: remove_to_leaf_def)
    next
      case False
      from h r have "good h (Node c l x Null)" by simp
      from good_half_right [OF this] False obtain y where l: "c = BLACK" "l = Node RED Null y Null"
        by auto
      with h r have "h = Suc 0" by (simp add: good_Node)
      with l r w have "wfc 0 (InLeft c y r # ctx)" by simp
      with unlink_ok [of 0 RED x Null "InLeft c y r # ctx"] l r show ?thesis
        by (auto simp: remove_to_leaf_def)
    qed
  next
    case r: False
    show ?thesis
    proof (cases "l = Null")
      case True
      obtain d y s cm where "leftmost r [] = (Node d Null y s, cm @ [])"
        using r leftmost_Node by metis
      moreover from h True have "good h (Node c Null x r)" by simp
      ultimately show ?thesis
        using unlink_ok [of h c x r ctx] True red w by (simp add: remove_to_leaf_def)
    next
      case False
      obtain d y s cm where lm: "leftmost r [] = (Node d Null y s, cm @ [])" and cm: "before cm = []"
        using r leftmost_Node by metis
      have "plug (Node c l x r) ctx = plug (Node d Null y s) (cm @ InRight c l x # ctx)"
        using leftmost_plug [of r "[] @ InRight c l x # ctx"] leftmost_append [of r "[]" "InRight c l x # ctx"] lm
        by simp
      with assms obtain k where "good k (Node d Null y s)"
        and "d = RED \<Longrightarrow> parent_black (cm @ InRight c l x # ctx)"
        and "wfc k (cm @ InRight c l x # ctx)"
        by (auto elim: dbg_verify_plugE)
      with unlink_ok [of k d x s "cm @ InRight c l y # ctx"] good_content [of k d Null y s x]
        wfc_append_content [of k cm c l x ctx y] parent_black_content [of cm c l x ctx y]
      obtain t where t: "unlink_leaf default_traits (Node d Null x s, cm @ InRight c l y # ctx) = Some t"
        "dbg_verify t"
        "inorder t = before (cm @ InRight c l y # ctx) @ inorder s @ after (cm @ InRight c l y # ctx)"
        by blast
      have "inorder r = y # inorder s @ after cm"
        using leftmost_plug [of r "[]"] lm cm by (simp add: inorder_plug [symmetric]) (metis append_Cons append_Nil inorder.simps inorder_plug)
      with t lm False cm show ?thesis
        by (simp add: remove_to_leaf_def before_append after_append)
    qed
  qed
qed

lemma locate_Some:
  assumes "locate P t ctx = Some z"
  shows "\<exists>c l x r fs. z = (Node c l x r, fs) \<and> P x \<and> plug (Node c l x r) fs = plug t ctx"
  using assms
proof (induction t arbitrary: ctx)
  case (Node c l x r)
  from Node.prems Node.IH(1) [of "InLeft c x r # ctx"] Node.IH(2) [of "InRight c l x # ctx"] show ?case
    by (auto split: if_splits option.splits)
qed simp

lemma locate_None: "locate P t ctx = None \<longleftrightarrow> (\<forall>x\<in>set (inorder t). \<not> P x)"
proof (induction t arbitrary: ctx)
  case (Node c l x r)
  from Node.IH(1) [of "InLeft c x r # ctx"] Node.IH(2) [of "InRight c l x # ctx"] show ?case
    by (auto split: option.splits)
qed simp

lemma remove_default_ok:
  assumes "dbg_verify t" and "x \<in> set (inorder t)" and "P x"
  shows "\<exists>t' xs y ys. rb_remove default_traits P t = Some t' \<and> dbg_verify t' \<and> P y
    \<and> inorder t = xs @ y # ys \<and> inorder t' = xs @ ys"
proof -
  from assms(2,3) have "locate P t [] \<noteq> None" by (auto simp: locate_None)
  then obtain z where "locate P t [] = Some z" by blast
  moreover from locate_Some [OF this] obtain c l y r fs where
    z: "z = (Node c l y r, fs)" "P y" "plug (Node c l y r) fs = t" by auto
  moreover from remove_to_leaf_ok [of c l y r fs] z(3) assms(1) obtain t' where
    "remove_to_leaf default_traits (Node c l y r, fs) = Some t'" "dbg_verify t'"
    "inorder t' = before fs @ inorder l @ inorder r @ after fs"
    by auto
  moreover have "inorder t = (before fs @ inorder l) @ y # inorder r @ after fs"
    using inorder_plug [of "Node c l y r" fs] z(3) by simp
  ultimately show ?thesis
    by (intro exI [of _ t'] exI [of _ "before fs @ inorder l"] exI [of _ y]
          exI [of _ "inorder r @ after fs"]) (simp add: rb_remove_def)
qed

section \<open>The operations for every bookkeeping trait\<close>

context traits
begin

lemma insert_ok:
  assumes "dbg_verify t" and "sorted (map key (inorder t))" and "\<And>x. key' (proj x) = key x"
  shows "\<exists>t'. insert_leaf_base tr key x t = Some t' \<and> dbg_verify t'
    \<and> map proj (inorder t') = insort_key key' (proj x) (map proj (inorder t))"
proof -
  have e: "map_option (map_rbtree proj) (insert_leaf_base tr key x t) =
      insert_leaf_base default_traits key' (proj x) (map_rbtree proj t)"
    by (rule erase_insert_leaf_base) (rule assms(3))
  obtain u where u: "insert_leaf_base default_traits key' (proj x) (map_rbtree proj t) = Some u"
    "dbg_verify u"
    using insert_default_ok [of "map_rbtree proj t" key' "proj x"] assms(1) by auto
  with e obtain t' where t': "insert_leaf_base tr key x t = Some t'" "u = map_rbtree proj t'"
    by (auto simp: map_option_case split: option.splits)
  have "sorted (map key' (inorder (map_rbtree proj t)))"
    using assms(2,3) by (simp add: inorder_map comp_def)
  from inorder_insert_default [OF this u(1)] u(2) t' show ?thesis
    by (simp add: inorder_map)
qed

lemma remove_ok:
  assumes "dbg_verify t" and "x \<in> set (inorder t)" and "P x" and "\<And>x. Q (proj x) = P x"
  shows "\<exists>t' xs y ys. rb_remove tr P t = Some t' \<and> dbg_verify t' \<and> Q y
    \<and> map proj (inorder t) = xs @ y # ys \<and> map proj (inorder t') = xs @ ys"
proof -
  have e: "map_option (map_rbtree proj) (rb_remove tr P t) =
      rb_remove default_traits Q (map_rbtree proj t)"
    by (rule erase_rb_remove) (rule assms(4))
  have "proj x \<in> set (inorder (map_rbtree proj t))" and "Q (proj x)"
    using assms by (simp_all add: inorder_map)
  with remove_default_ok [of "map_rbtree proj t" "proj x" Q] assms(1) obtain u xs y ys where
    u: "rb_remove default_traits Q (map_rbtree proj t) = Some u" "dbg_verify u" "Q y"
    "map proj (inorder t) = xs @ y # ys" "inorder u = xs @ ys"
    by (auto simp: inorder_map)
  with e obtain t' where "rb_remove tr P t = Some t'" "u = map_rbtree proj t'"
    by (auto simp: map_option_case split: option.splits)
  with u show ?thesis by (auto simp: inorder_map)
qed

lemma remove_absent:
  assumes "\<forall>x\<in>set (inorder t). \<not> P x"
  shows "rb_remove tr P t = None"
  using assms locate_None [of P t "[]"] by (simp add: rb_remove_def)

end

section \<open>Searching and stepping\<close>

lemma find_loop_sorted:
  assumes "sorted (map key (inorder t))"
  shows "find_loop key q t d =
    (case filter (\<lambda>y. q \<le> key y) (inorder t) of [] \<Rightarrow> d | y # _ \<Rightarrow> Some y)"
  using assms
proof (induction t arbitrary: d)
  case (Node c l x r)
  have l: "\<forall>z\<in>set (inorder l). key z \<le> key x" and r: "\<forall>z\<in>set (inorder r). key x \<le> key z"
    using Node.prems by (auto simp: sorted_append)
  show ?case
  proof (cases "key x < q")
    case True
    with l have "filter (\<lambda>y. q \<le> key y) (inorder l) = []" by (fastforce simp: filter_empty_conv)
    moreover from True have "\<not> q \<le> key x" by simp
    ultimately show ?thesis using True Node by (simp add: sorted_append)
  next
    case False
    with Node show ?thesis
      by (cases "filter (\<lambda>y. q \<le> key y) (inorder l)") (auto simp: sorted_append not_less)
  qed
qed simp

lemma rb_find_Some:
  assumes "sorted (map key (inorder t))" and "rb_find key q t = Some x"
  shows "x \<in> set (inorder t) \<and> key x = q"
proof -
  from assms obtain ys where f: "filter (\<lambda>y. q \<le> key y) (inorder t) = x # ys" and "\<not> q < key x"
    by (auto simp: rb_find_def find_loop_sorted split: option.splits if_splits list.splits)
  from f have "x \<in> set (filter (\<lambda>y. q \<le> key y) (inorder t))" by simp
  with \<open>\<not> q < key x\<close> show ?thesis by simp
qed

lemma rb_find_None:
  assumes "sorted (map key (inorder t))" and "rb_find key q t = None" and "x \<in> set (inorder t)"
  shows "key x \<noteq> q"
proof
  assume q: "key x = q"
  with assms(3) obtain y ys where f: "filter (\<lambda>y. q \<le> key y) (inorder t) = y # ys"
    by (cases "filter (\<lambda>y. q \<le> key y) (inorder t)") (auto simp: filter_empty_conv)
  have "sorted (map key (filter (\<lambda>y. q \<le> key y) (inorder t)))"
    using assms(1) by (rule sorted_filter)
  moreover have "x \<in> set (filter (\<lambda>y. q \<le> key y) (inorder t))" using assms(3) q by simp
  ultimately have "key y \<le> key x" using f by auto
  with f assms(1,2) q show False
    by (simp add: rb_find_def find_loop_sorted split: if_splits)
qed

text \<open>Stepping a cursor gives the element that follows in the sequence.\<close>

lemma climb_right_data:
  "climb_right (t, ctx) \<bind> cursor_data = (case after ctx of [] \<Rightarrow> None | y # _ \<Rightarrow> Some y)"
proof (induction ctx arbitrary: t)
  case (Cons f ctx)
  then show ?case by (cases f) auto
qed simp

lemma leftmost_data: "t \<noteq> Null \<Longrightarrow> cursor_data (leftmost t ctx) = Some (hd (inorder t))"
  by (induction t ctx rule: leftmost.induct) (auto simp: hd_append)

lemma inorder_eq_Nil [simp]: "inorder t = [] \<longleftrightarrow> t = Null"
  by (cases t) auto

lemma step_forward_data:
  "step_forward (Node c l x r, ctx) \<bind> cursor_data =
    (case inorder r @ after ctx of [] \<Rightarrow> None | y # _ \<Rightarrow> Some y)"
proof (cases "r = Null")
  case True
  then show ?thesis by (simp add: climb_right_data)
next
  case False
  then show ?thesis
    by (cases "inorder r") (auto simp: leftmost_data)
qed

lemma get_smallest_data: "get_smallest t = (case inorder t of [] \<Rightarrow> None | y # _ \<Rightarrow> Some y)"
proof (cases "t = Null")
  case False
  then show ?thesis by (cases "inorder t") (auto simp: leftmost_data)
qed simp

end
