(* ===== verification/Scheduled_Point_Tree.thy ===== *)
theory Scheduled_Point_Tree
  imports Ygg_RBTree_Correct
begin

text \<open>
  Scheduled points and the search tree over them
  (\<^verbatim>\<open>src/resource/planner/c++/planner_internal_tree.hpp\<close>,
  \<^verbatim>\<open>planner_internal_tree.cpp\<close>,
  \<^verbatim>\<open>scheduled_point_tree.cpp\<close>): a red-black tree ordered by time whose
  nodes are the points at which the resource state changes.

  A pointer to a point is the time of the point; at most one point per time is ever in
  the tree, because a new one is made only after a search for its time failed. Writing
  through a pointer is \<open>sp_modify\<close>, reading is \<open>sp_deref\<close>, which is
  \<open>None\<close> when no such point is alive.
\<close>

section \<open>Points\<close>

text \<open>The member \<open>resource_rb_remaining\<close> is \<^verbatim>\<open>resource_rb.remaining\<close>,
  the copy the min-time node keeps; its comparison is part of the comparison of points.\<close>

record scheduled_point =
  at :: int
  in_mt_resource_tree :: bool
  new_point :: bool
  ref_count :: int
  scheduled :: int
  remaining :: int
  resource_rb_remaining :: int

definition scheduled_point_eq :: "scheduled_point \<Rightarrow> scheduled_point \<Rightarrow> bool" where
  "scheduled_point_eq p q \<longleftrightarrow>
     at p = at q \<and> resource_rb_remaining p = resource_rb_remaining q
     \<and> in_mt_resource_tree p = in_mt_resource_tree q \<and> new_point p = new_point q
     \<and> ref_count p = ref_count q \<and> remaining p = remaining q \<and> scheduled p = scheduled q"

section \<open>Operations of the tree\<close>

type_synonym sp_tree = "scheduled_point rbtree"

definition sp_deref :: "int \<Rightarrow> sp_tree \<Rightarrow> scheduled_point option" where
  "sp_deref a t = locate (\<lambda>p. at p = a) t [] \<bind> cursor_data"

definition sp_modify :: "int \<Rightarrow> (scheduled_point \<Rightarrow> scheduled_point) \<Rightarrow> sp_tree \<Rightarrow> sp_tree" where
  "sp_modify a f t = map_rbtree (\<lambda>p. if at p = a then f p else p) t"

text \<open>The outer \<open>None\<close> is the undefined step from a point that is not linked, the
  inner one the end of the tree.\<close>

definition sp_next :: "int \<Rightarrow> sp_tree \<Rightarrow> int option option" where
  "sp_next a t =
     (case locate (\<lambda>p. at p = a) t [] of
        None \<Rightarrow> None
      | Some z \<Rightarrow> Some (map_option at (step_forward z \<bind> cursor_data)))"

definition sp_search :: "int \<Rightarrow> sp_tree \<Rightarrow> int option" where
  "sp_search tm t = map_option at (rb_find at tm t)"

definition get_recent_state :: "scheduled_point \<Rightarrow> scheduled_point option \<Rightarrow> scheduled_point" where
  "get_recent_state new_pt old_pt =
     (case old_pt of None \<Rightarrow> new_pt
      | Some q \<Rightarrow> if at new_pt > at q then new_pt else q)"

fun get_state_loop :: "int \<Rightarrow> sp_tree \<Rightarrow> scheduled_point option \<Rightarrow> scheduled_point option" where
  "get_state_loop tm Null last_state = last_state"
| "get_state_loop tm (Node c l p r) last_state =
     (let result = tm - at p
      in if result < 0 then get_state_loop tm l last_state
         else if result > 0 then get_state_loop tm r (Some (get_recent_state p last_state))
         else Some p)"

definition get_state :: "int \<Rightarrow> sp_tree \<Rightarrow> scheduled_point option" where
  "get_state tm t = get_state_loop tm t None"

definition sp_insert :: "scheduled_point \<Rightarrow> sp_tree \<Rightarrow> sp_tree option" where
  "sp_insert p t = insert_leaf_base default_traits at p t"

definition sp_remove :: "int \<Rightarrow> sp_tree \<Rightarrow> sp_tree option" where
  "sp_remove a t = rb_remove default_traits (\<lambda>p. at p = a) t"

definition sp_destroy :: "sp_tree \<Rightarrow> sp_tree" where
  "sp_destroy t = Null"

definition sp_empty :: "sp_tree \<Rightarrow> bool" where
  "sp_empty t \<longleftrightarrow> t = Null"

fun sp_size :: "sp_tree \<Rightarrow> nat" where
  "sp_size Null = 0"
| "sp_size (Node c l p r) = Suc (sp_size l + sp_size r)"

text \<open>
  The points a loop \<^verbatim>\<open>for (p = start; p; p = next (p))\<close> visits: stepping a
  cursor until the tree ends. Such loops never change the times or the links of the tree,
  so they are recursions over this list.
\<close>

fun cursor_rest :: "'a cursor \<Rightarrow> nat" where
  "cursor_rest (Null, ctx) = 0"
| "cursor_rest (Node c l x r, ctx) = Suc (length (inorder r) + length (after ctx))"

lemma cursor_rest_leftmost:
  "t \<noteq> Null \<Longrightarrow> cursor_rest (leftmost t ctx) = length (inorder t) + length (after ctx)"
  by (induction t ctx rule: leftmost.induct) auto

lemma climb_right_rest:
  "climb_right z = Some y \<Longrightarrow> cursor_rest y = length (after (snd z))"
  by (induction z rule: climb_right.induct) auto

lemma step_forward_rest: "step_forward z = Some y \<Longrightarrow> cursor_rest y < cursor_rest z"
  by (cases z rule: step_forward.cases)
     (auto simp: cursor_rest_leftmost climb_right_rest split: if_splits)

function iterate :: "'a cursor \<Rightarrow> 'a list" where
  "iterate z =
     (case cursor_data z of
        None \<Rightarrow> []
      | Some x \<Rightarrow> x # (case step_forward z of None \<Rightarrow> [] | Some y \<Rightarrow> iterate y))"
  by pat_completeness auto

termination iterate
  by (relation "measure cursor_rest") (auto simp: step_forward_rest)

declare iterate.simps [simp del]

definition sp_from :: "int \<Rightarrow> sp_tree \<Rightarrow> scheduled_point list" where
  "sp_from a t = (case locate (\<lambda>p. at p = a) t [] of None \<Rightarrow> [] | Some z \<Rightarrow> iterate z)"

end
