(* ===== verification/Mintime_Resource_Tree.thy ===== *)
theory Mintime_Resource_Tree
  imports Ygg_RBTree_Correct
begin

text \<open>
  The min-time resource tree
  (\<^verbatim>\<open>src/resource/planner/c++/mintime_resource_tree.cpp\<close>): a red-black
  tree of scheduled points ordered by the quantity that remains there, each node
  carrying the smallest time of its subtree. \<open>get_mintime\<close> finds the earliest point
  at which a request fits.

  A node is the \<^verbatim>\<open>resource_rb\<close> member of a scheduled point; it is
  addressed by the time of that point. Inserting a node that is linked already, or
  removing one that is not, is undefined for an intrusive tree and gives \<open>None\<close>.
\<close>

section \<open>Nodes\<close>

record mt_node =
  mt_at :: int
  subtree_min :: int
  mt_remaining :: int

text \<open>The minimum a null-checked child contributes, and the value the code computes for
  a node from its own time and its two children.\<close>

fun tree_min :: "mt_node rbtree \<Rightarrow> int option" where
  "tree_min Null = None"
| "tree_min (Node c l x r) = Some (subtree_min x)"

fun lower :: "int option \<Rightarrow> int \<Rightarrow> int" where
  "lower None v = v"
| "lower (Some m) v = (if v > m then m else v)"

fun frame_node :: "'a frame \<Rightarrow> 'a" where
  "frame_node (InLeft c x r) = x"
| "frame_node (InRight c l x) = x"

abbreviation frame_min :: "mt_node frame \<Rightarrow> int" where
  "frame_min f \<equiv> subtree_min (frame_node f)"

text \<open>\<open>local_min m f\<close>: the minimum at the node of frame \<open>f\<close> when its child on the
  open side has minimum \<open>m\<close>.\<close>

fun local_min :: "int option \<Rightarrow> mt_node frame \<Rightarrow> int" where
  "local_min m (InLeft c x r) = lower (tree_min r) (lower m (mt_at x))"
| "local_min m (InRight c l x) = lower m (lower (tree_min l) (mt_at x))"

fun set_frame_min :: "int \<Rightarrow> mt_node frame \<Rightarrow> mt_node frame" where
  "set_frame_min v (InLeft c x r) = InLeft c (x\<lparr>subtree_min := v\<rparr>) r"
| "set_frame_min v (InRight c l x) = InRight c l (x\<lparr>subtree_min := v\<rparr>)"

section \<open>The node traits\<close>

text \<open>
  The loop of \<^verbatim>\<open>fix\<close>, the traversed node being the first frame and
  \<open>m\<close> the minimum stored in the child below it. It stops when the value did not
  change, or when the parent is already smaller and did not owe its value to the old one.
\<close>

fun fix_frames :: "int option \<Rightarrow> mt_node frame list \<Rightarrow> mt_node frame list" where
  "fix_frames m [] = []"
| "fix_frames m (f # ctx) =
     (let old = frame_min f; new = local_min m f; f' = set_frame_min new f
      in if new = old then f' # ctx
         else case ctx of
                [] \<Rightarrow> [f']
              | g # _ \<Rightarrow>
                  if frame_min g \<noteq> old \<and> frame_min g < new then f' # ctx
                  else f' # fix_frames (Some new) ctx)"

fun fix_node :: "mt_node cursor \<Rightarrow> mt_node cursor" where
  "fix_node (Null, ctx) = (Null, ctx)"
| "fix_node (Node c l x r, ctx) = up (l, fix_frames (tree_min l) (InLeft c x r # ctx))"

text \<open>\<^verbatim>\<open>fix\<close> of the node \<open>k + 1\<close> levels above the cursor, nothing when
  there is none.\<close>

definition fix_above :: "nat \<Rightarrow> mt_node cursor \<Rightarrow> mt_node cursor" where
  "fix_above k z = (case z of (t, ctx) \<Rightarrow>
     (t, take k ctx @ fix_frames (tree_min (plug t (take k ctx))) (drop k ctx)))"

fun leaf_up :: "int \<Rightarrow> mt_node frame list \<Rightarrow> mt_node frame list" where
  "leaf_up v [] = []"
| "leaf_up v (f # ctx) = (if frame_min f > v then set_frame_min v f # leaf_up v ctx else f # ctx)"

fun mt_leaf_inserted :: "mt_node cursor \<Rightarrow> mt_node cursor" where
  "mt_leaf_inserted (Null, ctx) = (Null, ctx)"
| "mt_leaf_inserted (Node c l x r, ctx) =
     (Node c l (x\<lparr>subtree_min := mt_at x\<rparr>) r, leaf_up (mt_at x) ctx)"

definition mt_rotated :: "mt_node cursor \<Rightarrow> mt_node cursor" where
  "mt_rotated z = fix_above 0 (fix_node z)"

definition mt_swapped :: "nat \<Rightarrow> mt_node cursor \<Rightarrow> mt_node cursor" where
  "mt_swapped k z = fix_above (Suc k) (fix_above k (fix_above 0 (fix_node z)))"

definition mt_resource_node_traits :: "mt_node node_traits" where
  "mt_resource_node_traits = \<lparr>leaf_inserted = mt_leaf_inserted, rotated_left = mt_rotated,
     rotated_right = mt_rotated, deleted_below = fix_node, swapped = mt_swapped\<rparr>"

section \<open>Operations of the tree\<close>

definition right_branch_mintime :: "mt_node \<Rightarrow> mt_node rbtree \<Rightarrow> int" where
  "right_branch_mintime x r =
     (let min_time = (case tree_min r of None \<Rightarrow> int64_max | Some m \<Rightarrow> m)
      in if mt_at x < min_time then mt_at x else min_time)"

text \<open>The loop below the anchor, from the anchor's right child.\<close>

fun find_mintime_loop :: "mt_node rbtree \<Rightarrow> int \<Rightarrow> int option" where
  "find_mintime_loop Null min_time = None"
| "find_mintime_loop (Node c l x r) min_time =
     (if mt_at x = min_time then Some (mt_at x)
      else if tree_min l = Some min_time then find_mintime_loop l min_time
      else find_mintime_loop r min_time)"

fun find_mintime_point :: "mt_node rbtree \<Rightarrow> int \<Rightarrow> int option" where
  "find_mintime_point Null min_time = None"
| "find_mintime_point (Node c l x r) min_time =
     (if mt_at x = min_time then Some (mt_at x) else find_mintime_loop r min_time)"

text \<open>The anchor search; the anchor is carried as the subtree at that node,
  \<open>Null\<close> for the null pointer.\<close>

fun find_mintime_anchor ::
  "int \<Rightarrow> mt_node rbtree \<Rightarrow> int \<Rightarrow> mt_node rbtree \<Rightarrow> int \<times> mt_node rbtree" where
  "find_mintime_anchor request Null min_time anchor = (min_time, anchor)"
| "find_mintime_anchor request (Node c l x r) min_time anchor =
     (if request \<le> mt_remaining x
      then (let right_min_time = right_branch_mintime x r
            in if right_min_time < min_time
               then find_mintime_anchor request l right_min_time (Node c l x r)
               else find_mintime_anchor request l min_time anchor)
      else find_mintime_anchor request r min_time anchor)"

definition get_mintime :: "int \<Rightarrow> mt_node rbtree \<Rightarrow> int option" where
  "get_mintime request t =
     (case find_mintime_anchor request t int64_max Null of
        (min_time, anchor) \<Rightarrow> find_mintime_point anchor min_time)"

text \<open>\<open>insert\<close> and \<open>remove\<close> on the tree itself; the point's own fields are
  written by the planner's wrappers. The caller never passes a null point: that branch
  is in the wrappers too.\<close>

definition mt_linked :: "int \<Rightarrow> mt_node rbtree \<Rightarrow> bool" where
  "mt_linked at t \<longleftrightarrow> locate (\<lambda>n. mt_at n = at) t [] \<noteq> None"

definition mt_insert :: "int \<Rightarrow> int \<Rightarrow> mt_node rbtree \<Rightarrow> mt_node rbtree option" where
  "mt_insert at remaining t =
     (if mt_linked at t then None
      else insert_leaf_base mt_resource_node_traits mt_remaining
             \<lparr>mt_at = at, subtree_min = 0, mt_remaining = remaining\<rparr> t)"

definition mt_remove :: "int \<Rightarrow> mt_node rbtree \<Rightarrow> mt_node rbtree option" where
  "mt_remove at t = rb_remove mt_resource_node_traits (\<lambda>n. mt_at n = at) t"

end
