(* ===== verification/Planner.thy ===== *)
theory Planner
  imports Ordered_Map Scheduled_Point_Tree Mintime_Resource_Tree
begin

text \<open>
  The planner class (\<^verbatim>\<open>src/resource/planner/c++/planner.hpp\<close>,
  \<^verbatim>\<open>planner.cpp\<close>): the schedule of one resource pool over time. It owns
  the two trees over the scheduled points, the spans planned so far, the points taken out
  of the min-time tree during an iteration over available times, and the request that
  iteration is for.

  A pointer to a point is \<open>Some\<close> of its time, the null pointer \<open>None\<close>. Every
  method is a function from the planner to its result and the new planner; the outer
  \<open>option\<close> is \<open>None\<close> when the execution is undefined. Signed sums are exact:
  where they would overflow, the code is undefined, and the theorems' range conditions
  exclude it.
\<close>

section \<open>Data\<close>

record request =
  req_on_or_after :: int
  req_duration :: int
  req_count :: int

record span =
  span_start :: int
  span_last :: int
  span_id :: int
  planned :: int
  in_system :: bool
  start_p :: "int option"
  last_p :: "int option"

record planner =
  m_total_resources :: int
  m_resource_type :: string
  m_plan_start :: int
  m_plan_end :: int
  m_sched_point_tree :: sp_tree
  m_mt_resource_tree :: "mt_node rbtree"
  m_p0 :: "int option"
  m_span_lookup :: "(int, span) omap"
  m_span_lookup_iter :: "int iter"
  m_avail_time_iter :: "(int, int option) omap"
  m_avail_time_iter_set :: bool
  m_current_request :: request
  m_span_counter :: int

text \<open>\<open>exn + 'a\<close>: an operation that may throw.\<close>

datatype exn = Runtime_error string

text \<open>\<^verbatim>\<open>new scheduled_point_t ()\<close>: every member zero.\<close>

definition zero_point :: scheduled_point where
  "zero_point = \<lparr>at = 0, in_mt_resource_tree = False, new_point = False, ref_count = 0,
     scheduled = 0, remaining = 0, resource_rb_remaining = 0\<rparr>"

text \<open>\<^verbatim>\<open>planner::planner ()\<close>: the members' default initialisers.\<close>

definition planner_default :: planner where
  "planner_default = \<lparr>m_total_resources = 0, m_resource_type = '''', m_plan_start = 0, m_plan_end = 0,
     m_sched_point_tree = Null, m_mt_resource_tree = Null, m_p0 = None, m_span_lookup = [],
     m_span_lookup_iter = Singular, m_avail_time_iter = [], m_avail_time_iter_set = False,
     m_current_request = \<lparr>req_on_or_after = 0, req_duration = 0, req_count = 0\<rparr>, m_span_counter = 0\<rparr>"

section \<open>The trees\<close>

definition get_point :: "int \<Rightarrow> planner \<Rightarrow> scheduled_point option" where
  "get_point a p = sp_deref a (m_sched_point_tree p)"

definition modify_point :: "int \<Rightarrow> (scheduled_point \<Rightarrow> scheduled_point) \<Rightarrow> planner \<Rightarrow> planner" where
  "modify_point a f p = p\<lparr>m_sched_point_tree := sp_modify a f (m_sched_point_tree p)\<rparr>"

text \<open>\<^verbatim>\<open>mintime_resource_tree_t::insert\<close> and
  \<^verbatim>\<open>remove\<close>: the null check, the fields of the point, the tree.\<close>

definition mt_tree_insert :: "int option \<Rightarrow> planner \<Rightarrow> (int \<times> planner) option" where
  "mt_tree_insert pt p =
     (case pt of
        None \<Rightarrow> Some (- 1, p)
      | Some a \<Rightarrow> do {
          q \<leftarrow> get_point a p;
          t \<leftarrow> mt_insert (at q) (remaining q) (m_mt_resource_tree p);
          Some (0, modify_point a
                     (\<lambda>q. q\<lparr>resource_rb_remaining := remaining q, in_mt_resource_tree := True\<rparr>)
                     (p\<lparr>m_mt_resource_tree := t\<rparr>))
        })"

definition mt_tree_remove :: "int option \<Rightarrow> planner \<Rightarrow> (int \<times> planner) option" where
  "mt_tree_remove pt p =
     (case pt of
        None \<Rightarrow> Some (- 1, p)
      | Some a \<Rightarrow> do {
          t \<leftarrow> mt_remove a (m_mt_resource_tree p);
          Some (0, modify_point a (\<lambda>q. q\<lparr>in_mt_resource_tree := False\<rparr>) (p\<lparr>m_mt_resource_tree := t\<rparr>))
        })"

text \<open>\<^verbatim>\<open>scheduled_point_tree_t::insert\<close> takes a new point,
  \<^verbatim>\<open>remove\<close> a pointer; the removed point is deleted by the caller.\<close>

definition sp_tree_insert :: "scheduled_point \<Rightarrow> planner \<Rightarrow> (int \<times> planner) option" where
  "sp_tree_insert q p = do {
     t \<leftarrow> sp_insert q (m_sched_point_tree p);
     Some (0, p\<lparr>m_sched_point_tree := t\<rparr>)
   }"

definition sp_tree_remove :: "int option \<Rightarrow> planner \<Rightarrow> (int \<times> planner) option" where
  "sp_tree_remove pt p =
     (case pt of
        None \<Rightarrow> Some (- 1, p)
      | Some a \<Rightarrow> do {
          t \<leftarrow> sp_remove a (m_sched_point_tree p);
          Some (0, p\<lparr>m_sched_point_tree := t\<rparr>)
        })"

definition sp_tree_search :: "int \<Rightarrow> planner \<Rightarrow> int option" where
  "sp_tree_search tm p = sp_search tm (m_sched_point_tree p)"

definition sp_tree_get_state :: "int \<Rightarrow> planner \<Rightarrow> scheduled_point option" where
  "sp_tree_get_state tm p = get_state tm (m_sched_point_tree p)"

text \<open>The points visited from a state on by \<^verbatim>\<open>sp_tree_next\<close>.\<close>

definition walk_from :: "scheduled_point option \<Rightarrow> planner \<Rightarrow> scheduled_point list" where
  "walk_from st p = (case st of None \<Rightarrow> [] | Some q \<Rightarrow> sp_from (at q) (m_sched_point_tree p))"

definition mt_tree_get_mintime :: "int \<Rightarrow> planner \<Rightarrow> int option" where
  "mt_tree_get_mintime request p = get_mintime request (m_mt_resource_tree p)"

section \<open>Span lookup\<close>

definition clear_span_lookup :: "planner \<Rightarrow> planner" where
  "clear_span_lookup p = p\<lparr>m_span_lookup := [], m_span_lookup_iter := iter_after_clear (m_span_lookup_iter p)\<rparr>"

definition span_lookup_erase :: "int \<Rightarrow> planner \<Rightarrow> planner" where
  "span_lookup_erase k p = p\<lparr>m_span_lookup := om_erase k (m_span_lookup p),
     m_span_lookup_iter := iter_after_erase k (m_span_lookup_iter p)\<rparr>"

definition span_lookup_insert :: "int \<Rightarrow> span \<Rightarrow> planner \<Rightarrow> planner" where
  "span_lookup_insert k s p = p\<lparr>m_span_lookup := fst (om_insert k s (m_span_lookup p))\<rparr>"

text \<open>Writing through the shared pointer to a span.\<close>

definition modify_span :: "int \<Rightarrow> (span \<Rightarrow> span) \<Rightarrow> planner \<Rightarrow> planner" where
  "modify_span k f p = p\<lparr>m_span_lookup := map (\<lambda>(j, s). (j, if j = k then f s else s)) (m_span_lookup p)\<rparr>"

definition incr_span_lookup_iter :: "planner \<Rightarrow> planner option" where
  "incr_span_lookup_iter p = do {
     i \<leftarrow> om_next (m_span_lookup_iter p) (m_span_lookup p);
     Some (p\<lparr>m_span_lookup_iter := i\<rparr>)
   }"

definition incr_span_counter :: "planner \<Rightarrow> planner" where
  "incr_span_counter p = p\<lparr>m_span_counter := u64 (m_span_counter p + 1)\<rparr>"

section \<open>Construction, erasure, reinitialisation\<close>

fun restore_loop :: "(int, int option) omap \<Rightarrow> planner \<Rightarrow> (int \<times> planner) option" where
  "restore_loop [] p = Some (0, p)"
| "restore_loop ((k, pt) # kvs) p = do {
     (rc, p) \<leftarrow> mt_tree_insert pt p;
     (rc', p) \<leftarrow> restore_loop kvs p;
     Some (rc + rc', p)
   }"

definition restore_track_points :: "planner \<Rightarrow> (int \<times> planner) option" where
  "restore_track_points p = do {
     (rc, p) \<leftarrow> restore_loop (m_avail_time_iter p) p;
     Some (rc, p\<lparr>m_avail_time_iter := []\<rparr>)
   }"

definition planner_init :: "int \<Rightarrow> int \<Rightarrow> int \<Rightarrow> string \<Rightarrow> planner option" where
  "planner_init base_time duration resource_totals in_resource_type = do {
     let p = planner_default\<lparr>m_total_resources := i64 resource_totals,
               m_resource_type := in_resource_type, m_plan_start := base_time,
               m_plan_end := base_time + i64 duration, m_p0 := Some base_time\<rparr>;
     (_, p) \<leftarrow> sp_tree_insert (zero_point\<lparr>at := base_time, new_point := True, ref_count := 1,
                                 remaining := m_total_resources p\<rparr>) p;
     (_, p) \<leftarrow> mt_tree_insert (m_p0 p) p;
     Some (p\<lparr>m_avail_time_iter_set := False, m_span_counter := 0\<rparr>)
   }"

definition erase_planner :: "planner \<Rightarrow> (int \<times> planner) option" where
  "erase_planner p = do {
     (rc, p) \<leftarrow> restore_track_points p;
     let p = clear_span_lookup p;
     (rc, p) \<leftarrow> (case m_p0 p of
                  None \<Rightarrow> Some (rc, p)
                | Some a \<Rightarrow> do {
                    q \<leftarrow> get_point a p;
                    (if in_mt_resource_tree q
                     then map_option (\<lambda>(rc', p). (rc + rc', p)) (mt_tree_remove (m_p0 p) p)
                     else Some (rc, p))
                  });
     Some (rc, p\<lparr>m_sched_point_tree := sp_destroy (m_sched_point_tree p), m_mt_resource_tree := Null\<rparr>)
   }"

definition reinitialize :: "int \<Rightarrow> int \<Rightarrow> planner \<Rightarrow> (int \<times> planner) option" where
  "reinitialize base_time duration p = do {
     let p = p\<lparr>m_plan_start := base_time, m_plan_end := base_time + i64 duration, m_p0 := Some base_time\<rparr>;
     (rc, p) \<leftarrow> sp_tree_insert (zero_point\<lparr>at := base_time, ref_count := 1,
                                  remaining := m_total_resources p\<rparr>) p;
     (rc', p) \<leftarrow> mt_tree_insert (m_p0 p) p;
     Some (rc + rc', p\<lparr>m_avail_time_iter_set := False, m_span_counter := 0\<rparr>)
   }"

fun update_total_loop :: "int \<Rightarrow> scheduled_point list \<Rightarrow> planner \<Rightarrow> planner" where
  "update_total_loop delta [] p = p"
| "update_total_loop delta (q # qs) p =
     (let tmp = remaining q + delta
      in update_total_loop delta qs
           (modify_point (at q) (\<lambda>q. q\<lparr>remaining := (if tmp \<ge> 0 then tmp else 0)\<rparr>) p))"

definition update_total :: "int \<Rightarrow> planner \<Rightarrow> int \<times> planner" where
  "update_total resource_total p =
     (let delta = i64 (resource_total - m_total_resources p)
      in if delta = 0 then (0, p)
         else let p = p\<lparr>m_total_resources := i64 resource_total\<rparr>
              in (0, update_total_loop delta (walk_from (sp_tree_get_state (m_plan_start p) p) p) p))"

section \<open>Copying and comparing\<close>

fun copy_points :: "scheduled_point list \<Rightarrow> planner \<Rightarrow> (int \<times> planner) option" where
  "copy_points [] p = Some (0, p)"
| "copy_points (q # qs) p = do {
     (rc, p) \<leftarrow> sp_tree_insert (q\<lparr>resource_rb_remaining := 0\<rparr>) p;
     (if rc \<noteq> 0 then Some (rc, p)
      else do {
        (rc, p) \<leftarrow> mt_tree_insert (Some (at q)) p;
        (if rc \<noteq> 0 then Some (rc, p) else copy_points qs p)
      })
   }"

definition copy_trees :: "planner \<Rightarrow> planner \<Rightarrow> (int \<times> planner) option" where
  "copy_trees other p =
     (if \<not> sp_empty (m_sched_point_tree other)
      then copy_points (walk_from (sp_tree_get_state (m_plan_start other) other) other) p
      else erase_planner p)"

fun copy_spans :: "(int, span) omap \<Rightarrow> planner \<Rightarrow> planner" where
  "copy_spans [] p = p"
| "copy_spans ((k, s) # kvs) p =
     copy_spans kvs
       (p\<lparr>m_span_lookup := om_assign k
           (s\<lparr>start_p := map_option at (sp_tree_get_state (span_start s) p),
              last_p := map_option at (sp_tree_get_state (span_last s) p)\<rparr>) (m_span_lookup p)\<rparr>)"

fun copy_avail :: "planner \<Rightarrow> (int, int option) omap \<Rightarrow> planner \<Rightarrow> planner option" where
  "copy_avail other [] p = Some p"
| "copy_avail other ((k, pt) # kvs) p = do {
     a \<leftarrow> pt;
     q \<leftarrow> get_point a other;
     copy_avail other kvs
       (p\<lparr>m_avail_time_iter := om_assign k (map_option at (sp_tree_get_state (at q) p)) (m_avail_time_iter p)\<rparr>)
   }"

definition copy_maps :: "planner \<Rightarrow> planner \<Rightarrow> (int \<times> planner) option" where
  "copy_maps other p = do {
     let p = (if m_span_lookup other \<noteq> [] then copy_spans (m_span_lookup other) p else clear_span_lookup p);
     p \<leftarrow> (if m_avail_time_iter other \<noteq> [] then copy_avail other (m_avail_time_iter other) p
          else Some (p\<lparr>m_avail_time_iter := []\<rparr>));
     Some (0, p)
   }"

text \<open>The scalar members, and \<^verbatim>\<open>m_p0\<close> from the copied tree.\<close>

definition copy_scalars :: "planner \<Rightarrow> planner \<Rightarrow> planner" where
  "copy_scalars other p =
     (let p = p\<lparr>m_total_resources := m_total_resources other, m_resource_type := m_resource_type other,
                m_plan_start := m_plan_start other, m_plan_end := m_plan_end other,
                m_current_request := m_current_request other,
                m_avail_time_iter_set := m_avail_time_iter_set other,
                m_span_counter := m_span_counter other\<rparr>
      in p\<lparr>m_p0 := map_option at (sp_tree_get_state (m_plan_start p) p)\<rparr>)"

definition planner_copy_ctor :: "planner \<Rightarrow> (exn + planner) option" where
  "planner_copy_ctor other = do {
     (rc, p) \<leftarrow> copy_trees other planner_default;
     (if rc < 0 then Some (Inl (Runtime_error ''ERROR copying trees''))
      else do {
        (rc, p) \<leftarrow> copy_maps other p;
        (if rc < 0 then Some (Inl (Runtime_error ''ERROR copying maps''))
         else Some (Inr (copy_scalars other p)))
      })
   }"

definition planner_assign_op :: "planner \<Rightarrow> planner \<Rightarrow> (exn + planner) option" where
  "planner_assign_op p other = do {
     (rc, p) \<leftarrow> erase_planner p;
     (if rc \<noteq> 0 then Some (Inl (Runtime_error ''ERROR erasing *this''))
      else do {
        (rc, p) \<leftarrow> copy_trees other p;
        (if rc \<noteq> 0 then Some (Inl (Runtime_error ''ERROR copying trees to *this''))
         else do {
           (rc, p) \<leftarrow> copy_maps other p;
           (if rc \<noteq> 0 then Some (Inl (Runtime_error ''ERROR copying maps to *this''))
            else Some (Inr (copy_scalars other p)))
         })
      })
   }"

text \<open>Comparisons read through pointers, so they too may be undefined.\<close>

definition span_eq :: "planner \<Rightarrow> span \<Rightarrow> planner \<Rightarrow> span \<Rightarrow> bool option" where
  "span_eq p s p' s' =
     (if span_start s \<noteq> span_start s' \<or> span_last s \<noteq> span_last s' \<or> span_id s \<noteq> span_id s'
         \<or> planned s \<noteq> planned s' \<or> in_system s \<noteq> in_system s'
      then Some False
      else do {
        a \<leftarrow> start_p s; q \<leftarrow> get_point a p; a' \<leftarrow> start_p s'; q' \<leftarrow> get_point a' p';
        (if \<not> scheduled_point_eq q q' then Some False
         else do {
           a \<leftarrow> last_p s; q \<leftarrow> get_point a p; a' \<leftarrow> last_p s'; q' \<leftarrow> get_point a' p';
           Some (scheduled_point_eq q q')
         })
      })"

fun span_lookups_loop :: "planner \<Rightarrow> (int, span) omap \<Rightarrow> planner \<Rightarrow> bool option" where
  "span_lookups_loop p [] other = Some True"
| "span_lookups_loop p ((k, s) # kvs) other =
     (case om_find k (m_span_lookup other) of
        None \<Rightarrow> Some False
      | Some s' \<Rightarrow> do {
          eq \<leftarrow> span_eq p s other s';
          (if \<not> eq then Some False else span_lookups_loop p kvs other)
        })"

definition span_lookups_equal :: "planner \<Rightarrow> planner \<Rightarrow> bool option" where
  "span_lookups_equal p other =
     (if length (m_span_lookup p) \<noteq> length (m_span_lookup other) then Some False
      else span_lookups_loop p (m_span_lookup p) other)"

fun avail_iters_loop :: "planner \<Rightarrow> (int, int option) omap \<Rightarrow> planner \<Rightarrow> bool option" where
  "avail_iters_loop p [] other = Some True"
| "avail_iters_loop p ((k, pt) # kvs) other =
     (case om_find k (m_avail_time_iter other) of
        None \<Rightarrow> Some False
      | Some pt' \<Rightarrow>
          (case (pt, pt') of
             (Some a, Some a') \<Rightarrow> do {
               q \<leftarrow> get_point a p; q' \<leftarrow> get_point a' other;
               (if \<not> scheduled_point_eq q q' then Some False else avail_iters_loop p kvs other)
             }
           | (None, None) \<Rightarrow> avail_iters_loop p kvs other
           | _ \<Rightarrow> Some False))"

definition avail_time_iters_equal :: "planner \<Rightarrow> planner \<Rightarrow> bool option" where
  "avail_time_iters_equal p other =
     (if length (m_avail_time_iter p) \<noteq> length (m_avail_time_iter other) then Some False
      else avail_iters_loop p (m_avail_time_iter p) other)"

fun points_equal :: "scheduled_point list \<Rightarrow> scheduled_point list \<Rightarrow> bool option" where
  "points_equal [] qs' = Some True"
| "points_equal (q # qs) [] = None"
| "points_equal (q # qs) (q' # qs') =
     (if \<not> scheduled_point_eq q q' then Some False else points_equal qs qs')"

definition trees_equal :: "planner \<Rightarrow> planner \<Rightarrow> bool option" where
  "trees_equal p other =
     (if sp_size (m_sched_point_tree p) \<noteq> sp_size (m_sched_point_tree other) then Some False
      else if \<not> sp_empty (m_sched_point_tree p)
      then points_equal (walk_from (sp_tree_get_state (m_plan_start p) p) p)
             (walk_from (sp_tree_get_state (m_plan_start other) other) other)
      else Some True)"

definition p0_equal :: "planner \<Rightarrow> planner \<Rightarrow> bool option" where
  "p0_equal p other =
     (case (m_p0 p, m_p0 other) of
        (Some a, Some a') \<Rightarrow> do {
          q \<leftarrow> get_point a p; q' \<leftarrow> get_point a' other; Some (scheduled_point_eq q q')
        }
      | (None, None) \<Rightarrow> Some True
      | _ \<Rightarrow> Some False)"

definition planner_eq :: "planner \<Rightarrow> planner \<Rightarrow> bool option" where
  "planner_eq p other =
     (if m_total_resources p \<noteq> m_total_resources other \<or> m_resource_type p \<noteq> m_resource_type other
         \<or> m_plan_start p \<noteq> m_plan_start other \<or> m_plan_end p \<noteq> m_plan_end other
         \<or> m_avail_time_iter_set p \<noteq> m_avail_time_iter_set other
         \<or> m_span_counter p \<noteq> m_span_counter other
      then Some False
      else do {
        b \<leftarrow> p0_equal p other;
        (if \<not> b then Some False else do {
           b \<leftarrow> span_lookups_equal p other;
           (if \<not> b then Some False else do {
              b \<leftarrow> avail_time_iters_equal p other;
              (if \<not> b then Some False else trees_equal p other)
           })
        })
      })"

end
