(* ===== verification/Planner_C.thy ===== *)
theory Planner_C
  imports Planner
begin

text \<open>
  The C interface of the planner
  (\<^verbatim>\<open>src/resource/planner/c/planner_c_interface.cpp\<close>): the operations the
  rest of the scheduler calls. A context pointer is a \<open>planner option\<close>, null being
  \<open>None\<close>. A query gives a \<open>result\<close>; an operation that changes the planner gives
  the result and the context, wrapped in an \<open>option\<close> whose \<open>None\<close> is an undefined
  execution. The unsigned arguments (\<open>duration\<close>, \<open>request\<close>) are integers; each
  conversion the code makes is written out with \<open>i64\<close> or \<open>u64\<close>.
\<close>

section \<open>Scheduled points and resource updates\<close>

text \<open>\<^verbatim>\<open>track_points\<close>; every caller drops the return code.\<close>

definition track_points :: "int \<Rightarrow> planner \<Rightarrow> planner" where
  "track_points a p = p\<lparr>m_avail_time_iter := fst (om_insert a (Some a) (m_avail_time_iter p))\<rparr>"

fun update_mintime_resource_tree :: "int list \<Rightarrow> planner \<Rightarrow> planner option" where
  "update_mintime_resource_tree [] p = Some p"
| "update_mintime_resource_tree (a # list) p = do {
     q \<leftarrow> get_point a p;
     (_, p) \<leftarrow> (if in_mt_resource_tree q then mt_tree_remove (Some a) p else Some (0, p));
     q \<leftarrow> get_point a p;
     (_, p) \<leftarrow> (if ref_count q \<noteq> 0 \<and> \<not> in_mt_resource_tree q
               then mt_tree_insert (Some a) p else Some (0, p));
     update_mintime_resource_tree list p
   }"

definition copy_req :: "int \<Rightarrow> int \<Rightarrow> int \<Rightarrow> planner \<Rightarrow> planner" where
  "copy_req on_or_after duration resource_count p =
     p\<lparr>m_current_request := \<lparr>req_on_or_after = on_or_after, req_duration = duration,
                              req_count = i64 resource_count\<rparr>\<rparr>"

text \<open>The result is the point, \<open>Inl EINVAL\<close> for the null pointer.\<close>

definition get_or_new_point :: "int \<Rightarrow> planner \<Rightarrow> (int result \<times> planner) option" where
  "get_or_new_point tm p =
     (case sp_tree_search tm p of
        Some a \<Rightarrow> Some (Inr a, p)
      | None \<Rightarrow>
          (case sp_tree_get_state tm p of
             None \<Rightarrow> Some (Inl EINVAL, p)
           | Some state \<Rightarrow> do {
               (_, p) \<leftarrow> sp_tree_insert (zero_point\<lparr>at := tm, in_mt_resource_tree := False,
                            new_point := True, ref_count := 0, scheduled := scheduled state,
                            remaining := remaining state\<rparr>) p;
               (_, p) \<leftarrow> mt_tree_insert (Some tm) p;
               Some (Inr tm, p)
             }))"

fun overlap_loop :: "int \<Rightarrow> int \<Rightarrow> scheduled_point list \<Rightarrow> int list" where
  "overlap_loop tm end_time [] = []"
| "overlap_loop tm end_time (q # qs) =
     (if at q \<ge> end_time then []
      else if at q \<ge> tm then at q # overlap_loop tm end_time qs
      else overlap_loop tm end_time qs)"

definition fetch_overlap_points :: "int \<Rightarrow> int \<Rightarrow> planner \<Rightarrow> int list" where
  "fetch_overlap_points tm duration p =
     overlap_loop tm (i64 (tm + duration)) (walk_from (sp_tree_get_state tm p) p)"

fun update_points_add_span :: "int list \<Rightarrow> int \<Rightarrow> planner \<Rightarrow> (int \<times> planner) option" where
  "update_points_add_span [] planned_qty p = Some (0, p)"
| "update_points_add_span (a # list) planned_qty p = do {
     let p = modify_point a (\<lambda>q. q\<lparr>scheduled := scheduled q + planned_qty,
                                    remaining := remaining q - planned_qty\<rparr>) p;
     q \<leftarrow> get_point a p;
     (rc, p) \<leftarrow> update_points_add_span list planned_qty p;
     Some (if scheduled q > m_total_resources p \<or> remaining q < 0 then - 1 else rc, p)
   }"

fun update_points_subtract_span :: "int list \<Rightarrow> int \<Rightarrow> planner \<Rightarrow> (int \<times> planner) option" where
  "update_points_subtract_span [] planned_qty p = Some (0, p)"
| "update_points_subtract_span (a # list) planned_qty p = do {
     let p = modify_point a (\<lambda>q. q\<lparr>scheduled := scheduled q - planned_qty,
                                    remaining := remaining q + planned_qty\<rparr>) p;
     q \<leftarrow> get_point a p;
     (rc, p) \<leftarrow> update_points_subtract_span list planned_qty p;
     Some (if scheduled q < 0 \<or> remaining q > m_total_resources p then - 1 else rc, p)
   }"

fun update_points_partial_subtract_span :: "int list \<Rightarrow> int \<Rightarrow> planner \<Rightarrow> (int \<times> planner) option" where
  "update_points_partial_subtract_span [] to_remove p = Some (0, p)"
| "update_points_partial_subtract_span (a # list) to_remove p = do {
     let p = modify_point a (\<lambda>q. q\<lparr>scheduled := scheduled q - to_remove,
                                    remaining := remaining q + to_remove\<rparr>) p;
     q \<leftarrow> get_point a p;
     (if scheduled q < 0 \<or> remaining q > m_total_resources p then Some (- 1, p)
      else update_points_partial_subtract_span list to_remove p)
   }"

fun span_ok_loop :: "int \<Rightarrow> int \<Rightarrow> scheduled_point list \<Rightarrow> bool" where
  "span_ok_loop end_time request [] = True"
| "span_ok_loop end_time request (q # qs) =
     (if at q \<ge> end_time then True
      else if request > remaining q then False
      else span_ok_loop end_time request qs)"

definition span_ok :: "int \<Rightarrow> int \<Rightarrow> int \<Rightarrow> planner \<Rightarrow> (bool \<times> planner) option" where
  "span_ok start_point duration request p =
     (if span_ok_loop (start_point + i64 duration) request (sp_from start_point (m_sched_point_tree p))
      then Some (True, p)
      else do {
        (_, p) \<leftarrow> mt_tree_remove (Some start_point) p;
        Some (False, track_points start_point p)
      })"

text \<open>
  The loop of \<^verbatim>\<open>avail_at\<close>; \<open>tm\<close> is the local variable
  \<^verbatim>\<open>at\<close>. \<open>None\<close> stands for an undefined execution or one that
  does not end.
\<close>

partial_function (option) avail_at_loop :: "int \<Rightarrow> int \<Rightarrow> int \<Rightarrow> int \<Rightarrow> planner \<Rightarrow> (int \<times> planner) option" where
  "avail_at_loop on_or_after duration request tm p =
     (case mt_tree_get_mintime request p of
        None \<Rightarrow> Some (tm, p)
      | Some a \<Rightarrow>
          (if a < on_or_after then
             Option.bind (mt_tree_remove (Some a) p) (\<lambda>(_, p).
               avail_at_loop on_or_after duration request (- 1) (track_points a p))
           else
             Option.bind (span_ok a duration request p) (\<lambda>(ok, p).
               if ok then
                 map_option (\<lambda>(_, p).
                     (if i64 (a + duration) > m_plan_end p then - 1 else a, track_points a p))
                   (mt_tree_remove (Some a) p)
               else avail_at_loop on_or_after duration request a p)))"

declare avail_at_loop.simps [code]

definition avail_at :: "int \<Rightarrow> int \<Rightarrow> int \<Rightarrow> planner \<Rightarrow> (int \<times> planner) option" where
  "avail_at on_or_after duration request p = avail_at_loop on_or_after duration request (- 1) p"

fun avail_during_loop :: "int \<Rightarrow> int \<Rightarrow> scheduled_point list \<Rightarrow> unit result" where
  "avail_during_loop end_time request [] = Inr ()"
| "avail_during_loop end_time request (q # qs) =
     (if at q \<ge> end_time then Inr ()
      else if request > remaining q then Inl EBUSY
      else avail_during_loop end_time request qs)"

text \<open>\<^verbatim>\<open>true\<close> is \<open>Inr ()\<close>, \<^verbatim>\<open>false\<close> is \<open>Inl\<close> of the
  error number set.\<close>

definition avail_during :: "int \<Rightarrow> int \<Rightarrow> int \<Rightarrow> planner \<Rightarrow> unit result" where
  "avail_during tm duration request p =
     (if i64 (tm + duration) > m_plan_end p then Inl ERANGE
      else avail_during_loop (tm + i64 duration) request (walk_from (sp_tree_get_state tm p) p))"

fun min_point_loop :: "int \<Rightarrow> scheduled_point \<Rightarrow> scheduled_point list \<Rightarrow> scheduled_point" where
  "min_point_loop end_time min_pt [] = min_pt"
| "min_point_loop end_time min_pt (q # qs) =
     (if at q \<ge> end_time then min_pt
      else min_point_loop end_time (if remaining min_pt > remaining q then q else min_pt) qs)"

definition avail_resources_during :: "int \<Rightarrow> int \<Rightarrow> planner \<Rightarrow> scheduled_point result" where
  "avail_resources_during tm duration p =
     (if i64 (tm + duration) > m_plan_end p then Inl ERANGE
      else case sp_tree_get_state tm p of
             None \<Rightarrow> Inl EINVAL
           | Some q \<Rightarrow> Inr (min_point_loop (tm + i64 duration) q (walk_from (Some q) p)))"

section \<open>Utilities\<close>

definition not_feasible :: "planner \<Rightarrow> int \<Rightarrow> int \<Rightarrow> bool" where
  "not_feasible p start_time duration \<longleftrightarrow>
     start_time < m_plan_start p \<or> duration < 1 \<or> i64 (start_time + duration - 1) > m_plan_end p"

definition span_input_check :: "planner \<Rightarrow> int \<Rightarrow> int \<Rightarrow> int \<Rightarrow> unit result" where
  "span_input_check p start_time duration request =
     (if not_feasible p start_time duration then Inl EINVAL
      else if request > m_total_resources p \<or> request < 0 then Inl ERANGE
      else Inr ())"

text \<open>The new span is in the lookup; the result is its key there.\<close>

definition span_new :: "int \<Rightarrow> int \<Rightarrow> int \<Rightarrow> planner \<Rightarrow> int result \<times> planner" where
  "span_new start_time duration request p =
     (case span_input_check p start_time duration (i64 request) of
        Inl e \<Rightarrow> (Inl e, p)
      | Inr _ \<Rightarrow>
          (let p = incr_span_counter p; k = i64 (m_span_counter p)
           in if om_find k (m_span_lookup p) \<noteq> None then (Inl EEXIST, p)
              else (Inr k, span_lookup_insert k
                      \<lparr>span_start = start_time, span_last = i64 (start_time + duration), span_id = k,
                       planned = i64 request, in_system = False, start_p = None, last_p = None\<rparr> p)))"

section \<open>Construction\<close>

definition planner_new :: "int \<Rightarrow> int \<Rightarrow> int \<Rightarrow> string option \<Rightarrow> planner result option" where
  "planner_new base_time duration resource_totals resource_type =
     (case resource_type of
        None \<Rightarrow> Some (Inl EINVAL)
      | Some ty \<Rightarrow>
          (if duration < 1 then Some (Inl EINVAL)
           else if resource_totals > u64 int64_max then Some (Inl ERANGE)
           else map_option Inr (planner_init base_time duration resource_totals ty)))"

definition planner_copy :: "planner option \<Rightarrow> (exn + planner) option" where
  "planner_copy ctx = ctx \<bind> planner_copy_ctor"

definition planner_assign :: "planner option \<Rightarrow> planner option \<Rightarrow> (exn + planner) option" where
  "planner_assign lhs rhs = do { p \<leftarrow> lhs; q \<leftarrow> rhs; planner_assign_op p q }"

definition planner_new_empty :: planner where
  "planner_new_empty = planner_default"

definition planner_reset :: "planner option \<Rightarrow> int \<Rightarrow> int \<Rightarrow> (int result \<times> planner option) option" where
  "planner_reset ctx base_time duration =
     (case ctx of
        None \<Rightarrow> Some (Inl EINVAL, None)
      | Some p \<Rightarrow>
          (if duration < 1 then Some (Inl EINVAL, Some p)
           else do {
             (_, p) \<leftarrow> erase_planner p;
             (rc, p) \<leftarrow> reinitialize base_time duration p;
             Some (Inr rc, Some p)
           }))"

text \<open>The destructor empties the object; the caller's pointer is null afterwards.\<close>

definition planner_destroy :: "planner option \<Rightarrow> planner option option" where
  "planner_destroy ctx =
     (case ctx of None \<Rightarrow> Some None | Some p \<Rightarrow> map_option (\<lambda>_. None) (erase_planner p))"

section \<open>Simple queries\<close>

definition planner_base_time :: "planner option \<Rightarrow> int result" where
  "planner_base_time ctx = (case ctx of None \<Rightarrow> Inl EINVAL | Some p \<Rightarrow> Inr (m_plan_start p))"

definition planner_duration :: "planner option \<Rightarrow> int result" where
  "planner_duration ctx =
     (case ctx of None \<Rightarrow> Inl EINVAL | Some p \<Rightarrow> Inr (m_plan_end p - m_plan_start p))"

definition planner_resource_total :: "planner option \<Rightarrow> int result" where
  "planner_resource_total ctx =
     (case ctx of None \<Rightarrow> Inl EINVAL | Some p \<Rightarrow> Inr (m_total_resources p))"

definition planner_resource_type :: "planner option \<Rightarrow> string result" where
  "planner_resource_type ctx =
     (case ctx of None \<Rightarrow> Inl EINVAL | Some p \<Rightarrow> Inr (m_resource_type p))"

section \<open>Availability\<close>

definition planner_avail_time_first ::
  "planner option \<Rightarrow> int \<Rightarrow> int \<Rightarrow> int \<Rightarrow> (int result \<times> planner option) option" where
  "planner_avail_time_first ctx on_or_after duration request =
     (case ctx of
        None \<Rightarrow> Some (Inl EINVAL, None)
      | Some p \<Rightarrow>
          (if on_or_after < m_plan_start p \<or> on_or_after \<ge> m_plan_end p \<or> duration < 1
           then Some (Inl EINVAL, Some p)
           else if i64 request > m_total_resources p then Some (Inl ERANGE, Some p)
           else do {
             (_, p) \<leftarrow> restore_track_points p;
             let p = copy_req on_or_after duration request (p\<lparr>m_avail_time_iter_set := True\<rparr>);
             (t, p) \<leftarrow> avail_at on_or_after duration (i64 request) p;
             Some (if t = - 1 then Inl ENOENT else Inr t, Some p)
           }))"

definition planner_avail_time_next :: "planner option \<Rightarrow> (int result \<times> planner option) option" where
  "planner_avail_time_next ctx =
     (case ctx of
        None \<Rightarrow> Some (Inl EINVAL, None)
      | Some p \<Rightarrow>
          (if \<not> m_avail_time_iter_set p then Some (Inl EINVAL, Some p)
           else
             (let r = m_current_request p
              in if req_count r > m_total_resources p then Some (Inl ERANGE, Some p)
                 else do {
                   (t, p) \<leftarrow> avail_at (req_on_or_after r) (req_duration r) (req_count r) p;
                   Some (if t = - 1 then Inl ENOENT else Inr t, Some p)
                 })))"

definition planner_avail_during :: "planner option \<Rightarrow> int \<Rightarrow> int \<Rightarrow> int \<Rightarrow> unit result" where
  "planner_avail_during ctx start_time duration request =
     (case ctx of
        None \<Rightarrow> Inl EINVAL
      | Some p \<Rightarrow>
          (if duration < 1 then Inl EINVAL
           else if i64 request > m_total_resources p then Inl ERANGE
           else avail_during start_time duration (i64 request) p))"

definition planner_avail_resources_during :: "planner option \<Rightarrow> int \<Rightarrow> int \<Rightarrow> int result" where
  "planner_avail_resources_during ctx tm duration =
     (case ctx of
        None \<Rightarrow> Inl EINVAL
      | Some p \<Rightarrow>
          (if tm > m_plan_end p \<or> duration < 1 then Inl EINVAL
           else map_sum id remaining (avail_resources_during tm duration p)))"

definition planner_avail_resources_at :: "planner option \<Rightarrow> int \<Rightarrow> int result" where
  "planner_avail_resources_at ctx tm =
     (case ctx of
        None \<Rightarrow> Inl EINVAL
      | Some p \<Rightarrow>
          (if tm > m_plan_end p \<or> tm < m_plan_start p then Inl ERANGE
           else case sp_tree_get_state tm p of
                  None \<Rightarrow> Inl ENOENT
                | Some q \<Rightarrow> Inr (remaining q)))"

section \<open>Spans\<close>

abbreviation incr_ref :: "scheduled_point \<Rightarrow> scheduled_point" where
  "incr_ref q \<equiv> q\<lparr>ref_count := ref_count q + 1\<rparr>"

abbreviation decr_ref :: "scheduled_point \<Rightarrow> scheduled_point" where
  "decr_ref q \<equiv> q\<lparr>ref_count := ref_count q - 1\<rparr>"

text \<open>The second half of \<^verbatim>\<open>planner_add_span\<close>, once both end points of the span
  with key \<open>k\<close> exist and are counted.\<close>

definition add_span_update :: "int \<Rightarrow> int \<Rightarrow> int \<Rightarrow> int \<Rightarrow> planner \<Rightarrow> (int result \<times> planner option) option" where
  "add_span_update k duration start_point last_point p = do {
     s \<leftarrow> om_find k (m_span_lookup p);
     let list = fetch_overlap_points (span_start s) duration p;
     (_, p) \<leftarrow> update_points_add_span list (planned s) p;
     let p = modify_point start_point (\<lambda>q. q\<lparr>new_point := False\<rparr>) p;
     let p = modify_span k (\<lambda>s. s\<lparr>start_p := Some start_point\<rparr>) p;
     let p = modify_point last_point (\<lambda>q. q\<lparr>new_point := False\<rparr>) p;
     let p = modify_span k (\<lambda>s. s\<lparr>last_p := Some last_point\<rparr>) p;
     p \<leftarrow> update_mintime_resource_tree list p;
     let p = modify_span k (\<lambda>s. s\<lparr>in_system := True\<rparr>) p;
     let p = p\<lparr>m_avail_time_iter_set := False\<rparr>;
     Some (Inr (span_id s), Some p)
   }"

definition planner_add_span ::
  "planner option \<Rightarrow> int \<Rightarrow> int \<Rightarrow> int \<Rightarrow> (int result \<times> planner option) option" where
  "planner_add_span ctx start_time duration request = do {
     p \<leftarrow> ctx;
     (case avail_during start_time duration (i64 request) p of
        Inl _ \<Rightarrow> Some (Inl EINVAL, Some p)
      | Inr _ \<Rightarrow>
          (case span_new start_time duration request p of
             (Inl e, p) \<Rightarrow> Some (Inl e, Some p)
           | (Inr k, p) \<Rightarrow> do {
               (_, p) \<leftarrow> restore_track_points p;
               s \<leftarrow> om_find k (m_span_lookup p);
               (r1, p) \<leftarrow> get_or_new_point (span_start s) p;
               (case r1 of
                  Inl e \<Rightarrow> Some (Inl e, Some p)
                | Inr start_point \<Rightarrow> do {
                    let p = modify_point start_point incr_ref p;
                    (r2, p) \<leftarrow> get_or_new_point (span_last s) p;
                    (case r2 of
                       Inl e \<Rightarrow> Some (Inl e, Some p)
                     | Inr last_point \<Rightarrow>
                         add_span_update k duration start_point last_point
                           (modify_point last_point incr_ref p))
                  })
             }))
   }"

text \<open>Dropping an end point of a removed span when nothing refers to it any more.\<close>

definition release_point :: "int \<Rightarrow> planner \<Rightarrow> planner option" where
  "release_point a p = do {
     q \<leftarrow> get_point a p;
     (if ref_count q = 0
      then do {
        (_, p') \<leftarrow> sp_tree_remove (Some a) p;
        (if in_mt_resource_tree q then map_option snd (mt_tree_remove (Some a) p') else Some p')
      }
      else Some p)
   }"

definition planner_rem_span :: "planner option \<Rightarrow> int \<Rightarrow> (int result \<times> planner option) option" where
  "planner_rem_span ctx k =
     (case ctx of
        None \<Rightarrow> Some (Inl EINVAL, None)
      | Some p \<Rightarrow>
          (case om_find k (m_span_lookup p) of
             None \<Rightarrow> Some (Inl EINVAL, Some p)
           | Some s \<Rightarrow> do {
               (_, p) \<leftarrow> restore_track_points p;
               let duration = u64 (span_last s - span_start s);
               a \<leftarrow> start_p s; _ \<leftarrow> get_point a p;
               let p = modify_point a decr_ref p;
               b \<leftarrow> last_p s; _ \<leftarrow> get_point b p;
               let p = modify_point b decr_ref p;
               let list = fetch_overlap_points (span_start s) duration p;
               (_, p) \<leftarrow> update_points_subtract_span list (planned s) p;
               p \<leftarrow> update_mintime_resource_tree list p;
               let p = modify_span k (\<lambda>s. s\<lparr>in_system := False\<rparr>) p;
               p \<leftarrow> release_point a p;
               p \<leftarrow> release_point b p;
               Some (Inr 0, Some ((span_lookup_erase k p)\<lparr>m_avail_time_iter_set := False\<rparr>))
             }))"

text \<open>The result carries the out-parameter \<^verbatim>\<open>removed\<close>.\<close>

definition planner_reduce_span ::
  "planner option \<Rightarrow> int \<Rightarrow> int \<Rightarrow> (int result \<times> bool \<times> planner option) option" where
  "planner_reduce_span ctx k to_remove =
     (case ctx of
        None \<Rightarrow> Some (Inl EINVAL, False, None)
      | Some p \<Rightarrow>
          (case om_find k (m_span_lookup p) of
             None \<Rightarrow> Some (Inl EINVAL, False, Some p)
           | Some s \<Rightarrow>
               (if to_remove = planned s then
                  map_option (\<lambda>(rc, c). (rc, True, c)) (planner_rem_span ctx k)
                else if to_remove = 0 then Some (Inr 0, False, Some p)
                else if to_remove < planned s then do {
                  (_, p) \<leftarrow> restore_track_points p;
                  let p = modify_span k (\<lambda>s. s\<lparr>planned := planned s - to_remove\<rparr>) p;
                  let duration = u64 (span_last s - span_start s);
                  let list = fetch_overlap_points (span_start s) duration p;
                  (_, p) \<leftarrow> update_points_partial_subtract_span list to_remove p;
                  p \<leftarrow> update_mintime_resource_tree list p;
                  Some (Inr 0, False, Some p)
                }
                else Some (Inl EINVAL, False, Some p))))"

section \<open>Iterating over and querying spans\<close>

definition span_at_iter :: "planner \<Rightarrow> (int result \<times> planner option) option" where
  "span_at_iter p =
     (case m_span_lookup_iter p of
        End \<Rightarrow> Some (Inl EINVAL, Some p)
      | Singular \<Rightarrow> None
      | At k \<Rightarrow> map_option (\<lambda>s. (Inr (span_id s), Some p)) (om_find k (m_span_lookup p)))"

definition planner_span_first :: "planner option \<Rightarrow> (int result \<times> planner option) option" where
  "planner_span_first ctx =
     (case ctx of
        None \<Rightarrow> Some (Inl EINVAL, None)
      | Some p \<Rightarrow> span_at_iter (p\<lparr>m_span_lookup_iter := om_begin (m_span_lookup p)\<rparr>))"

definition planner_span_next :: "planner option \<Rightarrow> (int result \<times> planner option) option" where
  "planner_span_next ctx =
     (case ctx of
        None \<Rightarrow> Some (Inl EINVAL, None)
      | Some p \<Rightarrow> incr_span_lookup_iter p \<bind> span_at_iter)"

definition planner_span_size :: "planner option \<Rightarrow> nat" where
  "planner_span_size ctx = (case ctx of None \<Rightarrow> 0 | Some p \<Rightarrow> length (m_span_lookup p))"

definition lookup_span :: "planner option \<Rightarrow> int \<Rightarrow> span result" where
  "lookup_span ctx k =
     (case ctx of
        None \<Rightarrow> Inl EINVAL
      | Some p \<Rightarrow> (case om_find k (m_span_lookup p) of None \<Rightarrow> Inl EINVAL | Some s \<Rightarrow> Inr s))"

definition planner_is_active_span :: "planner option \<Rightarrow> int \<Rightarrow> bool" where
  "planner_is_active_span ctx k = (case lookup_span ctx k of Inl _ \<Rightarrow> False | Inr s \<Rightarrow> in_system s)"

definition planner_span_start_time :: "planner option \<Rightarrow> int \<Rightarrow> int result" where
  "planner_span_start_time ctx k = map_sum id span_start (lookup_span ctx k)"

definition planner_span_duration :: "planner option \<Rightarrow> int \<Rightarrow> int result" where
  "planner_span_duration ctx k = map_sum id (\<lambda>s. span_last s - span_start s) (lookup_span ctx k)"

definition planner_span_resource_count :: "planner option \<Rightarrow> int \<Rightarrow> int result" where
  "planner_span_resource_count ctx k = map_sum id planned (lookup_span ctx k)"

definition planners_equal :: "planner option \<Rightarrow> planner option \<Rightarrow> bool option" where
  "planners_equal lhs rhs = do { p \<leftarrow> lhs; q \<leftarrow> rhs; planner_eq p q }"

definition planner_update_total :: "planner option \<Rightarrow> int \<Rightarrow> (int \<times> planner) option" where
  "planner_update_total ctx resource_total = map_option (update_total resource_total) ctx"

end
