(* ===== verification/Planner_Multi.thy ===== *)
theory Planner_Multi
  imports Planner_C "HOL-Library.List_Lexorder" "HOL-Library.Char_ord"
begin

text \<open>
  The multi-resource planner (\<^verbatim>\<open>src/resource/planner/c++/planner_multi.cpp\<close>,
  \<^verbatim>\<open>planner_multi.hpp\<close>) and its C interface
  (\<^verbatim>\<open>src/resource/planner/c/planner_multi_c_interface.cpp\<close>): one planner
  per resource type, in a container indexed both by position and, uniquely, by type, and
  a lookup from a span of the whole to the spans of its parts.

  The container is the list of its elements by position; a lookup by type is a search for
  the unique element of that type. \<^verbatim>\<open>at (i)\<close> out of range throws, and no
  caller catches it: such an execution is \<open>None\<close> like an undefined one. The order of
  \<^verbatim>\<open>std::unordered_map\<close> is never observed, so it is an ordered map here.
\<close>

section \<open>Data\<close>

record request_multi =
  rm_on_or_after :: int
  rm_duration :: int
  rm_counts :: "(string, int) omap"

record planner_multi_meta =
  resource_type :: string
  resource_total :: int
  meta_planner :: "planner option"

record planner_multi =
  m_types_totals_planners :: "planner_multi_meta list"
  mm_iter :: request_multi
  mm_span_lookup :: "(int, int list) omap"
  mm_span_lookup_iter :: "int iter"
  mm_span_counter :: int

definition planner_multi_default :: planner_multi where
  "planner_multi_default = \<lparr>m_types_totals_planners = [],
     mm_iter = \<lparr>rm_on_or_after = 0, rm_duration = 0, rm_counts = []\<rparr>,
     mm_span_lookup = [], mm_span_lookup_iter = Singular, mm_span_counter = 0\<rparr>"

section \<open>The container\<close>

definition mc_find :: "string \<Rightarrow> planner_multi_meta list \<Rightarrow> planner_multi_meta option" where
  "mc_find ty ms = List.find (\<lambda>e. resource_type e = ty) ms"

text \<open>Insertion is refused when the type is present.\<close>

definition mc_push_back :: "planner_multi_meta \<Rightarrow> planner_multi_meta list \<Rightarrow> planner_multi_meta list" where
  "mc_push_back e ms = (if mc_find (resource_type e) ms = None then ms @ [e] else ms)"

definition mc_insert_at :: "nat \<Rightarrow> planner_multi_meta \<Rightarrow> planner_multi_meta list \<Rightarrow> planner_multi_meta list" where
  "mc_insert_at i e ms =
     (if mc_find (resource_type e) ms = None then take i ms @ e # drop i ms else ms)"

fun mc_index :: "string \<Rightarrow> planner_multi_meta list \<Rightarrow> nat" where
  "mc_index ty [] = 0"
| "mc_index ty (e # ms) = (if resource_type e = ty then 0 else Suc (mc_index ty ms))"

text \<open>\<^verbatim>\<open>relocate (begin () + i, j)\<close>: the element at \<open>j\<close> moves before
  position \<open>i\<close>.\<close>

definition mc_relocate :: "nat \<Rightarrow> nat \<Rightarrow> 'a list \<Rightarrow> 'a list" where
  "mc_relocate i j ms =
     (let e = ms ! j
      in if i = j then ms
         else if j < i then take j ms @ drop (Suc j) (take i ms) @ e # drop i ms
         else take i ms @ e # drop i (take j ms) @ drop (Suc j) ms)"

definition at_index :: "nat \<Rightarrow> 'a list \<Rightarrow> 'a option" where
  "at_index i xs = (if i < length xs then Some (xs ! i) else None)"

section \<open>The class\<close>

fun multi_init_loop :: "int \<Rightarrow> int \<Rightarrow> (int \<times> string) list \<Rightarrow> planner_multi \<Rightarrow> planner_multi option" where
  "multi_init_loop base_time duration [] pm = Some pm"
| "multi_init_loop base_time duration ((tot, ty) # rest) pm = do {
     p \<leftarrow> planner_init base_time duration tot ty;
     let it = mm_iter pm;
     multi_init_loop base_time duration rest
       (pm\<lparr>mm_iter := it\<lparr>rm_counts := om_assign ty 0 (rm_counts it)\<rparr>,
           m_types_totals_planners := mc_push_back
             \<lparr>resource_type = ty, resource_total = tot, meta_planner = Some p\<rparr> (m_types_totals_planners pm)\<rparr>)
   }"

definition planner_multi_init :: "int \<Rightarrow> int \<Rightarrow> (int \<times> string) list \<Rightarrow> planner_multi option" where
  "planner_multi_init base_time duration resources =
     multi_init_loop base_time duration resources planner_multi_default"

fun copy_planners :: "planner_multi_meta list \<Rightarrow> planner_multi_meta list
    \<Rightarrow> (exn + planner_multi_meta list) option" where
  "copy_planners [] acc = Some (Inr acc)"
| "copy_planners (e # es) acc = do {
     np \<leftarrow> (case meta_planner e of None \<Rightarrow> Some (Inr planner_default) | Some p \<Rightarrow> planner_copy_ctor p);
     (case np of
        Inl x \<Rightarrow> Some (Inl x)
      | Inr p \<Rightarrow> copy_planners es (mc_push_back (e\<lparr>meta_planner := Some p\<rparr>) acc))
   }"

text \<open>The copied iterator still refers to the other object's map, so it is unusable.\<close>

definition planner_multi_copy_ctor :: "planner_multi \<Rightarrow> (exn + planner_multi) option" where
  "planner_multi_copy_ctor other = do {
     r \<leftarrow> copy_planners (m_types_totals_planners other) [];
     Some (map_sum id (\<lambda>ms. \<lparr>m_types_totals_planners = ms, mm_iter = mm_iter other,
             mm_span_lookup = mm_span_lookup other, mm_span_lookup_iter = Singular,
             mm_span_counter = mm_span_counter other\<rparr>) r)
   }"

text \<open>\<^verbatim>\<open>erase\<close>: the destructor of every planner runs.\<close>

fun destroy_planners :: "planner_multi_meta list \<Rightarrow> unit option" where
  "destroy_planners [] = Some ()"
| "destroy_planners (e # es) =
     (case meta_planner e of
        None \<Rightarrow> destroy_planners es
      | Some p \<Rightarrow> do { _ \<leftarrow> erase_planner p; destroy_planners es })"

definition planner_multi_assign_op :: "planner_multi \<Rightarrow> planner_multi \<Rightarrow> (exn + planner_multi) option" where
  "planner_multi_assign_op pm other = do {
     _ \<leftarrow> destroy_planners (m_types_totals_planners pm);
     planner_multi_copy_ctor other
   }"

fun multi_planners_eq :: "planner_multi_meta list \<Rightarrow> planner_multi_meta list \<Rightarrow> bool option" where
  "multi_planners_eq [] others = Some True"
| "multi_planners_eq (e # es) others =
     (case mc_find (resource_type e) others of
        None \<Rightarrow> Some False
      | Some o' \<Rightarrow>
          (if resource_total e \<noteq> resource_total o' then Some False
           else do {
             p \<leftarrow> meta_planner e; q \<leftarrow> meta_planner o';
             b \<leftarrow> planner_eq p q;
             (if \<not> b then Some False else multi_planners_eq es others)
           }))"

definition planner_multi_eq :: "planner_multi \<Rightarrow> planner_multi \<Rightarrow> bool option" where
  "planner_multi_eq pm other =
     (if mm_span_counter pm \<noteq> mm_span_counter other \<or> mm_span_lookup pm \<noteq> mm_span_lookup other
         \<or> rm_on_or_after (mm_iter pm) \<noteq> rm_on_or_after (mm_iter other)
         \<or> rm_duration (mm_iter pm) \<noteq> rm_duration (mm_iter other)
         \<or> rm_counts (mm_iter pm) \<noteq> rm_counts (mm_iter other)
         \<or> length (m_types_totals_planners pm) \<noteq> length (m_types_totals_planners other)
      then Some False
      else multi_planners_eq (m_types_totals_planners pm) (m_types_totals_planners other))"

definition add_planner :: "int \<Rightarrow> int \<Rightarrow> int \<Rightarrow> string \<Rightarrow> nat \<Rightarrow> planner_multi \<Rightarrow> planner_multi option" where
  "add_planner base_time duration tot ty i pm = do {
     p \<leftarrow> planner_init base_time duration tot ty;
     let it = mm_iter pm;
     let e = \<lparr>resource_type = ty, resource_total = tot, meta_planner = Some p\<rparr>;
     let ms = m_types_totals_planners pm;
     Some (pm\<lparr>mm_iter := it\<lparr>rm_counts := om_assign ty 0 (rm_counts it)\<rparr>,
              m_types_totals_planners :=
                (if i > length ms then mc_push_back e ms else mc_insert_at i e ms)\<rparr>)
   }"

definition delete_planners :: "string set \<Rightarrow> planner_multi \<Rightarrow> planner_multi" where
  "delete_planners rtypes pm =
     (let ms = m_types_totals_planners pm; it = mm_iter pm
      in pm\<lparr>m_types_totals_planners := filter (\<lambda>e. resource_type e \<in> rtypes) ms,
            mm_iter := it\<lparr>rm_counts :=
              fold om_erase (map resource_type (filter (\<lambda>e. resource_type e \<notin> rtypes) ms)) (rm_counts it)\<rparr>\<rparr>)"

definition get_planner_at :: "nat \<Rightarrow> planner_multi \<Rightarrow> planner option option" where
  "get_planner_at i pm = map_option meta_planner (at_index i (m_types_totals_planners pm))"

definition get_planner_by_type :: "string \<Rightarrow> planner_multi \<Rightarrow> planner option option" where
  "get_planner_by_type ty pm = map_option meta_planner (mc_find ty (m_types_totals_planners pm))"

text \<open>The state of planner \<open>i\<close> after an operation on it.\<close>

definition set_planner_at :: "nat \<Rightarrow> planner option \<Rightarrow> planner_multi \<Rightarrow> planner_multi" where
  "set_planner_at i p pm =
     (let ms = m_types_totals_planners pm
      in pm\<lparr>m_types_totals_planners := ms[i := (ms ! i)\<lparr>meta_planner := p\<rparr>]\<rparr>)"

definition update_planner_index :: "string \<Rightarrow> nat \<Rightarrow> planner_multi \<Rightarrow> planner_multi option" where
  "update_planner_index ty i pm =
     (let ms = m_types_totals_planners pm; j = mc_index ty ms
      in if j < length ms \<and> i \<le> length ms
         then Some (pm\<lparr>m_types_totals_planners := mc_relocate i j ms\<rparr>) else None)"

definition update_planner_total :: "int \<Rightarrow> nat \<Rightarrow> planner_multi \<Rightarrow> (int \<times> planner_multi) option" where
  "update_planner_total tot i pm = do {
     e \<leftarrow> at_index i (m_types_totals_planners pm);
     p \<leftarrow> meta_planner e;
     let (rc, p) = update_total tot p;
     Some (rc, pm\<lparr>m_types_totals_planners :=
        (m_types_totals_planners pm)[i := e\<lparr>resource_total := tot, meta_planner := Some p\<rparr>]\<rparr>)
   }"

definition planner_at :: "string \<Rightarrow> planner_multi \<Rightarrow> bool" where
  "planner_at ty pm \<longleftrightarrow> mc_find ty (m_types_totals_planners pm) \<noteq> None"

definition get_planners_size :: "planner_multi \<Rightarrow> nat" where
  "get_planners_size pm = length (m_types_totals_planners pm)"

text \<open>The unsigned total read as \<^verbatim>\<open>int64_t\<close>.\<close>

definition get_resource_total_by_type :: "string \<Rightarrow> planner_multi \<Rightarrow> int" where
  "get_resource_total_by_type ty pm =
     (case mc_find ty (m_types_totals_planners pm) of None \<Rightarrow> - 1 | Some e \<Rightarrow> i64 (resource_total e))"

definition get_resource_type_at :: "nat \<Rightarrow> planner_multi \<Rightarrow> string option" where
  "get_resource_type_at i pm = map_option resource_type (at_index i (m_types_totals_planners pm))"

definition get_resource_type_idx :: "string \<Rightarrow> planner_multi \<Rightarrow> nat" where
  "get_resource_type_idx ty pm = mc_index ty (m_types_totals_planners pm)"

section \<open>The C interface: construction and simple queries\<close>

fun fill_counts :: "planner_multi_meta list \<Rightarrow> int list \<Rightarrow> (string, int) omap \<Rightarrow> (string, int) omap" where
  "fill_counts (e # es) (r # rs) counts = fill_counts es rs (om_assign (resource_type e) (i64 r) counts)"
| "fill_counts es rs counts = counts"

definition fill_iter_request :: "int \<Rightarrow> int \<Rightarrow> int list \<Rightarrow> planner_multi \<Rightarrow> planner_multi" where
  "fill_iter_request tm duration resources pm =
     pm\<lparr>mm_iter := \<lparr>rm_on_or_after = tm, rm_duration = duration,
          rm_counts = fill_counts (m_types_totals_planners pm) resources (rm_counts (mm_iter pm))\<rparr>\<rparr>"

text \<open>The arrays of totals and types are one list of pairs, \<open>None\<close> when either pointer
  is null.\<close>

definition planner_multi_new ::
  "int \<Rightarrow> int \<Rightarrow> (int \<times> string) list option \<Rightarrow> planner_multi result option" where
  "planner_multi_new base_time duration resources =
     (case resources of
        None \<Rightarrow> Some (Inl EINVAL)
      | Some rs \<Rightarrow>
          (if duration < 1 then Some (Inl EINVAL)
           else if \<exists>(tot, _)\<in>set rs. tot > u64 int64_max then Some (Inl ERANGE)
           else map_option Inr (planner_multi_init base_time duration rs)))"

definition planner_multi_empty :: planner_multi where
  "planner_multi_empty = planner_multi_default"

definition planner_multi_copy :: "planner_multi option \<Rightarrow> (exn + planner_multi) option" where
  "planner_multi_copy mp = do { pm \<leftarrow> mp; planner_multi_copy_ctor pm }"

definition planner_multi_assign ::
  "planner_multi option \<Rightarrow> planner_multi option \<Rightarrow> (exn + planner_multi) option" where
  "planner_multi_assign lhs rhs = do { pm \<leftarrow> lhs; other \<leftarrow> rhs; planner_multi_assign_op pm other }"

text \<open>The destructor; the caller's pointer is null afterwards.\<close>

definition planner_multi_destroy :: "planner_multi option \<Rightarrow> planner_multi option option" where
  "planner_multi_destroy ctx =
     (case ctx of
        None \<Rightarrow> Some None
      | Some pm \<Rightarrow> map_option (\<lambda>_. None) (destroy_planners (m_types_totals_planners pm)))"

definition planner_multi_base_time :: "planner_multi option \<Rightarrow> int result option" where
  "planner_multi_base_time ctx =
     (case ctx of None \<Rightarrow> Some (Inl EINVAL) | Some pm \<Rightarrow> map_option planner_base_time (get_planner_at 0 pm))"

definition planner_multi_duration :: "planner_multi option \<Rightarrow> int result option" where
  "planner_multi_duration ctx =
     (case ctx of None \<Rightarrow> Some (Inl EINVAL) | Some pm \<Rightarrow> map_option planner_duration (get_planner_at 0 pm))"

definition planner_multi_resources_len :: "planner_multi option \<Rightarrow> nat" where
  "planner_multi_resources_len ctx = (case ctx of None \<Rightarrow> 0 | Some pm \<Rightarrow> get_planners_size pm)"

definition planner_multi_resource_type_at :: "planner_multi option \<Rightarrow> nat \<Rightarrow> string result option" where
  "planner_multi_resource_type_at ctx i =
     (case ctx of None \<Rightarrow> Some (Inl EINVAL) | Some pm \<Rightarrow> map_option Inr (get_resource_type_at i pm))"

definition planner_multi_planner_at :: "planner_multi option \<Rightarrow> nat \<Rightarrow> planner option result option" where
  "planner_multi_planner_at ctx i =
     (case ctx of
        None \<Rightarrow> Some (Inl EINVAL)
      | Some pm \<Rightarrow> (if i \<ge> get_planners_size pm then Some (Inl EINVAL) else map_option Inr (get_planner_at i pm)))"

definition planner_multi_resource_total_at :: "planner_multi option \<Rightarrow> nat \<Rightarrow> int result" where
  "planner_multi_resource_total_at ctx i =
     (case ctx of
        None \<Rightarrow> Inl UNSET
      | Some pm \<Rightarrow> (case at_index i (m_types_totals_planners pm) of
                      None \<Rightarrow> Inl EINVAL | Some e \<Rightarrow> Inr (i64 (resource_total e))))"

definition planner_multi_resource_total_by_type :: "planner_multi option \<Rightarrow> string option \<Rightarrow> int result" where
  "planner_multi_resource_total_by_type ctx ty =
     (case (ctx, ty) of
        (Some pm, Some ty) \<Rightarrow> (let rc = get_resource_total_by_type ty pm in if rc = - 1 then Inl EINVAL else Inr rc)
      | _ \<Rightarrow> Inl UNSET)"

fun reset_loop :: "int \<Rightarrow> int \<Rightarrow> planner_multi_meta list \<Rightarrow> (int result \<times> planner_multi_meta list) option" where
  "reset_loop base_time duration [] = Some (Inr 0, [])"
| "reset_loop base_time duration (e # es) = do {
     (rc, p) \<leftarrow> planner_reset (meta_planner e) base_time duration;
     let e = e\<lparr>meta_planner := p\<rparr>;
     (case rc of
        Inl err \<Rightarrow> Some (Inl err, e # es)
      | Inr v \<Rightarrow>
          (if v = - 1 then Some (Inl UNSET, e # es)
           else do { (rc, es) \<leftarrow> reset_loop base_time duration es; Some (rc, e # es) }))
   }"

definition planner_multi_reset ::
  "planner_multi option \<Rightarrow> int \<Rightarrow> int \<Rightarrow> (int result \<times> planner_multi option) option" where
  "planner_multi_reset ctx base_time duration =
     (case ctx of
        None \<Rightarrow> Some (Inl EINVAL, None)
      | Some pm \<Rightarrow>
          (if duration < 1 then Some (Inl EINVAL, Some pm)
           else do {
             (rc, ms) \<leftarrow> reset_loop base_time duration (m_types_totals_planners pm);
             Some (rc, Some (pm\<lparr>m_types_totals_planners := ms\<rparr>))
           }))"

section \<open>Availability\<close>

text \<open>The loop from planner 1 on: whether every other planner has the request free.\<close>

fun others_met :: "int \<Rightarrow> int \<Rightarrow> planner_multi_meta list \<Rightarrow> int list \<Rightarrow> unit result" where
  "others_met t duration (e # es) (r # rs) =
     (case planner_avail_during (meta_planner e) t duration r of
        Inl err \<Rightarrow> Inl err
      | Inr _ \<Rightarrow> others_met t duration es rs)"
| "others_met t duration es rs = Inr ()"

partial_function (option) multi_first_loop ::
  "int \<Rightarrow> planner_multi_meta list \<Rightarrow> int list \<Rightarrow> int \<Rightarrow> planner option \<Rightarrow> (int result \<times> planner option) option" where
  "multi_first_loop duration es rs t p0 =
     (case others_met t duration es rs of
        Inr _ \<Rightarrow> Some (Inr t, p0)
      | Inl _ \<Rightarrow>
          Option.bind (planner_avail_time_next p0) (\<lambda>(r, p0).
            case r of Inl err \<Rightarrow> Some (Inl err, p0) | Inr t \<Rightarrow> multi_first_loop duration es rs t p0))"

declare multi_first_loop.simps [code]

definition planner_multi_avail_time_first ::
  "planner_multi option \<Rightarrow> int \<Rightarrow> int \<Rightarrow> int list option \<Rightarrow> (int result \<times> planner_multi option) option" where
  "planner_multi_avail_time_first ctx on_or_after duration requests =
     (case (ctx, requests) of
        (Some pm, Some rs) \<Rightarrow>
          (if get_planners_size pm < 1 \<or> get_planners_size pm \<noteq> length rs then Some (Inl EINVAL, Some pm)
           else do {
             let pm = fill_iter_request on_or_after duration rs pm;
             p0 \<leftarrow> get_planner_at 0 pm;
             (r, p0) \<leftarrow> planner_avail_time_first p0 on_or_after duration (rs ! 0);
             (case r of
                Inl err \<Rightarrow> Some (Inl err, Some (set_planner_at 0 p0 pm))
              | Inr t \<Rightarrow> do {
                  (r, p0) \<leftarrow> multi_first_loop duration (tl (m_types_totals_planners pm)) (tl rs) t p0;
                  Some (r, Some (set_planner_at 0 p0 pm))
                })
           })
      | (c, _) \<Rightarrow> Some (Inl EINVAL, c))"

text \<open>In the next-iteration the counts come from the stored request, by type; a missing
  type throws.\<close>

fun others_met_iter :: "int \<Rightarrow> request_multi \<Rightarrow> planner_multi_meta list \<Rightarrow> unit result option" where
  "others_met_iter t it [] = Some (Inr ())"
| "others_met_iter t it (e # es) = do {
     c \<leftarrow> om_find (resource_type e) (rm_counts it);
     (case planner_avail_during (meta_planner e) t (rm_duration it) (u64 c) of
        Inl err \<Rightarrow> Some (Inl err)
      | Inr _ \<Rightarrow> others_met_iter t it es)
   }"

partial_function (option) multi_next_loop ::
  "request_multi \<Rightarrow> planner_multi_meta list \<Rightarrow> planner option \<Rightarrow> (int result \<times> planner option) option" where
  "multi_next_loop it es p0 =
     Option.bind (planner_avail_time_next p0) (\<lambda>(r, p0).
       case r of
         Inl err \<Rightarrow> Some (Inl err, p0)
       | Inr t \<Rightarrow>
           Option.bind (others_met_iter t it es) (\<lambda>m.
             case m of Inr _ \<Rightarrow> Some (Inr t, p0) | Inl _ \<Rightarrow> multi_next_loop it es p0))"

declare multi_next_loop.simps [code]

definition planner_multi_avail_time_next ::
  "planner_multi option \<Rightarrow> (int result \<times> planner_multi option) option" where
  "planner_multi_avail_time_next ctx =
     (case ctx of
        None \<Rightarrow> Some (Inl EINVAL, None)
      | Some pm \<Rightarrow> do {
          p0 \<leftarrow> get_planner_at 0 pm;
          (r, p0) \<leftarrow> multi_next_loop (mm_iter pm) (tl (m_types_totals_planners pm)) p0;
          Some (r, Some (set_planner_at 0 p0 pm))
        })"

definition planner_multi_avail_resources_at :: "planner_multi option \<Rightarrow> int \<Rightarrow> nat \<Rightarrow> int result" where
  "planner_multi_avail_resources_at ctx tm i =
     (case ctx of
        None \<Rightarrow> Inl EINVAL
      | Some pm \<Rightarrow> (case get_planner_at i pm of
                      None \<Rightarrow> Inl EINVAL | Some p \<Rightarrow> planner_avail_resources_at p tm))"

text \<open>The counts written before the first failure are not part of the result.\<close>

fun array_loop :: "(planner option \<Rightarrow> int result) \<Rightarrow> planner_multi_meta list \<Rightarrow> int list result" where
  "array_loop q [] = Inr []"
| "array_loop q (e # es) =
     (case q (meta_planner e) of
        Inl err \<Rightarrow> Inl err
      | Inr v \<Rightarrow> map_sum id ((#) v) (array_loop q es))"

definition planner_multi_avail_resources_array_at ::
  "planner_multi option \<Rightarrow> int \<Rightarrow> nat \<Rightarrow> int list result" where
  "planner_multi_avail_resources_array_at ctx tm len =
     (case ctx of
        None \<Rightarrow> Inl EINVAL
      | Some pm \<Rightarrow> (if get_planners_size pm \<noteq> len then Inl EINVAL
                    else array_loop (\<lambda>p. planner_avail_resources_at p tm) (m_types_totals_planners pm)))"

definition planner_multi_avail_resources_array_during ::
  "planner_multi option \<Rightarrow> int \<Rightarrow> int \<Rightarrow> nat \<Rightarrow> int list result" where
  "planner_multi_avail_resources_array_during ctx tm duration len =
     (case ctx of
        None \<Rightarrow> Inl EINVAL
      | Some pm \<Rightarrow> (if get_planners_size pm < 1 \<or> get_planners_size pm \<noteq> len then Inl EINVAL
                    else array_loop (\<lambda>p. planner_avail_resources_during p tm duration) (m_types_totals_planners pm)))"

definition planner_multi_avail_during ::
  "planner_multi option \<Rightarrow> int \<Rightarrow> int \<Rightarrow> int list option \<Rightarrow> unit result" where
  "planner_multi_avail_during ctx tm duration requests =
     (case (ctx, requests) of
        (Some pm, Some rs) \<Rightarrow>
          (if get_planners_size pm \<noteq> length rs then Inl EINVAL
           else others_met tm duration (m_types_totals_planners pm) rs)
      | _ \<Rightarrow> Inl EINVAL)"

section \<open>Spans\<close>

text \<open>The loop of \<^verbatim>\<open>planner_multi_add_span\<close>: the planners after the calls
  made, and the ids returned or the failure.\<close>

fun multi_add_loop :: "int \<Rightarrow> int \<Rightarrow> planner_multi_meta list \<Rightarrow> int list
    \<Rightarrow> (int list result \<times> planner_multi_meta list) option" where
  "multi_add_loop start_time duration (e # es) (r # rs) = do {
     (res, p) \<leftarrow> planner_add_span (meta_planner e) start_time duration r;
     let e = e\<lparr>meta_planner := p\<rparr>;
     (case res of
        Inl err \<Rightarrow> Some (Inl err, e # es)
      | Inr span \<Rightarrow> do {
          (ids, es) \<leftarrow> multi_add_loop start_time duration es rs;
          Some (map_sum id ((#) span) ids, e # es)
        })
   }"
| "multi_add_loop start_time duration es rs = Some (Inr [], es)"

definition planner_multi_add_span ::
  "planner_multi option \<Rightarrow> int \<Rightarrow> int \<Rightarrow> int list option \<Rightarrow> (int result \<times> planner_multi option) option" where
  "planner_multi_add_span ctx start_time duration requests =
     (case (ctx, requests) of
        (Some pm, Some rs) \<Rightarrow>
          (if length rs \<noteq> get_planners_size pm then Some (Inl UNSET, Some pm)
           else
             (let mspan = mm_span_counter pm; (lookup, inserted) = om_insert mspan [] (mm_span_lookup pm)
              in if \<not> inserted then Some (Inl EEXIST, Some pm)
                 else do {
                   let pm = pm\<lparr>mm_span_lookup := lookup, mm_span_counter := u64 (mspan + 1)\<rparr>;
                   (ids, ms) \<leftarrow> multi_add_loop start_time duration (m_types_totals_planners pm) rs;
                   let pm = pm\<lparr>m_types_totals_planners := ms\<rparr>;
                   (case ids of
                      Inl err \<Rightarrow> Some (Inl err, Some (pm\<lparr>mm_span_lookup := om_erase mspan (mm_span_lookup pm),
                        mm_span_lookup_iter := iter_after_erase mspan (mm_span_lookup_iter pm)\<rparr>))
                    | Inr ids \<Rightarrow> Some (Inr (i64 mspan), Some (pm\<lparr>mm_span_lookup := om_assign mspan ids (mm_span_lookup pm)\<rparr>)))
                 }))
      | (c, _) \<Rightarrow> Some (Inl UNSET, c))"

text \<open>Removing the parts of a span, \<open>- 1\<close> marking a part removed before.\<close>

fun multi_rem_loop :: "planner_multi_meta list \<Rightarrow> int list \<Rightarrow> (int result \<times> planner_multi_meta list) option" where
  "multi_rem_loop es [] = Some (Inr 0, es)"
| "multi_rem_loop [] (k # ks) = (if k \<noteq> - 1 then None else multi_rem_loop [] ks)"
| "multi_rem_loop (e # es) (k # ks) =
     (if k = - 1 then map_option (\<lambda>(rc, es). (rc, e # es)) (multi_rem_loop es ks)
      else do {
        (rc, p) \<leftarrow> planner_rem_span (meta_planner e) k;
        let e = e\<lparr>meta_planner := p\<rparr>;
        (case rc of
           Inl err \<Rightarrow> Some (Inl err, e # es)
         | Inr _ \<Rightarrow> map_option (\<lambda>(rc, es). (rc, e # es)) (multi_rem_loop es ks))
      })"

definition planner_multi_rem_span :: "planner_multi option \<Rightarrow> int \<Rightarrow> (int result \<times> planner_multi option) option" where
  "planner_multi_rem_span ctx k =
     (case ctx of
        None \<Rightarrow> Some (Inl EINVAL, None)
      | Some pm \<Rightarrow>
          (if k < 0 then Some (Inl EINVAL, Some pm)
           else case om_find k (mm_span_lookup pm) of
                  None \<Rightarrow> Some (Inl ENOENT, Some pm)
                | Some ids \<Rightarrow> do {
                    (rc, ms) \<leftarrow> multi_rem_loop (m_types_totals_planners pm) ids;
                    let pm = pm\<lparr>m_types_totals_planners := ms\<rparr>;
                    (case rc of
                       Inl err \<Rightarrow> Some (Inl err, Some pm)
                     | Inr _ \<Rightarrow> Some (Inr 0, Some (pm\<lparr>mm_span_lookup := om_erase k (mm_span_lookup pm),
                         mm_span_lookup_iter := iter_after_erase k (mm_span_lookup_iter pm)\<rparr>)))
                  }))"

text \<open>One call of \<^verbatim>\<open>planner_reduce_span\<close> for the part at \<open>i\<close> of the
  multi-span \<open>k\<close>, with the activity check after a failure; \<open>Inl\<close> leaves the whole
  operation.\<close>

definition reduce_part :: "int \<Rightarrow> nat \<Rightarrow> int \<Rightarrow> planner_multi \<Rightarrow> (unit result \<times> planner_multi) option" where
  "reduce_part k i amount pm = do {
     p \<leftarrow> get_planner_at i pm;
     ids \<leftarrow> om_find k (mm_span_lookup pm);
     sid \<leftarrow> at_index i ids;
     (rc, tmp_removed, p) \<leftarrow> planner_reduce_span p sid amount;
     let pm = set_planner_at i p pm;
     (if (case rc of Inl _ \<Rightarrow> planner_is_active_span p sid | Inr _ \<Rightarrow> False)
      then Some (Inl EINVAL, pm)
      else Some (Inr (), if tmp_removed
                         then pm\<lparr>mm_span_lookup := om_assign k (ids[i := - 1]) (mm_span_lookup pm)\<rparr>
                         else pm))
   }"

fun reduce_given :: "int \<Rightarrow> (int \<times> string) list \<Rightarrow> nat set \<Rightarrow> planner_multi
    \<Rightarrow> (nat set result \<times> planner_multi) option" where
  "reduce_given k [] seen_idx pm = Some (Inr seen_idx, pm)"
| "reduce_given k ((amount, ty) # rest) seen_idx pm =
     (if amount > u64 int64_max then Some (Inl ERANGE, pm)
      else
        (let i = get_resource_type_idx ty pm
         in if i \<ge> get_planners_size pm then reduce_given k rest seen_idx pm
            else do {
              (r, pm) \<leftarrow> reduce_part k i amount pm;
              (case r of Inl e \<Rightarrow> Some (Inl e, pm) | Inr _ \<Rightarrow> reduce_given k rest (insert i seen_idx) pm)
            }))"

fun reduce_rest :: "int \<Rightarrow> nat list \<Rightarrow> nat set \<Rightarrow> planner_multi \<Rightarrow> (unit result \<times> planner_multi) option" where
  "reduce_rest k [] seen_idx pm = Some (Inr (), pm)"
| "reduce_rest k (i # idxs) seen_idx pm =
     (if i \<in> seen_idx then reduce_rest k idxs seen_idx pm
      else do {
        (r, pm) \<leftarrow> reduce_part k i 0 pm;
        (case r of Inl e \<Rightarrow> Some (Inl e, pm) | Inr _ \<Rightarrow> reduce_rest k idxs seen_idx pm)
      })"

text \<open>\<^verbatim>\<open>std::accumulate\<close> with an \<^verbatim>\<open>int\<close> start value: the sum is
  truncated to \<^verbatim>\<open>int\<close> at every step; the comparison is unsigned.\<close>

definition accumulate_int :: "int list \<Rightarrow> int" where
  "accumulate_int xs = fold (\<lambda>x acc. i32 (acc + x)) xs 0"

definition planner_multi_reduce_span ::
  "planner_multi option \<Rightarrow> int \<Rightarrow> (int \<times> string) list option
     \<Rightarrow> (int result \<times> bool \<times> planner_multi option) option" where
  "planner_multi_reduce_span ctx k reduced =
     (case (ctx, reduced) of
        (Some pm, Some rs) \<Rightarrow>
          (if k < 0 then Some (Inl EINVAL, False, Some pm)
           else if om_find k (mm_span_lookup pm) = None then Some (Inl ENOENT, False, Some pm)
           else do {
             (r, pm) \<leftarrow> reduce_given k rs {} pm;
             (case r of
                Inl e \<Rightarrow> Some (Inl e, False, Some pm)
              | Inr seen_idx \<Rightarrow> do {
                  (r, pm) \<leftarrow> reduce_rest k [0..<get_planners_size pm] seen_idx pm;
                  (case r of
                     Inl e \<Rightarrow> Some (Inl e, False, Some pm)
                   | Inr _ \<Rightarrow> do {
                       ids \<leftarrow> om_find k (mm_span_lookup pm);
                       (if u64 (accumulate_int ids) = u64 (- int (length ids))
                        then Some (Inr 0, True, Some (pm\<lparr>mm_span_lookup := om_erase k (mm_span_lookup pm),
                               mm_span_lookup_iter := iter_after_erase k (mm_span_lookup_iter pm)\<rparr>))
                        else Some (Inr 0, False, Some pm))
                     })
                })
           })
      | (c, _) \<Rightarrow> Some (Inl EINVAL, False, c))"

definition planner_multi_span_planned_at :: "planner_multi option \<Rightarrow> int \<Rightarrow> nat \<Rightarrow> int result option" where
  "planner_multi_span_planned_at ctx k i =
     (case ctx of
        None \<Rightarrow> Some (Inl EINVAL)
      | Some pm \<Rightarrow>
          (if k < 0 \<or> i \<ge> get_planners_size pm then Some (Inl EINVAL)
           else case om_find k (mm_span_lookup pm) of
                  None \<Rightarrow> Some (Inl ENOENT)
                | Some ids \<Rightarrow> do {
                    sid \<leftarrow> at_index i ids;
                    p \<leftarrow> get_planner_at i pm;
                    Some (if sid = - 1 then Inr 0
                          else if sid < 0 then Inl EINVAL
                          else planner_span_resource_count p sid)
                  }))"

definition multi_at_iter :: "planner_multi \<Rightarrow> (int result \<times> planner_multi option) option" where
  "multi_at_iter pm =
     (case mm_span_lookup_iter pm of
        End \<Rightarrow> Some (Inl ENOENT, Some pm)
      | Singular \<Rightarrow> None
      | At k \<Rightarrow> (if om_find k (mm_span_lookup pm) = None then None else Some (Inr (i64 k), Some pm)))"

text \<open>The context is dereferenced before it is checked.\<close>

definition planner_multi_span_first :: "planner_multi option \<Rightarrow> (int result \<times> planner_multi option) option" where
  "planner_multi_span_first ctx = do {
     pm \<leftarrow> ctx;
     multi_at_iter (pm\<lparr>mm_span_lookup_iter := om_begin (mm_span_lookup pm)\<rparr>)
   }"

definition planner_multi_span_next :: "planner_multi option \<Rightarrow> (int result \<times> planner_multi option) option" where
  "planner_multi_span_next ctx =
     (case ctx of
        None \<Rightarrow> Some (Inl EINVAL, None)
      | Some pm \<Rightarrow> do {
          i \<leftarrow> om_next (mm_span_lookup_iter pm) (mm_span_lookup pm);
          multi_at_iter (pm\<lparr>mm_span_lookup_iter := i\<rparr>)
        })"

definition planner_multi_span_size :: "planner_multi option \<Rightarrow> nat" where
  "planner_multi_span_size ctx = (case ctx of None \<Rightarrow> 0 | Some pm \<Rightarrow> length (mm_span_lookup pm))"

definition planner_multis_equal :: "planner_multi option \<Rightarrow> planner_multi option \<Rightarrow> bool option" where
  "planner_multis_equal lhs rhs = do { pm \<leftarrow> lhs; other \<leftarrow> rhs; planner_multi_eq pm other }"

section \<open>Updating the set of resources\<close>

fun multi_update_loop :: "int \<Rightarrow> int \<Rightarrow> nat \<Rightarrow> (int \<times> string) list \<Rightarrow> planner_multi
    \<Rightarrow> (unit result \<times> planner_multi) option" where
  "multi_update_loop base_time duration i [] pm = Some (Inr (), pm)"
| "multi_update_loop base_time duration i ((tot, ty) # rest) pm =
     (if tot > u64 int64_max then Some (Inl ERANGE, pm)
      else if \<not> planner_at ty pm then do {
        pm \<leftarrow> add_planner base_time (u64 duration) tot ty i pm;
        multi_update_loop base_time duration (Suc i) rest pm
      }
      else do {
        pm \<leftarrow> update_planner_index ty i pm;
        (rc, pm) \<leftarrow> update_planner_total tot i pm;
        (if rc \<noteq> 0 then Some (Inl EINVAL, pm) else multi_update_loop base_time duration (Suc i) rest pm)
      })"

definition planner_multi_update ::
  "planner_multi option \<Rightarrow> (int \<times> string) list option \<Rightarrow> (int result \<times> planner_multi option) option" where
  "planner_multi_update ctx resources =
     (case (ctx, resources) of
        (Some pm, Some rs) \<Rightarrow> do {
          p0 \<leftarrow> get_planner_at 0 pm;
          let base_time = (case planner_base_time p0 of Inl _ \<Rightarrow> - 1 | Inr b \<Rightarrow> b);
          let duration = (case planner_duration p0 of Inl _ \<Rightarrow> - 1 | Inr d \<Rightarrow> d);
          (if duration < 0 then Some (Inl EINVAL, Some pm)
           else do {
             (r, pm) \<leftarrow> multi_update_loop base_time duration 0 rs pm;
             (case r of
                Inl e \<Rightarrow> Some (Inl e, Some pm)
              | Inr _ \<Rightarrow>
                  Some (Inr 0, Some (if rs \<noteq> [] then delete_planners (snd ` set rs) pm else pm)))
           })
        }
      | (c, _) \<Rightarrow> Some (Inl EINVAL, c))"

end
