(* ===== verification/Resource_Graph.thy ===== *)
theory Resource_Graph
  imports Matcher Planner_Multi
begin

text \<open>
  The data of the resource graph (\<^verbatim>\<open>src/resource/schema\<close> and
  \<^verbatim>\<open>src/resource/store/resource_graph_store.cpp\<close>): the vertices with their schedules and the
  data of the scheduling infrastructure, the edges, the colors of a traversal and the indices kept
  beside the graph.

  A null planner is \<open>None\<close>. Vertices and edges are numbered in the order of their creation;
  the out-edges of a vertex come in that order, as in an adjacency list over vectors. A vector
  indexed by subsystems is a map whose missing entries have the default value.
\<close>

section \<open>Ephemeral data\<close>

record ephemeral =
  m_store :: "(string, string) omap"
  m_epoch :: int

definition new_ephemeral :: ephemeral where
  "new_ephemeral = \<lparr>m_store = [], m_epoch = 0\<rparr>"

definition ephemeral_clear :: "ephemeral \<Rightarrow> ephemeral" where
  "ephemeral_clear e = e\<lparr>m_store := []\<rparr>"

definition check_and_clear_if_stale :: "int \<Rightarrow> ephemeral \<Rightarrow> bool \<times> ephemeral" where
  "check_and_clear_if_stale epoch e = (if m_epoch e < epoch then (True, ephemeral_clear e) else (False, e))"

definition ephemeral_insert :: "int \<Rightarrow> string \<Rightarrow> string \<Rightarrow> ephemeral \<Rightarrow> int result \<times> ephemeral" where
  "ephemeral_insert epoch k v e =
     (let e = (snd (check_and_clear_if_stale epoch e))\<lparr>m_epoch := epoch\<rparr>
      in case om_insert k v (m_store e) of (m, fresh) \<Rightarrow> (if fresh then Inr 0 else Inl EEXIST, e\<lparr>m_store := m\<rparr>))"

definition ephemeral_get :: "int \<Rightarrow> string \<Rightarrow> ephemeral \<Rightarrow> string option \<times> ephemeral" where
  "ephemeral_get epoch k e =
     (case check_and_clear_if_stale epoch e of (stale, e) \<Rightarrow> (if stale then None else om_find k (m_store e), e))"

definition ephemeral_to_map :: "int \<Rightarrow> ephemeral \<Rightarrow> (string, string) omap \<times> ephemeral" where
  "ephemeral_to_map epoch e = (case check_and_clear_if_stale epoch e of (_, e) \<Rightarrow> (m_store e, e))"

section \<open>Colors\<close>

type_synonym color = int

definition color_reset :: "color \<Rightarrow> color" where
  "color_reset base = u64 (base + 3)"

definition white :: "color \<Rightarrow> int" where
  "white base = base"

definition gray :: "color \<Rightarrow> int" where
  "gray base = u64 (base + 1)"

definition black :: "color \<Rightarrow> int" where
  "black base = u64 (base + 2)"

definition is_white :: "color \<Rightarrow> int \<Rightarrow> bool" where
  "is_white base c \<longleftrightarrow> c \<le> white base"

definition is_gray :: "color \<Rightarrow> int \<Rightarrow> bool" where
  "is_gray base c \<longleftrightarrow> c = gray base"

definition is_black :: "color \<Rightarrow> int \<Rightarrow> bool" where
  "is_black base c \<longleftrightarrow> c = black base"

section \<open>Schedules\<close>

record vtx_schedule =
  allocations :: "(int, int) omap"
  reservations :: "(int, int) omap"
  plans :: "planner option"

definition new_schedule :: vtx_schedule where
  "new_schedule = \<lparr>allocations = [], reservations = [], plans = None\<rparr>"

definition schedule_assign :: "vtx_schedule \<Rightarrow> vtx_schedule \<Rightarrow> (exn + vtx_schedule) option" where
  "schedule_assign s o' =
     (let s = s\<lparr>allocations := allocations o', reservations := reservations o'\<rparr>
      in case plans s of
           Some p \<Rightarrow>
             (case plans o' of
                Some q \<Rightarrow> map_option (map_sum id (\<lambda>p. s\<lparr>plans := Some p\<rparr>)) (planner_assign (Some p) (Some q))
              | None \<Rightarrow> map_option (\<lambda>p. Inr (s\<lparr>plans := p\<rparr>)) (planner_destroy (Some p)))
         | None \<Rightarrow>
             (case plans o' of
                Some q \<Rightarrow> map_option (map_sum id (\<lambda>p. s\<lparr>plans := Some p\<rparr>)) (planner_copy (Some q))
              | None \<Rightarrow> Some (Inr s)))"

text \<open>The copy constructor runs the same statements on a new schedule.\<close>

definition schedule_copy :: "vtx_schedule \<Rightarrow> (exn + vtx_schedule) option" where
  "schedule_copy o' = schedule_assign new_schedule o'"

definition schedule_eq :: "vtx_schedule \<Rightarrow> vtx_schedule \<Rightarrow> bool option" where
  "schedule_eq s o' =
     (if allocations s \<noteq> allocations o' then Some False
      else if reservations s \<noteq> reservations o' then Some False
      else planners_equal (plans s) (plans o'))"

section \<open>Infrastructure data of a vertex\<close>

record pool_infra =
  member_of :: "(string, bool) omap"
  tags :: "(int, int) omap"
  x_spans :: "(int, int) omap"
  job2span :: "(int, int) omap"
  x_checker :: "planner option"
  subplans :: "(string, planner_multi option) omap"
  colors :: "(string, int) omap"
  ephemeral :: ephemeral

definition new_pool_infra :: pool_infra where
  "new_pool_infra = \<lparr>member_of = [], tags = [], x_spans = [], job2span = [], x_checker = None,
     subplans = [], colors = [], ephemeral = new_ephemeral\<rparr>"

definition scrub_pool :: "pool_infra \<Rightarrow> pool_infra option" where
  "scrub_pool i = do {
     ps \<leftarrow> those (map (\<lambda>(s, p). map_option (Pair s) (planner_multi_destroy p)) (subplans i));
     x \<leftarrow> (if x_checker i = None then Some None else planner_destroy (x_checker i));
     Some (i\<lparr>tags := [], x_spans := [], job2span := [], subplans := ps, colors := [], x_checker := x,
            ephemeral := ephemeral_clear (ephemeral i)\<rparr>)
   }"

fun copy_subplans :: "(string, planner_multi option) omap \<Rightarrow> (string, planner_multi option) omap
    \<Rightarrow> (exn + (string, planner_multi option) omap) option" where
  "copy_subplans [] m = Some (Inr m)"
| "copy_subplans ((s, p) # ps) m =
     (if p = None then copy_subplans ps m
      else do {
        r \<leftarrow> planner_multi_copy p;
        case r of Inl e \<Rightarrow> Some (Inl e) | Inr q \<Rightarrow> copy_subplans ps (om_assign s (Some q) m)
      })"

text \<open>Both the copy constructor and the assignment find no planner of their own: the new object
  has none, and the scrubbed one has destroyed it.\<close>

definition pool_infra_fill :: "pool_infra \<Rightarrow> pool_infra \<Rightarrow> (exn + pool_infra) option" where
  "pool_infra_fill i o' = do {
     let i = i\<lparr>member_of := member_of o', ephemeral := ephemeral o', colors := colors o', tags := tags o',
              x_spans := x_spans o', job2span := job2span o'\<rparr>;
     r \<leftarrow> copy_subplans (subplans o') (subplans i);
     case r of
       Inl e \<Rightarrow> Some (Inl e)
     | Inr ps \<Rightarrow>
         let i = i\<lparr>subplans := ps\<rparr>
         in if x_checker o' = None then Some (Inr i)
            else do {
              r \<leftarrow> (if x_checker i = None then planner_copy (x_checker o') else planner_assign (x_checker i) (x_checker o'));
              Some (map_sum id (\<lambda>p. i\<lparr>x_checker := Some p\<rparr>) r)
            }
   }"

definition pool_infra_copy :: "pool_infra \<Rightarrow> (exn + pool_infra) option" where
  "pool_infra_copy o' = pool_infra_fill new_pool_infra o'"

definition pool_infra_assign :: "pool_infra \<Rightarrow> pool_infra \<Rightarrow> (exn + pool_infra) option" where
  "pool_infra_assign i o' = do { i \<leftarrow> scrub_pool i; pool_infra_fill (i\<lparr>subplans := []\<rparr>) o' }"

section \<open>Vertices and edges\<close>

datatype status = UP | DOWN

record resource_pool =
  vtype :: string
  basename :: string
  vname :: string
  properties :: "(string, string) omap"
  vid :: int
  rank :: int
  paths :: "(string, string) omap"
  uniq_id :: int
  vsize :: int
  unit :: string
  schedule :: vtx_schedule
  idata :: pool_infra
  status :: status

definition status_to_str :: "status \<Rightarrow> string" where
  "status_to_str s = (case s of UP \<Rightarrow> ''UP'' | DOWN \<Rightarrow> ''DOWN'')"

record relation_infra =
  m_needs :: int
  m_edge_seq :: int
  m_weight :: int
  m_exclusive :: int

definition new_relation_infra :: relation_infra where
  "new_relation_infra = \<lparr>m_needs = 0, m_edge_seq = 0, m_weight = 2 ^ 64 - 1, m_exclusive = 0\<rparr>"

definition scrub_relation :: "relation_infra \<Rightarrow> relation_infra" where
  "scrub_relation r = r\<lparr>m_needs := 0, m_edge_seq := 0, m_exclusive := 0\<rparr>"

definition set_for_trav_update :: "int \<Rightarrow> int \<Rightarrow> int \<Rightarrow> relation_infra \<Rightarrow> relation_infra" where
  "set_for_trav_update n x sequence_number r = r\<lparr>m_needs := n, m_edge_seq := sequence_number, m_exclusive := x\<rparr>"

definition set_weight :: "int \<Rightarrow> relation_infra \<Rightarrow> relation_infra" where
  "set_weight w r = r\<lparr>m_weight := w\<rparr>"

text \<open>An edge that is removed from the graph keeps its number.\<close>

record graph_edge =
  edge_source :: nat
  edge_target :: nat
  edge_subsystem :: string
  edge_idata :: relation_infra
  edge_removed :: bool

record resource_graph =
  g_vtxs :: "resource_pool list"
  g_edgs :: "graph_edge list"

definition out_edges :: "resource_graph \<Rightarrow> nat \<Rightarrow> nat list" where
  "out_edges g u = filter (\<lambda>e. \<not> edge_removed (g_edgs g ! e) \<and> edge_source (g_edgs g ! e) = u) [0..<length (g_edgs g)]"

definition in_edges :: "resource_graph \<Rightarrow> nat \<Rightarrow> nat list" where
  "in_edges g u = filter (\<lambda>e. \<not> edge_removed (g_edgs g ! e) \<and> edge_target (g_edgs g ! e) = u) [0..<length (g_edgs g)]"

definition upd_vtx :: "nat \<Rightarrow> (resource_pool \<Rightarrow> resource_pool) \<Rightarrow> resource_graph \<Rightarrow> resource_graph" where
  "upd_vtx u f g = g\<lparr>g_vtxs := (g_vtxs g)[u := f (g_vtxs g ! u)]\<rparr>"

definition upd_edg :: "nat \<Rightarrow> (relation_infra \<Rightarrow> relation_infra) \<Rightarrow> resource_graph \<Rightarrow> resource_graph" where
  "upd_edg e f g = g\<lparr>g_edgs := (g_edgs g)[e := (g_edgs g ! e)\<lparr>edge_idata := f (edge_idata (g_edgs g ! e))\<rparr>]\<rparr>"

section \<open>The graph and its indices\<close>

text \<open>The out-edges by weight come in the order of decreasing keys: the map is kept in the
  order of increasing ones and read backwards. Points of time are counts of nanoseconds.\<close>

record metadata =
  roots :: "(string, nat) omap"
  v_rt_edges :: "(string, relation_infra) omap"
  by_type :: "(string, nat list) omap"
  by_name :: "(string, nat list) omap"
  by_rank :: "(int, nat list) omap"
  by_path :: "(string, nat list) omap"
  by_outedges :: "(nat, (int \<times> int, nat) omap) omap"
  graph_start :: int
  graph_end :: int
  nodes_up :: int

definition node_rt :: string where
  "node_rt = ''node''"

definition cluster_rt :: string where
  "cluster_rt = ''cluster''"

definition slot_rt :: string where
  "slot_rt = ''slot''"

definition storage_node_rt :: string where
  "storage_node_rt = ''storage_node''"

definition X_CHECKER_NJOBS :: int where
  "X_CHECKER_NJOBS = 0x40000000"

definition SYSTEM_MAX_DURATION :: int where
  "SYSTEM_MAX_DURATION = 3153600000"

definition in_seconds :: "int \<Rightarrow> int" where
  "in_seconds t = (if 0 \<le> t then t div 10 ^ 9 else - (- t div 10 ^ 9))"

text \<open>The clock is read for a duration that was left empty.\<close>

definition set_graph_duration :: "int \<Rightarrow> int \<Rightarrow> int \<Rightarrow> metadata \<Rightarrow> metadata" where
  "set_graph_duration clock start stop m =
     (if start = 0 \<and> stop = 0 then m\<lparr>graph_start := clock, graph_end := clock + SYSTEM_MAX_DURATION * 10 ^ 9\<rparr>
      else m\<lparr>graph_start := start, graph_end := stop\<rparr>)"

definition update_node_stats :: "int \<Rightarrow> status \<Rightarrow> metadata \<Rightarrow> metadata" where
  "update_node_stats n s m = m\<lparr>nodes_up := i64 (if s = UP then nodes_up m + n else nodes_up m - n)\<rparr>"

definition initialize_node_stats :: "resource_graph \<Rightarrow> metadata \<Rightarrow> metadata" where
  "initialize_node_stats g m =
     (case om_find node_rt (by_type m) of
        None \<Rightarrow> m
      | Some all_nodes \<Rightarrow> fold (\<lambda>v m. update_node_stats 1 (status (g_vtxs g ! v)) m) all_nodes m)"

definition outedge_key :: "resource_graph \<Rightarrow> nat \<Rightarrow> int \<times> int" where
  "outedge_key g e = (m_weight (edge_idata (g_edgs g ! e)), uniq_id (g_vtxs g ! edge_target (g_edgs g ! e)))"

definition rebuild_by_outedges :: "resource_graph \<Rightarrow> metadata \<Rightarrow> metadata" where
  "rebuild_by_outedges g m =
     m\<lparr>by_outedges := fold (\<lambda>e b. let u = edge_source (g_edgs g ! e)
                               in om_assign u (om_assign (outedge_key g e) e (om_get [] u b)) b)
                           (filter (\<lambda>e. \<not> edge_removed (g_edgs g ! e)) [0..<length (g_edgs g)]) []\<rparr>"

record resource_graph_db =
  resource_graph :: resource_graph
  metadata :: metadata

definition known_subsystem :: "string \<Rightarrow> resource_graph_db \<Rightarrow> bool" where
  "known_subsystem s db \<longleftrightarrow> om_find s (roots (metadata db)) \<noteq> None"

definition pool_copy :: "resource_pool \<Rightarrow> (exn + resource_pool) option" where
  "pool_copy v = do {
     s \<leftarrow> schedule_copy (schedule v);
     case s of
       Inl e \<Rightarrow> Some (Inl e)
     | Inr s \<Rightarrow> do {
         i \<leftarrow> pool_infra_copy (idata v);
         Some (map_sum id (\<lambda>i. v\<lparr>schedule := s, idata := i\<rparr>) i)
       }
   }"

fun pools_copy :: "resource_pool list \<Rightarrow> (exn + resource_pool list) option" where
  "pools_copy [] = Some (Inr [])"
| "pools_copy (v # vs) = do {
     r \<leftarrow> pool_copy v;
     case r of
       Inl e \<Rightarrow> Some (Inl e)
     | Inr v \<Rightarrow> map_option (map_sum id (Cons v)) (pools_copy vs)
   }"

definition db_copy :: "resource_graph_db \<Rightarrow> (exn + resource_graph_db) option" where
  "db_copy db = do {
     r \<leftarrow> pools_copy (g_vtxs (resource_graph db));
     case r of
       Inl e \<Rightarrow> Some (Inl e)
     | Inr vs \<Rightarrow>
         let g = (resource_graph db)\<lparr>g_vtxs := vs\<rparr>
         in Some (Inr \<lparr>resource_graph = g, metadata = rebuild_by_outedges g (metadata db)\<rparr>)
   }"

end
