(* ===== verification/Evaluators.thy ===== *)
theory Evaluators
  imports Matcher "HOL-Library.Multiset"
begin

text \<open>
  The evaluators (\<^verbatim>\<open>src/resource/evaluators\<close>: \<^verbatim>\<open>edge_eval_api.cpp\<close>,
  \<^verbatim>\<open>scoring_api.cpp\<close> and their headers): the scored candidates of one resource type, the
  choice of the best of them, and the scores of all types and subsystems.

  \<^verbatim>\<open>std::sort\<close> leaves the order of equal elements open, so the choice takes the sorting
  function as an argument \<open>srt\<close>; the contract of a sort is the predicate \<open>sorts\<close>.
\<close>

section \<open>Candidates\<close>

text \<open>An edge of the resource graph is its number.\<close>

record eval_edg =
  edg_count :: int
  edg_needs :: int
  edg_exclusive :: int
  edge :: nat

record eval_egroup =
  score :: int
  eg_count :: int
  needs :: int
  exclusive :: int
  root :: bool
  edges :: "eval_edg list"

definition new_egroup :: eval_egroup where
  "new_egroup = \<lparr>score = - 1, eg_count = 0, needs = 0, exclusive = 0, root = False, edges = []\<rparr>"

definition egroup :: "int \<Rightarrow> int \<Rightarrow> int \<Rightarrow> int \<Rightarrow> bool \<Rightarrow> eval_egroup" where
  "egroup s c n x r = \<lparr>score = s, eg_count = c, needs = n, exclusive = x, root = r, edges = []\<rparr>"

section \<open>The candidates of one type\<close>

text \<open>The iterator of the class is a position in the vector, \<open>None\<close> when it was never set
  or the vector may have moved.\<close>

record evals =
  m_eval_egroups :: "eval_egroup list"
  m_iter_cur :: "nat option"
  m_iter_cur_reset :: bool
  m_resrc_type :: string
  m_cutline :: int
  m_qual_count :: int
  m_total_count :: int
  m_best_k :: int
  m_best_i :: int

definition new_evals :: evals where
  "new_evals = \<lparr>m_eval_egroups = [], m_iter_cur = None, m_iter_cur_reset = True, m_resrc_type = [], m_cutline = 0,
     m_qual_count = 0, m_total_count = 0, m_best_k = 0, m_best_i = 0\<rparr>"

definition evals_of :: "int \<Rightarrow> string \<Rightarrow> evals" where
  "evals_of c t = new_evals\<lparr>m_resrc_type := t, m_cutline := c\<rparr>"

definition evals_copy :: "evals \<Rightarrow> evals" where
  "evals_copy e = e\<lparr>m_iter_cur := None, m_iter_cur_reset := True\<rparr>"

definition evals_assign :: "evals \<Rightarrow> evals \<Rightarrow> evals" where
  "evals_assign e e' = e'\<lparr>m_iter_cur := None, m_iter_cur_reset := m_iter_cur_reset e\<rparr>"

definition evals_add :: "eval_egroup \<Rightarrow> evals \<Rightarrow> int \<times> evals" where
  "evals_add eg e =
     (let q = (if score eg > m_cutline e then u32 (m_qual_count e + eg_count eg) else m_qual_count e)
      in (q, e\<lparr>m_total_count := u32 (m_total_count e + eg_count eg), m_qual_count := q,
               m_eval_egroups := m_eval_egroups e @ [eg], m_iter_cur := None\<rparr>))"

text \<open>\<open>None\<close> is the exception \<^verbatim>\<open>out_of_range\<close>.\<close>

definition evals_at :: "nat \<Rightarrow> evals \<Rightarrow> eval_egroup option" where
  "evals_at i e = (if i < length (m_eval_egroups e) then Some (m_eval_egroups e ! i) else None)"

definition evals_granules :: "evals \<Rightarrow> int" where
  "evals_granules e = u32 (int (length (m_eval_egroups e)))"

definition evals_set_cutline :: "int \<Rightarrow> evals \<Rightarrow> int \<times> evals" where
  "evals_set_cutline c e = (m_cutline e, e\<lparr>m_cutline := c\<rparr>)"

definition evals_merge :: "evals \<Rightarrow> evals \<Rightarrow> int result \<times> evals" where
  "evals_merge e' e =
     (if m_cutline e \<noteq> m_cutline e' \<or> m_resrc_type e \<noteq> m_resrc_type e' then (Inl EINVAL, e)
      else (Inr 0, e\<lparr>m_qual_count := u32 (m_qual_count e + m_qual_count e'),
                      m_total_count := u32 (m_total_count e + m_total_count e'),
                      m_cutline := m_cutline e', m_eval_egroups := m_eval_egroups e @ m_eval_egroups e',
                      m_iter_cur := None\<rparr>))"

definition evals_iter_reset :: "evals \<Rightarrow> evals" where
  "evals_iter_reset e = e\<lparr>m_iter_cur_reset := True\<rparr>"

definition evals_iter_next :: "evals \<Rightarrow> (nat \<times> evals) option" where
  "evals_iter_next e =
     (if m_iter_cur_reset e then Some (0, e\<lparr>m_iter_cur := Some 0, m_iter_cur_reset := False\<rparr>)
      else do {
        i \<leftarrow> m_iter_cur e;
        let j = (if i \<noteq> length (m_eval_egroups e) then Suc i else i);
        Some (j, e\<lparr>m_iter_cur := Some j\<rparr>)
      })"

section \<open>Choosing the best\<close>

type_synonym compare_op = "eval_egroup \<Rightarrow> eval_egroup \<Rightarrow> bool"
type_synonym sort_fun = "compare_op \<Rightarrow> eval_egroup list \<Rightarrow> eval_egroup list"

definition fold_greater :: compare_op where
  "fold_greater a b \<longleftrightarrow> score a > score b"

definition fold_less :: compare_op where
  "fold_less a b \<longleftrightarrow> score a < score b"

text \<open>Intervals of an interval set are compared by their lower, then by their upper bounds; the
  interval that holds a score is the argument \<open>iv\<close>.\<close>

definition fold_interval_greater :: "(int \<Rightarrow> int \<times> int) \<Rightarrow> compare_op" where
  "fold_interval_greater iv a b \<longleftrightarrow> iv (score a) > iv (score b)"

definition fold_interval_less :: "(int \<Rightarrow> int \<times> int) \<Rightarrow> compare_op" where
  "fold_interval_less iv a b \<longleftrightarrow> iv (score a) < iv (score b)"

definition fold_plus :: "int \<Rightarrow> eval_egroup \<Rightarrow> int" where
  "fold_plus result a = i64 (result + score a)"

text \<open>The number still to be selected is an \<^verbatim>\<open>int\<close>. Running over the end of the vector is
  undefined. The second result is the position reached.\<close>

fun select_loop :: "int \<Rightarrow> eval_egroup list \<Rightarrow> (eval_egroup list \<times> nat) option" where
  "select_loop n [] = (if n > 0 then None else Some ([], 0))"
| "select_loop n (g # gs) =
     (if n > 0 then
        map_option (\<lambda>(r, i). (g\<lparr>needs := (if n \<le> i32 (eg_count g) then n else eg_count g)\<rparr> # r, Suc i))
          (select_loop (i32 (n - eg_count g)) gs)
      else Some (g # gs, 0))"

definition choose_best_k :: "sort_fun \<Rightarrow> compare_op \<Rightarrow> int \<Rightarrow> evals \<Rightarrow> (int result \<times> evals) option" where
  "choose_best_k srt cmp k e =
     (if k = 0 \<or> k > m_qual_count e then Some (Inl EINVAL, e)
      else do {
        (gs, i) \<leftarrow> select_loop (i32 k) (srt cmp (m_eval_egroups e));
        Some (Inr (i32 (m_best_k e)), e\<lparr>m_eval_egroups := gs, m_best_k := k, m_best_i := u32 (int i)\<rparr>)
      })"

definition accum_best_k :: "(int \<Rightarrow> eval_egroup \<Rightarrow> int) \<Rightarrow> int \<Rightarrow> evals \<Rightarrow> int result" where
  "accum_best_k accum init e =
     (if m_best_k e = 0 \<or> m_best_i e = 0 then Inl EINVAL
      else Inr (foldl accum init (take (nat (m_best_i e)) (m_eval_egroups e))))"

definition evals_transform :: "(eval_egroup \<Rightarrow> 'a) \<Rightarrow> evals \<Rightarrow> 'a list" where
  "evals_transform uop e = map uop (m_eval_egroups e)"

section \<open>The scores of all types\<close>

record scoring =
  m_ssys_map :: "(string, (string, evals) omap) omap"
  m_hier_constrain_now :: bool
  m_overall_score :: int
  m_avail :: int

definition new_scoring :: scoring where
  "new_scoring = \<lparr>m_ssys_map = [], m_hier_constrain_now = False, m_overall_score = - 1, m_avail = 0\<rparr>"

text \<open>Every access \<^verbatim>\<open>m_ssys_map[s][r]\<close> makes the entry when there is none.\<close>

definition entry :: "string \<Rightarrow> string \<Rightarrow> scoring \<Rightarrow> evals" where
  "entry s r d = om_get new_evals r (om_get [] s (m_ssys_map d))"

definition set_entry :: "string \<Rightarrow> string \<Rightarrow> evals \<Rightarrow> scoring \<Rightarrow> scoring" where
  "set_entry s r e d = d\<lparr>m_ssys_map := om_assign s (om_assign r e (om_get [] s (m_ssys_map d))) (m_ssys_map d)\<rparr>"

definition touch :: "string \<Rightarrow> string \<Rightarrow> scoring \<Rightarrow> scoring" where
  "touch s r d = set_entry s r (entry s r d) d"

definition cutline :: "string \<Rightarrow> string \<Rightarrow> scoring \<Rightarrow> int \<times> scoring" where
  "cutline s r d = (m_cutline (entry s r d), touch s r d)"

definition set_cutline :: "string \<Rightarrow> string \<Rightarrow> int \<Rightarrow> scoring \<Rightarrow> int \<times> scoring" where
  "set_cutline s r c d = (case evals_set_cutline c (entry s r d) of (old, e) \<Rightarrow> (old, set_entry s r e d))"

definition eval_egroups_iter_reset :: "string \<Rightarrow> string \<Rightarrow> scoring \<Rightarrow> scoring" where
  "eval_egroups_iter_reset s r d = set_entry s r (evals_iter_reset (entry s r d)) d"

definition eval_egroups_iter_next :: "string \<Rightarrow> string \<Rightarrow> scoring \<Rightarrow> (nat \<times> scoring) option" where
  "eval_egroups_iter_next s r d = map_option (\<lambda>(i, e). (i, set_entry s r e d)) (evals_iter_next (entry s r d))"

definition eval_egroups_end :: "string \<Rightarrow> string \<Rightarrow> scoring \<Rightarrow> nat \<times> scoring" where
  "eval_egroups_end s r d = (length (m_eval_egroups (entry s r d)), touch s r d)"

definition scoring_add :: "string \<Rightarrow> string \<Rightarrow> eval_egroup \<Rightarrow> scoring \<Rightarrow> int \<times> scoring" where
  "scoring_add s r eg d = (case evals_add eg (entry s r d) of (q, e) \<Rightarrow> (i32 q, set_entry s r e d))"

definition scoring_at :: "string \<Rightarrow> string \<Rightarrow> nat \<Rightarrow> scoring \<Rightarrow> eval_egroup option \<times> scoring" where
  "scoring_at s r i d = (evals_at i (entry s r d), touch s r d)"

definition qualified_count :: "string \<Rightarrow> string \<Rightarrow> scoring \<Rightarrow> int \<times> scoring" where
  "qualified_count s r d = (m_qual_count (entry s r d), touch s r d)"

definition qualified_granules :: "string \<Rightarrow> string \<Rightarrow> scoring \<Rightarrow> int \<times> scoring" where
  "qualified_granules s r d = (evals_granules (entry s r d), touch s r d)"

definition total_count :: "string \<Rightarrow> string \<Rightarrow> scoring \<Rightarrow> int \<times> scoring" where
  "total_count s r d = (m_total_count (entry s r d), touch s r d)"

definition best_k :: "string \<Rightarrow> string \<Rightarrow> scoring \<Rightarrow> int \<times> scoring" where
  "best_k s r d = (m_best_k (entry s r d), touch s r d)"

definition best_i :: "string \<Rightarrow> string \<Rightarrow> scoring \<Rightarrow> int \<times> scoring" where
  "best_i s r d = (m_best_i (entry s r d), touch s r d)"

text \<open>The failures of the single merges are ignored.\<close>

definition merge_types :: "string \<Rightarrow> (string, evals) omap \<Rightarrow> scoring \<Rightarrow> scoring" where
  "merge_types s m d = fold (\<lambda>(r, ev) d. set_entry s r (snd (evals_merge ev (entry s r d))) d) m d"

definition scoring_merge :: "scoring \<Rightarrow> scoring \<Rightarrow> scoring" where
  "scoring_merge d' d = fold (\<lambda>(s, m). merge_types s m) (m_ssys_map d') d"

text \<open>Only the entry of the subsystem is made by \<^verbatim>\<open>m_ssys_map[s]\<close>.\<close>

definition touch_subsystem :: "string \<Rightarrow> scoring \<Rightarrow> scoring" where
  "touch_subsystem s d = d\<lparr>m_ssys_map := om_assign s (om_get [] s (m_ssys_map d)) (m_ssys_map d)\<rparr>"

definition resrc_types :: "string \<Rightarrow> scoring \<Rightarrow> string list \<times> scoring" where
  "resrc_types s d = (map fst (om_get [] s (m_ssys_map d)), touch_subsystem s d)"

definition set_overall_score :: "int \<Rightarrow> scoring \<Rightarrow> scoring" where
  "set_overall_score overall d = d\<lparr>m_overall_score := overall\<rparr>"

definition set_avail :: "int \<Rightarrow> scoring \<Rightarrow> scoring" where
  "set_avail a d = d\<lparr>m_avail := a\<rparr>"

definition is_contained :: "string \<Rightarrow> string \<Rightarrow> scoring \<Rightarrow> bool \<times> scoring" where
  "is_contained s r d = (om_find r (om_get [] s (m_ssys_map d)) \<noteq> None, touch_subsystem s d)"

text \<open>A failure of the choice is the value -1 without more; so is an old choice of
  \<open>2 ^ 32 - 1\<close>, which converts to it.\<close>

definition choose_accum_best_k :: "sort_fun \<Rightarrow> compare_op \<Rightarrow> string \<Rightarrow> string \<Rightarrow> int \<Rightarrow> scoring \<Rightarrow> (int \<times> scoring) option" where
  "choose_accum_best_k srt cmp s r k d = do {
     (rc, e) \<leftarrow> choose_best_k srt cmp k (entry s r d);
     let d = set_entry s r e d;
     Some (if rc_of rc \<noteq> - 1 then (rc_of (accum_best_k fold_plus 0 e), d\<lparr>m_hier_constrain_now := True\<rparr>)
           else (- 1, d))
   }"

definition choose_accum_all :: "sort_fun \<Rightarrow> compare_op \<Rightarrow> string \<Rightarrow> string \<Rightarrow> scoring \<Rightarrow> (int \<times> scoring) option" where
  "choose_accum_all srt cmp s r d = choose_accum_best_k srt cmp s r (m_qual_count (entry s r d)) d"

end
