(* ===== verification/Match_Policies.thy ===== *)
theory Match_Policies
  imports Resource_Graph Evaluators
begin

text \<open>
  The match policies (\<^verbatim>\<open>src/resource/policies\<close>): the callbacks a traversal makes when it
  discovers and finishes a vertex, a slot and the graph, and the factory that makes a policy from its
  name. A derived class is an extension of the record of its base class; the virtual methods are
  functions on the datatype \<open>match_cb\<close>.

  The interval set of the locality policy is a container of a library outside the sources; its use is
  the argument \<open>icl\<close>: the interval that holds a score in the set made of the given scores.
  So is the splitting of a string, the argument \<open>split\<close>. Messages are not modelled.
\<close>

section \<open>The base class\<close>

record dfu_match_cb =
  cb_data :: matcher_data
  cb_util :: matcher_util
  m_trav_level :: int

definition new_match_cb :: "string \<Rightarrow> dfu_match_cb" where
  "new_match_cb name = \<lparr>cb_data = new_matcher_data name,
     cb_util = \<lparr>m_x_resource_types = [], m_pruning_types = [], m_total_set = []\<rparr>, m_trav_level = 0\<rparr>"

definition incr :: "'a dfu_match_cb_scheme \<Rightarrow> 'a dfu_match_cb_scheme" where
  "incr m = m\<lparr>m_trav_level := i32 (m_trav_level m + 1)\<rparr>"

definition decr :: "'a dfu_match_cb_scheme \<Rightarrow> 'a dfu_match_cb_scheme" where
  "decr m = m\<lparr>m_trav_level := i32 (m_trav_level m - 1)\<rparr>"

definition cb_level :: "'a dfu_match_cb_scheme \<Rightarrow> string" where
  "cb_level m = concat (replicate (nat (m_trav_level m)) ''----'')"

section \<open>Choosing for a request\<close>

definition MATCH_UNMET :: int where
  "MATCH_UNMET = 0"

definition MATCH_MET :: int where
  "MATCH_MET = 1"

text \<open>The loops over requests stop at the first that cannot be met. What the choice itself
  returns is not used.\<close>

fun choose_requests :: "sort_fun \<Rightarrow> compare_op \<Rightarrow> string \<Rightarrow> resource list \<Rightarrow> scoring \<Rightarrow> (bool \<times> scoring) option" where
  "choose_requests srt cmp s [] d = Some (True, d)"
| "choose_requests srt cmp s (r # rs) d =
     (case qualified_count s (res_type r) d of
        (qc, d) \<Rightarrow> do {
          c \<leftarrow> calc_count (request_count r) qc;
          if c = 0 then Some (False, d)
          else do {
            (_, d) \<leftarrow> choose_accum_best_k srt cmp s (res_type r) c d;
            choose_requests srt cmp s rs d
          }
        })"

fun finish_requests :: "sort_fun \<Rightarrow> compare_op \<Rightarrow> string \<Rightarrow> string \<Rightarrow> resource list \<Rightarrow> bool \<Rightarrow> scoring
    \<Rightarrow> (bool \<times> scoring) option" where
  "finish_requests srt cmp t s [] met d = Some (met, d)"
| "finish_requests srt cmp t s (r # rs) met d =
     (if res_type r \<noteq> t then finish_requests srt cmp t s rs met d
      else do {
        (ok, d) \<leftarrow> choose_requests srt cmp s (res_with r) d;
        finish_requests srt cmp t s rs (met \<and> ok) d
      })"

fun choose_all_types :: "sort_fun \<Rightarrow> compare_op \<Rightarrow> string \<Rightarrow> string list \<Rightarrow> scoring \<Rightarrow> scoring option" where
  "choose_all_types srt cmp s [] d = Some d"
| "choose_all_types srt cmp s (t # ts) d = do {
     (_, d) \<leftarrow> choose_accum_all srt cmp s t d;
     choose_all_types srt cmp s ts d
   }"

definition finish_slot :: "sort_fun \<Rightarrow> compare_op \<Rightarrow> string \<Rightarrow> scoring \<Rightarrow> (int result \<times> scoring) option" where
  "finish_slot srt cmp s d =
     (case resrc_types s d of (ts, d) \<Rightarrow> map_option (Pair (Inr 0)) (choose_all_types srt cmp s ts d))"

section \<open>Multilevel identifiers\<close>

record score_factor =
  m_add_by :: int
  m_multiply_by :: int
  m_factor :: int

definition new_score_factor :: "int \<Rightarrow> int \<Rightarrow> score_factor" where
  "new_score_factor add_by multiply_by = \<lparr>m_add_by = add_by, m_multiply_by = multiply_by, m_factor = 0\<rparr>"

text \<open>\<open>None\<close> for the division by zero.\<close>

definition calc_factor :: "int \<Rightarrow> int \<Rightarrow> score_factor \<Rightarrow> (int result \<times> score_factor) option" where
  "calc_factor base_factor break_tie f =
     (if base_factor < 0 \<or> break_tie < 0 then Some (Inl EINVAL, f)
      else if base_factor > int64_max - m_add_by f then Some (Inl EOVERFLOW, f)
      else if m_multiply_by f = 0 then None
      else
        (let add = base_factor + m_add_by f
         in if add > int64_max div m_multiply_by f then Some (Inl EOVERFLOW, f)
            else
              (let mul = add * m_multiply_by f; tie = \<bar>break_tie mod m_multiply_by f - 1\<bar>
               in if mul > int64_max - tie then Some (Inl EOVERFLOW, f)
                  else Some (Inr (mul + tie), f\<lparr>m_factor := mul + tie\<rparr>))))"

record multilevel_id = dfu_match_cb +
  m_stop_on_k_matches :: int
  m_multilevel_scores :: int
  m_multilevel_factors :: "(string, score_factor) omap"

definition new_multilevel_id :: "string \<Rightarrow> multilevel_id" where
  "new_multilevel_id name = dfu_match_cb.extend (new_match_cb name)
     (multilevel_id.fields 0 0 [])"

definition add_score_factor :: "string \<Rightarrow> int \<Rightarrow> int \<Rightarrow> multilevel_id \<Rightarrow> int result \<times> multilevel_id" where
  "add_score_factor t add_by multiply_by m =
     (if om_find t (m_multilevel_factors m) \<noteq> None then (Inl EEXIST, m)
      else (Inr 0, m\<lparr>m_multilevel_factors := om_assign t (new_score_factor add_by multiply_by) (m_multilevel_factors m)\<rparr>))"

definition set_stop_on_k_matches :: "int \<Rightarrow> multilevel_id \<Rightarrow> int result \<times> multilevel_id" where
  "set_stop_on_k_matches k m = (if k > 1 then (Inl EINVAL, m) else (Inr 0, m\<lparr>m_stop_on_k_matches := k\<rparr>))"

text \<open>An identifier below -1 fails without an error number.\<close>

definition multilevel_discover_vtx :: "resource_pool \<Rightarrow> multilevel_id \<Rightarrow> (int result \<times> multilevel_id) option" where
  "multilevel_discover_vtx v m =
     (case om_find (vtype v) (m_multilevel_factors m) of
        None \<Rightarrow> Some (Inr 0, incr m)
      | Some f \<Rightarrow>
          (if vid v < - 1 then Some (Inl UNSET, m)
           else do {
             (r, f) \<leftarrow> calc_factor (vid v + 1) (uniq_id v) f;
             let m = m\<lparr>m_multilevel_factors := om_assign (vtype v) f (m_multilevel_factors m)\<rparr>;
             Some (case r of
                     Inl e \<Rightarrow> (Inl e, m)
                   | Inr factor \<Rightarrow> (Inr 0, incr (m\<lparr>m_multilevel_scores := i64 (m_multilevel_scores m + factor)\<rparr>)))
           }))"

definition multilevel_finish_vtx :: "sort_fun \<Rightarrow> compare_op \<Rightarrow> resource_pool \<Rightarrow> string \<Rightarrow> resource list \<Rightarrow> scoring
    \<Rightarrow> multilevel_id \<Rightarrow> (int result \<times> scoring \<times> multilevel_id) option" where
  "multilevel_finish_vtx srt cmp v s resources d m = do {
     (met, d) \<leftarrow> finish_requests srt cmp (vtype v) s resources True d;
     let m = (case om_find (vtype v) (m_multilevel_factors m) of
                None \<Rightarrow> m
              | Some f \<Rightarrow> m\<lparr>m_multilevel_scores := i64 (m_multilevel_scores m - m_factor f)\<rparr>);
     let overall = (if met then i64 (MATCH_MET + m_multilevel_scores m + vid v + 1) else MATCH_UNMET);
     Some (if met then Inr 0 else Inl EBUSY, set_overall_score overall d, decr m)
   }"

definition multilevel_finish_graph :: "sort_fun \<Rightarrow> compare_op \<Rightarrow> string \<Rightarrow> resource list \<Rightarrow> scoring \<Rightarrow> multilevel_id
    \<Rightarrow> (int result \<times> scoring \<times> multilevel_id) option" where
  "multilevel_finish_graph srt cmp s resources d m = do {
     (met, d) \<leftarrow> choose_requests srt cmp s resources d;
     Some (if met then Inr 0 else Inl UNSET, set_overall_score (if met then MATCH_MET else MATCH_UNMET) d,
           m\<lparr>m_multilevel_scores := 0\<rparr>)
   }"

section \<open>Locality\<close>

text \<open>The interval set grows from one request to the next.\<close>

fun interval_requests :: "sort_fun \<Rightarrow> (int list \<Rightarrow> int \<Rightarrow> int \<times> int) \<Rightarrow> string \<Rightarrow> resource list \<Rightarrow> int list \<Rightarrow> scoring
    \<Rightarrow> (bool \<times> scoring) option" where
  "interval_requests srt icl s [] ivset d = Some (True, d)"
| "interval_requests srt icl s (r # rs) ivset d =
     (case qualified_count s (res_type r) d of
        (qc, d) \<Rightarrow> do {
          c \<leftarrow> calc_count (request_count r) qc;
          if c = 0 then Some (False, d)
          else do {
            let ivset = ivset @ evals_transform score (entry s (res_type r) d);
            (_, d) \<leftarrow> choose_accum_best_k srt (fold_interval_greater (icl ivset)) s (res_type r) c d;
            interval_requests srt icl s rs ivset d
          }
        })"

definition locality_finish_graph :: "sort_fun \<Rightarrow> (int list \<Rightarrow> int \<Rightarrow> int \<times> int) \<Rightarrow> string \<Rightarrow> resource list \<Rightarrow> scoring
    \<Rightarrow> (int result \<times> scoring) option" where
  "locality_finish_graph srt icl s resources d = do {
     (met, d) \<leftarrow> interval_requests srt icl s resources [] d;
     Some (if met then Inr 0 else Inl EBUSY, set_overall_score (if met then MATCH_MET else MATCH_UNMET) d)
   }"

definition locality_finish_vtx :: "sort_fun \<Rightarrow> resource_pool \<Rightarrow> string \<Rightarrow> resource list \<Rightarrow> scoring \<Rightarrow> dfu_match_cb
    \<Rightarrow> (int result \<times> scoring \<times> dfu_match_cb) option" where
  "locality_finish_vtx srt v s resources d m = do {
     (met, d) \<leftarrow> finish_requests srt fold_greater (vtype v) s resources True d;
     let overall = (if met then i64 (MATCH_MET + vid v + 1) else MATCH_UNMET);
     Some (if met then Inr 0 else Inl EBUSY, set_overall_score overall d, decr m)
   }"

section \<open>Variation\<close>

definition perf_class_of :: "resource_pool \<Rightarrow> int" where
  "perf_class_of v =
     (case om_find ''perf_class'' (properties v) of
        None \<Rightarrow> 9999
      | Some s \<Rightarrow> (case stoi s of Inl _ \<Rightarrow> 9999 | Inr c \<Rightarrow> if c < 0 \<or> c > 9999 then 9999 else c))"

definition var_aware_finish_graph :: "sort_fun \<Rightarrow> string \<Rightarrow> resource list \<Rightarrow> scoring \<Rightarrow> (int result \<times> scoring) option" where
  "var_aware_finish_graph srt s resources d = do {
     (met, d) \<leftarrow> choose_requests srt fold_less s resources d;
     Some (if met then Inr 0 else Inl EBUSY, set_overall_score (if met then MATCH_MET else MATCH_UNMET) d)
   }"

definition var_aware_finish_vtx :: "sort_fun \<Rightarrow> resource_pool \<Rightarrow> string \<Rightarrow> resource list \<Rightarrow> scoring \<Rightarrow> dfu_match_cb
    \<Rightarrow> (int result \<times> scoring \<times> dfu_match_cb) option" where
  "var_aware_finish_vtx srt v s resources d m = do {
     (met, d) \<leftarrow> finish_requests srt fold_less (vtype v) s resources True d;
     let overall = (if met then MATCH_MET + perf_class_of v else MATCH_UNMET);
     Some (if met then Inr 0 else Inl EBUSY, set_overall_score overall d, decr m)
   }"

section \<open>The virtual methods\<close>

datatype match_cb = High_first multilevel_id | Low_first multilevel_id | Locality dfu_match_cb | Var_aware dfu_match_cb

fun dom_discover_vtx :: "resource_pool \<Rightarrow> match_cb \<Rightarrow> (int result \<times> match_cb) option" where
  "dom_discover_vtx v (High_first m) = map_option (map_prod id High_first) (multilevel_discover_vtx v m)"
| "dom_discover_vtx v (Low_first m) = map_option (map_prod id Low_first) (multilevel_discover_vtx v m)"
| "dom_discover_vtx v (Locality m) = Some (Inr 0, Locality (incr m))"
| "dom_discover_vtx v (Var_aware m) = Some (Inr 0, Var_aware (incr m))"

fun dom_finish_vtx :: "sort_fun \<Rightarrow> resource_pool \<Rightarrow> string \<Rightarrow> resource list \<Rightarrow> scoring \<Rightarrow> match_cb
    \<Rightarrow> (int result \<times> scoring \<times> match_cb) option" where
  "dom_finish_vtx srt v s rs d (High_first m) =
     map_option (map_prod id (map_prod id High_first)) (multilevel_finish_vtx srt fold_greater v s rs d m)"
| "dom_finish_vtx srt v s rs d (Low_first m) =
     map_option (map_prod id (map_prod id Low_first)) (multilevel_finish_vtx srt fold_less v s rs d m)"
| "dom_finish_vtx srt v s rs d (Locality m) =
     map_option (map_prod id (map_prod id Locality)) (locality_finish_vtx srt v s rs d m)"
| "dom_finish_vtx srt v s rs d (Var_aware m) =
     map_option (map_prod id (map_prod id Var_aware)) (var_aware_finish_vtx srt v s rs d m)"

fun dom_finish_slot :: "sort_fun \<Rightarrow> string \<Rightarrow> scoring \<Rightarrow> match_cb \<Rightarrow> (int result \<times> scoring) option" where
  "dom_finish_slot srt s d (High_first m) = finish_slot srt fold_greater s d"
| "dom_finish_slot srt s d (Low_first m) = finish_slot srt fold_less s d"
| "dom_finish_slot srt s d (Locality m) = finish_slot srt fold_greater s d"
| "dom_finish_slot srt s d (Var_aware m) = finish_slot srt fold_greater s d"

fun dom_finish_graph :: "sort_fun \<Rightarrow> (int list \<Rightarrow> int \<Rightarrow> int \<times> int) \<Rightarrow> string \<Rightarrow> resource list \<Rightarrow> scoring \<Rightarrow> match_cb
    \<Rightarrow> (int result \<times> scoring \<times> match_cb) option" where
  "dom_finish_graph srt icl s rs d (High_first m) =
     map_option (map_prod id (map_prod id High_first)) (multilevel_finish_graph srt fold_greater s rs d m)"
| "dom_finish_graph srt icl s rs d (Low_first m) =
     map_option (map_prod id (map_prod id Low_first)) (multilevel_finish_graph srt fold_less s rs d m)"
| "dom_finish_graph srt icl s rs d (Locality m) =
     map_option (\<lambda>(r, d). (r, d, Locality m)) (locality_finish_graph srt icl s rs d)"
| "dom_finish_graph srt icl s rs d (Var_aware m) =
     map_option (\<lambda>(r, d). (r, d, Var_aware m)) (var_aware_finish_graph srt s rs d)"

fun aux_discover_vtx :: "match_cb \<Rightarrow> match_cb" where
  "aux_discover_vtx (High_first m) = High_first (incr m)"
| "aux_discover_vtx (Low_first m) = Low_first (incr m)"
| "aux_discover_vtx (Locality m) = Locality (incr m)"
| "aux_discover_vtx (Var_aware m) = Var_aware (incr m)"

fun aux_finish_vtx :: "match_cb \<Rightarrow> match_cb" where
  "aux_finish_vtx (High_first m) = High_first (decr m)"
| "aux_finish_vtx (Low_first m) = Low_first (decr m)"
| "aux_finish_vtx (Locality m) = Locality (decr m)"
| "aux_finish_vtx (Var_aware m) = Var_aware (decr m)"

fun get_stop_on_k_matches :: "match_cb \<Rightarrow> int" where
  "get_stop_on_k_matches (High_first m) = m_stop_on_k_matches m"
| "get_stop_on_k_matches (Low_first m) = m_stop_on_k_matches m"
| "get_stop_on_k_matches (Locality m) = 0"
| "get_stop_on_k_matches (Var_aware m) = 0"

fun data_of :: "match_cb \<Rightarrow> matcher_data" where
  "data_of (High_first m) = cb_data m"
| "data_of (Low_first m) = cb_data m"
| "data_of (Locality m) = cb_data m"
| "data_of (Var_aware m) = cb_data m"

fun util_of :: "match_cb \<Rightarrow> matcher_util" where
  "util_of (High_first m) = cb_util m"
| "util_of (Low_first m) = cb_util m"
| "util_of (Locality m) = cb_util m"
| "util_of (Var_aware m) = cb_util m"

fun upd_util :: "(matcher_util \<Rightarrow> matcher_util) \<Rightarrow> match_cb \<Rightarrow> match_cb" where
  "upd_util f (High_first m) = High_first (m\<lparr>cb_util := f (cb_util m)\<rparr>)"
| "upd_util f (Low_first m) = Low_first (m\<lparr>cb_util := f (cb_util m)\<rparr>)"
| "upd_util f (Locality m) = Locality (m\<lparr>cb_util := f (cb_util m)\<rparr>)"
| "upd_util f (Var_aware m) = Var_aware (m\<lparr>cb_util := f (cb_util m)\<rparr>)"

end
