(* ===== verification/Evaluators_Correct.thy ===== *)
theory Evaluators_Correct
  imports Evaluators
begin

text \<open>
  What the evaluators promise: the counts they keep are those of the candidates they hold, and
  \<open>choose_best_k\<close> grants exactly \<open>k\<close> units from the best candidates, whatever order the sort
  gives to equal ones. The orders of \<^verbatim>\<open>fold.hpp\<close> share one contract, the locale
  \<open>fold_order\<close>.
\<close>

section \<open>Counts\<close>

definition total_of :: "eval_egroup list \<Rightarrow> int" where
  "total_of gs = sum_list (map eg_count gs)"

definition qual_groups :: "int \<Rightarrow> eval_egroup list \<Rightarrow> eval_egroup list" where
  "qual_groups c gs = filter (\<lambda>g. score g > c) gs"

text \<open>The count of the qualified wraps around, so it is at most the true one; it is exact as long
  as nothing wraps.\<close>

definition evals_ok :: "evals \<Rightarrow> bool" where
  "evals_ok e \<longleftrightarrow>
     (\<forall>g\<in>set (m_eval_egroups e). 0 \<le> eg_count g \<and> eg_count g < 2 ^ 31) \<and> 0 \<le> m_qual_count e \<and>
     m_qual_count e \<le> total_of (qual_groups (m_cutline e) (m_eval_egroups e)) \<and>
     nat (m_best_i e) \<le> length (m_eval_egroups e) \<and> 0 \<le> m_best_i e"

definition counts_exact :: "evals \<Rightarrow> bool" where
  "counts_exact e \<longleftrightarrow>
     m_total_count e = total_of (m_eval_egroups e) \<and>
     m_qual_count e = total_of (qual_groups (m_cutline e) (m_eval_egroups e))"

lemma total_simps [simp]: "total_of [] = 0" "total_of (g # gs) = eg_count g + total_of gs"
  "total_of (gs @ hs) = total_of gs + total_of hs"
  by (simp_all add: total_of_def)

lemma qual_groups_simps [simp]: "qual_groups c [] = []" "qual_groups c (gs @ hs) = qual_groups c gs @ qual_groups c hs"
  "qual_groups c (g # gs) = (if score g > c then g # qual_groups c gs else qual_groups c gs)"
  by (simp_all add: qual_groups_def)

lemma total_nonneg: "\<forall>g\<in>set gs. 0 \<le> eg_count g \<Longrightarrow> 0 \<le> total_of gs"
  by (induction gs) auto

lemma qual_groups_le: "\<forall>g\<in>set gs. 0 \<le> eg_count g \<Longrightarrow> total_of (qual_groups c gs) \<le> total_of gs"
  by (induction gs) auto

lemma qual_groups_nonneg: "\<forall>g\<in>set gs. 0 \<le> eg_count g \<Longrightarrow> 0 \<le> total_of (qual_groups c gs)"
  by (induction gs) auto

lemma total_mset: "mset gs = mset hs \<Longrightarrow> total_of gs = total_of hs"
  unfolding total_of_def by (metis mset_map sum_mset_sum_list)

lemma qual_groups_mset: "mset gs = mset hs \<Longrightarrow> mset (qual_groups c gs) = mset (qual_groups c hs)"
  by (simp add: qual_groups_def)

lemma u32_id [simp]: "0 \<le> x \<Longrightarrow> x < 2 ^ 32 \<Longrightarrow> u32 x = x"
  by (simp add: u32_def)

lemma u32_le: "0 \<le> x \<Longrightarrow> u32 x \<le> x"
  by (simp add: u32_def zmod_le_nonneg_dividend)

lemma u32_nonneg [simp]: "0 \<le> u32 x"
  by (simp add: u32_def)

lemma evals_okD:
  assumes "evals_ok e"
  shows "g \<in> set (m_eval_egroups e) \<Longrightarrow> 0 \<le> eg_count g" and "g \<in> set (m_eval_egroups e) \<Longrightarrow> eg_count g < 2 ^ 31"
    and "0 \<le> m_qual_count e" and "m_qual_count e \<le> total_of (m_eval_egroups e)"
  using assms qual_groups_le [of "m_eval_egroups e" "m_cutline e"] by (auto simp: evals_ok_def)

lemma new_evals_ok [simp]: "evals_ok new_evals" "evals_ok (evals_of c t)"
  by (simp_all add: evals_ok_def evals_of_def new_evals_def)

lemma evals_add_ok:
  assumes "evals_ok e" and "0 \<le> eg_count g" and "eg_count g < 2 ^ 31"
  shows "evals_ok (snd (evals_add g e))"
  using assms u32_le [of "m_qual_count e + eg_count g"] by (auto simp: evals_ok_def evals_add_def Let_def)

lemma evals_merge_ok:
  assumes "evals_ok e" and "evals_ok e'"
  shows "evals_ok (snd (evals_merge e' e))"
  using assms u32_le [of "m_qual_count e + m_qual_count e'"] by (auto simp: evals_ok_def evals_merge_def)

lemma evals_add_exact:
  assumes "counts_exact e" and "\<forall>h\<in>set (m_eval_egroups e @ [g]). 0 \<le> eg_count h"
    and "total_of (m_eval_egroups e @ [g]) < 2 ^ 32"
  shows "counts_exact (snd (evals_add g e))"
    and "fst (evals_add g e) = total_of (qual_groups (m_cutline e) (m_eval_egroups e @ [g]))"
  using assms qual_groups_le [of "m_eval_egroups e" "m_cutline e"] qual_groups_nonneg [of "m_eval_egroups e" "m_cutline e"]
    total_nonneg [of "m_eval_egroups e"]
  by (auto simp: counts_exact_def evals_add_def Let_def)

lemma evals_merge_exact:
  assumes "counts_exact e" and "counts_exact e'" and "\<forall>h\<in>set (m_eval_egroups e @ m_eval_egroups e'). 0 \<le> eg_count h"
    and "total_of (m_eval_egroups e @ m_eval_egroups e') < 2 ^ 32"
  shows "counts_exact (snd (evals_merge e' e))"
  using assms qual_groups_le [of "m_eval_egroups e" "m_cutline e"] qual_groups_nonneg [of "m_eval_egroups e" "m_cutline e"]
    total_nonneg [of "m_eval_egroups e"] qual_groups_le [of "m_eval_egroups e'" "m_cutline e"]
    qual_groups_nonneg [of "m_eval_egroups e'" "m_cutline e"] total_nonneg [of "m_eval_egroups e'"]
  by (auto simp: counts_exact_def evals_merge_def)

text \<open>The maps of the scores are sorted.\<close>

definition score_maps_ok :: "scoring \<Rightarrow> bool" where
  "score_maps_ok d \<longleftrightarrow> om_ok (m_ssys_map d) \<and> (\<forall>s. om_ok (om_get [] s (m_ssys_map d)))"

lemma entry_set: "score_maps_ok d \<Longrightarrow> entry s r (set_entry s' r' e d) = (if s = s' \<and> r = r' then e else entry s r d)"
  by (simp add: entry_def set_entry_def score_maps_ok_def om_get_assign)

lemma score_maps_ok_set: "score_maps_ok d \<Longrightarrow> score_maps_ok (set_entry s r e d)"
  by (simp add: set_entry_def score_maps_ok_def om_get_assign)

lemma entry_touch: "score_maps_ok d \<Longrightarrow> entry s r (touch s' r' d) = entry s r d"
  by (simp add: touch_def entry_set)

lemma score_maps_ok_touch: "score_maps_ok d \<Longrightarrow> score_maps_ok (touch s r d)"
  by (simp add: touch_def score_maps_ok_set)

section \<open>Selection\<close>

definition plain_groups :: "eval_egroup \<Rightarrow> eval_egroup" where
  "plain_groups g = g\<lparr>needs := 0\<rparr>"

text \<open>What a selection of \<open>n\<close> units leaves: the first \<open>i\<close> groups give all they have, the
  last of them what is still missing; the others are as they were.\<close>

definition selects :: "int \<Rightarrow> eval_egroup list \<Rightarrow> eval_egroup list \<Rightarrow> nat \<Rightarrow> bool" where
  "selects n gs gs' i \<longleftrightarrow>
     i \<le> length gs \<and> map plain_groups gs' = map plain_groups gs \<and> drop i gs' = drop i gs \<and>
     sum_list (map needs (take i gs')) = n \<and>
     (\<forall>g\<in>set (take i gs'). needs g \<le> eg_count g \<and> 0 \<le> needs g) \<and>
     (\<forall>j. Suc j < i \<longrightarrow> needs (gs' ! j) = eg_count (gs' ! j)) \<and> (n > 0 \<longrightarrow> 0 < i) \<and>
     total_of (take (i - 1) gs) < n + (if n = 0 then 1 else 0)"

lemma i32_id: "- (2 ^ 31) \<le> x \<Longrightarrow> x < 2 ^ 31 \<Longrightarrow> i32 x = x"
  by (simp add: i32_def)

lemma plain_simps [simp]: "eg_count (plain_groups g) = eg_count g" "score (plain_groups g) = score g" "plain_groups (plain_groups g) = plain_groups g"
  "plain_groups (g\<lparr>needs := n\<rparr>) = plain_groups g"
  by (simp_all add: plain_groups_def)

lemma select_loop_zero: "n \<le> 0 \<Longrightarrow> select_loop n gs = Some (gs, 0)"
  by (cases gs) auto

lemma select_loop_ok:
  assumes "\<forall>g\<in>set gs. 0 \<le> eg_count g \<and> eg_count g < 2 ^ 31" and "0 \<le> n" and "n < 2 ^ 31" and "n \<le> total_of gs"
  shows "\<exists>gs' i. select_loop n gs = Some (gs', i) \<and> selects n gs gs' i"
  using assms
proof (induction gs arbitrary: n)
  case Nil
  then show ?case by (simp add: selects_def)
next
  case (Cons g gs)
  have c: "0 \<le> eg_count g" "eg_count g < 2 ^ 31" "n < 2 ^ 31" using Cons.prems by auto
  then have i32: "i32 (eg_count g) = eg_count g" "i32 (n - eg_count g) = n - eg_count g"
    using Cons.prems(2) by (auto intro!: i32_id)
  consider "n = 0" | "n > 0" "n \<le> eg_count g" | "n > 0" "n > eg_count g" using Cons.prems(2) by linarith
  then show ?case
  proof cases
    case 1
    then show ?thesis by (simp add: selects_def)
  next
    case 2
    then show ?thesis using i32 select_loop_zero [of "n - eg_count g" gs] by (simp add: selects_def)
  next
    case 3
    obtain gs' i where *: "select_loop (n - eg_count g) gs = Some (gs', i)" "selects (n - eg_count g) gs gs' i"
      using Cons.IH [of "n - eg_count g"] Cons.prems 3 c by auto
    then have "0 < i" using 3 by (simp add: selects_def)
    then have "selects n (g # gs) (g\<lparr>needs := eg_count g\<rparr> # gs') (Suc i)"
      using *(2) 3 c by (auto simp: selects_def nth_Cons' take_Cons')
    then show ?thesis using * 3 i32 by simp
  qed
qed

section \<open>The orders\<close>

text \<open>What \<^verbatim>\<open>std::sort\<close> documents of a strict weak order.\<close>

definition strict_weak :: "compare_op \<Rightarrow> bool" where
  "strict_weak cmp \<longleftrightarrow> (\<forall>a b. cmp a b \<longrightarrow> \<not> cmp b a) \<and> (\<forall>a b c. \<not> cmp a b \<longrightarrow> \<not> cmp b c \<longrightarrow> \<not> cmp a c)"

definition sorts :: "sort_fun \<Rightarrow> bool" where
  "sorts srt \<longleftrightarrow>
     (\<forall>cmp gs. strict_weak cmp \<longrightarrow> mset (srt cmp gs) = mset gs \<and> sorted_wrt (\<lambda>a b. \<not> cmp b a) (srt cmp gs))"

text \<open>A sort that keeps this contract.\<close>

fun ins_by :: "compare_op \<Rightarrow> eval_egroup \<Rightarrow> eval_egroup list \<Rightarrow> eval_egroup list" where
  "ins_by cmp g [] = [g]"
| "ins_by cmp g (h # hs) = (if cmp h g then h # ins_by cmp g hs else g # h # hs)"

definition sort_by :: sort_fun where
  "sort_by cmp gs = foldr (ins_by cmp) gs []"

lemma mset_ins_by: "mset (ins_by cmp g hs) = add_mset g (mset hs)"
  by (induction hs) auto

lemma sorted_ins_by:
  assumes "strict_weak cmp" and "sorted_wrt (\<lambda>a b. \<not> cmp b a) hs"
  shows "sorted_wrt (\<lambda>a b. \<not> cmp b a) (ins_by cmp g hs)"
  using assms(2)
proof (induction hs)
  case (Cons h hs)
  have set: "set (ins_by cmp g hs) = insert g (set hs)" using mset_ins_by [of cmp g hs] by (metis set_mset_add_mset_insert set_mset_mset)
  have asym: "cmp h g \<Longrightarrow> \<not> cmp g h" and weak: "\<not> cmp x h \<Longrightarrow> \<not> cmp h g \<Longrightarrow> \<not> cmp x g" for x
    using assms(1) unfolding strict_weak_def by blast+
  show ?case
  proof (cases "cmp h g")
    case True
    then show ?thesis using Cons asym by (simp add: set)
  next
    case False
    then show ?thesis using Cons.prems weak by simp
  qed
qed simp

lemma sorts_sort_by: "sorts sort_by"
proof -
  have "mset (sort_by cmp gs) = mset gs" for cmp gs
    unfolding sort_by_def by (induction gs) (simp_all add: mset_ins_by)
  moreover have "strict_weak cmp \<Longrightarrow> sorted_wrt (\<lambda>a b. \<not> cmp b a) (sort_by cmp gs)" for cmp gs
    unfolding sort_by_def by (induction gs) (simp_all add: sorted_ins_by)
  ultimately show ?thesis unfolding sorts_def by blast
qed

locale fold_order =
  fixes cmp :: compare_op
  assumes asym: "cmp a b \<Longrightarrow> \<not> cmp b a"
    and weak: "\<not> cmp a b \<Longrightarrow> \<not> cmp b c \<Longrightarrow> \<not> cmp a c"
    and keeps: "cmp (plain_groups a) (plain_groups b) = cmp a b"
begin

lemma strict: "strict_weak cmp"
  unfolding strict_weak_def using asym weak by blast

lemma no_better_left:
  assumes "sorts srt" and "map plain_groups gs' = map plain_groups (srt cmp gs)" and "h < i" and "i \<le> j" and "j < length gs'"
  shows "\<not> cmp (gs' ! j) (gs' ! h)"
proof -
  let ?s = "srt cmp gs"
  have len: "length gs' = length ?s" using assms(2) by (metis length_map)
  have "sorted_wrt (\<lambda>a b. \<not> cmp b a) ?s" using assms(1) strict by (simp add: sorts_def)
  then have "\<not> cmp (?s ! j) (?s ! h)" using assms(3-5) len by (simp add: sorted_wrt_iff_nth_less)
  moreover have "plain_groups (gs' ! x) = plain_groups (?s ! x)" if "x < length gs'" for x
    using assms(2) that len by (metis nth_map)
  ultimately show ?thesis using assms(3-5) keeps [of "gs' ! j" "gs' ! h"] keeps [of "?s ! j" "?s ! h"] by simp
qed

lemma choose_small:
  assumes "evals_ok e" and "sorts srt" and "0 < k" and "k \<le> m_qual_count e" and "k < 2 ^ 31"
  obtains gs' i where "choose_best_k srt cmp k e
      = Some (Inr (i32 (m_best_k e)), e\<lparr>m_eval_egroups := gs', m_best_k := k, m_best_i := u32 (int i)\<rparr>)"
    and "selects k (srt cmp (m_eval_egroups e)) gs' i"
proof -
  let ?s = "srt cmp (m_eval_egroups e)"
  have ms: "mset ?s = mset (m_eval_egroups e)" using assms(2) strict by (simp add: sorts_def)
  then have "set ?s = set (m_eval_egroups e)" "total_of ?s = total_of (m_eval_egroups e)"
    by (rule mset_eq_setD, rule total_mset)
  then obtain gs' i where "select_loop k ?s = Some (gs', i)" "selects k ?s gs' i"
    using select_loop_ok [of ?s k] assms evals_okD [OF assms(1)] by auto
  then show thesis using assms(3-5) i32_id [of k] by (intro that) (auto simp: choose_best_k_def)
qed

lemma plain_ok:
  assumes "evals_ok e" and "sorts srt" and "map plain_groups gs' = map plain_groups (srt cmp (m_eval_egroups e))" and "i \<le> length gs'"
  shows "evals_ok (e\<lparr>m_eval_egroups := gs', m_best_k := k, m_best_i := u32 (int i)\<rparr>)"
proof -
  let ?s = "srt cmp (m_eval_egroups e)"
  have ms: "mset ?s = mset (m_eval_egroups e)" using assms(2) strict by (simp add: sorts_def)
  have "total_of (qual_groups c xs) = total_of (qual_groups c (map plain_groups xs))" for c xs
    by (induction xs) auto
  then have q: "total_of (qual_groups c gs') = total_of (qual_groups c (m_eval_egroups e))" for c
    using assms(3) total_mset [OF qual_groups_mset [OF ms]] by metis
  have "eg_count ` set xs = eg_count ` plain_groups ` set xs" for xs by (simp add: image_image)
  then have "eg_count ` set gs' = eg_count ` set (m_eval_egroups e)"
    using assms(3) mset_eq_setD [OF ms] by (metis set_map)
  then have c: "\<forall>g\<in>set gs'. \<exists>h\<in>set (m_eval_egroups e). eg_count g = eg_count h" by force
  have "0 \<le> eg_count g \<and> eg_count g < 2 ^ 31" if "g \<in> set gs'" for g
    using c that evals_okD(1,2) [OF assms(1)] by metis
  moreover have "u32 (int i) \<le> int i" by (simp add: u32_le)
  ultimately show ?thesis using assms(1,4) q by (simp add: evals_ok_def)
qed

text \<open>The choice is defined for every request.\<close>

lemma choose_defined:
  assumes "evals_ok e" and "sorts srt" and "0 \<le> k" and "k < 2 ^ 32"
  shows "\<exists>r e'. choose_best_k srt cmp k e = Some (r, e') \<and> evals_ok e' \<and> m_qual_count e' = m_qual_count e"
proof (cases "k = 0 \<or> k > m_qual_count e")
  case True
  then show ?thesis using assms(1) by (simp add: choose_best_k_def)
next
  case False
  let ?s = "srt cmp (m_eval_egroups e)"
  show ?thesis
  proof (cases "k < 2 ^ 31")
    case True
    with False assms obtain gs' i where *: "choose_best_k srt cmp k e
        = Some (Inr (i32 (m_best_k e)), e\<lparr>m_eval_egroups := gs', m_best_k := k, m_best_i := u32 (int i)\<rparr>)" "selects k ?s gs' i"
      by (metis choose_small linorder_not_less order_le_less)
    moreover have "map plain_groups gs' = map plain_groups ?s" "i \<le> length gs'"
      using *(2) by (auto simp: selects_def dest: map_eq_imp_length_eq)
    ultimately show ?thesis using plain_ok [OF assms(1,2)] by auto
  next
    case big: False
    have "i32 k = k - 2 ^ 32"
    proof -
      have "(k + 2 ^ 31) mod 2 ^ 32 = (k + 2 ^ 31 - 2 ^ 32) mod 2 ^ 32"
        using minus_mod_self2 [of "k + 2 ^ 31" "2 ^ 32"] by simp
      also have "\<dots> = k + 2 ^ 31 - 2 ^ 32" using big assms(4) by (intro mod_pos_pos_trivial) auto
      finally show ?thesis by (simp add: i32_def)
    qed
    then have "choose_best_k srt cmp k e = Some (Inr (i32 (m_best_k e)), e\<lparr>m_eval_egroups := ?s, m_best_k := k, m_best_i := u32 (int 0)\<rparr>)"
      using False assms(4) select_loop_zero [of "i32 k" ?s] by (simp add: choose_best_k_def)
    then show ?thesis using plain_ok [OF assms(1,2), of ?s 0] by auto
  qed
qed

lemma choose_best:
  assumes "evals_ok e" and "sorts srt" and "0 < k" and "k \<le> m_qual_count e" and "k < 2 ^ 31"
    and "length (m_eval_egroups e) < 2 ^ 32"
  obtains e' chosen rest where
    "choose_best_k srt cmp k e = Some (Inr (i32 (m_best_k e)), e')" and "evals_ok e'" and "m_best_k e' = k"
    and "m_cutline e' = m_cutline e" and "m_qual_count e' = m_qual_count e"
    and "m_eval_egroups e' = chosen @ rest" and "length chosen = nat (m_best_i e')"
    and "mset (map plain_groups (chosen @ rest)) = mset (map plain_groups (m_eval_egroups e))"
    and "sum_list (map needs chosen) = k" and "\<forall>g\<in>set chosen. 0 \<le> needs g \<and> needs g \<le> eg_count g"
    and "\<forall>g\<in>set chosen. \<forall>h\<in>set rest. \<not> cmp h g" and "chosen \<noteq> []" and "total_of (butlast chosen) < k"
    and "sorted_wrt (\<lambda>a b. \<not> cmp b a) (chosen @ rest)"
proof -
  let ?s = "srt cmp (m_eval_egroups e)"
  obtain gs i where c: "choose_best_k srt cmp k e
        = Some (Inr (i32 (m_best_k e)), e\<lparr>m_eval_egroups := gs, m_best_k := k, m_best_i := u32 (int i)\<rparr>)"
    and sel: "selects k ?s gs i"
    using choose_small [OF assms(1-5)] by metis
  let ?e = "e\<lparr>m_eval_egroups := gs, m_best_k := k, m_best_i := u32 (int i)\<rparr>"
  have srt: "mset ?s = mset (m_eval_egroups e)" "sorted_wrt (\<lambda>a b. \<not> cmp b a) ?s"
    using assms(2) strict by (simp_all add: sorts_def)
  have pl: "map plain_groups gs = map plain_groups ?s" and i: "i \<le> length gs" "0 < i"
    and sums: "sum_list (map needs (take i gs)) = k"
      "\<forall>g\<in>set (take i gs). needs g \<le> eg_count g \<and> 0 \<le> needs g" "total_of (take (i - 1) ?s) < k"
    using sel assms(3) by (auto simp: selects_def dest: map_eq_imp_length_eq)
  have len: "length gs = length (m_eval_egroups e)" using pl srt(1) by (metis length_map size_mset)
  then have bi: "nat (m_best_i ?e) = i" using i(1) assms(6) by simp
  have ms: "mset (map plain_groups gs) = mset (map plain_groups (m_eval_egroups e))" using pl srt(1) by (metis mset_map)
  have "sorted_wrt (\<lambda>a b. \<not> cmp b a) (map plain_groups ?s)" using srt(2) by (simp add: sorted_wrt_map keeps)
  then have sorted: "sorted_wrt (\<lambda>a b. \<not> cmp b a) (take i gs @ drop i gs)"
    unfolding pl [symmetric] by (simp add: sorted_wrt_map keeps)
  have "total_of xs = total_of (map plain_groups xs)" for xs by (simp add: total_of_def comp_def)
  then have "total_of (take (i - 1) gs) = total_of (take (i - 1) ?s)" using pl by (metis take_map)
  then have "total_of (butlast (take i gs)) < k" using sums(3) i(1) by (simp add: butlast_take)
  moreover have "\<forall>g\<in>set (take i gs). \<forall>h\<in>set (drop i gs). \<not> cmp h g"
    using sorted unfolding sorted_wrt_append by blast
  ultimately show thesis
    using c ms i sums(1,2) sorted bi plain_ok [OF assms(1,2) pl i(1), of k]
    by (intro that [of ?e "take i gs" "drop i gs"]) auto
qed

end

interpretation greater: fold_order fold_greater
  by unfold_locales (auto simp: fold_greater_def)

interpretation less: fold_order fold_less
  by unfold_locales (auto simp: fold_less_def)

interpretation interval_greater: fold_order "fold_interval_greater iv" for iv
  by unfold_locales (auto simp: fold_interval_greater_def)

interpretation interval_less: fold_order "fold_interval_less iv" for iv
  by unfold_locales (auto simp: fold_interval_less_def)

section \<open>Which candidates are chosen\<close>

text \<open>The best come first in the order of decreasing scores, and the qualified ones hold at
  least \<open>k\<close> units: none of the chosen is unqualified.\<close>

lemma qualified_prefix:
  assumes "sorted_wrt (\<lambda>a b. score b \<le> score a) gs" and "\<forall>g\<in>set gs. 0 \<le> eg_count g"
    and "total_of (take j gs) < total_of (qual_groups c gs)" and "j < length gs"
  shows "score (gs ! j) > c"
proof (rule ccontr)
  assume "\<not> score (gs ! j) > c"
  then have low: "\<not> score (gs ! (j + i)) > c" if "j + i < length gs" for i
    using sorted_wrt_nth_less [OF assms(1), of j "j + i"] that by (cases i) auto
  have "\<forall>g\<in>set (drop j gs). \<not> score g > c"
    using low by (auto simp: in_set_conv_nth simp del: not_less)
  then have "qual_groups c (drop j gs) = []" by (simp add: qual_groups_def filter_empty_conv)
  then have "qual_groups c gs = qual_groups c (take j gs)"
    by (metis append_Nil2 append_take_drop_id qual_groups_simps(2))
  then show False using assms(2,3) qual_groups_le [of "take j gs" c] by (auto dest: in_set_takeD)
qed

lemma chosen_qualified:
  assumes "sorted_wrt (\<lambda>a b. \<not> fold_greater b a) (chosen @ rest)" and "\<forall>g\<in>set (chosen @ rest). 0 \<le> eg_count g"
    and "total_of (butlast chosen) < k" and "k \<le> total_of (qual_groups c (chosen @ rest))" and "g \<in> set chosen"
  shows "score g > c"
proof -
  have ne: "chosen \<noteq> []" using assms(5) by auto
  have srt: "sorted_wrt (\<lambda>a b. score b \<le> score a) (chosen @ rest)" using assms(1) by (simp add: fold_greater_def not_less)
  let ?j = "length chosen - 1"
  have "score ((chosen @ rest) ! ?j) > c"
    by (rule qualified_prefix [OF srt assms(2)]) (use assms(3,4) ne in \<open>auto simp: butlast_conv_take intro: trans_less_add1\<close>)
  moreover obtain i where "i < length chosen" "g = chosen ! i" using assms(5) by (auto simp: in_set_conv_nth)
  moreover from this have "score ((chosen @ rest) ! ?j) \<le> score g"
    using sorted_wrt_nth_less [OF srt, of i ?j] by (cases "i = ?j") (auto simp: nth_append)
  ultimately show ?thesis by simp
qed

end
