(* ===== verification/Matcher_Correct.thy ===== *)
theory Matcher_Correct
  imports Matcher
begin

text \<open>
  How many resources a request gets: the greatest count of its progression that fits, when
  the arithmetic does not wrap around; and when it does, the search need not end. The
  pruning filters: a type is registered for all anchors or for single ones, never for both.
\<close>

section \<open>Names of operations\<close>

lemma match_op_roundtrip: "match_op_to_string m = Inr s \<longleftrightarrow> match_op_from_string (Some s) = m \<and> m \<noteq> MATCH_UNKNOWN"
proof
  assume "match_op_to_string m = Inr s"
  then show "match_op_from_string (Some s) = m \<and> m \<noteq> MATCH_UNKNOWN"
    by (cases m) (auto simp: match_op_to_string_def match_op_from_string_def opt_map_def)
next
  assume "match_op_from_string (Some s) = m \<and> m \<noteq> MATCH_UNKNOWN"
  then show "match_op_to_string m = Inr s"
    by (auto simp: match_op_to_string_def match_op_from_string_def opt_map_def split: if_splits)
qed

section \<open>The progression of counts\<close>

definition next_count :: "res_count \<Rightarrow> int \<Rightarrow> int" where
  "next_count c x =
     (if count_oper c = CHR ''+'' then x + count_operand c
      else if count_oper c = CHR ''*'' then x * count_operand c else x ^ nat (count_operand c))"

definition count_at :: "res_count \<Rightarrow> nat \<Rightarrow> int" where
  "count_at c k = (next_count c ^^ k) (count_min c)"

text \<open>What the parser of jobspecs lets through.\<close>

definition valid_count :: "res_count \<Rightarrow> bool" where
  "valid_count c \<longleftrightarrow> 1 \<le> count_min c \<and> count_min c \<le> count_max c \<and> count_max c < 2 ^ 32 \<and> count_operand c < 2 ^ 31
     \<and> (count_oper c = CHR ''+'' \<and> 1 \<le> count_operand c
        \<or> count_oper c = CHR ''*'' \<and> 2 \<le> count_operand c
        \<or> count_oper c = CHR ''^'' \<and> 2 \<le> count_operand c \<and> 2 \<le> count_min c)"

lemma next_count_greater:
  assumes "valid_count c" and "count_min c \<le> x"
  shows "x < next_count c x"
proof -
  have x: "1 \<le> x" using assms by (simp add: valid_count_def)
  consider "count_oper c = CHR ''+''" "1 \<le> count_operand c" | "count_oper c = CHR ''*''" "2 \<le> count_operand c"
    | "count_oper c = CHR ''^''" "2 \<le> count_operand c" "2 \<le> x"
    using assms by (auto simp: valid_count_def)
  then show ?thesis
  proof cases
    case 2
    have "x * 2 \<le> x * count_operand c" using 2 x by (intro mult_left_mono) auto
    then show ?thesis using 2 x by (simp add: next_count_def)
  next
    case 3
    have "x ^ 1 < x ^ nat (count_operand c)" using 3 by (intro power_strict_increasing) auto
    then show ?thesis using 3 by (simp add: next_count_def)
  qed (simp add: next_count_def)
qed

lemma count_at_simps [simp]: "count_at c 0 = count_min c" "count_at c (Suc k) = next_count c (count_at c k)"
  by (simp_all add: count_at_def)

lemma count_at_ge: "valid_count c \<Longrightarrow> count_min c \<le> count_at c k"
proof (induction k)
  case (Suc k)
  then show ?case using next_count_greater [of c "count_at c k"] by simp
qed simp

lemma count_at_less: "valid_count c \<Longrightarrow> count_at c j < count_at c k \<longleftrightarrow> j < k"
proof -
  assume v: "valid_count c"
  have "count_at c n < count_at c (Suc n)" for n using next_count_greater [OF v count_at_ge [OF v]] by simp
  then have "strict_mono (count_at c)" by (simp add: strict_mono_Suc_iff)
  then show ?thesis by (simp add: strict_mono_less)
qed

lemma count_at_greatest:
  assumes "valid_count c" and "lim < count_at c (Suc k)" and "count_at c j \<le> lim"
  shows "count_at c j \<le> count_at c k"
proof -
  have "count_at c j < count_at c (Suc k)" using assms(2,3) by simp
  then have "j \<le> k" using count_at_less [OF assms(1), of j "Suc k"] by simp
  then show ?thesis using count_at_less [OF assms(1), of k j] by (simp add: linorder_not_less [symmetric])
qed

text \<open>A loop that climbs the progression stops at the greatest count within the limits.\<close>

lemma climb:
  fixes f :: "int \<Rightarrow> int \<Rightarrow> int option"
  assumes "\<And>cnt cur. f cnt cur = (if cur \<le> qc \<and> cur \<le> mx then f cur (g cur) else Some cnt)"
    and "\<And>j. count_at c j \<le> qc \<Longrightarrow> count_at c j \<le> mx \<Longrightarrow> g (count_at c j) = count_at c (Suc j)"
    and "valid_count c" and "count_at c i \<le> qc" "count_at c i \<le> mx"
  shows "\<exists>k. f cnt (count_at c i) = Some (count_at c k) \<and> count_at c k \<le> qc \<and> count_at c k \<le> mx
    \<and> \<not> (count_at c (Suc k) \<le> qc \<and> count_at c (Suc k) \<le> mx)"
  using assms(4,5)
proof (induction "nat (qc - count_at c i)" arbitrary: i cnt rule: less_induct)
  case less
  have step: "f cnt (count_at c i) = f (count_at c i) (count_at c (Suc i))"
    using assms(1) [of cnt "count_at c i"] assms(2) less.prems by simp
  show ?case
  proof (cases "count_at c (Suc i) \<le> qc \<and> count_at c (Suc i) \<le> mx")
    case True
    have "count_at c i < count_at c (Suc i)" using count_at_less [OF assms(3)] by blast
    with less.hyps [of "Suc i"] True step show ?thesis by simp
  next
    case False
    then have "f (count_at c i) (count_at c (Suc i)) = Some (count_at c i)"
      unfolding assms(1) [of "count_at c i" "count_at c (Suc i)"] by (rule if_not_P)
    then show ?thesis using step less.prems False by auto
  qed
qed

lemma u32_small: "0 \<le> x \<Longrightarrow> x < 2 ^ 32 \<Longrightarrow> u32 x = x"
  by (simp add: u32_def)

lemma pow_times_eq: "0 \<le> base \<Longrightarrow> 0 \<le> cur \<Longrightarrow> cur * base ^ n < 2 ^ 32 \<Longrightarrow> 1 \<le> base \<Longrightarrow> pow_times n base cur = cur * base ^ n"
proof (induction n arbitrary: cur)
  case (Suc n)
  have "cur * base \<le> cur * base ^ Suc n"
    using Suc.prems by (simp add: mult_left_mono mult_le_cancel_left1)
  then have "u32 (cur * base) = cur * base" using Suc.prems by (intro u32_small) simp_all
  then show ?case using Suc.IH [of "cur * base"] Suc.prems by (simp add: mult.assoc)
qed simp

definition no_wrap :: "res_count \<Rightarrow> int \<Rightarrow> bool" where
  "no_wrap c qc \<longleftrightarrow> count_oper c = CHR ''+'' \<or> (\<forall>j. count_at c j \<le> qc \<and> count_at c j \<le> count_max c \<longrightarrow> count_at c (Suc j) < 2 ^ 32)"

text \<open>The greatest count of the progression that is neither above the maximum nor above what is
  there.\<close>

definition greatest_count :: "res_count \<Rightarrow> int \<Rightarrow> int \<Rightarrow> bool" where
  "greatest_count c qc n \<longleftrightarrow> (\<exists>k. n = count_at c k) \<and> n \<le> qc \<and> n \<le> count_max c
     \<and> (\<forall>j. count_at c j \<le> qc \<and> count_at c j \<le> count_max c \<longrightarrow> count_at c j \<le> n)"

lemma greatest_countI:
  assumes "valid_count c" and "count_at c k \<le> qc" "count_at c k \<le> count_max c"
    and "\<not> (count_at c (Suc k) \<le> qc \<and> count_at c (Suc k) \<le> count_max c)"
  shows "greatest_count c qc (count_at c k)"
proof -
  have "count_at c j \<le> count_at c k" if "count_at c j \<le> qc \<and> count_at c j \<le> count_max c" for j
    by (rule count_at_greatest [OF assms(1), of "min qc (count_max c)"]) (use assms(4) that in auto)
  then show ?thesis using assms(2,3) by (auto simp: greatest_count_def)
qed

lemma count_at_plus: "count_oper c = CHR ''+'' \<Longrightarrow> count_at c k = count_min c + int k * count_operand c"
  by (induction k) (simp_all add: next_count_def algebra_simps)

lemma calc_plus:
  assumes "valid_count c" and "count_oper c = CHR ''+''" and "count_min c \<le> qc" and "qc < 2 ^ 32"
  shows "\<exists>k. calc_count c qc = Some (count_at c k) \<and> count_at c k \<le> qc \<and> count_at c k \<le> count_max c
    \<and> \<not> (count_at c (Suc k) \<le> qc \<and> count_at c (Suc k) \<le> count_max c)"
proof -
  let ?lim = "if qc < count_max c then qc else count_max c" and ?d = "count_operand c"
  have v: "1 \<le> count_min c" "count_min c \<le> count_max c" "count_max c < 2 ^ 32" "1 \<le> ?d" "?d < 2 ^ 31"
    using assms(1,2) by (simp_all add: valid_count_def)
  let ?r = "?lim - count_min c"
  have r: "0 \<le> ?r" "?r < 2 ^ 32" using v assms(3,4) by (auto split: if_splits)
  define k where "k = nat (?r div ?d)"
  have k: "int k = ?r div ?d" using r(1) v(4) by (simp add: k_def pos_imp_zdiv_nonneg_iff)
  have m: "?r = int k * ?d + ?r mod ?d" unfolding k by simp
  have b: "0 \<le> ?r mod ?d" "?r mod ?d < ?d" using v(4) by simp_all
  have e: "?lim - ?r mod ?d = count_at c k" using m by (simp add: count_at_plus [OF assms(2)])
  have "u32 ?d = ?d" using v by (intro u32_small) auto
  moreover have "u32 ?r = ?r" using r by (intro u32_small) auto
  moreover have "u32 (?lim - ?r mod ?d) = count_at c k"
    unfolding e [symmetric] using e count_at_ge [OF assms(1), of k] v b r by (intro u32_small) (auto split: if_splits)
  ultimately have "calc_count c qc = Some (count_at c k)"
    using assms(2,3) v by (simp add: calc_count_def Let_def)
  moreover have "count_at c k \<le> ?lim" using e b by linarith
  moreover have "count_at c (Suc k) > ?lim" using m b by (simp add: count_at_plus [OF assms(2)] algebra_simps del: count_at_simps)
  ultimately show ?thesis by (intro exI [of _ k]) (auto split: if_splits)
qed

lemma calc_count_greatest_of:
  assumes "valid_count c" and "count_min c \<le> qc" and "qc < 2 ^ 32" and "no_wrap c qc"
  shows "\<exists>n. calc_count c qc = Some n \<and> greatest_count c qc n"
proof -
  have v: "count_min c \<le> count_max c" "count_max c < 2 ^ 32" "1 \<le> count_min c" using assms(1) by (simp_all add: valid_count_def)
  have nw: "count_at c (Suc j) < 2 ^ 32" if "count_at c j \<le> qc" "count_at c j \<le> count_max c" "count_oper c \<noteq> CHR ''+''" for j
    using assms(4) that by (auto simp: no_wrap_def)
  have pos: "0 \<le> count_at c j" for j using count_at_ge [OF assms(1), of j] v by simp
  have "\<exists>k. calc_count c qc = Some (count_at c k) \<and> count_at c k \<le> qc \<and> count_at c k \<le> count_max c
    \<and> \<not> (count_at c (Suc k) \<le> qc \<and> count_at c (Suc k) \<le> count_max c)"
  proof -
    consider (plus) "count_oper c = CHR ''+''" | (mult) "count_oper c = CHR ''*''" "2 \<le> count_operand c" "count_operand c < 2 ^ 31"
      | (pow) "count_oper c = CHR ''^''" "2 \<le> count_operand c" "2 \<le> count_min c"
      using assms(1) by (auto simp: valid_count_def)
    then show ?thesis
    proof cases
      case plus
      then show ?thesis using calc_plus assms by blast
    next
      case mult
      have u: "u32 (count_operand c) = count_operand c" using mult by (intro u32_small) auto
      have "u32 (count_at c j * u32 (count_operand c)) = count_at c (Suc j)" if "count_at c j \<le> qc" "count_at c j \<le> count_max c" for j
      proof -
        have "count_at c (Suc j) = count_at c j * count_operand c" using mult by (simp add: next_count_def)
        moreover have "u32 (count_at c (Suc j)) = count_at c (Suc j)" using nw [OF that] mult pos [of "Suc j"] by (intro u32_small) simp_all
        ultimately show ?thesis using u by simp
      qed
      from climb [where f = "mult_loop qc (count_max c) (count_operand c)" and i = 0 and cnt = 0, OF mult_loop.simps this assms(1)]
      show ?thesis using mult assms(2) v by (simp add: calc_count_def)
    next
      case pow
      have "pow_times (nat (count_operand c - 1)) (count_at c j) (count_at c j) = count_at c (Suc j)"
        if "count_at c j \<le> qc" "count_at c j \<le> count_max c" for j
      proof -
        have n: "nat (count_operand c) = Suc (nat (count_operand c - 1))" using pow by simp
        have "count_at c (Suc j) = count_at c j * count_at c j ^ nat (count_operand c - 1)"
          using pow n by (simp add: next_count_def)
        moreover have "count_at c j * count_at c j ^ nat (count_operand c - 1) < 2 ^ 32"
          using nw [OF that] pow calculation by simp
        ultimately show ?thesis using pos count_at_ge [OF assms(1), of j] v by (simp add: pow_times_eq)
      qed
      from climb [where f = "pow_loop qc (count_max c) (count_operand c)" and i = 0 and cnt = 0, OF pow_loop.simps this assms(1)]
      show ?thesis using pow assms(2) v by (simp add: calc_count_def)
    qed
  qed
  then show ?thesis using greatest_countI [OF assms(1)] by blast
qed

text \<open>Requests whose counts can be computed whatever is there.\<close>

definition countable :: "res_count \<Rightarrow> bool" where
  "countable c \<longleftrightarrow> valid_count c \<and> no_wrap c (2 ^ 32 - 1)"

lemma countable_plus: "valid_count c \<Longrightarrow> count_oper c = CHR ''+'' \<Longrightarrow> countable c"
  by (simp add: countable_def no_wrap_def)

lemma no_wrap_mono: "no_wrap c lim \<Longrightarrow> qc \<le> lim \<Longrightarrow> no_wrap c qc"
  unfolding no_wrap_def by (meson order_trans)

lemma calc_count_defined:
  assumes "countable c" and "0 \<le> qc" and "qc < 2 ^ 32"
  shows "\<exists>n. calc_count c qc = Some n \<and> 0 \<le> n \<and> n \<le> qc \<and> (n = 0 \<longleftrightarrow> qc < count_min c)
           \<and> (n \<noteq> 0 \<longrightarrow> greatest_count c qc n)"
proof -
  have v: "valid_count c" "1 \<le> count_min c" using assms(1) by (simp_all add: countable_def valid_count_def)
  show ?thesis
  proof (cases "count_min c \<le> qc")
    case True
    have "no_wrap c qc" using assms by (auto simp: countable_def intro: no_wrap_mono)
    then obtain n where n: "calc_count c qc = Some n" "greatest_count c qc n"
      using calc_count_greatest_of [OF v(1) True assms(3)] by blast
    then have "count_min c \<le> n" "n \<le> qc" using count_at_ge [OF v(1)] by (auto simp: greatest_count_def)
    then show ?thesis using n True v(2) by auto
  next
    case False
    then show ?thesis using assms(2) by (simp add: calc_count_def)
  qed
qed

lemma effective_max_defined: "countable c \<Longrightarrow> \<exists>n. calc_effective_max c = Some n \<and> 0 \<le> n \<and> n < 2 ^ 32"
  using calc_count_defined [of c "2 ^ 32 - 1"] unfolding calc_effective_max_def by fastforce

section \<open>When the arithmetic wraps\<close>

lemma mult_loop_diverges:
  assumes "mult_loop qc mx operand cnt cur = Some n" and "qc = 2 ^ 32 - 1" "mx = 2 ^ 32 - 1" and "cur < 2 ^ 32"
  shows False
proof -
  have "qc = 2 ^ 32 - 1 \<and> mx = 2 ^ 32 - 1 \<and> cur < 2 ^ 32 \<longrightarrow> False"
  proof (rule mult_loop.raw_induct [OF _ assms(1)])
    fix f qc mx operand cnt cur n
    assume IH: "\<And>qc mx operand cnt cur n. f qc mx operand cnt cur = Some n \<Longrightarrow> qc = 2 ^ 32 - 1 \<and> mx = 2 ^ 32 - 1 \<and> cur < 2 ^ 32 \<longrightarrow> False"
      and e: "(if cur \<le> qc \<and> cur \<le> mx then f qc mx operand cur (u32 (cur * u32 operand)) else Some cnt) = Some n"
    have "u32 (cur * u32 operand) < 2 ^ 32" by (simp add: u32_def)
    then show "qc = 2 ^ 32 - 1 \<and> mx = 2 ^ 32 - 1 \<and> cur < 2 ^ 32 \<longrightarrow> False" using e IH by (auto split: if_splits)
  qed
  then show False using assms(2-) by blast
qed

lemma effective_max_diverges:
  assumes "valid_count c" and "count_oper c = CHR ''*''" and "count_max c = 2 ^ 32 - 1"
  shows "calc_effective_max c = None"
proof -
  have "calc_effective_max c = mult_loop (2 ^ 32 - 1) (2 ^ 32 - 1) (count_operand c) 0 (count_min c)"
    using assms by (auto simp: calc_effective_max_def calc_count_def valid_count_def)
  moreover have "count_min c < 2 ^ 32" using assms by (simp add: valid_count_def)
  ultimately show ?thesis using mult_loop_diverges by (metis option.exhaust)
qed

section \<open>Pruning filters\<close>

definition registered :: "(string, type_set) omap \<Rightarrow> string \<Rightarrow> string \<Rightarrow> bool" where
  "registered s a p \<longleftrightarrow> has_type p (om_get [] a s)"

definition sets_ok :: "(string, type_set) omap \<Rightarrow> bool" where
  "sets_ok s \<longleftrightarrow> om_ok s \<and> (\<forall>a. om_ok (om_get [] a s))"

lemma add_at_ok:
  assumes "sets_ok s"
  shows "sets_ok (add_at a p s)" and "registered (add_at a p s) b q \<longleftrightarrow> b = a \<and> q = p \<or> registered s b q"
  using assms by (auto simp: sets_ok_def add_at_def registered_def om_get_assign has_type_def om_find_assign)

lemma om_find_map_snd: "om_find a (map (\<lambda>(a, v). (a, f v)) m) = map_option f (om_find a m)"
  by (induction m) (auto simp: om_find_def)

lemma erase_all_ok:
  assumes "sets_ok s"
  shows "sets_ok (map (\<lambda>(a, ps). (a, om_erase p ps)) s)"
    and "registered (map (\<lambda>(a, ps). (a, om_erase p ps)) s) b q \<longleftrightarrow> q \<noteq> p \<and> registered s b q"
proof -
  have g: "om_get [] a (map (\<lambda>(a, ps). (a, om_erase p ps)) s) = om_erase p (om_get [] a s)" for a
    by (simp add: om_get_def om_find_map_snd om_erase_def split: option.split)
  have "om_ok (map (\<lambda>(a, ps). (a, om_erase p ps)) s) = om_ok s" by (simp add: om_ok_def comp_def case_prod_beta)
  then show "sets_ok (map (\<lambda>(a, ps). (a, om_erase p ps)) s)" using assms by (simp add: sets_ok_def g)
  show "registered (map (\<lambda>(a, ps). (a, om_erase p ps)) s) b q \<longleftrightarrow> q \<noteq> p \<and> registered s b q"
    by (simp add: registered_def g has_type_def om_find_erase)
qed

text \<open>What a list of registrations amounts to, in whatever order they come: a type registered
  for all anchors counts there and nowhere else.\<close>

definition wanted :: "(string \<times> string) list \<Rightarrow> string \<Rightarrow> string \<Rightarrow> bool" where
  "wanted rs a p \<longleftrightarrow> (a, p) \<in> set rs \<and> (a = ANY_RESOURCE_TYPE \<or> (ANY_RESOURCE_TYPE, p) \<notin> set rs)"

definition register :: "string \<Rightarrow> (string \<times> string) list \<Rightarrow> matcher_util \<Rightarrow> matcher_util" where
  "register sub rs u = fold (\<lambda>(a, p). set_pruning_type sub a p) rs u"

definition new_matcher_util :: matcher_util where
  "new_matcher_util = \<lparr>m_x_resource_types = [], m_pruning_types = [], m_total_set = []\<rparr>"

definition prune_inv :: "string \<Rightarrow> (string \<times> string) list \<Rightarrow> matcher_util \<Rightarrow> bool" where
  "prune_inv sub rs u \<longleftrightarrow> om_ok (m_pruning_types u) \<and> sets_ok (om_get [] sub (m_pruning_types u)) \<and> sets_ok (m_total_set u)
     \<and> (\<forall>a p. registered (om_get [] sub (m_pruning_types u)) a p \<longleftrightarrow> wanted rs a p)
     \<and> (\<forall>p. registered (m_total_set u) sub p \<longleftrightarrow> p \<in> snd ` set rs)
     \<and> (rs \<noteq> [] \<longrightarrow> om_find sub (m_pruning_types u) \<noteq> None)"

lemma set_pruning_type_inv:
  assumes "prune_inv sub rs u"
  shows "prune_inv sub (rs @ [(a, p)]) (set_pruning_type sub a p u)"
proof -
  let ?s = "om_get [] sub (m_pruning_types u)" and ?u = "set_pruning_type sub a p u"
  have i: "om_ok (m_pruning_types u)" "sets_ok ?s" "sets_ok (m_total_set u)" "\<And>b q. registered ?s b q \<longleftrightarrow> wanted rs b q"
    "\<And>q. registered (m_total_set u) sub q \<longleftrightarrow> q \<in> snd ` set rs"
    using assms by (auto simp: prune_inv_def)
  define t where "t = (if a = ANY_RESOURCE_TYPE then
                 add_at a p (map (\<lambda>(a, ps). (a, om_erase p ps)) ?s)
               else
                 (case om_find ANY_RESOURCE_TYPE ?s of
                    None \<Rightarrow> add_at a p ?s
                  | Some ps \<Rightarrow> (if has_type p ps then ?s else add_at a p ?s)))"
  have u: "m_pruning_types ?u = om_assign sub t (m_pruning_types u)" "m_total_set ?u = add_at sub p (m_total_set u)"
    by (simp_all add: set_pruning_type_def Let_def t_def)
  have any: "a \<noteq> ANY_RESOURCE_TYPE \<Longrightarrow> t = (if registered ?s ANY_RESOURCE_TYPE p then ?s else add_at a p ?s)"
    by (simp add: t_def registered_def om_get_def has_type_def split: option.split)
  have t: "sets_ok t \<and> (\<forall>b q. registered t b q \<longleftrightarrow> wanted (rs @ [(a, p)]) b q)"
  proof (cases "a = ANY_RESOURCE_TYPE")
    case True
    then show ?thesis
      using erase_all_ok [OF i(2)] add_at_ok [OF erase_all_ok(1) [OF i(2)]] i(4)
      by (auto simp: t_def wanted_def)
  next
    case False
    then show ?thesis using any add_at_ok [OF i(2)] i(2,4) by (auto simp: wanted_def)
  qed
  have "om_get [] sub (m_pruning_types ?u) = t" using i(1) u(1) by (simp add: om_get_assign)
  moreover have "om_find sub (m_pruning_types ?u) \<noteq> None" using i(1) u(1) by (simp add: om_find_assign)
  ultimately show ?thesis
    using t i(1) add_at_ok [OF i(3)] i(5) u by (auto simp: prune_inv_def)
qed

lemma register_inv: "prune_inv sub rs (register sub rs new_matcher_util)"
proof (induction rs rule: rev_induct)
  case Nil
  show ?case by (simp add: prune_inv_def register_def new_matcher_util_def sets_ok_def om_get_def registered_def has_type_def wanted_def)
next
  case (snoc x xs)
  obtain a p where x: "x = (a, p)" by (cases x)
  have "register sub (xs @ [x]) new_matcher_util = set_pruning_type sub a p (register sub xs new_matcher_util)"
    by (simp add: register_def x)
  then show ?case using set_pruning_type_inv [OF snoc.IH] x by simp
qed

lemma has_type_set: "has_type p m \<longleftrightarrow> p \<in> fst ` set m"
  by (simp add: has_type_def om_find_None_iff)

lemma pruning_filters:
  assumes "rs \<noteq> []" and "a \<noteq> ANY_RESOURCE_TYPE" and "u = register sub rs new_matcher_util"
  obtains ts where "get_my_pruning_types sub a u = (True, ts)" and "distinct ts"
    and "\<And>p. p \<in> set ts \<longleftrightarrow> (if (ANY_RESOURCE_TYPE, p) \<in> set rs then p \<noteq> a else (a, p) \<in> set rs)"
    and "\<And>p. is_pruning_type sub p u \<longleftrightarrow> p \<in> snd ` set rs"
proof -
  let ?s = "om_get [] sub (m_pruning_types u)"
  have inv: "prune_inv sub rs u" using register_inv assms(3) by simp
  then obtain s where s: "om_find sub (m_pruning_types u) = Some s" using assms(1) by (auto simp: prune_inv_def)
  then have s': "?s = s" by (simp add: om_get_def)
  have i: "sets_ok s" "\<And>b q. has_type q (om_get [] b s) \<longleftrightarrow> wanted rs b q" "\<And>p. registered (m_total_set u) sub p \<longleftrightarrow> p \<in> snd ` set rs"
    using inv s' by (auto simp: prune_inv_def registered_def)
  let ?ts = "map fst (om_get [] a s) @ filter (\<lambda>k. k \<noteq> a) (map fst (om_get [] ANY_RESOURCE_TYPE s))"
  have "get_my_pruning_types sub a u = (True, ?ts)"
    using s assms(2) by (simp add: get_my_pruning_types_def om_get_def split: option.split)
  moreover have "distinct (map fst (om_get [] b s))" for b using i(1) om_ok_distinct by (auto simp: sets_ok_def)
  then have "distinct ?ts" using i(2) assms(2) by (auto simp: has_type_set wanted_def)
  moreover have "p \<in> set ?ts \<longleftrightarrow> (if (ANY_RESOURCE_TYPE, p) \<in> set rs then p \<noteq> a else (a, p) \<in> set rs)" for p
    using i(2) assms(2) by (auto simp: has_type_set wanted_def)
  moreover have "is_pruning_type sub p u \<longleftrightarrow> p \<in> snd ` set rs" for p
    unfolding i(3) [symmetric] by (simp add: is_pruning_type_def registered_def om_get_def has_type_def split: option.split)
  ultimately show ?thesis using that by blast
qed

end
