(* ===== verification/Policies_Correct.thy ===== *)
theory Policies_Correct
  imports Match_Policies Evaluators_Correct Matcher_Correct
begin

text \<open>
  What the match policies promise a traversal: a vertex is finished exactly when every request of
  its children can be met, the choice then holds what each request is met_with, and the levels and the
  multilevel scores are what they were when the vertex was discovered.
\<close>

section \<open>Scores\<close>

definition scores_ok :: "scoring \<Rightarrow> bool" where
  "scores_ok d \<longleftrightarrow> score_maps_ok d \<and> (\<forall>s r. evals_ok (entry s r d) \<and> m_qual_count (entry s r d) < 2 ^ 32)"

definition qual :: "string \<Rightarrow> string \<Rightarrow> scoring \<Rightarrow> int" where
  "qual s r d = m_qual_count (entry s r d)"

lemma scores_okD:
  assumes "scores_ok d"
  shows "score_maps_ok d" and "evals_ok (entry s r d)" and "0 \<le> qual s r d" and "qual s r d < 2 ^ 32"
  using assms by (auto simp: scores_ok_def qual_def dest: evals_okD(3))

lemma entry_new [simp]: "entry s r new_scoring = new_evals"
  by (simp add: entry_def new_scoring_def om_get_def)

lemma scores_ok_new [simp]: "scores_ok new_scoring"
  by (simp add: scores_ok_def score_maps_ok_def new_scoring_def om_get_def entry_def) (simp add: new_evals_def)

lemma scores_ok_set: "scores_ok d \<Longrightarrow> evals_ok e \<Longrightarrow> m_qual_count e < 2 ^ 32 \<Longrightarrow> scores_ok (set_entry s r e d)"
  by (simp add: scores_ok_def score_maps_ok_set entry_set)

lemma scores_ok_touch: "scores_ok d \<Longrightarrow> scores_ok (touch s r d)"
  unfolding touch_def by (rule scores_ok_set) (auto simp: scores_ok_def)

lemma entry_fields [simp]:
  "entry s r (d\<lparr>m_hier_constrain_now := b\<rparr>) = entry s r d" "entry s r (d\<lparr>m_overall_score := o'\<rparr>) = entry s r d"
  "entry s r (d\<lparr>m_avail := a\<rparr>) = entry s r d" "entry s r (set_overall_score o' d) = entry s r d"
  "entry s r (set_avail a d) = entry s r d"
  by (simp_all add: entry_def set_overall_score_def set_avail_def)

lemma scores_ok_fields [simp]:
  "scores_ok (d\<lparr>m_hier_constrain_now := b\<rparr>) = scores_ok d" "scores_ok (d\<lparr>m_overall_score := o'\<rparr>) = scores_ok d"
  "scores_ok (d\<lparr>m_avail := a\<rparr>) = scores_ok d" "scores_ok (set_overall_score o' d) = scores_ok d"
  "scores_ok (set_avail a d) = scores_ok d"
  by (simp_all add: scores_ok_def score_maps_ok_def entry_def set_overall_score_def set_avail_def)

lemma set_entry_fields [simp]: "m_avail (set_entry s r e d) = m_avail d" "m_overall_score (set_entry s r e d) = m_overall_score d"
  "m_avail (touch s r d) = m_avail d" "m_overall_score (touch s r d) = m_overall_score d"
  by (simp_all add: set_entry_def touch_def)

lemma u32_less [simp]: "u32 x < 2 ^ 32"
  by (simp add: u32_def)

lemma scores_ok_add:
  assumes "scores_ok d" and "0 \<le> eg_count g" and "eg_count g < 2 ^ 31"
  shows "scores_ok (snd (scoring_add s r g d))"
proof -
  have "m_qual_count (snd (evals_add g (entry s r d))) < 2 ^ 32"
    using scores_okD(4) [OF assms(1), of s r] u32_less
    by (simp add: evals_add_def Let_def qual_def)
  then show ?thesis
    using assms evals_add_ok [OF scores_okD(2) [OF assms(1)] assms(2,3)]
    by (simp add: scoring_add_def split_beta scores_ok_set)
qed

lemma scores_ok_merge_types: "scores_ok d \<Longrightarrow> \<forall>(r, ev)\<in>set m. evals_ok ev \<Longrightarrow> scores_ok (merge_types s m d)"
  unfolding merge_types_def
proof (induction m arbitrary: d)
  case (Cons p m)
  obtain r ev where p: "p = (r, ev)" by force
  have "m_qual_count (snd (evals_merge ev (entry s r d))) < 2 ^ 32"
    using scores_okD(4) [OF Cons.prems(1), of s r] u32_less by (simp add: evals_merge_def qual_def)
  then have "scores_ok (set_entry s r (snd (evals_merge ev (entry s r d))) d)"
    using Cons.prems p by (intro scores_ok_set evals_merge_ok) (auto simp: scores_okD)
  then show ?case using Cons p by simp
qed simp

lemma scores_ok_merge:
  assumes "scores_ok d" and "scores_ok d'"
  shows "scores_ok (scoring_merge d' d)"
proof -
  have "evals_ok ev" if "(s, m) \<in> set (m_ssys_map d')" "(r, ev) \<in> set m" for s m r ev
  proof -
    have o: "om_ok (m_ssys_map d')" "om_ok (om_get [] s (m_ssys_map d'))"
      using assms(2) by (auto simp: scores_ok_def score_maps_ok_def)
    then have "om_find s (m_ssys_map d') = Some m" using that(1) by (simp add: om_find_Some_iff)
    then have "om_get [] s (m_ssys_map d') = m" by (simp add: om_get_def)
    moreover from this have "om_find r m = Some ev" using that(2) o(2) by (simp add: om_find_Some_iff)
    ultimately have "entry s r d' = ev" by (simp add: entry_def om_get_def)
    then show ?thesis using scores_okD(2) [OF assms(2)] by metis
  qed
  then have "\<forall>(s, m)\<in>set (m_ssys_map d'). \<forall>(r, ev)\<in>set m. evals_ok ev" by blast
  then have "scores_ok (fold (\<lambda>(s, m). merge_types s m) (m_ssys_map d') d)"
    using assms(1)
  proof (induction "m_ssys_map d'" arbitrary: d d')
    case (Cons p ms)
    have "\<forall>(s, m)\<in>set (p # ms). \<forall>(r, ev)\<in>set m. evals_ok ev" using Cons by simp
    then show ?case using Cons(1) [of "d'\<lparr>m_ssys_map := ms\<rparr>"] Cons(4) by (auto simp: Cons(2) [symmetric] scores_ok_merge_types)
  qed simp
  then show ?thesis by (simp add: scoring_merge_def)
qed

section \<open>Requests\<close>

definition same_quals :: "scoring \<Rightarrow> scoring \<Rightarrow> bool" where
  "same_quals d d' \<longleftrightarrow> (\<forall>s r. qual s r d' = qual s r d)"

definition small :: "evals \<Rightarrow> bool" where
  "small e \<longleftrightarrow> m_qual_count e < 2 ^ 31 \<and> length (m_eval_egroups e) < 2 ^ 32"

text \<open>The chosen groups give \<open>k\<close> units, none more than it has.\<close>

definition chosen_k :: "int \<Rightarrow> evals \<Rightarrow> bool" where
  "chosen_k k e \<longleftrightarrow>
     (let chosen = take (nat (m_best_i e)) (m_eval_egroups e)
      in m_best_k e = k \<and> sum_list (map needs chosen) = k \<and> (\<forall>g\<in>set chosen. 0 \<le> needs g \<and> needs g \<le> eg_count g))"

text \<open>A request can be met when what qualifies reaches its minimum.\<close>

definition can_meet :: "string \<Rightarrow> scoring \<Rightarrow> resource list \<Rightarrow> bool" where
  "can_meet s d rs \<longleftrightarrow> (\<forall>r\<in>set rs. count_min (request_count r) \<le> qual s (res_type r) d)"

text \<open>What a request is met_with.\<close>

definition met_with :: "string \<Rightarrow> scoring \<Rightarrow> scoring \<Rightarrow> resource \<Rightarrow> bool" where
  "met_with s d d' r \<longleftrightarrow>
     (\<exists>n. greatest_count (request_count r) (qual s (res_type r) d) n \<and> chosen_k n (entry s (res_type r) d'))"

text \<open>The requests a vertex of a type has to meet below it.\<close>

definition children :: "string \<Rightarrow> resource list \<Rightarrow> resource list" where
  "children t rs = concat (map res_with (filter (\<lambda>r. res_type r = t) rs))"

lemma same_quals_refl [simp]: "same_quals d d"
  by (simp add: same_quals_def)

lemma same_quals_trans: "same_quals d d' \<Longrightarrow> same_quals d' d'' \<Longrightarrow> same_quals d d''"
  by (simp add: same_quals_def)

lemma same_quals_touch: "score_maps_ok d \<Longrightarrow> same_quals d (touch s r d)"
  by (simp add: same_quals_def qual_def entry_touch)

lemma can_meet_cong: "same_quals d d' \<Longrightarrow> can_meet s d' rs = can_meet s d rs"
  by (simp add: can_meet_def same_quals_def)

context fold_order
begin

lemma choose_accum_ok:
  assumes "scores_ok d" and "sorts srt" and "0 \<le> k" and "k < 2 ^ 32"
  obtains v d' where "choose_accum_best_k srt cmp s r k d = Some (v, d')" and "scores_ok d'" and "same_quals d d'"
    and "\<And>s' r'. (s', r') \<noteq> (s, r) \<Longrightarrow> entry s' r' d' = entry s' r' d"
    and "m_overall_score d' = m_overall_score d" and "m_avail d' = m_avail d"
    and "0 < k \<Longrightarrow> k \<le> qual s r d \<Longrightarrow> small (entry s r d) \<Longrightarrow> chosen_k k (entry s r d')"
proof -
  have e: "evals_ok (entry s r d)" by (rule scores_okD(2) [OF assms(1)])
  obtain rc e' where c: "choose_best_k srt cmp k (entry s r d) = Some (rc, e')" "evals_ok e'"
    "m_qual_count e' = m_qual_count (entry s r d)"
    using choose_defined [OF e assms(2-4)] by blast
  let ?d = "set_entry s r e' d"
  have maps: "score_maps_ok d" by (rule scores_okD(1) [OF assms(1)])
  have ok: "scores_ok ?d" using scores_okD(4) [OF assms(1), of s r] c by (intro scores_ok_set assms(1)) (simp_all add: qual_def)
  have q: "same_quals d ?d" using maps c(3) by (simp add: same_quals_def qual_def entry_set)
  have ch: "chosen_k k e'" if h: "0 < k" "k \<le> qual s r d" "small (entry s r d)"
  proof -
    have k: "k \<le> m_qual_count (entry s r d)" "k < 2 ^ 31" "length (m_eval_egroups (entry s r d)) < 2 ^ 32"
      using h by (auto simp: qual_def small_def)
    obtain e'' chosen rest where "choose_best_k srt cmp k (entry s r d) = Some (Inr (i32 (m_best_k (entry s r d))), e'')"
      "m_best_k e'' = k" "m_eval_egroups e'' = chosen @ rest" "length chosen = nat (m_best_i e'')"
      "sum_list (map needs chosen) = k" "\<forall>g\<in>set chosen. 0 \<le> needs g \<and> needs g \<le> eg_count g"
      using choose_best [OF e assms(2) h(1) k] by blast
    then show ?thesis using c(1) by (simp add: chosen_k_def)
  qed
  let ?d' = "if rc_of rc \<noteq> - 1 then ?d\<lparr>m_hier_constrain_now := True\<rparr> else ?d"
  define v where "v = (if rc_of rc \<noteq> - 1 then rc_of (accum_best_k fold_plus 0 e') else - 1)"
  have v: "choose_accum_best_k srt cmp s r k d = Some (v, ?d')"
    using c(1) by (simp add: choose_accum_best_k_def Let_def v_def)
  have "entry s' r' ?d' = (if s' = s \<and> r' = r then e' else entry s' r' d)" for s' r' using maps by (simp add: entry_set)
  moreover have "scores_ok ?d'" "same_quals d ?d'" using ok q by (simp_all add: same_quals_def qual_def)
  ultimately show thesis using v ch by (intro that [of v ?d']) auto
qed

lemma choose_requests_ok:
  assumes "scores_ok d" and "sorts srt" and "\<forall>r\<in>set rs. countable (request_count r)"
  shows "\<exists>d'. choose_requests srt cmp s rs d = Some (can_meet s d rs, d') \<and> scores_ok d' \<and> same_quals d d' \<and>
           m_overall_score d' = m_overall_score d \<and> m_avail d' = m_avail d \<and>
           (\<forall>s' r'. s' \<noteq> s \<or> r' \<notin> res_type ` set rs \<longrightarrow> entry s' r' d' = entry s' r' d) \<and>
           (can_meet s d rs \<and> distinct (map res_type rs) \<longrightarrow>
              (\<forall>r\<in>set rs. small (entry s (res_type r) d) \<longrightarrow> met_with s d d' r))"
  using assms(1,3)
proof (induction rs arbitrary: d)
  case Nil
  then show ?case by (simp add: can_meet_def)
next
  case (Cons r rs)
  let ?t = "res_type r" and ?d = "touch s (res_type r) d"
  have maps: "score_maps_ok d" by (rule scores_okD(1) [OF Cons.prems(1)])
  have ok: "scores_ok ?d" and q: "same_quals d ?d" by (simp_all add: scores_ok_touch Cons.prems(1) same_quals_touch maps)
  obtain n where n: "calc_count (request_count r) (qual s ?t d) = Some n" "0 \<le> n" "n \<le> qual s ?t d"
    "n = 0 \<longleftrightarrow> qual s ?t d < count_min (request_count r)" "n \<noteq> 0 \<longrightarrow> greatest_count (request_count r) (qual s ?t d) n"
    using calc_count_defined [of "request_count r" "qual s ?t d"] Cons.prems scores_okD(3,4) [OF Cons.prems(1)] by auto
  have run: "choose_requests srt cmp s (r # rs) d = (if n = 0 then Some (False, ?d)
      else choose_accum_best_k srt cmp s ?t n ?d \<bind> (\<lambda>(_, d). choose_requests srt cmp s rs d))"
    using n(1) by (simp add: qualified_count_def qual_def)
  show ?case
  proof (cases "n = 0")
    case True
    then have "\<not> can_meet s d (r # rs)" using n(4) by (simp add: can_meet_def)
    then show ?thesis using True run ok q maps by (simp add: entry_touch)
  next
    case False
    have lt: "n < 2 ^ 32" using n(3) scores_okD(4) [OF Cons.prems(1), of s ?t] by simp
    obtain v d1 where d1: "choose_accum_best_k srt cmp s ?t n ?d = Some (v, d1)" "scores_ok d1" "same_quals ?d d1"
      "\<And>s' r'. (s', r') \<noteq> (s, ?t) \<Longrightarrow> entry s' r' d1 = entry s' r' ?d" "m_overall_score d1 = m_overall_score ?d" "m_avail d1 = m_avail ?d"
      "0 < n \<Longrightarrow> n \<le> qual s ?t ?d \<Longrightarrow> small (entry s ?t ?d) \<Longrightarrow> chosen_k n (entry s ?t d1)"
      using choose_accum_ok [OF ok assms(2) n(2) lt] by blast
    have qd: "same_quals d d1" using q d1(3) by (rule same_quals_trans)
    obtain d' where d': "choose_requests srt cmp s rs d1 = Some (can_meet s d1 rs, d')" "scores_ok d'" "same_quals d1 d'"
      "m_overall_score d' = m_overall_score d1" "m_avail d' = m_avail d1"
      "\<forall>s' r'. s' \<noteq> s \<or> r' \<notin> res_type ` set rs \<longrightarrow> entry s' r' d' = entry s' r' d1"
      "can_meet s d1 rs \<and> distinct (map res_type rs) \<longrightarrow> (\<forall>r\<in>set rs. small (entry s (res_type r) d1) \<longrightarrow> met_with s d1 d' r)"
      using Cons.IH [OF d1(2)] Cons.prems by auto
    have cm: "can_meet s d (r # rs) = can_meet s d1 rs" using n(4) False can_meet_cong [OF qd, of s rs] by (simp add: can_meet_def)
    have g: "met_with s d d' r" if "?t \<notin> res_type ` set rs" "small (entry s ?t d)"
    proof -
      have "entry s ?t d' = entry s ?t d1" using d'(6) that(1) by blast
      moreover have "chosen_k n (entry s ?t d1)"
        using d1(7) n(2,3) False that(2) maps by (simp add: entry_touch qual_def)
      ultimately show ?thesis using n(5) False by (auto simp: met_with_def)
    qed
    have rest: "met_with s d d' x" if "x \<in> set rs" "can_meet s d1 rs" "distinct (map res_type (r # rs))" "small (entry s (res_type x) d)" for x
    proof -
      have "res_type x \<noteq> ?t" using that(1,3) by (metis distinct.simps(2) imageI list.simps(9) set_map)
      then have "entry s (res_type x) d1 = entry s (res_type x) d" using d1(4) maps by (simp add: entry_touch)
      then have "met_with s d1 d' x" using d'(7) that by auto
      then show ?thesis using qd by (simp add: met_with_def same_quals_def)
    qed
    show ?thesis
      using run False d1(1,5,6) d' cm g rest same_quals_trans [OF qd d'(3)] d1(4) maps
      by (auto simp: entry_touch)
  qed
qed

lemma finish_requests_ok:
  assumes "scores_ok d" and "sorts srt" and "\<forall>r\<in>set (children t rs). countable (request_count r)"
  shows "\<exists>d'. finish_requests srt cmp t s rs met d = Some (met \<and> can_meet s d (children t rs), d') \<and> scores_ok d' \<and>
           same_quals d d' \<and> m_avail d' = m_avail d \<and>
           (\<forall>s' r'. s' \<noteq> s \<or> r' \<notin> res_type ` set (children t rs) \<longrightarrow> entry s' r' d' = entry s' r' d) \<and>
           (can_meet s d (children t rs) \<and> distinct (map res_type (children t rs)) \<longrightarrow>
              (\<forall>r\<in>set (children t rs). small (entry s (res_type r) d) \<longrightarrow> met_with s d d' r))"
  using assms(1,3)
proof (induction rs arbitrary: met d)
  case Nil
  then show ?case by (simp add: children_def can_meet_def)
next
  case (Cons r rs)
  show ?case
  proof (cases "res_type r = t")
    case False
    then have "children t (r # rs) = children t rs" by (simp add: children_def)
    then show ?thesis using Cons.IH [OF Cons.prems(1), of met] Cons.prems(2) False by simp
  next
    case True
    then have ch: "children t (r # rs) = res_with r @ children t rs" by (simp add: children_def)
    obtain d1 where d1: "choose_requests srt cmp s (res_with r) d = Some (can_meet s d (res_with r), d1)" "scores_ok d1" "same_quals d d1"
      "m_avail d1 = m_avail d" "\<forall>s' r'. s' \<noteq> s \<or> r' \<notin> res_type ` set (res_with r) \<longrightarrow> entry s' r' d1 = entry s' r' d"
      "can_meet s d (res_with r) \<and> distinct (map res_type (res_with r)) \<longrightarrow>
         (\<forall>r\<in>set (res_with r). small (entry s (res_type r) d) \<longrightarrow> met_with s d d1 r)"
      using choose_requests_ok [OF Cons.prems(1) assms(2), of "res_with r" s] Cons.prems(2) ch by auto
    obtain d' where d': "finish_requests srt cmp t s rs (met \<and> can_meet s d (res_with r)) d1
        = Some ((met \<and> can_meet s d (res_with r)) \<and> can_meet s d1 (children t rs), d')" "scores_ok d'" "same_quals d1 d'"
      "m_avail d' = m_avail d1" "\<forall>s' r'. s' \<noteq> s \<or> r' \<notin> res_type ` set (children t rs) \<longrightarrow> entry s' r' d' = entry s' r' d1"
      "can_meet s d1 (children t rs) \<and> distinct (map res_type (children t rs)) \<longrightarrow>
         (\<forall>r\<in>set (children t rs). small (entry s (res_type r) d1) \<longrightarrow> met_with s d1 d' r)"
      using Cons.IH [OF d1(2), of "met \<and> can_meet s d (res_with r)"] Cons.prems(2) ch by auto
    have cm: "can_meet s d (children t (r # rs)) \<longleftrightarrow> can_meet s d (res_with r) \<and> can_meet s d1 (children t rs)"
      using can_meet_cong [OF d1(3), of s "children t rs"] ch by (auto simp: can_meet_def)
    have first: "met_with s d d' x" if "met_with s d d1 x" "res_type x \<notin> res_type ` set (children t rs)" for x
      using that d'(5) by (auto simp: met_with_def)
    have second: "met_with s d d' x" if "met_with s d1 d' x" for x
      using that d1(3) by (simp add: met_with_def same_quals_def)
    have disj: "res_type x \<notin> res_type ` set (children t rs)"
      if "x \<in> set (res_with r)" "distinct (map res_type (children t (r # rs)))" for x
      using that unfolding ch map_append distinct_append by (metis (no_types) disjoint_iff imageI set_map)
    have disj': "res_type x \<notin> res_type ` set (res_with r)"
      if "x \<in> set (children t rs)" "distinct (map res_type (children t (r # rs)))" for x
      using that unfolding ch map_append distinct_append by (metis (no_types) disjoint_iff imageI set_map)
    have "met_with s d d' x"
      if "can_meet s d (children t (r # rs))" "distinct (map res_type (children t (r # rs)))" "x \<in> set (children t (r # rs))"
        "small (entry s (res_type x) d)" for x
    proof -
      from that(3) consider "x \<in> set (res_with r)" | "x \<in> set (children t rs)" by (auto simp: ch)
      then show ?thesis
      proof cases
        case 1
        then show ?thesis using first disj [OF 1 that(2)] d1(6) that cm by (simp add: ch)
      next
        case 2
        then have "entry s (res_type x) d1 = entry s (res_type x) d" using d1(5) disj' [OF 2 that(2)] by blast
        then show ?thesis using second d'(6) that cm 2 by (simp add: ch)
      qed
    qed
    moreover have "entry s' r' d' = entry s' r' d" if "s' \<noteq> s \<or> r' \<notin> res_type ` set (children t (r # rs))" for s' r'
    proof -
      have "s' \<noteq> s \<or> r' \<notin> res_type ` set (res_with r)" "s' \<noteq> s \<or> r' \<notin> res_type ` set (children t rs)"
        using that unfolding ch by auto
      then show ?thesis using d1(5) d'(5) by metis
    qed
    ultimately show ?thesis
      using True d1(1,4) d'(1,2,4) cm same_quals_trans [OF d1(3) d'(3)] by (auto simp: Let_def)
  qed
qed

lemma choose_all_types_ok:
  assumes "scores_ok d" and "sorts srt"
  shows "\<exists>d'. choose_all_types srt cmp s ts d = Some d' \<and> scores_ok d' \<and> same_quals d d'"
  using assms(1)
proof (induction ts arbitrary: d)
  case (Cons t ts)
  obtain v d1 where "choose_accum_all srt cmp s t d = Some (v, d1)" "scores_ok d1" "same_quals d d1"
    using choose_accum_ok [OF Cons.prems assms(2), of "qual s t d"] scores_okD(3,4) [OF Cons.prems, of s t]
    unfolding choose_accum_all_def qual_def by metis
  then show ?case using Cons.IH [of d1] by (auto intro: same_quals_trans)
qed simp

end

lemma interval_requests_ok:
  assumes "scores_ok d" and "sorts srt" and "\<forall>r\<in>set rs. countable (request_count r)"
  shows "\<exists>d'. interval_requests srt icl s rs iv d = Some (can_meet s d rs, d') \<and> scores_ok d' \<and> same_quals d d' \<and>
           m_avail d' = m_avail d"
  using assms(1,3)
proof (induction rs arbitrary: iv d)
  case Nil
  then show ?case by (simp add: can_meet_def)
next
  case (Cons r rs)
  let ?t = "res_type r" and ?d = "touch s (res_type r) d"
  have maps: "score_maps_ok d" by (rule scores_okD(1) [OF Cons.prems(1)])
  have ok: "scores_ok ?d" and q: "same_quals d ?d" by (simp_all add: scores_ok_touch Cons.prems(1) same_quals_touch maps)
  obtain n where n: "calc_count (request_count r) (qual s ?t d) = Some n" "0 \<le> n" "n \<le> qual s ?t d"
    "n = 0 \<longleftrightarrow> qual s ?t d < count_min (request_count r)"
    using calc_count_defined [of "request_count r" "qual s ?t d"] Cons.prems scores_okD(3,4) [OF Cons.prems(1)] by auto
  show ?case
  proof (cases "n = 0")
    case True
    then show ?thesis using n(1,4) ok q by (auto simp: qualified_count_def qual_def can_meet_def)
  next
    case False
    let ?iv = "iv @ evals_transform score (entry s ?t ?d)"
    have "n < 2 ^ 32" using n(3) scores_okD(4) [OF Cons.prems(1), of s ?t] by simp
    then obtain v d1 where d1: "choose_accum_best_k srt (fold_interval_greater (icl ?iv)) s ?t n ?d = Some (v, d1)"
      "scores_ok d1" "same_quals ?d d1" "m_avail d1 = m_avail ?d"
      using interval_greater.choose_accum_ok [OF ok assms(2) n(2)] by metis
    obtain d' where d': "interval_requests srt icl s rs ?iv d1 = Some (can_meet s d1 rs, d')" "scores_ok d'"
      "same_quals d1 d'" "m_avail d' = m_avail d1"
      using Cons.IH [OF d1(2)] Cons.prems by auto
    have qd: "same_quals d d1" using q d1(3) by (rule same_quals_trans)
    have "can_meet s d (r # rs) = can_meet s d1 rs" using n(4) False can_meet_cong [OF qd, of s rs] by (simp add: can_meet_def)
    then show ?thesis
      using n(1) False d1(1,4) d' same_quals_trans [OF qd d'(3)] by (simp add: qualified_count_def qual_def Let_def)
  qed
qed

section \<open>The callbacks\<close>

text \<open>The order a policy chooses by inside the graph.\<close>

fun policy_order :: "match_cb \<Rightarrow> compare_op" where
  "policy_order (High_first m) = fold_greater"
| "policy_order (Low_first m) = fold_less"
| "policy_order (Locality m) = fold_greater"
| "policy_order (Var_aware m) = fold_less"

lemma finish_by_order:
  assumes "scores_ok d" and "sorts srt" and "\<forall>r\<in>set (children t rs). countable (request_count r)"
  shows "\<exists>d'. finish_requests srt (policy_order m) t s rs True d = Some (can_meet s d (children t rs), d') \<and> scores_ok d' \<and>
           same_quals d d' \<and> m_avail d' = m_avail d \<and>
           (can_meet s d (children t rs) \<and> distinct (map res_type (children t rs)) \<longrightarrow>
              (\<forall>r\<in>set (children t rs). small (entry s (res_type r) d) \<longrightarrow> met_with s d d' r))"
  using greater.finish_requests_ok [OF assms, of s True] less.finish_requests_ok [OF assms, of s True] by (cases m) auto

lemma dom_finish_vtx_ok:
  assumes "scores_ok d" and "sorts srt" and "\<forall>r\<in>set (children (vtype v) rs). countable (request_count r)"
  shows "\<exists>d' m'. dom_finish_vtx srt v s rs d m
           = Some (if can_meet s d (children (vtype v) rs) then Inr 0 else Inl EBUSY, d', m') \<and> scores_ok d' \<and>
           same_quals d d' \<and> m_avail d' = m_avail d \<and>
           (\<not> can_meet s d (children (vtype v) rs) \<longrightarrow> m_overall_score d' = MATCH_UNMET) \<and>
           (can_meet s d (children (vtype v) rs) \<and> distinct (map res_type (children (vtype v) rs)) \<longrightarrow>
              (\<forall>r\<in>set (children (vtype v) rs). small (entry s (res_type r) d) \<longrightarrow> met_with s d d' r))"
proof -
  obtain d' where d': "finish_requests srt (policy_order m) (vtype v) s rs True d = Some (can_meet s d (children (vtype v) rs), d')"
    "scores_ok d'" "same_quals d d'" "m_avail d' = m_avail d"
    "can_meet s d (children (vtype v) rs) \<and> distinct (map res_type (children (vtype v) rs)) \<longrightarrow>
       (\<forall>r\<in>set (children (vtype v) rs). small (entry s (res_type r) d) \<longrightarrow> met_with s d d' r)"
    using finish_by_order [OF assms] by blast
  have "met_with s d (set_overall_score o' d') r = met_with s d d' r" "same_quals d (set_overall_score o' d') = same_quals d d'" for o' r
    by (simp_all add: met_with_def same_quals_def qual_def)
  then show ?thesis
    using d' by (cases m)
      (auto simp: multilevel_finish_vtx_def locality_finish_vtx_def var_aware_finish_vtx_def Let_def set_overall_score_def)
qed

lemma dom_finish_slot_ok:
  assumes "scores_ok d" and "sorts srt"
  shows "\<exists>d'. dom_finish_slot srt s d m = Some (Inr 0, d') \<and> scores_ok d' \<and> same_quals d d'"
proof -
  have "touch_subsystem s d = d\<lparr>m_ssys_map := om_assign s (om_get [] s (m_ssys_map d)) (m_ssys_map d)\<rparr>"
    by (simp add: touch_subsystem_def)
  then have e: "entry s' r' (touch_subsystem s d) = entry s' r' d" and mp: "score_maps_ok (touch_subsystem s d)" for s' r'
    using scores_okD(1) [OF assms(1)] by (simp_all add: entry_def score_maps_ok_def om_get_assign)
  then have ok: "scores_ok (touch_subsystem s d)" and q: "same_quals d (touch_subsystem s d)"
    using assms(1) by (simp_all add: scores_ok_def same_quals_def qual_def)
  then show ?thesis
    using greater.choose_all_types_ok [OF ok assms(2), of s "map fst (om_get [] s (m_ssys_map d))"]
      less.choose_all_types_ok [OF ok assms(2), of s "map fst (om_get [] s (m_ssys_map d))"] q
    by (cases m) (auto simp: finish_slot_def resrc_types_def intro: same_quals_trans)
qed

lemma dom_finish_graph_ok:
  assumes "scores_ok d" and "sorts srt" and "\<forall>r\<in>set rs. countable (request_count r)"
  shows "\<exists>r d' m'. dom_finish_graph srt icl s rs d m = Some (r, d', m') \<and> (r = Inr 0 \<longleftrightarrow> can_meet s d rs) \<and> scores_ok d' \<and>
           same_quals d d' \<and> m_avail d' = m_avail d"
proof -
  have f: "same_quals d (set_overall_score o' d') = same_quals d d'" "m_avail (set_overall_score o' d') = m_avail d'" for d' o'
    by (simp_all add: same_quals_def qual_def) (simp add: set_overall_score_def)
  show ?thesis
    using greater.choose_requests_ok [OF assms, of s] less.choose_requests_ok [OF assms, of s]
      interval_requests_ok [OF assms, of icl s "[]"] f
    by (cases m) (auto simp: multilevel_finish_graph_def var_aware_finish_graph_def locality_finish_graph_def)
qed

end
