(* ===== verification/Policies_Balance.thy ===== *)
theory Policies_Balance
  imports Policies_Correct
begin

text \<open>
  The scores of the multilevel policy over a whole walk: the factor of a vertex is exact or its
  overflow is reported, and a walk that discovers and finishes vertices in a nested order leaves the
  scores as it found them, when no vertex of a weighted type lies below another of the same type.
\<close>

section \<open>Factors\<close>

definition factor_of :: "int \<Rightarrow> int \<Rightarrow> score_factor \<Rightarrow> int" where
  "factor_of base_factor break_tie f = (base_factor + m_add_by f) * m_multiply_by f + \<bar>break_tie mod m_multiply_by f - 1\<bar>"

lemma calc_factor_exact:
  assumes "0 \<le> b" and "0 \<le> tie" and "0 \<le> m_add_by f" and "0 < m_multiply_by f"
  shows "calc_factor b tie f =
           Some (if factor_of b tie f \<le> int64_max then (Inr (factor_of b tie f), f\<lparr>m_factor := factor_of b tie f\<rparr>)
                 else (Inl EOVERFLOW, f))"
proof -
  let ?a = "b + m_add_by f" and ?m = "m_multiply_by f" and ?t = "\<bar>tie mod m_multiply_by f - 1\<bar>"
  have mul: "?a \<le> ?a * ?m" using assms mult_left_mono [of 1 ?m ?a] by simp
  have quot: "?a > int64_max div ?m \<longleftrightarrow> ?a * ?m > int64_max"
  proof -
    have "?a * ?m \<le> int64_max" if "?a \<le> int64_max div ?m"
    proof -
      have "?a * ?m \<le> int64_max div ?m * ?m" using that assms(4) by (intro mult_right_mono) auto
      also have "\<dots> \<le> int64_max" using assms(4) by (simp add: minus_mod_eq_div_mult [symmetric])
      finally show ?thesis .
    qed
    moreover have "?a \<le> int64_max div ?m" if "?a * ?m \<le> int64_max"
      using zdiv_mono1 [OF that assms(4)] assms(4) by simp
    ultimately show ?thesis by linarith
  qed
  show ?thesis using assms mul quot by (auto simp: calc_factor_def factor_of_def Let_def)
qed

section \<open>Nested walks\<close>

datatype vtree = Vtree resource_pool "vtree list"

text \<open>What a walk over a tree of vertices does to the policy: a vertex that cannot be discovered is
  left, the others are finished after what lies below them.\<close>

inductive walk :: "vtree \<Rightarrow> multilevel_id \<Rightarrow> multilevel_id \<Rightarrow> bool"
  and walks :: "vtree list \<Rightarrow> multilevel_id \<Rightarrow> multilevel_id \<Rightarrow> bool" where
  visited: "multilevel_discover_vtx v m = Some (Inr c, m1) \<Longrightarrow> walks ts m1 m2 \<Longrightarrow>
    multilevel_finish_vtx srt cmp v s rs d m2 = Some (r, d', m3) \<Longrightarrow> walk (Vtree v ts) m m3"
| refused: "multilevel_discover_vtx v m = Some (Inl e, m1) \<Longrightarrow> walk (Vtree v ts) m m1"
| none: "walks [] m m"
| more: "walk t m m1 \<Longrightarrow> walks ts m1 m2 \<Longrightarrow> walks (t # ts) m m2"

definition weighted :: "multilevel_id \<Rightarrow> string set" where
  "weighted m = {t. om_find t (m_multilevel_factors m) \<noteq> None}"

text \<open>No vertex has one of the types \<open>abv\<close>, nor the weighted type of a vertex above it.\<close>

fun unnested :: "string set \<Rightarrow> string set \<Rightarrow> vtree \<Rightarrow> bool" where
  "unnested w abv (Vtree v ts) \<longleftrightarrow>
     vtype v \<notin> abv \<and> list_all (unnested w (if vtype v \<in> w then insert (vtype v) abv else abv)) ts"

text \<open>The states before and after a walk below vertices of the types \<open>abv\<close>.\<close>

definition kept :: "string set \<Rightarrow> multilevel_id \<Rightarrow> multilevel_id \<Rightarrow> bool" where
  "kept abv m m' \<longleftrightarrow>
     m_multilevel_scores m' = m_multilevel_scores m \<and> m_trav_level m' = m_trav_level m \<and> weighted m' = weighted m \<and>
     om_ok (m_multilevel_factors m') \<and>
     (\<forall>t\<in>abv. om_find t (m_multilevel_factors m') = om_find t (m_multilevel_factors m))"

definition in_range :: "multilevel_id \<Rightarrow> bool" where
  "in_range m \<longleftrightarrow> om_ok (m_multilevel_factors m) \<and> is_i64 (m_multilevel_scores m) \<and> - (2 ^ 31) \<le> m_trav_level m \<and> m_trav_level m < 2 ^ 31"

lemma i64_i64_diff: "i64 (i64 (a + b) - b) = i64 a"
proof -
  have "(i64 (a + b) - b + 2 ^ 63) mod 2 ^ 64 = (a + 2 ^ 63) mod 2 ^ 64"
    unfolding i64_def by (simp add: algebra_simps mod_simps)
  then show ?thesis by (simp add: i64_def)
qed

lemma i32_i32_diff: "i32 (i32 (a + 1) - 1) = i32 a"
proof -
  have "(i32 (a + 1) - 1 + 2 ^ 31) mod 2 ^ 32 = (a + 2 ^ 31) mod 2 ^ 32"
    unfolding i32_def by (simp add: algebra_simps mod_simps)
  then show ?thesis by (simp add: i32_def)
qed

lemma i32_range: "- (2 ^ 31) \<le> i32 x \<and> i32 x < 2 ^ 31"
  by (auto simp: i32_def)

lemma discover_cases:
  assumes "multilevel_discover_vtx v m = Some (r, m1)" and "in_range m"
  shows "in_range m1" and "weighted m1 = weighted m"
    and "t \<noteq> vtype v \<Longrightarrow> om_find t (m_multilevel_factors m1) = om_find t (m_multilevel_factors m)"
    and "r = Inl e \<Longrightarrow> m_multilevel_scores m1 = m_multilevel_scores m \<and> m_trav_level m1 = m_trav_level m"
    and "r = Inr c \<Longrightarrow> m_trav_level m1 = i32 (m_trav_level m + 1) \<and>
           m_multilevel_scores m1 = (case om_find (vtype v) (m_multilevel_factors m1) of
              None \<Rightarrow> m_multilevel_scores m | Some f \<Rightarrow> i64 (m_multilevel_scores m + m_factor f))"
  using assms i64_range [of "m_multilevel_scores m + _"] i32_range [of "m_trav_level m + 1"]
  by (auto simp: multilevel_discover_vtx_def in_range_def weighted_def incr_def Let_def calc_factor_def om_find_assign
      split: option.splits if_splits)

lemma finish_cases:
  assumes "multilevel_finish_vtx srt cmp v s rs d m = Some (r, d', m')"
  shows "m_multilevel_factors m' = m_multilevel_factors m" and "m_trav_level m' = i32 (m_trav_level m - 1)"
    and "m_multilevel_scores m' = (case om_find (vtype v) (m_multilevel_factors m) of
              None \<Rightarrow> m_multilevel_scores m | Some f \<Rightarrow> i64 (m_multilevel_scores m - m_factor f))"
  using assms by (auto simp: multilevel_finish_vtx_def decr_def Let_def split: option.splits bind_splits)

lemma walk_kept:
  "walk t m m' \<Longrightarrow> in_range m \<Longrightarrow> unnested (weighted m) abv t \<Longrightarrow> kept abv m m' \<and> in_range m'"
  "walks ts m m' \<Longrightarrow> in_range m \<Longrightarrow> list_all (unnested (weighted m) abv) ts \<Longrightarrow> kept abv m m' \<and> in_range m'"
proof (induction arbitrary: abv and abv rule: walk_walks.inducts)
  case (visited v m c m1 ts m2 srt cmp s rs d r d' m3)
  note D = discover_cases [OF visited.hyps(1) visited.prems(1)] and F = finish_cases [OF visited.hyps(3)]
  let ?abv = "if vtype v \<in> weighted m then insert (vtype v) abv else abv"
  have abv: "vtype v \<notin> abv" "list_all (unnested (weighted m) ?abv) ts" using visited.prems(2) by simp_all
  have K: "kept ?abv m1 m2" "in_range m2" using visited.IH [OF D(1), of ?abv] abv(2) D(2) by simp_all
  have own: "om_find (vtype v) (m_multilevel_factors m2) = om_find (vtype v) (m_multilevel_factors m1)"
  proof (cases "vtype v \<in> weighted m")
    case False
    then have "om_find (vtype v) (m_multilevel_factors m1) = None" "om_find (vtype v) (m_multilevel_factors m2) = None"
    proof -
      have "vtype v \<notin> weighted m1" "vtype v \<notin> weighted m2" using False D(2) K(1) by (simp_all add: kept_def)
      then show "om_find (vtype v) (m_multilevel_factors m1) = None" "om_find (vtype v) (m_multilevel_factors m2) = None"
        by (simp_all add: weighted_def)
    qed
    then show ?thesis by simp
  qed (use K(1) in \<open>simp add: kept_def\<close>)
  have "m_multilevel_scores m3 = m_multilevel_scores m"
    using F(3) own D(5) [OF refl] K(1) visited.prems(1) i64_id [of "m_multilevel_scores m"]
    by (auto simp: kept_def in_range_def i64_i64_diff split: option.splits)
  moreover have "m_trav_level m3 = m_trav_level m"
    using F(2) D(5) [OF refl] K(1) visited.prems(1) i32_id [of "m_trav_level m"]
    by (simp add: kept_def in_range_def i32_i32_diff)
  moreover have "om_find t (m_multilevel_factors m3) = om_find t (m_multilevel_factors m)" if "t \<in> abv" for t
    using that F(1) K(1) D(3) [of t] abv(1) by (auto simp: kept_def split: if_splits)
  moreover have "weighted m3 = weighted m" using F(1) K(1) D(2) by (simp add: kept_def weighted_def)
  ultimately show ?case using F(1) K visited.prems(1) by (simp add: kept_def in_range_def)
next
  case (refused v m e m1 ts)
  note D = discover_cases [OF refused.hyps(1) refused.prems(1)]
  have "om_find t (m_multilevel_factors m1) = om_find t (m_multilevel_factors m)" if "t \<in> abv" for t
    using refused.prems(2) that by (intro D(3)) auto
  then show ?case using D(1,2) D(4) [OF refl] by (simp add: kept_def in_range_def)
next
  case (none m)
  then show ?case by (simp add: kept_def in_range_def)
next
  case (more t m m1 ts m2)
  have 1: "kept abv m m1" "in_range m1" using more.IH(1) [OF more.prems(1), of abv] more.prems(2) by simp_all
  then have "weighted m1 = weighted m" by (simp add: kept_def)
  then have "kept abv m1 m2 \<and> in_range m2" using more.IH(2) [OF 1(2), of abv] more.prems by simp
  then show ?case using 1 by (simp add: kept_def)
qed

end
