(* ===== verification/Match_Factory.thy ===== *)
theory Match_Factory
  imports Match_Policies
begin

text \<open>
  The factory of match policies (\<^verbatim>\<open>src/resource/policies/dfu_match_policy_factory.cpp\<close>): the
  named policies, the options of a custom one and the policy object they make. The splitting of a
  string at a character is the argument \<open>split\<close>; a missing part of an option throws, which is
  \<open>Inl Out_of_range\<close>.
\<close>

definition policies :: "(string \<times> string) list" where
  "policies =
    [(''first'', ''policy=high node_centric=true stop_on_1_matches=true''),
     (''firstnodex'', ''policy=high node_centric=true node_exclusive=true stop_on_1_matches=true''),
     (''high'', ''policy=high''),
     (''low'', ''policy=low''),
     (''lonode'', ''policy=low node_centric=true''),
     (''hinode'', ''policy=high node_centric=true''),
     (''lonodex'', ''policy=low node_centric=true node_exclusive=true''),
     (''hinodex'', ''policy=high node_centric=true node_exclusive=true''),
     (''locality'', ''''),
     (''variation'', '''')]"

definition policy_options :: "string list" where
  "policy_options = [''policy'', ''node_centric'', ''stop_on_1_matches'', ''node_exclusive'']"

type_synonym policy_map = "(string, bool) omap"

text \<open>One option: whether the parse goes on, and the map.\<close>

definition parse_option :: "string list \<Rightarrow> policy_map \<Rightarrow> stoi_error + bool \<times> policy_map" where
  "parse_option settings m =
     (case settings of
        [] \<Rightarrow> Inl Out_of_range
      | k # rest \<Rightarrow>
          (if k \<notin> set policy_options then Inr (False, m)
           else case rest of
                  [] \<Rightarrow> Inl Out_of_range
                | v # _ \<Rightarrow>
                    (if k = ''policy'' then
                       (if v = ''high'' then Inr (True, fst (om_insert ''high'' True m))
                        else if v = ''low'' then Inr (True, fst (om_insert ''low'' True m))
                        else Inr (False, m))
                     else if v = ''true'' then Inr (True, fst (om_insert k True m))
                     else if v = ''false'' then (case om_insert k False m of (m', fresh) \<Rightarrow> Inr (fresh, m'))
                     else Inr (False, m))))"

fun parse_options :: "string list list \<Rightarrow> policy_map \<Rightarrow> stoi_error + bool \<times> policy_map" where
  "parse_options [] m = Inr (True, m)"
| "parse_options (settings # rest) m =
     (case parse_option settings m of
        Inl e \<Rightarrow> Inl e
      | Inr (ok, m) \<Rightarrow> (if ok then parse_options rest m else Inr (False, m)))"

definition parse_custom_match_policy :: "(char \<Rightarrow> string \<Rightarrow> string list) \<Rightarrow> string \<Rightarrow> policy_map
    \<Rightarrow> stoi_error + bool \<times> policy_map" where
  "parse_custom_match_policy split long_string m =
     parse_options (map (split (CHR ''='')) (split (CHR '' '') long_string)) m"

definition known_match_policy :: "(char \<Rightarrow> string \<Rightarrow> string list) \<Rightarrow> string \<Rightarrow> stoi_error + bool" where
  "known_match_policy split policy =
     (if map_of policies policy \<noteq> None then Inr True
      else map_sum id fst (parse_custom_match_policy split policy []))"

definition parse_bool_match_options :: "string \<Rightarrow> policy_map \<Rightarrow> bool" where
  "parse_bool_match_options match_option policy \<longleftrightarrow> om_find match_option policy = Some True"

text \<open>The results of the single settings are not used.\<close>

definition configure :: "policy_map \<Rightarrow> multilevel_id \<Rightarrow> multilevel_id" where
  "configure policy p =
     (let p = (if parse_bool_match_options ''node_centric'' policy then snd (add_score_factor node_rt 1 10000 p) else p);
          p = (if parse_bool_match_options ''node_exclusive'' policy
               then p\<lparr>cb_util := snd (add_exclusive_resource_type node_rt (cb_util p))\<rparr> else p)
      in if parse_bool_match_options ''stop_on_1_matches'' policy then snd (set_stop_on_k_matches 1 p) else p)"

definition create_match_cb :: "(char \<Rightarrow> string \<Rightarrow> string list) \<Rightarrow> string \<Rightarrow> stoi_error + match_cb option" where
  "create_match_cb split policy_requested =
     (case parse_custom_match_policy split
             (case map_of policies policy_requested of Some p \<Rightarrow> p | None \<Rightarrow> policy_requested) [] of
        Inl e \<Rightarrow> Inl e
      | Inr (_, policy) \<Rightarrow>
          Inr (if parse_bool_match_options ''high'' policy then Some (High_first (configure policy (new_multilevel_id ''anonymous'')))
               else if parse_bool_match_options ''low'' policy then Some (Low_first (configure policy (new_multilevel_id ''anonymous'')))
               else if policy_requested = ''variation'' then Some (Var_aware (new_match_cb ''anonymous''))
               else if policy_requested = ''locality'' then Some (Locality (new_match_cb ''anonymous''))
               else None))"

end
