(* ===== verification/Match_Properties.thy ===== *)
theory Match_Properties
  imports Policies_Balance Match_Factory
begin

text \<open>
  The properties of the matcher: how much of a request is taken, which candidates are chosen, and what a
  vertex answers once the walk has seen everything below it.
\<close>

section \<open>How much is taken\<close>

text \<open>C34. Where the arithmetic does not wrap, \<^verbatim>\<open>calc_count\<close> ends with the greatest count
  of the progression of the request that is at most its maximum and at most what qualifies.\<close>

theorem calc_count_greatest:
  assumes "valid_count c" and "count_min c \<le> qc" and "qc < 2 ^ 32" and "no_wrap c qc"
  shows "\<exists>k. calc_count c qc = Some (count_at c k) \<and> count_at c k \<le> qc \<and> count_at c k \<le> count_max c \<and>
    (\<forall>j. count_at c j \<le> qc \<and> count_at c j \<le> count_max c \<longrightarrow> count_at c j \<le> count_at c k)"
  using calc_count_greatest_of [OF assms] by (auto simp: greatest_count_def)

definition doubling :: res_count where
  "doubling = \<lparr>count_min = 1, count_max = 16, count_oper = CHR ''*'', count_operand = 2\<rparr>"

theorem calc_count_greatest_witness:
  "\<exists>k. calc_count doubling 10 = Some (count_at doubling k) \<and> count_at doubling k \<le> 10 \<and> count_at doubling k \<le> 16 \<and>
    (\<forall>j. count_at doubling j \<le> 10 \<and> count_at doubling j \<le> 16 \<longrightarrow> count_at doubling j \<le> count_at doubling k)"
proof -
  have "no_wrap doubling 10" by (auto simp: no_wrap_def doubling_def next_count_def)
  then show ?thesis using calc_count_greatest [of doubling 10] by (simp add: valid_count_def doubling_def)
qed

text \<open>C35. A request that multiplies up to the largest 32-bit count, which the parser lets through,
  has no effective maximum: the multiplication wraps around and the loop never ends.\<close>

theorem effective_max_never_ends:
  assumes "valid_count c" and "count_oper c = CHR ''*''" and "count_max c = 2 ^ 32 - 1"
  shows "calc_effective_max c = None"
  using assms by (rule effective_max_diverges)

theorem effective_max_never_ends_witness:
  "calc_effective_max (doubling\<lparr>count_max := 2 ^ 32 - 1\<rparr>) = None"
  using effective_max_never_ends [of "doubling\<lparr>count_max := 2 ^ 32 - 1\<rparr>"] by (simp add: valid_count_def doubling_def)

section \<open>Which candidates are chosen\<close>

text \<open>C36. \<^verbatim>\<open>choose_best_k\<close> with the order of the high-first policy, whatever sort it uses:
  a prefix of the groups gives exactly \<open>k\<close> units, no group more than it has, no group left
  over is better than one that was chosen, no chosen group could be spared, and no group is lost.\<close>

theorem choose_best_chooses:
  assumes "evals_ok e" and "sorts srt" and "0 < k" and "k \<le> m_qual_count e" and "k < 2 ^ 31" and "length (m_eval_egroups e) < 2 ^ 32"
  shows "\<exists>e' chosen rest. choose_best_k srt fold_greater k e = Some (Inr (i32 (m_best_k e)), e') \<and>
    m_eval_egroups e' = chosen @ rest \<and> length chosen = nat (m_best_i e') \<and> m_best_k e' = k \<and>
    mset (map plain_groups (chosen @ rest)) = mset (map plain_groups (m_eval_egroups e)) \<and>
    sum_list (map needs chosen) = k \<and> (\<forall>g\<in>set chosen. 0 \<le> needs g \<and> needs g \<le> eg_count g) \<and>
    (\<forall>g\<in>set chosen. \<forall>h\<in>set rest. \<not> fold_greater h g) \<and> total_of (butlast chosen) < k"
  by (rule greater.choose_best [OF assms]) blast

definition two_groups :: evals where
  "two_groups = snd (evals_add (egroup 9 3 0 0 False) (snd (evals_add (egroup 5 4 0 0 False) (evals_of 0 ''core''))))"

lemma two_groups_ok: "evals_ok two_groups" "m_qual_count two_groups = 7" "length (m_eval_egroups two_groups) = 2" "m_best_k two_groups = 0"
proof -
  show "evals_ok two_groups" unfolding two_groups_def by (intro evals_add_ok new_evals_ok(2)) (simp_all add: egroup_def)
qed code_simp+

theorem choose_best_chooses_witness:
  "\<exists>e' chosen rest. choose_best_k sort_by fold_greater 4 two_groups = Some (Inr 0, e') \<and> m_eval_egroups e' = chosen @ rest \<and>
    sum_list (map needs chosen) = 4 \<and> (\<forall>g\<in>set chosen. \<forall>h\<in>set rest. \<not> fold_greater h g)"
proof -
  have "i32 0 = 0" by (simp add: i32_def)
  then show ?thesis using choose_best_chooses [OF two_groups_ok(1) sorts_sort_by, of 4] two_groups_ok(2-4) by auto
qed

section \<open>What a vertex answers\<close>

text \<open>C37. Once everything below a vertex is seen, every policy accepts the vertex exactly when what
  qualifies below it reaches the minimum of each request, else it answers that it is busy; the candidates
  stay consistent, and each request of a type of its own is met with the greatest count it asks for.\<close>

theorem finish_vertex_exact:
  assumes "scores_ok d" and "sorts srt" and "\<forall>r\<in>set (children (vtype v) rs). countable (request_count r)"
  shows "\<exists>d' m'. dom_finish_vtx srt v s rs d m
           = Some (if \<forall>r\<in>set (children (vtype v) rs). count_min (request_count r) \<le> qual s (res_type r) d then Inr 0 else Inl EBUSY, d', m') \<and>
         scores_ok d' \<and> (\<forall>s r. qual s r d' = qual s r d) \<and>
         ((\<forall>r\<in>set (children (vtype v) rs). count_min (request_count r) \<le> qual s (res_type r) d) \<and> distinct (map res_type (children (vtype v) rs)) \<longrightarrow>
            (\<forall>r\<in>set (children (vtype v) rs). small (entry s (res_type r) d) \<longrightarrow>
               (\<exists>n. greatest_count (request_count r) (qual s (res_type r) d) n \<and> chosen_k n (entry s (res_type r) d'))))"
  using dom_finish_vtx_ok [OF assms, of s m] by (auto simp: can_meet_def same_quals_def met_with_def)

definition any_count :: res_count where
  "any_count = \<lparr>count_min = 1, count_max = 16, count_oper = CHR ''+'', count_operand = 1\<rparr>"

definition core_request :: "resource list" where
  "core_request = [Resource ''node'' any_count [] [] [] UNSPECIFIED [Resource ''core'' any_count [] [] [] UNSPECIFIED [] []] []]"

definition core_scores :: scoring where
  "core_scores = snd (scoring_add ''containment'' ''core'' (egroup 9 3 0 0 False)
     (snd (scoring_add ''containment'' ''core'' (egroup 5 4 0 0 False) new_scoring)))"

definition core_node :: resource_pool where
  "core_node = \<lparr>vtype = ''node'', basename = ''node'', vname = ''node0'', properties = [], vid = 0, rank = 0, paths = [], uniq_id = 1, vsize = 1,
     unit = [], schedule = new_schedule, idata = new_pool_infra, status = UP\<rparr>"

lemma core_scores_ok: "scores_ok core_scores" "qual ''containment'' ''core'' core_scores = 7" "small (entry ''containment'' ''core'' core_scores)"
proof -
  show "scores_ok core_scores" unfolding core_scores_def by (intro scores_ok_add scores_ok_new) (simp_all add: egroup_def)
  show q: "qual ''containment'' ''core'' core_scores = 7" by code_simp
  have "length (m_eval_egroups (entry ''containment'' ''core'' core_scores)) = 2" by code_simp
  then show "small (entry ''containment'' ''core'' core_scores)" using q by (simp add: small_def qual_def)
qed

theorem finish_vertex_exact_witness:
  "\<exists>d' m'. dom_finish_vtx sort_by core_node ''containment'' core_request core_scores (Low_first (new_multilevel_id ''low'')) = Some (Inr 0, d', m') \<and>
     scores_ok d' \<and> (\<exists>n. greatest_count any_count 7 n \<and> chosen_k n (entry ''containment'' ''core'' d'))"
proof -
  have c: "children (vtype core_node) core_request = [Resource ''core'' any_count [] [] [] UNSPECIFIED [] []]"
    by (simp add: children_def core_node_def core_request_def)
  have a: "countable any_count" "count_min any_count = 1" by (auto simp: any_count_def valid_count_def intro!: countable_plus)
  then show ?thesis
    using finish_vertex_exact [OF core_scores_ok(1) sorts_sort_by, of core_node core_request "''containment''" "Low_first (new_multilevel_id ''low'')"]
      core_scores_ok(2,3) unfolding c by auto
qed

end
