(* ===== verification/Jobspec_Constraint.thy ===== *)
theory Jobspec_Constraint
  imports Resource_Graph
begin

text \<open>
  The constraints of a jobspec (\<^verbatim>\<open>src/resource/libjobspec/constraint.cpp\<close>,
  \<^verbatim>\<open>hostlist_constraint.cpp\<close>, \<^verbatim>\<open>rank_constraint.cpp\<close>) and when a vertex matches one.
  A host list and a set of ranks belong to a library outside the sources: the two lookups are
  arguments of the match, on the texts the constraint was made from.
\<close>

datatype constraint = Constraint | PropertyConstraint "string list" | HostlistConstraint "string list"
  | RankConstraint "string list" | ConditionalConstraint string "constraint list"

record constraint_lib =
  hostlist_find :: "string list \<Rightarrow> string \<Rightarrow> bool"
  idset_test :: "string list \<Rightarrow> int \<Rightarrow> bool"

definition property_found :: "resource_pool \<Rightarrow> string \<Rightarrow> bool" where
  "property_found v value =
     (case value of
        CHR ''^'' # property \<Rightarrow> om_find property (properties v) = None
      | _ \<Rightarrow> om_find value (properties v) \<noteq> None)"

fun constraint_match :: "constraint_lib \<Rightarrow> resource_pool \<Rightarrow> constraint \<Rightarrow> bool" where
  "constraint_match lib v Constraint = True"
| "constraint_match lib v (PropertyConstraint values) = list_all (property_found v) values"
| "constraint_match lib v (HostlistConstraint hl) = hostlist_find lib hl (vname v)"
| "constraint_match lib v (RankConstraint ranks) = idset_test lib ranks (rank v)"
| "constraint_match lib v (ConditionalConstraint op cs) =
     (if op = ''and'' then list_all (constraint_match lib v) cs
      else if op = ''or'' then list_ex (constraint_match lib v) cs
      else if op = ''not'' then \<not> list_all (constraint_match lib v) cs
      else False)"

end
