(* ===== verification/Traverser.thy ===== *)
theory Traverser
  imports Match_Policies Jobspec_Constraint
begin

text \<open>
  The traverser, its matching part (\<^verbatim>\<open>src/resource/traversers/dfu_impl.cpp\<close>): the depth-first
  walk that prunes vertices, scores the others by the match policy, packs slots and marks the chosen
  edges.

  The recursion of the walk is bounded by a counter that its callers start with more than twice the
  number of vertices, which is enough for a walk down and one up from its end; \<open>None\<close> is a counter that ran out, a loop that does not end or undefined behaviour below.
  Messages are not modelled; a failure that stores no error number is \<open>UNSET\<close>.
\<close>

section \<open>State\<close>

datatype alloc_type = AT_ALLOC | AT_ALLOC_ORELSE_RESERVE | AT_SATISFIABILITY | AT_NO_ALLOC

datatype visit = DFV | UPV

datatype match_kind = RESOURCE_MATCH | SLOT_MATCH | NONE_MATCH | PRISTINE_NONE_MATCH

record jobmeta =
  alloc_type :: alloc_type
  jobid :: int
  jm_at :: int
  jm_now :: int
  jm_duration :: int
  jm_constraint :: "constraint option"
  jm_queue :: "string option"

text \<open>What the walk takes from outside the sources, and the sort.\<close>

record walk_lib = constraint_lib +
  lib_sort :: sort_fun
  lib_icl :: "int list \<Rightarrow> int \<Rightarrow> int \<times> int"

text \<open>\<open>aux_root\<close> is the static variable of \<^verbatim>\<open>aux_upv\<close>: \<open>None\<close> before its first use.\<close>

record trav =
  m_graph_db :: resource_graph_db
  m_match :: match_cb
  m_color :: color
  m_sequence_number :: int
  m_trav_level :: int
  m_preorder :: int
  m_postorder :: int
  aux_root :: "nat option option"

abbreviation graph :: "trav \<Rightarrow> resource_graph" where
  "graph t \<equiv> resource_graph (m_graph_db t)"

abbreviation vtx :: "trav \<Rightarrow> nat \<Rightarrow> resource_pool" where
  "vtx t u \<equiv> g_vtxs (graph t) ! u"

abbreviation dom_of :: "trav \<Rightarrow> string" where
  "dom_of t \<equiv> dom_subsystem (data_of (m_match t))"

abbreviation subsystems_of :: "trav \<Rightarrow> string list" where
  "subsystems_of t \<equiv> m_subsystems (data_of (m_match t))"

definition upd_graph :: "(resource_graph \<Rightarrow> resource_graph) \<Rightarrow> trav \<Rightarrow> trav" where
  "upd_graph f t = t\<lparr>m_graph_db := (m_graph_db t)\<lparr>resource_graph := f (graph t)\<rparr>\<rparr>"

definition color_vtx :: "nat \<Rightarrow> string \<Rightarrow> int \<Rightarrow> trav \<Rightarrow> trav" where
  "color_vtx u s c t = upd_graph (upd_vtx u (\<lambda>v. v\<lparr>idata := (idata v)\<lparr>colors := om_assign s c (colors (idata v))\<rparr>\<rparr>)) t"

definition tick :: "trav \<Rightarrow> trav" where
  "tick t = t\<lparr>m_sequence_number := u64 (m_sequence_number t + 1), m_color := color_reset (m_color t)\<rparr>"

definition in_subsystem :: "trav \<Rightarrow> nat \<Rightarrow> string \<Rightarrow> bool" where
  "in_subsystem t e s \<longleftrightarrow> edge_subsystem (g_edgs (graph t) ! e) = s"

definition target :: "trav \<Rightarrow> nat \<Rightarrow> nat" where
  "target t e = edge_target (g_edgs (graph t) ! e)"

definition source :: "trav \<Rightarrow> nat \<Rightarrow> nat" where
  "source t e = edge_source (g_edgs (graph t) ! e)"

definition stop_explore :: "trav \<Rightarrow> nat \<Rightarrow> string \<Rightarrow> bool" where
  "stop_explore t e s =
     (case om_find s (colors (idata (vtx t (target t e)))) of
        None \<Rightarrow> False
      | Some c \<Rightarrow> is_gray (m_color t) c \<or> is_black (m_color t) c)"

definition exclusivity :: "resource list \<Rightarrow> resource_pool \<Rightarrow> bool" where
  "exclusivity resources v \<longleftrightarrow> list_ex (\<lambda>r. res_type r = vtype v \<and> res_exclusive r = TRUE) resources"

section \<open>Pruning\<close>

definition avail_of :: "jobmeta \<Rightarrow> resource_pool \<Rightarrow> int result" where
  "avail_of meta v = planner_avail_resources_during (plans (schedule v)) (jm_at meta) (u64 (jm_duration meta))"

definition by_avail :: "jobmeta \<Rightarrow> resource_pool \<Rightarrow> int result" where
  "by_avail meta v =
     (case avail_of meta v of
        Inl e \<Rightarrow> Inl e
      | Inr avail \<Rightarrow> (if avail = 0 then Inl EBUSY else if avail = - 1 then Inl UNSET else Inr 0))"

definition by_excl :: "jobmeta \<Rightarrow> resource_pool \<Rightarrow> bool \<Rightarrow> resource \<Rightarrow> int result" where
  "by_excl meta v exclusive_in r =
     (if exclusive_in \<and> res_exclusive r = FALSE then Inl EINVAL
      else if exclusive_in \<or> res_exclusive r = TRUE then
        (if jm_at meta = jm_now meta \<and> (alloc_type meta = AT_ALLOC \<or> alloc_type meta = AT_NO_ALLOC)
            \<and> allocations (schedule v) \<noteq> [] then Inl EBUSY
         else case planner_avail_resources_during (x_checker (idata v)) (jm_at meta) (u64 (jm_duration meta)) of
                Inl e \<Rightarrow> Inl e
              | Inr njobs \<Rightarrow>
                  (if njobs = - 1 then Inl UNSET else if njobs < X_CHECKER_NJOBS then Inl EBUSY else Inr 0))
      else Inr 0)"

definition count_relevant_types :: "planner_multi option \<Rightarrow> (string, int) omap \<Rightarrow> int list option" where
  "count_relevant_types plan lookup =
     those (map (\<lambda>i. planner_multi_resource_type_at plan i \<bind>
                     (\<lambda>ty. case ty of Inl _ \<Rightarrow> None | Inr ty \<Rightarrow> Some (u64 (om_get 0 ty lookup))))
                [0..<planner_multi_resources_len plan])"

definition by_subplan :: "jobmeta \<Rightarrow> string \<Rightarrow> resource_pool \<Rightarrow> resource \<Rightarrow> int result option" where
  "by_subplan meta s v r =
     (case om_get None s (subplans (idata v)) of
        None \<Rightarrow> Some (Inr 0)
      | Some p \<Rightarrow>
          (if user_data r = [] then Some (Inr 0)
           else do {
             aggs \<leftarrow> count_relevant_types (Some p) (user_data r);
             Some (map_sum id (\<lambda>_. 0) (planner_multi_avail_during (Some p) (jm_at meta) (u64 (jm_duration meta)) (Some aggs)))
           }))"

definition by_status :: "jobmeta \<Rightarrow> resource_pool \<Rightarrow> bool" where
  "by_status meta v \<longleftrightarrow> \<not> (alloc_type meta \<noteq> AT_SATISFIABILITY \<and> status v \<noteq> UP)"

definition by_constraint :: "'a constraint_lib_scheme \<Rightarrow> jobmeta \<Rightarrow> resource_pool \<Rightarrow> bool" where
  "by_constraint lib meta v =
     (case jm_constraint meta of
        None \<Rightarrow> True
      | Some c \<Rightarrow> \<not> ((vtype v = node_rt \<or> vtype v = storage_node_rt)
                     \<and> \<not> constraint_match (constraint_lib.truncate lib) v c))"

fun prune_resources :: "jobmeta \<Rightarrow> bool \<Rightarrow> string \<Rightarrow> resource_pool \<Rightarrow> resource list \<Rightarrow> int result option" where
  "prune_resources meta x_in s v [] = Some (Inr 0)"
| "prune_resources meta x_in s v (r # rs) =
     (if vtype v \<noteq> res_type r \<and> res_type r \<noteq> slot_rt then prune_resources meta x_in s v rs
      else case (if res_type r \<noteq> slot_rt then by_excl meta v x_in r else Inr 0) of
             Inl e \<Rightarrow> Some (Inl e)
           | Inr _ \<Rightarrow> do {
               b \<leftarrow> by_subplan meta s v r;
               case b of Inl e \<Rightarrow> Some (Inl e) | Inr _ \<Rightarrow> prune_resources meta x_in s v rs
             })"

definition not_erange :: "int result \<Rightarrow> int result" where
  "not_erange r = (case r of Inl e \<Rightarrow> Inl (if e = ERANGE then EBUSY else e) | Inr x \<Rightarrow> Inr x)"

definition prune :: "'a constraint_lib_scheme \<Rightarrow> jobmeta \<Rightarrow> bool \<Rightarrow> string \<Rightarrow> resource_pool \<Rightarrow> resource list \<Rightarrow> int result option" where
  "prune lib meta x_in s v resources =
     (if \<not> by_status meta v then Some (Inl EBUSY)
      else if \<not> by_constraint lib meta v then Some (Inl EBUSY)
      else case by_avail meta v of
             Inl e \<Rightarrow> Some (not_erange (Inl e))
           | Inr _ \<Rightarrow> map_option not_erange (prune_resources meta x_in s v resources))"

section \<open>Which request a vertex meets\<close>

record match_state =
  matched :: bool
  slot_resource :: "resource option"
  nslots :: int
  match_resource :: "resource option"

fun match_slots :: "resource list \<Rightarrow> match_state \<Rightarrow> match_state option" where
  "match_slots [] m = Some m"
| "match_slots (c # cs) m =
     (if res_type c = slot_rt then do {
        n \<leftarrow> calc_effective_max (request_count c);
        match_slots cs (m\<lparr>slot_resource := Some c, nslots := n\<rparr>)
      }
      else match_slots cs m)"

text \<open>The first result is the success.\<close>

fun match_loop :: "string \<Rightarrow> resource list \<Rightarrow> match_state \<Rightarrow> (bool \<times> match_state) option" where
  "match_loop ty [] m = Some (True, m)"
| "match_loop ty (r # rs) m =
     (if ty = res_type r then
        (if matched m then Some (False, m)
         else do {
           m \<leftarrow> match_slots (res_with r) (m\<lparr>match_resource := Some r\<rparr>);
           match_loop ty rs (m\<lparr>matched := True\<rparr>)
         })
      else if res_type r = slot_rt then
        (if matched m then Some (False, m)
         else do {
           n \<leftarrow> calc_effective_max (request_count r);
           match_loop ty rs (m\<lparr>slot_resource := Some r, nslots := n, matched := True\<rparr>)
         })
      else match_loop ty rs m)"

definition slot_match :: "trav \<Rightarrow> nat \<Rightarrow> resource option \<Rightarrow> bool" where
  "slot_match t u slot =
     (case slot of
        None \<Rightarrow> False
      | Some r \<Rightarrow>
          list_all (\<lambda>c. list_ex (\<lambda>e. vtype (vtx t (target t e)) = res_type c) (out_edges (graph t) u)) (res_with r))"

text \<open>The requests to go on with, whether still none was met, the number of slots and the kind.\<close>

definition test :: "trav \<Rightarrow> nat \<Rightarrow> resource list \<Rightarrow> bool \<Rightarrow> (resource list \<times> bool \<times> int \<times> match_kind) option" where
  "test t u resources pristine = do {
     (ok, m) \<leftarrow> match_loop (vtype (vtx t u)) resources
                  \<lparr>matched = False, slot_resource = None, nslots = 0, match_resource = None\<rparr>;
     Some (if \<not> ok then (resources, pristine, nslots m, NONE_MATCH)
           else case (slot_match t u (slot_resource m), slot_resource m, match_resource m) of
                  (True, Some sr, _) \<Rightarrow> (res_with sr, False, nslots m, SLOT_MATCH)
                | (_, _, Some mr) \<Rightarrow> (res_with mr, False, nslots m, RESOURCE_MATCH)
                | _ \<Rightarrow> (resources, pristine, nslots m, if pristine then PRISTINE_NONE_MATCH else NONE_MATCH))
   }"

end
