(* ===== verification/Traverser_Walk.thy ===== *)
theory Traverser_Walk
  imports Traverser
begin

text \<open>
  The walk itself (\<^verbatim>\<open>src/resource/traversers/dfu_impl.cpp\<close>): exploring the out-edges, packing
  slots, resolving and enforcing the choices, and \<^verbatim>\<open>select\<close>, which starts it.
\<close>

section \<open>Enforcing the choice\<close>

definition find_parent_edge :: "trav \<Rightarrow> string \<Rightarrow> nat \<Rightarrow> nat option" where
  "find_parent_edge t s v = List.find (\<lambda>e. in_subsystem t e s) (in_edges (graph t) v)"

definition mark_edge :: "nat \<Rightarrow> int \<Rightarrow> int \<Rightarrow> trav \<Rightarrow> trav" where
  "mark_edge e n x t = upd_graph (upd_edg e (set_for_trav_update n x (m_sequence_number t))) t"

text \<open>The types the loops ask for have their entries, so nothing is made here.\<close>

definition unconstrained :: "string \<Rightarrow> string \<Rightarrow> scoring \<Rightarrow> bool" where
  "unconstrained s ty d \<longleftrightarrow> fst (is_contained s ty d) \<and> m_best_k (entry s ty d) = 0"

partial_function (option) climb :: "string \<Rightarrow> scoring \<Rightarrow> nat \<Rightarrow> trav \<Rightarrow> trav option" where
  "climb s d v t =
     (case find_parent_edge t s v of
        None \<Rightarrow> Some t
      | Some e \<Rightarrow>
          (if m_edge_seq (edge_idata (g_edgs (graph t) ! e)) = m_sequence_number t then Some t
           else
             (let tgt = vtx t (target t e)
              in climb s d (source t e) (if unconstrained s (vtype tgt) d then mark_edge e (vsize tgt) 0 t else t))))"

fun enforce_edges :: "bool \<Rightarrow> string \<Rightarrow> scoring \<Rightarrow> eval_edg list \<Rightarrow> trav \<Rightarrow> trav option" where
  "enforce_edges unc s d [] t = Some t"
| "enforce_edges unc s d (e # es) t = do {
     let t = mark_edge (edge e) (edg_needs e) (i32 (edg_exclusive e)) t;
     t \<leftarrow> (if unc \<and> s = dom_of t then climb s d (source t (edge e)) t else Some t);
     enforce_edges unc s d es t
   }"

text \<open>\<^verbatim>\<open>at\<close> throws for a position that is not there, which ends the whole function.\<close>

fun enforce_groups :: "bool \<Rightarrow> string \<Rightarrow> scoring \<Rightarrow> string \<Rightarrow> nat list \<Rightarrow> trav \<Rightarrow> (int result \<times> trav) option" where
  "enforce_groups unc s d ty [] t = Some (Inr 0, t)"
| "enforce_groups unc s d ty (i # is) t =
     (case evals_at i (entry s ty d) of
        None \<Rightarrow> Some (Inl ERANGE, t)
      | Some g \<Rightarrow>
          (if root g then enforce_groups unc s d ty is t
           else do { t \<leftarrow> enforce_edges unc s d (edges g) t; enforce_groups unc s d ty is t }))"

fun enforce_types :: "bool \<Rightarrow> string \<Rightarrow> scoring \<Rightarrow> string list \<Rightarrow> trav \<Rightarrow> (int result \<times> trav) option" where
  "enforce_types unc s d [] t = Some (Inr 0, t)"
| "enforce_types unc s d (ty # tys) t =
     (if m_best_k (entry s ty d) = 0 then enforce_types unc s d tys t
      else do {
        (r, t) \<leftarrow> enforce_groups unc s d ty [0..<nat (i32 (m_best_i (entry s ty d)))] t;
        case r of Inl e \<Rightarrow> Some (Inl e, t) | Inr _ \<Rightarrow> enforce_types unc s d tys t
      })"

definition enforce :: "bool \<Rightarrow> string \<Rightarrow> scoring \<Rightarrow> trav \<Rightarrow> (int result \<times> scoring \<times> trav) option" where
  "enforce unc s d t = (case resrc_types s d of (tys, d) \<Rightarrow> map_option (\<lambda>(r, t). (r, d, t)) (enforce_types unc s d tys t))"

text \<open>The results are summed, so one failure among them is a failure.\<close>

fun enforce_all :: "bool \<Rightarrow> string list \<Rightarrow> scoring \<Rightarrow> trav \<Rightarrow> (int result \<times> scoring \<times> trav) option" where
  "enforce_all unc [] d t = Some (Inr 0, d, t)"
| "enforce_all unc (s # ss) d t = do {
     (r, d, t) \<leftarrow> enforce unc s d t;
     (r', d, t) \<leftarrow> enforce_all unc ss d t;
     Some (case r of Inl e \<Rightarrow> Inl e | Inr _ \<Rightarrow> r', d, t)
   }"

definition resolve :: "scoring \<Rightarrow> scoring \<Rightarrow> trav \<Rightarrow> (int result \<times> scoring \<times> scoring \<times> trav) option" where
  "resolve d to_parent t =
     (if m_overall_score d > MATCH_UNMET then
        (if m_hier_constrain_now d then map_option (\<lambda>(r, d, t). (r, d, to_parent, t)) (enforce_all False (subsystems_of t) d t)
         else Some (Inr 0, d, scoring_merge d to_parent, t))
      else Some (Inr 0, d, to_parent, t))"

section \<open>Exploring\<close>

type_synonym visitor =
  "nat \<Rightarrow> resource list \<Rightarrow> bool \<Rightarrow> bool \<Rightarrow> scoring \<Rightarrow> trav \<Rightarrow> (int result \<times> bool \<times> scoring \<times> trav) option"

text \<open>The group added for a vertex that was matched.\<close>

definition add_found :: "string \<Rightarrow> string \<Rightarrow> nat \<Rightarrow> bool \<Rightarrow> scoring \<Rightarrow> scoring" where
  "add_found s ty e x d =
     (let ev = \<lparr>edg_count = m_avail d, edg_needs = m_avail d, edg_exclusive = of_bool x, edge = e\<rparr>
      in snd (scoring_add s ty ((egroup (m_overall_score d) (m_avail d) 0 (of_bool x) False)\<lparr>edges := [ev]\<rparr>) d))"

fun explore_statically :: "visitor \<Rightarrow> string \<Rightarrow> resource list \<Rightarrow> bool \<Rightarrow> bool \<Rightarrow> nat list \<Rightarrow> bool \<Rightarrow> scoring \<Rightarrow> trav
    \<Rightarrow> (bool \<times> scoring \<times> trav) option" where
  "explore_statically visit s resources pristine excl [] found d t = Some (found, d, t)"
| "explore_statically visit s resources pristine excl (e # es) found d t =
     (if stop_explore t e s \<or> \<not> in_subsystem t e s then explore_statically visit s resources pristine excl es found d t
      else do {
        (rc, x, d, t) \<leftarrow> visit (target t e) resources pristine excl d t;
        case rc of
          Inl _ \<Rightarrow> explore_statically visit s resources pristine excl es found d t
        | Inr _ \<Rightarrow>
            explore_statically visit s resources pristine excl es True
              (add_found s (vtype (vtx t (target t e))) e x d) t
      })"

record share_tally =
  per_share :: int
  prev_total :: int
  accum :: int
  shares :: int

definition new_tally :: share_tally where
  "new_tally = \<lparr>per_share = 0, prev_total = 0, accum = 0, shares = 0\<rparr>"

definition satisfies :: "int \<Rightarrow> share_tally \<Rightarrow> bool" where
  "satisfies multiplier y \<longleftrightarrow> per_share y = 0 \<or> shares y \<ge> multiplier"

definition tally_add :: "int \<Rightarrow> share_tally \<Rightarrow> share_tally" where
  "tally_add n y =
     (let a = u32 (accum y + n)
      in if per_share y > 0 \<and> a \<ge> per_share y then y\<lparr>shares := u32 (shares y + 1), accum := 0\<rparr> else y\<lparr>accum := a\<rparr>)"

type_synonym tally_map = "(string, share_tally) omap"

fun tally_shares :: "string \<Rightarrow> tally_map \<Rightarrow> scoring \<Rightarrow> tally_map \<times> scoring" where
  "tally_shares s [] d = ([], d)"
| "tally_shares s ((ty, y) # ys) d =
     (case total_count s ty d of
        (tot, d) \<Rightarrow>
          (let y = (if tot \<le> prev_total y then y
                    else tally_add (tot - prev_total y) (y\<lparr>prev_total := tot\<rparr>))
           in case tally_shares s ys d of (ys, d) \<Rightarrow> ((ty, y) # ys, d)))"

definition is_enough :: "resource list \<Rightarrow> tally_map \<Rightarrow> int \<Rightarrow> bool" where
  "is_enough resources tallies multiplier \<longleftrightarrow>
     list_all (\<lambda>r. satisfies multiplier (om_get new_tally (res_type r) tallies)) resources"

definition new_sat_types :: "resource list \<Rightarrow> tally_map \<Rightarrow> int \<Rightarrow> type_set \<Rightarrow> type_set" where
  "new_sat_types resources tallies multiplier sat =
     fold (\<lambda>r sat. if satisfies multiplier (om_get new_tally (res_type r) tallies) then om_assign (res_type r) () sat else sat)
       resources sat"

fun init_tallies :: "resource list \<Rightarrow> tally_map \<Rightarrow> tally_map option" where
  "init_tallies [] ys = Some ys"
| "init_tallies (r # rs) ys = do {
     n \<leftarrow> calc_effective_max (request_count r);
     init_tallies rs (om_assign (res_type r) ((om_get new_tally (res_type r) ys)\<lparr>per_share := n\<rparr>) ys)
   }"

fun dynamic_loop :: "visitor \<Rightarrow> string \<Rightarrow> resource list \<Rightarrow> bool \<Rightarrow> bool \<Rightarrow> int \<Rightarrow> nat list \<Rightarrow> type_set \<Rightarrow> tally_map \<Rightarrow> bool
    \<Rightarrow> scoring \<Rightarrow> trav \<Rightarrow> (bool \<times> scoring \<times> trav) option" where
  "dynamic_loop visit s resources pristine excl multiplier [] sat ys found d t = Some (found, d, t)"
| "dynamic_loop visit s resources pristine excl multiplier (e # es) sat ys found d t =
     (if stop_explore t e s \<or> \<not> in_subsystem t e s \<or> has_type (vtype (vtx t (target t e))) sat
      then dynamic_loop visit s resources pristine excl multiplier es sat ys found d t
      else do {
        (rc, x, d, t) \<leftarrow> visit (target t e) resources pristine excl d t;
        case rc of
          Inl _ \<Rightarrow> dynamic_loop visit s resources pristine excl multiplier es sat ys found d t
        | Inr _ \<Rightarrow>
            (case tally_shares s ys (add_found s (vtype (vtx t (target t e))) e x d) of
               (ys, d) \<Rightarrow>
                 (let sat = new_sat_types resources ys multiplier sat
                  in if is_enough resources ys multiplier then Some (True, d, t)
                     else dynamic_loop visit s resources pristine excl multiplier es sat ys True d t))
      })"

definition explore_dynamically :: "visitor \<Rightarrow> nat \<Rightarrow> string \<Rightarrow> resource list \<Rightarrow> bool \<Rightarrow> bool \<Rightarrow> int \<Rightarrow> scoring \<Rightarrow> trav
    \<Rightarrow> (bool \<times> scoring \<times> trav) option" where
  "explore_dynamically visit u s resources pristine excl multiplier d t =
     (case om_find u (by_outedges (metadata (m_graph_db t))) of
        None \<Rightarrow> Some (False, d, t)
      | Some outedges \<Rightarrow> do {
          ys \<leftarrow> init_tallies resources [];
          dynamic_loop visit s resources pristine excl multiplier (map snd (rev outedges)) [] ys False d t
        })"

text \<open>Whether something was found.\<close>

definition explore :: "visitor \<Rightarrow> nat \<Rightarrow> string \<Rightarrow> resource list \<Rightarrow> bool \<Rightarrow> bool \<Rightarrow> int \<Rightarrow> scoring \<Rightarrow> trav
    \<Rightarrow> (bool \<times> scoring \<times> trav) option" where
  "explore visit u s resources pristine excl multiplier d t =
     (if get_stop_on_k_matches (m_match t) = 0
      then explore_statically visit s resources pristine excl (out_edges (graph t) u) False d t
      else explore_dynamically visit u s resources pristine excl multiplier d t)"

section \<open>Walking up\<close>

primrec aux_upv :: "nat \<Rightarrow> 'a constraint_lib_scheme \<Rightarrow> jobmeta \<Rightarrow> string \<Rightarrow> visitor" where
  "aux_upv 0 lib meta aux u resources pristine excl to_parent t = None"
| "aux_upv (Suc n) lib meta aux u resources pristine excl to_parent t =
     (let rt = (case aux_root t of None \<Rightarrow> om_find aux (roots (metadata (m_graph_db t))) | Some r \<Rightarrow> r);
          t = t\<lparr>aux_root := Some rt\<rparr>
      in case rt of
           None \<Rightarrow> Some (Inl UNSET, excl, to_parent, t)
         | Some rv \<Rightarrow> do {
             p \<leftarrow> prune lib meta excl aux (vtx t u) resources;
             case p of
               Inl e \<Rightarrow> Some (Inl e, excl, to_parent, t)
             | Inr _ \<Rightarrow> do {
                 let t = t\<lparr>m_match := aux_discover_vtx (m_match t)\<rparr>;
                 (_, upv, t) \<leftarrow>
                   (if u \<noteq> rv then explore (aux_upv n lib meta aux) u aux resources pristine excl 1 new_scoring t
                    else Some (False, new_scoring, t));
                 case avail_of meta (vtx t u) of
                   Inl e \<Rightarrow> Some (Inl e, excl, to_parent, t)
                 | Inr avail \<Rightarrow>
                     (if avail = 0 \<or> avail = - 1 then Some (Inl UNSET, excl, to_parent, t)
                      else do {
                        let t = t\<lparr>m_match := aux_finish_vtx (m_match t)\<rparr>;
                        (r, _, to_parent, t) \<leftarrow> resolve upv to_parent t;
                        Some (r, excl, to_parent, t)
                      })
               }
           })"

section \<open>Slots\<close>

definition first_edge :: "eval_egroup \<Rightarrow> eval_edg option" where
  "first_edge g = (case edges g of [] \<Rightarrow> None | e # _ \<Rightarrow> Some e)"

partial_function (option) tally_groups :: "string \<Rightarrow> string \<Rightarrow> share_tally \<Rightarrow> scoring \<Rightarrow> (share_tally \<times> scoring) option" where
  "tally_groups s ty y d = do {
     (i, d) \<leftarrow> eval_egroups_iter_next s ty d;
     let (n, d) = eval_egroups_end s ty d;
     if i = n then Some (y, d)
     else do { e \<leftarrow> first_edge (m_eval_egroups (entry s ty d) ! i); tally_groups s ty (tally_add (edg_count e) y) d }
   }"

fun cnt_loop :: "string \<Rightarrow> resource list \<Rightarrow> int \<Rightarrow> scoring \<Rightarrow> (int \<times> scoring) option" where
  "cnt_loop s [] qual d = Some (qual, d)"
| "cnt_loop s (r # rs) qual d =
     (case qualified_count s (res_type r) d of
        (qc, d) \<Rightarrow> do {
          c \<leftarrow> calc_count (request_count r) qc;
          (y, d) \<leftarrow> (if c \<noteq> 0 then tally_groups s (res_type r) (new_tally\<lparr>per_share := c\<rparr>) d
                    else Some (new_tally\<lparr>per_share := c\<rparr>, d));
          let fit = (if c = 0 then 0 else shares y);
          cnt_loop s rs (if qual > fit then fit else qual) (eval_egroups_iter_reset s (res_type r) d)
        })"

definition cnt_slot :: "string \<Rightarrow> resource list \<Rightarrow> scoring \<Rightarrow> (int \<times> scoring) option" where
  "cnt_slot s slot_shape d = cnt_loop s slot_shape (2 ^ 32 - 1) d"

text \<open>The whole groups one slot takes for one request: \<open>Inl\<close> when they run out.\<close>

partial_function (option) pack_elem :: "string \<Rightarrow> string \<Rightarrow> int \<Rightarrow> int \<Rightarrow> eval_egroup \<Rightarrow> scoring
    \<Rightarrow> ((scoring + eval_egroup \<times> scoring)) option" where
  "pack_elem s ty cnt j grp d =
     (if j < cnt then do {
        (i, d) \<leftarrow> eval_egroups_iter_next s ty d;
        let (n, d) = eval_egroups_end s ty d;
        if i = n then Some (Inl d)
        else do {
          let g = m_eval_egroups (entry s ty d) ! i;
          e \<leftarrow> first_edge g;
          pack_elem s ty cnt (u32 (j + edg_count e))
            (grp\<lparr>score := i64 (score grp + score g),
                 edges := edges grp @ [\<lparr>edg_count = edg_count e, edg_needs = edg_count e, edg_exclusive = 1, edge = edge e\<rparr>]\<rparr>) d
        }
      }
      else Some (Inr (grp, d)))"

fun pack_slot :: "string \<Rightarrow> resource list \<Rightarrow> eval_egroup \<Rightarrow> scoring \<Rightarrow> (scoring + eval_egroup \<times> scoring) option" where
  "pack_slot s [] grp d = Some (Inr (grp, d))"
| "pack_slot s (r # rs) grp d =
     (case qualified_count s (res_type r) d of
        (qc, d) \<Rightarrow> do {
          c \<leftarrow> calc_count (request_count r) qc;
          p \<leftarrow> pack_elem s (res_type r) c 0 grp d;
          case p of Inl d \<Rightarrow> Some (Inl d) | Inr (grp, d) \<Rightarrow> pack_slot s rs grp d
        })"

text \<open>\<open>None\<close> inside: there were not enough groups.\<close>

primrec pack_slots :: "nat \<Rightarrow> string \<Rightarrow> resource list \<Rightarrow> eval_egroup list \<Rightarrow> scoring \<Rightarrow> eval_egroup list option option" where
  "pack_slots 0 s slot_shape gs d = Some (Some gs)"
| "pack_slots (Suc n) s slot_shape gs d = do {
     p \<leftarrow> pack_slot s slot_shape (new_egroup\<lparr>score := MATCH_MET\<rparr>) d;
     case p of
       Inl _ \<Rightarrow> Some None
     | Inr (grp, d) \<Rightarrow> pack_slots n s slot_shape (gs @ [grp\<lparr>eg_count := 1, exclusive := 1\<rparr>]) d
   }"

definition dom_slot :: "'a walk_lib_scheme \<Rightarrow> visitor \<Rightarrow> nat \<Rightarrow> resource list \<Rightarrow> int \<Rightarrow> bool \<Rightarrow> scoring \<Rightarrow> trav
    \<Rightarrow> (bool \<times> scoring \<times> trav) option" where
  "dom_slot lib visit u slot_shape n pristine d t = do {
     let s = dom_of t;
     (found, sd, t) \<leftarrow> explore visit u s slot_shape pristine True n new_scoring t;
     if \<not> found then Some (False, d, t)
     else do {
       (_, sd) \<leftarrow> dom_finish_slot (lib_sort lib) s sd (m_match t);
       (qual, sd) \<leftarrow> cnt_slot s slot_shape sd;
       p \<leftarrow> pack_slots (nat qual) s slot_shape [] sd;
       Some (case p of
               None \<Rightarrow> (False, d, t)
             | Some gs \<Rightarrow> (qual \<noteq> 0, fold (\<lambda>g d. snd (scoring_add s slot_rt g d)) gs d, t))
     }
   }"

section \<open>Walking down\<close>

fun dom_exp :: "(string \<Rightarrow> visitor) \<Rightarrow> string list \<Rightarrow> nat \<Rightarrow> resource list \<Rightarrow> bool \<Rightarrow> bool \<Rightarrow> scoring \<Rightarrow> trav \<Rightarrow> (scoring \<times> trav) option" where
  "dom_exp visit [] u resources pristine excl d t = Some (d, t)"
| "dom_exp visit (s # ss) u resources pristine excl d t = do {
     (_, d, t) \<leftarrow> explore (visit s) u s resources pristine excl 1 d t;
     dom_exp visit ss u resources pristine excl d t
   }"

fun insert_labels :: "nat \<Rightarrow> resource list \<Rightarrow> trav \<Rightarrow> int result \<times> trav" where
  "insert_labels u [] t = (Inr 0, t)"
| "insert_labels u (r # rs) t =
     (if res_type r = vtype (vtx t u) \<and> res_label r \<noteq> [] then
        (case ephemeral_insert (m_sequence_number t) ''label'' (res_label r) (ephemeral (idata (vtx t u))) of
           (rc, e) \<Rightarrow>
             (let t = upd_graph (upd_vtx u (\<lambda>v. v\<lparr>idata := (idata v)\<lparr>ephemeral := e\<rparr>\<rparr>)) t
              in case rc of Inl err \<Rightarrow> (Inl err, t) | Inr _ \<Rightarrow> insert_labels u rs t))
      else insert_labels u rs t)"

text \<open>The end of the visit of a vertex, after its subtree was explored.\<close>

definition finish_visit :: "'a walk_lib_scheme \<Rightarrow> jobmeta \<Rightarrow> nat \<Rightarrow> resource list \<Rightarrow> scoring \<Rightarrow> scoring \<Rightarrow> trav
    \<Rightarrow> (int result \<times> scoring \<times> trav) option" where
  "finish_visit lib meta u resources d to_parent t =
     (case avail_of meta (vtx t u) of
        Inl e \<Rightarrow> Some (Inl e, to_parent, t)
      | Inr avail \<Rightarrow>
          (if avail = 0 then Some (Inl EBUSY, to_parent, t)
           else if avail = - 1 then Some (Inl UNSET, to_parent, t)
           else do {
             (r, d, m) \<leftarrow> dom_finish_vtx (lib_sort lib) (vtx t u) (dom_of t) resources d (m_match t);
             let t = t\<lparr>m_match := m\<rparr>;
             case r of
               Inl e \<Rightarrow> Some (Inl e, to_parent, t)
             | Inr _ \<Rightarrow> do {
                 (r, d, to_parent, t) \<leftarrow> resolve d to_parent t;
                 case r of
                   Inl e \<Rightarrow> Some (Inl e, to_parent, t)
                 | Inr _ \<Rightarrow>
                     (let to_parent = set_overall_score (m_overall_score d) (set_avail (u32 avail) to_parent)
                      in case insert_labels u resources t of
                           (Inl e, t) \<Rightarrow> Some (Inl e, to_parent, t)
                         | (Inr _, t) \<Rightarrow> Some (Inr 0, to_parent, t\<lparr>m_postorder := u32 (m_postorder t + 1)\<rparr>))
               }
           }))"

primrec dom_dfv :: "nat \<Rightarrow> 'a walk_lib_scheme \<Rightarrow> jobmeta \<Rightarrow> visitor" where
  "dom_dfv 0 lib meta u resources pristine excl to_parent t = None"
| "dom_dfv (Suc n) lib meta u resources pristine excl to_parent t = do {
     let x_in = (excl \<or> exclusivity resources (vtx t u));
     let s = dom_of t;
     (next, pristine', ns, sm) \<leftarrow> test t u resources pristine;
     let t = t\<lparr>m_preorder := u32 (m_preorder t + 1)\<rparr>;
     if sm = NONE_MATCH then Some (Inl EBUSY, excl, to_parent, t)
     else do {
       p \<leftarrow> prune lib meta x_in s (vtx t u) resources;
       case p of
         Inl e \<Rightarrow> Some (Inl e, excl, to_parent, t)
       | Inr _ \<Rightarrow> do {
           (r, m) \<leftarrow> dom_discover_vtx (vtx t u) (m_match t);
           let t = t\<lparr>m_match := m\<rparr>;
           case r of
             Inl e \<Rightarrow> Some (Inl e, excl, to_parent, t)
           | Inr _ \<Rightarrow> do {
               let t = color_vtx u s (gray (m_color t)) t;
               (d, t) \<leftarrow>
                 (if sm = SLOT_MATCH then map_option snd (dom_slot lib (dom_dfv n lib meta) u next ns pristine' new_scoring t)
                  else dom_exp (\<lambda>s'. if s' = s then dom_dfv n lib meta else aux_upv n lib meta s')
                         (subsystems_of t) u next pristine' x_in new_scoring t);
               let t = color_vtx u s (black (m_color t)) t;
               (r, to_parent, t) \<leftarrow> finish_visit lib meta u resources d to_parent t;
               Some (r, x_in, to_parent, t)
             }
         }
     }
   }"

section \<open>Selection\<close>

fun has_root_loop :: "string \<Rightarrow> resource list \<Rightarrow> int \<Rightarrow> int \<Rightarrow> (bool \<times> int) option" where
  "has_root_loop ty [] qc n = Some (True, n)"
| "has_root_loop ty (r # rs) qc n =
     (if res_type r = ty then do {
        c \<leftarrow> calc_count (request_count r) qc;
        if c = 0 then Some (False, n) else has_root_loop ty rs qc c
      }
      else has_root_loop ty rs qc n)"

definition has_root :: "string \<Rightarrow> resource list \<Rightarrow> scoring \<Rightarrow> (bool \<times> int) option" where
  "has_root ty resources d = has_root_loop ty resources (m_avail d) 1"

fun remaining_types :: "string \<Rightarrow> string list \<Rightarrow> scoring \<Rightarrow> bool" where
  "remaining_types s [] d = True"
| "remaining_types s (ty # tys) d = (if m_qual_count (entry s ty d) = 0 then False else remaining_types s tys d)"

fun has_remaining :: "string list \<Rightarrow> scoring \<Rightarrow> bool \<times> scoring" where
  "has_remaining [] d = (True, d)"
| "has_remaining (s # ss) d =
     (case resrc_types s d of (tys, d) \<Rightarrow> (if remaining_types s tys d then has_remaining ss d else (False, d)))"

definition resolve_graph :: "'a walk_lib_scheme \<Rightarrow> nat \<Rightarrow> resource list \<Rightarrow> scoring \<Rightarrow> trav \<Rightarrow> (bool \<times> int \<times> trav) option" where
  "resolve_graph lib rv resources d t = do {
     (r, d, m) \<leftarrow> dom_finish_graph (lib_sort lib) (lib_icl lib) (dom_of t) resources d (m_match t);
     let t = t\<lparr>m_match := m\<rparr>;
     case r of
       Inl _ \<Rightarrow> Some (False, 0, t)
     | Inr _ \<Rightarrow> do {
         (ok, n) \<leftarrow> has_root (vtype (vtx t rv)) resources d;
         if \<not> ok then Some (False, n, t)
         else case has_remaining (subsystems_of t) d of
                (ok, d) \<Rightarrow>
                  (if \<not> ok then Some (False, n, t)
                   else do {
                     (r, d, t) \<leftarrow> enforce_all True (subsystems_of t) d t;
                     Some (case r of Inl _ \<Rightarrow> False | Inr _ \<Rightarrow> True, n, t)
                   })
       }
   }"

text \<open>The edge of the group of the root is not set; the group is skipped wherever edges are used.\<close>

definition root_group :: "scoring \<Rightarrow> bool \<Rightarrow> eval_egroup" where
  "root_group d excl = (egroup (m_overall_score d) (m_avail d) 0 (of_bool excl) True)
     \<lparr>edges := [\<lparr>edg_count = m_avail d, edg_needs = m_avail d, edg_exclusive = of_bool excl, edge = 0\<rparr>]\<rparr>"

definition mark_root :: "string \<Rightarrow> int \<Rightarrow> bool \<Rightarrow> trav \<Rightarrow> trav" where
  "mark_root s n x t =
     (let md = metadata (m_graph_db t); e = om_get new_relation_infra s (v_rt_edges md)
      in t\<lparr>m_graph_db := (m_graph_db t)\<lparr>metadata :=
             md\<lparr>v_rt_edges := om_assign s (set_for_trav_update n (of_bool x) (m_sequence_number t) e) (v_rt_edges md)\<rparr>\<rparr>\<rparr>)"

definition select :: "'a walk_lib_scheme \<Rightarrow> resource list \<Rightarrow> nat \<Rightarrow> jobmeta \<Rightarrow> bool \<Rightarrow> trav \<Rightarrow> (int result \<times> trav) option" where
  "select lib resources rv meta excl t = do {
     let s = dom_of t;
     let t = (tick t)\<lparr>m_preorder := 0, m_postorder := 0\<rparr>;
     (r, x_in, d, t) \<leftarrow> dom_dfv (Suc (2 * length (g_vtxs (graph t)))) lib meta rv resources True excl new_scoring t;
     case r of
       Inl e \<Rightarrow> Some (Inl e, t)
     | Inr _ \<Rightarrow> do {
         let d = snd (scoring_add s (vtype (vtx t rv)) (root_group d excl) d);
         (ok, n, t) \<leftarrow> resolve_graph lib rv resources d t;
         Some (if ok then Inr 0 else Inl ENODEV, mark_root s n x_in t)
       }
   }"

declare climb.simps [code] tally_groups.simps [code] pack_elem.simps [code]

end
