(* ===== verification/Traverser_Prime.thy ===== *)
theory Traverser_Prime
  imports Traverser
begin

text \<open>
  Priming (\<^verbatim>\<open>src/resource/traversers/dfu_impl.cpp\<close>): the aggregates of the subtrees, kept in a
  planner at every vertex that anchors a pruning type, and the aggregates a request is augmented with.
  A map from types to counts is kept in the order of the types; the sums do not depend on it.
\<close>

section \<open>Accumulating\<close>

type_synonym accum = "(string, int) omap"

text \<open>The count is passed as an \<^verbatim>\<open>unsigned int\<close>.\<close>

definition accum_if :: "matcher_util \<Rightarrow> string \<Rightarrow> string \<Rightarrow> int \<Rightarrow> accum \<Rightarrow> accum" where
  "accum_if util s ty counts m =
     (if is_pruning_type s ty util then
        om_assign ty (case om_find ty m of None \<Rightarrow> u32 counts | Some n \<Rightarrow> i64 (n + u32 counts)) m
      else m)"

definition accum_all :: "matcher_util \<Rightarrow> string \<Rightarrow> accum \<Rightarrow> accum \<Rightarrow> accum" where
  "accum_all util s dfv to_parent = fold (\<lambda>(ty, n). accum_if util s ty n) dfv to_parent"

section \<open>The filters of the graph\<close>

text \<open>A missing planner answers -1 to both questions.\<close>

definition subtree_plan :: "resource_pool \<Rightarrow> (int \<times> string) list \<Rightarrow> planner_multi result option" where
  "subtree_plan v resources =
     planner_multi_new
       (case planner_base_time (plans (schedule v)) of Inl _ \<Rightarrow> - 1 | Inr b \<Rightarrow> b)
       (u64 (case planner_duration (plans (schedule v)) of Inl _ \<Rightarrow> - 1 | Inr d \<Rightarrow> d))
       (Some resources)"

definition set_subplan :: "nat \<Rightarrow> string \<Rightarrow> planner_multi option \<Rightarrow> trav \<Rightarrow> trav" where
  "set_subplan u s p t = upd_graph (upd_vtx u (\<lambda>v. v\<lparr>idata := (idata v)\<lparr>subplans := om_assign s p (subplans (idata v))\<rparr>\<rparr>)) t"

definition filter_totals :: "matcher_util \<Rightarrow> string \<Rightarrow> string \<Rightarrow> accum \<Rightarrow> (int \<times> string) list" where
  "filter_totals util s ty dfv =
     (case get_my_pruning_types s ty util of
        (False, _) \<Rightarrow> []
      | (True, out_prune_types) \<Rightarrow> map (\<lambda>rtype. (u64 (om_get 0 rtype dfv), rtype)) out_prune_types)"

definition install_filter :: "string \<Rightarrow> nat \<Rightarrow> accum \<Rightarrow> trav \<Rightarrow> (int result \<times> trav) option" where
  "install_filter s u dfv t =
     (let resources = filter_totals (util_of (m_match t)) s (vtype (vtx t u)) dfv
      in if resources = [] then Some (Inr 0, t)
         else case om_get None s (subplans (idata (vtx t u))) of
                Some p \<Rightarrow> do {
                  (_, p) \<leftarrow> planner_multi_update (Some p) (Some resources);
                  Some (Inr 0, set_subplan u s p t)
                }
              | None \<Rightarrow> do {
                  r \<leftarrow> subtree_plan (vtx t u) resources;
                  Some (case r of Inl e \<Rightarrow> (Inl e, t) | Inr p \<Rightarrow> (Inr 0, set_subplan u s (Some p) t))
                })"

text \<open>The type of a leaf becomes a pruning type when it is not one.\<close>

definition prime_leaf :: "string \<Rightarrow> nat \<Rightarrow> accum \<Rightarrow> trav \<Rightarrow> accum \<times> trav" where
  "prime_leaf s u to_parent t =
     (let ty = vtype (vtx t u)
      in if is_pruning_type s ty (util_of (m_match t)) then (to_parent, t)
         else
           (let t = t\<lparr>m_match := upd_util (set_pruning_type s cluster_rt ty) (m_match t)\<rparr>
            in (accum_if (util_of (m_match t)) s ty (vsize (vtx t u)) to_parent, t)))"

fun prime_exp :: "(nat \<Rightarrow> accum \<Rightarrow> trav \<Rightarrow> (int result \<times> accum \<times> trav) option) \<Rightarrow> string \<Rightarrow> nat list \<Rightarrow> accum \<Rightarrow> trav
    \<Rightarrow> (int result \<times> accum \<times> trav) option" where
  "prime_exp visit s [] dfv t = Some (Inr 0, dfv, t)"
| "prime_exp visit s (e # es) dfv t =
     (if stop_explore t e s \<or> \<not> in_subsystem t e s then prime_exp visit s es dfv t
      else do {
        (r, dfv, t) \<leftarrow> visit (target t e) dfv t;
        case r of Inl err \<Rightarrow> Some (Inl err, dfv, t) | Inr _ \<Rightarrow> prime_exp visit s es dfv t
      })"

primrec prime_pruning_filter :: "nat \<Rightarrow> string \<Rightarrow> nat \<Rightarrow> accum \<Rightarrow> trav \<Rightarrow> (int result \<times> accum \<times> trav) option" where
  "prime_pruning_filter 0 s u to_parent t = None"
| "prime_pruning_filter (Suc n) s u to_parent t = do {
     let t = color_vtx u s (gray (m_color t)) t;
     let to_parent = accum_if (util_of (m_match t)) s (vtype (vtx t u)) (vsize (vtx t u)) to_parent;
     (r, to_parent, t) \<leftarrow>
       (if out_edges (graph t) u = [] then Some (Inr 0, prime_leaf s u to_parent t)
        else do {
          (r, dfv, t) \<leftarrow> prime_exp (prime_pruning_filter n s) s (out_edges (graph t) u) [] t;
          case r of
            Inl e \<Rightarrow> Some (Inl e, to_parent, t)
          | Inr _ \<Rightarrow> do {
              (r, t') \<leftarrow> install_filter s u dfv t;
              Some (r, accum_all (util_of (m_match t)) s dfv to_parent, t')
            }
        });
     Some (r, to_parent, color_vtx u s (black (m_color t)) t)
   }"

section \<open>The aggregates of a request\<close>

text \<open>The product is taken in 64 bits and passed as 32.\<close>

fun prime_jobspec :: "string \<Rightarrow> resource list \<Rightarrow> accum \<Rightarrow> matcher_util \<Rightarrow> resource list \<times> accum \<times> matcher_util" where
  "prime_jobspec s [] to_parent util = ([], to_parent, util)"
| "prime_jobspec s (Resource ty c un lb i ex w ud # rs) to_parent util =
     (let util = (if ex = TRUE then snd (add_exclusive_resource_type ty util) else util);
          to_parent = accum_if util s ty (count_min c) to_parent
      in case prime_jobspec s w ud util of
           (w, ud, util) \<Rightarrow>
             (let to_parent = fold (\<lambda>(ty, n). accum_if util s ty (i64 (count_min c * n))) ud to_parent
              in case prime_jobspec s rs to_parent util of
                   (rs, to_parent, util) \<Rightarrow> (Resource ty c un lb i ex w ud # rs, to_parent, util)))"

end
