(* ===== verification/Traverser_Update.thy ===== *)
theory Traverser_Update
  imports Traverser_Walk Traverser_Prime
begin

text \<open>
  The update part of the traverser (\<^verbatim>\<open>src/resource/traversers/dfu_impl_update.cpp\<close>): booking what
  a walk has marked.

  The writer of the resource set is called for what was booked. Its answers only add to messages, so a
  writer is the list of the calls made on it. A counter bounds the walk, as for the selection.
\<close>

section \<open>Writers\<close>

datatype emit =
    Emit_vtx string nat int bool bool
  | Emit_edg string nat bool
  | Emit_tm int int
  | Emit_attrs string string

definition level :: "trav \<Rightarrow> string" where
  "level t = ''      '' @ concat (replicate (nat (m_trav_level t)) ''---'')"

definition emit_vtx :: "nat \<Rightarrow> int \<Rightarrow> bool \<Rightarrow> bool \<Rightarrow> trav \<Rightarrow> emit list \<Rightarrow> emit list" where
  "emit_vtx u nd x excl_parent t w = w @ [Emit_vtx (level t) u nd x excl_parent]"

definition emit_edg :: "nat \<Rightarrow> bool \<Rightarrow> trav \<Rightarrow> emit list \<Rightarrow> emit list" where
  "emit_edg e excl_parent t w = w @ [Emit_edg (level t) e excl_parent]"

section \<open>Booking a vertex\<close>

definition set_idata :: "nat \<Rightarrow> (pool_infra \<Rightarrow> pool_infra) \<Rightarrow> trav \<Rightarrow> trav" where
  "set_idata u f t = upd_graph (upd_vtx u (\<lambda>v. v\<lparr>idata := f (idata v)\<rparr>)) t"

definition set_schedule :: "nat \<Rightarrow> (vtx_schedule \<Rightarrow> vtx_schedule) \<Rightarrow> trav \<Rightarrow> trav" where
  "set_schedule u f t = upd_graph (upd_vtx u (\<lambda>v. v\<lparr>schedule := f (schedule v)\<rparr>)) t"

definition upd_txfilter :: "nat \<Rightarrow> jobmeta \<Rightarrow> trav \<Rightarrow> (int result \<times> trav) option" where
  "upd_txfilter u meta t = do {
     let t = set_idata u (\<lambda>i. i\<lparr>tags := om_assign (jobid meta) (jobid meta) (tags i)\<rparr>) t;
     case x_checker (idata (vtx t u)) of
       None \<Rightarrow> Some (Inl UNSET, t)
     | Some x \<Rightarrow> do {
         (r, x) \<leftarrow> planner_add_span (Some x) (jm_at meta) (u64 (jm_duration meta)) 1;
         let t = set_idata u (\<lambda>i. i\<lparr>x_checker := x\<rparr>) t;
         Some (case r of
                 Inl e \<Rightarrow> (Inl e, t)
               | Inr span \<Rightarrow> (Inr 0, set_idata u (\<lambda>i. i\<lparr>x_spans := om_assign (jobid meta) span (x_spans i)\<rparr>) t))
       }
   }"

definition upd_agfilter :: "nat \<Rightarrow> string \<Rightarrow> jobmeta \<Rightarrow> accum \<Rightarrow> trav \<Rightarrow> (int result \<times> trav) option" where
  "upd_agfilter u s meta dfu t =
     (case om_get None s (subplans (idata (vtx t u))) of
        None \<Rightarrow> Some (Inr 0, t)
      | Some p \<Rightarrow>
          (if dfu = [] then Some (Inr 0, t)
           else do {
             aggregate \<leftarrow> count_relevant_types (Some p) dfu;
             (r, p) \<leftarrow> planner_multi_add_span (Some p) (jm_at meta) (u64 (jm_duration meta)) (Some aggregate);
             let t = set_subplan u s p t;
             Some (case r of
                     Inl e \<Rightarrow> (Inl e, t)
                   | Inr span \<Rightarrow> (Inr 0, set_idata u (\<lambda>i. i\<lparr>job2span := om_assign (jobid meta) span (job2span i)\<rparr>) t))
           }))"

definition upd_idata :: "nat \<Rightarrow> string \<Rightarrow> jobmeta \<Rightarrow> accum \<Rightarrow> trav \<Rightarrow> (int result \<times> trav) option" where
  "upd_idata u s meta dfu t = do {
     (r, t) \<leftarrow> upd_txfilter u meta t;
     case r of Inl e \<Rightarrow> Some (Inl e, t) | Inr _ \<Rightarrow> upd_agfilter u s meta dfu t
   }"

text \<open>An insertion that finds its key is a failure; the edge was erased before.\<close>

definition upd_by_outedges :: "string \<Rightarrow> jobmeta \<Rightarrow> nat \<Rightarrow> nat \<Rightarrow> trav \<Rightarrow> int result \<times> trav" where
  "upd_by_outedges s meta u e t =
     (let p = om_get None s (subplans (idata (vtx t (target t e)))); len = planner_multi_resources_len p
      in if p = None then (Inr 0, t)
         else if len = 0 then (Inl UNSET, t)
         else
           (let avail = (case planner_multi_avail_resources_at p (jm_now meta) (len - 1) of Inl _ \<Rightarrow> - 1 | Inr a \<Rightarrow> a)
            in if avail = 0 \<and> planner_multi_span_size p = 0 then (Inr 0, t)
               else
                 (let key = outedge_key (graph t) e;
                      m = om_erase key (om_get [] u (by_outedges (metadata (m_graph_db t))));
                      t = upd_graph (upd_edg e (set_weight (if avail = - 1 then 0 else u64 avail))) t
                  in case om_insert (outedge_key (graph t) e) e m of
                       (m, fresh) \<Rightarrow>
                         (if fresh then Inr 0 else Inl ENOMEM,
                          t\<lparr>m_graph_db := (m_graph_db t)\<lparr>metadata := (metadata (m_graph_db t))
                              \<lparr>by_outedges := om_assign u m (by_outedges (metadata (m_graph_db t)))\<rparr>\<rparr>\<rparr>))))"

text \<open>The count of booked vertices is passed by reference.\<close>

definition upd_plan :: "nat \<Rightarrow> int \<Rightarrow> bool \<Rightarrow> jobmeta \<Rightarrow> bool \<Rightarrow> int \<Rightarrow> trav \<Rightarrow> (int result \<times> int \<times> trav) option" where
  "upd_plan u nd excl meta full n t =
     (if \<not> excl then Some (Inr 0, n, t)
      else if \<not> full then Some (Inr 0, n + 1, t)
      else do {
        (r, p) \<leftarrow> planner_add_span (plans (schedule (vtx t u))) (jm_at meta) (u64 (jm_duration meta)) nd;
        let t = set_schedule u (\<lambda>s. s\<lparr>plans := p\<rparr>) t;
        Some (case r of
                Inl e \<Rightarrow> (Inl e, n + 1, t)
              | Inr span \<Rightarrow>
                  (case alloc_type meta of
                     AT_ALLOC \<Rightarrow> (Inr 0, n + 1, set_schedule u (\<lambda>s. s\<lparr>allocations := om_assign (jobid meta) span (allocations s)\<rparr>) t)
                   | AT_ALLOC_ORELSE_RESERVE \<Rightarrow>
                       (Inr 0, n + 1, set_schedule u (\<lambda>s. s\<lparr>reservations := om_assign (jobid meta) span (reservations s)\<rparr>) t)
                   | AT_SATISFIABILITY \<Rightarrow> (Inr 0, n + 1, t)
                   | AT_NO_ALLOC \<Rightarrow> (Inl EINVAL, n + 1, t)))
      })"

definition accum_to_parent :: "nat \<Rightarrow> string \<Rightarrow> int \<Rightarrow> bool \<Rightarrow> accum \<Rightarrow> accum \<Rightarrow> trav \<Rightarrow> accum" where
  "accum_to_parent u s nd excl dfu to_parent t =
     (let util = util_of (m_match t); v = vtx t u
      in accum_all util s dfu (accum_if util s (vtype v) (if excl then vsize v else u32 (vsize v - nd)) to_parent))"

definition upd_meta :: "nat \<Rightarrow> string \<Rightarrow> int \<Rightarrow> bool \<Rightarrow> int \<Rightarrow> jobmeta \<Rightarrow> accum \<Rightarrow> accum \<Rightarrow> trav \<Rightarrow> (int result \<times> accum \<times> trav) option" where
  "upd_meta u s nd excl n meta dfu to_parent t =
     (if n = 0 then Some (Inr 0, to_parent, t)
      else do {
        (r, t) \<leftarrow> upd_idata u s meta dfu t;
        Some (case r of
                Inl e \<Rightarrow> (Inl e, to_parent, t)
              | Inr _ \<Rightarrow> (Inr 0, accum_to_parent u s nd excl dfu to_parent t, t))
      })"

text \<open>The result is the count, after a failure too; only then the level stays.\<close>

definition upd_done :: "nat \<Rightarrow> int \<Rightarrow> bool \<Rightarrow> bool \<Rightarrow> int \<Rightarrow> accum \<Rightarrow> trav \<Rightarrow> emit list \<Rightarrow> int \<times> accum \<times> trav \<times> emit list" where
  "upd_done u nd excl excl_parent n to_parent t w =
     (n, to_parent, t\<lparr>m_trav_level := u32 (m_trav_level t - 1)\<rparr>, if n > 0 then emit_vtx u nd excl excl_parent t w else w)"

definition upd_sched :: "nat \<Rightarrow> string \<Rightarrow> int \<Rightarrow> bool \<Rightarrow> int \<Rightarrow> jobmeta \<Rightarrow> bool \<Rightarrow> accum \<Rightarrow> accum \<Rightarrow> bool \<Rightarrow> trav \<Rightarrow> emit list
    \<Rightarrow> (int \<times> accum \<times> trav \<times> emit list) option" where
  "upd_sched u s nd excl n meta full dfu to_parent excl_parent t w =
     (if alloc_type meta = AT_NO_ALLOC
      then Some (upd_done u nd excl excl_parent (if excl then n + 1 else n) to_parent t w)
      else do {
        (r, n, t) \<leftarrow> upd_plan u nd excl meta full n t;
        case r of
          Inl _ \<Rightarrow> Some (n, to_parent, t, w)
        | Inr _ \<Rightarrow> do {
            (r, to_parent, t) \<leftarrow> upd_meta u s nd excl n meta dfu to_parent t;
            Some (case r of
                    Inl _ \<Rightarrow> (n, to_parent, t, w)
                  | Inr _ \<Rightarrow> upd_done u nd excl excl_parent n to_parent t w)
          }
      })"

section \<open>The walk\<close>

definition modify_traversal :: "nat \<Rightarrow> bool \<Rightarrow> trav \<Rightarrow> bool" where
  "modify_traversal u emit_shadow_from_parent t \<longleftrightarrow>
     emit_shadow_from_parent \<or> is_resource_type_exclusive (vtype (vtx t u)) (util_of (m_match t))"

definition stop_explore_best :: "nat \<Rightarrow> bool \<Rightarrow> trav \<Rightarrow> bool" where
  "stop_explore_best e mod_trav t \<longleftrightarrow> m_edge_seq (edge_idata (g_edgs (graph t) ! e)) \<noteq> m_sequence_number t \<and> \<not> mod_trav"

definition get_eff_exclusive :: "bool \<Rightarrow> bool \<Rightarrow> bool" where
  "get_eff_exclusive x mod_trav \<longleftrightarrow> x \<or> mod_trav"

definition get_eff_needs :: "int \<Rightarrow> int \<Rightarrow> bool \<Rightarrow> int" where
  "get_eff_needs nd sz mod_trav = (if mod_trav then sz else nd)"

text \<open>Walking up books nothing.\<close>

type_synonym upd_visitor =
  "nat \<Rightarrow> int \<Rightarrow> bool \<Rightarrow> accum \<Rightarrow> bool \<Rightarrow> bool \<Rightarrow> trav \<Rightarrow> emit list \<Rightarrow> (int \<times> accum \<times> trav \<times> emit list) option"

fun upd_edges :: "upd_visitor \<Rightarrow> jobmeta \<Rightarrow> string \<Rightarrow> nat \<Rightarrow> bool \<Rightarrow> bool \<Rightarrow> nat list \<Rightarrow> int \<Rightarrow> accum \<Rightarrow> trav \<Rightarrow> emit list
    \<Rightarrow> (int \<times> accum \<times> trav \<times> emit list) option" where
  "upd_edges visit meta s u md excl [] n dfu t w = Some (n, dfu, t, w)"
| "upd_edges visit meta s u md excl (e # es) n dfu t w =
     (if \<not> in_subsystem t e s \<or> stop_explore t e s \<or> stop_explore_best e md t
      then upd_edges visit meta s u md excl es n dfu t w
      else do {
        let i = edge_idata (g_edgs (graph t) ! e);
        let x = get_eff_exclusive (m_exclusive i \<noteq> 0) md;
        let nd = get_eff_needs (u32 (m_needs i)) (vsize (vtx t (target t e))) md;
        (k, dfu, t, w) \<leftarrow> (if s = dom_of t then visit (target t e) nd x dfu md excl t w else Some (0, dfu, t, w));
        if k > 0
        then
          (let t = (if get_stop_on_k_matches (m_match t) > 0 then snd (upd_by_outedges s meta u e t) else t)
           in upd_edges visit meta s u md excl es (n + k) dfu t (emit_edg e excl t w))
        else upd_edges visit meta s u md excl es n dfu t w
      })"

fun upd_subsystems :: "upd_visitor \<Rightarrow> jobmeta \<Rightarrow> string list \<Rightarrow> nat \<Rightarrow> bool \<Rightarrow> bool \<Rightarrow> int \<Rightarrow> accum \<Rightarrow> trav \<Rightarrow> emit list
    \<Rightarrow> (int \<times> accum \<times> trav \<times> emit list) option" where
  "upd_subsystems visit meta [] u md excl n dfu t w = Some (n, dfu, t, w)"
| "upd_subsystems visit meta (s # ss) u md excl n dfu t w = do {
     (n, dfu, t, w) \<leftarrow> upd_edges visit meta s u md excl (out_edges (graph t) u) n dfu t w;
     upd_subsystems visit meta ss u md excl n dfu t w
   }"

primrec upd_dfv :: "nat \<Rightarrow> jobmeta \<Rightarrow> bool \<Rightarrow> upd_visitor" where
  "upd_dfv 0 meta full u nd excl to_parent shadow excl_parent t w = None"
| "upd_dfv (Suc n) meta full u nd excl to_parent shadow excl_parent t w = do {
     let md = modify_traversal u shadow t;
     let x = (excl \<or> md);
     let s = dom_of t;
     let t = color_vtx u s (gray (m_color t)) (t\<lparr>m_trav_level := u32 (m_trav_level t + 1)\<rparr>);
     (k, dfu, t, w) \<leftarrow> upd_subsystems (upd_dfv n meta full) meta (subsystems_of t) u md x 0 [] t w;
     let t = color_vtx u s (black (m_color t)) t;
     upd_sched u s nd x k meta full dfu to_parent excl_parent t w
   }"

section \<open>Update\<close>

definition root_edge :: "trav \<Rightarrow> relation_infra" where
  "root_edge t = om_get new_relation_infra (dom_of t) (v_rt_edges (metadata (m_graph_db t)))"

definition reset_color :: "trav \<Rightarrow> trav" where
  "reset_color t = t\<lparr>m_color := color_reset (m_color t)\<rparr>"

definition book :: "bool \<Rightarrow> nat \<Rightarrow> jobmeta \<Rightarrow> trav \<Rightarrow> emit list \<Rightarrow> (int result \<times> trav \<times> emit list) option" where
  "book full rv meta t w = do {
     let r = root_edge t;
     let t = reset_color t;
     (n, _, t, w) \<leftarrow> upd_dfv (Suc (length (g_vtxs (graph t)))) meta full rv (u32 (m_needs r)) (m_exclusive r \<noteq> 0) []
                      (modify_traversal rv False t) False t w;
     Some (if n > 0
           then (Inr 0, t, w @ Emit_tm (jm_at meta) (i64 (jm_at meta + jm_duration meta)) #
                   (case jm_queue meta of None \<Rightarrow> [] | Some q \<Rightarrow> [Emit_attrs ''queue'' q]))
           else (Inl UNSET, t, w))
   }"

definition update :: "nat \<Rightarrow> jobmeta \<Rightarrow> trav \<Rightarrow> emit list \<Rightarrow> (int result \<times> trav \<times> emit list) option" where
  "update rv meta t w =
     (if m_edge_seq (root_edge t) \<noteq> m_sequence_number t then Some (Inl EINVAL, t, w) else book True rv meta t w)"

text \<open>A reader of resource sets; the overloads of \<^verbatim>\<open>update\<close> and
  \<^verbatim>\<open>remove\<close> that take one are defined over its two operations.\<close>

datatype job_modify = CANCEL | PARTIAL_CANCEL | VTX_CANCEL

record modify_data =
  mod_type :: job_modify
  md_ranks :: "int list"
  rank_to_root :: "(int, nat) omap"
  rank_to_counts :: "(int, accum) omap"
  type_to_count :: accum
  md_sequence_number :: int

definition new_modify_data :: modify_data where
  "new_modify_data = \<lparr>mod_type = PARTIAL_CANCEL, md_ranks = [], rank_to_root = [], rank_to_counts = [],
     type_to_count = [], md_sequence_number = 0\<rparr>"

record reader =
  reader_update :: "string \<Rightarrow> int \<Rightarrow> int \<Rightarrow> int \<Rightarrow> bool \<Rightarrow> int \<Rightarrow> resource_graph_db \<Rightarrow> int \<times> resource_graph_db"
  reader_partial_cancel :: "string \<Rightarrow> int \<Rightarrow> modify_data \<Rightarrow> resource_graph_db \<Rightarrow> int \<times> modify_data \<times> resource_graph_db"

text \<open>The result is the return code: a failure of the reader is passed on.\<close>

definition update_with :: "reader \<Rightarrow> nat \<Rightarrow> string \<Rightarrow> jobmeta \<Rightarrow> trav \<Rightarrow> emit list \<Rightarrow> (int \<times> trav \<times> emit list) option" where
  "update_with rd rv str meta t w =
     (let t = tick t
      in case reader_update rd str (jobid meta) (jm_at meta) (u64 (jm_duration meta))
                (alloc_type meta = AT_ALLOC_ORELSE_RESERVE) (m_sequence_number t) (m_graph_db t) of
           (rc, db) \<Rightarrow>
             (let t = t\<lparr>m_graph_db := db\<rparr>
              in if rc \<noteq> 0 then Some (rc, t, w)
                 else if m_edge_seq (root_edge t) \<noteq> m_sequence_number t then Some (0, t, w)
                 else map_option (\<lambda>(r, t, w). (case r of Inl _ \<Rightarrow> - 1 | Inr _ \<Rightarrow> 0, t, w)) (book False rv meta t w)))"

end
