(* ===== verification/Traverser_Remove.thy ===== *)
theory Traverser_Remove
  imports Traverser_Update
begin

text \<open>
  The removal part of the traverser (\<^verbatim>\<open>src/resource/traversers/dfu_impl_update.cpp\<close>): releasing
  what a job holds, wholly or in part, marking vertices up and down and removing subgraphs.

  Unordered maps and sets are visited in the order of their keys. \<open>None\<close> is also an exception
  that leaves the traverser and the endless recursion in a graph with a cycle.
\<close>

section \<open>Releasing a vertex\<close>

definition code_of :: "int result \<Rightarrow> int" where
  "code_of r = (case r of Inl _ \<Rightarrow> - 1 | Inr x \<Rightarrow> x)"

definition rem_exclusive_filter :: "nat \<Rightarrow> int \<Rightarrow> job_modify \<Rightarrow> trav \<Rightarrow> (int result \<times> trav) option" where
  "rem_exclusive_filter u jid mt t =
     (let i = idata (vtx t u)
      in case om_find jid (x_spans i) of
           None \<Rightarrow> Some (if mt = VTX_CANCEL then Inl UNSET else Inr 0, t)
         | Some span \<Rightarrow> do {
             (r, x) \<leftarrow> planner_rem_span (x_checker i) span;
             Some (r, set_idata u (\<lambda>i. i\<lparr>x_spans := om_erase jid (x_spans i), x_checker := x\<rparr>) t)
           })"

text \<open>Whether to stop the removal.\<close>

definition rem_tag :: "nat \<Rightarrow> int \<Rightarrow> trav \<Rightarrow> bool \<times> trav" where
  "rem_tag u jid t =
     (if om_find jid (tags (idata (vtx t u))) = None then (True, t)
      else (False, set_idata u (\<lambda>i. i\<lparr>tags := om_erase jid (tags i)\<rparr>) t))"

definition reduce_agfilter :: "nat \<Rightarrow> int \<Rightarrow> string \<Rightarrow> modify_data \<Rightarrow> planner_multi \<Rightarrow> int \<Rightarrow> trav \<Rightarrow> (int result \<times> trav) option" where
  "reduce_agfilter u jid s md p span t =
     (if type_to_count md = [] then Some (Inl UNSET, t)
      else do {
        (r, removed, p) \<leftarrow> planner_multi_reduce_span (Some p) span (Some (map (\<lambda>(ty, n). (u64 n, ty)) (type_to_count md)));
        let t = set_subplan u s p t;
        case r of
          Inl e \<Rightarrow> Some (Inl e, t)
        | Inr _ \<Rightarrow>
            rem_exclusive_filter u jid (mod_type md)
              (if removed then snd (rem_tag u jid (set_idata u (\<lambda>i. i\<lparr>job2span := om_erase jid (job2span i)\<rparr>) t)) else t)
      })"

text \<open>The flag \<^verbatim>\<open>stop\<close> is passed by reference.\<close>

definition mod_agfilter :: "nat \<Rightarrow> int \<Rightarrow> string \<Rightarrow> modify_data \<Rightarrow> bool \<Rightarrow> trav \<Rightarrow> (int result \<times> bool \<times> trav) option" where
  "mod_agfilter u jid s md stop t =
     (case om_get None s (subplans (idata (vtx t u))) of
        None \<Rightarrow> Some (Inr 0, stop, t)
      | Some p \<Rightarrow>
          (case om_find jid (job2span (idata (vtx t u))) of
             None \<Rightarrow> Some (Inr 0, stop \<or> mod_type md = PARTIAL_CANCEL, t)
           | Some span \<Rightarrow>
               (if span = - 1 then Some (Inl UNSET, stop, t)
                else if mod_type md \<noteq> PARTIAL_CANCEL then do {
                  (r, p) \<leftarrow> planner_multi_rem_span (Some p) span;
                  let t = set_subplan u s p t;
                  Some (case r of
                          Inl e \<Rightarrow> (Inl e, stop, t)
                        | Inr _ \<Rightarrow> (Inr 0, stop, set_idata u (\<lambda>i. i\<lparr>job2span := om_erase jid (job2span i)\<rparr>) t))
                }
                else if om_find jid (tags (idata (vtx t u))) = None then Some (Inr 0, True, t)
                else map_option (\<lambda>(r, t). (r, stop, t)) (reduce_agfilter u jid s md p span t))))"

definition mod_idata :: "nat \<Rightarrow> int \<Rightarrow> string \<Rightarrow> modify_data \<Rightarrow> trav \<Rightarrow> (int result \<times> bool \<times> trav) option" where
  "mod_idata u jid s md t =
     (if mod_type md \<noteq> PARTIAL_CANCEL then
        (case rem_tag u jid t of
           (True, t) \<Rightarrow> Some (Inr 0, True, t)
         | (False, t) \<Rightarrow> do {
             (r, t) \<leftarrow> rem_exclusive_filter u jid (mod_type md) t;
             case r of Inl e \<Rightarrow> Some (Inl e, False, t) | Inr _ \<Rightarrow> mod_agfilter u jid s md False t
           })
      else mod_agfilter u jid s md False t)"

definition add_count :: "int \<Rightarrow> string \<Rightarrow> int \<Rightarrow> modify_data \<Rightarrow> modify_data" where
  "add_count rk ty n md =
     md\<lparr>rank_to_counts := om_assign rk (om_assign ty (i64 (om_get 0 ty (om_get [] rk (rank_to_counts md)) + n))
          (om_get [] rk (rank_to_counts md))) (rank_to_counts md)\<rparr>"

definition release_plan :: "nat \<Rightarrow> int \<Rightarrow> modify_data \<Rightarrow> trav \<Rightarrow> (int result \<times> modify_data \<times> trav) option" where
  "release_plan u span md t =
     (let v = vtx t u; p = plans (schedule v); prev = (case planner_span_resource_count p span of Inl _ \<Rightarrow> - 1 | Inr n \<Rightarrow> n)
      in if mod_type md = PARTIAL_CANCEL then Some (Inl UNSET, md, t)
         else if mod_type md = VTX_CANCEL \<and> prev < 0 then Some (Inl UNSET, md, t)
         else do {
           (r, p) \<leftarrow> planner_rem_span p span;
           let t = set_schedule u (\<lambda>s. s\<lparr>plans := p\<rparr>) t;
           Some (case r of
                   Inl e \<Rightarrow> (Inl e, md, t)
                 | Inr _ \<Rightarrow> (Inr 0, if mod_type md = VTX_CANCEL then add_count (rank v) (vtype v) prev md else md, t))
         })"

definition mod_plan :: "nat \<Rightarrow> int \<Rightarrow> modify_data \<Rightarrow> trav \<Rightarrow> (int result \<times> modify_data \<times> trav) option" where
  "mod_plan u jid md t =
     (case om_find jid (allocations (schedule (vtx t u))) of
        Some span \<Rightarrow>
          (if mod_type md = PARTIAL_CANCEL then Some (Inr 0, md, t)
           else release_plan u span md (set_schedule u (\<lambda>s. s\<lparr>allocations := om_erase jid (allocations s)\<rparr>) t))
      | None \<Rightarrow>
          (case om_find jid (reservations (schedule (vtx t u))) of
             Some span \<Rightarrow> release_plan u span md (set_schedule u (\<lambda>s. s\<lparr>reservations := om_erase jid (reservations s)\<rparr>) t)
           | None \<Rightarrow> Some (Inr 0, md, t)))"

section \<open>The walk\<close>

type_synonym mod_visitor = "nat \<Rightarrow> modify_data \<Rightarrow> trav \<Rightarrow> (int \<times> modify_data \<times> trav) option"

fun mod_edges :: "mod_visitor \<Rightarrow> string \<Rightarrow> nat list \<Rightarrow> int \<Rightarrow> modify_data \<Rightarrow> trav \<Rightarrow> (int \<times> modify_data \<times> trav) option" where
  "mod_edges visit s [] rc md t = Some (rc, md, t)"
| "mod_edges visit s (e # es) rc md t =
     (if \<not> in_subsystem t e s \<or> stop_explore t e s then mod_edges visit s es rc md t
      else do {
        (k, md, t) \<leftarrow> (if s = dom_of t then visit (target t e) md t else Some (0, md, t));
        mod_edges visit s es (i32 (rc + k)) md t
      })"

fun mod_subsystems :: "mod_visitor \<Rightarrow> string list \<Rightarrow> nat \<Rightarrow> int \<Rightarrow> modify_data \<Rightarrow> trav \<Rightarrow> (int \<times> modify_data \<times> trav) option" where
  "mod_subsystems visit [] u rc md t = Some (rc, md, t)"
| "mod_subsystems visit (s # ss) u rc md t = do {
     (rc, md, t) \<leftarrow> mod_edges visit s (out_edges (graph t) u) rc md t;
     mod_subsystems visit ss u rc md t
   }"

primrec mod_dfv :: "nat \<Rightarrow> int \<Rightarrow> mod_visitor" where
  "mod_dfv 0 jid u md t = None"
| "mod_dfv (Suc n) jid u md t = do {
     let s = dom_of t;
     let t = color_vtx u s (gray (m_color t)) (t\<lparr>m_preorder := u32 (m_preorder t + 1)\<rparr>);
     (r, stop, t) \<leftarrow> mod_idata u jid s md t;
     if code_of r \<noteq> 0 \<or> stop then Some (code_of r, md, t)
     else do {
       (r, md, t) \<leftarrow> mod_plan u jid md t;
       if code_of r \<noteq> 0 then Some (code_of r, md, t)
       else do {
         (rc, md, t) \<leftarrow> mod_subsystems (mod_dfv n jid) (subsystems_of t) u 0 md t;
         let t = color_vtx u s (black (m_color t)) t;
         Some (rc, md, t\<lparr>m_postorder := u32 (m_postorder t + 1)\<rparr>)
       }
     }
   }"

text \<open>The exhaustive visit: the code starts at -1 and adds the codes of the removals.\<close>

fun exv_loop :: "int \<Rightarrow> nat list \<Rightarrow> int \<Rightarrow> trav \<Rightarrow> (int \<times> trav) option" where
  "exv_loop jid [] rc t = Some (rc, t)"
| "exv_loop jid (u # us) rc t =
     (let sc = schedule (vtx t u)
      in case om_find jid (allocations sc) of
           Some span \<Rightarrow> do {
             (r, p) \<leftarrow> planner_rem_span (plans sc) span;
             exv_loop jid us (i32 (rc + code_of r))
               (set_schedule u (\<lambda>s. s\<lparr>allocations := om_erase jid (allocations s), plans := p\<rparr>) t)
           }
         | None \<Rightarrow>
             (case om_find jid (reservations sc) of
                Some span \<Rightarrow> do {
                  (r, p) \<leftarrow> planner_rem_span (plans sc) span;
                  exv_loop jid us (i32 (rc + code_of r))
                    (set_schedule u (\<lambda>s. s\<lparr>reservations := om_erase jid (reservations s), plans := p\<rparr>) t)
                }
              | None \<Rightarrow> exv_loop jid us rc t))"

definition mod_exv :: "int \<Rightarrow> trav \<Rightarrow> (int \<times> trav) option" where
  "mod_exv jid t = map_option (\<lambda>(rc, t). (if rc = 0 then 0 else - 1, t)) (exv_loop jid [0..<length (g_vtxs (graph t))] (- 1) t)"

definition cancel_vertex :: "nat \<Rightarrow> modify_data \<Rightarrow> int \<Rightarrow> trav \<Rightarrow> (int result \<times> modify_data \<times> trav) option" where
  "cancel_vertex u md jid t = do {
     (r, stop, t) \<leftarrow> mod_idata u jid (dom_of t) md t;
     case r of
       Inl _ \<Rightarrow> Some (Inl EINVAL, md, t)
     | Inr _ \<Rightarrow> do {
         (r, md, t) \<leftarrow> mod_plan u jid md t;
         Some (case r of Inl _ \<Rightarrow> (Inl EINVAL, md, t) | Inr x \<Rightarrow> (Inr x, md, t))
       }
   }"

fun span_counts :: "planner option \<Rightarrow> int list \<Rightarrow> int \<Rightarrow> int option" where
  "span_counts p [] n = Some n"
| "span_counts p (span # ss) n =
     (case planner_span_resource_count p span of
        Inl _ \<Rightarrow> None
      | Inr c \<Rightarrow> (if c < 0 then None else span_counts p ss (i64 (n + c))))"

definition clear_filters :: "nat \<Rightarrow> string \<Rightarrow> trav \<Rightarrow> (int result \<times> trav) option" where
  "clear_filters u s t =
     (case om_get None s (subplans (idata (vtx t u))) of
        None \<Rightarrow> Some (Inr 0, t)
      | Some p \<Rightarrow> do {
          b \<leftarrow> planner_multi_base_time (Some p);
          d \<leftarrow> planner_multi_duration (Some p);
          (r, p) \<leftarrow> planner_multi_reset (Some p) (code_of b) (u64 (code_of d));
          let t = set_subplan u s p t;
          Some (if code_of r \<noteq> 0 then Inl UNSET else Inr 0, t)
        })"

definition clear_vertex :: "nat \<Rightarrow> modify_data \<Rightarrow> trav \<Rightarrow> (int result \<times> modify_data \<times> trav) option" where
  "clear_vertex u md t =
     (let v = vtx t u; p = plans (schedule v)
      in case span_counts p (map snd (allocations (schedule v))) 0 of
           None \<Rightarrow> Some (Inl UNSET, md, t)
         | Some n \<Rightarrow> do {
             let md = add_count (rank v) (vtype v) n md;
             (r, p) \<leftarrow> planner_reset p (code_of (planner_base_time p)) (u64 (code_of (planner_duration p)));
             let t = set_schedule u (\<lambda>s. s\<lparr>plans := p\<rparr>) t;
             if code_of r \<noteq> 0 then Some (Inl UNSET, md, t)
             else do {
               (r, t) \<leftarrow> clear_filters u (dom_of t) t;
               Some (case r of
                       Inl e \<Rightarrow> (Inl e, md, t)
                     | Inr _ \<Rightarrow>
                         (Inr 0, md,
                          set_schedule u (\<lambda>s. s\<lparr>allocations := [], reservations := []\<rparr>)
                            (set_idata u (\<lambda>i. i\<lparr>tags := [], x_spans := [], job2span := []\<rparr>) t)))
             }
           })"

section \<open>Removing a job\<close>

definition has_tag :: "nat \<Rightarrow> int \<Rightarrow> trav \<Rightarrow> bool" where
  "has_tag u jid t \<longleftrightarrow> om_find jid (tags (idata (vtx t u))) \<noteq> None"

definition remove :: "nat \<Rightarrow> int \<Rightarrow> trav \<Rightarrow> (int \<times> trav) option" where
  "remove rv jid t =
     (let t = reset_color (t\<lparr>m_preorder := 0, m_postorder := 0\<rparr>)
      in if has_tag rv jid t
         then map_option (\<lambda>(rc, _, t). (rc, t))
                (mod_dfv (Suc (length (g_vtxs (graph t)))) jid rv (new_modify_data\<lparr>mod_type := CANCEL\<rparr>) t)
         else mod_exv jid t)"

text \<open>The vertices above one in the dominant subsystem.\<close>

definition get_parent_vtx :: "trav \<Rightarrow> nat \<Rightarrow> nat option" where
  "get_parent_vtx t u = map_option (source t) (find_parent_edge t (dom_of t) u)"

partial_function (option) ancestors :: "trav \<Rightarrow> nat \<Rightarrow> nat list option" where
  "ancestors t u =
     (case get_parent_vtx t u of
        None \<Rightarrow> Some []
      | Some p \<Rightarrow> Option.bind (ancestors t p) (\<lambda>ps. Some (p # ps)))"

declare ancestors.simps [code]

text \<open>The vertices of a rank: their job is released, and the one with the shortest path is the
  root of the rank.\<close>

definition path_length :: "nat \<Rightarrow> trav \<Rightarrow> int option" where
  "path_length u t = map_option (\<lambda>p. int (length p)) (om_find (dom_of t) (paths (vtx t u)))"

type_synonym releaser = "nat \<Rightarrow> int \<Rightarrow> modify_data \<Rightarrow> trav \<Rightarrow> ((int + int) \<times> modify_data \<times> trav) option"

fun rank_vertices :: "releaser \<Rightarrow> int \<Rightarrow> nat list \<Rightarrow> int \<Rightarrow> int \<Rightarrow> modify_data \<Rightarrow> trav \<Rightarrow> ((int + int) \<times> modify_data \<times> trav) option" where
  "rank_vertices release rk [] shortest rc md t = Some (Inr rc, md, t)"
| "rank_vertices release rk (u # us) shortest rc md t = do {
     (r, md, t) \<leftarrow> release u rc md t;
     case r of
       Inl rc \<Rightarrow> Some (Inl rc, md, t)
     | Inr rc \<Rightarrow> do {
         n \<leftarrow> path_length u t;
         if n < shortest
         then rank_vertices release rk us (u32 n) rc (md\<lparr>rank_to_root := om_assign rk u (rank_to_root md)\<rparr>) t
         else rank_vertices release rk us shortest rc md t
       }
   }"

fun release_ranks :: "releaser \<Rightarrow> int list \<Rightarrow> int \<Rightarrow> modify_data \<Rightarrow> trav \<Rightarrow> ((int + int) \<times> modify_data \<times> trav) option" where
  "release_ranks release [] rc md t = Some (Inr rc, md, t)"
| "release_ranks release (rk # rks) rc md t =
     (case om_find rk (by_rank (metadata (m_graph_db t))) of
        None \<Rightarrow> Some (Inl (- 1), md, t)
      | Some us \<Rightarrow> do {
          (r, md, t) \<leftarrow> rank_vertices release rk us (2 ^ 32 - 1) rc md t;
          case r of Inl rc \<Rightarrow> Some (Inl rc, md, t) | Inr rc \<Rightarrow> release_ranks release rks rc md t
        })"

text \<open>\<open>Inl\<close> is a return from the whole removal. The job may not hold all of the rank.\<close>

definition checked :: "int result \<Rightarrow> int + int" where
  "checked r = (if code_of r \<noteq> 0 then Inl (code_of r) else Inr 0)"

definition cancel_tagged :: "int \<Rightarrow> releaser" where
  "cancel_tagged jid u rc md t =
     (if has_tag u jid t then map_option (\<lambda>(r, md, t). (checked r, md, t)) (cancel_vertex u md jid t)
      else Some (Inr rc, md, t))"

text \<open>What the ancestors of the roots of the ranks lose: the counts of the ranks below them.\<close>

definition add_accum :: "accum \<Rightarrow> accum \<Rightarrow> accum" where
  "add_accum m k = fold (\<lambda>(ty, n) m. om_assign ty (i64 (om_get 0 ty m + n)) m) k m"

fun parent_counts :: "trav \<Rightarrow> modify_data \<Rightarrow> (int \<times> nat) list \<Rightarrow> (nat, accum) omap \<Rightarrow> (nat, accum) omap result option" where
  "parent_counts t md [] pc = Some (Inr pc)"
| "parent_counts t md ((rk, u) # rest) pc =
     (case om_find rk (rank_to_counts md) of
        None \<Rightarrow> Some (Inl UNSET)
      | Some counts \<Rightarrow> do {
          ps \<leftarrow> ancestors t u;
          parent_counts t md rest
            (if counts = [] then pc else fold (\<lambda>p pc. om_assign p (add_accum (om_get [] p pc) counts) pc) ps pc)
        })"

fun cancel_counts :: "(nat \<times> int \<times> accum) list \<Rightarrow> int \<Rightarrow> trav \<Rightarrow> (int \<times> trav) option" where
  "cancel_counts [] rc t = Some (rc, t)"
| "cancel_counts ((u, jid, counts) # rest) rc t = do {
     (r, _, t) \<leftarrow> cancel_vertex u (new_modify_data\<lparr>type_to_count := counts\<rparr>) jid t;
     if code_of r \<noteq> 0 then Some (code_of r, t) else cancel_counts rest 0 t
   }"

text \<open>Cancelling part of a job. A reader that gives the counts has released the vertices itself.
  The results are the code, the flag \<^verbatim>\<open>full_cancel\<close> and the traverser.\<close>

definition cancel_above :: "nat \<Rightarrow> int \<Rightarrow> bool \<Rightarrow> int \<Rightarrow> (nat, accum) omap \<Rightarrow> trav \<Rightarrow> (int \<times> bool \<times> trav) option" where
  "cancel_above rv jid full_cancel rc pc t =
     (if has_tag rv jid t then do {
        let calls = map (\<lambda>(u, counts). (u, jid, counts)) pc;
        (rc', t) \<leftarrow> cancel_counts calls rc t;
        Some (rc', if calls \<noteq> [] \<and> rc' \<noteq> 0 then full_cancel else \<not> has_tag rv jid t, t)
      }
      else map_option (\<lambda>(rc, t). (rc, full_cancel, t)) (mod_exv jid (reset_color t)))"

definition remove_part :: "reader \<Rightarrow> nat \<Rightarrow> string \<Rightarrow> int \<Rightarrow> bool \<Rightarrow> trav \<Rightarrow> (int \<times> bool \<times> trav) option" where
  "remove_part rd rv R_to_cancel jid full_cancel t = do {
     let t = tick (t\<lparr>m_preorder := 0, m_postorder := 0\<rparr>);
     let (rc, md, db) = reader_partial_cancel rd R_to_cancel jid (new_modify_data\<lparr>md_sequence_number := m_sequence_number t\<rparr>) (m_graph_db t);
     let t = t\<lparr>m_graph_db := db\<rparr>;
     if rc \<noteq> 0 then Some (- 1, full_cancel, t)
     else do {
       (r, md, t) \<leftarrow>
         (if rank_to_counts md = [] then release_ranks (cancel_tagged jid) (md_ranks md) (- 1) (md\<lparr>mod_type := VTX_CANCEL\<rparr>) t
          else Some (Inr (- 1), md, t));
       case r of
         Inl rc \<Rightarrow> Some (rc, full_cancel, t)
       | Inr rc \<Rightarrow>
           (if rank_to_root md = [] then Some (- 1, full_cancel, t)
            else do {
              pc \<leftarrow> parent_counts t md (rank_to_root md) [];
              case pc of Inl _ \<Rightarrow> Some (- 1, full_cancel, t) | Inr pc \<Rightarrow> cancel_above rv jid full_cancel rc pc t
            })
     }
   }"

section \<open>Removing ranks\<close>

text \<open>Every job found on the ranks loses the counts of all of them.\<close>

definition clear_rank :: releaser where
  "clear_rank u rc md t = map_option (\<lambda>(r, md, t). (checked r, md, t)) (clear_vertex u md t)"

definition rank_jobs :: "int list \<Rightarrow> trav \<Rightarrow> int list" where
  "rank_jobs rks t =
     map fst (fold (\<lambda>j m. om_assign j () m)
       (concat (map (\<lambda>u. map fst (tags (idata (vtx t u)))) (concat (map (\<lambda>rk. om_get [] rk (by_rank (metadata (m_graph_db t)))) rks))))
       [])"

definition remove_ranks :: "int list \<Rightarrow> trav \<Rightarrow> (int \<times> trav) option" where
  "remove_ranks rks t = do {
     let t = t\<lparr>m_preorder := 0, m_postorder := 0\<rparr>;
     let jobs = rank_jobs rks t;
     (r, md, t) \<leftarrow> release_ranks clear_rank rks (- 1) (new_modify_data\<lparr>md_ranks := rks\<rparr>) t;
     case r of
       Inl rc \<Rightarrow> Some (rc, t)
     | Inr rc \<Rightarrow>
         (if jobs = [] then Some (0, t)
          else do {
            pc \<leftarrow> parent_counts t md (rank_to_root md) [];
            case pc of
              Inl _ \<Rightarrow> Some (- 1, t)
            | Inr pc \<Rightarrow> cancel_counts (concat (map (\<lambda>(u, counts). map (\<lambda>j. (u, j, counts)) jobs) pc)) rc t
          })
   }"

section \<open>Marking\<close>

text \<open>The walk below a vertex does not look at colors: a cycle is followed for ever.\<close>

primrec get_subgraph_vertices :: "nat \<Rightarrow> nat \<Rightarrow> (nat, unit) omap \<Rightarrow> trav \<Rightarrow> ((nat, unit) omap \<times> trav) option" where
  "get_subgraph_vertices 0 u vs t = None"
| "get_subgraph_vertices (Suc n) u vs t = do {
     let s = dom_of t;
     let t = color_vtx u s (gray (m_color t)) t;
     (vs, t) \<leftarrow>
       fold (\<lambda>e st. Option.bind st (\<lambda>(vs, t). get_subgraph_vertices n (target t e) (om_assign (target t e) () vs) t))
         (filter (\<lambda>e. in_subsystem t e s) (out_edges (graph t) u)) (Some (vs, t));
     Some (vs, color_vtx u s (black (m_color t)) t)
   }"

definition set_status :: "nat \<Rightarrow> status \<Rightarrow> trav \<Rightarrow> trav" where
  "set_status u st t = upd_graph (upd_vtx u (\<lambda>v. v\<lparr>status := st\<rparr>)) t"

definition upd_metadata :: "(metadata \<Rightarrow> metadata) \<Rightarrow> trav \<Rightarrow> trav" where
  "upd_metadata f t = t\<lparr>m_graph_db := (m_graph_db t)\<lparr>metadata := f (metadata (m_graph_db t))\<rparr>\<rparr>"

fun mark_roots :: "nat list \<Rightarrow> status \<Rightarrow> (nat, unit) omap \<Rightarrow> trav \<Rightarrow> ((nat, unit) omap \<times> trav) option" where
  "mark_roots [] st vs t = Some (vs, t)"
| "mark_roots (u # us) st vs t =
     (if status (vtx t u) = st then mark_roots us st vs t
      else do {
        (vs, t) \<leftarrow> get_subgraph_vertices (Suc (length (g_vtxs (graph t)))) u (om_assign u () vs) (set_status u st t);
        mark_roots us st vs t
      })"

definition mark :: "string \<Rightarrow> status \<Rightarrow> trav \<Rightarrow> (int result \<times> trav) option" where
  "mark root_path st t =
     (case om_find root_path (by_path (metadata (m_graph_db t))) of
        None \<Rightarrow> Some (Inl EINVAL, t)
      | Some us \<Rightarrow> do {
          (vs, t) \<leftarrow> mark_roots us st [] t;
          Some (Inr 0,
            fold (\<lambda>(u, _) t. if vtype (vtx t u) = node_rt then upd_metadata (update_node_stats (i32 (vsize (vtx t u))) st) t else t) vs t)
        })"

text \<open>The root of a rank: the first vertex with the shortest path.\<close>

fun shortest_path :: "nat list \<Rightarrow> nat \<times> int \<Rightarrow> trav \<Rightarrow> nat option" where
  "shortest_path [] best t = Some (fst best)"
| "shortest_path (u # us) best t = do {
     n \<leftarrow> path_length u t;
     shortest_path us (if n < snd best then (u, n) else best) t
   }"

definition rank_root :: "nat list \<Rightarrow> trav \<Rightarrow> nat option" where
  "rank_root us t = do { n \<leftarrow> path_length (hd us) t; shortest_path us (hd us, n) t }"

text \<open>A vertex without a path ends the marking with an error; an entry without vertices has no front.\<close>

fun mark_ranks_loop :: "int list \<Rightarrow> status \<Rightarrow> int \<Rightarrow> trav \<Rightarrow> (int result \<times> trav) option" where
  "mark_ranks_loop [] st tot t = Some (Inr 0, upd_metadata (update_node_stats tot st) t)"
| "mark_ranks_loop (rk # rks) st tot t =
     (case om_find rk (by_rank (metadata (m_graph_db t))) of
        None \<Rightarrow> mark_ranks_loop rks st tot t
      | Some [] \<Rightarrow> None
      | Some us \<Rightarrow>
          (case rank_root us t of
             None \<Rightarrow> Some (Inl ENOENT, t)
           | Some u \<Rightarrow>
               (if status (vtx t u) \<noteq> st then mark_ranks_loop rks st (tot + 1) (set_status u st t)
                else mark_ranks_loop rks st tot t)))"

definition mark_ranks :: "int list \<Rightarrow> status \<Rightarrow> trav \<Rightarrow> (int result \<times> trav) option" where
  "mark_ranks rks st t = mark_ranks_loop rks st 0 t"

section \<open>Removing subgraphs\<close>

text \<open>The loop advances once more after an erasure: the entry after an erased one is skipped, and
  past the end when the erased one was the last. The entries are in the order of the map.\<close>

fun erase_targets :: "trav \<Rightarrow> nat \<Rightarrow> ((int \<times> int) \<times> nat) list \<Rightarrow> ((int \<times> int) \<times> nat) list option" where
  "erase_targets t dest [] = Some []"
| "erase_targets t dest ((k, e) # rest) =
     (if target t e = dest
      then (case rest of [] \<Rightarrow> None | skipped # rest \<Rightarrow> map_option (Cons skipped) (erase_targets t dest rest))
      else map_option (Cons (k, e)) (erase_targets t dest rest))"

definition remove_metadata_outedges :: "nat \<Rightarrow> nat \<Rightarrow> trav \<Rightarrow> (int result \<times> trav) option" where
  "remove_metadata_outedges u dest t =
     (case om_find u (by_outedges (metadata (m_graph_db t))) of
        None \<Rightarrow> Some (Inl UNSET, t)
      | Some m \<Rightarrow> do {
          m \<leftarrow> erase_targets t dest (rev m);
          Some (Inr 0, upd_metadata (\<lambda>md. md\<lparr>by_outedges := om_assign u (rev m) (by_outedges md)\<rparr>) t)
        })"

definition drop_from :: "'k::linorder \<Rightarrow> nat \<Rightarrow> ('k, nat list) omap \<Rightarrow> ('k, nat list) omap" where
  "drop_from k u m = om_assign k (remove1 u (om_get [] k m)) m"

definition remove_graph_metadata :: "nat \<Rightarrow> trav \<Rightarrow> trav" where
  "remove_graph_metadata u t =
     (let v = vtx t u
      in upd_metadata (\<lambda>md. md\<lparr>by_outedges := om_erase u (by_outedges md),
           by_path := fold (\<lambda>(_, p) m. om_erase p m) (paths v) (by_path md),
           by_type := drop_from (vtype v) u (by_type md),
           by_name := drop_from (vname v) u (by_name md),
           by_rank := drop_from (rank v) u (by_rank md)\<rparr>) t)"

definition clear_edges :: "nat \<Rightarrow> resource_graph \<Rightarrow> resource_graph" where
  "clear_edges u g =
     g\<lparr>g_edgs := map (\<lambda>e. if edge_source e = u \<or> edge_target e = u then e\<lparr>edge_removed := True\<rparr> else e) (g_edgs g)\<rparr>"

fun detach_roots :: "nat list \<Rightarrow> trav \<Rightarrow> (int result \<times> trav) option" where
  "detach_roots [] t = Some (Inr 0, t)"
| "detach_roots (u # us) t = do {
     let t = reset_color t;
     case get_parent_vtx t u of
       None \<Rightarrow> Some (Inl UNSET, t)
     | Some p \<Rightarrow> do {
         (r, t) \<leftarrow> remove_metadata_outedges p u t;
         case r of Inl e \<Rightarrow> Some (Inl e, t) | Inr _ \<Rightarrow> detach_roots us t
       }
   }"

definition remove_vertices :: "nat list \<Rightarrow> nat list \<Rightarrow> trav \<Rightarrow> (int result \<times> trav) option" where
  "remove_vertices rts us t = do {
     (r, t) \<leftarrow> detach_roots rts t;
     Some (case r of
             Inl e \<Rightarrow> (Inl e, t)
           | Inr _ \<Rightarrow> (Inr 0, fold (\<lambda>u t. remove_graph_metadata u (upd_graph (clear_edges u) t)) us t))
   }"

fun rank_subgraphs :: "int list \<Rightarrow> trav \<Rightarrow> (nat list \<times> (nat, unit) omap) \<Rightarrow> (nat list \<times> (nat, unit) omap) option" where
  "rank_subgraphs [] t st = Some st"
| "rank_subgraphs (rk # rks) t (rts, vs) =
     (case om_find rk (by_rank (metadata (m_graph_db t))) of
        None \<Rightarrow> rank_subgraphs rks t (rts, vs)
      | Some us \<Rightarrow> do {
          u \<leftarrow> shortest_path us (length (g_vtxs (graph t)), 0x7fffffff) t;
          rank_subgraphs rks t (rts @ [u], fold (\<lambda>v vs. om_assign v () vs) us vs)
        })"

text \<open>A rank whose vertices are gone gives the null vertex, which is not in the graph.\<close>

definition remove_subgraph_ranks :: "int list \<Rightarrow> trav \<Rightarrow> (int result \<times> trav) option" where
  "remove_subgraph_ranks rks t = do {
     (rts, vs) \<leftarrow> rank_subgraphs rks t ([], []);
     if list_all (\<lambda>u. u < length (g_vtxs (graph t))) rts then remove_vertices rts (map fst vs) t else None
   }"

definition remove_subgraph :: "string \<Rightarrow> trav \<Rightarrow> (int result \<times> trav) option" where
  "remove_subgraph path t =
     (case om_find path (by_path (metadata (m_graph_db t))) of
        None \<Rightarrow> Some (Inl UNSET, t)
      | Some [] \<Rightarrow> None
      | Some us \<Rightarrow> do {
          let u = last us;
          (vs, t) \<leftarrow> get_subgraph_vertices (Suc (length (g_vtxs (graph t)))) u [(u, ())] t;
          remove_vertices [u] (map fst vs) t
        })"

end
