(* ===== verification/Traverser_Frame.thy ===== *)
theory Traverser_Frame
  imports Traverser_Walk
begin

text \<open>
  What a walk leaves alone. The steps of the walk that write to the traverser are few: a color, a mark
  on an edge, a label, the state of the policy and the counters. A relation between states that each of
  them keeps is kept by the whole walk; the locale \<open>walk_relation\<close> proves this once, and its
  interpretations say which data survive a selection and that colors are only added.
\<close>

section \<open>Runs\<close>

text \<open>How a step of a run came about.\<close>

lemma bindE:
  assumes "Option.bind x f = Some y"
  obtains z where "x = Some z" and "f z = Some y"
  using assms by (auto simp: bind_eq_Some_conv)

lemma sumE:
  assumes "case_sum f g r = y"
  obtains e where "r = Inl e" and "f e = y" | v where "r = Inr v" and "g v = y"
  using assms by (cases r) auto

lemma optE:
  assumes "case_option f g r = y"
  obtains "r = None" and "f = y" | v where "r = Some v" and "g v = y"
  using assms by (cases r) auto

lemmas runE = bindE sumE optE

section \<open>The policies\<close>

lemma calls_data [simp]: "cb_data (incr m) = cb_data m" "cb_data (decr m) = cb_data m" "cb_util (incr m) = cb_util m" "cb_util (decr m) = cb_util m"
  by (simp_all add: incr_def decr_def)

lemma policy_calls_keep:
  shows "dom_discover_vtx v m = Some (r, m') \<Longrightarrow> data_of m' = data_of m \<and> util_of m' = util_of m"
    and "dom_finish_vtx srt v s rs d m = Some (r', d', m') \<Longrightarrow> data_of m' = data_of m \<and> util_of m' = util_of m"
    and "dom_finish_graph srt icl s rs d m = Some (r', d', m') \<Longrightarrow> data_of m' = data_of m \<and> util_of m' = util_of m"
    and "data_of (aux_discover_vtx m) = data_of m \<and> util_of (aux_discover_vtx m) = util_of m"
    and "data_of (aux_finish_vtx m) = data_of m \<and> util_of (aux_finish_vtx m) = util_of m"
proof -
  have disc: "cb_data n' = cb_data n \<and> cb_util n' = cb_util n" if "multilevel_discover_vtx v n = Some (r, n')" for n n'
    using that by (auto simp: multilevel_discover_vtx_def Let_def elim!: runE split: if_split_asm)
  have fin: "cb_data n' = cb_data n \<and> cb_util n' = cb_util n" if "multilevel_finish_vtx srt cmp v s rs d n = Some (r', d', n')" for cmp n n'
    using that by (auto simp: multilevel_finish_vtx_def Let_def bind_eq_Some_conv split: option.splits)
  have gr: "cb_data n' = cb_data n \<and> cb_util n' = cb_util n" if "multilevel_finish_graph srt cmp s rs d n = Some (r', d', n')" for cmp n n'
    using that by (auto simp: multilevel_finish_graph_def Let_def bind_eq_Some_conv)
  show "dom_discover_vtx v m = Some (r, m') \<Longrightarrow> data_of m' = data_of m \<and> util_of m' = util_of m"
    by (cases m) (auto dest: disc)
  show "dom_finish_vtx srt v s rs d m = Some (r', d', m') \<Longrightarrow> data_of m' = data_of m \<and> util_of m' = util_of m"
    by (cases m) (auto dest: fin simp: locality_finish_vtx_def var_aware_finish_vtx_def bind_eq_Some_conv Let_def)
  show "dom_finish_graph srt icl s rs d m = Some (r', d', m') \<Longrightarrow> data_of m' = data_of m \<and> util_of m' = util_of m"
    by (cases m) (auto dest: gr)
  show "data_of (aux_discover_vtx m) = data_of m \<and> util_of (aux_discover_vtx m) = util_of m" by (cases m) auto
  show "data_of (aux_finish_vtx m) = data_of m \<and> util_of (aux_finish_vtx m) = util_of m" by (cases m) auto
qed

section \<open>Relations a walk keeps\<close>

locale walk_relation =
  fixes R :: "trav \<Rightarrow> trav \<Rightarrow> bool"
  assumes refl: "R t t"
    and trans: "R t t' \<Longrightarrow> R t' t'' \<Longrightarrow> R t t''"
    and colored: "c = gray (m_color t) \<or> c = black (m_color t) \<Longrightarrow> R t (color_vtx u s c t)"
    and marked: "R t (mark_edge e n x t)"
    and labelled: "R t (upd_graph (upd_vtx u (\<lambda>v. v\<lparr>idata := (idata v)\<lparr>ephemeral := ep\<rparr>\<rparr>)) t)"
    and policy: "data_of m = data_of (m_match t) \<and> util_of m = util_of (m_match t) \<Longrightarrow> R t (t\<lparr>m_match := m\<rparr>)"
    and counters: "R t (t\<lparr>m_preorder := k\<rparr>)" "R t (t\<lparr>m_postorder := k\<rparr>)" "R t (t\<lparr>aux_root := rt\<rparr>)"
begin

lemma climb_rel:
  assumes "climb s d v t = Some t'"
  shows "R t t'"
proof (rule climb.raw_induct [OF _ assms])
  fix f :: "string \<Rightarrow> scoring \<Rightarrow> nat \<Rightarrow> trav \<Rightarrow> trav option" and s d v t t'
  assume IH: "\<And>s d v t t'. f s d v t = Some t' \<Longrightarrow> R t t'"
    and e: "(case find_parent_edge t s v of
        None \<Rightarrow> Some t
      | Some e \<Rightarrow>
          (if m_edge_seq (edge_idata (g_edgs (graph t) ! e)) = m_sequence_number t then Some t
           else
             (let tgt = vtx t (target t e)
              in f s d (source t e) (if unconstrained s (vtype tgt) d then mark_edge e (vsize tgt) 0 t else t)))) = Some t'"
  have "R t (if b then mark_edge e n 0 t else t)" for b e n using refl marked by simp
  then show "R t t'" using e IH trans by (fastforce simp: Let_def refl split: option.split_asm if_split_asm)
qed

lemma enforce_edges_rel: "enforce_edges unc s d es t = Some t' \<Longrightarrow> R t t'"
proof (induction es arbitrary: t)
  case (Cons e es)
  then obtain t1 where "(if unc \<and> s = dom_of (mark_edge (edge e) (edg_needs e) (i32 (edg_exclusive e)) t)
      then climb s d (source (mark_edge (edge e) (edg_needs e) (i32 (edg_exclusive e)) t) (edge e)) (mark_edge (edge e) (edg_needs e) (i32 (edg_exclusive e)) t)
      else Some (mark_edge (edge e) (edg_needs e) (i32 (edg_exclusive e)) t)) = Some t1" "R t1 t'"
    by (auto simp: Let_def bind_eq_Some_conv)
  then show ?case using marked trans climb_rel refl by (metis option.inject)
qed (simp add: refl)

lemma enforce_groups_rel: "enforce_groups unc s d ty is t = Some (r, t') \<Longrightarrow> R t t'"
  by (induction "is" arbitrary: t, simp add: refl)
    (auto simp: refl elim!: runE split: if_split_asm, metis trans enforce_edges_rel)

lemma enforce_types_rel: "enforce_types unc s d tys t = Some (r, t') \<Longrightarrow> R t t'"
  by (induction tys arbitrary: t) (auto simp: refl elim!: runE split: if_split_asm intro: trans [OF enforce_groups_rel] enforce_groups_rel)

lemma enforce_all_rel: "enforce_all unc ss d t = Some (r, d', t') \<Longrightarrow> R t t'"
  by (induction ss arbitrary: d t r)
    (auto simp: refl enforce_def elim!: runE split: prod.split_asm intro: trans [OF enforce_types_rel])

lemma resolve_rel: "resolve d p t = Some (r, d', p', t') \<Longrightarrow> R t t'"
  by (auto simp: resolve_def refl split: if_splits dest: enforce_all_rel)

lemma insert_labels_rel: "insert_labels u rs t = (r, t') \<Longrightarrow> R t t'"
  by (induction rs arbitrary: t) (auto simp: refl Let_def split: if_splits prod.splits sum.splits intro: labelled trans)

definition keeps :: "visitor \<Rightarrow> bool" where
  "keeps visit \<longleftrightarrow> (\<forall>u rs pr x d t r x' d' t'. visit u rs pr x d t = Some (r, x', d', t') \<longrightarrow> R t t')"

lemma keepsD: "keeps visit \<Longrightarrow> visit u rs pr x d t = Some (r, x', d', t') \<Longrightarrow> R t t'"
  by (simp add: keeps_def)

lemma explore_rel:
  assumes "keeps visit"
  shows "explore visit u s rs pr x k d t = Some (f, d', t') \<Longrightarrow> R t t'"
proof -
  have st: "explore_statically visit s rs pr x es fd d t = Some (f, d', t') \<Longrightarrow> R t t'" for es fd d t
    by (induction es arbitrary: fd d t)
      (auto simp: refl elim!: runE split: if_split_asm intro: trans [OF keepsD [OF assms]] keepsD [OF assms])
  have dy: "dynamic_loop visit s rs pr x k es sat ys fd d t = Some (f, d', t') \<Longrightarrow> R t t'" for es sat ys fd d t
    by (induction es arbitrary: sat ys fd d t)
      (auto simp: refl Let_def elim!: runE split: if_split_asm prod.split_asm intro: trans [OF keepsD [OF assms]] keepsD [OF assms])
  show "explore visit u s rs pr x k d t = Some (f, d', t') \<Longrightarrow> R t t'"
    by (auto simp: explore_def explore_dynamically_def refl bind_eq_Some_conv split: if_splits option.splits dest: st dy)
qed

lemma aux_tail_rel:
  assumes "(case avail_of meta (vtx t u) of
      Inl e \<Rightarrow> Some (Inl e, x, p, t)
    | Inr avail \<Rightarrow>
        (if avail = 0 \<or> avail = - 1 then Some (Inl UNSET, x, p, t)
         else do {
           (r, _, p, t) \<leftarrow> resolve upv p (t\<lparr>m_match := aux_finish_vtx (m_match t)\<rparr>);
           Some (r, x, p, t)
         })) = Some (r, x', p', t')"
  shows "R t t'"
proof -
  have "R t (t\<lparr>m_match := aux_finish_vtx (m_match t)\<rparr>)" using policy policy_calls_keep(5) by simp
  then show ?thesis using assms by (auto simp: Let_def refl elim!: runE split: if_split_asm dest!: resolve_rel) (metis trans)+
qed

lemma aux_upv_keeps: "keeps (aux_upv n lib meta aux)"
proof (induction n)
  case (Suc n)
  show ?case unfolding keeps_def
  proof (intro allI impI)
    fix u rs pr x d t r x' d' t'
    assume a: "aux_upv (Suc n) lib meta aux u rs pr x d t = Some (r, x', d', t')"
    let ?rt = "case aux_root t of None \<Rightarrow> om_find aux (roots (metadata (m_graph_db t))) | Some r \<Rightarrow> r"
    let ?t = "t\<lparr>aux_root := Some ?rt\<rparr>"
    have 1: "R t ?t" by (rule counters(3))
    have 2: "R ?t (?t\<lparr>m_match := aux_discover_vtx (m_match ?t)\<rparr>)" using policy policy_calls_keep(4) by blast
    show "R t t'"
    proof (cases ?rt)
      case (Some rv)
      then obtain p where p: "prune lib meta x aux (vtx ?t u) rs = Some p" using a by (auto simp: Let_def elim!: bindE)
      show ?thesis
      proof (cases p)
        case (Inr v)
        let ?u = "?t\<lparr>m_match := aux_discover_vtx (m_match ?t)\<rparr>"
        obtain f d1 t1 where e: "(if u \<noteq> rv then explore (aux_upv n lib meta aux) u aux rs pr x 1 new_scoring ?u else Some (False, new_scoring, ?u)) = Some (f, d1, t1)"
            and tl: "R t1 t'"
          using a Some p Inr by (simp only: aux_upv.simps Let_def option.case) (auto simp: Let_def elim!: bindE dest!: aux_tail_rel)
        have "R ?u t1" using e explore_rel [OF Suc] refl by (auto split: if_split_asm)
        then show ?thesis using 1 2 tl trans by blast
      qed (use a Some p 1 in \<open>auto simp: Let_def\<close>)
    qed (use a 1 in \<open>auto simp: Let_def\<close>)
  qed
qed (simp add: keeps_def)

lemma dom_slot_rel: "keeps visit \<Longrightarrow> dom_slot lib visit u rs n pr d t = Some (f, d', t') \<Longrightarrow> R t t'"
  by (auto simp: dom_slot_def Let_def elim!: runE split: if_split_asm option.split_asm dest: explore_rel)

lemma dom_exp_rel:
  assumes "\<And>s. keeps (visit s)"
  shows "dom_exp visit ss u rs pr x d t = Some (d', t') \<Longrightarrow> R t t'"
  by (induction ss arbitrary: d t) (auto simp: refl elim!: runE intro: trans [OF explore_rel [OF assms]])

lemma finish_visit_rel:
  assumes "finish_visit lib meta u rs d p t = Some (r, p', t')"
  shows "R t t'"
proof -
  have m: "R t (t\<lparr>m_match := m\<rparr>)" if "dom_finish_vtx (lib_sort lib) (vtx t u) (dom_of t) rs d (m_match t) = Some (r1, d1, m)" for r1 d1 m
    using policy_calls_keep(2) [OF that] policy by blast
  show ?thesis using assms
    by (auto simp: finish_visit_def Let_def refl elim!: runE split: if_split_asm prod.split_asm sum.split_asm
        dest!: resolve_rel insert_labels_rel m) (metis trans counters(2))+
qed

lemma dom_dfv_keeps: "keeps (dom_dfv n lib meta)"
proof (induction n)
  case (Suc n)
  have visits: "keeps (if s' = s then dom_dfv n lib meta else aux_upv n lib meta s')" for s s'
    using Suc by (simp add: aux_upv_keeps)
  show ?case unfolding keeps_def
  proof (intro allI impI)
    fix u rs pr x d t r x' d' t'
    assume a: "dom_dfv (Suc n) lib meta u rs pr x d t = Some (r, x', d', t')"
    let ?t = "t\<lparr>m_preorder := u32 (m_preorder t + 1)\<rparr>"
    have pre: "R t ?t" by (rule counters(1))
    have dis: "R ?t (?t\<lparr>m_match := m\<rparr>)" if "dom_discover_vtx (vtx ?t u) (m_match ?t) = Some (r1, m)" for r1 m
      using policy_calls_keep(1) [OF that] policy by blast
    obtain nx pr' ns sm where ts: "test t u rs pr = Some (nx, pr', ns, sm)" using a by (auto elim!: bindE simp: Let_def)
    consider "t' = ?t" | r1 m where "dom_discover_vtx (vtx ?t u) (m_match ?t) = Some (r1, m)" "t' = ?t\<lparr>m_match := m\<rparr>"
      | r1 m d1 t1 where "dom_discover_vtx (vtx ?t u) (m_match ?t) = Some (r1, m)"
          "(if sm = SLOT_MATCH
            then map_option snd (dom_slot lib (dom_dfv n lib meta) u nx ns pr' new_scoring (color_vtx u (dom_of t) (gray (m_color t)) (?t\<lparr>m_match := m\<rparr>)))
            else dom_exp (\<lambda>s'. if s' = dom_of t then dom_dfv n lib meta else aux_upv n lib meta s')
                   (subsystems_of (color_vtx u (dom_of t) (gray (m_color t)) (?t\<lparr>m_match := m\<rparr>))) u nx pr' (x \<or> exclusivity rs (vtx t u)) new_scoring
                   (color_vtx u (dom_of t) (gray (m_color t)) (?t\<lparr>m_match := m\<rparr>))) = Some (d1, t1)"
          "R (color_vtx u (dom_of t) (black (m_color t1)) t1) t'"
      using a ts by (auto simp: Let_def elim!: bindE sumE split: if_split_asm dest!: finish_visit_rel) blast+
    then show "R t t'"
    proof cases
      case 3
      let ?g = "color_vtx u (dom_of t) (gray (m_color t)) (?t\<lparr>m_match := m\<rparr>)"
      have "R (?t\<lparr>m_match := m\<rparr>) ?g" using colored by simp
      moreover have "R ?g t1" using 3(2) by (auto split: if_split_asm dest: dom_slot_rel [OF Suc] dom_exp_rel [OF visits])
      moreover have "R t1 (color_vtx u (dom_of t) (black (m_color t1)) t1)" using colored by simp
      ultimately show ?thesis using trans [OF pre dis [OF 3(1)]] 3(3) by (meson trans)
    next
      case 2
      then show ?thesis using trans [OF pre dis] by simp
    qed (use pre in simp)
  qed
qed (simp add: keeps_def)

lemma resolve_graph_rel: "resolve_graph lib rv rs d t = Some (ok, n, t') \<Longrightarrow> R t t'"
proof -
  assume a: "resolve_graph lib rv rs d t = Some (ok, n, t')"
  have m: "R t (t\<lparr>m_match := m\<rparr>)" if "dom_finish_graph (lib_sort lib) (lib_icl lib) (dom_of t) rs d (m_match t) = Some (r1, d1, m)" for r1 d1 m
    using policy_calls_keep(3) [OF that] policy by blast
  show "R t t'" using a
    by (auto simp: resolve_graph_def Let_def elim!: bindE sumE split: if_split_asm prod.split_asm dest!: enforce_all_rel m) (metis trans)+
qed

end

section \<open>What survives\<close>

definition bare :: "resource_pool \<Rightarrow> resource_pool" where
  "bare v = v\<lparr>idata := (idata v)\<lparr>colors := [], ephemeral := new_ephemeral\<rparr>\<rparr>"

definition unmarked :: "graph_edge \<Rightarrow> graph_edge" where
  "unmarked e = e\<lparr>edge_idata := scrub_relation (edge_idata e)\<rparr>"

text \<open>Vertices but for colors and labels, edges but for marks, indices, sequence number and policy
  settings; an edge that changed carries the number of the walk.\<close>

definition survives :: "trav \<Rightarrow> trav \<Rightarrow> bool" where
  "survives t t' \<longleftrightarrow>
     map bare (g_vtxs (graph t')) = map bare (g_vtxs (graph t)) \<and>
     map unmarked (g_edgs (graph t')) = map unmarked (g_edgs (graph t)) \<and>
     (\<forall>e<length (g_edgs (graph t)). g_edgs (graph t') ! e = g_edgs (graph t) ! e \<or>
        m_edge_seq (edge_idata (g_edgs (graph t') ! e)) = m_sequence_number t) \<and>
     metadata (m_graph_db t') = metadata (m_graph_db t) \<and> m_color t' = m_color t \<and> m_sequence_number t' = m_sequence_number t \<and>
     m_trav_level t' = m_trav_level t \<and>
     data_of (m_match t') = data_of (m_match t) \<and> util_of (m_match t') = util_of (m_match t)"

lemma bare_fields [simp]:
  "bare (v\<lparr>idata := (idata v)\<lparr>colors := c\<rparr>\<rparr>) = bare v" "bare (v\<lparr>idata := (idata v)\<lparr>ephemeral := ep\<rparr>\<rparr>) = bare v"
  by (simp_all add: bare_def)

lemma map_upd_same: "f y = f (xs ! i) \<Longrightarrow> map f (xs[i := y]) = map f xs"
  by (cases "i < length xs") (auto intro!: nth_equalityI simp: nth_list_update)

lemma bare_upd: "(\<And>v. bare (f v) = bare v) \<Longrightarrow> map bare (g_vtxs (upd_vtx u f g)) = map bare (g_vtxs g)"
  by (simp add: upd_vtx_def map_upd_same)

lemma upd_graph_fields [simp]:
  "metadata (m_graph_db (upd_graph f t)) = metadata (m_graph_db t)" "m_color (upd_graph f t) = m_color t"
  "m_sequence_number (upd_graph f t) = m_sequence_number t" "m_trav_level (upd_graph f t) = m_trav_level t"
  "m_match (upd_graph f t) = m_match t" "graph (upd_graph f t) = f (graph t)" "aux_root (upd_graph f t) = aux_root t"
  by (simp_all add: upd_graph_def)

lemma upd_vtx_edges [simp]: "g_edgs (upd_vtx u f g) = g_edgs g" and upd_edg_vtxs [simp]: "g_vtxs (upd_edg e h g) = g_vtxs g"
  by (simp_all add: upd_vtx_def upd_edg_def)

lemma survives_vtx: "(\<And>v. bare (f v) = bare v) \<Longrightarrow> survives t (upd_graph (upd_vtx u f) t)"
  by (simp add: survives_def bare_upd)

lemma survives_mark: "survives t (mark_edge e n x t)"
proof -
  have "unmarked (d\<lparr>edge_idata := set_for_trav_update n x k (edge_idata d)\<rparr>) = unmarked d" for d k
    by (simp add: unmarked_def scrub_relation_def set_for_trav_update_def)
  moreover have "xs[i := y] ! j = xs ! j \<or> j = i \<and> xs[i := y] ! j = y" if "j < length xs" for xs :: "graph_edge list" and i j y
    using that by (cases "j = i") auto
  ultimately show ?thesis
    by (fastforce simp: survives_def mark_edge_def upd_edg_def map_upd_same set_for_trav_update_def)
qed

lemma survives_trans: "survives t t' \<Longrightarrow> survives t' t'' \<Longrightarrow> survives t t''"
  unfolding survives_def by (metis map_eq_imp_length_eq)

interpretation kept: walk_relation survives
  by unfold_locales
    (auto simp: survives_mark color_vtx_def intro: survives_vtx survives_trans, auto simp: survives_def)

end
