(* ===== verification/Traverser_Fuel.thy ===== *)
theory Traverser_Fuel
  imports Traverser_Frame
begin

text \<open>
  The counters that bound the walks are large enough: a walk with more gives the same result. Every
  step down colors a vertex, so there are no more of them than vertices; a walk up ends in a
  subsystem without cycles.
\<close>

section \<open>Colors only grow\<close>

lemma om_find_assign_any: "om_find j (om_assign k v m) = (if j = k then Some v else om_find j m)"
  by (induction k v m rule: om_assign.induct) (auto simp: om_find_def)

lemma upd_vtx_length [simp]: "length (g_vtxs (upd_vtx u f g)) = length (g_vtxs g)"
  by (simp add: upd_vtx_def)

lemma upd_vtx_nth: "g_vtxs (upd_vtx u f g) ! v = (if v = u \<and> u < length (g_vtxs g) then f (g_vtxs g ! u) else g_vtxs g ! v)"
  by (cases "u < length (g_vtxs g)") (auto simp: upd_vtx_def nth_list_update list_update_beyond)

definition has_color :: "color \<Rightarrow> string \<Rightarrow> (string, int) omap \<Rightarrow> bool" where
  "has_color base s m \<longleftrightarrow> om_find s m = Some (gray base) \<or> om_find s m = Some (black base)"

lemma stop_explore_color: "stop_explore t e s = has_color (m_color t) s (colors (idata (vtx t (target t e))))"
  by (auto simp: stop_explore_def has_color_def is_gray_def is_black_def split: option.split)

definition visited :: "string \<Rightarrow> trav \<Rightarrow> nat set" where
  "visited s t = {u. u < length (g_vtxs (graph t)) \<and> has_color (m_color t) s (colors (idata (vtx t u)))}"

definition white_of :: "string \<Rightarrow> trav \<Rightarrow> nat set" where
  "white_of s t = {..<length (g_vtxs (graph t))} - visited s t"

definition advances :: "trav \<Rightarrow> trav \<Rightarrow> bool" where
  "advances t t' \<longleftrightarrow> survives t t' \<and> (\<forall>s. visited s t \<subseteq> visited s t')"

lemma survives_lengths:
  assumes "survives t t'"
  shows "length (g_vtxs (graph t')) = length (g_vtxs (graph t))" "length (g_edgs (graph t')) = length (g_edgs (graph t))"
  using assms unfolding survives_def by (metis map_eq_imp_length_eq)+

lemma survives_edge:
  assumes "survives t t'" and "e < length (g_edgs (graph t))"
  shows "unmarked (g_edgs (graph t') ! e) = unmarked (g_edgs (graph t) ! e)"
    and "target t' e = target t e" and "source t' e = source t e" and "in_subsystem t' e s = in_subsystem t e s"
    and "edge_removed (g_edgs (graph t') ! e) = edge_removed (g_edgs (graph t) ! e)"
proof -
  show 1: "unmarked (g_edgs (graph t') ! e) = unmarked (g_edgs (graph t) ! e)"
    using assms survives_lengths(2) [OF assms(1)] unfolding survives_def by (metis nth_map)
  show "target t' e = target t e" "source t' e = source t e" "in_subsystem t' e s = in_subsystem t e s"
    "edge_removed (g_edgs (graph t') ! e) = edge_removed (g_edgs (graph t) ! e)"
    using arg_cong [OF 1, of edge_target] arg_cong [OF 1, of edge_source] arg_cong [OF 1, of edge_subsystem] arg_cong [OF 1, of edge_removed]
    by (simp_all add: unmarked_def target_def source_def in_subsystem_def)
qed

lemma visited_color:
  assumes "c = gray (m_color t) \<or> c = black (m_color t)"
  shows "visited s t \<subseteq> visited s (color_vtx u s' c t)" and "u < length (g_vtxs (graph t)) \<Longrightarrow> u \<in> visited s' (color_vtx u s' c t)"
proof -
  note [simp] = color_vtx_def upd_vtx_nth
  have "length (g_vtxs (graph (color_vtx u s' c t))) = length (g_vtxs (graph t))" "m_color (color_vtx u s' c t) = m_color t"
    by simp_all
  then show "visited s t \<subseteq> visited s (color_vtx u s' c t)" and "u < length (g_vtxs (graph t)) \<Longrightarrow> u \<in> visited s' (color_vtx u s' c t)"
    using assms by (auto simp: visited_def has_color_def om_find_assign_any)
qed

lemma advances_trans: "advances t t' \<Longrightarrow> advances t' t'' \<Longrightarrow> advances t t''"
  unfolding advances_def using survives_trans by blast

lemma advances_same: "survives t t' \<Longrightarrow> (\<And>u. colors (idata (vtx t' u)) = colors (idata (vtx t u))) \<Longrightarrow> advances t t'"
  using survives_lengths(1) [of t t'] by (auto simp: advances_def visited_def survives_def)

interpretation adv: walk_relation advances
proof
  show "advances t (color_vtx u s c t)" if "c = gray (m_color t) \<or> c = black (m_color t)" for t u s c
    unfolding advances_def using visited_color(1) [OF that] kept.colored [OF that] by blast
  show "advances t (upd_graph (upd_vtx u (\<lambda>v. v\<lparr>idata := (idata v)\<lparr>ephemeral := ep\<rparr>\<rparr>)) t)" for t u ep
    using kept.labelled by (rule advances_same) (simp add: upd_vtx_nth)
  show "advances t (mark_edge e n x t)" for t e n x
    using kept.marked by (rule advances_same) (simp add: mark_edge_def)
  show "advances t t''" if "advances t t'" "advances t' t''" for t t' t'' using that by (rule advances_trans)
qed (rule advances_same, auto intro: kept.refl kept.policy kept.counters)+

section \<open>Exploring with two visitors\<close>

definition edges_from :: "trav \<Rightarrow> nat \<Rightarrow> nat set" where
  "edges_from t u = set (out_edges (graph t) u) \<union> snd ` set (om_get [] u (by_outedges (metadata (m_graph_db t))))"

lemma explore_cong:
  assumes keeps: "adv.keeps visit"
    and agree: "\<And>e d t'. advances t t' \<Longrightarrow> e \<in> edges_from t u \<Longrightarrow> in_subsystem t' e s \<Longrightarrow> \<not> stop_explore t' e s
        \<Longrightarrow> visit (target t' e) rs pr x d t' = visit' (target t' e) rs pr x d t'"
  shows "explore visit u s rs pr x k d t = explore visit' u s rs pr x k d t"
proof -
  have st: "explore_statically visit s rs pr x es fd d t' = explore_statically visit' s rs pr x es fd d t'"
    if "set es \<subseteq> edges_from t u" "advances t t'" for es fd d t'
    using that
  proof (induction es arbitrary: fd d t')
    case (Cons e es)
    then have "visit (target t' e) rs pr x d t' = visit' (target t' e) rs pr x d t'" if "\<not> (stop_explore t' e s \<or> \<not> in_subsystem t' e s)"
      using agree that by auto
    moreover have "advances t t''" if "visit (target t' e) rs pr x d t' = Some (r, x', d', t'')" for r x' d' t''
      using that Cons.prems(2) keeps advances_trans unfolding adv.keeps_def by blast
    ultimately show ?case using Cons by (auto intro!: Option.bind_cong split: sum.split)
  qed simp
  have dy: "dynamic_loop visit s rs pr x k es sat ys fd d t' = dynamic_loop visit' s rs pr x k es sat ys fd d t'"
    if "set es \<subseteq> edges_from t u" "advances t t'" for es sat ys fd d t'
    using that
  proof (induction es arbitrary: sat ys fd d t')
    case (Cons e es)
    then have "visit (target t' e) rs pr x d t' = visit' (target t' e) rs pr x d t'" if "\<not> (stop_explore t' e s \<or> \<not> in_subsystem t' e s)"
      using agree that by auto
    moreover have "advances t t''" if "visit (target t' e) rs pr x d t' = Some (r, x', d', t'')" for r x' d' t''
      using that Cons.prems(2) keeps advances_trans unfolding adv.keeps_def by blast
    ultimately show ?case using Cons by (auto intro!: Option.bind_cong simp: Let_def split: sum.split prod.split)
  qed simp
  have "set (map snd (rev es)) \<subseteq> edges_from t u" if "om_find u (by_outedges (metadata (m_graph_db t))) = Some es" for es
    using that by (auto simp: edges_from_def om_get_def)
  then show ?thesis
    using st [of "out_edges (graph t) u"] dy adv.refl
    by (auto simp: explore_def explore_dynamically_def edges_from_def intro!: Option.bind_cong split: option.split)
qed

section \<open>Enough\<close>

text \<open>Edges end at vertices, the index of the out-edges holds edges of its vertex, and the vertices
  of every other subsystem have a rank, below \<open>hi\<close>, that its edges lower.\<close>

definition graph_ok :: "trav \<Rightarrow> bool" where
  "graph_ok t \<longleftrightarrow>
     (\<forall>e<length (g_edgs (graph t)). source t e < length (g_vtxs (graph t)) \<and> target t e < length (g_vtxs (graph t))) \<and>
     (\<forall>u. \<forall>x\<in>set (om_get [] u (by_outedges (metadata (m_graph_db t)))). snd x < length (g_edgs (graph t)) \<and> source t (snd x) = u)"

definition ranked :: "(nat \<Rightarrow> nat) \<Rightarrow> nat \<Rightarrow> trav \<Rightarrow> bool" where
  "ranked h hi t \<longleftrightarrow> (\<forall>v. h v < hi) \<and>
     (\<forall>s\<in>set (subsystems_of t). \<forall>e<length (g_edgs (graph t)). s \<noteq> dom_of t \<longrightarrow> in_subsystem t e s \<longrightarrow> h (target t e) < h (source t e))"

lemma edges_fromD:
  assumes "graph_ok t" and "e \<in> edges_from t u"
  shows "e < length (g_edgs (graph t))" and "source t e = u" and "target t e < length (g_vtxs (graph t))"
  using assms by (fastforce simp: edges_from_def graph_ok_def out_edges_def source_def)+

lemma survives_ok:
  assumes "survives t t'"
  shows "graph_ok t' = graph_ok t" and "ranked h hi t' = ranked h hi t"
proof -
  have "metadata (m_graph_db t') = metadata (m_graph_db t)" "data_of (m_match t') = data_of (m_match t)"
    using assms by (simp_all add: survives_def)
  then show "graph_ok t' = graph_ok t" and "ranked h hi t' = ranked h hi t"
    unfolding graph_ok_def ranked_def
    by (simp_all add: survives_lengths [OF assms] survives_edge(2-4) [OF assms] cong: conj_cong imp_cong)
qed

lemma aux_fuel:
  assumes "graph_ok t" and "ranked h hi t" and "s \<in> set (subsystems_of t)" and "s \<noteq> dom_of t" and "h u < n" and "h u < m"
  shows "aux_upv n lib meta s u rs pr x d t = aux_upv m lib meta s u rs pr x d t"
  using assms
proof (induction n arbitrary: m u rs pr x d t)
  case (Suc n)
  then obtain m' where m: "m = Suc m'" by (cases m) auto
  have e: "explore (aux_upv n lib meta s) u s rs pr x 1 new_scoring t' = explore (aux_upv m' lib meta s) u s rs pr x 1 new_scoring t'"
    if "survives t t'" for t'
  proof (rule explore_cong [OF adv.aux_upv_keeps])
    fix e d t''
    assume a: "advances t' t''" "e \<in> edges_from t' u" "in_subsystem t'' e s"
    have s: "survives t t''" using a(1) that survives_trans unfolding advances_def by blast
    have ok: "graph_ok t'" using survives_ok [OF that] Suc.prems(1) by simp
    have e: "e < length (g_edgs (graph t))" "source t e = u"
      using edges_fromD(1,2) [OF ok a(2)] survives_lengths(2) [OF that] survives_edge(3) [OF that] by auto
    have "h (target t'' e) < h u"
      using Suc.prems(2-4) e a(3) survives_edge(2,4) [OF s] unfolding ranked_def by metis
    then show "aux_upv n lib meta s (target t'' e) rs pr x d t'' = aux_upv m' lib meta s (target t'' e) rs pr x d t''"
      using Suc.prems survives_ok [OF s] s m by (intro Suc.IH) (auto simp: survives_def)
  qed
  have "survives t (t\<lparr>aux_root := rt, m_match := aux_discover_vtx (m_match t)\<rparr>)" for rt
    using survives_trans [OF kept.counters(3) kept.policy] policy_calls_keep(4) by simp
  note e = e [OF this]
  show ?case unfolding m aux_upv.simps Let_def
    by (auto simp: e intro!: Option.bind_cong split: option.split sum.split)
qed simp

lemma white_color:
  assumes "c = gray (m_color t) \<or> c = black (m_color t)"
  shows "white_of s (color_vtx u s c t) \<subseteq> white_of s t - {u}"
  using visited_color [OF assms] by (auto simp: white_of_def color_vtx_def)

lemma white_advances: "advances t t' \<Longrightarrow> white_of s t' \<subseteq> white_of s t"
  using survives_lengths(1) [of t t'] by (auto simp: advances_def white_of_def)

lemma white_finite [simp]: "finite (white_of s t)"
  by (simp add: white_of_def)

text \<open>The visitors a vertex hands to its children agree when the counters are large enough for the
  vertices that are still white.\<close>

lemma children_agree:
  assumes "graph_ok t" and "ranked h hi t" and "card (white_of (dom_of t) t) + hi \<le> n" and "card (white_of (dom_of t) t) + hi \<le> m"
    and IH: "\<And>t u rs pr x d. graph_ok t \<Longrightarrow> ranked h hi t \<Longrightarrow> card (white_of (dom_of t) t - {u}) + hi < n \<Longrightarrow>
        card (white_of (dom_of t) t - {u}) + hi < m \<Longrightarrow> dom_dfv n lib meta u rs pr x d t = dom_dfv m lib meta u rs pr x d t"
    and "s \<in> set (subsystems_of t) \<or> s = dom_of t" and "advances t t'"
  shows "explore (if s = dom_of t then dom_dfv n lib meta else aux_upv n lib meta s) u s rs pr x k d t' =
    explore (if s = dom_of t then dom_dfv m lib meta else aux_upv m lib meta s) u s rs pr x k d t'"
proof (rule explore_cong)
  show "adv.keeps (if s = dom_of t then dom_dfv n lib meta else aux_upv n lib meta s)"
    by (simp add: adv.dom_dfv_keeps adv.aux_upv_keeps)
next
  fix e d t''
  assume a: "advances t' t''" "e \<in> edges_from t' u" "in_subsystem t'' e s" "\<not> stop_explore t'' e s"
  have adv: "advances t t''" using advances_trans assms(7) a(1) .
  then have s: "survives t t''" "survives t' t''" using a(1) by (simp_all add: advances_def)
  have ok: "graph_ok t''" "ranked h hi t''" "data_of (m_match t'') = data_of (m_match t)" "graph_ok t'"
    using survives_ok [OF s(1)] survives_ok [OF s(2)] assms(1,2) s(1) by (auto simp: survives_def)
  have tgt: "target t'' e < length (g_vtxs (graph t''))"
    using edges_fromD [OF ok(4) a(2)] survives_edge(2) [OF s(2)] survives_lengths(1) [OF s(2)] by simp
  show "(if s = dom_of t then dom_dfv n lib meta else aux_upv n lib meta s) (target t'' e) rs pr x d t'' =
      (if s = dom_of t then dom_dfv m lib meta else aux_upv m lib meta s) (target t'' e) rs pr x d t''"
  proof (cases "s = dom_of t")
    case True
    have "target t'' e \<in> white_of (dom_of t) t''" using tgt a(4) True by (simp add: white_of_def visited_def stop_explore_color)
    then have "card (white_of (dom_of t) t'' - {target t'' e}) < card (white_of (dom_of t) t'')"
      using card_Diff1_less by (metis white_finite)
    also have "\<dots> \<le> card (white_of (dom_of t) t)" using white_advances [OF adv] by (simp add: card_mono)
    finally show ?thesis using True IH [OF ok(1,2)] ok(3) assms(3,4) by simp
  next
    case False
    have "h (target t'' e) < hi" using ok(2) by (simp add: ranked_def)
    then have "h (target t'' e) < n" "h (target t'' e) < m" using assms(3,4) by simp_all
    then have "aux_upv n lib meta s (target t'' e) rs pr x d t'' = aux_upv m lib meta s (target t'' e) rs pr x d t''"
      using False ok(3) assms(6) by (intro aux_fuel [OF ok(1,2)]) simp_all
    then show ?thesis using False by simp
  qed
qed

lemma dom_exp_cong:
  assumes "\<And>s. adv.keeps (visit s)"
    and "\<And>s d t'. s \<in> set ss \<Longrightarrow> advances t t' \<Longrightarrow> explore (visit s) u s rs pr x 1 d t' = explore (visit' s) u s rs pr x 1 d t'"
  shows "dom_exp visit ss u rs pr x d t = dom_exp visit' ss u rs pr x d t"
proof -
  have "dom_exp visit ss' u rs pr x d t' = dom_exp visit' ss' u rs pr x d t'" if "set ss' \<subseteq> set ss" "advances t t'" for ss' d t'
    using that
  proof (induction ss' arbitrary: d t')
    case (Cons s ss')
    have "advances t t''" if "explore (visit s) u s rs pr x 1 d t' = Some (f, d', t'')" for f d' t''
      using that adv.explore_rel [OF assms(1)] Cons.prems(2) advances_trans by blast
    then show ?case using Cons assms(2) by (auto intro!: Option.bind_cong)
  qed simp
  then show ?thesis using adv.refl by simp
qed

lemma dom_fuel:
  assumes "graph_ok t" and "ranked h hi t" and "card (white_of (dom_of t) t - {u}) + hi < n" and "card (white_of (dom_of t) t - {u}) + hi < m"
  shows "dom_dfv n lib meta u rs pr x d t = dom_dfv m lib meta u rs pr x d t"
  using assms
proof (induction n arbitrary: m u rs pr x d t)
  case (Suc n)
  then obtain m' where m: "m = Suc m'" by (cases m) auto
  have visits: "adv.keeps (if s = dom_of t then dom_dfv n lib meta else aux_upv n lib meta s)" for s
    by (simp add: adv.dom_dfv_keeps adv.aux_upv_keeps)
  have mid: "dom_slot lib (dom_dfv n lib meta) u nx ns pr' new_scoring g = dom_slot lib (dom_dfv m' lib meta) u nx ns pr' new_scoring g"
      "dom_exp (\<lambda>s. if s = dom_of t then dom_dfv n lib meta else aux_upv n lib meta s) (subsystems_of g) u nx pr' x' new_scoring g =
       dom_exp (\<lambda>s. if s = dom_of t then dom_dfv m' lib meta else aux_upv m' lib meta s) (subsystems_of g) u nx pr' x' new_scoring g"
    if "dom_discover_vtx (vtx t u) (m_match t) = Some a" "t1 = t\<lparr>m_preorder := k, m_match := snd a\<rparr>"
      "g = color_vtx u (dom_of t) (gray (m_color t)) t1"
    for a k t1 g nx ns pr' x'
  proof -
    have 1: "survives t t1"
      using survives_trans [OF kept.counters(1) kept.policy] policy_calls_keep(1) [of _ _ "fst a" "snd a"] that(1) by (simp add: that(2))
    have c: "gray (m_color t) = gray (m_color t1)" by (simp add: that(2))
    have s: "survives t g" using survives_trans [OF 1 kept.colored] c by (simp add: that(3))
    then have ok: "graph_ok g" "ranked h hi g" "data_of (m_match g) = data_of (m_match t)"
      using survives_ok [OF s] Suc.prems(1,2) by (auto simp: survives_def)
    have "white_of (dom_of t) t1 = white_of (dom_of t) t" by (simp add: white_of_def visited_def that(2))
    then have "white_of (dom_of t) g \<subseteq> white_of (dom_of t) t - {u}"
      using white_color [of "gray (m_color t)" t1 "dom_of t" u] by (simp add: that(2,3))
    then have "card (white_of (dom_of t) g) \<le> card (white_of (dom_of t) t - {u})" by (intro card_mono) simp_all
    then have le: "card (white_of (dom_of g) g) + hi \<le> n" "card (white_of (dom_of g) g) + hi \<le> m'"
      using Suc.prems(3,4) ok(3) by (simp_all add: m)
    have ex: "explore (if s = dom_of g then dom_dfv n lib meta else aux_upv n lib meta s) u s rs pr x k d t' =
        explore (if s = dom_of g then dom_dfv m' lib meta else aux_upv m' lib meta s) u s rs pr x k d t'"
      if "s \<in> set (subsystems_of g) \<or> s = dom_of g" "advances g t'" for s rs pr x k d t'
      by (rule children_agree [OF ok(1,2) le Suc.IH that])
    show "dom_slot lib (dom_dfv n lib meta) u nx ns pr' new_scoring g = dom_slot lib (dom_dfv m' lib meta) u nx ns pr' new_scoring g"
      using ex [of "dom_of g" g] adv.refl by (simp add: dom_slot_def)
    show "dom_exp (\<lambda>s. if s = dom_of t then dom_dfv n lib meta else aux_upv n lib meta s) (subsystems_of g) u nx pr' x' new_scoring g =
       dom_exp (\<lambda>s. if s = dom_of t then dom_dfv m' lib meta else aux_upv m' lib meta s) (subsystems_of g) u nx pr' x' new_scoring g"
      using ex ok(3) by (intro dom_exp_cong) (simp_all add: adv.dom_dfv_keeps adv.aux_upv_keeps)
  qed
  note mid = mid [OF _ refl refl]
  show ?case unfolding m dom_dfv.simps Let_def
    by (simp add: split_beta mid cong: Option.bind_cong sum.case_cong if_cong)
qed simp

end
