(* ===== verification/Scheduled_Point_Correct.thy ===== *)
theory Scheduled_Point_Correct
  imports Scheduled_Point_Tree
begin

text \<open>
  Correctness of the scheduled point tree. On a checked tree with one point per time
  the operations are those of a finite map from times to points: exact search, insertion,
  removal and in-place update, the state in force at a time (the last point not after it),
  and the walk over the points from one of them on.
\<close>

section \<open>The tree as a finite map\<close>

definition sp_ok :: "sp_tree \<Rightarrow> bool" where
  "sp_ok t \<longleftrightarrow> dbg_verify t \<and> sorted_wrt (<) (map at (inorder t))"

definition sp_map :: "sp_tree \<Rightarrow> int \<rightharpoonup> scheduled_point" where
  "sp_map t = map_of (map (\<lambda>p. (at p, p)) (inorder t))"

lemma sp_ok_Null [simp]: "sp_ok Null" and sp_map_Null [simp]: "sp_map Null = Map.empty"
  by (simp_all add: sp_ok_def sp_map_def dbg_verify_def verify_black_root_def)

lemma sp_ok_sorted: "sp_ok t \<Longrightarrow> sorted (map at (inorder t))"
  by (simp add: sp_ok_def strict_sorted_iff)

lemma sp_ok_distinct: "sp_ok t \<Longrightarrow> distinct (map at (inorder t))"
  by (simp add: sp_ok_def strict_sorted_iff)

lemma sp_unique:
  assumes "sp_ok t" and "q \<in> set (inorder t)" and "p \<in> set (inorder t)" and "at q = at p"
  shows "q = p"
  using sp_ok_distinct [OF assms(1)] assms(2-4) by (auto simp: distinct_map inj_on_def)

lemma sp_map_iff:
  assumes "sp_ok t"
  shows "sp_map t a = Some p \<longleftrightarrow> p \<in> set (inorder t) \<and> at p = a"
proof -
  have "distinct (map fst (map (\<lambda>p. (at p, p)) (inorder t)))"
    using sp_ok_distinct [OF assms] by (simp add: comp_def)
  then show ?thesis by (auto simp: sp_map_def)
qed

lemma sp_map_None: "sp_map t a = None \<longleftrightarrow> (\<forall>p\<in>set (inorder t). at p \<noteq> a)"
  by (auto simp: sp_map_def map_of_eq_None_iff image_iff)

lemma sp_map_at: "sp_ok t \<Longrightarrow> sp_map t a = Some p \<Longrightarrow> at p = a"
  by (simp add: sp_map_iff)

lemma ran_sp_map: "sp_ok t \<Longrightarrow> ran (sp_map t) = set (inorder t)"
  by (auto simp: ran_def sp_map_iff)

lemma sp_deref_map:
  assumes "sp_ok t"
  shows "sp_deref a t = sp_map t a"
proof (cases "locate (\<lambda>p. at p = a) t []")
  case None
  then have "sp_map t a = None" by (simp add: locate_None sp_map_None)
  with None show ?thesis by (simp add: sp_deref_def)
next
  case (Some z)
  from locate_Some [OF this] obtain c l p r fs where z: "z = (Node c l p r, fs)" "at p = a" "plug (Node c l p r) fs = t"
    by auto
  with inorder_plug [of "Node c l p r" fs] have "p \<in> set (inorder t)" by simp
  with z assms have "sp_map t a = Some p" by (simp add: sp_map_iff)
  with z Some show ?thesis by (simp add: sp_deref_def)
qed

lemma sp_search_map:
  assumes "sp_ok t"
  shows "sp_search a t = (if sp_map t a = None then None else Some a)"
proof (cases "rb_find at a t")
  case None
  with rb_find_None [OF sp_ok_sorted [OF assms]] show ?thesis
    by (auto simp: sp_search_def sp_map_None)
next
  case (Some p)
  with rb_find_Some [OF sp_ok_sorted [OF assms]] have "p \<in> set (inorder t) \<and> at p = a" by blast
  with Some show ?thesis by (auto simp: sp_search_def sp_map_None)
qed

lemma sp_insert_ok:
  assumes "sp_ok t" and "sp_map t (at p) = None"
  shows "\<exists>t'. sp_insert p t = Some t' \<and> sp_ok t' \<and> sp_map t' = (sp_map t)(at p \<mapsto> p)"
proof -
  from insert_default_ok [of t at p] assms(1) obtain t' where
    t': "sp_insert p t = Some t'" "dbg_verify t'"
    by (auto simp: sp_insert_def sp_ok_def)
  with inorder_insert_default [OF sp_ok_sorted [OF assms(1)]]
  have in': "inorder t' = insort_key at p (inorder t)" by (simp add: sp_insert_def)
  have "sorted (map at (inorder t'))" "distinct (map at (inorder t'))"
    using assms sp_ok_sorted [OF assms(1)] sp_ok_distinct [OF assms(1)]
    by (auto simp: in' sorted_insort_key distinct_map_insort sp_map_None)
  with t'(2) have ok: "sp_ok t'" by (simp add: sp_ok_def strict_sorted_iff)
  have "sp_map t' a = ((sp_map t)(at p \<mapsto> p)) a" for a
  proof -
    have "sp_map t' a = Some q \<longleftrightarrow> ((sp_map t)(at p \<mapsto> p)) a = Some q" for q
      using sp_map_iff [OF ok] sp_map_iff [OF assms(1)] assms(2)
      by (auto simp: in' set_insort_key sp_map_None)
    then show ?thesis by (metis not_Some_eq)
  qed
  then show ?thesis using t' ok by auto
qed

lemma sp_remove_ok:
  assumes "sp_ok t" and "sp_map t a \<noteq> None"
  shows "\<exists>t'. sp_remove a t = Some t' \<and> sp_ok t' \<and> sp_map t' = (sp_map t)(a := None)"
proof -
  from assms(2) obtain p where p: "p \<in> set (inorder t)" "at p = a" by (auto simp: sp_map_None)
  with remove_default_ok [of t p "\<lambda>p. at p = a"] assms(1) obtain t' xs y ys where
    t': "sp_remove a t = Some t'" "dbg_verify t'" "at y = a" "inorder t = xs @ y # ys" "inorder t' = xs @ ys"
    by (auto simp: sp_remove_def sp_ok_def)
  have ok: "sp_ok t'" using assms(1) t' by (auto simp: sp_ok_def sorted_wrt_append)
  have d: "distinct (map at (xs @ y # ys))" using sp_ok_distinct [OF assms(1)] t'(4) by simp
  have "sp_map t' b = ((sp_map t)(a := None)) b" for b
  proof -
    have "sp_map t' b = Some q \<longleftrightarrow> ((sp_map t)(a := None)) b = Some q" for q
      using sp_map_iff [OF ok] sp_map_iff [OF assms(1)] d t'(3-5) by (auto simp: image_iff)
    then show ?thesis by (metis not_Some_eq)
  qed
  then show ?thesis using t' ok by auto
qed

lemma inorder_sp_modify: "inorder (sp_modify a f t) = map (\<lambda>p. if at p = a then f p else p) (inorder t)"
  by (simp add: sp_modify_def inorder_map)

lemma sp_modify_ok:
  assumes "sp_ok t" and "\<And>p. at (f p) = at p"
  shows "sp_ok (sp_modify a f t)"
    and "sp_map (sp_modify a f t) = (sp_map t)(a := map_option f (sp_map t a))"
proof -
  have "map at (inorder (sp_modify a f t)) = map at (inorder t)"
    using assms(2) by (simp add: inorder_sp_modify)
  with assms(1) show ok: "sp_ok (sp_modify a f t)" by (simp add: sp_ok_def sp_modify_def)
  have "sp_map (sp_modify a f t) b = ((sp_map t)(a := map_option f (sp_map t a))) b" for b
  proof -
    have "sp_map (sp_modify a f t) b = Some q \<longleftrightarrow> ((sp_map t)(a := map_option f (sp_map t a))) b = Some q" for q
      using sp_map_iff [OF ok] sp_map_iff [OF assms(1)] assms(2) by (auto simp: inorder_sp_modify)
    then show ?thesis by (metis not_Some_eq)
  qed
  then show "sp_map (sp_modify a f t) = (sp_map t)(a := map_option f (sp_map t a))" by auto
qed

lemma sp_size_inorder: "sp_size t = length (inorder t)"
  by (induction t) auto

section \<open>The state in force at a time\<close>

lemma get_state_loop_sorted:
  assumes "sorted_wrt (<) (map at (inorder t))" and "\<And>q p. d = Some q \<Longrightarrow> p \<in> set (inorder t) \<Longrightarrow> at q < at p"
  shows "get_state_loop tm t d =
    (let ps = filter (\<lambda>p. at p \<le> tm) (inorder t) in if ps = [] then d else Some (last ps))"
  using assms
proof (induction t arbitrary: d)
  case (Node c l p r)
  have l: "\<forall>q\<in>set (inorder l). at q < at p" and r: "\<forall>q\<in>set (inorder r). at p < at q"
    and sl: "sorted_wrt (<) (map at (inorder l))" and sr: "sorted_wrt (<) (map at (inorder r))"
    using Node.prems(1) by (auto simp: sorted_wrt_append)
  consider "tm < at p" | "at p < tm" | "tm = at p" by linarith
  then show ?case
  proof cases
    case 1
    with r have "filter (\<lambda>p. at p \<le> tm) (inorder r) = []" by (fastforce simp: filter_empty_conv)
    with 1 Node.IH(1) [OF sl, of d] Node.prems(2) show ?thesis by (simp add: Let_def)
  next
    case 2
    have rec: "Some (get_recent_state p d) = Some p"
      using Node.prems(2) by (auto simp: get_recent_state_def split: option.splits)
    have "get_state_loop tm r (Some p) =
        (let ps = filter (\<lambda>p. at p \<le> tm) (inorder r) in if ps = [] then Some p else Some (last ps))"
      using r by (intro Node.IH(2) [OF sr]) auto
    with 2 rec show ?thesis by (auto simp: Let_def)
  next
    case 3
    with r have "filter (\<lambda>p. at p \<le> tm) (inorder r) = []" by (fastforce simp: filter_empty_conv)
    with 3 show ?thesis by (simp add: Let_def)
  qed
qed simp

lemma get_state_last:
  assumes "sp_ok t"
  shows "get_state tm t =
    (let ps = filter (\<lambda>p. at p \<le> tm) (inorder t) in if ps = [] then None else Some (last ps))"
  unfolding get_state_def using assms by (intro get_state_loop_sorted) (auto simp: sp_ok_def)

lemma sorted_last_le:
  assumes "sorted_wrt (<) (map f xs)" and "x \<in> set xs"
  shows "(f x :: int) \<le> f (last xs)"
  using assms by (induction xs) (auto simp: less_imp_le)

lemma get_state_Some:
  assumes "sp_ok t"
  shows "get_state tm t = Some p \<longleftrightarrow>
    p \<in> set (inorder t) \<and> at p \<le> tm \<and> (\<forall>q\<in>set (inorder t). at q \<le> tm \<longrightarrow> at q \<le> at p)"
proof -
  let ?ps = "filter (\<lambda>p. at p \<le> tm) (inorder t)"
  have s: "sorted_wrt (<) (map at ?ps)"
    using assms by (simp add: sp_ok_def sorted_wrt_map sorted_wrt_filter)
  note inj = sp_unique [OF assms]
  show ?thesis
  proof (cases "?ps = []")
    case True
    then show ?thesis by (auto simp: get_state_last [OF assms] Let_def filter_empty_conv)
  next
    case False
    then have "get_state tm t = Some (last ?ps)"
      by (auto simp: get_state_last [OF assms] Let_def)
    moreover have "last ?ps \<in> set ?ps" using False by (rule last_in_set)
    moreover have "\<forall>q\<in>set ?ps. at q \<le> at (last ?ps)" using sorted_last_le [OF s] by blast
    ultimately show ?thesis by (auto intro!: inj intro: order_antisym)
  qed
qed

lemma get_state_None:
  assumes "sp_ok t"
  shows "get_state tm t = None \<longleftrightarrow> (\<forall>q\<in>set (inorder t). tm < at q)"
  using filter_empty_conv [of "\<lambda>p. at p \<le> tm" "inorder t"]
  by (auto simp: get_state_last [OF assms] Let_def not_le)

section \<open>Walking over the points\<close>

lemma step_forward_cursor:
  "(case step_forward (Node c l x r, ctx) of
      None \<Rightarrow> inorder r @ after ctx = []
    | Some y \<Rightarrow> \<exists>c' l' x' r' ctx'. y = (Node c' l' x' r', ctx') \<and> x' # inorder r' @ after ctx' = inorder r @ after ctx)"
proof -
  have climb: "case climb_right (t, ctx) of None \<Rightarrow> after ctx = []
      | Some y \<Rightarrow> \<exists>c' l' x' r' ctx'. y = (Node c' l' x' r', ctx') \<and> x' # inorder r' @ after ctx' = after ctx" for t :: "'a rbtree" and ctx
  proof (induction ctx arbitrary: t)
    case (Cons f ctx)
    show ?case
    proof (cases f)
      case (InRight c l x)
      with Cons [of "Node c l x t"] show ?thesis by (auto split: option.splits)
    qed simp
  qed simp
  have left: "t \<noteq> Null \<Longrightarrow> \<exists>c' l' x' r' ctx'. leftmost t ctx = (Node c' l' x' r', ctx') \<and> x' # inorder r' @ after ctx' = inorder t @ after ctx" for t :: "'a rbtree" and ctx
    by (induction t ctx rule: leftmost.induct) auto
  show ?thesis
  proof (cases "r = Null")
    case True
    with climb [of ctx "Node c l x r"] show ?thesis by (auto split: option.splits)
  next
    case False
    with left [of r "InRight c l x # ctx"] show ?thesis by (auto split: option.splits)
  qed
qed

lemma iterate_Node: "iterate (Node c l x r, ctx) = x # inorder r @ after ctx"
proof (induction "length (inorder r) + length (after ctx)" arbitrary: c l x r ctx rule: less_induct)
  case less
  show ?case
  proof (cases "step_forward (Node c l x r, ctx)")
    case None
    with step_forward_cursor [where c = c and l = l and x = x and r = r and ctx = ctx] show ?thesis
      by (subst iterate.simps) (auto simp del: step_forward.simps)
  next
    case (Some y)
    with step_forward_cursor [where c = c and l = l and x = x and r = r and ctx = ctx] obtain c' l' x' r' ctx' where
      y: "y = (Node c' l' x' r', ctx')" "x' # inorder r' @ after ctx' = inorder r @ after ctx"
      by auto
    then have "length (inorder r') + length (after ctx') < length (inorder r) + length (after ctx)"
      by (metis length_Cons length_append lessI)
    from less [OF this] Some y show ?thesis
      by (subst iterate.simps) (simp del: step_forward.simps)
  qed
qed

lemma sp_from_filter:
  assumes "sp_ok t" and "sp_map t a \<noteq> None"
  shows "sp_from a t = filter (\<lambda>p. a \<le> at p) (inorder t)"
proof -
  from assms(2) have "locate (\<lambda>p. at p = a) t [] \<noteq> None" by (auto simp: locate_None sp_map_None)
  then obtain z where z: "locate (\<lambda>p. at p = a) t [] = Some z" by blast
  from locate_Some [OF this] obtain c l p r fs where p: "z = (Node c l p r, fs)" "at p = a" "plug (Node c l p r) fs = t"
    by auto
  have t: "inorder t = (before fs @ inorder l) @ p # inorder r @ after fs"
    using inorder_plug [of "Node c l p r" fs] p(3) by simp
  have "sorted_wrt (<) (map at ((before fs @ inorder l) @ p # inorder r @ after fs))"
    using assms(1) t by (simp add: sp_ok_def)
  from filter_ge_split [OF this] p(2) have "filter (\<lambda>q. a \<le> at q) (inorder t) = p # inorder r @ after fs"
    by (simp only: t)
  then show ?thesis using z p(1) by (simp add: sp_from_def iterate_Node)
qed

text \<open>The walk is the iteration of \<open>sp_next\<close>.\<close>

lemma sp_from_next:
  assumes "sp_ok t" and "sp_map t a = Some p"
  shows "sp_from a t = p # (case sp_next a t of Some (Some b) \<Rightarrow> sp_from b t | _ \<Rightarrow> [])"
proof -
  from assms(2) have "locate (\<lambda>p. at p = a) t [] \<noteq> None" by (auto simp: locate_None sp_map_iff [OF assms(1)])
  then obtain z where z: "locate (\<lambda>p. at p = a) t [] = Some z" by blast
  from locate_Some [OF this] obtain c l q r fs where q: "z = (Node c l q r, fs)" "at q = a" "plug (Node c l q r) fs = t"
    by auto
  have t: "inorder t = (before fs @ inorder l) @ q # inorder r @ after fs"
    using inorder_plug [of "Node c l q r" fs] q(3) by simp
  then have qp: "q = p"
    using assms q(2) by (intro sp_unique [OF assms(1)]) (auto simp: sp_map_iff)
  have walk: "sp_from a t = p # inorder r @ after fs"
    using z q(1) qp by (simp add: sp_from_def iterate_Node)
  show ?thesis
  proof (cases "inorder r @ after fs")
    case Nil
    with step_forward_data [of c l q r fs] have "step_forward (Node c l q r, fs) \<bind> cursor_data = None"
      by simp
    with Nil walk z q(1) show ?thesis by (simp add: sp_next_def del: step_forward.simps)
  next
    case (Cons y ys)
    with step_forward_data [of c l q r fs] have "step_forward (Node c l q r, fs) \<bind> cursor_data = Some y"
      by simp
    with z q(1) have "sp_next a t = Some (Some (at y))"
      by (simp add: sp_next_def del: step_forward.simps)
    moreover have "sp_from (at y) t = y # ys"
    proof -
      have s: "sorted_wrt (<) (map at ((before fs @ inorder l @ [q]) @ y # ys))"
        using assms(1) t Cons by (simp add: sp_ok_def)
      moreover have "inorder t = (before fs @ inorder l @ [q]) @ y # ys" using t Cons by simp
      ultimately have "filter (\<lambda>p. at y \<le> at p) (inorder t) = y # ys" using filter_ge_split by metis
      moreover have "sp_map t (at y) \<noteq> None" using t Cons by (auto simp: sp_map_None)
      ultimately show ?thesis using sp_from_filter [OF assms(1)] by simp
    qed
    ultimately show ?thesis using walk Cons by simp
  qed
qed

end
