(* ===== verification/Mintime_Correct.thy ===== *)
theory Mintime_Correct
  imports Mintime_Resource_Tree
begin

text \<open>
  Correctness of the min-time resource tree: the early exits of
  \<^verbatim>\<open>fix\<close> never leave a wrong subtree minimum behind, whichever rotation,
  exchange or removal called it; insertion and removal act on the tree as an update of a
  finite map from times to quantities and never fail on a node in the right linking
  state; \<open>get_mintime\<close> returns the earliest time at which the request fits.
\<close>

section \<open>The stored minima\<close>

fun aug_ok :: "mt_node rbtree \<Rightarrow> bool" where
  "aug_ok Null = True"
| "aug_ok (Node c l x r) =
     (subtree_min x = local_min (tree_min l) (InLeft c x r) \<and> aug_ok l \<and> aug_ok r)"

fun aug_ctx :: "int option \<Rightarrow> mt_node frame list \<Rightarrow> bool" where
  "aug_ctx m [] = True"
| "aug_ctx m (f # ctx) =
     (local_min m f = frame_min f \<and> aug_ok (sibling f) \<and> aug_ctx (Some (frame_min f)) ctx)"

lemma tree_min_plug1 [simp]: "tree_min (plug1 f t) = Some (frame_min f)"
  by (cases f) auto

lemma lower_commute: "lower a (lower b v) = lower b (lower a v)"
  by (cases a; cases b) auto

lemma aug_ok_plug1: "aug_ok (plug1 f t) \<longleftrightarrow> frame_min f = local_min (tree_min t) f \<and> aug_ok (sibling f) \<and> aug_ok t"
  by (cases f) (auto simp: lower_commute)

lemma aug_ok_plug: "aug_ok (plug t ctx) \<longleftrightarrow> aug_ok t \<and> aug_ctx (tree_min t) ctx"
  by (induction ctx arbitrary: t) (auto simp: aug_ok_plug1)

lemma set_frame_min_simps [simp]:
  "frame_min (set_frame_min v f) = v" "local_min m (set_frame_min v f) = local_min m f"
  "sibling (set_frame_min v f) = sibling f" "set_frame_min w (set_frame_min v f) = set_frame_min w f"
  by (cases f; simp)+

lemma set_frame_min_same [simp]: "set_frame_min (frame_min f) f = f"
  by (cases f) auto

lemma local_min_le: "local_min m f \<le> local_min None f"
  by (cases m; cases f; cases "tree_min (sibling f)") auto

lemma local_min_eq: "local_min m f = lower m (local_min None f)"
  by (cases f) (auto simp: lower_commute)

section \<open>One pass of the fixing loop\<close>

text \<open>When the frames above were right for the value the node held, the loop makes them
  right for the value it computes: the early exits lose nothing.\<close>

lemma fix_frames_ok:
  assumes "aug_ok (sibling f)" and "aug_ctx (Some (frame_min f)) ctx"
  shows "aug_ctx m (fix_frames m (f # ctx))"
  using assms
proof (induction ctx arbitrary: m f)
  case (Cons g ctx)
  let ?new = "local_min m f"
  from Cons.prems have g: "frame_min g = lower (Some (frame_min f)) (local_min None g)"
    using local_min_eq [of "Some (frame_min f)" g] by simp
  have "aug_ctx (Some ?new) (fix_frames (Some ?new) (g # ctx))"
    using Cons.prems by (intro Cons.IH) auto
  moreover have "aug_ctx (Some ?new) (g # ctx)"
    if "frame_min g \<noteq> frame_min f" "frame_min g < ?new"
    using that g Cons.prems local_min_eq [of "Some ?new" g] by (auto split: if_splits)
  ultimately show ?case
    using Cons.prems by (auto simp: Let_def simp del: fix_frames.simps(2) aug_ctx.simps(2)
        simp: fix_frames.simps(2) [of m f] aug_ctx.simps(2) [of m])
qed (simp add: Let_def)

lemma fix_frames_stable:
  assumes "aug_ctx m ctx"
  shows "fix_frames m ctx = ctx"
proof (cases ctx)
  case (Cons f fs)
  with assms have "local_min m f = frame_min f" by simp
  with Cons show ?thesis by (simp add: Let_def del: aug_ctx.simps)
qed simp

text \<open>When the frames above are right for the value the node should have, only the node
  itself changes.\<close>

lemma fix_frames_local:
  assumes "aug_ctx (Some (local_min m f)) ctx"
  shows "fix_frames m (f # ctx) = set_frame_min (local_min m f) f # ctx"
proof (cases ctx)
  case (Cons g fs)
  with fix_frames_stable [OF assms] show ?thesis
    by (simp add: Let_def del: fix_frames.simps) (simp add: fix_frames.simps(2) [of m] Let_def del: fix_frames.simps)
qed (simp add: Let_def)

lemma fix_node_ok:
  assumes "aug_ok l" "aug_ok r" "aug_ctx (Some (subtree_min x)) ctx"
  shows "aug_ok (case_prod plug (fix_node (Node c l x r, ctx)))"
proof -
  have "aug_ok (plug l (fix_frames (tree_min l) (InLeft c x r # ctx)))"
    using assms fix_frames_ok [of "InLeft c x r" ctx "tree_min l"]
    by (simp add: aug_ok_plug del: fix_frames.simps)
  then show ?thesis
    by (cases "fix_frames (tree_min l) (InLeft c x r # ctx)") (simp_all del: fix_frames.simps)
qed

section \<open>Insertion and rotation hooks\<close>

lemma leaf_up_ok:
  assumes "aug_ctx m ctx" and "\<And>w. m = Some w \<Longrightarrow> v \<le> w"
  shows "aug_ctx (Some v) (leaf_up v ctx)"
  using assms
proof (induction ctx arbitrary: m)
  case (Cons f ctx)
  have "frame_min f = lower m (local_min None f)"
    using Cons.prems(1) local_min_eq [of m f] by simp
  moreover have "aug_ctx (Some v) (leaf_up v ctx)" if "v < frame_min f"
    using Cons.prems that by (intro Cons.IH [of "Some (frame_min f)"]) auto
  ultimately show ?case
    using Cons.prems local_min_eq [of "Some v" f] by (cases m) (auto split: if_splits)
qed simp

lemma leaf_inserted_ok:
  assumes "aug_ctx None ctx"
  shows "aug_ok (case_prod plug (mt_leaf_inserted (Node c Null x Null, ctx)))"
  using leaf_up_ok [OF assms, of "mt_at x"] by (simp add: aug_ok_plug)

lemma rotated_ok:
  assumes "aug_ok l" "aug_ok r" "aug_ok (sibling f)"
    and "aug_ctx (Some (local_min (Some (local_min (tree_min l) (InLeft c x r))) f)) ctx"
  shows "aug_ok (case_prod plug (mt_rotated (Node c l x r, f # ctx)))"
proof -
  let ?v = "local_min (tree_min l) (InLeft c x r)"
  let ?x = "x\<lparr>subtree_min := ?v\<rparr>" and ?f = "set_frame_min (local_min (Some ?v) f) f"
  have f: "fix_frames (Some ?v) (f # ctx) = ?f # ctx"
    using assms(4) by (rule fix_frames_local)
  have "fix_frames (tree_min l) (InLeft c x r # f # ctx) = InLeft c ?x r # f # ctx
    \<or> fix_frames (tree_min l) (InLeft c x r # f # ctx) = InLeft c ?x r # ?f # ctx"
    using f by (subst (1 2) fix_frames.simps) (simp add: Let_def del: fix_frames.simps)
  then have "fix_node (Node c l x r, f # ctx) = (Node c l ?x r, f # ctx)
    \<or> fix_node (Node c l x r, f # ctx) = (Node c l ?x r, ?f # ctx)"
    by (auto simp del: fix_frames.simps)
  moreover have "fix_frames (Some ?v) (?f # ctx) = ?f # ctx"
    using fix_frames_local [of "Some ?v" ?f ctx] assms(4) by simp
  ultimately have "mt_rotated (Node c l x r, f # ctx) = (Node c l ?x r, ?f # ctx)"
    using f by (auto simp: mt_rotated_def fix_above_def simp del: fix_frames.simps fix_node.simps)
  then show ?thesis using assms by (simp add: aug_ok_plug aug_ok_plug1)
qed

section \<open>The exchange of two nodes\<close>

text \<open>\<open>seg_top m fs\<close>: the minimum that arrives above the frames \<open>fs\<close> when it is
  recomputed all the way from \<open>m\<close>; \<open>aug_seg\<close>: the frames store just these values.\<close>

fun seg_top :: "int option \<Rightarrow> mt_node frame list \<Rightarrow> int option" where
  "seg_top m [] = m"
| "seg_top m (f # fs) = seg_top (Some (local_min m f)) fs"

fun aug_seg :: "int option \<Rightarrow> mt_node frame list \<Rightarrow> bool" where
  "aug_seg m [] = True"
| "aug_seg m (f # fs) =
     (local_min m f = frame_min f \<and> aug_ok (sibling f) \<and> aug_seg (Some (frame_min f)) fs)"

lemma aug_ctx_append:
  "aug_ctx m (xs @ ys) \<longleftrightarrow> aug_seg m xs \<and> aug_ctx (seg_top m xs) ys"
proof (induction xs arbitrary: m)
  case (Cons f xs)
  show ?case
  proof (cases "frame_min f = local_min m f")
    case True
    then have "local_min m f = frame_min f" by simp
    with Cons.IH [of "Some (frame_min f)"] show ?thesis by simp
  qed simp
qed simp

lemma plug_append: "plug t (xs @ ys) = plug (plug t xs) ys"
  by (induction xs arbitrary: t) auto

text \<open>The loop started inside the segment makes the segment right; of the frame above it
  only the stored minimum may change, and the rest stays.\<close>

lemma fix_frames_seg:
  assumes "aug_ok (sibling f)" and "aug_seg (Some (frame_min f)) fs"
    and "aug_ctx (Some (local_min (seg_top m (f # fs)) u)) ctx"
  shows "\<exists>gs v. fix_frames m (f # fs @ u # ctx) = gs @ set_frame_min v u # ctx
    \<and> length gs = Suc (length fs) \<and> aug_seg m gs \<and> seg_top m gs = seg_top m (f # fs)"
  using assms
proof (induction fs arbitrary: m f)
  case Nil
  let ?new = "local_min m f"
  from Nil.prems(3) have u: "fix_frames (Some ?new) (u # ctx) = set_frame_min (local_min (Some ?new) u) u # ctx"
    by (intro fix_frames_local) simp
  have seg: "aug_seg m [set_frame_min ?new f]" "seg_top m [set_frame_min ?new f] = seg_top m [f]"
    using Nil.prems(1) by simp_all
  have "fix_frames m (f # u # ctx) = [set_frame_min ?new f] @ set_frame_min (frame_min u) u # ctx
    \<or> fix_frames m (f # u # ctx) = [set_frame_min ?new f] @ set_frame_min (local_min (Some ?new) u) u # ctx"
    using u by (simp add: fix_frames.simps(2) [of m f] Let_def del: fix_frames.simps)
  with seg show ?case by (metis append_Nil length_Cons list.size(3))
next
  case (Cons g fs)
  let ?new = "local_min m f"
  let ?f = "set_frame_min ?new f"
  from Cons.prems have g: "frame_min g = lower (Some (frame_min f)) (local_min None g)"
    using local_min_eq [of "Some (frame_min f)" g] by simp
  obtain gs v where rec: "fix_frames (Some ?new) (g # fs @ u # ctx) = gs @ set_frame_min v u # ctx"
    "length gs = Suc (length fs)" "aug_seg (Some ?new) gs" "seg_top (Some ?new) gs = seg_top (Some ?new) (g # fs)"
    using Cons.IH [of g "Some ?new"] Cons.prems by auto
  have stop: "aug_seg (Some ?new) (g # fs)"
    if "?new = frame_min f \<or> frame_min g \<noteq> frame_min f \<and> frame_min g < ?new"
    using that g Cons.prems local_min_eq [of "Some ?new" g] by (auto split: if_splits)
  have "fix_frames m (f # (g # fs) @ u # ctx) =
     (if ?new = frame_min f \<or> frame_min g \<noteq> frame_min f \<and> frame_min g < ?new
      then (?f # g # fs) @ set_frame_min (frame_min u) u # ctx
      else (?f # gs) @ set_frame_min v u # ctx)"
    using rec(1) by (simp add: fix_frames.simps(2) [of m f] Let_def del: fix_frames.simps)
  moreover have "aug_seg m (?f # gs) \<and> seg_top m (?f # gs) = seg_top m (f # g # fs)"
    using rec Cons.prems(1) by simp
  moreover have "aug_seg m (?f # g # fs) \<and> seg_top m (?f # g # fs) = seg_top m (f # g # fs)"
    if "?new = frame_min f \<or> frame_min g \<noteq> frame_min f \<and> frame_min g < ?new"
    using stop [OF that] Cons.prems(1) by simp
  moreover have "length (?f # gs) = Suc (length (g # fs))" using rec by simp
  ultimately show ?case by (smt (verit) length_Cons)
qed

lemma fix_frames_seg_stable:
  assumes "aug_seg m (f # fs)"
  shows "fix_frames m ((f # fs) @ ctx) = (f # fs) @ ctx"
proof -
  from assms have "local_min m f = frame_min f" by simp
  then show ?thesis by (simp add: Let_def del: aug_seg.simps)
qed

lemma fix_above_append:
  assumes "k = length xs"
  shows "fix_above k (t, xs @ ys) = (t, xs @ fix_frames (tree_min (plug t xs)) ys)"
  using assms by (simp add: fix_above_def)

lemma tree_min_seg:
  assumes "aug_seg (tree_min t) xs"
  shows "tree_min (plug t xs) = seg_top (tree_min t) xs"
  using assms by (induction xs arbitrary: t) (auto simp: )

text \<open>After the first two of the four calls of \<^verbatim>\<open>swapped\<close> everything
  below the upper node is right.\<close>

lemma swapped_lower:
  assumes "aug_ok l" "aug_ok r" "aug_seg m fs"
    and "aug_ctx (Some (local_min (seg_top (Some (local_min (tree_min l) (InLeft c x r))) fs) u)) ctx"
  shows "\<exists>y gs w. fix_above 0 (fix_node (Node c l x r, fs @ u # ctx)) = (Node c l y r, gs @ set_frame_min w u # ctx)
    \<and> length gs = length fs \<and> aug_ok (Node c l y r) \<and> aug_seg (Some (subtree_min y)) gs
    \<and> seg_top (Some (subtree_min y)) gs = seg_top (Some (local_min (tree_min l) (InLeft c x r))) fs"
proof -
  let ?v = "local_min (tree_min l) (InLeft c x r)"
  let ?x = "x\<lparr>subtree_min := ?v\<rparr>"
  have x: "aug_ok (Node c l ?x r)" using assms by simp
  have first: "fix_node (Node c l x r, fs @ u # ctx) = (Node c l ?x r, fs @ u # ctx)
    \<or> fix_node (Node c l x r, fs @ u # ctx) = (Node c l ?x r, fix_frames (Some ?v) (fs @ u # ctx))"
    by (cases "fs @ u # ctx") (simp_all add: fix_frames.simps(2) [of "tree_min l"] Let_def del: fix_frames.simps)
  show ?thesis
  proof (cases fs)
    case Nil
    have "fix_frames (Some ?v) (u # ctx) = set_frame_min (local_min (Some ?v) u) u # ctx"
      "fix_frames (Some ?v) (set_frame_min w u # ctx) = set_frame_min (local_min (Some ?v) u) u # ctx" for w
      using assms(4) Nil fix_frames_local [of "Some ?v" u ctx] fix_frames_local [of "Some ?v" "set_frame_min w u" ctx]
      by simp_all
    with first Nil have "fix_above 0 (fix_node (Node c l x r, fs @ u # ctx))
        = (Node c l ?x r, set_frame_min (local_min (Some ?v) u) u # ctx)"
      by (auto simp: fix_above_def simp del: fix_frames.simps fix_node.simps)
    with x Nil show ?thesis by auto
  next
    case (Cons f fs')
    with assms(3,4) fix_frames_seg [of f fs' "Some ?v" u ctx] obtain gs w where
      seg: "fix_frames (Some ?v) (fs @ u # ctx) = gs @ set_frame_min w u # ctx"
      "length gs = length fs" "aug_seg (Some ?v) gs" "seg_top (Some ?v) gs = seg_top (Some ?v) fs"
      by auto
    moreover from seg Cons obtain g gs' where "gs = g # gs'" by (cases gs) auto
    ultimately have "fix_frames (Some ?v) (gs @ set_frame_min w u # ctx) = gs @ set_frame_min w u # ctx"
      using fix_frames_seg_stable [of "Some ?v" g gs'] by simp
    with first seg have "fix_above 0 (fix_node (Node c l x r, fs @ u # ctx)) = (Node c l ?x r, gs @ set_frame_min w u # ctx)"
      by (auto simp: fix_above_def simp del: fix_frames.simps fix_node.simps)
    with x seg show ?thesis by auto
  qed
qed

lemma swapped_ok:
  assumes "aug_ok l" "aug_ok r" "aug_seg m fs" "aug_ok (sibling u)"
    and "aug_ctx (Some (local_min (seg_top (Some (local_min (tree_min l) (InLeft c x r))) fs) u)) ctx"
  shows "aug_ok (case_prod plug (mt_swapped (length fs) (Node c l x r, fs @ u # ctx)))"
proof -
  let ?m = "seg_top (Some (local_min (tree_min l) (InLeft c x r))) fs"
  let ?u = "set_frame_min (local_min ?m u) u"
  obtain y gs w where low: "fix_above 0 (fix_node (Node c l x r, fs @ u # ctx)) = (Node c l y r, gs @ set_frame_min w u # ctx)"
    "length gs = length fs" "aug_ok (Node c l y r)" "aug_seg (Some (subtree_min y)) gs"
    "seg_top (Some (subtree_min y)) gs = ?m"
    using swapped_lower [OF assms(1,2,3,5)] by blast
  then have top: "tree_min (plug (Node c l y r) gs) = ?m"
    using tree_min_seg [of "Node c l y r" gs] by simp
  have u: "fix_frames ?m (set_frame_min w u # ctx) = ?u # ctx"
    using fix_frames_local [of ?m "set_frame_min w u" ctx] assms(5) by simp
  have ctx: "fix_frames (Some (frame_min ?u)) ctx = ctx"
    using fix_frames_stable [OF assms(5)] by simp
  have "fix_above (length fs) (Node c l y r, gs @ set_frame_min w u # ctx) = (Node c l y r, gs @ ?u # ctx)"
    using u top low(2) fix_above_append [of "length fs" gs] by simp
  moreover have "fix_above (Suc (length fs)) (Node c l y r, (gs @ [?u]) @ ctx) = (Node c l y r, (gs @ [?u]) @ ctx)"
  proof -
    have "tree_min (plug (Node c l y r) (gs @ [?u])) = Some (frame_min ?u)"
      by (simp only: plug_append plug.simps tree_min_plug1)
    with ctx low(2) show ?thesis
      using fix_above_append [of "Suc (length fs)" "gs @ [?u]"] by simp
  qed
  ultimately have "mt_swapped (length fs) (Node c l x r, fs @ u # ctx) = (Node c l y r, gs @ ?u # ctx)"
    using low by (simp add: mt_swapped_def del: fix_node.simps)
  with low assms(4,5) show ?thesis by (simp add: aug_ok_plug aug_ctx_append)
qed

lemma mt_traits_sel [simp]:
  "leaf_inserted mt_resource_node_traits = mt_leaf_inserted"
  "rotated_left mt_resource_node_traits = mt_rotated"
  "rotated_right mt_resource_node_traits = mt_rotated"
  "deleted_below mt_resource_node_traits = fix_node"
  "swapped mt_resource_node_traits = mt_swapped"
  by (simp_all add: mt_resource_node_traits_def)

section \<open>The traits only write the minima\<close>

definition mt_proj :: "mt_node \<Rightarrow> int \<times> int" where
  "mt_proj n = (mt_at n, mt_remaining n)"

lemma map_set_frame_min [simp]: "map_frame mt_proj (set_frame_min v f) = map_frame mt_proj f"
  by (cases f) (auto simp: mt_proj_def)

lemma map_fix_frames: "map (map_frame mt_proj) (fix_frames m ctx) = map (map_frame mt_proj) ctx"
proof (induction ctx arbitrary: m)
  case (Cons f ctx)
  then show ?case by (cases ctx) (simp_all add: Let_def del: fix_frames.simps, simp_all add: fix_frames.simps(2) [of m f] Let_def del: fix_frames.simps)
qed simp

lemma map_leaf_up: "map (map_frame mt_proj) (leaf_up v ctx) = map (map_frame mt_proj) ctx"
  by (induction ctx) auto

lemma erase_fix_node: "erase mt_proj (fix_node z) = erase mt_proj z"
proof (cases z rule: fix_node.cases)
  case (2 c l x r ctx)
  have "erase mt_proj (l, fix_frames (tree_min l) (InLeft c x r # ctx)) = erase mt_proj (l, InLeft c x r # ctx)"
    by (simp add: map_fix_frames del: fix_frames.simps)
  then have "erase mt_proj (up (l, fix_frames (tree_min l) (InLeft c x r # ctx))) = erase mt_proj (up (l, InLeft c x r # ctx))"
    by (simp only: erase_up)
  with 2 show ?thesis by simp
qed simp

lemma erase_fix_above: "erase mt_proj (fix_above k z) = erase mt_proj z"
  by (cases z) (simp add: fix_above_def map_fix_frames flip: take_map drop_map)

interpretation mt_tr: traits mt_resource_node_traits mt_proj
proof unfold_locales
  fix z show "erase mt_proj (leaf_inserted mt_resource_node_traits z) = erase mt_proj z"
    by (cases z rule: mt_leaf_inserted.cases) (simp_all add: map_leaf_up, simp add: mt_proj_def)
qed (simp_all add: mt_rotated_def mt_swapped_def erase_fix_node erase_fix_above)

section \<open>Every operation keeps the minima\<close>

lemma tree_min_paint [simp]: "tree_min (paint c t) = tree_min t"
  by (cases t) auto

lemma aug_ok_paint [simp]: "aug_ok (paint c t) = aug_ok t"
  by (cases t) auto

lemma aug_rotate_left:
  assumes "rotate_left mt_resource_node_traits z = Some y" and "aug_ok (case_prod plug z)"
  shows "aug_ok (case_prod plug y)"
proof -
  from assms(1) obtain c l x c' l' x' r' ctx where z: "z = (Node c l x (Node c' l' x' r'), ctx)"
    by (cases "(mt_resource_node_traits, z)" rule: rotate_left.cases) auto
  have "local_min (Some (local_min (tree_min l) (InLeft c x l'))) (InLeft c' x' r') = subtree_min x"
    using assms(2) z by (cases "tree_min l"; cases "tree_min l'"; cases "tree_min r'") (auto simp: aug_ok_plug)
  then have "aug_ok (case_prod plug (mt_rotated (Node c l x l', InLeft c' x' r' # ctx)))"
    using assms(2) z by (intro rotated_ok) (auto simp: aug_ok_plug)
  with assms(1) z show ?thesis by simp
qed

lemma aug_rotate_right:
  assumes "rotate_right mt_resource_node_traits z = Some y" and "aug_ok (case_prod plug z)"
  shows "aug_ok (case_prod plug y)"
proof -
  from assms(1) obtain c l x c' r x' r' ctx where z: "z = (Node c (Node c' l x' r') x r, ctx)"
    by (cases "(mt_resource_node_traits, z)" rule: rotate_right.cases) auto
  have "local_min (Some (local_min (tree_min r') (InLeft c x r))) (InRight c' l x') = subtree_min x"
    using assms(2) z by (cases "tree_min l"; cases "tree_min r'"; cases "tree_min r") (auto simp: aug_ok_plug)
  then have "aug_ok (case_prod plug (mt_rotated (Node c r' x r, InRight c' l x' # ctx)))"
    using assms(2) z by (intro rotated_ok) (auto simp: aug_ok_plug)
  with assms(1) z show ?thesis by simp
qed

interpretation minima: rotation_inv mt_resource_node_traits aug_ok
  by unfold_locales (simp add: aug_ok_plug, erule (1) aug_rotate_left, erule (1) aug_rotate_right)

lemma insert_path_aug:
  assumes "aug_ok (plug t ctx)"
  shows "aug_ctx None (insert_path key k t ctx)"
  using assms
proof (induction t arbitrary: ctx)
  case Null
  then show ?case by (simp add: aug_ok_plug)
qed simp

lemma mt_insert_aug:
  assumes "aug_ok t" and "mt_insert at rem t = Some t'"
  shows "aug_ok t'"
proof -
  have path: "aug_ctx None (insert_path mt_remaining rem t [])"
    using assms(1) by (intro insert_path_aug) simp
  let ?x = "\<lparr>mt_at = at, subtree_min = 0, mt_remaining = rem\<rparr>"
  have ins: "insert_leaf_base mt_resource_node_traits mt_remaining ?x t = Some t'"
    using assms(2) by (auto simp: mt_insert_def split: if_splits)
  show ?thesis
  proof (cases "insert_path mt_remaining rem t []")
    case Nil
    with ins leaf_inserted_ok [of "[]" BLACK ?x] show ?thesis
      by (auto simp: insert_leaf_base_def)
  next
    case (Cons f ctx)
    with path leaf_inserted_ok [of "f # ctx" RED ?x]
    have "aug_ok (case_prod plug (mt_leaf_inserted (Node RED Null ?x Null, f # ctx)))" by simp
    with Cons ins show ?thesis
      by (auto simp: insert_leaf_base_def intro: minima.inv_fixup_after_insert split: prod.splits)
  qed
qed

lemma local_min_sibling: "local_min m f = lower m (lower (tree_min (sibling f)) (mt_at (frame_node f)))"
  by (cases f) (auto simp: lower_commute)

lemma lower_lower: "\<exists>k. \<forall>v. lower a (lower b v) = lower k v"
proof (cases a; cases b)
  fix m n assume "a = Some m" "b = Some n"
  then show ?thesis by (intro exI [of _ "Some (min m n)"]) auto
qed (auto intro: exI [of _ a] exI [of _ b])

lemma seg_top_lower: "\<exists>k. \<forall>v. seg_top (Some v) fs = Some (lower k v)"
proof (induction fs)
  case Nil
  show ?case by (intro exI [of _ None]) simp
next
  case (Cons f fs)
  then obtain k where k: "\<And>v. seg_top (Some v) fs = Some (lower k v)" by blast
  have "local_min (Some v) f = lower (Some (lower (tree_min (sibling f)) (mt_at (frame_node f)))) v" for v
    by (auto simp: local_min_sibling)
  with k lower_lower [of k "Some (lower (tree_min (sibling f)) (mt_at (frame_node f)))"] show ?case
    by simp
qed

text \<open>The exchange of the contents of two nodes, one above the other.\<close>

lemma swap_aug:
  assumes "aug_ok (plug (Node c l y r) (fs @ u # ctx))"
    and "sibling u' = sibling u" and "frame_node u' = y" and "frame_node u = x"
  shows "aug_ok (case_prod plug (mt_swapped (length fs) (Node c' l x r, fs @ u' # ctx)))"
proof -
  from assms(1) have low: "aug_ok l" "aug_ok r" "aug_ok (sibling u)" "aug_seg (Some (subtree_min y)) fs"
    "subtree_min y = lower (tree_min r) (lower (tree_min l) (mt_at y))"
    and top: "local_min (seg_top (Some (subtree_min y)) fs) u = subtree_min x" "aug_ctx (Some (subtree_min x)) ctx"
    using assms(4) by (auto simp: aug_ok_plug aug_ctx_append)
  obtain k where k: "\<And>v. seg_top (Some v) fs = Some (lower k v)"
    using seg_top_lower by blast
  obtain j where j: "\<And>v. lower (tree_min r) (lower (tree_min l) v) = lower j v"
    using lower_lower by blast
  have "lower (Some (lower k (lower j a))) (lower s b) = lower (Some (lower k (lower j b))) (lower s a)" for s a b
    by (cases k; cases j; cases s) auto
  then have "local_min (seg_top (Some (local_min (tree_min l) (InLeft c' x r))) fs) u' = subtree_min x"
    using low(5) top(1) assms(2-4) by (simp only: k j local_min.simps local_min_sibling [of _ u] local_min_sibling [of _ u'])
  with low top(2) assms(2) show ?thesis by (intro swapped_ok) auto
qed

lemma leftmost_Null: "leftmost t [] = (Null, cm) \<Longrightarrow> t = Null"
  using leftmost_Node [of t "[]"] by (metis Pair_inject rbtree.distinct(1))

lemma swap_to_leaf_aug:
  assumes "aug_ok (plug (Node c l x r) ctx)"
  shows "aug_ok (case_prod plug (swap_to_leaf mt_resource_node_traits (Node c l x r, ctx)))"
proof (cases "leftmost r []")
  case (Pair t cm)
  show ?thesis
  proof (cases t)
    case Null
    with Pair leftmost_Null have r: "r = Null" by blast
    show ?thesis
    proof (cases l)
      case (Node cc cl y cr)
      have "aug_ok (plug (Node cc cl y cr) ([] @ InLeft c x r # ctx))" using assms Node by simp
      from swap_aug [OF this, of "InLeft c y r" x cc] Node r show ?thesis by simp
    qed (use assms r in simp)
  next
    case (Node cc cl y cr)
    with Pair leftmost_plug [of r "[] @ InRight c l x # ctx"] leftmost_append [of r "[]" "InRight c l x # ctx"]
    have "plug (Node cc cl y cr) (cm @ InRight c l x # ctx) = plug (Node c l x r) ctx" by simp
    with swap_aug [of cc cl y cr cm "InRight c l x" ctx "InRight c l y" x cc] assms Pair Node show ?thesis
      by auto
  qed
qed

lemma unlink_leaf_aug:
  assumes "unlink_leaf mt_resource_node_traits z = Some t" and "aug_ok (case_prod plug z)"
  shows "aug_ok t"
proof (cases "(mt_resource_node_traits, z)" rule: unlink_leaf.cases)
  case (1 tr c l x rc rl y rr ctx)
  then have z: "z = (Node c l x (Node rc rl y rr), ctx)" by simp
  have "aug_ok (case_prod plug (mt_swapped (length []) (Node c rl x rr, [] @ InRight rc l y # ctx)))"
    using swap_aug [of rc rl y rr "[]" "InRight c l x" ctx "InRight rc l y" x c] assms(2) z by simp
  moreover obtain n fs where s: "mt_swapped 0 (Node c rl x rr, InRight rc l y # ctx) = (n, fs)"
    by fastforce
  moreover from s assms(1) z obtain rc' l' y' ctx' where fs: "fs = InRight rc' l' y' # ctx'"
    and t: "t = case_prod plug (fix_node (Node BLACK l' y' Null, ctx'))"
    by (auto split: list.splits frame.splits)
  ultimately have "aug_ok l'" and "aug_ctx (Some (subtree_min y')) ctx'"
    by (auto simp: aug_ok_plug simp del: fix_node.simps)
  with t fix_node_ok [of l' Null y' ctx' BLACK] show ?thesis by simp
next
  case (3 tr c l x f ctx)
  then have z: "z = (Node c l x Null, f # ctx)" by simp
  with assms(2) have "aug_ok (sibling f)" and "aug_ctx (Some (frame_min f)) ctx"
    by (auto simp: aug_ok_plug simp del: plug.simps)
  then have "aug_ok (case_prod plug (fix_node (plug1 f Null, ctx)))"
    by (cases f) (simp_all add: fix_node_ok del: fix_node.simps)
  moreover obtain p ctx' where "fix_node (plug1 f Null, ctx) = (p, ctx')" by fastforce
  ultimately show ?thesis
    using assms(1) z by (auto intro: minima.inv_fixup_after_delete split: if_splits)
qed (use assms in auto)

lemma mt_remove_aug:
  assumes "aug_ok t" and "mt_remove at t = Some t'"
  shows "aug_ok t'"
proof -
  from assms(2) obtain z where z: "locate (\<lambda>n. mt_at n = at) t [] = Some z"
    and rem: "remove_to_leaf mt_resource_node_traits z = Some t'"
    by (auto simp: mt_remove_def rb_remove_def elim: bind_eq_SomeE)
  from locate_Some [OF z] obtain c l x r fs where "z = (Node c l x r, fs)" "plug (Node c l x r) fs = t"
    by auto
  with rem assms(1) swap_to_leaf_aug [of c l x r fs] show ?thesis
    by (auto simp: remove_to_leaf_def intro: unlink_leaf_aug)
qed

section \<open>The earliest point that fits\<close>

lemma tree_min_le: "aug_ok t \<Longrightarrow> n \<in> set (inorder t) \<Longrightarrow> \<exists>m. tree_min t = Some m \<and> m \<le> mt_at n"
proof (induction t)
  case (Node c l x r)
  then consider "n \<in> set (inorder l)" | "n = x" | "n \<in> set (inorder r)" by auto
  then show ?case
    using Node by cases (cases "tree_min l"; cases "tree_min r"; force)+
qed simp

lemma tree_min_mem: "aug_ok t \<Longrightarrow> tree_min t = Some m \<Longrightarrow> \<exists>n\<in>set (inorder t). mt_at n = m"
proof (induction t)
  case (Node c l x r)
  then show ?case by (cases "tree_min l"; cases "tree_min r") (auto split: if_splits)
qed simp

lemma find_mintime_loop_min: "aug_ok t \<Longrightarrow> tree_min t = Some m \<Longrightarrow> find_mintime_loop t m = Some m"
proof (induction t)
  case (Node c l x r)
  then show ?case by (cases "tree_min l"; cases "tree_min r") (auto split: if_splits)
qed simp

text \<open>The anchor search keeps the earliest time among the visited nodes that fit, and an
  anchor below which the point search will find it.\<close>

lemma find_mintime_anchor_ok:
  assumes "find_mintime_anchor q t m0 a0 = (m, a)"
    and "aug_ok t" "sorted (map mt_remaining (inorder t))" "\<forall>n\<in>set (inorder t). mt_at n < int64_max"
  shows "m \<le> m0 \<and> (\<forall>n\<in>set (inorder t). q \<le> mt_remaining n \<longrightarrow> m \<le> mt_at n)
    \<and> (m = m0 \<and> a = a0
       \<or> find_mintime_point a m = Some m \<and> (\<exists>n\<in>set (inorder t). q \<le> mt_remaining n \<and> mt_at n = m))"
  using assms
proof (induction t arbitrary: m0 a0)
  case (Node c l x r)
  have r: "\<forall>n\<in>set (inorder r). mt_remaining x \<le> mt_remaining n"
    and l: "\<forall>n\<in>set (inorder l). mt_remaining n \<le> mt_remaining x"
    using Node.prems(3) by (auto simp: sorted_append)
  show ?case
  proof (cases "q \<le> mt_remaining x")
    case True
    let ?v = "right_branch_mintime x r"
    have v: "?v = lower (tree_min r) (mt_at x)"
      using Node.prems(4) by (cases "tree_min r") (auto simp: right_branch_mintime_def)
    have "?v \<le> mt_at n" if "n \<in> set (inorder r)" for n
      using v tree_min_le [of r n] Node.prems(2) that by auto
    moreover have "?v \<le> mt_at x" using v by (cases "tree_min r") auto
    ultimately have low: "\<forall>n\<in>set (x # inorder r). ?v \<le> mt_at n" by auto
    have mem: "\<exists>n\<in>set (x # inorder r). mt_at n = ?v"
      using v tree_min_mem [of r] Node.prems(2) by (cases "tree_min r") (auto split: if_splits)
    have pt: "find_mintime_point (Node c l x r) ?v = Some ?v"
      using v find_mintime_loop_min [of r] Node.prems(2) by (cases "tree_min r") auto
    have q: "\<forall>n\<in>set (x # inorder r). q \<le> mt_remaining n" using True r by fastforce
    have IH: "find_mintime_anchor q l m1 a1 = (m, a) \<Longrightarrow> m \<le> m1 \<and> (\<forall>n\<in>set (inorder l). q \<le> mt_remaining n \<longrightarrow> m \<le> mt_at n)
      \<and> (m = m1 \<and> a = a1 \<or> find_mintime_point a m = Some m \<and> (\<exists>n\<in>set (inorder l). q \<le> mt_remaining n \<and> mt_at n = m))" for m1 a1
      using Node.prems by (intro Node.IH(1)) (auto simp: sorted_append)
    show ?thesis
    proof (cases "?v < m0")
      case True
      with Node.prems(1) \<open>q \<le> mt_remaining x\<close>
      have "find_mintime_anchor q l ?v (Node c l x r) = (m, a)" by (simp add: Let_def)
      note IH = IH [OF this]
      from IH low q have "\<forall>n\<in>set (inorder (Node c l x r)). q \<le> mt_remaining n \<longrightarrow> m \<le> mt_at n"
        by fastforce
      moreover from IH pt mem q have "find_mintime_point a m = Some m"
        and "\<exists>n\<in>set (inorder (Node c l x r)). q \<le> mt_remaining n \<and> mt_at n = m"
        by (blast, fastforce)
      ultimately show ?thesis using IH True by auto
    next
      case False
      with Node.prems(1) \<open>q \<le> mt_remaining x\<close>
      have "find_mintime_anchor q l m0 a0 = (m, a)" by (simp add: Let_def)
      note IH = IH [OF this]
      from IH low False have "\<forall>n\<in>set (inorder (Node c l x r)). q \<le> mt_remaining n \<longrightarrow> m \<le> mt_at n"
        by fastforce
      with IH show ?thesis by auto
    qed
  next
    case False
    with Node.IH(2) [of m0 a0] Node.prems have
      "m \<le> m0" "\<forall>n\<in>set (inorder r). q \<le> mt_remaining n \<longrightarrow> m \<le> mt_at n"
      "m = m0 \<and> a = a0 \<or> find_mintime_point a m = Some m \<and> (\<exists>n\<in>set (inorder r). q \<le> mt_remaining n \<and> mt_at n = m)"
      by (auto simp: sorted_append)
    with False l show ?thesis by fastforce
  qed
qed auto

section \<open>The tree as a map from times to quantities\<close>

definition mt_ok :: "mt_node rbtree \<Rightarrow> bool" where
  "mt_ok t \<longleftrightarrow> dbg_verify t \<and> sorted (map mt_remaining (inorder t)) \<and> aug_ok t
     \<and> distinct (map mt_at (inorder t))"

definition mt_map :: "mt_node rbtree \<Rightarrow> int \<rightharpoonup> int" where
  "mt_map t = map_of (map mt_proj (inorder t))"

lemma fst_mt_proj [simp]: "fst (mt_proj n) = mt_at n" and snd_mt_proj [simp]: "snd (mt_proj n) = mt_remaining n"
  by (simp_all add: mt_proj_def)

lemma fst_o_mt_proj [simp]: "fst \<circ> mt_proj = mt_at" and snd_o_mt_proj [simp]: "snd \<circ> mt_proj = mt_remaining"
  by (simp_all add: comp_def)

lemma mt_map_iff:
  assumes "mt_ok t"
  shows "mt_map t a = Some v \<longleftrightarrow> (\<exists>n\<in>set (inorder t). mt_at n = a \<and> mt_remaining n = v)"
proof -
  have "distinct (map fst (map mt_proj (inorder t)))" using assms by (simp add: mt_ok_def)
  then show ?thesis by (auto simp: mt_map_def mt_proj_def)
qed

lemma mt_map_None: "mt_map t a = None \<longleftrightarrow> (\<forall>n\<in>set (inorder t). mt_at n \<noteq> a)"
  by (auto simp: mt_map_def map_of_eq_None_iff image_iff)

lemma mt_ok_Null [simp]: "mt_ok Null" and mt_map_Null [simp]: "mt_map Null = Map.empty"
  by (simp_all add: mt_ok_def mt_map_def dbg_verify_def verify_black_root_def)

lemma mt_linked_iff: "mt_linked a t \<longleftrightarrow> mt_map t a \<noteq> None"
  by (auto simp: mt_linked_def mt_map_None locate_None)

lemma mt_insert_ok:
  assumes "mt_ok t" and "mt_map t a = None"
  shows "\<exists>t'. mt_insert a v t = Some t' \<and> mt_ok t' \<and> mt_map t' = (mt_map t)(a \<mapsto> v)"
proof -
  let ?x = "\<lparr>mt_at = a, subtree_min = 0, mt_remaining = v\<rparr>"
  from mt_tr.insert_ok [of t mt_remaining snd ?x] assms(1) obtain t' where
    t': "insert_leaf_base mt_resource_node_traits mt_remaining ?x t = Some t'" "dbg_verify t'"
    "map mt_proj (inorder t') = insort_key snd (mt_proj ?x) (map mt_proj (inorder t))"
    by (auto simp: mt_ok_def)
  with assms have ins: "mt_insert a v t = Some t'" by (auto simp: mt_insert_def mt_linked_iff)
  have "sorted (map snd (map mt_proj (inorder t')))"
    unfolding t'(3) using assms(1) by (simp add: sorted_insort_key mt_ok_def)
  moreover have "distinct (map fst (map mt_proj (inorder t')))"
    unfolding t'(3) using assms by (simp add: distinct_map_insort mt_ok_def mt_map_None image_image) auto
  moreover have "aug_ok t'" using assms(1) ins by (auto simp: mt_ok_def intro: mt_insert_aug)
  ultimately have ok: "mt_ok t'" using t'(2) by (simp add: mt_ok_def)
  have "set (map mt_proj (inorder t')) = insert (a, v) (set (map mt_proj (inorder t)))"
    unfolding t'(3) by (simp add: set_insort_key mt_proj_def)
  then have "mt_map t' = map_of ((a, v) # map mt_proj (inorder t))"
    using ok assms by (intro map_of_inject_set [THEN iffD2, of "map mt_proj (inorder t')", folded mt_map_def])
       (auto simp: mt_ok_def mt_map_None)
  then show ?thesis using ins ok by (auto simp: mt_map_def)
qed

lemma mt_remove_ok:
  assumes "mt_ok t" and "mt_map t a \<noteq> None"
  shows "\<exists>t'. mt_remove a t = Some t' \<and> mt_ok t' \<and> mt_map t' = (mt_map t)(a := None)"
proof -
  from assms(2) obtain n where n: "n \<in> set (inorder t)" "mt_at n = a"
    by (auto simp: mt_map_None)
  from mt_tr.remove_ok [of t n "\<lambda>n. mt_at n = a" "\<lambda>p. fst p = a"] n assms(1)
  obtain t' xs y ys where t': "mt_remove a t = Some t'" "dbg_verify t'" "fst y = a"
    "map mt_proj (inorder t) = xs @ y # ys" "map mt_proj (inorder t') = xs @ ys"
    by (auto simp: mt_ok_def mt_remove_def)
  have s: "sorted (map snd (map mt_proj (inorder t)))" and d: "distinct (map fst (map mt_proj (inorder t)))"
    using assms(1) by (simp_all add: mt_ok_def)
  have "sorted (map snd (map mt_proj (inorder t')))"
    using s by (simp only: t'(4,5)) (auto simp: sorted_append)
  moreover have d': "distinct (map fst (map mt_proj (inorder t')))"
    using d by (simp only: t'(4,5)) auto
  ultimately have ok: "mt_ok t'"
    using t'(1,2) assms(1) by (auto simp: mt_ok_def intro: mt_remove_aug)
  have "mt_map t' = (mt_map t)(a := None)"
  proof -
    have "a \<notin> fst ` set xs" "a \<notin> fst ` set ys" using d t'(3) by (auto simp: t'(4))
    then have "map_of (xs @ ys) = (map_of (xs @ y # ys))(a := None)"
      using t'(3) by (cases y) (auto simp: fun_eq_iff map_add_def simp flip: map_of_eq_None_iff split: option.splits)
    then show ?thesis by (simp add: mt_map_def t'(4,5))
  qed
  with t'(1) ok show ?thesis by blast
qed

lemma mt_remove_absent: "mt_map t a = None \<Longrightarrow> mt_remove a t = None"
  by (simp add: mt_remove_def mt_map_None mt_tr.remove_absent)

lemma get_mintime_ok:
  assumes "mt_ok t" and "\<forall>a\<in>dom (mt_map t). a < int64_max"
  shows "case get_mintime q t of
      Some a \<Rightarrow> (\<exists>v. mt_map t a = Some v \<and> q \<le> v) \<and> (\<forall>b w. mt_map t b = Some w \<and> q \<le> w \<longrightarrow> a \<le> b)
    | None \<Rightarrow> (\<forall>b w. mt_map t b = Some w \<longrightarrow> w < q)"
proof -
  obtain m a where f: "find_mintime_anchor q t int64_max Null = (m, a)" by fastforce
  have at: "\<forall>n\<in>set (inorder t). mt_at n < int64_max"
    using assms by (auto simp: mt_map_iff dom_def)
  note A = find_mintime_anchor_ok [OF f _ _ at]
  have "m \<le> int64_max" and low: "\<forall>n\<in>set (inorder t). q \<le> mt_remaining n \<longrightarrow> m \<le> mt_at n"
    and c: "m = int64_max \<and> a = Null
       \<or> find_mintime_point a m = Some m \<and> (\<exists>n\<in>set (inorder t). q \<le> mt_remaining n \<and> mt_at n = m)"
    using A assms(1) by (auto simp: mt_ok_def)
  from c show ?thesis
  proof
    assume "m = int64_max \<and> a = Null"
    then show ?thesis
      using f low at assms(1) by (fastforce simp: get_mintime_def mt_map_iff)
  next
    assume "find_mintime_point a m = Some m \<and> (\<exists>n\<in>set (inorder t). q \<le> mt_remaining n \<and> mt_at n = m)"
    then show ?thesis
      using f low assms(1) by (auto simp: get_mintime_def mt_map_iff)
  qed
qed

end
