(* ===== verification/Planner_Trees.thy ===== *)
theory Planner_Trees
  imports Planner_C Scheduled_Point_Correct Mintime_Correct
begin

text \<open>
  The planner's two trees taken together. \<open>trees_ok t m\<close> says that both are well
  formed and that the min-time tree holds exactly the points whose flag
  \<^verbatim>\<open>in_mt_resource_tree\<close> is set, each with the quantity copied into its
  node. Under it every tree operation of the planner is an update of the finite map
  \<open>sp_map\<close> from times to points, and none is undefined.
\<close>

section \<open>Linking\<close>

definition linked :: "scheduled_point option \<Rightarrow> int option" where
  "linked o' = (case o' of None \<Rightarrow> None
     | Some q \<Rightarrow> if in_mt_resource_tree q then Some (resource_rb_remaining q) else None)"

lemma linked_simps [simp]:
  "linked None = None"
  "linked (Some q) = (if in_mt_resource_tree q then Some (resource_rb_remaining q) else None)"
  by (simp_all add: linked_def)

definition trees_ok :: "sp_tree \<Rightarrow> mt_node rbtree \<Rightarrow> bool" where
  "trees_ok t m \<longleftrightarrow> sp_ok t \<and> mt_ok m \<and> (\<forall>a. mt_map m a = linked (sp_map t a))"

lemma trees_ok_Null [simp]: "trees_ok Null Null"
  by (simp add: trees_ok_def)

text \<open>What the two insertions do to a point.\<close>

definition link :: "scheduled_point \<Rightarrow> scheduled_point" where
  "link q = q\<lparr>resource_rb_remaining := remaining q, in_mt_resource_tree := True\<rparr>"

definition unlink :: "scheduled_point \<Rightarrow> scheduled_point" where
  "unlink q = q\<lparr>in_mt_resource_tree := False\<rparr>"

lemma link_sel [simp]:
  "at (link q) = at q" "in_mt_resource_tree (link q)" "ref_count (link q) = ref_count q"
  "scheduled (link q) = scheduled q" "remaining (link q) = remaining q"
  "resource_rb_remaining (link q) = remaining q" "new_point (link q) = new_point q"
  "link (unlink q) = link q"
  by (simp_all add: link_def unlink_def)

lemma unlink_sel [simp]:
  "at (unlink q) = at q" "\<not> in_mt_resource_tree (unlink q)" "ref_count (unlink q) = ref_count q"
  "scheduled (unlink q) = scheduled q" "remaining (unlink q) = remaining q"
  "resource_rb_remaining (unlink q) = resource_rb_remaining q" "new_point (unlink q) = new_point q"
  by (simp_all add: unlink_def)

lemma get_point_map:
  "trees_ok (m_sched_point_tree p) (m_mt_resource_tree p) \<Longrightarrow> get_point a p = sp_map (m_sched_point_tree p) a"
  by (simp add: get_point_def trees_ok_def sp_deref_map)

text \<open>Updates that keep time, link flag and copied quantity keep the trees together.\<close>

definition keeps_link :: "(scheduled_point \<Rightarrow> scheduled_point) \<Rightarrow> bool" where
  "keeps_link f \<longleftrightarrow> (\<forall>q. at (f q) = at q \<and> in_mt_resource_tree (f q) = in_mt_resource_tree q
     \<and> resource_rb_remaining (f q) = resource_rb_remaining q)"

lemma trees_ok_modify:
  assumes "trees_ok t m" and "keeps_link f"
  shows "trees_ok (sp_modify a f t) m"
    and "sp_map (sp_modify a f t) = (sp_map t)(a := map_option f (sp_map t a))"
proof -
  have f: "\<And>q. at (f q) = at q" using assms(2) by (simp add: keeps_link_def)
  show *: "sp_map (sp_modify a f t) = (sp_map t)(a := map_option f (sp_map t a))"
    using assms(1) f by (simp add: trees_ok_def sp_modify_ok)
  have "linked (map_option f x) = linked x" for x
    using assms(2) by (cases x) (auto simp: keeps_link_def)
  then show "trees_ok (sp_modify a f t) m"
    using assms(1) * f by (auto simp: trees_ok_def sp_modify_ok)
qed

lemma trees_commute:
  "p\<lparr>m_mt_resource_tree := m, m_sched_point_tree := t\<rparr> = p\<lparr>m_sched_point_tree := t, m_mt_resource_tree := m\<rparr>"
  by simp

section \<open>The tree operations of the planner\<close>

lemma mt_tree_insert_ok:
  assumes "trees_ok (m_sched_point_tree p) (m_mt_resource_tree p)"
    and "sp_map (m_sched_point_tree p) a = Some q" and "\<not> in_mt_resource_tree q"
  shows "\<exists>t m. mt_tree_insert (Some a) p = Some (0, p\<lparr>m_sched_point_tree := t, m_mt_resource_tree := m\<rparr>)
    \<and> trees_ok t m \<and> sp_map t = (sp_map (m_sched_point_tree p))(a \<mapsto> link q)"
proof -
  let ?t = "m_sched_point_tree p" and ?m = "m_mt_resource_tree p"
  let ?f = "\<lambda>q. q\<lparr>resource_rb_remaining := remaining q, in_mt_resource_tree := True\<rparr>"
  have sp: "sp_ok ?t" and mt: "mt_ok ?m" and lk: "\<And>b. mt_map ?m b = linked (sp_map ?t b)"
    using assms(1) by (auto simp: trees_ok_def)
  have a: "at q = a" using sp assms(2) by (rule sp_map_at)
  have "mt_map ?m a = None" using lk assms(2,3) by simp
  with mt_insert_ok [OF mt, of a "remaining q"] obtain m where
    m: "mt_insert a (remaining q) ?m = Some m" "mt_ok m" "mt_map m = (mt_map ?m)(a \<mapsto> remaining q)"
    by blast
  have t: "sp_ok (sp_modify a ?f ?t)" "sp_map (sp_modify a ?f ?t) = (sp_map ?t)(a \<mapsto> link q)"
    using sp_modify_ok [OF sp, of ?f a] assms(2) by (simp_all add: link_def)
  with m lk have "trees_ok (sp_modify a ?f ?t) m" by (auto simp: trees_ok_def)
  moreover have "mt_tree_insert (Some a) p =
      Some (0, p\<lparr>m_sched_point_tree := sp_modify a ?f ?t, m_mt_resource_tree := m\<rparr>)"
    using assms m a by (simp add: mt_tree_insert_def get_point_map modify_point_def)
  ultimately show ?thesis using t by blast
qed

lemma mt_tree_remove_ok:
  assumes "trees_ok (m_sched_point_tree p) (m_mt_resource_tree p)"
    and "sp_map (m_sched_point_tree p) a = Some q" and "in_mt_resource_tree q"
  shows "\<exists>t m. mt_tree_remove (Some a) p = Some (0, p\<lparr>m_sched_point_tree := t, m_mt_resource_tree := m\<rparr>)
    \<and> trees_ok t m \<and> sp_map t = (sp_map (m_sched_point_tree p))(a \<mapsto> unlink q)
    \<and> mt_map m = (mt_map (m_mt_resource_tree p))(a := None)"
proof -
  let ?t = "m_sched_point_tree p" and ?m = "m_mt_resource_tree p"
  let ?f = "\<lambda>q. q\<lparr>in_mt_resource_tree := False\<rparr>"
  have sp: "sp_ok ?t" and mt: "mt_ok ?m" and lk: "\<And>b. mt_map ?m b = linked (sp_map ?t b)"
    using assms(1) by (auto simp: trees_ok_def)
  have "mt_map ?m a \<noteq> None" using lk assms(2,3) by simp
  with mt_remove_ok [OF mt, of a] obtain m where
    m: "mt_remove a ?m = Some m" "mt_ok m" "mt_map m = (mt_map ?m)(a := None)"
    by blast
  have t: "sp_ok (sp_modify a ?f ?t)" "sp_map (sp_modify a ?f ?t) = (sp_map ?t)(a \<mapsto> unlink q)"
    using sp_modify_ok [OF sp, of ?f a] assms(2) by (simp_all add: unlink_def)
  with m lk have "trees_ok (sp_modify a ?f ?t) m" by (auto simp: trees_ok_def)
  moreover have "mt_tree_remove (Some a) p =
      Some (0, p\<lparr>m_sched_point_tree := sp_modify a ?f ?t, m_mt_resource_tree := m\<rparr>)"
    using m by (simp add: mt_tree_remove_def modify_point_def)
  ultimately show ?thesis using t m by blast
qed

lemma sp_tree_insert_ok:
  assumes "trees_ok (m_sched_point_tree p) (m_mt_resource_tree p)"
    and "sp_map (m_sched_point_tree p) (at q) = None" and "\<not> in_mt_resource_tree q"
  shows "\<exists>t. sp_tree_insert q p = Some (0, p\<lparr>m_sched_point_tree := t\<rparr>)
    \<and> trees_ok t (m_mt_resource_tree p) \<and> sp_map t = (sp_map (m_sched_point_tree p))(at q \<mapsto> q)"
proof -
  have "sp_ok (m_sched_point_tree p)" using assms(1) by (simp add: trees_ok_def)
  from sp_insert_ok [OF this assms(2)] obtain t where
    "sp_insert q (m_sched_point_tree p) = Some t" "sp_ok t" "sp_map t = (sp_map (m_sched_point_tree p))(at q \<mapsto> q)"
    by blast
  with assms show ?thesis by (auto simp: sp_tree_insert_def trees_ok_def)
qed

lemma sp_tree_remove_ok:
  assumes "trees_ok (m_sched_point_tree p) (m_mt_resource_tree p)"
    and "sp_map (m_sched_point_tree p) a = Some q"
  shows "\<exists>t. sp_tree_remove (Some a) p = Some (0, p\<lparr>m_sched_point_tree := t\<rparr>)
    \<and> sp_ok t \<and> sp_map t = (sp_map (m_sched_point_tree p))(a := None)"
proof -
  have "sp_ok (m_sched_point_tree p)" using assms(1) by (simp add: trees_ok_def)
  from sp_remove_ok [OF this, of a] assms(2) obtain t where
    "sp_remove a (m_sched_point_tree p) = Some t" "sp_ok t" "sp_map t = (sp_map (m_sched_point_tree p))(a := None)"
    by auto
  then show ?thesis by (auto simp: sp_tree_remove_def)
qed

section \<open>Loops over points\<close>

text \<open>Applying an update at each of a list of times.\<close>

definition upd_at :: "int set \<Rightarrow> (scheduled_point \<Rightarrow> scheduled_point) \<Rightarrow> (int \<rightharpoonup> scheduled_point) \<Rightarrow> (int \<rightharpoonup> scheduled_point)" where
  "upd_at A f M = (\<lambda>a. if a \<in> A then map_option f (M a) else M a)"

lemma upd_at_empty [simp]: "upd_at {} f M = M"
  by (simp add: upd_at_def)

lemma upd_at_insert:
  "a \<notin> A \<Longrightarrow> upd_at A f (M(a := map_option f (M a))) = upd_at (insert a A) f M"
  by (auto simp: upd_at_def fun_eq_iff)

lemma upd_at_single: "M a = Some q \<Longrightarrow> M(a \<mapsto> f q) = upd_at {a} f M"
  by (auto simp: upd_at_def fun_eq_iff)

lemma upd_at_insert_Some:
  "a \<notin> A \<Longrightarrow> M a = Some q \<Longrightarrow> upd_at A f (M(a \<mapsto> f q)) = upd_at (insert a A) f M"
  by (auto simp: upd_at_def fun_eq_iff)

lemma dom_upd_at [simp]: "upd_at A f M a = None \<longleftrightarrow> M a = None"
  by (simp add: upd_at_def)

lemma restore_loop_ok:
  assumes "trees_ok (m_sched_point_tree p) (m_mt_resource_tree p)" and "distinct (map fst kvs)"
    and "\<forall>(a, pt)\<in>set kvs. pt = Some a \<and> (\<exists>q. sp_map (m_sched_point_tree p) a = Some q \<and> \<not> in_mt_resource_tree q)"
  shows "\<exists>t m. restore_loop kvs p = Some (0, p\<lparr>m_sched_point_tree := t, m_mt_resource_tree := m\<rparr>)
    \<and> trees_ok t m \<and> sp_map t = upd_at (fst ` set kvs) link (sp_map (m_sched_point_tree p))"
  using assms
proof (induction kvs arbitrary: p)
  case Nil
  then show ?case
    by (intro exI [of _ "m_sched_point_tree p"] exI [of _ "m_mt_resource_tree p"]) simp
next
  case (Cons kv kvs)
  then obtain a q where kv: "kv = (a, Some a)" and q: "sp_map (m_sched_point_tree p) a = Some q" "\<not> in_mt_resource_tree q"
    and a: "a \<notin> fst ` set kvs"
    by (cases kv) auto
  from mt_tree_insert_ok [OF Cons.prems(1) q] obtain t m where
    1: "mt_tree_insert (Some a) p = Some (0, p\<lparr>m_sched_point_tree := t, m_mt_resource_tree := m\<rparr>)"
    "trees_ok t m" "sp_map t = (sp_map (m_sched_point_tree p))(a \<mapsto> link q)"
    by blast
  have rest: "\<forall>(b, pt)\<in>set kvs. pt = Some b \<and> (\<exists>q. sp_map t b = Some q \<and> \<not> in_mt_resource_tree q)"
    using Cons.prems(3) a 1(3) by force
  from Cons.IH [of "p\<lparr>m_sched_point_tree := t, m_mt_resource_tree := m\<rparr>"] 1(2) Cons.prems(2) rest obtain t' m' where
    2: "restore_loop kvs (p\<lparr>m_sched_point_tree := t, m_mt_resource_tree := m\<rparr>)
        = Some (0, p\<lparr>m_sched_point_tree := t', m_mt_resource_tree := m'\<rparr>)"
    "trees_ok t' m'" "sp_map t' = upd_at (fst ` set kvs) link (sp_map t)"
    by auto
  have "sp_map t' = upd_at (fst ` set (kv # kvs)) link (sp_map (m_sched_point_tree p))"
    using 2(3) 1(3) a q kv by (simp add: upd_at_insert_Some)
  with 1(1) 2 kv show ?case by auto
qed

text \<open>The two loops that change quantities, without their return codes.\<close>

lemma update_points_add_ok:
  assumes "trees_ok (m_sched_point_tree p) (m_mt_resource_tree p)" and "distinct as"
    and "\<forall>a\<in>set as. sp_map (m_sched_point_tree p) a \<noteq> None"
  shows "\<exists>rc t. update_points_add_span as n p = Some (rc, p\<lparr>m_sched_point_tree := t\<rparr>)
    \<and> trees_ok t (m_mt_resource_tree p)
    \<and> sp_map t = upd_at (set as) (\<lambda>q. q\<lparr>scheduled := scheduled q + n, remaining := remaining q - n\<rparr>)
        (sp_map (m_sched_point_tree p))"
  using assms
proof (induction as arbitrary: p)
  case Nil
  then show ?case by (auto intro!: exI [of _ "m_sched_point_tree p"])
next
  case (Cons a as)
  let ?f = "\<lambda>q. q\<lparr>scheduled := scheduled q + n, remaining := remaining q - n\<rparr>"
  let ?t = "sp_modify a ?f (m_sched_point_tree p)"
  let ?p = "p\<lparr>m_sched_point_tree := ?t\<rparr>"
  have f: "keeps_link ?f" by (simp add: keeps_link_def)
  note t = trees_ok_modify [OF Cons.prems(1) f, of a]
  have "\<exists>rc t'. update_points_add_span as n ?p = Some (rc, ?p\<lparr>m_sched_point_tree := t'\<rparr>)
    \<and> trees_ok t' (m_mt_resource_tree ?p) \<and> sp_map t' = upd_at (set as) ?f (sp_map (m_sched_point_tree ?p))"
    using Cons.prems t by (intro Cons.IH) simp_all
  then obtain rc t' where
    2: "update_points_add_span as n ?p = Some (rc, p\<lparr>m_sched_point_tree := t'\<rparr>)"
    "trees_ok t' (m_mt_resource_tree p)" "sp_map t' = upd_at (set as) ?f (sp_map ?t)"
    by auto
  from Cons.prems t obtain q where "get_point a ?p = Some q"
    using get_point_map [of ?p a] by auto
  moreover have "sp_map t' = upd_at (set (a # as)) ?f (sp_map (m_sched_point_tree p))"
    using 2(3) t(2) Cons.prems(2) by (simp add: upd_at_insert)
  ultimately show ?case using 2 by (auto simp: modify_point_def Let_def)
qed

lemma update_points_subtract_add:
  "map_option snd (update_points_subtract_span as n p) = map_option snd (update_points_add_span as (- n) p)"
proof (induction as arbitrary: p)
  case (Cons a as)
  let ?p = "modify_point a (\<lambda>q. q\<lparr>scheduled := scheduled q - n, remaining := remaining q + n\<rparr>) p"
  from Cons [of ?p] show ?case
    by (cases "get_point a ?p"; cases "update_points_subtract_span as n ?p"; cases "update_points_add_span as (- n) ?p")
       (auto simp: Let_def)
qed simp

lemma update_points_subtract_ok:
  assumes "trees_ok (m_sched_point_tree p) (m_mt_resource_tree p)" and "distinct as"
    and "\<forall>a\<in>set as. sp_map (m_sched_point_tree p) a \<noteq> None"
  shows "\<exists>rc t. update_points_subtract_span as n p = Some (rc, p\<lparr>m_sched_point_tree := t\<rparr>)
    \<and> trees_ok t (m_mt_resource_tree p)
    \<and> sp_map t = upd_at (set as) (\<lambda>q. q\<lparr>scheduled := scheduled q - n, remaining := remaining q + n\<rparr>)
        (sp_map (m_sched_point_tree p))"
proof -
  from update_points_add_ok [OF assms, of "- n"] obtain rc t where
    t: "update_points_add_span as (- n) p = Some (rc, p\<lparr>m_sched_point_tree := t\<rparr>)"
    "trees_ok t (m_mt_resource_tree p)"
    "sp_map t = upd_at (set as) (\<lambda>q. q\<lparr>scheduled := scheduled q - n, remaining := remaining q + n\<rparr>)
        (sp_map (m_sched_point_tree p))"
    by auto
  with update_points_subtract_add [of as n p] obtain rc' where
    "update_points_subtract_span as n p = Some (rc', p\<lparr>m_sched_point_tree := t\<rparr>)"
    by (cases "update_points_subtract_span as n p") auto
  with t show ?thesis by blast
qed

text \<open>The partial removal stops at the first point that would leave its range; when none
  does, it behaves as the full one.\<close>

lemma update_points_partial_ok:
  assumes "trees_ok (m_sched_point_tree p) (m_mt_resource_tree p)" and "distinct as"
    and "\<forall>a\<in>set as. \<exists>q. sp_map (m_sched_point_tree p) a = Some q \<and> n \<le> scheduled q
           \<and> remaining q + n \<le> m_total_resources p"
  shows "\<exists>t. update_points_partial_subtract_span as n p = Some (0, p\<lparr>m_sched_point_tree := t\<rparr>)
    \<and> trees_ok t (m_mt_resource_tree p)
    \<and> sp_map t = upd_at (set as) (\<lambda>q. q\<lparr>scheduled := scheduled q - n, remaining := remaining q + n\<rparr>)
        (sp_map (m_sched_point_tree p))"
  using assms
proof (induction as arbitrary: p)
  case Nil
  then show ?case by (auto intro!: exI [of _ "m_sched_point_tree p"])
next
  case (Cons a as)
  let ?f = "\<lambda>q. q\<lparr>scheduled := scheduled q - n, remaining := remaining q + n\<rparr>"
  let ?t = "sp_modify a ?f (m_sched_point_tree p)"
  let ?p = "p\<lparr>m_sched_point_tree := ?t\<rparr>"
  have f: "keeps_link ?f" by (simp add: keeps_link_def)
  note t = trees_ok_modify [OF Cons.prems(1) f, of a]
  have rest: "\<forall>b\<in>set as. \<exists>q. sp_map ?t b = Some q \<and> n \<le> scheduled q \<and> remaining q + n \<le> m_total_resources p"
    using Cons.prems(2,3) t(2) by auto
  have "\<exists>t'. update_points_partial_subtract_span as n ?p = Some (0, ?p\<lparr>m_sched_point_tree := t'\<rparr>)
    \<and> trees_ok t' (m_mt_resource_tree ?p) \<and> sp_map t' = upd_at (set as) ?f (sp_map (m_sched_point_tree ?p))"
    using Cons.prems t rest by (intro Cons.IH) simp_all
  then obtain t' where
    2: "update_points_partial_subtract_span as n ?p = Some (0, p\<lparr>m_sched_point_tree := t'\<rparr>)"
    "trees_ok t' (m_mt_resource_tree p)" "sp_map t' = upd_at (set as) ?f (sp_map ?t)"
    by auto
  from Cons.prems t obtain q where "get_point a ?p = Some q" "0 \<le> scheduled q" "remaining q \<le> m_total_resources p"
    using get_point_map [of ?p a] by auto
  moreover have "sp_map t' = upd_at (set (a # as)) ?f (sp_map (m_sched_point_tree p))"
    using 2(3) t(2) Cons.prems(2) by (simp add: upd_at_insert)
  ultimately show ?case using 2 by (auto simp: modify_point_def Let_def)
qed

definition relink :: "scheduled_point \<Rightarrow> scheduled_point" where
  "relink q = (if ref_count q \<noteq> 0 then link q else unlink q)"

lemma update_mintime_ok:
  assumes "trees_ok (m_sched_point_tree p) (m_mt_resource_tree p)" and "distinct as"
    and "\<forall>a\<in>set as. sp_map (m_sched_point_tree p) a \<noteq> None"
  shows "\<exists>t m. update_mintime_resource_tree as p = Some (p\<lparr>m_sched_point_tree := t, m_mt_resource_tree := m\<rparr>)
    \<and> trees_ok t m \<and> sp_map t = upd_at (set as) relink (sp_map (m_sched_point_tree p))"
  using assms
proof (induction as arbitrary: p)
  case Nil
  then show ?case
    by (intro exI [of _ "m_sched_point_tree p"] exI [of _ "m_mt_resource_tree p"]) simp
next
  case (Cons a as)
  then obtain q where q: "sp_map (m_sched_point_tree p) a = Some q" by auto
  have unl: "unlink q = q" if "\<not> in_mt_resource_tree q" using that by (simp add: unlink_def)
  have "\<exists>rc t m. (if in_mt_resource_tree q then mt_tree_remove (Some a) p else Some (0, p))
      = Some (rc, p\<lparr>m_sched_point_tree := t, m_mt_resource_tree := m\<rparr>)
      \<and> trees_ok t m \<and> sp_map t = (sp_map (m_sched_point_tree p))(a \<mapsto> unlink q)"
  proof (cases "in_mt_resource_tree q")
    case True
    with mt_tree_remove_ok [OF Cons.prems(1) q] show ?thesis by auto
  next
    case False
    with Cons.prems(1) unl q show ?thesis
      by (intro exI [of _ 0] exI [of _ "m_sched_point_tree p"] exI [of _ "m_mt_resource_tree p"]) auto
  qed
  then obtain rc t m where
    1: "(if in_mt_resource_tree q then mt_tree_remove (Some a) p else Some (0, p))
      = Some (rc, p\<lparr>m_sched_point_tree := t, m_mt_resource_tree := m\<rparr>)"
    "trees_ok t m" "sp_map t = (sp_map (m_sched_point_tree p))(a \<mapsto> unlink q)"
    by blast
  let ?p = "p\<lparr>m_sched_point_tree := t, m_mt_resource_tree := m\<rparr>"
  have "\<exists>rc t' m'. (if ref_count q \<noteq> 0 then mt_tree_insert (Some a) ?p else Some (0, ?p))
      = Some (rc, p\<lparr>m_sched_point_tree := t', m_mt_resource_tree := m'\<rparr>)
      \<and> trees_ok t' m' \<and> sp_map t' = (sp_map (m_sched_point_tree p))(a \<mapsto> relink q)"
  proof (cases "ref_count q \<noteq> 0")
    case True
    with mt_tree_insert_ok [of ?p a "unlink q"] 1 show ?thesis by (auto simp: relink_def)
  next
    case False
    with 1 show ?thesis by (auto simp: relink_def)
  qed
  then obtain rc' t' m' where
    2: "(if ref_count q \<noteq> 0 then mt_tree_insert (Some a) ?p else Some (0, ?p))
      = Some (rc', p\<lparr>m_sched_point_tree := t', m_mt_resource_tree := m'\<rparr>)"
    "trees_ok t' m'" "sp_map t' = (sp_map (m_sched_point_tree p))(a \<mapsto> relink q)"
    by blast
  let ?p' = "p\<lparr>m_sched_point_tree := t', m_mt_resource_tree := m'\<rparr>"
  have "\<exists>t'' m''. update_mintime_resource_tree as ?p' = Some (?p'\<lparr>m_sched_point_tree := t'', m_mt_resource_tree := m''\<rparr>)
    \<and> trees_ok t'' m'' \<and> sp_map t'' = upd_at (set as) relink (sp_map (m_sched_point_tree ?p'))"
    using Cons.prems 2(2,3) by (intro Cons.IH) simp_all
  then obtain t'' m'' where
    3: "update_mintime_resource_tree as (p\<lparr>m_sched_point_tree := t', m_mt_resource_tree := m'\<rparr>)
       = Some (p\<lparr>m_sched_point_tree := t'', m_mt_resource_tree := m''\<rparr>)"
    "trees_ok t'' m''" "sp_map t'' = upd_at (set as) relink (sp_map t')"
    by auto
  have "sp_map t'' = upd_at (set (a # as)) relink (sp_map (m_sched_point_tree p))"
    using 3(3) 2(3) q Cons.prems(2) by (simp add: upd_at_insert_Some)
  moreover have "get_point a p = Some q" "get_point a ?p = Some (unlink q)"
    using get_point_map [of p a] get_point_map [of ?p a] Cons.prems(1) q 1 by auto
  ultimately show ?case using 1(1) 2(1) 3(1,2) by auto
qed

end
