(* ===== verification/Planner_Inv.thy ===== *)
theory Planner_Inv
  imports Planner_Trees
begin

text \<open>
  The invariant of a planner and what its queries answer. The specification of a planner
  is its list of spans alone: \<open>load\<close> is the quantity planned at a time, and
  \<open>avail\<close> what is left of the total. The invariant ties every scheduled point to
  that specification; the query theorems say that what the trees answer at any time, not
  only at the points, is what the specification says.
\<close>

section \<open>The specification\<close>

definition covers :: "span \<Rightarrow> int \<Rightarrow> bool" where
  "covers s t \<longleftrightarrow> span_start s \<le> t \<and> t < span_last s"

definition load :: "(int, span) omap \<Rightarrow> int \<Rightarrow> int" where
  "load m t = sum_list (map (\<lambda>(k, s). if covers s t then planned s else 0) m)"

definition avail :: "planner \<Rightarrow> int \<Rightarrow> int" where
  "avail p t = m_total_resources p - load (m_span_lookup p) t"

text \<open>How many end points of spans lie at a time.\<close>

definition refs :: "(int, span) omap \<Rightarrow> int \<Rightarrow> int" where
  "refs m a = sum_list (map (\<lambda>(k, s). (if span_start s = a then 1 else 0) + (if span_last s = a then 1 else 0)) m)"

section \<open>The invariant\<close>

definition points_inv :: "(int \<rightharpoonup> scheduled_point) \<Rightarrow> planner \<Rightarrow> bool" where
  "points_inv M p \<longleftrightarrow> (\<forall>a q. M a = Some q \<longrightarrow>
     scheduled q = load (m_span_lookup p) a \<and> remaining q = avail p a \<and> 0 \<le> remaining q
     \<and> resource_rb_remaining q = remaining q
     \<and> ref_count q = refs (m_span_lookup p) a + (if a = m_plan_start p then 1 else 0)
     \<and> 0 < ref_count q \<and> m_plan_start p \<le> a \<and> a \<le> m_plan_end p
     \<and> (in_mt_resource_tree q \<longleftrightarrow> a \<notin> fst ` set (m_avail_time_iter p)))"

definition span_inv :: "(int \<rightharpoonup> scheduled_point) \<Rightarrow> planner \<Rightarrow> int \<Rightarrow> span \<Rightarrow> bool" where
  "span_inv M p k s \<longleftrightarrow> span_id s = k \<and> 0 < k \<and> k \<le> m_span_counter p
     \<and> m_plan_start p \<le> span_start s \<and> span_start s < span_last s \<and> span_last s \<le> m_plan_end p
     \<and> 0 \<le> planned s \<and> in_system s
     \<and> start_p s = Some (span_start s) \<and> last_p s = Some (span_last s)
     \<and> M (span_start s) \<noteq> None \<and> M (span_last s) \<noteq> None"

definition bounds_inv :: "planner \<Rightarrow> bool" where
  "bounds_inv p \<longleftrightarrow> 0 \<le> m_total_resources p \<and> m_total_resources p \<le> int64_max
     \<and> - (2 ^ 63) \<le> m_plan_start p \<and> m_plan_start p < m_plan_end p \<and> m_plan_end p < int64_max
     \<and> 0 \<le> m_span_counter p \<and> m_span_counter p \<le> int64_max"

definition planner_inv :: "planner \<Rightarrow> bool" where
  "planner_inv p \<longleftrightarrow>
     (let M = sp_map (m_sched_point_tree p)
      in trees_ok (m_sched_point_tree p) (m_mt_resource_tree p)
         \<and> points_inv M p \<and> M (m_plan_start p) \<noteq> None \<and> m_p0 p = Some (m_plan_start p)
         \<and> om_ok (m_span_lookup p) \<and> (\<forall>(k, s)\<in>set (m_span_lookup p). span_inv M p k s)
         \<and> om_ok (m_avail_time_iter p)
         \<and> (\<forall>(a, pt)\<in>set (m_avail_time_iter p). pt = Some a \<and> M a \<noteq> None)
         \<and> bounds_inv p)"

lemma planner_invD:
  assumes "planner_inv p"
  shows "trees_ok (m_sched_point_tree p) (m_mt_resource_tree p)"
    and "points_inv (sp_map (m_sched_point_tree p)) p"
    and "sp_map (m_sched_point_tree p) (m_plan_start p) \<noteq> None"
    and "m_p0 p = Some (m_plan_start p)"
    and "om_ok (m_span_lookup p)"
    and "\<And>k s. (k, s) \<in> set (m_span_lookup p) \<Longrightarrow> span_inv (sp_map (m_sched_point_tree p)) p k s"
    and "om_ok (m_avail_time_iter p)"
    and "\<And>a pt. (a, pt) \<in> set (m_avail_time_iter p) \<Longrightarrow> pt = Some a \<and> sp_map (m_sched_point_tree p) a \<noteq> None"
    and "bounds_inv p"
    and "sp_ok (m_sched_point_tree p)"
  using assms by (auto simp: planner_inv_def Let_def trees_ok_def)

lemma points_invD:
  assumes "points_inv M p" and "M a = Some q"
  shows "scheduled q = load (m_span_lookup p) a" "remaining q = avail p a" "0 \<le> remaining q"
    "resource_rb_remaining q = remaining q"
    "ref_count q = refs (m_span_lookup p) a + (if a = m_plan_start p then 1 else 0)" "0 < ref_count q"
    "m_plan_start p \<le> a" "a \<le> m_plan_end p"
    "in_mt_resource_tree q \<longleftrightarrow> a \<notin> fst ` set (m_avail_time_iter p)"
  using assms unfolding points_inv_def by blast+

lemma refs_nonneg: "0 \<le> refs m a"
  by (auto simp: refs_def intro!: sum_list_nonneg)

section \<open>Walking from the state in force\<close>

lemma get_state_exists:
  assumes "sp_ok t" and "sp_map t a \<noteq> None" and "a \<le> tm"
  shows "\<exists>q. get_state tm t = Some q"
proof -
  from assms(2) obtain q where "q \<in> set (inorder t)" "at q = a" by (auto simp: sp_map_None)
  with assms(3) have "get_state tm t \<noteq> None" unfolding get_state_None [OF assms(1)] by (metis not_le)
  then show ?thesis by blast
qed

lemma walk_from_state:
  assumes "sp_ok (m_sched_point_tree p)" and "get_state tm (m_sched_point_tree p) = Some q"
  shows "walk_from (Some q) p = filter (\<lambda>x. at q \<le> at x) (inorder (m_sched_point_tree p))"
proof -
  from assms have "q \<in> set (inorder (m_sched_point_tree p))" by (simp add: get_state_Some)
  then have "sp_map (m_sched_point_tree p) (at q) \<noteq> None" by (auto simp: sp_map_None)
  with sp_from_filter [OF assms(1)] show ?thesis by (simp add: walk_from_def)
qed

lemma sorted_walk:
  assumes "sp_ok t"
  shows "sorted_wrt (<) (map at (filter P (inorder t)))"
  using assms by (simp add: sp_ok_def sorted_wrt_map sorted_wrt_filter)

lemma overlap_loop_filter:
  assumes "sorted_wrt (<) (map at qs)"
  shows "overlap_loop tm e qs = map at (filter (\<lambda>q. tm \<le> at q \<and> at q < e) qs)"
  using assms
proof (induction qs)
  case (Cons q qs)
  show ?case
  proof (cases "at q \<ge> e")
    case True
    with Cons.prems have "\<forall>x\<in>set (q # qs). \<not> at x < e" by auto
    then have "filter (\<lambda>q. tm \<le> at q \<and> at q < e) (q # qs) = []" unfolding filter_empty_conv by blast
    with True show ?thesis by (simp only: overlap_loop.simps) simp
  qed (use Cons in auto)
qed simp

lemma avail_during_loop_iff:
  assumes "sorted_wrt (<) (map at qs)"
  shows "avail_during_loop e r qs = (if \<forall>q\<in>set qs. at q < e \<longrightarrow> r \<le> remaining q then Inr () else Inl EBUSY)"
  using assms
proof (induction qs)
  case (Cons q qs)
  then show ?case by (cases "at q \<ge> e") force+
qed simp

lemma span_ok_loop_iff:
  assumes "sorted_wrt (<) (map at qs)"
  shows "span_ok_loop e r qs \<longleftrightarrow> (\<forall>q\<in>set qs. at q < e \<longrightarrow> r \<le> remaining q)"
  using assms
proof (induction qs)
  case (Cons q qs)
  then show ?case by (cases "at q \<ge> e") force+
qed simp

lemma min_point_loop_ok:
  assumes "sorted_wrt (<) (map at qs)"
  shows "(min_point_loop e m qs = m \<or> min_point_loop e m qs \<in> set qs \<and> at (min_point_loop e m qs) < e)
    \<and> remaining (min_point_loop e m qs) \<le> remaining m
    \<and> (\<forall>q\<in>set qs. at q < e \<longrightarrow> remaining (min_point_loop e m qs) \<le> remaining q)"
  using assms
proof (induction qs arbitrary: m)
  case (Cons q qs)
  show ?case
  proof (cases "at q \<ge> e")
    case True
    with Cons.prems show ?thesis by force
  next
    case False
    with Cons.IH [of "if remaining m > remaining q then q else m"] Cons.prems show ?thesis
      by (auto split: if_splits)
  qed
qed simp

section \<open>The load between points\<close>

definition ends_in :: "(int, span) omap \<Rightarrow> (int \<rightharpoonup> scheduled_point) \<Rightarrow> bool" where
  "ends_in S M \<longleftrightarrow> (\<forall>(k, s)\<in>set S. M (span_start s) \<noteq> None \<and> M (span_last s) \<noteq> None)"

lemma load_at_state:
  assumes "sp_ok t" and "get_state tm t = Some q"
    and "ends_in m (sp_map t)"
  shows "load m tm = load m (at q)"
proof -
  have q: "at q \<le> tm" "\<And>a. sp_map t a \<noteq> None \<Longrightarrow> a \<le> tm \<Longrightarrow> a \<le> at q"
    using assms(1,2) by (auto simp: get_state_Some sp_map_iff)
  have "covers s tm \<longleftrightarrow> covers s (at q)" if "(k, s) \<in> set m" for k s
  proof -
    from assms(3) that have "sp_map t (span_start s) \<noteq> None" "sp_map t (span_last s) \<noteq> None"
      by (auto simp: ends_in_def)
    with q(1) q(2) [of "span_start s"] q(2) [of "span_last s"] show ?thesis
      unfolding covers_def by (meson not_le order_trans order_le_less_trans)
  qed
  then show ?thesis by (auto simp: load_def intro!: arg_cong [where f = sum_list])
qed

lemma inv_state:
  assumes "planner_inv p" and "m_plan_start p \<le> tm"
  obtains q where "get_state tm (m_sched_point_tree p) = Some q" "remaining q = avail p tm"
    "scheduled q = load (m_span_lookup p) tm"
proof -
  note inv = planner_invD [OF assms(1)]
  from get_state_exists [OF inv(10) inv(3) assms(2)] obtain q where q: "get_state tm (m_sched_point_tree p) = Some q"
    by blast
  then have "sp_map (m_sched_point_tree p) (at q) = Some q"
    using inv(10) by (simp add: get_state_Some sp_map_iff)
  note pq = points_invD [OF inv(2) this]
  have "load (m_span_lookup p) tm = load (m_span_lookup p) (at q)"
    using inv(10) q by (rule load_at_state) (use inv(6) in \<open>auto simp: span_inv_def ends_in_def\<close>)
  with pq q that show thesis by (auto simp: avail_def)
qed

text \<open>The points seen by a walk over an interval stand for all its times.\<close>

lemma walk_times:
  assumes "planner_inv p" and "m_plan_start p \<le> tm" and "get_state tm (m_sched_point_tree p) = Some q" and "tm < e"
  shows "(\<forall>x\<in>set (walk_from (Some q) p). at x < e \<longrightarrow> P (remaining x)) \<longleftrightarrow> (\<forall>u. tm \<le> u \<and> u < e \<longrightarrow> P (avail p u))"
proof -
  note inv = planner_invD [OF assms(1)]
  have q: "q \<in> set (inorder (m_sched_point_tree p))" "at q \<le> tm"
    "\<forall>x\<in>set (inorder (m_sched_point_tree p)). at x \<le> tm \<longrightarrow> at x \<le> at q"
    using assms(3) inv(10) by (auto simp: get_state_Some)
  have w: "set (walk_from (Some q) p) = {x \<in> set (inorder (m_sched_point_tree p)). at q \<le> at x}"
    using walk_from_state [OF inv(10) assms(3)] by auto
  show ?thesis
  proof safe
    fix u assume *: "\<forall>x\<in>set (walk_from (Some q) p). at x < e \<longrightarrow> P (remaining x)" "tm \<le> u" "u < e"
    from assms(2) *(2) have "m_plan_start p \<le> u" by simp
    from inv_state [OF assms(1) this] obtain x where x: "get_state u (m_sched_point_tree p) = Some x" "remaining x = avail p u"
      by blast
    then have "x \<in> set (inorder (m_sched_point_tree p))" "at x \<le> u" "at q \<le> at x"
      using inv(10) q *(2) by (auto simp: get_state_Some)
    with *(1,3) w x(2) show "P (avail p u)" by auto
  next
    fix x assume *: "\<forall>u. tm \<le> u \<and> u < e \<longrightarrow> P (avail p u)" "x \<in> set (walk_from (Some q) p)" "at x < e"
    then have x: "x \<in> set (inorder (m_sched_point_tree p))" "at q \<le> at x" using w by auto
    then have px: "remaining x = avail p (at x)"
      using points_invD(2) [OF inv(2)] inv(10) by (simp add: sp_map_iff)
    show "P (remaining x)"
    proof (cases "tm \<le> at x")
      case True
      with * px show ?thesis by auto
    next
      case False
      with q x have "at x = at q" by force
      then have "get_state tm (m_sched_point_tree p) = Some x"
        using sp_unique [OF inv(10) x(1) q(1)] assms(3) by simp
      with inv_state [OF assms(1,2)] have "remaining x = avail p tm" by (metis option.inject)
      with * assms(4) show ?thesis by auto
    qed
  qed
qed

section \<open>What the queries answer\<close>

lemma i64_sum:
  assumes "- (2 ^ 63) \<le> tm" "0 \<le> d" "tm + d \<le> int64_max"
  shows "i64 (tm + d) = tm + d"
  using assms by (intro i64_id) (auto simp: is_i64_def int64_max_def)

lemma i64_dur: "0 \<le> d \<Longrightarrow> d \<le> int64_max \<Longrightarrow> i64 d = d"
  by (rule i64_small)

lemma avail_resources_at_eq:
  assumes "planner_inv p" and "m_plan_start p \<le> tm" and "tm \<le> m_plan_end p"
  shows "planner_avail_resources_at (Some p) tm = Inr (avail p tm)"
proof -
  from inv_state [OF assms(1,2)] obtain q where "get_state tm (m_sched_point_tree p) = Some q" "remaining q = avail p tm"
    by blast
  with assms(2,3) show ?thesis by (simp add: planner_avail_resources_at_def sp_tree_get_state_def)
qed

lemma avail_during_eq:
  assumes "planner_inv p" and "m_plan_start p \<le> tm" and "1 \<le> d" and "d \<le> int64_max" and "tm + d \<le> int64_max"
  shows "avail_during tm d r p =
    (if m_plan_end p < tm + d then Inl ERANGE
     else if \<forall>u. tm \<le> u \<and> u < tm + d \<longrightarrow> r \<le> avail p u then Inr ()
     else Inl EBUSY)"
proof -
  note inv = planner_invD [OF assms(1)]
  from inv_state [OF assms(1,2)] obtain q where q: "get_state tm (m_sched_point_tree p) = Some q"
    by blast
  have "- (2 ^ 63) \<le> tm" using inv(9) assms(2) by (auto simp: bounds_inv_def)
  then have i: "i64 (tm + d) = tm + d" "i64 d = d" using assms by (auto simp: i64_sum i64_dur)
  have "sorted_wrt (<) (map at (walk_from (Some q) p))"
    using walk_from_state [OF inv(10) q] sorted_walk [OF inv(10)] by simp
  from avail_during_loop_iff [OF this] walk_times [OF assms(1,2) q, of "tm + d" "\<lambda>v. r \<le> v"] assms(3)
  show ?thesis by (simp add: avail_during_def i q sp_tree_get_state_def)
qed

lemma avail_resources_during_ok:
  assumes "planner_inv p" and "m_plan_start p \<le> tm" and "1 \<le> d" and "tm + d \<le> m_plan_end p" and "d \<le> int64_max"
  shows "\<exists>v. planner_avail_resources_during (Some p) tm d = Inr v
    \<and> (\<forall>u. tm \<le> u \<and> u < tm + d \<longrightarrow> v \<le> avail p u) \<and> (\<exists>u. tm \<le> u \<and> u < tm + d \<and> v = avail p u)"
proof -
  note inv = planner_invD [OF assms(1)]
  from inv_state [OF assms(1,2)] obtain q where q: "get_state tm (m_sched_point_tree p) = Some q" "remaining q = avail p tm"
    by blast
  have b: "- (2 ^ 63) \<le> tm" "tm + d \<le> int64_max" using inv(9) assms(2,4) by (auto simp: bounds_inv_def)
  then have i: "i64 (tm + d) = tm + d" "i64 d = d" using assms by (auto simp: i64_sum i64_dur)
  have w: "sorted_wrt (<) (map at (walk_from (Some q) p))"
    using walk_from_state [OF inv(10) q(1)] sorted_walk [OF inv(10)] by simp
  let ?v = "min_point_loop (tm + d) q (walk_from (Some q) p)"
  note m = min_point_loop_ok [OF w, of "tm + d" q]
  have "planner_avail_resources_during (Some p) tm d = Inr (remaining ?v)"
    using assms(3,4) q i by (simp add: planner_avail_resources_during_def avail_resources_during_def sp_tree_get_state_def)
  moreover have "\<forall>u. tm \<le> u \<and> u < tm + d \<longrightarrow> remaining ?v \<le> avail p u"
    using walk_times [OF assms(1,2) q(1), of "tm + d" "\<lambda>v. remaining ?v \<le> v"] m assms(3) by auto
  moreover have "\<not> (\<forall>u. tm \<le> u \<and> u < tm + d \<longrightarrow> remaining ?v \<noteq> avail p u)"
  proof (cases "?v = q")
    case True
    with q(2) assms(3) show ?thesis by auto
  next
    case False
    with m have "?v \<in> set (walk_from (Some q) p)" "at ?v < tm + d" by auto
    then show ?thesis
      using walk_times [OF assms(1,2) q(1), of "tm + d" "\<lambda>v. remaining ?v \<noteq> v"] assms(3) by auto
  qed
  ultimately show ?thesis by auto
qed

end
