(* ===== verification/Planner_Spans.thy ===== *)
theory Planner_Spans
  imports Planner_Inv
begin

text \<open>
  Adding, removing and reducing spans. Each proof follows the code: restore the tracked
  points, make or release the end points, change the quantities between them, relink the
  changed points in the min-time tree. The facts about a single step speak of the map
  \<open>M\<close> from times to points; \<open>pts M S T R\<close> says that the points of \<open>M\<close> show the
  load of the spans \<open>S\<close> against the total \<open>T\<close>, are linked with fresh quantities, and
  are counted by \<open>R\<close>.
\<close>

section \<open>Loads and reference counts under changes of the span list\<close>

lemma load_assign_new:
  assumes "om_ok S" and "om_find k S = None"
  shows "load (om_assign k s S) t = load S t + (if covers s t then planned s else 0)"
  using sum_list_assign_new [OF assms, of "\<lambda>(k, s). if covers s t then planned s else 0" s] by (simp add: load_def)

lemma load_assign_old:
  assumes "om_ok S" and "om_find k S = Some u"
  shows "load (om_assign k s S) t =
    load S t - (if covers u t then planned u else 0) + (if covers s t then planned s else 0)"
  using sum_list_assign_old [OF assms, of "\<lambda>(k, s). if covers s t then planned s else 0" s] by (simp add: load_def)

lemma load_erase:
  assumes "om_ok S" and "om_find k S = Some s"
  shows "load (om_erase k S) t = load S t - (if covers s t then planned s else 0)"
  using sum_list_erase [OF assms, of "\<lambda>(k, s). if covers s t then planned s else 0"] by (simp add: load_def)

definition ends_at :: "span \<Rightarrow> int \<Rightarrow> int" where
  "ends_at s a = (if span_start s = a then 1 else 0) + (if span_last s = a then 1 else 0)"

lemma refs_ends: "refs S a = sum_list (map (\<lambda>(k, s). ends_at s a) S)"
  by (simp add: refs_def ends_at_def)

lemma refs_assign_new:
  assumes "om_ok S" and "om_find k S = None"
  shows "refs (om_assign k s S) a = refs S a + ends_at s a"
  using sum_list_assign_new [OF assms, of "\<lambda>(k, s). ends_at s a" s] by (simp add: refs_ends)

lemma refs_assign_old:
  assumes "om_ok S" and "om_find k S = Some u" and "span_start s = span_start u" and "span_last s = span_last u"
  shows "refs (om_assign k s S) a = refs S a"
  using sum_list_assign_old [OF assms(1,2), of "\<lambda>(k, s). ends_at s a" s] assms(3,4) by (simp add: refs_ends ends_at_def)

lemma refs_erase:
  assumes "om_ok S" and "om_find k S = Some s"
  shows "refs (om_erase k S) a = refs S a - ends_at s a"
  using sum_list_erase [OF assms, of "\<lambda>(k, s). ends_at s a"] by (simp add: refs_ends)

lemma refs_zero: "ends_in S M \<Longrightarrow> M a = None \<Longrightarrow> refs S a = 0"
  by (induction S) (auto simp: refs_def ends_in_def)

lemma load_nonneg: "(\<And>k s. (k, s) \<in> set S \<Longrightarrow> 0 \<le> planned s) \<Longrightarrow> 0 \<le> load S t"
  by (auto simp: load_def intro!: sum_list_nonneg)

lemma load_zero: "\<forall>(k, s)\<in>set S. \<not> covers s t \<Longrightarrow> load S t = 0"
  unfolding load_def by (induction S) auto

lemma planned_le_load:
  assumes "\<And>k s. (k, s) \<in> set S \<Longrightarrow> 0 \<le> planned s" and "om_ok S" and "om_find k S = Some s" and "covers s t"
  shows "planned s \<le> load S t"
proof -
  have "0 \<le> load (om_erase k S) t" using assms(1) by (intro load_nonneg) (auto simp: set_om_erase)
  with load_erase [OF assms(2,3), of t] assms(4) show ?thesis by simp
qed

lemma modify_span_assign:
  assumes "om_ok (m_span_lookup p)" and "om_find k (m_span_lookup p) = Some s"
  shows "modify_span k f p = p\<lparr>m_span_lookup := om_assign k (f s) (m_span_lookup p)\<rparr>"
proof -
  have "map (\<lambda>(j, s). (j, if j = k then f s else s)) m = om_assign k (f s) m"
    if "om_ok m" "om_find k m = Some s" for m
    using that
  proof (induction m)
    case (Cons a m)
    obtain j w where a: "a = (j, w)" by fastforce
    show ?case
    proof (cases "j = k")
      case True
      with Cons.prems a have "\<forall>(i, v)\<in>set m. i \<noteq> k" by (auto simp: om_ok_Cons)
      then have "map (\<lambda>(j, s). (j, if j = k then f s else s)) m = m" by (auto intro!: map_idI)
      with True a Cons.prems show ?thesis by (simp add: om_find_def)
    next
      case False
      with Cons.prems a have "om_find k m = Some s" by (auto simp: om_find_def)
      moreover from this Cons.prems a have "j < k" by (force simp: om_find_Some_iff om_ok_Cons)
      ultimately show ?thesis using Cons False a by (simp add: om_ok_Cons)
    qed
  qed (simp add: om_find_def)
  with assms show ?thesis by (simp add: modify_span_def)
qed

lemma om_erase_modify: "om_erase k (map (\<lambda>(j, s). (j, if j = k then f s else s)) m) = om_erase k m"
  by (induction m) (auto simp: om_erase_def)

section \<open>Points that show a list of spans\<close>

definition pt_shows :: "(int, span) omap \<Rightarrow> int \<Rightarrow> int \<Rightarrow> scheduled_point \<Rightarrow> bool" where
  "pt_shows S T a q \<longleftrightarrow> scheduled q = load S a \<and> remaining q = T - load S a \<and> load S a \<le> T"

definition pt_fresh :: "scheduled_point \<Rightarrow> bool" where
  "pt_fresh q \<longleftrightarrow> in_mt_resource_tree q \<and> resource_rb_remaining q = remaining q"

definition pts :: "(int \<rightharpoonup> scheduled_point) \<Rightarrow> (int, span) omap \<Rightarrow> int \<Rightarrow> (int \<Rightarrow> int) \<Rightarrow> bool" where
  "pts M S T R \<longleftrightarrow> (\<forall>a q. M a = Some q \<longrightarrow> pt_shows S T a q \<and> pt_fresh q \<and> ref_count q = R a)"

text \<open>The invariant of a planner none of whose points is tracked, in these terms.\<close>

lemma planner_inv_untracked:
  assumes "m_avail_time_iter p = []"
  shows "planner_inv p \<longleftrightarrow>
    (let M = sp_map (m_sched_point_tree p); S = m_span_lookup p
     in trees_ok (m_sched_point_tree p) (m_mt_resource_tree p)
        \<and> pts M S (m_total_resources p) (\<lambda>a. refs S a + (if a = m_plan_start p then 1 else 0))
        \<and> (\<forall>a. M a \<noteq> None \<longrightarrow> 0 < refs S a + (if a = m_plan_start p then 1 else 0)
              \<and> m_plan_start p \<le> a \<and> a \<le> m_plan_end p)
        \<and> M (m_plan_start p) \<noteq> None \<and> m_p0 p = Some (m_plan_start p)
        \<and> om_ok S \<and> (\<forall>(k, s)\<in>set S. span_inv M p k s) \<and> bounds_inv p)"
proof -
  have "points_inv M p \<longleftrightarrow> pts M (m_span_lookup p) (m_total_resources p) (\<lambda>a. refs (m_span_lookup p) a + (if a = m_plan_start p then 1 else 0))
      \<and> (\<forall>a. M a \<noteq> None \<longrightarrow> 0 < refs (m_span_lookup p) a + (if a = m_plan_start p then 1 else 0)
              \<and> m_plan_start p \<le> a \<and> a \<le> m_plan_end p)" for M
  proof -
    have "(\<forall>a. M a \<noteq> None \<longrightarrow> B a) \<longleftrightarrow> (\<forall>a q. M a = Some q \<longrightarrow> B a)" for B by auto
    then show ?thesis
      unfolding points_inv_def pts_def pt_shows_def pt_fresh_def avail_def assms
      by (simp only: list.set image_empty empty_iff not_False_eq_True simp_thms) (intro iffI conjI allI impI; metis diff_ge_0_iff_ge)
  qed
  with assms show ?thesis by (simp add: planner_inv_def Let_def)
qed

lemma planner_invI:
  assumes "m_avail_time_iter p = []" and "trees_ok (m_sched_point_tree p) (m_mt_resource_tree p)"
    and "pts (sp_map (m_sched_point_tree p)) (m_span_lookup p) (m_total_resources p)
           (\<lambda>a. refs (m_span_lookup p) a + (if a = m_plan_start p then 1 else 0))"
    and "\<And>a. sp_map (m_sched_point_tree p) a \<noteq> None \<Longrightarrow>
      0 < refs (m_span_lookup p) a + (if a = m_plan_start p then 1 else 0) \<and> m_plan_start p \<le> a \<and> a \<le> m_plan_end p"
    and "sp_map (m_sched_point_tree p) (m_plan_start p) \<noteq> None" "m_p0 p = Some (m_plan_start p)"
    and "om_ok (m_span_lookup p)"
    and "\<And>k s. (k, s) \<in> set (m_span_lookup p) \<Longrightarrow> span_inv (sp_map (m_sched_point_tree p)) p k s"
    and "bounds_inv p"
  shows "planner_inv p"
  using assms unfolding planner_inv_untracked [OF assms(1)] Let_def by blast

section \<open>Restoring the tracked points\<close>

lemma restore_ok:
  assumes "trees_ok (m_sched_point_tree p) (m_mt_resource_tree p)" and "om_ok (m_avail_time_iter p)"
    and "\<And>a pt. (a, pt) \<in> set (m_avail_time_iter p) \<Longrightarrow>
      pt = Some a \<and> (\<exists>q. sp_map (m_sched_point_tree p) a = Some q \<and> \<not> in_mt_resource_tree q)"
  shows "\<exists>t m. restore_track_points p
      = Some (0, p\<lparr>m_sched_point_tree := t, m_mt_resource_tree := m, m_avail_time_iter := []\<rparr>)
    \<and> trees_ok t m \<and> sp_map t = upd_at (fst ` set (m_avail_time_iter p)) link (sp_map (m_sched_point_tree p))"
proof -
  have "\<forall>(a, pt)\<in>set (m_avail_time_iter p).
      pt = Some a \<and> (\<exists>q. sp_map (m_sched_point_tree p) a = Some q \<and> \<not> in_mt_resource_tree q)"
    using assms(3) by auto
  from restore_loop_ok [OF assms(1) om_ok_distinct [OF assms(2)] this] obtain t m where
    "restore_loop (m_avail_time_iter p) p = Some (0, p\<lparr>m_sched_point_tree := t, m_mt_resource_tree := m\<rparr>)"
    "trees_ok t m" "sp_map t = upd_at (fst ` set (m_avail_time_iter p)) link (sp_map (m_sched_point_tree p))"
    by blast
  then show ?thesis
    by (intro exI [of _ t] exI [of _ m]) (simp add: restore_track_points_def)
qed

lemma restore_inv:
  assumes "planner_inv p"
    and "m_sched_point_tree p' = m_sched_point_tree p" "m_mt_resource_tree p' = m_mt_resource_tree p"
    "m_avail_time_iter p' = m_avail_time_iter p"
  shows "\<exists>t m. restore_track_points p'
      = Some (0, p'\<lparr>m_sched_point_tree := t, m_mt_resource_tree := m, m_avail_time_iter := []\<rparr>)
    \<and> planner_inv (p\<lparr>m_sched_point_tree := t, m_mt_resource_tree := m, m_avail_time_iter := []\<rparr>)
    \<and> dom (sp_map t) = dom (sp_map (m_sched_point_tree p))"
proof -
  note inv = planner_invD [OF assms(1)]
  let ?M = "sp_map (m_sched_point_tree p)" and ?A = "fst ` set (m_avail_time_iter p)"
  have "\<exists>t m. restore_track_points p' = Some (0, p'\<lparr>m_sched_point_tree := t, m_mt_resource_tree := m, m_avail_time_iter := []\<rparr>)
    \<and> trees_ok t m \<and> sp_map t = upd_at (fst ` set (m_avail_time_iter p')) link (sp_map (m_sched_point_tree p'))"
  proof (rule restore_ok)
    fix a pt assume "(a, pt) \<in> set (m_avail_time_iter p')"
    then have a: "(a, pt) \<in> set (m_avail_time_iter p)" by (simp add: assms)
    from inv(8) [OF this] obtain q where q: "pt = Some a" "?M a = Some q" by blast
    with points_invD(9) [OF inv(2) q(2)] a show "pt = Some a \<and> (\<exists>q. sp_map (m_sched_point_tree p') a = Some q \<and> \<not> in_mt_resource_tree q)"
      by (force simp: assms)
  qed (use inv in \<open>simp_all add: assms\<close>)
  then obtain t m where r: "restore_track_points p' = Some (0, p'\<lparr>m_sched_point_tree := t, m_mt_resource_tree := m, m_avail_time_iter := []\<rparr>)"
    "trees_ok t m" and t: "sp_map t = upd_at ?A link ?M"
    by (auto simp: assms)
  let ?p = "p\<lparr>m_sched_point_tree := t, m_mt_resource_tree := m, m_avail_time_iter := []\<rparr>"
  have P: "points_inv (sp_map t) ?p"
    unfolding points_inv_def
  proof (intro allI impI)
    fix a q assume "sp_map t a = Some q"
    then obtain q' where q': "?M a = Some q'" "q = (if a \<in> ?A then link q' else q')"
      using t by (auto simp: upd_at_def split: if_splits)
    note P = points_invD [OF inv(2) q'(1)]
    show "scheduled q = load (m_span_lookup ?p) a \<and> remaining q = avail ?p a \<and> 0 \<le> remaining q \<and> resource_rb_remaining q = remaining q
      \<and> ref_count q = refs (m_span_lookup ?p) a + (if a = m_plan_start ?p then 1 else 0) \<and> 0 < ref_count q
      \<and> m_plan_start ?p \<le> a \<and> a \<le> m_plan_end ?p \<and> (in_mt_resource_tree q \<longleftrightarrow> a \<notin> fst ` set (m_avail_time_iter ?p))"
      using P q'(2) by (cases "a \<in> ?A") (simp_all add: avail_def)
  qed
  have d: "sp_map t a = None \<longleftrightarrow> ?M a = None" for a using t by simp
  have "span_inv (sp_map t) ?p k s" if "(k, s) \<in> set (m_span_lookup p)" for k s
    using inv(6) [OF that] d by (auto simp: span_inv_def)
  then have "planner_inv ?p"
    using r(2) P inv(3,4,5,9) d [of "m_plan_start p"]
    by (auto simp: planner_inv_def bounds_inv_def Let_def simp del: not_None_eq)
  moreover have "dom (sp_map t) = dom ?M" using d by (auto simp: dom_def)
  ultimately show ?thesis using r(1) by blast
qed

text \<open>A restored planner, in the terms the proofs below work with.\<close>

lemma inv_restored:
  assumes "planner_inv p"
    and "m_sched_point_tree p' = m_sched_point_tree p" "m_mt_resource_tree p' = m_mt_resource_tree p"
    "m_avail_time_iter p' = m_avail_time_iter p"
  obtains t m where "restore_track_points p' = Some (0, p'\<lparr>m_sched_point_tree := t, m_mt_resource_tree := m, m_avail_time_iter := []\<rparr>)"
    and "trees_ok t m"
    and "pts (sp_map t) (m_span_lookup p) (m_total_resources p) (\<lambda>a. refs (m_span_lookup p) a + (if a = m_plan_start p then 1 else 0))"
    and "\<And>a. sp_map t a \<noteq> None \<Longrightarrow>
      0 < refs (m_span_lookup p) a + (if a = m_plan_start p then 1 else 0) \<and> m_plan_start p \<le> a \<and> a \<le> m_plan_end p"
    and "sp_map t (m_plan_start p) \<noteq> None"
    and "\<And>k s. (k, s) \<in> set (m_span_lookup p) \<Longrightarrow> span_inv (sp_map t) p k s"
proof -
  obtain t m where r: "restore_track_points p' = Some (0, p'\<lparr>m_sched_point_tree := t, m_mt_resource_tree := m, m_avail_time_iter := []\<rparr>)"
    and rinv: "planner_inv (p\<lparr>m_sched_point_tree := t, m_mt_resource_tree := m, m_avail_time_iter := []\<rparr>)"
    using restore_inv [OF assms] by blast
  show thesis
    by (rule that [OF r]) (use rinv in \<open>auto simp: planner_inv_untracked Let_def span_inv_def\<close>)
qed

lemma span_extent:
  assumes "span_inv M p k s" and "bounds_inv p"
  shows "u64 (span_last s - span_start s) = span_last s - span_start s"
    and "i64 (span_start s + u64 (span_last s - span_start s)) = span_last s"
proof -
  have "is_u64 (span_last s - span_start s)" and i: "is_i64 (span_last s)"
    using assms by (auto simp: span_inv_def bounds_inv_def is_u64_def is_i64_def int64_max_def)
  then show d: "u64 (span_last s - span_start s) = span_last s - span_start s" by (simp add: u64_id)
  from i show "i64 (span_start s + u64 (span_last s - span_start s)) = span_last s"
    unfolding d by (simp add: i64_id)
qed

section \<open>End points\<close>

lemma get_or_new_ok:
  assumes "trees_ok (m_sched_point_tree p) (m_mt_resource_tree p)" and "pts (sp_map (m_sched_point_tree p)) S T R"
    and "ends_in S (sp_map (m_sched_point_tree p))"
    and "sp_map (m_sched_point_tree p) b \<noteq> None" "b \<le> tm"
    and "sp_map (m_sched_point_tree p) tm = None \<Longrightarrow> R tm = 0"
  shows "\<exists>t m. get_or_new_point tm p = Some (Inr tm, p\<lparr>m_sched_point_tree := t, m_mt_resource_tree := m\<rparr>)
    \<and> trees_ok t m \<and> pts (sp_map t) S T R \<and> dom (sp_map t) = insert tm (dom (sp_map (m_sched_point_tree p)))"
proof -
  let ?t = "m_sched_point_tree p"
  have sp: "sp_ok ?t" using assms(1) by (simp add: trees_ok_def)
  show ?thesis
  proof (cases "sp_map ?t tm = None")
    case False
    then have "get_or_new_point tm p = Some (Inr tm, p)"
      by (auto simp: get_or_new_point_def sp_tree_search_def sp_search_map [OF sp])
    with assms(1,2) False show ?thesis
      by (intro exI [of _ ?t] exI [of _ "m_mt_resource_tree p"]) auto
  next
    case True
    from get_state_exists [OF sp assms(4,5)] obtain st where st: "get_state tm ?t = Some st" by blast
    then have "sp_map ?t (at st) = Some st" using sp by (simp add: get_state_Some sp_map_iff)
    with assms(2) load_at_state [OF sp st assms(3)] have sh: "pt_shows S T tm st"
      by (auto simp: pts_def pt_shows_def)
    let ?n = "zero_point\<lparr>at := tm, in_mt_resource_tree := False, new_point := True, ref_count := 0,
      scheduled := scheduled st, remaining := remaining st\<rparr>"
    from sp_tree_insert_ok [OF assms(1), of ?n] True obtain t1 where
      1: "sp_tree_insert ?n p = Some (0, p\<lparr>m_sched_point_tree := t1\<rparr>)" "trees_ok t1 (m_mt_resource_tree p)"
      "sp_map t1 = (sp_map ?t)(tm \<mapsto> ?n)"
      by auto
    from mt_tree_insert_ok [of "p\<lparr>m_sched_point_tree := t1\<rparr>" tm ?n] 1 obtain t m where
      2: "mt_tree_insert (Some tm) (p\<lparr>m_sched_point_tree := t1\<rparr>) = Some (0, p\<lparr>m_sched_point_tree := t, m_mt_resource_tree := m\<rparr>)"
      "trees_ok t m" "sp_map t = (sp_map t1)(tm \<mapsto> link ?n)"
      by auto
    have "sp_map t = (sp_map ?t)(tm \<mapsto> link ?n)" using 2(3) 1(3) by simp
    moreover from this have "pts (sp_map t) S T R"
      using assms(2,6) sh True by (auto simp: pts_def pt_shows_def pt_fresh_def)
    moreover have "get_or_new_point tm p = Some (Inr tm, p\<lparr>m_sched_point_tree := t, m_mt_resource_tree := m\<rparr>)"
      using True st 1(1) 2(1) by (simp add: get_or_new_point_def sp_tree_search_def sp_tree_get_state_def sp_search_map [OF sp])
    ultimately show ?thesis using 2(2) by (intro exI [of _ t] exI [of _ m]) simp
  qed
qed

lemma pts_modify_ref:
  assumes "trees_ok t m" and "pts (sp_map t) S T R" and "sp_map t a \<noteq> None"
  shows "trees_ok (sp_modify a (\<lambda>q. q\<lparr>ref_count := ref_count q + c\<rparr>) t) m"
    and "pts (sp_map (sp_modify a (\<lambda>q. q\<lparr>ref_count := ref_count q + c\<rparr>) t)) S T (R(a := R a + c))"
    and "dom (sp_map (sp_modify a (\<lambda>q. q\<lparr>ref_count := ref_count q + c\<rparr>) t)) = dom (sp_map t)"
proof -
  have "keeps_link (\<lambda>q. q\<lparr>ref_count := ref_count q + c\<rparr>)" by (simp add: keeps_link_def)
  note t = trees_ok_modify [OF assms(1) this, of a]
  show "trees_ok (sp_modify a (\<lambda>q. q\<lparr>ref_count := ref_count q + c\<rparr>) t) m" by (rule t)
  show "pts (sp_map (sp_modify a (\<lambda>q. q\<lparr>ref_count := ref_count q + c\<rparr>) t)) S T (R(a := R a + c))"
    using assms(2) by (auto simp: t(2) pts_def pt_shows_def pt_fresh_def)
  show "dom (sp_map (sp_modify a (\<lambda>q. q\<lparr>ref_count := ref_count q + c\<rparr>) t)) = dom (sp_map t)"
    using assms(3) by (auto simp: t(2))
qed

lemma pts_ref: "pts M S T R \<Longrightarrow> M a = Some q \<Longrightarrow> ref_count q = R a"
  by (simp add: pts_def)

lemma pts_decr_ref:
  assumes "trees_ok t m" and "pts (sp_map t) S T R" and "sp_map t a \<noteq> None"
  shows "trees_ok (sp_modify a decr_ref t) m" and "pts (sp_map (sp_modify a decr_ref t)) S T (R(a := R a - 1))"
    and "dom (sp_map (sp_modify a decr_ref t)) = dom (sp_map t)"
  using pts_modify_ref [OF assms, of "- 1"] by simp_all

text \<open>Making and counting both end points of a span.\<close>

lemma end_points_ok:
  assumes "trees_ok (m_sched_point_tree p) (m_mt_resource_tree p)" and "pts (sp_map (m_sched_point_tree p)) S T R"
    and "ends_in S (sp_map (m_sched_point_tree p))"
    and "sp_map (m_sched_point_tree p) b \<noteq> None" "b \<le> s" "s < e"
    and "\<And>a. sp_map (m_sched_point_tree p) a = None \<Longrightarrow> R a = 0"
  shows "\<exists>p1 p2 t m. get_or_new_point s p = Some (Inr s, p1)
    \<and> get_or_new_point e (modify_point s incr_ref p1) = Some (Inr e, p2)
    \<and> modify_point e incr_ref p2 = p\<lparr>m_sched_point_tree := t, m_mt_resource_tree := m\<rparr>
    \<and> m_span_lookup p1 = m_span_lookup p
    \<and> trees_ok t m \<and> pts (sp_map t) S T (\<lambda>a. R a + ((if s = a then 1 else 0) + (if e = a then 1 else 0)))
    \<and> dom (sp_map t) = insert s (insert e (dom (sp_map (m_sched_point_tree p))))"
proof -
  from get_or_new_ok [OF assms(1,2,3,4,5)] assms(7) obtain t1 m1 where
    1: "get_or_new_point s p = Some (Inr s, p\<lparr>m_sched_point_tree := t1, m_mt_resource_tree := m1\<rparr>)"
    "trees_ok t1 m1" "pts (sp_map t1) S T R" "dom (sp_map t1) = insert s (dom (sp_map (m_sched_point_tree p)))"
    by auto
  have dom1: "sp_map t1 a \<noteq> None \<longleftrightarrow> a = s \<or> sp_map (m_sched_point_tree p) a \<noteq> None" for a
    using 1(4) by (auto simp: set_eq_iff)
  let ?t2 = "sp_modify s incr_ref t1" and ?R2 = "R(s := R s + 1)"
  note 2 = pts_modify_ref [OF 1(2,3), of s 1]
  have d2: "dom (sp_map ?t2) = insert s (dom (sp_map (m_sched_point_tree p)))" using 2(3) 1(4) dom1 by auto
  have dom2: "sp_map ?t2 a \<noteq> None \<longleftrightarrow> a = s \<or> sp_map (m_sched_point_tree p) a \<noteq> None" for a
    using d2 by (auto simp: set_eq_iff)
  let ?p2 = "p\<lparr>m_sched_point_tree := ?t2, m_mt_resource_tree := m1\<rparr>"
  have "\<exists>t m. get_or_new_point e ?p2 = Some (Inr e, ?p2\<lparr>m_sched_point_tree := t, m_mt_resource_tree := m\<rparr>)
    \<and> trees_ok t m \<and> pts (sp_map t) S T ?R2 \<and> dom (sp_map t) = insert e (dom (sp_map (m_sched_point_tree ?p2)))"
  proof (rule get_or_new_ok [where b = s])
    show "?R2 e = 0" if "sp_map (m_sched_point_tree ?p2) e = None"
      using that dom2 [of e] assms(6,7) by auto
  qed (use 2 dom1 dom2 assms(3,6) in \<open>auto simp: ends_in_def\<close>)
  then obtain t3 m3 where
    3: "get_or_new_point e ?p2 = Some (Inr e, p\<lparr>m_sched_point_tree := t3, m_mt_resource_tree := m3\<rparr>)"
    "trees_ok t3 m3" "pts (sp_map t3) S T ?R2" "dom (sp_map t3) = insert e (dom (sp_map ?t2))"
    by auto
  from 3(4) have "sp_map t3 e \<noteq> None" by (auto simp: set_eq_iff)
  note 4 = pts_modify_ref [OF 3(2,3) this, of 1]
  have R: "?R2(e := ?R2 e + 1) = (\<lambda>a. R a + ((if s = a then 1 else 0) + (if e = a then 1 else 0)))"
    using assms(6) by (auto simp: fun_eq_iff)
  have "modify_point s incr_ref (p\<lparr>m_sched_point_tree := t1, m_mt_resource_tree := m1\<rparr>) = ?p2"
    by (simp add: modify_point_def)
  with 1(1) 3(1) 4 R d2 3(4) show ?thesis
    by - (rule exI [of _ "p\<lparr>m_sched_point_tree := t1, m_mt_resource_tree := m1\<rparr>"],
        rule exI [of _ "p\<lparr>m_sched_point_tree := t3, m_mt_resource_tree := m3\<rparr>"],
        intro exI [of _ "sp_modify e incr_ref t3"] exI [of _ m3], auto simp: modify_point_def trees_commute)
qed

section \<open>The points a span overlaps\<close>

lemma overlap_set:
  assumes "sp_ok (m_sched_point_tree p)" and "sp_map (m_sched_point_tree p) s \<noteq> None" and "i64 (s + d) = e"
  shows "set (fetch_overlap_points s d p) = {a \<in> dom (sp_map (m_sched_point_tree p)). s \<le> a \<and> a < e}"
    and "distinct (fetch_overlap_points s d p)"
proof -
  let ?t = "m_sched_point_tree p"
  from get_state_exists [OF assms(1,2)] obtain q where q: "get_state s ?t = Some q" by blast
  have w: "walk_from (Some q) p = filter (\<lambda>x. at q \<le> at x) (inorder ?t)"
    by (rule walk_from_state [OF assms(1) q])
  have "at q \<le> s" using q assms(1) by (simp add: get_state_Some)
  then have f: "fetch_overlap_points s d p = map at (filter (\<lambda>x. s \<le> at x \<and> at x < e) (inorder ?t))"
    using overlap_loop_filter [OF sorted_walk [OF assms(1)]] q w assms(3)
    by (simp add: fetch_overlap_points_def sp_tree_get_state_def) (metis (no_types, lifting) order_trans)
  show "set (fetch_overlap_points s d p) = {a \<in> dom (sp_map ?t). s \<le> a \<and> a < e}"
    unfolding f using sp_map_iff [OF assms(1)] by (auto simp: dom_def)
  show "distinct (fetch_overlap_points s d p)"
    unfolding f using sorted_walk [OF assms(1), of "\<lambda>x. s \<le> at x \<and> at x < e"] by (simp add: strict_sorted_iff)
qed

text \<open>Changing the quantities at the points of an interval and relinking them: the points
  show the new list of spans when the loads differ by just that quantity.\<close>

lemma pts_relink:
  assumes "pts M S T R" and "\<And>a. a \<in> A \<Longrightarrow> R a \<noteq> 0"
    and "\<And>a. M a \<noteq> None \<Longrightarrow> load S' a = load S a + (if a \<in> A then n else 0)"
    and "\<And>a. M a \<noteq> None \<Longrightarrow> load S' a \<le> T"
  shows "pts (upd_at A relink (upd_at A (\<lambda>q. q\<lparr>scheduled := scheduled q + n, remaining := remaining q - n\<rparr>) M)) S' T R"
  unfolding pts_def
proof (intro allI impI)
  fix a q
  let ?f = "\<lambda>q. q\<lparr>scheduled := scheduled q + n, remaining := remaining q - n\<rparr>"
  assume "upd_at A relink (upd_at A ?f M) a = Some q"
  then obtain q' where q': "M a = Some q'" "q = (if a \<in> A then relink (?f q') else q')"
    by (auto simp: upd_at_def split: if_splits)
  with assms(1) have "pt_shows S T a q'" "pt_fresh q'" "ref_count q' = R a" by (auto simp: pts_def)
  with q' assms(2) [of a] assms(3,4) [of a] show "pt_shows S' T a q \<and> pt_fresh q \<and> ref_count q = R a"
    by (auto simp: pt_shows_def pt_fresh_def relink_def)
qed

definition seen :: "scheduled_point \<Rightarrow> scheduled_point" where
  "seen q = q\<lparr>new_point := False\<rparr>"

lemma seen_sel [simp]:
  "at (seen q) = at q" "in_mt_resource_tree (seen q) = in_mt_resource_tree q" "ref_count (seen q) = ref_count q"
  "scheduled (seen q) = scheduled q" "remaining (seen q) = remaining q"
  "resource_rb_remaining (seen q) = resource_rb_remaining q"
  by (simp_all add: seen_def)

lemma keeps_link_seen: "keeps_link seen"
  by (simp add: keeps_link_def)

lemma sp_modify_seen:
  assumes "trees_ok t m"
  shows "trees_ok (sp_modify a seen t) m" and "sp_map (sp_modify a seen t) = upd_at {a} seen (sp_map t)"
  using trees_ok_modify [OF assms keeps_link_seen, of a] by (auto simp: upd_at_def fun_eq_iff)

lemma upd_at_commute:
  assumes "\<And>q. f (g q) = g (f q)"
  shows "upd_at A f (upd_at B g M) = upd_at B g (upd_at A f M)"
  using assms by (auto simp: upd_at_def fun_eq_iff option.map_comp comp_def)

lemma relink_seen: "relink (seen q) = seen (relink q)"
  by (simp add: relink_def link_def unlink_def seen_def)

lemma pts_seen: "pts M S T R \<Longrightarrow> pts (upd_at A seen M) S T R"
  by (auto simp: pts_def upd_at_def pt_shows_def pt_fresh_def split: if_splits)

lemma dom_upd_at_set [simp]: "dom (upd_at A f M) = dom M"
  by (auto simp: dom_def upd_at_def)

lemma upd_at_ref:
  assumes "\<And>q. ref_count (f q) = ref_count q" and "upd_at A f M a = Some q"
  shows "\<exists>q'. M a = Some q' \<and> ref_count q' = ref_count q"
  using assms by (auto simp: upd_at_def split: if_splits)

section \<open>Adding a span\<close>

lemma add_span_update_ok:
  assumes "trees_ok (m_sched_point_tree p) (m_mt_resource_tree p)" and "pts (sp_map (m_sched_point_tree p)) S T R"
    and "om_ok S" "om_find k S = None" "m_span_lookup p = om_assign k s S"
    and "span_id s = k" "sp_map (m_sched_point_tree p) (span_start s) \<noteq> None" "i64 (span_start s + d) = span_last s"
    and "\<And>a. sp_map (m_sched_point_tree p) a \<noteq> None \<Longrightarrow> R a \<noteq> 0"
    and "\<And>a. covers s a \<Longrightarrow> planned s \<le> T - load S a"
    and s': "s' = s\<lparr>start_p := Some b, last_p := Some c, in_system := True\<rparr>"
  shows "\<exists>t m. add_span_update k d b c p
      = Some (Inr k, Some (p\<lparr>m_sched_point_tree := t, m_mt_resource_tree := m,
                m_span_lookup := om_assign k s' S, m_avail_time_iter_set := False\<rparr>))
    \<and> trees_ok t m \<and> pts (sp_map t) (om_assign k s' S) T R
    \<and> dom (sp_map t) = dom (sp_map (m_sched_point_tree p))"
proof -
  let ?t = "m_sched_point_tree p" and ?m = "m_mt_resource_tree p" and ?n = "planned s"
  let ?l = "fetch_overlap_points (span_start s) d p"
  let ?f = "\<lambda>q. q\<lparr>scheduled := scheduled q + ?n, remaining := remaining q - ?n\<rparr>"
  have sp: "sp_ok ?t" using assms(1) by (simp add: trees_ok_def)
  have set_l: "set ?l = {a \<in> dom (sp_map ?t). covers s a}" and dist: "distinct ?l"
    using overlap_set [OF sp assms(7,8)] by (auto simp: covers_def)
  from update_points_add_ok [OF assms(1) dist, of ?n] set_l obtain rc t1 where
    1: "update_points_add_span ?l ?n p = Some (rc, p\<lparr>m_sched_point_tree := t1\<rparr>)"
    "trees_ok t1 ?m" "sp_map t1 = upd_at (set ?l) ?f (sp_map ?t)"
    by auto
  let ?t2 = "sp_modify c seen (sp_modify b seen t1)"
  note t2' = sp_modify_seen [OF 1(2), of b]
  note t2 = sp_modify_seen [OF t2'(1), of c]
  have om1: "om_ok (om_assign k s S)" and fk: "om_find k (om_assign k s S) = Some s"
    using assms(3) by (simp_all add: om_find_assign)
  have "om_find k (om_assign k v S) = Some v" "om_ok (om_assign k v S)"
    "om_assign k w (om_assign k v S) = om_assign k w S" for v w
    using assms(3,4) by (simp_all add: om_find_assign om_assign_twice)
  note om = this
  let ?s2 = "s\<lparr>start_p := Some b, last_p := Some c\<rparr>"
  let ?p2 = "p\<lparr>m_sched_point_tree := ?t2, m_span_lookup := om_assign k ?s2 S\<rparr>"
  have p2: "modify_span k (\<lambda>s. s\<lparr>last_p := Some c\<rparr>) (modify_point c (\<lambda>q. q\<lparr>new_point := False\<rparr>)
        (modify_span k (\<lambda>s. s\<lparr>start_p := Some b\<rparr>) (modify_point b (\<lambda>q. q\<lparr>new_point := False\<rparr>)
          (p\<lparr>m_sched_point_tree := t1\<rparr>)))) = ?p2"
    using assms(5) by (simp add: modify_point_def modify_span_assign om seen_def [abs_def])
  have M2: "sp_map ?t2 = upd_at {c} seen (upd_at {b} seen (sp_map t1))"
    using t2(2) t2'(2) by simp
  have "\<exists>t m. update_mintime_resource_tree ?l ?p2 = Some (?p2\<lparr>m_sched_point_tree := t, m_mt_resource_tree := m\<rparr>)
    \<and> trees_ok t m \<and> sp_map t = upd_at (set ?l) relink (sp_map (m_sched_point_tree ?p2))"
    using t2(1) dist set_l 1(3) M2 by (intro update_mintime_ok) auto
  then obtain t3 m3 where
    3: "update_mintime_resource_tree ?l ?p2 = Some (?p2\<lparr>m_sched_point_tree := t3, m_mt_resource_tree := m3\<rparr>)"
    "trees_ok t3 m3" "sp_map t3 = upd_at (set ?l) relink (sp_map ?t2)"
    by auto
  have M3: "sp_map t3 = upd_at {c} seen (upd_at {b} seen (upd_at (set ?l) relink (upd_at (set ?l) ?f (sp_map ?t))))"
    using 3(3) M2 1(3) by (simp add: upd_at_commute [of relink seen, OF relink_seen])
  have ld: "load (om_assign k s' S) a = load S a + (if covers s a then ?n else 0)" for a
    using load_assign_new [OF assms(3,4), of s' a] s' by (simp add: covers_def)
  have showsT: "load S a \<le> T" if "sp_map ?t a \<noteq> None" for a
    using assms(2) that by (auto simp: pts_def pt_shows_def)
  have "pts (upd_at (set ?l) relink (upd_at (set ?l) ?f (sp_map ?t))) (om_assign k s' S) T R"
  proof (rule pts_relink [OF assms(2)])
    show "R a \<noteq> 0" if "a \<in> set ?l" for a using that assms(9) set_l by auto
    show "load (om_assign k s' S) a = load S a + (if a \<in> set ?l then ?n else 0)" if "sp_map ?t a \<noteq> None" for a
      using ld that set_l by auto
    show "load (om_assign k s' S) a \<le> T" if "sp_map ?t a \<noteq> None" for a
      using ld [of a] showsT [OF that] assms(10) [of a] by auto
  qed
  then have "pts (sp_map t3) (om_assign k s' S) T R" unfolding M3 by (intro pts_seen)
  moreover have "add_span_update k d b c p = Some (Inr k, Some (p\<lparr>m_sched_point_tree := t3, m_mt_resource_tree := m3,
      m_span_lookup := om_assign k s' S, m_avail_time_iter_set := False\<rparr>))"
    using 1(1) p2 3(1) assms(5,6) fk s' by (simp add: add_span_update_def modify_span_assign om)
  ultimately show ?thesis using 3(2) M3 by (intro exI [of _ t3] exI [of _ m3]) simp
qed

text \<open>The condition under which a request is granted, and the span it becomes.\<close>

definition fits :: "planner \<Rightarrow> int \<Rightarrow> int \<Rightarrow> int \<Rightarrow> bool" where
  "fits p s d r \<longleftrightarrow> m_plan_start p \<le> s \<and> s + d \<le> m_plan_end p \<and> 0 \<le> r \<and> r \<le> m_total_resources p
     \<and> (\<forall>u. s \<le> u \<and> u < s + d \<longrightarrow> r \<le> avail p u)"

definition granted :: "int \<Rightarrow> int \<Rightarrow> int \<Rightarrow> int \<Rightarrow> span" where
  "granted k s d r = \<lparr>span_start = s, span_last = s + d, span_id = k, planned = r, in_system = True,
     start_p = Some s, last_p = Some (s + d)\<rparr>"

lemma span_new_ok:
  assumes "planner_inv p" and "m_plan_start p \<le> s" "1 \<le> d" "s + d \<le> m_plan_end p" "0 \<le> r" "r \<le> m_total_resources p"
    and "m_span_counter p < int64_max"
  shows "span_new s d r p =
    (let k = m_span_counter p + 1
     in (Inr k, p\<lparr>m_span_counter := k, m_span_lookup := om_assign k
          \<lparr>span_start = s, span_last = s + d, span_id = k, planned = r, in_system = False,
           start_p = None, last_p = None\<rparr> (m_span_lookup p)\<rparr>))"
    and "om_find (m_span_counter p + 1) (m_span_lookup p) = None"
proof -
  note inv = planner_invD [OF assms(1)]
  show f: "om_find (m_span_counter p + 1) (m_span_lookup p) = None"
    using inv(6) by (force simp: om_find_None_iff span_inv_def)
  have b: "- (2 ^ 63) \<le> s" "s + d \<le> int64_max" "0 \<le> m_span_counter p"
    using inv(9) assms(2,4) by (auto simp: bounds_inv_def)
  have r: "i64 r = r" using assms(5,6) inv(9) by (intro i64_small) (auto simp: bounds_inv_def)
  have d: "i64 (s + d) = s + d" "i64 (s + d - 1) = s + d - 1"
    using b assms(3) i64_sum [of s d] i64_sum [of s "d - 1"] by (auto simp: add_diff_eq)
  have c: "u64 (m_span_counter p + 1) = m_span_counter p + 1" "i64 (m_span_counter p + 1) = m_span_counter p + 1"
    using b(3) assms(7) by (auto intro!: u64_id i64_small simp: is_u64_def int64_max_def)
  show "span_new s d r p =
    (let k = m_span_counter p + 1
     in (Inr k, p\<lparr>m_span_counter := k, m_span_lookup := om_assign k
          \<lparr>span_start = s, span_last = s + d, span_id = k, planned = r, in_system = False,
           start_p = None, last_p = None\<rparr> (m_span_lookup p)\<rparr>))"
    using assms(2-6) f
    by (simp add: span_new_def span_input_check_def not_feasible_def r d c incr_span_counter_def
          span_lookup_insert_def om_insert_def Let_def)
qed

lemma planner_add_span_ok:
  assumes "planner_inv p" and "fits p s d r" and "1 \<le> d" "d \<le> int64_max" "m_span_counter p < int64_max"
  shows "\<exists>p'. planner_add_span (Some p) s d r = Some (Inr (m_span_counter p + 1), Some p') \<and> planner_inv p'
    \<and> m_span_lookup p' = om_assign (m_span_counter p + 1) (granted (m_span_counter p + 1) s d r) (m_span_lookup p)
    \<and> m_total_resources p' = m_total_resources p \<and> m_plan_start p' = m_plan_start p
    \<and> m_plan_end p' = m_plan_end p \<and> m_span_counter p' = m_span_counter p + 1
    \<and> m_avail_time_iter p' = [] \<and> \<not> m_avail_time_iter_set p'"
proof -
  note inv = planner_invD [OF assms(1)]
  let ?k = "m_span_counter p + 1" and ?S = "m_span_lookup p" and ?T = "m_total_resources p" and ?e = "s + d"
  from assms(2) have F: "m_plan_start p \<le> s" "?e \<le> m_plan_end p" "0 \<le> r" "r \<le> ?T"
    "\<forall>u. s \<le> u \<and> u < ?e \<longrightarrow> r \<le> avail p u"
    by (auto simp: fits_def)
  note sn = span_new_ok [OF assms(1) F(1) assms(3) F(2-4) assms(5)]
  let ?s0 = "\<lparr>span_start = s, span_last = ?e, span_id = ?k, planned = r, in_system = False, start_p = None, last_p = None\<rparr>"
  let ?p1 = "p\<lparr>m_span_counter := ?k, m_span_lookup := om_assign ?k ?s0 ?S\<rparr>"
  have b: "- (2 ^ 63) \<le> s" "?e \<le> int64_max" using inv(9) F(1,2) by (auto simp: bounds_inv_def)
  have ir: "i64 r = r" using F(3,4) inv(9) by (intro i64_small) (auto simp: bounds_inv_def)
  have ie: "i64 ?e = ?e" using b assms(3) by (intro i64_sum) auto
  have ad: "avail_during s d (i64 r) p = Inr ()"
    using avail_during_eq [OF assms(1) F(1) assms(3,4) b(2), of r] F(2,5) by (simp add: ir)
  let ?R = "\<lambda>a. refs ?S a + (if a = m_plan_start p then 1 else 0)"
  obtain t m where restore: "restore_track_points ?p1 = Some (0, ?p1\<lparr>m_sched_point_tree := t, m_mt_resource_tree := m, m_avail_time_iter := []\<rparr>)"
    and T0: "trees_ok t m" and P0: "pts (sp_map t) ?S ?T ?R"
    and D0: "\<And>a. sp_map t a \<noteq> None \<Longrightarrow> 0 < ?R a \<and> m_plan_start p \<le> a \<and> a \<le> m_plan_end p"
    and B0: "sp_map t (m_plan_start p) \<noteq> None"
    and I0: "\<And>k s. (k, s) \<in> set ?S \<Longrightarrow> span_inv (sp_map t) p k s"
    by (rule inv_restored [OF assms(1), of ?p1]) simp_all
  have E0: "ends_in ?S (sp_map t)" using I0 by (auto simp: span_inv_def ends_in_def)
  have R0: "\<And>a. sp_map t a = None \<Longrightarrow> ?R a = 0"
    using B0 refs_zero [OF E0] by auto
  let ?p2 = "?p1\<lparr>m_sched_point_tree := t, m_mt_resource_tree := m, m_avail_time_iter := []\<rparr>"
  let ?R' = "\<lambda>a. ?R a + ((if s = a then 1 else 0) + (if ?e = a then 1 else 0))"
  have "\<exists>p3 p4 t m. get_or_new_point s ?p2 = Some (Inr s, p3)
    \<and> get_or_new_point ?e (modify_point s incr_ref p3) = Some (Inr ?e, p4)
    \<and> modify_point ?e incr_ref p4 = ?p2\<lparr>m_sched_point_tree := t, m_mt_resource_tree := m\<rparr>
    \<and> m_span_lookup p3 = m_span_lookup ?p2
    \<and> trees_ok t m \<and> pts (sp_map t) ?S ?T ?R' \<and> dom (sp_map t) = insert s (insert ?e (dom (sp_map (m_sched_point_tree ?p2))))"
    by (rule end_points_ok [where b = "m_plan_start p"]) (use T0 P0 E0 B0 F(1) R0 assms(3) in auto)
  then obtain p3 p4 t5 m5 where
    5: "get_or_new_point s ?p2 = Some (Inr s, p3)" "get_or_new_point ?e (modify_point s incr_ref p3) = Some (Inr ?e, p4)"
    "modify_point ?e incr_ref p4 = ?p2\<lparr>m_sched_point_tree := t5, m_mt_resource_tree := m5\<rparr>"
    "trees_ok t5 m5" "pts (sp_map t5) ?S ?T ?R'" and d5: "dom (sp_map t5) = insert s (insert ?e (dom (sp_map t)))"
    by auto
  have dom5: "sp_map t5 a \<noteq> None \<longleftrightarrow> a = s \<or> a = ?e \<or> sp_map t a \<noteq> None" for a
    using d5 by (auto simp: set_eq_iff)
  let ?p5 = "?p2\<lparr>m_sched_point_tree := t5, m_mt_resource_tree := m5\<rparr>"
  let ?S' = "om_assign ?k (granted ?k s d r) ?S"
  have "\<exists>t m. add_span_update ?k d s ?e ?p5
      = Some (Inr ?k, Some (?p5\<lparr>m_sched_point_tree := t, m_mt_resource_tree := m, m_span_lookup := ?S', m_avail_time_iter_set := False\<rparr>))
    \<and> trees_ok t m \<and> pts (sp_map t) ?S' ?T ?R' \<and> dom (sp_map t) = dom (sp_map (m_sched_point_tree ?p5))"
  proof (rule add_span_update_ok [where s = ?s0])
    show "?R' a \<noteq> 0" if "sp_map (m_sched_point_tree ?p5) a \<noteq> None" for a
      using that dom5 [of a] D0 [of a] refs_nonneg [of ?S a] by auto
    show "planned ?s0 \<le> ?T - load ?S a" if "covers ?s0 a" for a
      using that F(5) by (auto simp: covers_def avail_def)
  qed (use 5(4,5) inv(5) sn(2) dom5 ie in \<open>auto simp: granted_def\<close>)
  then obtain t6 m6 where
    6: "add_span_update ?k d s ?e ?p5
      = Some (Inr ?k, Some (?p5\<lparr>m_sched_point_tree := t6, m_mt_resource_tree := m6, m_span_lookup := ?S', m_avail_time_iter_set := False\<rparr>))"
    "trees_ok t6 m6" "pts (sp_map t6) ?S' ?T ?R'" and d6: "dom (sp_map t6) = dom (sp_map t5)"
    by auto
  have dom6: "sp_map t6 a \<noteq> None \<longleftrightarrow> a = s \<or> a = ?e \<or> sp_map t a \<noteq> None" for a
    using d6 dom5 [of a] by (auto simp: dom_def set_eq_iff)
  let ?p6 = "?p5\<lparr>m_sched_point_tree := t6, m_mt_resource_tree := m6, m_span_lookup := ?S', m_avail_time_iter_set := False\<rparr>"
  have R': "?R' = (\<lambda>a. refs ?S' a + (if a = m_plan_start p then 1 else 0))"
    using refs_assign_new [OF inv(5) sn(2)] by (auto simp: fun_eq_iff ends_at_def granted_def)
  have "planner_inv ?p6"
  proof (rule planner_invI)
    show "pts (sp_map (m_sched_point_tree ?p6)) (m_span_lookup ?p6) (m_total_resources ?p6)
        (\<lambda>a. refs (m_span_lookup ?p6) a + (if a = m_plan_start ?p6 then 1 else 0))"
      using 6(3) unfolding R' by simp
    show "0 < refs (m_span_lookup ?p6) a + (if a = m_plan_start ?p6 then 1 else 0) \<and> m_plan_start ?p6 \<le> a \<and> a \<le> m_plan_end ?p6"
      if "sp_map (m_sched_point_tree ?p6) a \<noteq> None" for a
    proof -
      have "0 < ?R' a" and "m_plan_start p \<le> a" "a \<le> m_plan_end p"
        using that dom6 [of a] D0 [of a] refs_nonneg [of ?S a] F(1,2) assms(3) by auto
      with fun_cong [OF R', of a] show ?thesis by simp
    qed
    show "span_inv (sp_map (m_sched_point_tree ?p6)) ?p6 j v" if "(j, v) \<in> set (m_span_lookup ?p6)" for j v
    proof (cases "j = ?k")
      case True
      with that have "v = granted ?k s d r" using set_om_assign [OF inv(5)] by auto
      with True show ?thesis
        using dom6 [of s] dom6 [of ?e] F assms(3) inv(9) by (simp add: span_inv_def granted_def bounds_inv_def)
    next
      case False
      with that have "(j, v) \<in> set ?S" using set_om_assign [OF inv(5)] by auto
      from I0 [OF this] show ?thesis
        using dom6 [of "span_start v"] dom6 [of "span_last v"] by (simp add: span_inv_def)
    qed
  qed (use 6(2) dom6 [of "m_plan_start p"] B0 inv(4,5,9) assms(5) in \<open>simp_all add: bounds_inv_def\<close>)
  moreover have "planner_add_span (Some p) s d r = Some (Inr ?k, Some ?p6)"
    using ad sn(1) restore 5(1-3) 6(1) inv(5)
    by (simp add: planner_add_span_def Let_def om_find_assign)
  ultimately show ?thesis by (intro exI [of _ ?p6]) simp
qed

section \<open>Removing a span\<close>

lemma release_ok:
  assumes "trees_ok (m_sched_point_tree p) (m_mt_resource_tree p)" and "sp_map (m_sched_point_tree p) a = Some q"
  shows "\<exists>t m. release_point a p = Some (p\<lparr>m_sched_point_tree := t, m_mt_resource_tree := m\<rparr>) \<and> trees_ok t m
    \<and> sp_map t = (if ref_count q = 0 then (sp_map (m_sched_point_tree p))(a := None) else sp_map (m_sched_point_tree p))"
proof -
  let ?t = "m_sched_point_tree p" and ?m = "m_mt_resource_tree p"
  have g: "get_point a p = Some q" using assms by (simp add: get_point_map)
  have mt: "mt_ok ?m" and lk: "\<And>b. mt_map ?m b = linked (sp_map ?t b)" using assms(1) by (auto simp: trees_ok_def)
  from sp_tree_remove_ok [OF assms] obtain t1 where
    1: "sp_tree_remove (Some a) p = Some (0, p\<lparr>m_sched_point_tree := t1\<rparr>)" "sp_ok t1" "sp_map t1 = (sp_map ?t)(a := None)"
    by blast
  consider "ref_count q \<noteq> 0" | "ref_count q = 0" "\<not> in_mt_resource_tree q" | "ref_count q = 0" "in_mt_resource_tree q" by blast
  then show ?thesis
  proof cases
    case 1
    with g assms(1) show ?thesis
      by (intro exI [of _ ?t] exI [of _ ?m]) (simp add: release_point_def)
  next
    case 2
    with g 1 lk mt assms(2) show ?thesis
      by (intro exI [of _ t1] exI [of _ ?m]) (auto simp: release_point_def trees_ok_def)
  next
    case 3
    let ?f = "\<lambda>q. q\<lparr>in_mt_resource_tree := False\<rparr>"
    from mt_remove_ok [OF mt, of a] lk [of a] assms(2) 3 obtain m1 where
      m1: "mt_remove a ?m = Some m1" "mt_ok m1" "mt_map m1 = (mt_map ?m)(a := None)" by auto
    have t2: "sp_ok (sp_modify a ?f t1)" "sp_map (sp_modify a ?f t1) = (sp_map ?t)(a := None)"
      using sp_modify_ok [OF 1(2), of ?f a] 1(3) by simp_all
    with 3 g 1(1) m1 lk show ?thesis
      by (intro exI [of _ "sp_modify a ?f t1"] exI [of _ m1])
         (auto simp: release_point_def mt_tree_remove_def modify_point_def trees_ok_def trees_commute)
  qed
qed

lemma refs_pos:
  assumes "(k, s) \<in> set S"
  shows "0 < refs S (span_start s)" and "0 < refs S (span_last s)"
  using assms
proof (induction S)
  case (Cons x S)
  have "refs (x # S) a = ends_at (snd x) a + refs S a" "0 \<le> ends_at (snd x) a" for a
    by (simp_all add: refs_ends case_prod_beta ends_at_def)
  with Cons refs_nonneg [of S "span_start s"] refs_nonneg [of S "span_last s"] show
    "(k, s) \<in> set (x # S) \<Longrightarrow> 0 < refs (x # S) (span_start s)"
    "(k, s) \<in> set (x # S) \<Longrightarrow> 0 < refs (x # S) (span_last s)"
    by (auto simp: ends_at_def add_pos_nonneg add_nonneg_pos)
qed simp_all

text \<open>After the quantities are given back and the points relinked, only the end points may
  be uncounted; releasing those leaves fresh, counted points.\<close>

lemma pts_released:
  assumes "pts M S T R0" and "\<And>a. M a \<noteq> None \<Longrightarrow> load S' a = load S a - (if a \<in> A then n else 0)" "0 \<le> n"
    and "\<And>a. M a \<noteq> None \<Longrightarrow> a \<notin> {b, c} \<Longrightarrow> R0 a \<noteq> 0"
    and "M' = upd_at A relink (upd_at A (\<lambda>q. q\<lparr>scheduled := scheduled q - n, remaining := remaining q + n\<rparr>) M)"
  shows "pts (\<lambda>a. if a \<in> {b, c} \<and> R0 a = 0 then None else M' a) S' T R0"
  unfolding pts_def
proof (intro allI impI)
  fix a q
  let ?f = "\<lambda>q. q\<lparr>scheduled := scheduled q - n, remaining := remaining q + n\<rparr>"
  assume "(if a \<in> {b, c} \<and> R0 a = 0 then None else M' a) = Some q"
  then have no: "\<not> (a \<in> {b, c} \<and> R0 a = 0)" and "M' a = Some q" by (simp_all split: if_split_asm)
  then obtain q' where q': "M a = Some q'" "q = (if a \<in> A then relink (?f q') else q')"
    using assms(5) by (auto simp: upd_at_def split: if_splits)
  with assms(1) have "pt_shows S T a q'" "pt_fresh q'" "ref_count q' = R0 a" by (auto simp: pts_def)
  moreover have "R0 a \<noteq> 0" using no assms(4) [of a] q'(1) by auto
  ultimately show "pt_shows S' T a q \<and> pt_fresh q \<and> ref_count q = R0 a"
    using q' assms(2) [of a] assms(3) by (auto simp: pt_shows_def pt_fresh_def relink_def)
qed

text \<open>The middle part of the removal, from the restored planner to the released points.\<close>

lemma rem_span_points:
  assumes "trees_ok (m_sched_point_tree p) (m_mt_resource_tree p)" and "pts (sp_map (m_sched_point_tree p)) S T R"
    and "om_ok S" "om_find k S = Some s" "m_span_lookup p = S" "0 \<le> planned s"
    and "sp_map (m_sched_point_tree p) (span_start s) \<noteq> None" "sp_map (m_sched_point_tree p) (span_last s) \<noteq> None"
    and "span_start s < span_last s" "i64 (span_start s + d) = span_last s"
    and "\<And>a. sp_map (m_sched_point_tree p) a \<noteq> None \<Longrightarrow> 0 < R a"
    and R': "R' = (\<lambda>a. R a - ends_at s a)"
  shows "\<exists>p1 p2 rc p3 p4 t m.
      p1 = modify_point (span_last s) decr_ref (modify_point (span_start s) decr_ref p)
    \<and> get_point (span_start s) p \<noteq> None \<and> get_point (span_last s) (modify_point (span_start s) decr_ref p) \<noteq> None
    \<and> update_points_subtract_span (fetch_overlap_points (span_start s) d p1) (planned s) p1 = Some (rc, p2)
    \<and> update_mintime_resource_tree (fetch_overlap_points (span_start s) d p1) p2 = Some p3
    \<and> release_point (span_start s) (modify_span k f p3) = Some p4
    \<and> release_point (span_last s) p4 = Some ((modify_span k f p)\<lparr>m_sched_point_tree := t, m_mt_resource_tree := m\<rparr>)
    \<and> trees_ok t m \<and> pts (sp_map t) (om_erase k S) T R'
    \<and> dom (sp_map t) = {a \<in> dom (sp_map (m_sched_point_tree p)). R' a \<noteq> 0}"
proof -
  let ?t = "m_sched_point_tree p" and ?m = "m_mt_resource_tree p" and ?b = "span_start s" and ?c = "span_last s"
  let ?t1 = "sp_modify ?b decr_ref ?t" and ?R1 = "R(?b := R ?b - 1)"
  note 1 = pts_decr_ref [OF assms(1,2,7)]
  have n1: "sp_map ?t1 ?c \<noteq> None" using dom_eq_None [OF 1(3)] assms(8) by simp
  let ?t2 = "sp_modify ?c decr_ref ?t1"
  note 2 = pts_decr_ref [OF 1(1,2) n1]
  have R'eq: "?R1(?c := ?R1 ?c - 1) = R'"
    using assms(9) by (auto simp: R' ends_at_def fun_eq_iff)
  have P2: "pts (sp_map ?t2) S T R'" using 2(2) unfolding R'eq .
  let ?p1 = "p\<lparr>m_sched_point_tree := ?t2\<rparr>"
  let ?l = "fetch_overlap_points ?b d ?p1"
  have dom2: "dom (sp_map ?t2) = dom (sp_map ?t)" using 2(3) 1(3) by simp
  have sp2: "sp_ok ?t2" using 2(1) by (simp add: trees_ok_def)
  note n2 = dom_eq_None [OF dom2]
  have b2: "sp_map ?t2 ?b \<noteq> None" "sp_map ?t2 ?c \<noteq> None" using n2 assms(7,8) by simp_all
  have set_l: "set ?l = {a \<in> dom (sp_map ?t). covers s a}" and dist: "distinct ?l"
    using overlap_set [of ?p1 ?b d ?c] sp2 b2 assms(10) dom2 by (auto simp: covers_def)
  have in2: "\<forall>a\<in>set ?l. sp_map ?t2 a \<noteq> None" using set_l n2 by auto
  let ?f = "\<lambda>q. q\<lparr>scheduled := scheduled q - planned s, remaining := remaining q + planned s\<rparr>"
  from update_points_subtract_ok [of ?p1 ?l "planned s"] 2(1) dist in2 obtain rc t3 where
    3: "update_points_subtract_span ?l (planned s) ?p1 = Some (rc, p\<lparr>m_sched_point_tree := t3\<rparr>)"
    "trees_ok t3 ?m" "sp_map t3 = upd_at (set ?l) ?f (sp_map ?t2)"
    by auto
  let ?p3 = "p\<lparr>m_sched_point_tree := t3\<rparr>"
  have in3: "\<forall>a\<in>set ?l. sp_map t3 a \<noteq> None" using in2 3(3) by simp
  from update_mintime_ok [of ?p3 ?l] 3(2) dist in3 obtain t4 m4 where
    4: "update_mintime_resource_tree ?l ?p3 = Some (p\<lparr>m_sched_point_tree := t4, m_mt_resource_tree := m4\<rparr>)"
    "trees_ok t4 m4" "sp_map t4 = upd_at (set ?l) relink (sp_map t3)"
    by auto
  define M4 where "M4 = sp_map t4"
  have M4: "M4 = upd_at (set ?l) relink (upd_at (set ?l) ?f (sp_map ?t2))" using 4(3) 3(3) by (simp add: M4_def)
  have ref4: "ref_count q = R' a" if "M4 a = Some q" for a q
  proof -
    from that obtain q1 where q1: "upd_at (set ?l) ?f (sp_map ?t2) a = Some q1" "ref_count q1 = ref_count q"
      unfolding M4 by (auto dest: upd_at_ref [rotated] simp: relink_def)
    from upd_at_ref [OF _ this(1)] obtain q2 where q2: "sp_map ?t2 a = Some q2" "ref_count q2 = ref_count q1" by auto
    from pts_ref [OF P2 q2(1)] q2(2) q1(2) show ?thesis by simp
  qed
  have dom4: "M4 a \<noteq> None \<longleftrightarrow> sp_map ?t a \<noteq> None" for a using n2 by (simp add: M4)
  let ?p4 = "modify_span k f (p\<lparr>m_sched_point_tree := t4, m_mt_resource_tree := m4\<rparr>)"
  let ?q4 = "modify_span k f p"
  have p4: "?p4 = ?q4\<lparr>m_sched_point_tree := t4, m_mt_resource_tree := m4\<rparr>" by (simp add: modify_span_def)
  from dom4 assms(7,8) obtain qb qc where q4: "M4 ?b = Some qb" "M4 ?c = Some qc" by (metis option.exhaust)
  let ?M5 = "if R' ?b = 0 then M4(?b := None) else M4"
  from release_ok [of ?p4 ?b qb] 4(2) q4 ref4 [OF q4(1)] p4 obtain t5 m5 where
    5: "release_point ?b ?p4 = Some (?q4\<lparr>m_sched_point_tree := t5, m_mt_resource_tree := m5\<rparr>)" "trees_ok t5 m5"
    "sp_map t5 = ?M5"
    by (auto simp: M4_def)
  have c5: "sp_map t5 ?c = Some qc" using 5(3) q4 assms(9) by simp
  from release_ok [of "?q4\<lparr>m_sched_point_tree := t5, m_mt_resource_tree := m5\<rparr>" ?c qc] 5(2) c5 ref4 [OF q4(2)]
  obtain t6 m6 where
    6: "release_point ?c (?q4\<lparr>m_sched_point_tree := t5, m_mt_resource_tree := m5\<rparr>)
        = Some (?q4\<lparr>m_sched_point_tree := t6, m_mt_resource_tree := m6\<rparr>)" "trees_ok t6 m6"
    "sp_map t6 = (if R' ?c = 0 then (sp_map t5)(?c := None) else sp_map t5)"
    by auto
  have M6: "sp_map t6 = (\<lambda>a. if a \<in> {?b, ?c} \<and> R' a = 0 then None else M4 a)"
    unfolding 6(3) 5(3) by (auto simp: fun_eq_iff)
  have Rpos: "R' a \<noteq> 0" if "sp_map ?t a \<noteq> None" "a \<notin> {?b, ?c}" for a
    using assms(11) [OF that(1)] that(2) by (auto simp: R' ends_at_def)
  have "pts (sp_map t6) (om_erase k S) T R'"
    unfolding M6
  proof (rule pts_released [OF _ _ assms(6) _ M4])
    show "pts (sp_map ?t2) S T R'" by (rule P2)
    show "load (om_erase k S) a = load S a - (if a \<in> set ?l then planned s else 0)" if "sp_map ?t2 a \<noteq> None" for a
      using load_erase [OF assms(3,4), of a] that set_l n2 by auto
    show "R' a \<noteq> 0" if "sp_map ?t2 a \<noteq> None" "a \<notin> {?b, ?c}" for a
      using that Rpos n2 by auto
  qed
  moreover have "dom (sp_map t6) = {a \<in> dom (sp_map ?t). R' a \<noteq> 0}"
    unfolding M6 using dom4 Rpos by (auto simp: dom_def split: if_splits)
  moreover have "?p1 = modify_point ?c decr_ref (modify_point ?b decr_ref p)" by (simp add: modify_point_def)
  moreover have "get_point ?b p \<noteq> None" "get_point ?c (modify_point ?b decr_ref p) \<noteq> None"
    using get_point_map [OF assms(1)] get_point_map [of "modify_point ?b decr_ref p"] 1(1) n1 assms(7)
    by (auto simp: modify_point_def)
  ultimately show ?thesis
    using 3(1) 4(1) 5(1) 6(1,2)
    by - (rule exI [of _ ?p1], rule exI [of _ ?p3], rule exI [of _ rc],
        rule exI [of _ "p\<lparr>m_sched_point_tree := t4, m_mt_resource_tree := m4\<rparr>"],
        rule exI [of _ "?q4\<lparr>m_sched_point_tree := t5, m_mt_resource_tree := m5\<rparr>"],
        rule exI [of _ t6], rule exI [of _ m6], intro conjI; assumption)
qed

lemma planner_rem_span_ok:
  assumes "planner_inv p" and "om_find k (m_span_lookup p) = Some s"
  shows "\<exists>p'. planner_rem_span (Some p) k = Some (Inr 0, Some p') \<and> planner_inv p'
    \<and> m_span_lookup p' = om_erase k (m_span_lookup p)
    \<and> m_total_resources p' = m_total_resources p \<and> m_plan_start p' = m_plan_start p
    \<and> m_plan_end p' = m_plan_end p \<and> m_span_counter p' = m_span_counter p
    \<and> m_avail_time_iter p' = [] \<and> \<not> m_avail_time_iter_set p'"
proof -
  note inv = planner_invD [OF assms(1)]
  let ?S = "m_span_lookup p" and ?T = "m_total_resources p" and ?b = "span_start s" and ?c = "span_last s"
  let ?R = "\<lambda>a. refs ?S a + (if a = m_plan_start p then 1 else 0)"
  let ?S' = "om_erase k ?S" and ?R' = "\<lambda>a. ?R a - ends_at s a"
  have ks: "(k, s) \<in> set ?S" using assms(2) inv(5) by (simp add: om_find_Some_iff)
  obtain t m where restore: "restore_track_points p = Some (0, p\<lparr>m_sched_point_tree := t, m_mt_resource_tree := m, m_avail_time_iter := []\<rparr>)"
    and T0: "trees_ok t m" and P0: "pts (sp_map t) ?S ?T ?R"
    and D0: "\<And>a. sp_map t a \<noteq> None \<Longrightarrow> 0 < ?R a \<and> m_plan_start p \<le> a \<and> a \<le> m_plan_end p"
    and B0: "sp_map t (m_plan_start p) \<noteq> None"
    and I0: "\<And>k s. (k, s) \<in> set ?S \<Longrightarrow> span_inv (sp_map t) p k s"
    by (rule inv_restored [OF assms(1), of p]) simp_all
  let ?p1 = "p\<lparr>m_sched_point_tree := t, m_mt_resource_tree := m, m_avail_time_iter := []\<rparr>"
  from I0 [OF ks] have s: "start_p s = Some ?b" "last_p s = Some ?c" "m_plan_start p \<le> ?b" "?b < ?c" "?c \<le> m_plan_end p"
    "0 \<le> planned s" "sp_map t ?b \<noteq> None" "sp_map t ?c \<noteq> None"
    by (auto simp: span_inv_def)
  let ?d = "u64 (?c - ?b)"
  note d = span_extent [OF I0 [OF ks] inv(9)]
  let ?f = "\<lambda>s. s\<lparr>in_system := False\<rparr>"
  obtain p2 p3 rc p4 p5 t6 m6 where
    6: "p2 = modify_point ?c decr_ref (modify_point ?b decr_ref ?p1)"
    "get_point ?b ?p1 \<noteq> None" "get_point ?c (modify_point ?b decr_ref ?p1) \<noteq> None"
    "update_points_subtract_span (fetch_overlap_points ?b ?d p2) (planned s) p2 = Some (rc, p3)"
    "update_mintime_resource_tree (fetch_overlap_points ?b ?d p2) p3 = Some p4"
    "release_point ?b (modify_span k ?f p4) = Some p5"
    "release_point ?c p5 = Some ((modify_span k ?f ?p1)\<lparr>m_sched_point_tree := t6, m_mt_resource_tree := m6\<rparr>)"
    "trees_ok t6 m6" "pts (sp_map t6) ?S' ?T ?R'"
    and d6: "dom (sp_map t6) = {a \<in> dom (sp_map t). ?R' a \<noteq> 0}"
    using rem_span_points [of ?p1 ?S ?T ?R k s ?d ?R' ?f] T0 P0 inv(5) assms(2) s d D0 by auto
  have R': "?R' = (\<lambda>a. refs ?S' a + (if a = m_plan_start p then 1 else 0))"
    using refs_erase [OF inv(5) assms(2)] by (auto simp: fun_eq_iff)
  have dom6: "sp_map t6 a \<noteq> None \<longleftrightarrow> sp_map t a \<noteq> None \<and> refs ?S' a + (if a = m_plan_start p then 1 else 0) \<noteq> 0" for a
  proof -
    have "a \<in> dom (sp_map t6) \<longleftrightarrow> a \<in> dom (sp_map t) \<and> ?R' a \<noteq> 0" using d6 by blast
    moreover have "?R' a = refs ?S' a + (if a = m_plan_start p then 1 else 0)" using R' by metis
    ultimately show ?thesis by (simp only: domIff)
  qed
  let ?p6 = "p\<lparr>m_sched_point_tree := t6, m_mt_resource_tree := m6, m_avail_time_iter := [], m_span_lookup := ?S',
    m_span_lookup_iter := iter_after_erase k (m_span_lookup_iter p), m_avail_time_iter_set := False\<rparr>"
  have p6: "(span_lookup_erase k ((modify_span k ?f ?p1)\<lparr>m_sched_point_tree := t6, m_mt_resource_tree := m6\<rparr>))
    \<lparr>m_avail_time_iter_set := False\<rparr> = ?p6"
    by (simp add: span_lookup_erase_def modify_span_def om_erase_modify)
  have "planner_inv ?p6"
  proof (rule planner_invI)
    show "pts (sp_map (m_sched_point_tree ?p6)) (m_span_lookup ?p6) (m_total_resources ?p6)
        (\<lambda>a. refs (m_span_lookup ?p6) a + (if a = m_plan_start ?p6 then 1 else 0))"
      using 6(9) unfolding R' by simp
    show "0 < refs (m_span_lookup ?p6) a + (if a = m_plan_start ?p6 then 1 else 0) \<and> m_plan_start ?p6 \<le> a \<and> a \<le> m_plan_end ?p6"
      if "sp_map (m_sched_point_tree ?p6) a \<noteq> None" for a
      using that dom6 [of a] D0 [of a] refs_nonneg [of ?S' a] by auto
    show "span_inv (sp_map (m_sched_point_tree ?p6)) ?p6 j v" if "(j, v) \<in> set (m_span_lookup ?p6)" for j v
    proof -
      from that have jv: "(j, v) \<in> set ?S'" "(j, v) \<in> set ?S" by (auto simp: set_om_erase)
      from I0 [OF jv(2)] refs_pos [OF jv(1)] show ?thesis
        using dom6 [of "span_start v"] dom6 [of "span_last v"] by (auto simp: span_inv_def)
    qed
    show "sp_map (m_sched_point_tree ?p6) (m_plan_start ?p6) \<noteq> None"
      using dom6 [of "m_plan_start p"] B0 refs_nonneg [of ?S' "m_plan_start p"] by auto
  qed (use 6(8) inv(4,5,9) in \<open>simp_all add: bounds_inv_def\<close>)
  moreover have "planner_rem_span (Some p) k = Some (Inr 0, Some ?p6)"
    using assms(2) restore s(1,2) 6(1-7) p6 by (auto simp: planner_rem_span_def Let_def)
  ultimately show ?thesis by (intro exI [of _ ?p6]) simp
qed

section \<open>Reducing a span\<close>

lemma planner_reduce_span_ok:
  assumes "planner_inv p" and "om_find k (m_span_lookup p) = Some s" and "0 < n" "n < planned s"
  shows "\<exists>p'. planner_reduce_span (Some p) k n = Some (Inr 0, False, Some p') \<and> planner_inv p'
    \<and> m_span_lookup p' = om_assign k (s\<lparr>planned := planned s - n\<rparr>) (m_span_lookup p)
    \<and> m_total_resources p' = m_total_resources p \<and> m_plan_start p' = m_plan_start p
    \<and> m_plan_end p' = m_plan_end p \<and> m_span_counter p' = m_span_counter p"
proof -
  note inv = planner_invD [OF assms(1)]
  let ?S = "m_span_lookup p" and ?T = "m_total_resources p" and ?b = "span_start s" and ?c = "span_last s"
  let ?R = "\<lambda>a. refs ?S a + (if a = m_plan_start p then 1 else 0)"
  let ?s' = "s\<lparr>planned := planned s - n\<rparr>"
  let ?S' = "om_assign k ?s' ?S"
  have ks: "(k, s) \<in> set ?S" using assms(2) inv(5) by (simp add: om_find_Some_iff)
  obtain t m where restore: "restore_track_points p = Some (0, p\<lparr>m_sched_point_tree := t, m_mt_resource_tree := m, m_avail_time_iter := []\<rparr>)"
    and T0: "trees_ok t m" and P0: "pts (sp_map t) ?S ?T ?R"
    and D0: "\<And>a. sp_map t a \<noteq> None \<Longrightarrow> 0 < ?R a \<and> m_plan_start p \<le> a \<and> a \<le> m_plan_end p"
    and B0: "sp_map t (m_plan_start p) \<noteq> None"
    and I0: "\<And>k s. (k, s) \<in> set ?S \<Longrightarrow> span_inv (sp_map t) p k s"
    by (rule inv_restored [OF assms(1), of p]) simp_all
  from I0 [OF ks] have s: "m_plan_start p \<le> ?b" "?b < ?c" "?c \<le> m_plan_end p" "sp_map t ?b \<noteq> None"
    by (auto simp: span_inv_def)
  let ?d = "u64 (?c - ?b)"
  note d = span_extent(2) [OF I0 [OF ks] inv(9)]
  let ?p1 = "p\<lparr>m_sched_point_tree := t, m_mt_resource_tree := m, m_avail_time_iter := [], m_span_lookup := ?S'\<rparr>"
  have p1: "modify_span k (\<lambda>s. s\<lparr>planned := planned s - n\<rparr>)
      (p\<lparr>m_sched_point_tree := t, m_mt_resource_tree := m, m_avail_time_iter := []\<rparr>) = ?p1"
    using inv(5) assms(2) by (simp add: modify_span_assign)
  let ?l = "fetch_overlap_points ?b ?d ?p1"
  have sp: "sp_ok t" using T0 by (simp add: trees_ok_def)
  have set_l: "set ?l = {a \<in> dom (sp_map t). covers s a}" and dist: "distinct ?l"
    using overlap_set [of ?p1 ?b ?d ?c] sp s(4) d by (auto simp: covers_def)
  have pos: "\<And>j v. (j, v) \<in> set ?S \<Longrightarrow> 0 \<le> planned v" using I0 by (auto simp: span_inv_def)
  have room: "\<forall>a\<in>set ?l. \<exists>q. sp_map t a = Some q \<and> n \<le> scheduled q \<and> remaining q + n \<le> ?T"
    using set_l P0 planned_le_load [OF pos inv(5) assms(2)] assms(4)
    by (fastforce simp: pts_def pt_shows_def)
  let ?f = "\<lambda>q. q\<lparr>scheduled := scheduled q - n, remaining := remaining q + n\<rparr>"
  from update_points_partial_ok [of ?p1 ?l n] T0 dist room obtain t2 where
    2: "update_points_partial_subtract_span ?l n ?p1 = Some (0, ?p1\<lparr>m_sched_point_tree := t2\<rparr>)"
    "trees_ok t2 m" "sp_map t2 = upd_at (set ?l) ?f (sp_map t)"
    by auto
  have "\<forall>a\<in>set ?l. sp_map t2 a \<noteq> None" using 2(3) set_l by auto
  with update_mintime_ok [of "?p1\<lparr>m_sched_point_tree := t2\<rparr>" ?l] 2(2) dist obtain t3 m3 where
    3: "update_mintime_resource_tree ?l (?p1\<lparr>m_sched_point_tree := t2\<rparr>)
        = Some (?p1\<lparr>m_sched_point_tree := t3, m_mt_resource_tree := m3\<rparr>)" "trees_ok t3 m3"
    "sp_map t3 = upd_at (set ?l) relink (sp_map t2)"
    by auto
  have ld: "load ?S' a = load ?S a + (if covers s a then - n else 0)" for a
    using load_assign_old [OF inv(5) assms(2), of ?s' a] by (auto simp: covers_def)
  have P3: "pts (sp_map t3) ?S' ?T ?R"
    unfolding 3(3) 2(3)
  proof (rule pts_relink [where n = "- n", simplified])
    show "pts (sp_map t) ?S ?T ?R" by (rule P0)
    show "?R a \<noteq> 0" if "a \<in> set ?l" for a using that D0 [of a] set_l by auto
    show "load ?S' a = load ?S a + (if a \<in> set ?l then - n else 0)" if "\<exists>q. sp_map t a = Some q" for a
      using ld that set_l by auto
    show "load ?S' a \<le> ?T" if "\<exists>q. sp_map t a = Some q" for a
      using ld [of a] that P0 assms(3) by (fastforce simp: pts_def pt_shows_def)
  qed
  have dom3: "sp_map t3 a = None \<longleftrightarrow> sp_map t a = None" for a using 3(3) 2(3) by simp
  have R': "?R = (\<lambda>a. refs ?S' a + (if a = m_plan_start p then 1 else 0))"
    using refs_assign_old [OF inv(5) assms(2), of ?s'] by (simp add: fun_eq_iff)
  let ?p3 = "?p1\<lparr>m_sched_point_tree := t3, m_mt_resource_tree := m3\<rparr>"
  have "planner_inv ?p3"
  proof (rule planner_invI)
    show "span_inv (sp_map (m_sched_point_tree ?p3)) ?p3 j v" if "(j, v) \<in> set (m_span_lookup ?p3)" for j v
    proof -
      from that consider "j = k" "v = ?s'" | "(j, v) \<in> set ?S" using set_om_assign [OF inv(5), of k ?s'] by auto
      then show ?thesis
        using I0 [OF ks] I0 [of j v] assms(3,4) by cases (simp_all add: span_inv_def dom3)
    qed
  qed (use P3 R' D0 dom3 B0 3(2) inv(4,5,9) in \<open>simp_all add: bounds_inv_def fun_eq_iff\<close>)
  moreover have "planner_reduce_span (Some p) k n = Some (Inr 0, False, Some ?p3)"
    using assms(2-4) restore p1 2(1) 3(1) by (simp add: planner_reduce_span_def Let_def)
  ultimately show ?thesis by (intro exI [of _ ?p3]) simp
qed

end
