(* ===== verification/Planner_Avail.thy ===== *)
theory Planner_Avail
  imports Planner_Spans
begin

text \<open>
  Finding available times. \<open>planner_avail_time_first\<close> and
  \<open>planner_avail_time_next\<close> enumerate, in increasing order, the scheduled points at
  or after the requested time at which the request fits for its whole duration. The
  points already considered are taken out of the min-time tree and tracked; the
  predicate \<open>tracked_upto\<close> says that they are just the points up to some time whose
  quantity is large enough.
\<close>

section \<open>Taking a point out of the min-time tree\<close>

abbreviation ptimes :: "planner \<Rightarrow> int set" where
  "ptimes p \<equiv> dom (sp_map (m_sched_point_tree p))"

abbreviation tracked :: "planner \<Rightarrow> int set" where
  "tracked p \<equiv> fst ` set (m_avail_time_iter p)"

lemma track_ok:
  assumes "planner_inv p" and "a \<in> ptimes p" and "a \<notin> tracked p"
  shows "\<exists>t m p1. mt_tree_remove (Some a) p = Some (0, p1) \<and> planner_inv (track_points a p1)
    \<and> track_points a p1 = p\<lparr>m_sched_point_tree := t, m_mt_resource_tree := m,
        m_avail_time_iter := om_assign a (Some a) (m_avail_time_iter p)\<rparr>
    \<and> m_plan_end p1 = m_plan_end p \<and> ptimes (track_points a p1) = ptimes p
    \<and> tracked (track_points a p1) = insert a (tracked p)"
proof -
  note inv = planner_invD [OF assms(1)]
  let ?M = "sp_map (m_sched_point_tree p)"
  from assms(2) obtain q where q: "?M a = Some q" by blast
  from points_invD(9) [OF inv(2) q] assms(3) have "in_mt_resource_tree q" by simp
  from mt_tree_remove_ok [OF inv(1) q this] obtain t m where
    r: "mt_tree_remove (Some a) p = Some (0, p\<lparr>m_sched_point_tree := t, m_mt_resource_tree := m\<rparr>)"
    "trees_ok t m" "sp_map t = ?M(a \<mapsto> unlink q)"
    by blast
  let ?A = "om_assign a (Some a) (m_avail_time_iter p)"
  let ?p1 = "p\<lparr>m_sched_point_tree := t, m_mt_resource_tree := m\<rparr>"
  let ?p' = "p\<lparr>m_sched_point_tree := t, m_mt_resource_tree := m, m_avail_time_iter := ?A\<rparr>"
  have n: "om_find a (m_avail_time_iter p) = None" using assms(3) by (simp add: om_find_None_iff)
  then have tr: "track_points a ?p1 = ?p'" by (simp add: track_points_def om_insert_def)
  have A: "fst ` set ?A = insert a (tracked p)" using set_om_assign [OF inv(7), of a "Some a"] assms(3) by force
  have P: "points_inv (sp_map t) ?p'"
    unfolding points_inv_def
  proof (intro allI impI)
    fix b x assume "sp_map t b = Some x"
    then obtain y where y: "?M b = Some y" "x = (if b = a then unlink y else y)"
      using r(3) q by (auto split: if_splits)
    note P = points_invD [OF inv(2) y(1)]
    show "scheduled x = load (m_span_lookup ?p') b \<and> remaining x = avail ?p' b \<and> 0 \<le> remaining x \<and> resource_rb_remaining x = remaining x
      \<and> ref_count x = refs (m_span_lookup ?p') b + (if b = m_plan_start ?p' then 1 else 0) \<and> 0 < ref_count x
      \<and> m_plan_start ?p' \<le> b \<and> b \<le> m_plan_end ?p' \<and> (in_mt_resource_tree x \<longleftrightarrow> b \<notin> fst ` set (m_avail_time_iter ?p'))"
      using P y(2) A by (cases "b = a") (simp_all add: avail_def)
  qed
  have d: "sp_map t b = None \<longleftrightarrow> ?M b = None" for b using r(3) q by simp
  have sA: "\<forall>(b, pt)\<in>set ?A. pt = Some b \<and> sp_map t b \<noteq> None"
    using set_om_assign [OF inv(7), of a "Some a"] inv(8) q d by (auto simp del: not_None_eq)
  have sS: "\<forall>(k, s)\<in>set (m_span_lookup p). span_inv (sp_map t) ?p' k s"
    using inv(6) d by (auto simp: span_inv_def simp del: not_None_eq)
  have "planner_inv ?p'"
    unfolding planner_inv_def Let_def
    using r(2) P d [of "m_plan_start p"] inv(3,4,5,7,9) sS sA by (simp add: bounds_inv_def del: not_None_eq)
  moreover have "ptimes ?p' = ptimes p" using d by (auto simp: dom_def)
  ultimately show ?thesis
    using r(1) tr A by (intro exI [of _ t] exI [of _ m] exI [of _ ?p1]) simp
qed

section \<open>Candidates\<close>

definition window_ok :: "planner \<Rightarrow> int \<Rightarrow> int \<Rightarrow> int \<Rightarrow> bool" where
  "window_ok p a d r \<longleftrightarrow> (\<forall>u. a \<le> u \<and> u < a + d \<longrightarrow> r \<le> avail p u)"

text \<open>The points after \<open>c\<close> where enough is left, and those among them from which the
  request can run.\<close>

definition open_times :: "planner \<Rightarrow> int \<Rightarrow> int \<Rightarrow> int set" where
  "open_times p r c = {a \<in> ptimes p. c < a \<and> r \<le> avail p a}"

definition start_times :: "planner \<Rightarrow> int \<Rightarrow> int \<Rightarrow> int \<Rightarrow> int \<Rightarrow> int set" where
  "start_times p on d r c = {a \<in> ptimes p. c < a \<and> on \<le> a \<and> window_ok p a d r}"

definition tracked_upto :: "planner \<Rightarrow> int \<Rightarrow> int \<Rightarrow> bool" where
  "tracked_upto p r c \<longleftrightarrow> tracked p = {a \<in> ptimes p. a \<le> c \<and> r \<le> avail p a}"

lemma finite_times: "finite (ptimes p)"
  by (simp add: sp_map_def finite_dom_map_of)

lemma finite_open: "finite (open_times p r c)" and finite_start: "finite (start_times p on d r c)"
  using finite_times [of p] by (auto simp: open_times_def start_times_def)

lemma start_open: "1 \<le> d \<Longrightarrow> start_times p on d r c \<subseteq> open_times p r c"
  by (auto simp: start_times_def open_times_def window_ok_def)

lemma mintime_open:
  assumes "planner_inv p" and "tracked_upto p r c"
  shows "mt_tree_get_mintime r p =
    (if open_times p r c = {} then None else Some (Min (open_times p r c)))"
proof -
  note inv = planner_invD [OF assms(1)]
  let ?M = "sp_map (m_sched_point_tree p)" and ?m = "m_mt_resource_tree p"
  have mt: "mt_ok ?m" and lk: "\<And>a. mt_map ?m a = linked (?M a)" using inv(1) by (auto simp: trees_ok_def)
  have iff: "(\<exists>v. mt_map ?m a = Some v \<and> r \<le> v) \<longleftrightarrow> a \<in> open_times p r c" for a
  proof (cases "?M a")
    case None
    then show ?thesis by (auto simp: lk open_times_def)
  next
    case (Some q)
    note P = points_invD [OF inv(2) Some]
    from P(9) assms(2) Some have "in_mt_resource_tree q \<longleftrightarrow> \<not> (a \<le> c \<and> r \<le> avail p a)"
      by (auto simp: tracked_upto_def)
    with Some P(2,4) show ?thesis by (auto simp: lk open_times_def)
  qed
  have "\<forall>a\<in>dom (mt_map ?m). a < int64_max"
    using points_invD(8) [OF inv(2)] inv(9) by (fastforce simp: lk bounds_inv_def linked_def split: option.splits)
  from get_mintime_ok [OF mt this, of r] show ?thesis
  proof (cases "get_mintime r ?m")
    case None
    with get_mintime_ok [OF mt \<open>\<forall>a\<in>dom (mt_map ?m). a < int64_max\<close>, of r] have "open_times p r c = {}"
      using iff by (fastforce simp: set_eq_iff)
    with None show ?thesis by (simp add: mt_tree_get_mintime_def)
  next
    case (Some a)
    with get_mintime_ok [OF mt \<open>\<forall>a\<in>dom (mt_map ?m). a < int64_max\<close>, of r] iff
    have a: "a \<in> open_times p r c" and low: "\<And>b. b \<in> open_times p r c \<Longrightarrow> a \<le> b" by auto
    then have "Min (open_times p r c) = a" by (intro Min_eqI finite_open) auto
    with Some a show ?thesis by (auto simp: mt_tree_get_mintime_def)
  qed
qed

lemma span_ok_window:
  assumes "planner_inv p" and "a \<in> ptimes p" and "1 \<le> d" "d \<le> int64_max"
  shows "span_ok_loop (a + i64 d) r (sp_from a (m_sched_point_tree p)) \<longleftrightarrow> window_ok p a d r"
proof -
  note inv = planner_invD [OF assms(1)]
  let ?t = "m_sched_point_tree p"
  from assms(2) obtain q where q: "sp_map ?t a = Some q" by blast
  then have q': "q \<in> set (inorder ?t)" "at q = a" using inv(10) by (simp_all add: sp_map_iff)
  then have st: "get_state a ?t = Some q" using inv(10) by (auto simp: get_state_Some)
  have "m_plan_start p \<le> a" using points_invD(7) [OF inv(2) q] .
  note walk = walk_times [OF assms(1) this st, of "a + d" "\<lambda>v. r \<le> v"]
  have w: "walk_from (Some q) p = sp_from a ?t" using q' by (simp add: walk_from_def)
  have "sorted_wrt (<) (map at (sp_from a ?t))"
    using sp_from_filter [OF inv(10), of a] q sorted_walk [OF inv(10)] by simp
  from span_ok_loop_iff [OF this] walk w assms(3,4) show ?thesis
    by (simp add: window_ok_def i64_dur)
qed

text \<open>The last point carries no load, so whenever a point fails, a later one fits.\<close>

lemma last_point_free:
  assumes "planner_inv p" and "r \<le> m_total_resources p"
  shows "window_ok p (Max (ptimes p)) d r" and "ptimes p \<noteq> {}"
proof -
  note inv = planner_invD [OF assms(1)]
  have "covers s u \<Longrightarrow> u < Max (ptimes p)" if "(k, s) \<in> set (m_span_lookup p)" for k s u
  proof -
    assume u: "covers s u"
    have "span_last s \<in> ptimes p" using inv(6) [OF that] by (auto simp: span_inv_def)
    then have "span_last s \<le> Max (ptimes p)" using finite_times by (rule Max_ge [rotated])
    with u show ?thesis by (simp add: covers_def)
  qed
  then have "load (m_span_lookup p) u = 0" if "Max (ptimes p) \<le> u" for u
    using that by (intro load_zero) force
  then show "window_ok p (Max (ptimes p)) d r" using assms(2) by (auto simp: window_ok_def avail_def)
  show "ptimes p \<noteq> {}" using inv(3) by auto
qed

section \<open>The search loop\<close>

text \<open>Everything but the trees and the tracker stays.\<close>

definition same_plan :: "planner \<Rightarrow> planner \<Rightarrow> bool" where
  "same_plan p p' \<longleftrightarrow> (\<exists>t m A. p' = p\<lparr>m_sched_point_tree := t, m_mt_resource_tree := m, m_avail_time_iter := A\<rparr>)
     \<and> ptimes p' = ptimes p"

lemma same_plan_refl: "same_plan p p"
  unfolding same_plan_def
  by (intro conjI exI [of _ "m_sched_point_tree p"] exI [of _ "m_mt_resource_tree p"]
        exI [of _ "m_avail_time_iter p"]) simp_all

lemma same_plan_trans:
  assumes "same_plan p p'" and "same_plan p' p''"
  shows "same_plan p p''"
proof -
  from assms(1) obtain t m A where 1: "p' = p\<lparr>m_sched_point_tree := t, m_mt_resource_tree := m, m_avail_time_iter := A\<rparr>"
    by (auto simp: same_plan_def)
  from assms(2) obtain t' m' A' where "p'' = p'\<lparr>m_sched_point_tree := t', m_mt_resource_tree := m', m_avail_time_iter := A'\<rparr>"
    by (auto simp: same_plan_def)
  with 1 have "p'' = p\<lparr>m_sched_point_tree := t', m_mt_resource_tree := m', m_avail_time_iter := A'\<rparr>" by simp
  with assms show ?thesis by (auto simp: same_plan_def)
qed

lemma same_planD:
  assumes "same_plan p p'"
  shows "m_span_lookup p' = m_span_lookup p" "m_total_resources p' = m_total_resources p"
    "m_plan_start p' = m_plan_start p" "m_plan_end p' = m_plan_end p" "m_span_counter p' = m_span_counter p"
    "m_avail_time_iter_set p' = m_avail_time_iter_set p" "m_current_request p' = m_current_request p"
    "ptimes p' = ptimes p" "avail p' = avail p" "window_ok p' = window_ok p"
  using assms by (auto simp: same_plan_def avail_def fun_eq_iff window_ok_def)

lemma same_plan_sets:
  assumes "same_plan p p'"
  shows "open_times p' = open_times p" "start_times p' = start_times p"
  using same_planD [OF assms] by (auto simp: open_times_def start_times_def fun_eq_iff)

lemma open_times_step:
  assumes "a = Min (open_times p r c)" and "open_times p r c \<noteq> {}"
  shows "a \<in> open_times p r c" and "open_times p r a = open_times p r c - {a}"
    and "1 \<le> d \<Longrightarrow> start_times p on d r c - {a} = start_times p on d r a"
proof -
  have low: "\<And>b. b \<in> open_times p r c \<Longrightarrow> a \<le> b" using assms finite_open by simp
  show a: "a \<in> open_times p r c" using assms finite_open by simp
  then show "open_times p r a = open_times p r c - {a}"
    using low by (force simp: open_times_def)
  show "start_times p on d r c - {a} = start_times p on d r a" if "1 \<le> d"
  proof -
    have "a < b" if "b \<in> start_times p on d r c" "b \<noteq> a" for b
      using low [of b] start_open [OF \<open>1 \<le> d\<close>, of p on r c] that by force
    with a show ?thesis by (force simp: start_times_def open_times_def)
  qed
qed

lemma track_next:
  assumes "planner_inv p" and "tracked_upto p r c" and "a = Min (open_times p r c)" and "open_times p r c \<noteq> {}"
  shows "\<exists>p1. mt_tree_remove (Some a) p = Some (0, p1) \<and> planner_inv (track_points a p1)
    \<and> same_plan p (track_points a p1) \<and> tracked_upto (track_points a p1) r a \<and> m_plan_end p1 = m_plan_end p"
proof -
  have a: "a \<in> ptimes p" "c < a" "r \<le> avail p a" using open_times_step(1) [OF assms(3,4)] by (auto simp: open_times_def)
  then have "a \<notin> tracked p" using assms(2) by (simp add: tracked_upto_def)
  from track_ok [OF assms(1) a(1) this] obtain t m p1 where
    1: "mt_tree_remove (Some a) p = Some (0, p1)" "planner_inv (track_points a p1)"
    "track_points a p1 = p\<lparr>m_sched_point_tree := t, m_mt_resource_tree := m, m_avail_time_iter := om_assign a (Some a) (m_avail_time_iter p)\<rparr>"
    "m_plan_end p1 = m_plan_end p" "ptimes (track_points a p1) = ptimes p" "tracked (track_points a p1) = insert a (tracked p)"
    by blast
  have sp: "same_plan p (track_points a p1)" using 1(3,5) by (auto simp: same_plan_def)
  have "b \<le> c" if "b \<in> ptimes p" "r \<le> avail p b" "b < a" for b
  proof (rule ccontr)
    assume "\<not> b \<le> c"
    with that have "b \<in> open_times p r c" by (simp add: open_times_def)
    with Min_le [OF finite_open this] assms(3) that(3) show False by simp
  qed
  then have "tracked_upto (track_points a p1) r a"
    using 1(6) assms(2) a same_planD(8,9) [OF sp] unfolding tracked_upto_def by force
  with 1 sp show ?thesis by blast
qed

lemma later_start:
  assumes "planner_inv p" and "r \<le> m_total_resources p" and "a \<in> ptimes p" "on \<le> a" "\<not> window_ok p a d r"
  shows "start_times p on d r a \<noteq> {}"
proof -
  note L = last_point_free [OF assms(1,2)]
  have "Max (ptimes p) \<in> ptimes p" using L(2) finite_times by simp
  moreover have "a < Max (ptimes p)"
    using Max_ge [OF finite_times assms(3)] L(1) [of d] assms(5) by (cases "a = Max (ptimes p)") auto
  ultimately have "Max (ptimes p) \<in> start_times p on d r a"
    using assms(4) L(1) [of d] by (simp add: start_times_def)
  then show ?thesis by blast
qed

definition search_result :: "planner \<Rightarrow> int set \<Rightarrow> int \<Rightarrow> int \<Rightarrow> int" where
  "search_result p C d tm =
     (if C = {} then tm else if Min C + d > m_plan_end p then - 1 else Min C)"

lemma avail_at_loop_ok:
  assumes "planner_inv p" and "tracked_upto p r c" and "1 \<le> d" "d \<le> int64_max" "r \<le> m_total_resources p"
    and "\<And>a. a \<in> ptimes p \<Longrightarrow> a + d \<le> int64_max"
  shows "\<exists>tm' p' c'. avail_at_loop on d r tm p = Some (search_result p (start_times p on d r c) d tm', p')
    \<and> planner_inv p' \<and> same_plan p p' \<and> tracked_upto p' r c' \<and> (tm' = tm \<or> tm' = - 1)
    \<and> (start_times p on d r c \<noteq> {} \<longrightarrow> c' = Min (start_times p on d r c))"
  using assms
proof (induction "card (open_times p r c)" arbitrary: p c tm rule: less_induct)
  case less
  note inv = planner_invD [OF less.prems(1)]
  let ?C = "start_times p on d r c"
  show ?case
  proof (cases "open_times p r c = {}")
    case True
    then have "?C = {}" using start_open [OF less.prems(3)] by blast
    moreover have "avail_at_loop on d r tm p = Some (tm, p)"
      using mintime_open [OF less.prems(1,2)] True by (subst avail_at_loop.simps) simp
    ultimately show ?thesis
      using less.prems(1,2) same_plan_refl [of p] by (auto simp: search_result_def)
  next
    case False
    define a where "a = Min (open_times p r c)"
    note st = open_times_step [OF a_def False]
    have mint: "mt_tree_get_mintime r p = Some a" using mintime_open [OF less.prems(1,2)] False by (simp add: a_def)
    have ap: "a \<in> ptimes p" using st(1) by (simp add: open_times_def)
    obtain p1 where p1: "mt_tree_remove (Some a) p = Some (0, p1)" "planner_inv (track_points a p1)"
      "same_plan p (track_points a p1)" "tracked_upto (track_points a p1) r a" "m_plan_end p1 = m_plan_end p"
      using track_next [OF less.prems(1,2) a_def False] by blast
    let ?p' = "track_points a p1"
    note sp = same_planD [OF p1(3)] same_plan_sets [OF p1(3)]
    have IH: "\<exists>tm' p'' c'. avail_at_loop on d r tm1 ?p' = Some (search_result p (start_times p on d r a) d tm', p'')
      \<and> planner_inv p'' \<and> same_plan p p'' \<and> tracked_upto p'' r c' \<and> (tm' = tm1 \<or> tm' = - 1)
      \<and> (start_times p on d r a \<noteq> {} \<longrightarrow> c' = Min (start_times p on d r a))" for tm1
    proof -
      have "card (open_times ?p' r a) < card (open_times p r c)"
        using st(1,2) sp(11) finite_open [of p r c] by (simp add: card_Diff1_less del: card_Diff_insert)
      from less.hyps [OF this p1(2,4) less.prems(3,4), of tm1] less.prems(5,6) sp same_plan_trans [OF p1(3)]
      show ?thesis unfolding search_result_def by auto blast+
    qed
    have neg: "start_times p on d r c = start_times p on d r a" if "a \<notin> ?C"
      using st(3) [OF less.prems(3), of on] that by simp
    consider "a < on" | "on \<le> a" "window_ok p a d r" | "on \<le> a" "\<not> window_ok p a d r" by linarith
    then show ?thesis
    proof cases
      case 1
      then have "a \<notin> ?C" by (simp add: start_times_def)
      with neg IH [of "- 1"] mint p1(1) 1 show ?thesis
        by (subst avail_at_loop.simps) auto
    next
      case 2
      have "a \<in> ?C" using 2 st(1) by (simp add: start_times_def open_times_def)
      moreover have "Min ?C = a"
        using calculation start_open [OF less.prems(3), of p on r c] finite_open [of p r c]
        by (intro Min_eqI finite_start) (auto simp: a_def)
      moreover have "i64 (a + d) = a + d"
        using less.prems(3) less.prems(6) [OF ap] points_invD(7) [OF inv(2)] ap inv(9)
        by (intro i64_sum) (force simp: bounds_inv_def)+
      moreover have "span_ok a d r p = Some (True, p)"
        using span_ok_window [OF less.prems(1) ap less.prems(3,4)] 2 by (simp add: span_ok_def)
      ultimately show ?thesis
        using mint p1 2 by (subst avail_at_loop.simps) (auto simp: search_result_def)
    next
      case 3
      then have "a \<notin> ?C" by (simp add: start_times_def)
      moreover have "start_times p on d r a \<noteq> {}" using later_start [OF less.prems(1,5) ap 3] .
      moreover have "span_ok a d r p = Some (False, ?p')"
        using span_ok_window [OF less.prems(1) ap less.prems(3,4)] 3 p1(1) by (simp add: span_ok_def)
      ultimately show ?thesis
        using neg IH [of a] mint 3 by (subst avail_at_loop.simps) (auto simp: search_result_def)
    qed
  qed
qed

section \<open>First and next\<close>

text \<open>The answer to a request whose possible starting points are \<open>C\<close>.\<close>

definition earliest :: "planner \<Rightarrow> int set \<Rightarrow> int \<Rightarrow> int result" where
  "earliest p C d = (if C = {} \<or> Min C + d > m_plan_end p then Inl ENOENT else Inr (Min C))"

lemma search_result_earliest:
  assumes "\<And>a. a \<in> C \<Longrightarrow> 0 \<le> a" and "finite C"
  shows "(if search_result p C d (- 1) = - 1 then Inl ENOENT else Inr (search_result p C d (- 1))) = earliest p C d"
proof (cases "C = {}")
  case False
  with assms have "0 \<le> Min C" by simp
  with False show ?thesis by (simp add: search_result_def earliest_def)
qed (simp add: search_result_def earliest_def)

lemma ptimes_range:
  assumes "planner_inv p" and "a \<in> ptimes p"
  shows "m_plan_start p \<le> a" and "a \<le> m_plan_end p"
  using assms points_invD(7,8) [OF planner_invD(2) [OF assms(1)]] by blast+

lemma inv_request:
  assumes "planner_inv p"
  shows "planner_inv (copy_req x y z (p\<lparr>m_avail_time_iter_set := b\<rparr>))"
proof -
  let ?p = "copy_req x y z (p\<lparr>m_avail_time_iter_set := b\<rparr>)"
  have "points_inv M ?p = points_inv M p" "span_inv M ?p = span_inv M p" "bounds_inv ?p = bounds_inv p" for M
    by (simp_all add: points_inv_def avail_def span_inv_def bounds_inv_def copy_req_def fun_eq_iff)
  with assms show ?thesis unfolding planner_inv_def by (simp add: copy_req_def)
qed

lemma avail_at_ok:
  assumes "planner_inv p" and "tracked_upto p r c" and "1 \<le> d" "m_plan_end p + d \<le> int64_max" "r \<le> m_total_resources p"
    and "0 \<le> m_plan_start p"
  shows "\<exists>t p' c'. avail_at on d r p = Some (t, p') \<and> planner_inv p' \<and> same_plan p p' \<and> tracked_upto p' r c'
    \<and> (if t = - 1 then Inl ENOENT else Inr t) = earliest p (start_times p on d r c) d
    \<and> (start_times p on d r c \<noteq> {} \<longrightarrow> c' = Min (start_times p on d r c))"
proof -
  have "d \<le> int64_max" using assms(4,6) planner_invD(9) [OF assms(1)] by (simp add: bounds_inv_def)
  moreover have "\<And>a. a \<in> ptimes p \<Longrightarrow> a + d \<le> int64_max" using ptimes_range [OF assms(1)] assms(4) by force
  ultimately obtain p' c' where "avail_at on d r p = Some (search_result p (start_times p on d r c) d (- 1), p')"
    "planner_inv p'" "same_plan p p'" "tracked_upto p' r c'"
    "start_times p on d r c \<noteq> {} \<longrightarrow> c' = Min (start_times p on d r c)"
    using avail_at_loop_ok [OF assms(1,2,3) _ assms(5), of on "- 1"] by (auto simp: avail_at_def)
  moreover have "\<And>a. a \<in> start_times p on d r c \<Longrightarrow> 0 \<le> a"
    using ptimes_range(1) [OF assms(1)] assms(6) by (force simp: start_times_def)
  ultimately show ?thesis using search_result_earliest [OF _ finite_start, of p on d r c p d] by blast
qed

lemma avail_time_first_ok:
  assumes "planner_inv p" and "m_plan_start p \<le> on" "on < m_plan_end p" "1 \<le> d" "m_plan_end p + d \<le> int64_max"
    and "0 \<le> r" "r \<le> m_total_resources p" "0 \<le> m_plan_start p"
  shows "\<exists>p' c. planner_avail_time_first (Some p) on d r
      = Some (earliest p {a \<in> ptimes p. on \<le> a \<and> window_ok p a d r} d, Some p')
    \<and> planner_inv p' \<and> m_span_lookup p' = m_span_lookup p \<and> m_total_resources p' = m_total_resources p
    \<and> m_avail_time_iter_set p' \<and> m_current_request p' = \<lparr>req_on_or_after = on, req_duration = d, req_count = r\<rparr>
    \<and> ptimes p' = ptimes p \<and> m_plan_start p' = m_plan_start p \<and> m_plan_end p' = m_plan_end p
    \<and> tracked_upto p' r c
    \<and> ({a \<in> ptimes p. on \<le> a \<and> window_ok p a d r} \<noteq> {} \<longrightarrow> c = Min {a \<in> ptimes p. on \<le> a \<and> window_ok p a d r})"
proof -
  note inv = planner_invD [OF assms(1)]
  let ?C = "{a \<in> ptimes p. on \<le> a \<and> window_ok p a d r}"
  obtain t m where restore: "restore_track_points p = Some (0, p\<lparr>m_sched_point_tree := t, m_mt_resource_tree := m, m_avail_time_iter := []\<rparr>)"
    and rinv: "planner_inv (p\<lparr>m_sched_point_tree := t, m_mt_resource_tree := m, m_avail_time_iter := []\<rparr>)"
    and dt: "dom (sp_map t) = ptimes p"
    using restore_inv [OF assms(1), of p] by auto
  let ?p1 = "p\<lparr>m_sched_point_tree := t, m_mt_resource_tree := m, m_avail_time_iter := []\<rparr>"
  let ?p2 = "copy_req on d r (?p1\<lparr>m_avail_time_iter_set := True\<rparr>)"
  have i: "i64 r = r" using assms(6,7) inv(9) by (intro i64_small) (auto simp: bounds_inv_def)
  have p2: "planner_inv ?p2" using rinv by (rule inv_request)
  have T2: "ptimes ?p2 = ptimes p" "avail ?p2 = avail p" using dt by (simp_all add: copy_req_def avail_def fun_eq_iff)
  let ?c = "m_plan_start p - 1"
  have "tracked_upto ?p2 r ?c"
    using ptimes_range(1) [OF assms(1)] T2 by (force simp: tracked_upto_def copy_req_def)
  from avail_at_ok [OF p2 this assms(4), of on] assms(5,7,8) obtain tm p' c' where
    res: "avail_at on d r ?p2 = Some (tm, p')" "planner_inv p'" "same_plan ?p2 p'" "tracked_upto p' r c'"
    "(if tm = - 1 then Inl ENOENT else Inr tm) = earliest ?p2 (start_times ?p2 on d r ?c) d"
    "start_times ?p2 on d r ?c \<noteq> {} \<longrightarrow> c' = Min (start_times ?p2 on d r ?c)"
    by (auto simp: copy_req_def)
  have C: "start_times ?p2 on d r ?c = ?C"
    using assms(2) T2 by (auto simp: start_times_def window_ok_def)
  note sp = same_planD [OF res(3)]
  have "planner_avail_time_first (Some p) on d r = Some (earliest p ?C d, Some p')"
    using assms(2-4,7) restore res(1,5) C
    by (simp add: planner_avail_time_first_def i Let_def earliest_def) (simp add: copy_req_def)
  then show ?thesis
    using res(2,4,6) sp C i dt by (intro exI [of _ p'] exI [of _ c']) (simp add: copy_req_def)
qed

lemma avail_time_next_ok:
  assumes "planner_inv p" and "m_avail_time_iter_set p"
    and "m_current_request p = \<lparr>req_on_or_after = on, req_duration = d, req_count = r\<rparr>" and "tracked_upto p r c"
    and "1 \<le> d" "m_plan_end p + d \<le> int64_max" "r \<le> m_total_resources p" "0 \<le> m_plan_start p"
  shows "\<exists>p' c'. planner_avail_time_next (Some p)
      = Some (earliest p {a \<in> ptimes p. c < a \<and> on \<le> a \<and> window_ok p a d r} d, Some p')
    \<and> planner_inv p' \<and> same_plan p p' \<and> tracked_upto p' r c'
    \<and> ({a \<in> ptimes p. c < a \<and> on \<le> a \<and> window_ok p a d r} \<noteq> {}
        \<longrightarrow> c' = Min {a \<in> ptimes p. c < a \<and> on \<le> a \<and> window_ok p a d r})"
  using avail_at_ok [OF assms(1,4-8), of on] assms(2,3,7)
  by (auto simp: planner_avail_time_next_def Let_def start_times_def)

end
