(* ===== verification/Planner_Life.thy ===== *)
theory Planner_Life
  imports Planner_Avail
begin

text \<open>
  The life of a planner: construction, requests that are turned down, reset, copying, and
  the change of the total.
\<close>

section \<open>A planner with one free point\<close>

text \<open>What construction and reinitialisation leave behind.\<close>

lemma fresh_planner_ok:
  assumes "m_sched_point_tree p = Null" "m_mt_resource_tree p = Null" "m_avail_time_iter p = []" "m_span_lookup p = []"
    and "0 \<le> m_total_resources p" "m_total_resources p \<le> int64_max"
    and "- (2 ^ 63) \<le> base" "1 \<le> d" "base + d < int64_max" "d \<le> int64_max"
    and "m_plan_start p = base" "m_plan_end p = base + i64 d" "m_p0 p = Some base"
  obtains t1 t m where
    "sp_tree_insert (zero_point\<lparr>at := base, new_point := b, ref_count := 1, remaining := m_total_resources p\<rparr>) p
      = Some (0, p\<lparr>m_sched_point_tree := t1\<rparr>)"
    "mt_tree_insert (Some base) (p\<lparr>m_sched_point_tree := t1\<rparr>) = Some (0, p\<lparr>m_sched_point_tree := t, m_mt_resource_tree := m\<rparr>)"
    "planner_inv (p\<lparr>m_sched_point_tree := t, m_mt_resource_tree := m, m_avail_time_iter_set := False, m_span_counter := 0\<rparr>)"
proof -
  let ?n = "zero_point\<lparr>at := base, new_point := b, ref_count := 1, remaining := m_total_resources p\<rparr>"
  from sp_tree_insert_ok [of p ?n] assms(1,2) obtain t1 where
    1: "sp_tree_insert ?n p = Some (0, p\<lparr>m_sched_point_tree := t1\<rparr>)" "trees_ok t1 Null" "sp_map t1 = [base \<mapsto> ?n]"
    by (auto simp: zero_point_def)
  from mt_tree_insert_ok [of "p\<lparr>m_sched_point_tree := t1\<rparr>" base ?n] 1(2,3) assms(2) obtain t m where
    2: "mt_tree_insert (Some base) (p\<lparr>m_sched_point_tree := t1\<rparr>) = Some (0, p\<lparr>m_sched_point_tree := t, m_mt_resource_tree := m\<rparr>)"
    "trees_ok t m" "sp_map t = [base \<mapsto> link ?n]"
    by (auto simp: zero_point_def)
  let ?p = "p\<lparr>m_sched_point_tree := t, m_mt_resource_tree := m, m_avail_time_iter_set := False, m_span_counter := 0\<rparr>"
  have "i64 d = d" using assms(8,10) by (intro i64_small) auto
  then have "planner_inv ?p"
    using assms 2 by (intro planner_invI)
      (auto simp: pts_def pt_shows_def pt_fresh_def load_def refs_def bounds_inv_def zero_point_def int64_max_def split: if_splits)
  with 1(1) 2(1) that show thesis by blast
qed

lemma planner_new_ok:
  assumes "0 \<le> n" "n \<le> int64_max" "- (2 ^ 63) \<le> base" "1 \<le> d" "base + d < int64_max" "d \<le> int64_max"
  shows "\<exists>p. planner_new base d n (Some ty) = Some (Inr p) \<and> planner_inv p \<and> m_span_lookup p = []
    \<and> m_total_resources p = n \<and> m_plan_start p = base \<and> m_plan_end p = base + d \<and> m_resource_type p = ty
    \<and> m_span_counter p = 0"
proof -
  have i: "i64 n = n" "i64 d = d" using assms by (auto intro: i64_small)
  let ?p = "planner_default\<lparr>m_total_resources := i64 n, m_resource_type := ty, m_plan_start := base,
    m_plan_end := base + i64 d, m_p0 := Some base\<rparr>"
  obtain t1 t m where
    "sp_tree_insert (zero_point\<lparr>at := base, new_point := True, ref_count := 1, remaining := m_total_resources ?p\<rparr>) ?p
      = Some (0, ?p\<lparr>m_sched_point_tree := t1\<rparr>)"
    "mt_tree_insert (Some base) (?p\<lparr>m_sched_point_tree := t1\<rparr>) = Some (0, ?p\<lparr>m_sched_point_tree := t, m_mt_resource_tree := m\<rparr>)"
    and inv: "planner_inv (?p\<lparr>m_sched_point_tree := t, m_mt_resource_tree := m, m_avail_time_iter_set := False, m_span_counter := 0\<rparr>)"
    by (rule fresh_planner_ok [where p = ?p and base = base and d = d and b = True])
       (use assms i in \<open>auto simp: planner_default_def\<close>)
  then have "planner_init base d n ty = Some (?p\<lparr>m_sched_point_tree := t, m_mt_resource_tree := m, m_avail_time_iter_set := False, m_span_counter := 0\<rparr>)"
    by (simp add: planner_init_def Let_def)
  moreover have "\<not> n > u64 int64_max" using assms(2) by (simp add: u64_def int64_max_def)
  ultimately show ?thesis
    using assms(4) i inv by (auto simp: planner_new_def planner_default_def)
qed

section \<open>Reset\<close>

lemma erase_planner_ok:
  assumes "planner_inv p"
  shows "erase_planner p = Some (0, p\<lparr>m_sched_point_tree := Null, m_mt_resource_tree := Null, m_avail_time_iter := [],
    m_span_lookup := [], m_span_lookup_iter := iter_after_clear (m_span_lookup_iter p)\<rparr>)"
proof -
  note inv = planner_invD [OF assms]
  obtain t m where restore: "restore_track_points p = Some (0, p\<lparr>m_sched_point_tree := t, m_mt_resource_tree := m, m_avail_time_iter := []\<rparr>)"
    and T0: "trees_ok t m"
    and P0: "pts (sp_map t) (m_span_lookup p) (m_total_resources p) (\<lambda>a. refs (m_span_lookup p) a + (if a = m_plan_start p then 1 else 0))"
    and B0: "sp_map t (m_plan_start p) \<noteq> None"
    by (rule inv_restored [OF assms, of p]) simp_all
  let ?p1 = "clear_span_lookup (p\<lparr>m_sched_point_tree := t, m_mt_resource_tree := m, m_avail_time_iter := []\<rparr>)"
  from B0 obtain q where q: "sp_map t (m_plan_start p) = Some q" by blast
  with P0 have "in_mt_resource_tree q" by (auto simp: pts_def pt_fresh_def)
  with mt_tree_remove_ok [of ?p1 "m_plan_start p" q] T0 q obtain t' m' where
    "mt_tree_remove (Some (m_plan_start p)) ?p1 = Some (0, ?p1\<lparr>m_sched_point_tree := t', m_mt_resource_tree := m'\<rparr>)"
    by (auto simp: clear_span_lookup_def)
  moreover have "get_point (m_plan_start p) ?p1 = Some q"
    using get_point_map [of ?p1] T0 q by (simp add: clear_span_lookup_def)
  ultimately show ?thesis
    using restore inv(4) \<open>in_mt_resource_tree q\<close>
    by (simp add: erase_planner_def Let_def sp_destroy_def) (simp add: clear_span_lookup_def)
qed

lemma planner_reset_ok:
  assumes "planner_inv p" and "- (2 ^ 63) \<le> base" "1 \<le> d" "base + d < int64_max" "d \<le> int64_max"
  shows "\<exists>p'. planner_reset (Some p) base d = Some (Inr 0, Some p') \<and> planner_inv p' \<and> m_span_lookup p' = []
    \<and> m_total_resources p' = m_total_resources p \<and> m_plan_start p' = base \<and> m_plan_end p' = base + d"
proof -
  note inv = planner_invD [OF assms(1)]
  have i: "i64 d = d" using assms by (auto intro: i64_small)
  let ?p = "p\<lparr>m_sched_point_tree := Null, m_mt_resource_tree := Null, m_avail_time_iter := [],
    m_span_lookup := [], m_span_lookup_iter := iter_after_clear (m_span_lookup_iter p),
    m_plan_start := base, m_plan_end := base + i64 d, m_p0 := Some base\<rparr>"
  have z: "zero_point\<lparr>at := base, new_point := False, ref_count := 1, remaining := n\<rparr> =
      zero_point\<lparr>at := base, ref_count := 1, remaining := n\<rparr>" for n
    by (simp add: zero_point_def)
  obtain t1 t m where
    "sp_tree_insert (zero_point\<lparr>at := base, new_point := False, ref_count := 1, remaining := m_total_resources ?p\<rparr>) ?p
      = Some (0, ?p\<lparr>m_sched_point_tree := t1\<rparr>)"
    "mt_tree_insert (Some base) (?p\<lparr>m_sched_point_tree := t1\<rparr>) = Some (0, ?p\<lparr>m_sched_point_tree := t, m_mt_resource_tree := m\<rparr>)"
    and inv': "planner_inv (?p\<lparr>m_sched_point_tree := t, m_mt_resource_tree := m, m_avail_time_iter_set := False, m_span_counter := 0\<rparr>)"
    by (rule fresh_planner_ok [where p = ?p and base = base and d = d and b = False])
       (use assms i inv(9) in \<open>auto simp: bounds_inv_def\<close>)
  then have "planner_reset (Some p) base d = Some (Inr 0, Some (?p\<lparr>m_sched_point_tree := t, m_mt_resource_tree := m, m_avail_time_iter_set := False, m_span_counter := 0\<rparr>))"
    using assms(3) z by (simp add: planner_reset_def erase_planner_ok [OF assms(1)] reinitialize_def Let_def)
  with inv' i show ?thesis by auto
qed

section \<open>Requests that are turned down\<close>

lemma add_span_rejected:
  assumes "planner_inv p" and "\<not> fits p s d r" and "- (2 ^ 63) \<le> s" "1 \<le> d" "d \<le> int64_max" "s + d \<le> int64_max"
    and "0 \<le> r" "r \<le> int64_max"
  shows "\<exists>e. planner_add_span (Some p) s d r = Some (Inl e, Some p)"
proof -
  note inv = planner_invD [OF assms(1)]
  have ir: "i64 r = r" using assms(7,8) by (rule i64_small)
  have id: "i64 (s + d - 1) = s + d - 1" using i64_sum [of s "d - 1"] assms by (simp add: add_diff_eq)
  show ?thesis
  proof (cases "m_plan_start p \<le> s")
    case False
    then have "span_new s d r p = (Inl EINVAL, p)"
      by (simp add: span_new_def span_input_check_def not_feasible_def)
    then show ?thesis by (cases "avail_during s d (i64 r) p") (auto simp: planner_add_span_def)
  next
    case True
    note ad = avail_during_eq [OF assms(1) True assms(4-6), of r]
    show ?thesis
    proof (cases "avail_during s d r p")
      case (Inl e)
      then show ?thesis by (simp add: planner_add_span_def ir)
    next
      case (Inr u)
      with ad have "s + d \<le> m_plan_end p" "\<forall>u. s \<le> u \<and> u < s + d \<longrightarrow> r \<le> avail p u"
        by (auto split: if_splits)
      with assms(2,7) True have "m_total_resources p < r" by (auto simp: fits_def)
      then have "span_new s d r p = (Inl ERANGE, p)"
        using True assms(4) \<open>s + d \<le> m_plan_end p\<close>
        by (simp add: span_new_def span_input_check_def not_feasible_def ir id)
      with Inr show ?thesis by (simp add: planner_add_span_def ir)
    qed
  qed
qed

end
