(* ===== verification/Planner_Multi_Correct.thy ===== *)
theory Planner_Multi_Correct
  imports Planner_Multi Planner_Life
begin

text \<open>
  The multi-resource planner keeps its parts in step: a span of the whole is a span of the
  same interval in every part, and the lookup knows which.
\<close>

section \<open>The invariant\<close>

definition part :: "planner_multi_meta \<Rightarrow> planner" where
  "part e = the (meta_planner e)"

definition part_ok :: "planner_multi_meta \<Rightarrow> bool" where
  "part_ok e \<longleftrightarrow> meta_planner e \<noteq> None \<and> planner_inv (part e)"

definition parts :: "planner_multi \<Rightarrow> planner list" where
  "parts pm = map part (m_types_totals_planners pm)"

definition ids_ok :: "planner_multi_meta list \<Rightarrow> int list \<Rightarrow> bool" where
  "ids_ok es ids \<longleftrightarrow> length ids = length es
     \<and> (\<forall>i<length es. ids ! i = - 1 \<or> om_find (ids ! i) (m_span_lookup (part (es ! i))) \<noteq> None)"

definition multi_inv :: "planner_multi \<Rightarrow> bool" where
  "multi_inv pm \<longleftrightarrow>
     (\<forall>e\<in>set (m_types_totals_planners pm). part_ok e)
     \<and> om_ok (mm_span_lookup pm) \<and> 0 \<le> mm_span_counter pm
     \<and> (\<forall>(k, ids)\<in>set (mm_span_lookup pm). 0 \<le> k \<and> k < mm_span_counter pm
          \<and> ids_ok (m_types_totals_planners pm) ids)
     \<and> (\<forall>k ids j js. (k, ids) \<in> set (mm_span_lookup pm) \<and> (j, js) \<in> set (mm_span_lookup pm) \<and> k \<noteq> j \<longrightarrow>
          (\<forall>i<length ids. ids ! i \<noteq> - 1 \<longrightarrow> ids ! i \<noteq> js ! i))"

lemma multi_invD:
  assumes "multi_inv pm"
  shows "\<And>e. e \<in> set (m_types_totals_planners pm) \<Longrightarrow> part_ok e" and "om_ok (mm_span_lookup pm)"
    and "0 \<le> mm_span_counter pm"
    and "\<And>k ids. (k, ids) \<in> set (mm_span_lookup pm) \<Longrightarrow>
          0 \<le> k \<and> k < mm_span_counter pm \<and> ids_ok (m_types_totals_planners pm) ids"
    and "\<And>k ids j js i. (k, ids) \<in> set (mm_span_lookup pm) \<Longrightarrow> (j, js) \<in> set (mm_span_lookup pm) \<Longrightarrow> k \<noteq> j
        \<Longrightarrow> i < length ids \<Longrightarrow> ids ! i \<noteq> - 1 \<Longrightarrow> ids ! i \<noteq> js ! i"
  using assms unfolding multi_inv_def by (blast, blast, blast, fast, blast)

section \<open>Availability\<close>

lemma others_met_iff:
  assumes "length es = length rs"
  shows "others_met t d es rs = Inr () \<longleftrightarrow>
    (\<forall>i<length es. planner_avail_during (meta_planner (es ! i)) t d (rs ! i) = Inr ())"
  using assms
proof (induction es rs rule: list_induct2)
  case (Cons e es r rs)
  show ?case
  proof (cases "planner_avail_during (meta_planner e) t d r")
    case (Inl err)
    then have "\<not> (\<forall>i<length (e # es). planner_avail_during (meta_planner ((e # es) ! i)) t d ((r # rs) ! i) = Inr ())"
      by (auto intro!: exI [of _ 0])
    with Inl show ?thesis by simp
  next
    case (Inr u)
    with Cons.IH show ?thesis by (simp add: All_less_Suc2)
  qed
qed simp

lemma planner_avail_during_iff:
  assumes "planner_inv p" and "m_plan_start p \<le> t" "1 \<le> d" "d \<le> int64_max" "t + d \<le> int64_max" "0 \<le> r" "r \<le> int64_max"
  shows "planner_avail_during (Some p) t d r = Inr () \<longleftrightarrow>
    r \<le> m_total_resources p \<and> t + d \<le> m_plan_end p \<and> (\<forall>u. t \<le> u \<and> u < t + d \<longrightarrow> r \<le> avail p u)"
  using assms avail_during_eq [OF assms(1-5), of r]
  by (auto simp: planner_avail_during_def i64_small)

lemma multi_avail_during_iff:
  assumes "multi_inv pm" and "length rs = length (parts pm)" "1 \<le> d" "d \<le> int64_max" "t + d \<le> int64_max"
    and "\<And>i. i < length rs \<Longrightarrow> m_plan_start (parts pm ! i) \<le> t \<and> 0 \<le> rs ! i \<and> rs ! i \<le> int64_max"
  shows "planner_multi_avail_during (Some pm) t d (Some rs) = Inr () \<longleftrightarrow>
    (\<forall>i<length rs. fits (parts pm ! i) t d (rs ! i))"
proof -
  let ?es = "m_types_totals_planners pm"
  have len: "length ?es = length rs" using assms(2) by (simp add: parts_def)
  have e: "planner_avail_during (meta_planner (?es ! i)) t d (rs ! i) = Inr () \<longleftrightarrow> fits (parts pm ! i) t d (rs ! i)"
    if "i < length rs" for i
  proof -
    have "part_ok (?es ! i)" using assms(1) that len by (simp add: multi_inv_def)
    then have "meta_planner (?es ! i) = Some (parts pm ! i)" "planner_inv (parts pm ! i)"
      using that len by (auto simp: part_ok_def part_def parts_def)
    with planner_avail_during_iff [of "parts pm ! i" t d "rs ! i"] assms(3-5) assms(6) [OF that] show ?thesis
      by (auto simp: fits_def)
  qed
  have "planner_multi_avail_during (Some pm) t d (Some rs) = others_met t d ?es rs"
    using len by (simp add: planner_multi_avail_during_def get_planners_size_def)
  with others_met_iff [OF len, of t d] e len show ?thesis by simp
qed

section \<open>Adding a span\<close>

definition added :: "int \<Rightarrow> int \<Rightarrow> int \<Rightarrow> planner_multi_meta \<Rightarrow> planner_multi_meta \<Rightarrow> int \<Rightarrow> bool" where
  "added s d r e e' k \<longleftrightarrow> part_ok e' \<and> resource_type e' = resource_type e \<and> resource_total e' = resource_total e
     \<and> k = m_span_counter (part e) + 1 \<and> m_span_counter (part e') = k
     \<and> om_find k (m_span_lookup (part e)) = None
     \<and> m_span_lookup (part e') = om_assign k (granted k s d r) (m_span_lookup (part e))
     \<and> m_total_resources (part e') = m_total_resources (part e)
     \<and> m_plan_start (part e') = m_plan_start (part e) \<and> m_plan_end (part e') = m_plan_end (part e)"

lemma part_upd [simp]: "part (e\<lparr>meta_planner := Some p\<rparr>) = p"
  by (simp add: part_def)

lemma add_part:
  assumes "part_ok e" and "fits (part e) s d r" "1 \<le> d" "d \<le> int64_max" "m_span_counter (part e) < int64_max"
  obtains p' where "planner_add_span (meta_planner e) s d r = Some (Inr (m_span_counter (part e) + 1), Some p')"
    and "added s d r e (e\<lparr>meta_planner := Some p'\<rparr>) (m_span_counter (part e) + 1)"
proof -
  have e: "meta_planner e = Some (part e)" "planner_inv (part e)" using assms(1) by (auto simp: part_ok_def part_def)
  have "om_find (m_span_counter (part e) + 1) (m_span_lookup (part e)) = None"
    using planner_invD(6) [OF e(2)] by (force simp: om_find_None_iff span_inv_def)
  moreover from planner_add_span_ok [OF e(2) assms(2-5)] obtain p' where
    "planner_add_span (Some (part e)) s d r = Some (Inr (m_span_counter (part e) + 1), Some p')" "planner_inv p'"
    "m_span_lookup p' = om_assign (m_span_counter (part e) + 1) (granted (m_span_counter (part e) + 1) s d r) (m_span_lookup (part e))"
    "m_total_resources p' = m_total_resources (part e)" "m_plan_start p' = m_plan_start (part e)"
    "m_plan_end p' = m_plan_end (part e)" "m_span_counter p' = m_span_counter (part e) + 1"
    by blast
  ultimately show thesis
    using e(1) by (intro that [of p']) (simp_all add: added_def part_ok_def part_upd)
qed

lemma multi_add_loop_ok:
  assumes "length es = length rs" and "1 \<le> d" "d \<le> int64_max"
    and "\<forall>i<length es. part_ok (es ! i) \<and> fits (part (es ! i)) s d (rs ! i) \<and> m_span_counter (part (es ! i)) < int64_max"
  shows "\<exists>ids es'. multi_add_loop s d es rs = Some (Inr ids, es') \<and> length ids = length es \<and> length es' = length es
    \<and> (\<forall>i<length es. added s d (rs ! i) (es ! i) (es' ! i) (ids ! i))"
  using assms(1,4)
proof (induction es rs rule: list_induct2)
  case (Cons e es r rs)
  have 0: "part_ok e" "fits (part e) s d r" "m_span_counter (part e) < int64_max"
    using Cons.prems [rule_format, of 0] by auto
  obtain p' where p': "planner_add_span (meta_planner e) s d r = Some (Inr (m_span_counter (part e) + 1), Some p')"
    "added s d r e (e\<lparr>meta_planner := Some p'\<rparr>) (m_span_counter (part e) + 1)"
    using add_part [OF 0(1,2) assms(2,3) 0(3)] .
  have "\<forall>i<length es. part_ok (es ! i) \<and> fits (part (es ! i)) s d (rs ! i) \<and> m_span_counter (part (es ! i)) < int64_max"
    using Cons.prems by (metis Suc_less_eq length_Cons nth_Cons_Suc)
  from Cons.IH [OF this] obtain ids es' where
    "multi_add_loop s d es rs = Some (Inr ids, es')" "length ids = length es" "length es' = length es"
    "\<forall>i<length es. added s d (rs ! i) (es ! i) (es' ! i) (ids ! i)"
    by blast
  with p' show ?case
    by (intro exI [of _ "(m_span_counter (part e) + 1) # ids"] exI [of _ "e\<lparr>meta_planner := Some p'\<rparr> # es'"])
       (simp add: All_less_Suc2)
qed simp

lemma planner_multi_add_span_ok:
  assumes "multi_inv pm" and "length rs = length (parts pm)" "1 \<le> d" "d \<le> int64_max" "mm_span_counter pm < int64_max"
    and "\<And>i. i < length rs \<Longrightarrow> fits (parts pm ! i) s d (rs ! i) \<and> m_span_counter (parts pm ! i) < int64_max"
  shows "\<exists>pm' ids. planner_multi_add_span (Some pm) s d (Some rs) = Some (Inr (mm_span_counter pm), Some pm')
    \<and> multi_inv pm' \<and> mm_span_counter pm' = mm_span_counter pm + 1
    \<and> mm_span_lookup pm' = om_assign (mm_span_counter pm) ids (mm_span_lookup pm)
    \<and> length (parts pm') = length (parts pm) \<and> length ids = length rs
    \<and> (\<forall>i<length rs. ids ! i \<noteq> - 1 \<and> m_span_lookup (parts pm' ! i)
         = om_assign (ids ! i) (granted (ids ! i) s d (rs ! i)) (m_span_lookup (parts pm ! i)))"
proof -
  let ?es = "m_types_totals_planners pm" and ?k = "mm_span_counter pm"
  note inv = multi_invD [OF assms(1)]
  note om = inv(2) and c0 = inv(3) and K = inv(4) and D = inv(5)
  have ok: "\<forall>e\<in>set ?es. part_ok e" using inv(1) by blast
  have len: "length ?es = length rs" using assms(2) by (simp add: parts_def)
  have "\<forall>i<length ?es. part_ok (?es ! i) \<and> fits (part (?es ! i)) s d (rs ! i) \<and> m_span_counter (part (?es ! i)) < int64_max"
    using ok assms(6) len by (auto simp: parts_def)
  from multi_add_loop_ok [OF len assms(3,4) this] obtain ids es' where
    L: "multi_add_loop s d ?es rs = Some (Inr ids, es')" "length ids = length ?es" "length es' = length ?es"
    "\<And>i. i < length ?es \<Longrightarrow> added s d (rs ! i) (?es ! i) (es' ! i) (ids ! i)"
    by blast
  have nk: "om_find ?k (mm_span_lookup pm) = None" using K by (force simp: om_find_None_iff)
  have u: "u64 (?k + 1) = ?k + 1" "i64 ?k = ?k"
    using c0 assms(5) by (auto intro!: u64_id i64_small simp: is_u64_def int64_max_def)
  let ?pm = "pm\<lparr>mm_span_lookup := om_assign ?k ids (mm_span_lookup pm), mm_span_counter := ?k + 1, m_types_totals_planners := es'\<rparr>"
  have idpos: "0 < ids ! i" if "i < length ?es" for i
  proof -
    have "planner_inv (part (?es ! i))" using ok that by (auto simp: part_ok_def)
    from planner_invD(9) [OF this] L(4) [OF that] show ?thesis by (auto simp: added_def bounds_inv_def)
  qed
  have new_ok: "ids_ok es' ids"
    unfolding ids_ok_def
  proof (intro conjI allI impI disjI2)
    show "length ids = length es'" using L(2,3) by simp
    fix i assume i: "i < length es'"
    then have "planner_inv (part (?es ! i))" using ok L(3) by (auto simp: part_ok_def)
    then show "om_find (ids ! i) (m_span_lookup (part (es' ! i))) \<noteq> None"
      using L(3) L(4) [of i] i by (simp add: added_def om_find_assign planner_invD(5))
  qed
  have fresh: "js ! i \<noteq> ids ! i" if "(j, js) \<in> set (mm_span_lookup pm)" "i < length ?es" for j js i
    using K [OF that(1)] that(2) L(4) [OF that(2)] idpos [OF that(2)] by (auto simp: ids_ok_def added_def)
  have old_ok: "ids_ok es' js" if "(j, js) \<in> set (mm_span_lookup pm)" for j js
    unfolding ids_ok_def
  proof (intro conjI allI impI)
    show "length js = length es'" using K [OF that] L(3) by (simp add: ids_ok_def)
    fix i assume i: "i < length es'"
    then have "planner_inv (part (?es ! i))" using ok L(3) by (auto simp: part_ok_def)
    then show "js ! i = - 1 \<or> om_find (js ! i) (m_span_lookup (part (es' ! i))) \<noteq> None"
      using K [OF that] L(3) L(4) [of i] i planner_invD(5) [of "part (?es ! i)"]
      by (auto simp: ids_ok_def added_def om_find_assign)
  qed
  have "multi_inv ?pm"
    unfolding multi_inv_def
  proof (intro conjI)
    show "\<forall>e\<in>set (m_types_totals_planners ?pm). part_ok e"
      using L(3,4) by (auto simp: added_def in_set_conv_nth)
    show "om_ok (mm_span_lookup ?pm)" using om by simp
    show "0 \<le> mm_span_counter ?pm" using c0 by simp
    show "\<forall>(j, js)\<in>set (mm_span_lookup ?pm). 0 \<le> j \<and> j < mm_span_counter ?pm \<and> ids_ok (m_types_totals_planners ?pm) js"
      using set_om_assign [OF om] K old_ok new_ok c0 by fastforce
    show "\<forall>k is j js. (k, is) \<in> set (mm_span_lookup ?pm) \<and> (j, js) \<in> set (mm_span_lookup ?pm) \<and> k \<noteq> j \<longrightarrow>
          (\<forall>i<length is. is ! i \<noteq> - 1 \<longrightarrow> is ! i \<noteq> js ! i)"
    proof (intro allI impI, elim conjE)
      fix k js j "is" i
      assume a: "(k, is) \<in> set (mm_span_lookup ?pm)" "(j, js) \<in> set (mm_span_lookup ?pm)" "k \<noteq> j"
        "i < length is" "is ! i \<noteq> - 1"
      from a(1) have "k = ?k \<and> is = ids \<or> (k, is) \<in> set (mm_span_lookup pm)" by (auto simp: set_om_assign [OF om])
      moreover from a(2) have "j = ?k \<and> js = ids \<or> (j, js) \<in> set (mm_span_lookup pm)" by (auto simp: set_om_assign [OF om])
      ultimately show "is ! i \<noteq> js ! i"
        using a(3-5) D [of k "is" j js i] fresh [of k "is" i] fresh [of j js i] K [of k "is"] L(2)
        by (auto simp: ids_ok_def)
    qed
  qed
  moreover have "planner_multi_add_span (Some pm) s d (Some rs) = Some (Inr ?k, Some ?pm)"
    using L(1) nk len u om_assign_twice [OF om nk, of ids "[]"]
    by (simp add: planner_multi_add_span_def get_planners_size_def om_insert_def Let_def)
  moreover have "ids ! i \<noteq> - 1 \<and> m_span_lookup (parts ?pm ! i) = om_assign (ids ! i) (granted (ids ! i) s d (rs ! i)) (m_span_lookup (parts pm ! i))"
    if "i < length rs" for i
    using L(4) [of i] L(3) that len idpos [of i] by (auto simp: parts_def added_def)
  ultimately show ?thesis
    using L(2,3) len by (intro exI [of _ ?pm] exI [of _ ids]) (simp add: parts_def)
qed

section \<open>Removing a span\<close>

definition dropped :: "planner_multi_meta \<Rightarrow> planner_multi_meta \<Rightarrow> int \<Rightarrow> bool" where
  "dropped e e' k \<longleftrightarrow> part_ok e' \<and> resource_type e' = resource_type e \<and> resource_total e' = resource_total e
     \<and> m_span_lookup (part e') = (if k = - 1 then m_span_lookup (part e) else om_erase k (m_span_lookup (part e)))
     \<and> m_total_resources (part e') = m_total_resources (part e)
     \<and> m_plan_start (part e') = m_plan_start (part e) \<and> m_plan_end (part e') = m_plan_end (part e)"

lemma rem_part:
  assumes "part_ok e" and "om_find k (m_span_lookup (part e)) \<noteq> None" and "k \<noteq> - 1"
  obtains p' where "planner_rem_span (meta_planner e) k = Some (Inr 0, Some p')"
    and "dropped e (e\<lparr>meta_planner := Some p'\<rparr>) k"
proof -
  have e: "meta_planner e = Some (part e)" "planner_inv (part e)" using assms(1) by (auto simp: part_ok_def part_def)
  from assms(2) obtain s where "om_find k (m_span_lookup (part e)) = Some s" by blast
  from planner_rem_span_ok [OF e(2) this] obtain p' where
    "planner_rem_span (Some (part e)) k = Some (Inr 0, Some p')" "planner_inv p'"
    "m_span_lookup p' = om_erase k (m_span_lookup (part e))"
    "m_total_resources p' = m_total_resources (part e)" "m_plan_start p' = m_plan_start (part e)"
    "m_plan_end p' = m_plan_end (part e)"
    by blast
  then show thesis using e(1) assms(3) by (intro that [of p']) (simp_all add: dropped_def part_ok_def)
qed

lemma multi_rem_loop_ok:
  assumes "length es = length ks" and "\<forall>i<length es. part_ok (es ! i)"
    and "\<forall>i<length es. ks ! i = - 1 \<or> om_find (ks ! i) (m_span_lookup (part (es ! i))) \<noteq> None"
  shows "\<exists>es'. multi_rem_loop es ks = Some (Inr 0, es') \<and> length es' = length es
    \<and> (\<forall>i<length es. dropped (es ! i) (es' ! i) (ks ! i))"
  using assms
proof (induction es ks rule: list_induct2)
  case (Cons e es k ks)
  have 0: "part_ok e" "k \<noteq> - 1 \<Longrightarrow> om_find k (m_span_lookup (part e)) \<noteq> None"
    using Cons.prems(1) [rule_format, of 0] Cons.prems(2) [rule_format, of 0] by auto
  have "\<forall>i<length es. part_ok (es ! i)" using Cons.prems(1) by (metis Suc_less_eq length_Cons nth_Cons_Suc)
  moreover have "\<forall>i<length es. ks ! i = - 1 \<or> om_find (ks ! i) (m_span_lookup (part (es ! i))) \<noteq> None"
    using Cons.prems(2) by (metis Suc_less_eq length_Cons nth_Cons_Suc)
  ultimately obtain es' where es': "multi_rem_loop es ks = Some (Inr 0, es')" "length es' = length es"
    "\<forall>i<length es. dropped (es ! i) (es' ! i) (ks ! i)"
    using Cons.IH by blast
  show ?case
  proof (cases "k = - 1")
    case True
    then have "dropped e e k" using 0 by (simp add: dropped_def)
    with es' True show ?thesis by (intro exI [of _ "e # es'"]) (simp add: All_less_Suc2)
  next
    case False
    obtain p' where "planner_rem_span (meta_planner e) k = Some (Inr 0, Some p')"
      "dropped e (e\<lparr>meta_planner := Some p'\<rparr>) k"
      using rem_part [OF 0(1) 0(2) [OF False] False] .
    with es' False show ?thesis
      by (intro exI [of _ "e\<lparr>meta_planner := Some p'\<rparr> # es'"]) (simp add: All_less_Suc2)
  qed
qed simp

lemma planner_multi_rem_span_ok:
  assumes "multi_inv pm" and "om_find k (mm_span_lookup pm) = Some ids"
  shows "\<exists>pm'. planner_multi_rem_span (Some pm) k = Some (Inr 0, Some pm') \<and> multi_inv pm'
    \<and> mm_span_lookup pm' = om_erase k (mm_span_lookup pm) \<and> mm_span_counter pm' = mm_span_counter pm
    \<and> length (parts pm') = length (parts pm)
    \<and> (\<forall>i<length (parts pm). m_span_lookup (parts pm' ! i)
         = (if ids ! i = - 1 then m_span_lookup (parts pm ! i) else om_erase (ids ! i) (m_span_lookup (parts pm ! i))))"
proof -
  let ?es = "m_types_totals_planners pm" and ?L = "mm_span_lookup pm"
  note inv = multi_invD [OF assms(1)]
  have kin: "(k, ids) \<in> set ?L" using assms(2) inv(2) by (simp add: om_find_Some_iff)
  have I: "length ?es = length ids" "\<forall>i<length ?es. ids ! i = - 1 \<or> om_find (ids ! i) (m_span_lookup (part (?es ! i))) \<noteq> None"
    using inv(4) [OF kin] by (auto simp: ids_ok_def)
  obtain es' where L: "multi_rem_loop ?es ids = Some (Inr 0, es')" "length es' = length ?es"
    "\<And>i. i < length ?es \<Longrightarrow> dropped (?es ! i) (es' ! i) (ids ! i)"
    using multi_rem_loop_ok [OF I(1) _ I(2)] inv(1) by force
  let ?pm = "pm\<lparr>m_types_totals_planners := es', mm_span_lookup := om_erase k ?L,
    mm_span_lookup_iter := iter_after_erase k (mm_span_lookup_iter pm)\<rparr>"
  have sub: "(j, js) \<in> set (om_erase k ?L) \<longleftrightarrow> (j, js) \<in> set ?L \<and> j \<noteq> k" for j js
    by (auto simp: om_erase_def)
  have old: "ids_ok es' js" if j: "(j, js) \<in> set ?L" "j \<noteq> k" for j js
    unfolding ids_ok_def
  proof (intro conjI allI impI)
    show "length js = length es'" using inv(4) [OF j(1)] L(2) by (simp add: ids_ok_def)
    fix i assume i: "i < length es'"
    have "js ! i \<noteq> - 1 \<Longrightarrow> ids ! i \<noteq> js ! i" using inv(5) [OF j(1) kin j(2), of i] inv(4) [OF j(1)] i L(2)
      by (auto simp: ids_ok_def)
    then show "js ! i = - 1 \<or> om_find (js ! i) (m_span_lookup (part (es' ! i))) \<noteq> None"
      using L(3) [of i] inv(4) [OF j(1)] i L(2) by (cases "js ! i = - 1") (auto simp: ids_ok_def dropped_def om_find_erase)
  qed
  have "multi_inv ?pm"
    unfolding multi_inv_def
  proof (intro conjI)
    show "\<forall>e\<in>set (m_types_totals_planners ?pm). part_ok e" using L(2,3) by (auto simp: dropped_def in_set_conv_nth)
    show "\<forall>(j, js)\<in>set (mm_span_lookup ?pm). 0 \<le> j \<and> j < mm_span_counter ?pm \<and> ids_ok (m_types_totals_planners ?pm) js"
      using sub inv(4) old by auto
    show "\<forall>j js l ls. (j, js) \<in> set (mm_span_lookup ?pm) \<and> (l, ls) \<in> set (mm_span_lookup ?pm) \<and> j \<noteq> l \<longrightarrow>
          (\<forall>i<length js. js ! i \<noteq> - 1 \<longrightarrow> js ! i \<noteq> ls ! i)"
      using sub inv(5) by simp blast
  qed (use inv(2,3) in simp_all)
  moreover have "planner_multi_rem_span (Some pm) k = Some (Inr 0, Some ?pm)"
    using inv(4) [OF kin] assms(2) L(1) by (simp add: planner_multi_rem_span_def Let_def)
  moreover have "m_span_lookup (parts ?pm ! i) = (if ids ! i = - 1 then m_span_lookup (parts pm ! i)
      else om_erase (ids ! i) (m_span_lookup (parts pm ! i)))" if "i < length (parts pm)" for i
    using L(2) L(3) [of i] that by (simp add: parts_def dropped_def)
  ultimately show ?thesis using L(2) by (intro exI [of _ ?pm]) (simp add: parts_def)
qed

section \<open>The earliest start\<close>

text \<open>The times among a set of candidates where every other part has its share free.\<close>

definition all_met :: "planner_multi_meta list \<Rightarrow> int list \<Rightarrow> int \<Rightarrow> int \<Rightarrow> bool" where
  "all_met es rs d t \<longleftrightarrow> others_met t d es rs = Inr ()"

text \<open>The first point of the set at which the rest is met too, within the plan.\<close>

definition first_met :: "planner \<Rightarrow> int set \<Rightarrow> int \<Rightarrow> (int \<Rightarrow> bool) \<Rightarrow> int result" where
  "first_met p C d P =
     (let G = {a \<in> C. a + d \<le> m_plan_end p \<and> P a} in if G = {} then Inl ENOENT else Inr (Min G))"

lemma multi_first_loop_ok:
  assumes "planner_inv p" and "m_avail_time_iter_set p"
    and "m_current_request p = \<lparr>req_on_or_after = on, req_duration = d, req_count = r\<rparr>" and "tracked_upto p r t"
    and "1 \<le> d" "m_plan_end p + d \<le> int64_max" "r \<le> m_total_resources p" "0 \<le> m_plan_start p"
    and "t \<in> ptimes p" "on \<le> t" "window_ok p t d r" "t + d \<le> m_plan_end p"
  shows "\<exists>p'. multi_first_loop d es rs t (Some p) =
      Some (first_met p {a \<in> ptimes p. t \<le> a \<and> on \<le> a \<and> window_ok p a d r} d (all_met es rs d), Some p')
    \<and> planner_inv p' \<and> same_plan p p'"
  using assms
proof (induction "card {a \<in> ptimes p. t < a}" arbitrary: p t rule: less_induct)
  case less
  let ?C = "{a \<in> ptimes p. t \<le> a \<and> on \<le> a \<and> window_ok p a d r}"
  let ?N = "{a \<in> ptimes p. t < a \<and> on \<le> a \<and> window_ok p a d r}"
  have fin: "finite (ptimes p)" by (rule finite_times)
  have tC: "t \<in> ?C" using less.prems by simp
  show ?case
  proof (cases "all_met es rs d t")
    case True
    let ?G = "{a \<in> ?C. a + d \<le> m_plan_end p \<and> all_met es rs d a}"
    have "t \<in> ?G" using tC True less.prems(12) by simp
    moreover have "finite ?G" using fin by simp
    ultimately have "first_met p ?C d (all_met es rs d) = Inr t"
      by (auto simp: first_met_def Let_def intro!: Min_eqI)
    moreover from True have "multi_first_loop d es rs t (Some p) = Some (Inr t, Some p)"
      by (simp add: multi_first_loop.simps all_met_def)
    ultimately show ?thesis using less.prems(1) same_plan_refl by auto
  next
    case False
    from avail_time_next_ok [OF less.prems(1-8)] obtain p' c' where
      n: "planner_avail_time_next (Some p) = Some (earliest p ?N d, Some p')" "planner_inv p'" "same_plan p p'"
        "tracked_upto p' r c'" "?N \<noteq> {} \<longrightarrow> c' = Min ?N"
      by blast
    note same = same_planD [OF n(3)]
    from False obtain err where e: "others_met t d es rs = Inl err"
      by (cases "others_met t d es rs") (auto simp: all_met_def)
    have NC: "first_met p ?C d (all_met es rs d) = first_met p ?N d (all_met es rs d)"
      using False unfolding first_met_def by (intro arg_cong2 [where f = "\<lambda>G. Let G"]) (auto simp: order_less_le)
    show ?thesis
    proof (cases "?N = {} \<or> Min ?N + d > m_plan_end p")
      case True
      have "\<not> a + d \<le> m_plan_end p" if "a \<in> ?N" for a
      proof -
        have "Min ?N \<le> a" using that fin by (intro Min_le) simp_all
        then show ?thesis using True that by auto
      qed
      then have "first_met p ?N d (all_met es rs d) = Inl ENOENT" by (auto simp: first_met_def Let_def)
      with True n e NC show ?thesis by (auto simp: multi_first_loop.simps earliest_def)
    next
      case ne: False
      have finN: "finite ?N" using fin by simp
      from ne n(5) have c1: "c' = Min ?N" by blast
      have "c' \<in> ?N" unfolding c1 using ne finN by (intro Min_in) auto
      note c = c1 this
      have "multi_first_loop d es rs t (Some p) = multi_first_loop d es rs c' (Some p')"
      proof -
        have "earliest p ?N d = Inr c'" using ne unfolding earliest_def c1 by (simp only: if_False)
        then show ?thesis using n(1) e by (simp add: multi_first_loop.simps [of d es rs t])
      qed
      moreover have "{a \<in> ptimes p'. c' \<le> a \<and> on \<le> a \<and> window_ok p' a d r} = ?N"
        using c(2) Min_le [OF finN] same by (auto simp: c1)
      moreover have "card {a \<in> ptimes p'. c' < a} < card {a \<in> ptimes p. t < a}"
        using c(2) fin same(8) by (intro psubset_card_mono) auto
      then have "\<exists>p''. multi_first_loop d es rs c' (Some p') =
          Some (first_met p' {a \<in> ptimes p'. c' \<le> a \<and> on \<le> a \<and> window_ok p' a d r} d (all_met es rs d), Some p'')
        \<and> planner_inv p'' \<and> same_plan p' p''"
        using less.prems n(2,4) c ne same by (intro less.hyps) auto
      moreover have "first_met p' = first_met p" using same(4) by (simp add: fun_eq_iff first_met_def)
      ultimately show ?thesis using NC same_plan_trans [OF n(3)] by auto
    qed
  qed
qed

lemma parts_nth:
  assumes "multi_inv pm" and "i < length (parts pm)"
  shows "meta_planner (m_types_totals_planners pm ! i) = Some (parts pm ! i)" and "planner_inv (parts pm ! i)"
  using multi_invD(1) [OF assms(1), of "m_types_totals_planners pm ! i"] assms(2)
  by (auto simp: part_ok_def part_def parts_def)

lemma all_met_fits:
  assumes "multi_inv pm" and "length rs = length (parts pm)" "0 < length rs" "1 \<le> d" "d \<le> int64_max" "t + d \<le> int64_max"
    and "\<And>i. i < length rs \<Longrightarrow> m_plan_start (parts pm ! i) \<le> t \<and> 0 \<le> rs ! i \<and> rs ! i \<le> int64_max"
  shows "all_met (tl (m_types_totals_planners pm)) (tl rs) d t \<longleftrightarrow>
    (\<forall>i<length rs. 0 < i \<longrightarrow> fits (parts pm ! i) t d (rs ! i))"
proof -
  let ?es = "m_types_totals_planners pm"
  have len: "length ?es = length rs" using assms(2) by (simp add: parts_def)
  have e: "planner_avail_during (meta_planner (?es ! i)) t d (rs ! i) = Inr () \<longleftrightarrow> fits (parts pm ! i) t d (rs ! i)"
    if "i < length rs" for i
    using planner_avail_during_iff [of "parts pm ! i" t d "rs ! i"] parts_nth [OF assms(1), of i] that assms(2,4-6) assms(7) [OF that]
    by (auto simp: fits_def)
  have "all_met (tl ?es) (tl rs) d t \<longleftrightarrow> (\<forall>i<length (tl ?es). fits (parts pm ! Suc i) t d (rs ! Suc i))"
    using others_met_iff [of "tl ?es" "tl rs" t d] e len by (simp add: all_met_def nth_tl)
  also have "\<dots> \<longleftrightarrow> (\<forall>i<length rs. 0 < i \<longrightarrow> fits (parts pm ! i) t d (rs ! i))"
    using len assms(3) by (cases rs) (auto simp: All_less_Suc2)
  finally show ?thesis .
qed

lemma first_met_cong:
  assumes "\<And>a. a \<in> C \<Longrightarrow> a + d \<le> m_plan_end p \<Longrightarrow> P a \<longleftrightarrow> Q a"
  shows "first_met p C d P = first_met p C d Q"
proof -
  have "{a \<in> C. a + d \<le> m_plan_end p \<and> P a} = {a \<in> C. a + d \<le> m_plan_end p \<and> Q a}" using assms by auto
  then show ?thesis by (simp add: first_met_def)
qed

lemma first_met_earliest:
  assumes "finite C" and "earliest p C d = Inl e"
  shows "first_met p C d P = Inl e"
proof -
  have "\<not> a + d \<le> m_plan_end p" if "a \<in> C" for a
  proof -
    have "Min C \<le> a" using assms(1) that by (rule Min_le)
    moreover from that have "C \<noteq> {}" by blast
    with assms(2) have "m_plan_end p < Min C + d" unfolding earliest_def by (simp split: if_splits)
    ultimately show ?thesis by linarith
  qed
  then have "{a \<in> C. a + d \<le> m_plan_end p \<and> P a} = {}" by auto
  moreover have "e = ENOENT" using assms(2) by (auto simp: earliest_def split: if_splits)
  ultimately show ?thesis by (simp add: first_met_def)
qed

lemma earliest_InrD:
  assumes "finite C" and "earliest p C d = Inr t"
  shows "t \<in> C" and "t = Min C" and "t + d \<le> m_plan_end p" and "C \<noteq> {}" and "{a \<in> C. t \<le> a} = C"
proof -
  from assms(2) show e: "t = Min C" "t + d \<le> m_plan_end p" "C \<noteq> {}"
    unfolding earliest_def by (simp_all split: if_splits)
  show "t \<in> C" unfolding e(1) using assms(1) e(3) by (rule Min_in)
  show "{a \<in> C. t \<le> a} = C" using Min_le [OF assms(1)] e(1) by blast
qed

lemma planner_multi_avail_time_first_run:
  assumes "multi_inv pm" and "length rs = length (parts pm)" "0 < length rs" and "p = parts pm ! 0" and "r = rs ! 0"
    and "m_plan_start p \<le> on" "on < m_plan_end p" "1 \<le> d" "m_plan_end p + d \<le> int64_max"
    and "0 \<le> r" "r \<le> m_total_resources p" "0 \<le> m_plan_start p"
  shows "\<exists>p'. planner_multi_avail_time_first (Some pm) on d (Some rs) =
      Some (first_met p {a \<in> ptimes p. on \<le> a \<and> window_ok p a d r} d (all_met (tl (m_types_totals_planners pm)) (tl rs) d),
            Some (set_planner_at 0 (Some p') (fill_iter_request on d rs pm)))
    \<and> planner_inv p' \<and> m_span_lookup p' = m_span_lookup p \<and> m_total_resources p' = m_total_resources p"
proof -
  let ?C = "{a \<in> ptimes p. on \<le> a \<and> window_ok p a d r}" and ?es = "m_types_totals_planners pm"
  have len: "length ?es = length rs" using assms(2) by (simp add: parts_def)
  have p: "planner_inv p" "get_planner_at 0 (fill_iter_request on d rs pm) = Some (Some p)"
    using parts_nth [OF assms(1), of 0] assms(2-4) len
    by (simp_all add: get_planner_at_def fill_iter_request_def at_index_def)
  have fin: "finite ?C" using finite_times [of p] by simp
  from avail_time_first_ok [OF p(1) assms(6-12)] obtain p' c where
    f: "planner_avail_time_first (Some p) on d r = Some (earliest p ?C d, Some p')" "planner_inv p'"
      "m_span_lookup p' = m_span_lookup p" "m_total_resources p' = m_total_resources p" "m_avail_time_iter_set p'"
      "m_current_request p' = \<lparr>req_on_or_after = on, req_duration = d, req_count = r\<rparr>"
      "ptimes p' = ptimes p" "m_plan_start p' = m_plan_start p" "m_plan_end p' = m_plan_end p" "tracked_upto p' r c"
      "?C \<noteq> {} \<longrightarrow> c = Min ?C"
    by blast
  have win: "window_ok p' = window_ok p" "first_met p' = first_met p"
    using f(3,4,9) by (auto simp: window_ok_def avail_def first_met_def fun_eq_iff)
  show ?thesis
  proof (cases "earliest p ?C d")
    case (Inl e)
    with f p(2) assms(3,5) len first_met_earliest [OF fin Inl] show ?thesis
      by (auto simp: planner_multi_avail_time_first_def get_planners_size_def Let_def)
  next
    case (Inr t)
    note t = earliest_InrD [OF fin Inr]
    have "tracked_upto p' r t" using f(10,11) t by simp
    moreover have "t \<in> ptimes p'" "on \<le> t" "window_ok p' t d r" "t + d \<le> m_plan_end p'" using t f(7,9) win by auto
    ultimately obtain p'' where
      l: "multi_first_loop d (tl ?es) (tl rs) t (Some p') =
        Some (first_met p' {a \<in> ptimes p'. t \<le> a \<and> on \<le> a \<and> window_ok p' a d r} d (all_met (tl ?es) (tl rs) d), Some p'')"
        "planner_inv p''" "same_plan p' p''"
      using multi_first_loop_ok [OF f(2,5,6), of t "tl ?es" "tl rs"] f(4,8,9) assms by auto
    have "{a \<in> ptimes p'. t \<le> a \<and> on \<le> a \<and> window_ok p' a d r} = ?C" using t(5) f(7) win by auto
    with Inr l f p(2) assms(3,5) len win same_planD [OF l(3)] show ?thesis
      by (intro exI [of _ p'']) (simp add: planner_multi_avail_time_first_def get_planners_size_def Let_def fill_iter_request_def)
  qed
qed

text \<open>The points of the first part at which every part has its share free.\<close>

definition joint_starts :: "planner_multi \<Rightarrow> int \<Rightarrow> int \<Rightarrow> int list \<Rightarrow> int set" where
  "joint_starts pm on d rs =
     {a \<in> ptimes (parts pm ! 0). on \<le> a \<and> (\<forall>i<length rs. fits (parts pm ! i) a d (rs ! i))}"

lemma planner_multi_avail_time_first_ok:
  assumes "multi_inv pm" and "length rs = length (parts pm)" "0 < length rs" and "on < m_plan_end (parts pm ! 0)" "1 \<le> d"
    and "m_plan_end (parts pm ! 0) + d \<le> int64_max" and "0 \<le> m_plan_start (parts pm ! 0)"
    and "\<And>i. i < length rs \<Longrightarrow> m_plan_start (parts pm ! i) \<le> on \<and> 0 \<le> rs ! i \<and> rs ! i \<le> m_total_resources (parts pm ! i)"
  shows "\<exists>pm'. planner_multi_avail_time_first (Some pm) on d (Some rs) =
      Some (if joint_starts pm on d rs = {} then Inl ENOENT else Inr (Min (joint_starts pm on d rs)), Some pm')
    \<and> length (parts pm') = length (parts pm)
    \<and> (\<forall>i<length rs. planner_inv (parts pm' ! i) \<and> m_span_lookup (parts pm' ! i) = m_span_lookup (parts pm ! i))"
proof -
  let ?p = "parts pm ! 0" and ?r = "rs ! 0" and ?es = "m_types_totals_planners pm"
  let ?C = "{a \<in> ptimes ?p. on \<le> a \<and> window_ok ?p a d ?r}"
  have p: "planner_inv ?p" using parts_nth(2) [OF assms(1), of 0] assms(2,3) by simp
  have tot: "rs ! i \<le> int64_max" if "i < length rs" for i
    using planner_invD(9) [OF parts_nth(2) [OF assms(1), of i]] that assms(2) assms(8) [OF that] by (auto simp: bounds_inv_def)
  have d: "d \<le> int64_max" using assms(6,7) planner_invD(9) [OF p] by (simp add: bounds_inv_def)
  obtain p' where run: "planner_multi_avail_time_first (Some pm) on d (Some rs) =
      Some (first_met ?p ?C d (all_met (tl ?es) (tl rs) d), Some (set_planner_at 0 (Some p') (fill_iter_request on d rs pm)))"
    "planner_inv p'" "m_span_lookup p' = m_span_lookup ?p"
    using planner_multi_avail_time_first_run [OF assms(1-3) refl refl, of on d] assms(3-7) assms(8) [of 0] by blast
  have "{a \<in> ?C. a + d \<le> m_plan_end ?p \<and> all_met (tl ?es) (tl rs) d a} = joint_starts pm on d rs"
  proof (intro set_eqI iffI)
    fix a
    have met: "all_met (tl ?es) (tl rs) d a \<longleftrightarrow> (\<forall>i<length rs. 0 < i \<longrightarrow> fits (parts pm ! i) a d (rs ! i))"
      if "on \<le> a" "a + d \<le> m_plan_end ?p"
      using all_met_fits [OF assms(1-3,5) d, of a] that tot assms(8) planner_invD(9) [OF p]
      by (force simp: bounds_inv_def)
    have zero: "fits ?p a d ?r \<longleftrightarrow> window_ok ?p a d ?r \<and> a + d \<le> m_plan_end ?p" if "on \<le> a"
      using assms(8) [of 0] assms(3) that by (auto simp: fits_def window_ok_def)
    {
      assume a: "a \<in> {a \<in> ?C. a + d \<le> m_plan_end ?p \<and> all_met (tl ?es) (tl rs) d a}"
      then have "fits (parts pm ! i) a d (rs ! i)" if "i < length rs" for i
        using met zero that by (cases "i = 0") auto
      with a show "a \<in> joint_starts pm on d rs" by (simp add: joint_starts_def)
    next
      assume "a \<in> joint_starts pm on d rs"
      then show "a \<in> {a \<in> ?C. a + d \<le> m_plan_end ?p \<and> all_met (tl ?es) (tl rs) d a}"
        using met zero assms(3) by (auto simp: joint_starts_def)
    }
  qed
  then have "first_met ?p ?C d (all_met (tl ?es) (tl rs) d)
      = (if joint_starts pm on d rs = {} then Inl ENOENT else Inr (Min (joint_starts pm on d rs)))"
    by (simp add: first_met_def)
  moreover
  let ?pm = "set_planner_at 0 (Some p') (fill_iter_request on d rs pm)"
  have len: "length (parts ?pm) = length (parts pm)"
    by (simp add: parts_def set_planner_at_def fill_iter_request_def Let_def)
  have "planner_inv (parts ?pm ! i) \<and> m_span_lookup (parts ?pm ! i) = m_span_lookup (parts pm ! i)"
    if "i < length rs" for i
    using run(2,3) parts_nth(2) [OF assms(1), of i] that assms(2)
    by (cases "i = 0") (simp_all add: parts_def set_planner_at_def fill_iter_request_def Let_def)
  ultimately show ?thesis
    using run(1) len by (intro exI [of _ ?pm]) simp
qed

section \<open>Construction\<close>

definition fresh_part :: "int \<Rightarrow> int \<Rightarrow> int \<times> string \<Rightarrow> planner_multi_meta \<Rightarrow> bool" where
  "fresh_part base d r e \<longleftrightarrow> part_ok e \<and> resource_type e = snd r \<and> resource_total e = fst r
     \<and> m_total_resources (part e) = fst r \<and> m_plan_start (part e) = base \<and> m_plan_end (part e) = base + d
     \<and> m_span_lookup (part e) = [] \<and> m_span_counter (part e) = 0"

lemma mc_find_append: "mc_find ty (ms @ [e]) = None \<longleftrightarrow> mc_find ty ms = None \<and> resource_type e \<noteq> ty"
  by (auto simp: mc_find_def find_None_iff)

lemma multi_init_loop_ok:
  assumes "- (2 ^ 63) \<le> base" "1 \<le> d" "base + d < int64_max" "d \<le> int64_max"
    and "\<forall>(n, ty)\<in>set rs. 0 \<le> n \<and> n \<le> int64_max" and "distinct (map snd rs)"
    and "\<forall>(n, ty)\<in>set rs. mc_find ty (m_types_totals_planners pm) = None"
  shows "\<exists>pm' es. multi_init_loop base d rs pm = Some pm'
    \<and> m_types_totals_planners pm' = m_types_totals_planners pm @ es \<and> list_all2 (fresh_part base d) rs es
    \<and> mm_span_lookup pm' = mm_span_lookup pm \<and> mm_span_counter pm' = mm_span_counter pm"
  using assms(5-7)
proof (induction rs arbitrary: pm)
  case (Cons r rs)
  obtain n ty where r: "r = (n, ty)" by fastforce
  with Cons.prems have n: "0 \<le> n" "n \<le> int64_max" "mc_find ty (m_types_totals_planners pm) = None" by auto
  from planner_new_ok [OF n(1,2) assms(1-4), of ty] obtain p where
    p: "planner_init base d n ty = Some p" "planner_inv p" "m_span_lookup p = []" "m_total_resources p = n"
      "m_plan_start p = base" "m_plan_end p = base + d" "m_span_counter p = 0"
    by (auto simp: planner_new_def split: if_splits)
  let ?e = "\<lparr>resource_type = ty, resource_total = n, meta_planner = Some p\<rparr>"
  let ?pm = "pm\<lparr>mm_iter := (mm_iter pm)\<lparr>rm_counts := om_assign ty 0 (rm_counts (mm_iter pm))\<rparr>,
    m_types_totals_planners := m_types_totals_planners pm @ [?e]\<rparr>"
  have "\<forall>(m, ty')\<in>set rs. mc_find ty' (m_types_totals_planners ?pm) = None"
    using Cons.prems r by (force simp: mc_find_append)
  with Cons.IH [of ?pm] Cons.prems obtain pm' es where
    "multi_init_loop base d rs ?pm = Some pm'" "m_types_totals_planners pm' = m_types_totals_planners ?pm @ es"
    "list_all2 (fresh_part base d) rs es" "mm_span_lookup pm' = mm_span_lookup pm" "mm_span_counter pm' = mm_span_counter pm"
    by auto
  moreover have "fresh_part base d r ?e" using p r by (simp add: fresh_part_def part_ok_def part_def)
  ultimately show ?case using p(1) r n(3)
    by (intro exI [of _ pm'] exI [of _ "?e # es"]) (simp add: mc_push_back_def Let_def)
qed simp

lemma planner_multi_new_ok:
  assumes "- (2 ^ 63) \<le> base" "1 \<le> d" "base + d < int64_max" "d \<le> int64_max"
    and "\<forall>(n, ty)\<in>set rs. 0 \<le> n \<and> n \<le> int64_max" and "distinct (map snd rs)"
  shows "\<exists>pm. planner_multi_new base d (Some rs) = Some (Inr pm) \<and> multi_inv pm
    \<and> list_all2 (fresh_part base d) rs (m_types_totals_planners pm)
    \<and> mm_span_lookup pm = [] \<and> mm_span_counter pm = 0"
proof -
  have "\<forall>(n, ty)\<in>set rs. mc_find ty (m_types_totals_planners planner_multi_default) = None"
    by (simp add: planner_multi_default_def mc_find_def)
  from multi_init_loop_ok [OF assms this] obtain pm where
    pm: "planner_multi_init base d rs = Some pm" "list_all2 (fresh_part base d) rs (m_types_totals_planners pm)"
      "mm_span_lookup pm = []" "mm_span_counter pm = 0"
    by (auto simp: planner_multi_init_def planner_multi_default_def)
  have "part_ok e" if "e \<in> set (m_types_totals_planners pm)" for e
    using pm(2) that by (auto simp: list_all2_conv_all_nth in_set_conv_nth fresh_part_def)
  then have "multi_inv pm" using pm(3,4) by (simp add: multi_inv_def om_ok_def)
  moreover have "u64 int64_max = int64_max" by (intro u64_id) (simp add: is_u64_def int64_max_def)
  then have "planner_multi_new base d (Some rs) = Some (Inr pm)"
    using assms(2,5) pm(1) by (auto simp: planner_multi_new_def)
  ultimately show ?thesis using pm by blast
qed

end
