(* ===== verification/Traverser_Books.thy ===== *)
theory Traverser_Books
  imports Traverser_Remove Traverser_Fuel Planner_Multi_Correct
begin

text \<open>
  The books of the vertices: what a vertex records of the jobs it holds agrees with the spans of its
  planners. Under this invariant the removal of a job ends without an error, releases the job at every
  vertex it is booked on and changes nothing of the other jobs.
\<close>

section \<open>The books of a vertex\<close>

text \<open>The spans of the planner that the pairs of job and span refer to are there, and no two jobs share one.\<close>

definition one_each :: "(int \<times> int) set \<Rightarrow> bool" where
  "one_each B \<longleftrightarrow> (\<forall>(j, k)\<in>B. \<forall>(j', k')\<in>B. k = k' \<longrightarrow> j = j')"

definition books :: "planner option \<Rightarrow> (int \<times> int) set \<Rightarrow> bool" where
  "books p B \<longleftrightarrow> one_each B \<and> (\<exists>q. p = Some q \<and> planner_inv q \<and> (\<forall>(j, k)\<in>B. om_find k (m_span_lookup q) \<noteq> None))"

definition multi_books :: "planner_multi \<Rightarrow> (int \<times> int) set \<Rightarrow> bool" where
  "multi_books pm B \<longleftrightarrow> one_each B \<and> multi_inv pm \<and> (\<forall>(j, k)\<in>B. om_find k (mm_span_lookup pm) \<noteq> None)"

definition filter_books :: "string \<Rightarrow> (string, planner_multi option) omap \<Rightarrow> (int, int) omap \<Rightarrow> bool" where
  "filter_books s sp m \<longleftrightarrow> (case om_get None s sp of None \<Rightarrow> m = [] | Some pm \<Rightarrow> multi_books pm (set m))"

text \<open>A job that a vertex holds anything for is tagged there; it is allocated or reserved, not both.\<close>

definition vertex_ok :: "string \<Rightarrow> resource_pool \<Rightarrow> bool" where
  "vertex_ok s v \<longleftrightarrow>
     (let i = idata v; c = schedule v
      in om_ok (tags i) \<and> om_ok (x_spans i) \<and> om_ok (job2span i) \<and> om_ok (allocations c) \<and> om_ok (reservations c) \<and>
         (\<forall>j. om_find j (allocations c) = None \<or> om_find j (reservations c) = None) \<and>
         books (plans c) (set (allocations c) \<union> set (reservations c)) \<and> books (x_checker i) (set (x_spans i)) \<and>
         filter_books s (subplans i) (job2span i) \<and>
         fst ` (set (allocations c) \<union> set (reservations c) \<union> set (x_spans i) \<union> set (job2span i)) \<subseteq> fst ` set (tags i))"

lemma one_each_mono: "one_each B \<Longrightarrow> A \<subseteq> B \<Longrightarrow> one_each A"
  unfolding one_each_def by blast

text \<open>Giving back a span, and nothing else.\<close>

definition gives_back :: "int \<Rightarrow> planner \<Rightarrow> planner \<Rightarrow> bool" where
  "gives_back k q q' \<longleftrightarrow> planner_inv q' \<and> m_span_lookup q' = om_erase k (m_span_lookup q) \<and>
     m_total_resources q' = m_total_resources q \<and> m_plan_start q' = m_plan_start q \<and> m_plan_end q' = m_plan_end q"

definition drops :: "int \<Rightarrow> (int \<times> int) set \<Rightarrow> planner option \<Rightarrow> planner option \<Rightarrow> bool" where
  "drops jid B p p' \<longleftrightarrow> (\<forall>k. (jid, k) \<in> B \<longrightarrow> (\<exists>q q'. p = Some q \<and> p' = Some q' \<and> gives_back k q q')) \<and>
     (jid \<notin> fst ` B \<longrightarrow> p' = p)"

definition multi_gives_back :: "int \<Rightarrow> planner_multi \<Rightarrow> planner_multi \<Rightarrow> bool" where
  "multi_gives_back k pm pm' \<longleftrightarrow> multi_inv pm' \<and> mm_span_lookup pm' = om_erase k (mm_span_lookup pm) \<and>
     length (parts pm') = length (parts pm) \<and>
     (\<forall>ids. om_find k (mm_span_lookup pm) = Some ids \<longrightarrow> (\<forall>i<length (parts pm). m_span_lookup (parts pm' ! i) =
        (if ids ! i = - 1 then m_span_lookup (parts pm ! i) else om_erase (ids ! i) (m_span_lookup (parts pm ! i)))))"

definition multi_drops :: "int \<Rightarrow> (int, int) omap \<Rightarrow> planner_multi option \<Rightarrow> planner_multi option \<Rightarrow> bool" where
  "multi_drops jid m p p' \<longleftrightarrow>
     (case om_find jid m of
        None \<Rightarrow> p' = p
      | Some k \<Rightarrow> (\<exists>pm pm'. p = Some pm \<and> p' = Some pm' \<and> multi_gives_back k pm pm'))"

lemma books_remove:
  assumes "books p B" and "(jid, k) \<in> B"
  shows "\<exists>q q'. p = Some q \<and> planner_rem_span p k = Some (Inr 0, Some q') \<and> gives_back k q q' \<and> books (Some q') {b \<in> B. fst b \<noteq> jid}"
proof -
  obtain q s where q: "p = Some q" "planner_inv q" "\<forall>(j, k)\<in>B. om_find k (m_span_lookup q) \<noteq> None" "om_find k (m_span_lookup q) = Some s"
    using assms unfolding books_def by fastforce
  obtain q' where q': "planner_rem_span (Some q) k = Some (Inr 0, Some q')" "gives_back k q q'"
    using planner_rem_span_ok [OF q(2,4)] by (auto simp: gives_back_def)
  have "one_each B" using assms(1) by (simp add: books_def)
  then have "one_each {b \<in> B. fst b \<noteq> jid}" "\<forall>(j, k')\<in>{b \<in> B. fst b \<noteq> jid}. k' \<noteq> k"
    using assms(2) by (auto intro: one_each_mono) (auto simp: one_each_def)
  then show ?thesis using q q' by (fastforce simp: books_def gives_back_def om_find_erase)
qed

lemma multi_books_remove:
  assumes "multi_books pm B" and "(jid, k) \<in> B"
  shows "\<exists>pm'. planner_multi_rem_span (Some pm) k = Some (Inr 0, Some pm') \<and> multi_gives_back k pm pm' \<and> multi_books pm' {b \<in> B. fst b \<noteq> jid}"
proof -
  obtain ids where q: "multi_inv pm" "\<forall>(j, k)\<in>B. om_find k (mm_span_lookup pm) \<noteq> None" "om_find k (mm_span_lookup pm) = Some ids"
    using assms unfolding multi_books_def by fastforce
  obtain pm' where pm': "planner_multi_rem_span (Some pm) k = Some (Inr 0, Some pm')" "multi_gives_back k pm pm'"
    using planner_multi_rem_span_ok [OF q(1,3)] q(3) by (auto simp: multi_gives_back_def)
  have "one_each B" using assms(1) by (simp add: multi_books_def)
  then have "one_each {b \<in> B. fst b \<noteq> jid}" "\<forall>(j, k')\<in>{b \<in> B. fst b \<noteq> jid}. k' \<noteq> k"
    using assms(2) by (auto intro: one_each_mono) (auto simp: one_each_def)
  then show ?thesis using q pm' by (fastforce simp: multi_books_def multi_gives_back_def om_find_erase)
qed

text \<open>Releasing a job at a vertex, up to the color of the vertex.\<close>

definition released :: "string \<Rightarrow> int \<Rightarrow> resource_pool \<Rightarrow> resource_pool \<Rightarrow> bool" where
  "released s jid v v' \<longleftrightarrow> vertex_ok s v' \<and>
     (\<exists>p x sp cs. v' = v\<lparr>schedule := \<lparr>allocations = om_erase jid (allocations (schedule v)),
            reservations = om_erase jid (reservations (schedule v)), plans = p\<rparr>,
          idata := (idata v)\<lparr>tags := om_erase jid (tags (idata v)), x_spans := om_erase jid (x_spans (idata v)),
            job2span := om_erase jid (job2span (idata v)), x_checker := x, subplans := sp, colors := cs\<rparr>\<rparr> \<and>
        drops jid (set (allocations (schedule v)) \<union> set (reservations (schedule v))) (plans (schedule v)) p \<and>
        drops jid (set (x_spans (idata v))) (x_checker (idata v)) x \<and>
        (\<forall>s'. s' \<noteq> s \<longrightarrow> om_find s' sp = om_find s' (subplans (idata v))) \<and>
        multi_drops jid (job2span (idata v)) (om_get None s (subplans (idata v))) (om_get None s sp))"

lemma om_erase_none: "om_find k m = None \<Longrightarrow> om_erase k m = m"
  by (force simp: om_erase_def om_find_None_iff filter_id_conv)

lemma set_erase: "set (om_erase jid m) = {b \<in> set m. fst b \<noteq> jid}"
  by (auto simp: om_erase_def)

section \<open>Cancelling at a vertex\<close>

lemma upd_twice [simp]: "upd_graph (upd_vtx u f) (upd_graph (upd_vtx u g) t) = upd_graph (upd_vtx u (\<lambda>v. f (g v))) t"
  by (cases "u < length (g_vtxs (graph t))") (auto simp: upd_graph_def upd_vtx_def list_update_beyond)

lemma vtx_upd [simp]: "u < length (g_vtxs g) \<Longrightarrow> g_vtxs (upd_vtx u f g) ! u = f (g_vtxs g ! u)"
  by (simp add: upd_vtx_def)

abbreviation put :: "nat \<Rightarrow> resource_pool \<Rightarrow> trav \<Rightarrow> trav" where
  "put u v t \<equiv> upd_graph (upd_vtx u (\<lambda>_. v)) t"

lemma put_same [simp]: "u < length (g_vtxs (graph t)) \<Longrightarrow> put u (vtx t u) t = t"
  by (simp add: upd_graph_def upd_vtx_def)

lemma sets_put:
  assumes "u < length (g_vtxs (graph t))"
  shows "set_idata u f t = put u ((vtx t u)\<lparr>idata := f (idata (vtx t u))\<rparr>) t"
    and "set_schedule u g t = put u ((vtx t u)\<lparr>schedule := g (schedule (vtx t u))\<rparr>) t"
    and "set_subplan u s p t = put u ((vtx t u)\<lparr>idata := (idata (vtx t u))\<lparr>subplans := om_assign s p (subplans (idata (vtx t u)))\<rparr>\<rparr>) t"
  using assms by (simp_all add: set_idata_def set_schedule_def set_subplan_def upd_graph_def upd_vtx_def)

lemma schedule_fields [simp]: "\<lparr>allocations = allocations c, reservations = reservations c, plans = plans c\<rparr> = c"
  by simp

lemma schedule_upds:
  "c\<lparr>allocations := a, plans := p\<rparr> = \<lparr>allocations = a, reservations = reservations c, plans = p\<rparr>"
  "c\<lparr>reservations := r, plans := p\<rparr> = \<lparr>allocations = allocations c, reservations = r, plans = p\<rparr>"
  by (cases c, simp)+

lemma drops_none: "jid \<notin> fst ` B \<Longrightarrow> drops jid B p p"
  by (force simp: drops_def)

lemma drops_unique:
  "(jid, k) \<in> B \<Longrightarrow> (\<And>k'. (jid, k') \<in> B \<Longrightarrow> k' = k) \<Longrightarrow> gives_back k q q' \<Longrightarrow> drops jid B (Some q) (Some q')"
  unfolding drops_def by (metis fst_conv image_eqI)

lemma drops_one: "om_ok m \<Longrightarrow> om_find jid m = Some k \<Longrightarrow> gives_back k q q' \<Longrightarrow> drops jid (set m) (Some q) (Some q')"
  unfolding drops_def by (metis Domain_Un_eq image_eqI fst_conv om_find_Some_iff option.inject)

lemma rem_exclusive_ok:
  assumes "u < length (g_vtxs (graph t))" and "om_ok (x_spans i)" and "books (x_checker i) (set (x_spans i))"
    and "idata (vtx t u) = i" and "mt \<noteq> VTX_CANCEL"
  shows "\<exists>x. rem_exclusive_filter u jid mt t =
           Some (Inr 0, put u ((vtx t u)\<lparr>idata := i\<lparr>x_spans := om_erase jid (x_spans i), x_checker := x\<rparr>\<rparr>) t)
         \<and> drops jid (set (x_spans i)) (x_checker i) x \<and> books x (set (om_erase jid (x_spans i)))"
proof (cases "om_find jid (x_spans i)")
  case None
  then have "jid \<notin> fst ` set (x_spans i)" by (simp add: om_find_None_iff)
  then show ?thesis using assms None
    by (auto simp: rem_exclusive_filter_def om_erase_none intro!: exI [of _ "x_checker i"] drops_none)
next
  case (Some k)
  then have k: "(jid, k) \<in> set (x_spans i)" using assms(2) by (simp add: om_find_Some_iff)
  from books_remove [OF assms(3) this] obtain q q' where q: "x_checker i = Some q"
      "planner_rem_span (x_checker i) k = Some (Inr 0, Some q')" "gives_back k q q'" "books (Some q') {b \<in> set (x_spans i). fst b \<noteq> jid}" by blast
  then show ?thesis using assms(1,2,4) Some
    by (intro exI [of _ "Some q'"]) (auto simp: rem_exclusive_filter_def sets_put set_erase intro: drops_one)
qed

lemma mod_agfilter_ok:
  assumes "u < length (g_vtxs (graph t))" and "om_ok (job2span i)" and "idata (vtx t u) = i" and "mod_type md = CANCEL"
    and "filter_books s (subplans i) (job2span i)"
  shows "\<exists>sp. mod_agfilter u jid s md False t =
           Some (Inr 0, False, put u ((vtx t u)\<lparr>idata := i\<lparr>subplans := sp, job2span := om_erase jid (job2span i)\<rparr>\<rparr>) t)
         \<and> (\<forall>s'. s' \<noteq> s \<longrightarrow> om_find s' sp = om_find s' (subplans i))
         \<and> multi_drops jid (job2span i) (om_get None s (subplans i)) (om_get None s sp)
         \<and> filter_books s sp (om_erase jid (job2span i))"
proof (cases "om_find jid (job2span i)")
  case None
  then show ?thesis using assms
    by (auto simp: mod_agfilter_def om_erase_none multi_drops_def filter_books_def intro!: exI [of _ "subplans i"] split: option.split)
next
  case (Some k)
  then obtain pm where pm: "om_get None s (subplans i) = Some pm" "multi_books pm (set (job2span i))"
    using assms(5) by (auto simp: filter_books_def split: option.split_asm)
  have k: "(jid, k) \<in> set (job2span i)" using assms(2) Some by (simp add: om_find_Some_iff)
  have "k \<noteq> - 1"
  proof -
    obtain ids where "(k, ids) \<in> set (mm_span_lookup pm)" "multi_inv pm"
      using pm(2) k multi_invD(2) by (fastforce simp: multi_books_def om_find_Some_iff)
    then show ?thesis using multi_invD(4) by fastforce
  qed
  moreover obtain pm' where "planner_multi_rem_span (Some pm) k = Some (Inr 0, Some pm')" "multi_gives_back k pm pm'"
      "multi_books pm' {b \<in> set (job2span i). fst b \<noteq> jid}"
    using multi_books_remove [OF pm(2) k] by blast
  ultimately show ?thesis using assms(1,3,4) pm(1) Some
    by (intro exI [of _ "om_assign s (Some pm') (subplans i)"])
      (auto simp: mod_agfilter_def sets_put om_find_assign_any om_get_def multi_drops_def filter_books_def set_erase)
qed

lemma release_plan_ok:
  assumes "u < length (g_vtxs (graph t))" and "schedule (vtx t u) = c" and "mod_type md = CANCEL" and "books (plans c) B" and "(jid, k) \<in> B"
  shows "\<exists>q q'. release_plan u k md t = Some (Inr 0, md, put u ((vtx t u)\<lparr>schedule := c\<lparr>plans := Some q'\<rparr>\<rparr>) t)
           \<and> plans c = Some q \<and> gives_back k q q' \<and> books (Some q') {b \<in> B. fst b \<noteq> jid}"
  using books_remove [OF assms(4,5)] assms(1-3) by (auto simp: release_plan_def sets_put Let_def)

lemma mod_plan_ok:
  assumes "u < length (g_vtxs (graph t))" and "schedule (vtx t u) = c" and "mod_type md = CANCEL"
    and "om_ok (allocations c)" and "om_ok (reservations c)" and "om_find jid (allocations c) = None \<or> om_find jid (reservations c) = None"
    and "books (plans c) (set (allocations c) \<union> set (reservations c))"
  shows "\<exists>p. mod_plan u jid md t = Some (Inr 0, md, put u ((vtx t u)\<lparr>schedule :=
             \<lparr>allocations = om_erase jid (allocations c), reservations = om_erase jid (reservations c), plans = p\<rparr>\<rparr>) t)
           \<and> drops jid (set (allocations c) \<union> set (reservations c)) (plans c) p
           \<and> books p (set (om_erase jid (allocations c)) \<union> set (om_erase jid (reservations c)))"
proof -
  let ?B = "set (allocations c) \<union> set (reservations c)"
  have B: "set (om_erase jid (allocations c)) \<union> set (om_erase jid (reservations c)) = {b \<in> ?B. fst b \<noteq> jid}" by (auto simp: set_erase)
  consider (no) "om_find jid (allocations c) = None" "om_find jid (reservations c) = None"
    | (alloc) k where "om_find jid (allocations c) = Some k" "om_find jid (reservations c) = None"
    | (resv) k where "om_find jid (allocations c) = None" "om_find jid (reservations c) = Some k"
    using assms(6) by (cases "om_find jid (allocations c)"; cases "om_find jid (reservations c)") auto
  then show ?thesis
  proof cases
    case no
    then have "jid \<notin> fst ` ?B" by (auto simp: om_find_None_iff)
    then show ?thesis using no assms
      by (auto simp: mod_plan_def om_erase_none intro!: exI [of _ "plans c"] drops_none)
  next
    case alloc
    then have k: "(jid, k) \<in> ?B" "\<And>k'. (jid, k') \<in> ?B \<Longrightarrow> k' = k"
      using assms(4,5) by (auto simp: om_find_Some_iff [symmetric])
    let ?t = "put u ((vtx t u)\<lparr>schedule := c\<lparr>allocations := om_erase jid (allocations c)\<rparr>\<rparr>) t"
    obtain q q' where q: "release_plan u k md ?t = Some (Inr 0, md, put u ((vtx t u)\<lparr>schedule := c\<lparr>allocations := om_erase jid (allocations c), plans := Some q'\<rparr>\<rparr>) ?t)"
        "plans c = Some q" "gives_back k q q'" "books (Some q') {b \<in> ?B. fst b \<noteq> jid}"
      using release_plan_ok [of u ?t "c\<lparr>allocations := om_erase jid (allocations c)\<rparr>" md ?B jid k] assms(1,3,7) k(1) by auto
    have "drops jid ?B (Some q) (Some q')" using k q(3) by (rule drops_unique)
    then show ?thesis using alloc assms(1-3) q unfolding B
      by (intro exI [of _ "Some q'"]) (simp add: mod_plan_def sets_put om_erase_none schedule_upds)
  next
    case resv
    then have k: "(jid, k) \<in> ?B" "\<And>k'. (jid, k') \<in> ?B \<Longrightarrow> k' = k"
      using assms(4,5) by (auto simp: om_find_Some_iff [symmetric])
    let ?t = "put u ((vtx t u)\<lparr>schedule := c\<lparr>reservations := om_erase jid (reservations c)\<rparr>\<rparr>) t"
    obtain q q' where q: "release_plan u k md ?t = Some (Inr 0, md, put u ((vtx t u)\<lparr>schedule := c\<lparr>reservations := om_erase jid (reservations c), plans := Some q'\<rparr>\<rparr>) ?t)"
        "plans c = Some q" "gives_back k q q'" "books (Some q') {b \<in> ?B. fst b \<noteq> jid}"
      using release_plan_ok [of u ?t "c\<lparr>reservations := om_erase jid (reservations c)\<rparr>" md ?B jid k] assms(1,3,7) k(1) by auto
    have "drops jid ?B (Some q) (Some q')" using k q(3) by (rule drops_unique)
    then show ?thesis using resv assms(1-3) q unfolding B
      by (intro exI [of _ "Some q'"]) (simp add: mod_plan_def sets_put om_erase_none schedule_upds)
  qed
qed

lemma vertex_okD:
  assumes "vertex_ok s v"
  shows "om_ok (tags (idata v))" "om_ok (x_spans (idata v))" "om_ok (job2span (idata v))"
    "om_ok (allocations (schedule v))" "om_ok (reservations (schedule v))"
    "om_find j (allocations (schedule v)) = None \<or> om_find j (reservations (schedule v)) = None"
    "books (plans (schedule v)) (set (allocations (schedule v)) \<union> set (reservations (schedule v)))"
    "books (x_checker (idata v)) (set (x_spans (idata v)))"
    "filter_books s (subplans (idata v)) (job2span (idata v))"
    "fst ` (set (allocations (schedule v)) \<union> set (reservations (schedule v)) \<union> set (x_spans (idata v)) \<union> set (job2span (idata v)))
       \<subseteq> fst ` set (tags (idata v))"
  using assms by (simp_all add: vertex_ok_def Let_def)

lemma erase_keys: "fst ` (A \<union> set m) \<subseteq> fst ` set k \<Longrightarrow> fst ` ({b \<in> A. fst b \<noteq> jid} \<union> set (om_erase jid m)) \<subseteq> fst ` set (om_erase jid k)"
  by (force simp: set_erase)

lemma cancel_books:
  assumes "u < length (g_vtxs (graph t))" and "vertex_ok s (vtx t u)" and "has_tag u jid t" and "mod_type md = CANCEL"
  shows "\<exists>t1 v'. mod_idata u jid s md t = Some (Inr 0, False, t1) \<and> mod_plan u jid md t1 = Some (Inr 0, md, put u v' t)
           \<and> released s jid (vtx t u) v' \<and> colors (idata v') = colors (idata (vtx t u))"
proof -
  let ?v = "vtx t u"
  let ?i = "idata ?v" and ?c = "schedule ?v"
  note ok = vertex_okD [OF assms(2)]
  let ?ia = "?i\<lparr>tags := om_erase jid (tags ?i)\<rparr>"
  let ?t0 = "put u (?v\<lparr>idata := ?ia\<rparr>) t"
  have tag: "rem_tag u jid t = (False, ?t0)" using assms(1,3) by (auto simp: rem_tag_def has_tag_def sets_put)
  obtain x where x: "rem_exclusive_filter u jid (mod_type md) ?t0 =
        Some (Inr 0, put u (?v\<lparr>idata := ?ia\<lparr>x_spans := om_erase jid (x_spans ?i), x_checker := x\<rparr>\<rparr>) t)"
      "drops jid (set (x_spans ?i)) (x_checker ?i) x" "books x (set (om_erase jid (x_spans ?i)))"
    using rem_exclusive_ok [of u ?t0 ?ia "mod_type md" jid] assms(1,4) ok(2,8) by auto
  let ?ib = "?ia\<lparr>x_spans := om_erase jid (x_spans ?i), x_checker := x\<rparr>"
  let ?t1 = "put u (?v\<lparr>idata := ?ib\<rparr>) t"
  obtain sp where sp: "mod_agfilter u jid s md False ?t1 =
        Some (Inr 0, False, put u (?v\<lparr>idata := ?ib\<lparr>subplans := sp, job2span := om_erase jid (job2span ?i)\<rparr>\<rparr>) t)"
      "\<forall>s'. s' \<noteq> s \<longrightarrow> om_find s' sp = om_find s' (subplans ?i)"
      "multi_drops jid (job2span ?i) (om_get None s (subplans ?i)) (om_get None s sp)"
      "filter_books s sp (om_erase jid (job2span ?i))"
    using mod_agfilter_ok [of u ?t1 ?ib md s jid] assms(1,4) ok(3,9) by auto
  let ?ic = "?ib\<lparr>subplans := sp, job2span := om_erase jid (job2span ?i)\<rparr>"
  let ?t2 = "put u (?v\<lparr>idata := ?ic\<rparr>) t"
  let ?sch = "\<lambda>p. \<lparr>allocations = om_erase jid (allocations ?c), reservations = om_erase jid (reservations ?c), plans = p\<rparr>"
  obtain p where p: "mod_plan u jid md ?t2 = Some (Inr 0, md, put u (?v\<lparr>idata := ?ic, schedule := ?sch p\<rparr>) t)"
      "drops jid (set (allocations ?c) \<union> set (reservations ?c)) (plans ?c) p"
      "books p (set (om_erase jid (allocations ?c)) \<union> set (om_erase jid (reservations ?c)))"
    using mod_plan_ok [of u ?t2 ?c md jid] assms(1,4) ok(4,5,7) ok(6) [of jid] by auto
  let ?v' = "?v\<lparr>idata := ?ic, schedule := ?sch p\<rparr>"
  have "fst ` (set (om_erase jid (allocations ?c)) \<union> set (om_erase jid (reservations ?c)) \<union> set (om_erase jid (x_spans ?i))
      \<union> set (om_erase jid (job2span ?i))) \<subseteq> fst ` set (om_erase jid (tags ?i))"
    using ok(10) by (force simp: set_erase)
  then have "vertex_ok s ?v'" using ok(1-5) ok(6) p(3) x(3) sp(4) by (simp add: vertex_ok_def Let_def om_find_erase)
  moreover have "?v' = ?v\<lparr>schedule := ?sch p, idata := ?i\<lparr>tags := om_erase jid (tags ?i), x_spans := om_erase jid (x_spans ?i),
      job2span := om_erase jid (job2span ?i), x_checker := x, subplans := sp, colors := colors ?i\<rparr>\<rparr>" by simp
  ultimately have "released s jid ?v ?v'" unfolding released_def using p(2) x(2) sp(2,3) by blast
  then show ?thesis using p(1) x(1) sp(1) tag assms(4) by (intro exI [of _ ?t2] exI [of _ ?v']) (simp add: mod_idata_def)
qed

lemma vertex_ok_color [simp]: "vertex_ok s (v\<lparr>idata := (idata v)\<lparr>colors := cs\<rparr>\<rparr>) = vertex_ok s v"
  by (simp add: vertex_ok_def Let_def)

lemma released_refl:
  assumes "vertex_ok s v" and "om_find jid (tags (idata v)) = None"
  shows "released s jid v (v\<lparr>idata := (idata v)\<lparr>colors := cs\<rparr>\<rparr>)"
proof -
  note ok = vertex_okD [OF assms(1)]
  have k: "jid \<notin> fst ` set (tags (idata v))" using assms(2) by (simp add: om_find_None_iff)
  have n: "om_find jid (allocations (schedule v)) = None" "om_find jid (reservations (schedule v)) = None"
    "om_find jid (x_spans (idata v)) = None" "om_find jid (job2span (idata v)) = None"
    using ok(10) k by (auto simp: om_find_None_iff)
  then have d: "drops jid (set (allocations (schedule v)) \<union> set (reservations (schedule v))) (plans (schedule v)) (plans (schedule v))"
    "drops jid (set (x_spans (idata v))) (x_checker (idata v)) (x_checker (idata v))"
    by (auto simp: om_find_None_iff intro!: drops_none)
  let ?v = "v\<lparr>idata := (idata v)\<lparr>colors := cs\<rparr>\<rparr>"
  have e: "?v = v\<lparr>schedule := \<lparr>allocations = om_erase jid (allocations (schedule v)),
            reservations = om_erase jid (reservations (schedule v)), plans = plans (schedule v)\<rparr>,
          idata := (idata v)\<lparr>tags := om_erase jid (tags (idata v)), x_spans := om_erase jid (x_spans (idata v)),
            job2span := om_erase jid (job2span (idata v)), x_checker := x_checker (idata v), subplans := subplans (idata v), colors := cs\<rparr>\<rparr>"
    using n assms(2) by (simp add: om_erase_none)
  have "vertex_ok s ?v" using assms(1) by simp
  moreover have "multi_drops jid (job2span (idata v)) (om_get None s (subplans (idata v))) (om_get None s (subplans (idata v)))"
    using n(4) by (simp add: multi_drops_def)
  ultimately show ?thesis unfolding released_def using e d by blast
qed

lemma released_color:
  assumes "released s jid v v'"
  shows "released s jid v (v'\<lparr>idata := (idata v')\<lparr>colors := cs\<rparr>\<rparr>)"
proof -
  obtain p x sp c where v': "v' = v\<lparr>schedule := \<lparr>allocations = om_erase jid (allocations (schedule v)),
            reservations = om_erase jid (reservations (schedule v)), plans = p\<rparr>,
          idata := (idata v)\<lparr>tags := om_erase jid (tags (idata v)), x_spans := om_erase jid (x_spans (idata v)),
            job2span := om_erase jid (job2span (idata v)), x_checker := x, subplans := sp, colors := c\<rparr>\<rparr>"
    "drops jid (set (allocations (schedule v)) \<union> set (reservations (schedule v))) (plans (schedule v)) p"
    "drops jid (set (x_spans (idata v))) (x_checker (idata v)) x"
    "\<forall>s'. s' \<noteq> s \<longrightarrow> om_find s' sp = om_find s' (subplans (idata v))"
    "multi_drops jid (job2span (idata v)) (om_get None s (subplans (idata v))) (om_get None s sp)"
    using assms unfolding released_def by blast
  have "vertex_ok s (v'\<lparr>idata := (idata v')\<lparr>colors := cs\<rparr>\<rparr>)" using assms by (simp add: released_def)
  moreover have "v'\<lparr>idata := (idata v')\<lparr>colors := cs\<rparr>\<rparr> = v\<lparr>schedule := \<lparr>allocations = om_erase jid (allocations (schedule v)),
            reservations = om_erase jid (reservations (schedule v)), plans = p\<rparr>,
          idata := (idata v)\<lparr>tags := om_erase jid (tags (idata v)), x_spans := om_erase jid (x_spans (idata v)),
            job2span := om_erase jid (job2span (idata v)), x_checker := x, subplans := sp, colors := cs\<rparr>\<rparr>"
    by (simp add: v'(1))
  ultimately show ?thesis unfolding released_def using v'(2-) by blast
qed

lemma released_from_color: "released s jid (v\<lparr>idata := (idata v)\<lparr>colors := cs\<rparr>\<rparr>) v' = released s jid v v'"
  by (simp add: released_def)

section \<open>The walk\<close>

definition shape :: "trav \<Rightarrow> trav \<Rightarrow> bool" where
  "shape t t' \<longleftrightarrow> length (g_vtxs (graph t')) = length (g_vtxs (graph t)) \<and> g_edgs (graph t') = g_edgs (graph t) \<and>
     metadata (m_graph_db t') = metadata (m_graph_db t) \<and> m_color t' = m_color t \<and> m_match t' = m_match t"

definition below :: "string \<Rightarrow> trav \<Rightarrow> nat \<Rightarrow> nat set" where
  "below s t u = {target t e |e. e \<in> set (out_edges (graph t) u) \<and> in_subsystem t e s}"

text \<open>A part of the removal: the vertices it colors are released, and when they were tagged the
  vertices below them are colored too; the other vertices are as before.\<close>

definition goes :: "string \<Rightarrow> int \<Rightarrow> trav \<Rightarrow> trav \<Rightarrow> bool" where
  "goes s jid t t' \<longleftrightarrow> shape t t' \<and> visited s t \<subseteq> visited s t' \<and>
     (\<forall>x\<in>visited s t' - visited s t. released s jid (vtx t x) (vtx t' x) \<and> (has_tag x jid t \<longrightarrow> below s t x \<subseteq> visited s t')) \<and>
     (\<forall>x. x \<notin> visited s t' - visited s t \<longrightarrow> vtx t' x = vtx t x)"

lemma shape_same:
  assumes "shape t t'"
  shows "target t' e = target t e" and "in_subsystem t' e s = in_subsystem t e s" and "out_edges (graph t') u = out_edges (graph t) u"
    and "below s t' u = below s t u" and "graph_ok t' = graph_ok t"
  using assms by (simp_all add: shape_def target_def in_subsystem_def out_edges_def below_def graph_ok_def source_def)

lemma shape_trans: "shape t t' \<Longrightarrow> shape t' t'' \<Longrightarrow> shape t t''"
  by (simp add: shape_def)

lemma goes_refl: "goes s jid t t"
  by (simp add: goes_def shape_def)

lemma goes_trans:
  assumes "goes s jid t t1" and "goes s jid t1 t2"
  shows "goes s jid t t2"
proof -
  have 1: "shape t t1" "visited s t \<subseteq> visited s t1" "\<And>x. x \<notin> visited s t1 - visited s t \<Longrightarrow> vtx t1 x = vtx t x"
    "\<And>x. x \<in> visited s t1 - visited s t \<Longrightarrow> released s jid (vtx t x) (vtx t1 x) \<and> (has_tag x jid t \<longrightarrow> below s t x \<subseteq> visited s t1)"
    using assms(1) by (simp_all add: goes_def)
  have 2: "shape t1 t2" "visited s t1 \<subseteq> visited s t2" "\<And>x. x \<notin> visited s t2 - visited s t1 \<Longrightarrow> vtx t2 x = vtx t1 x"
    "\<And>x. x \<in> visited s t2 - visited s t1 \<Longrightarrow> released s jid (vtx t1 x) (vtx t2 x) \<and> (has_tag x jid t1 \<longrightarrow> below s t x \<subseteq> visited s t2)"
    using assms(2) shape_same(4) [OF 1(1)] by (simp_all add: goes_def)
  have "released s jid (vtx t x) (vtx t2 x) \<and> (has_tag x jid t \<longrightarrow> below s t x \<subseteq> visited s t2)" if "x \<in> visited s t2 - visited s t" for x
  proof (cases "x \<in> visited s t1")
    case True
    then show ?thesis using that 1(4) [of x] 2(2) 2(3) [of x] by auto
  next
    case False
    then have "vtx t1 x = vtx t x" using 1(3) by blast
    then show ?thesis using that False 2(4) [of x] by (simp add: has_tag_def)
  qed
  moreover have "vtx t2 x = vtx t x" if "x \<notin> visited s t2 - visited s t" for x
  proof -
    have "x \<notin> visited s t1 - visited s t" "x \<notin> visited s t2 - visited s t1" using that 1(2) 2(2) by blast+
    then show ?thesis using 1(3) 2(3) by metis
  qed
  ultimately show ?thesis using shape_trans [OF 1(1) 2(1)] 1(2) 2(2) unfolding goes_def by blast
qed

text \<open>What the walk relies on.\<close>

definition ready :: "string \<Rightarrow> nat \<Rightarrow> trav \<Rightarrow> bool" where
  "ready s n t \<longleftrightarrow> graph_ok t \<and> dom_of t = s \<and> s \<in> set (subsystems_of t) \<and> (\<forall>x<length (g_vtxs (graph t)). vertex_ok s (vtx t x)) \<and>
     card (white_of s t) \<le> n"

lemma ready_goes:
  assumes "ready s n t" and "goes s jid t t'"
  shows "ready s n t'"
proof -
  have sh: "shape t t'" and v: "visited s t \<subseteq> visited s t'" using assms(2) by (simp_all add: goes_def)
  have "vertex_ok s (vtx t' x)" if "x < length (g_vtxs (graph t))" for x
    using that assms unfolding goes_def ready_def by (cases "x \<in> visited s t' - visited s t") (auto simp: released_def)
  moreover have "card (white_of s t') \<le> card (white_of s t)"
    using sh v by (intro card_mono) (auto simp: white_of_def shape_def)
  ultimately show ?thesis using assms(1) sh shape_same(5) [OF sh] by (auto simp: ready_def shape_def)
qed

lemma goes_vertex:
  assumes "u < length (g_vtxs (graph t))" and "u \<notin> visited s t"
    and 1: "shape t t1" "visited s t1 = insert u (visited s t)" "\<And>x. x \<noteq> u \<Longrightarrow> vtx t1 x = vtx t x"
    and 2: "goes s jid t1 t2" "has_tag u jid t \<Longrightarrow> below s t u \<subseteq> visited s t2"
    and 3: "shape t2 t3" "visited s t3 = visited s t2" "\<And>x. x \<noteq> u \<Longrightarrow> vtx t3 x = vtx t2 x" "released s jid (vtx t u) (vtx t3 u)"
  shows "goes s jid t t3" and "u \<in> visited s t3"
proof -
  have g: "shape t1 t2" "visited s t1 \<subseteq> visited s t2" "\<And>x. x \<notin> visited s t2 - visited s t1 \<Longrightarrow> vtx t2 x = vtx t1 x"
    "\<And>x. x \<in> visited s t2 - visited s t1 \<Longrightarrow> released s jid (vtx t1 x) (vtx t2 x) \<and> (has_tag x jid t1 \<longrightarrow> below s t x \<subseteq> visited s t2)"
    using 2(1) shape_same(4) [OF 1(1)] by (simp_all add: goes_def)
  show u: "u \<in> visited s t3" using g(2) 1(2) 3(2) by simp
  have "released s jid (vtx t x) (vtx t3 x) \<and> (has_tag x jid t \<longrightarrow> below s t x \<subseteq> visited s t3)" if "x \<in> visited s t3 - visited s t" for x
  proof (cases "x = u")
    case False
    then show ?thesis using that g(4) [of x] 1(2) 1(3) [of x] 3(2) 3(3) [of x] by (simp add: has_tag_def)
  qed (use 2(2) 3(2,4) in simp)
  moreover have "vtx t3 x = vtx t x" if "x \<notin> visited s t3 - visited s t" for x
  proof -
    have "x \<noteq> u" using that u assms(2) by blast
    moreover have "x \<notin> visited s t2 - visited s t1" using that 3(2) 1(2) by blast
    ultimately show ?thesis using 1(3) 3(3) g(3) by metis
  qed
  ultimately show "goes s jid t t3" using shape_trans [OF shape_trans [OF 1(1) g(1)] 3(1)] g(2) 1(2) 3(2) unfolding goes_def by blast
qed

definition visits :: "mod_visitor \<Rightarrow> string \<Rightarrow> int \<Rightarrow> modify_data \<Rightarrow> nat \<Rightarrow> bool" where
  "visits visit s jid md n \<longleftrightarrow> (\<forall>t w. ready s n t \<longrightarrow> w < length (g_vtxs (graph t)) \<longrightarrow> w \<notin> visited s t \<longrightarrow>
     (\<exists>t'. visit w md t = Some (0, md, t') \<and> goes s jid t t' \<and> w \<in> visited s t'))"

lemma i32_0 [simp]: "i32 0 = 0"
  by (simp add: i32_def)

lemma mod_edges_goes:
  assumes "visits visit s jid md n" and "ready s n t" and "set es \<subseteq> {..<length (g_edgs (graph t))}"
  shows "\<exists>t'. mod_edges visit s' es 0 md t = Some (0, md, t') \<and> goes s jid t t' \<and>
           (s' = s \<longrightarrow> (\<forall>e\<in>set es. in_subsystem t e s \<longrightarrow> target t e \<in> visited s t'))"
  using assms(2,3)
proof (induction es arbitrary: t)
  case (Cons e es)
  have dom: "dom_of t = s" and tgt: "target t e < length (g_vtxs (graph t))"
    using Cons.prems by (auto simp: ready_def graph_ok_def)
  have "\<exists>t1. mod_edges visit s' (e # es) 0 md t = mod_edges visit s' es 0 md t1 \<and> goes s jid t t1 \<and>
      (s' = s \<longrightarrow> in_subsystem t e s \<longrightarrow> target t e \<in> visited s t1)"
  proof (cases "in_subsystem t e s' \<and> \<not> stop_explore t e s' \<and> s' = s")
    case True
    then have "target t e \<notin> visited s t" by (auto simp: visited_def stop_explore_color)
    then obtain t1 where "visit (target t e) md t = Some (0, md, t1)" "goes s jid t t1" "target t e \<in> visited s t1"
      using assms(1) Cons.prems(1) tgt unfolding visits_def by blast
    then show ?thesis using True dom by auto
  next
    case False
    then have "mod_edges visit s' (e # es) 0 md t = mod_edges visit s' es 0 md t" using dom by auto
    moreover have "target t e \<in> visited s t" if "s' = s" "in_subsystem t e s"
      using False that tgt by (simp add: visited_def stop_explore_color)
    ultimately show ?thesis using goes_refl by blast
  qed
  then obtain t1 where 1: "mod_edges visit s' (e # es) 0 md t = mod_edges visit s' es 0 md t1" "goes s jid t t1"
    "s' = s \<longrightarrow> in_subsystem t e s \<longrightarrow> target t e \<in> visited s t1" by blast
  have sh: "shape t t1" using 1(2) by (simp add: goes_def)
  then have "set es \<subseteq> {..<length (g_edgs (graph t1))}" using Cons.prems(2) by (simp add: shape_def)
  then obtain t2 where 2: "mod_edges visit s' es 0 md t1 = Some (0, md, t2)" "goes s jid t1 t2"
      "s' = s \<longrightarrow> (\<forall>e\<in>set es. in_subsystem t1 e s \<longrightarrow> target t1 e \<in> visited s t2)"
    using Cons.IH [OF ready_goes [OF Cons.prems(1) 1(2)]] by blast
  have "visited s t1 \<subseteq> visited s t2" using 2(2) by (simp add: goes_def)
  then show ?case using 1 2 goes_trans [OF 1(2) 2(2)] shape_same(1,2) [OF sh] by auto
qed (simp add: goes_refl)

lemma mod_subsystems_goes:
  assumes "visits visit s jid md n" and "ready s n t"
  shows "\<exists>t'. mod_subsystems visit ss u 0 md t = Some (0, md, t') \<and> goes s jid t t' \<and> (s \<in> set ss \<longrightarrow> below s t u \<subseteq> visited s t')"
  using assms(2)
proof (induction ss arbitrary: t)
  case (Cons s' ss)
  have "set (out_edges (graph t) u) \<subseteq> {..<length (g_edgs (graph t))}" by (auto simp: out_edges_def)
  then obtain t1 where 1: "mod_edges visit s' (out_edges (graph t) u) 0 md t = Some (0, md, t1)" "goes s jid t t1"
      "s' = s \<longrightarrow> (\<forall>e\<in>set (out_edges (graph t) u). in_subsystem t e s \<longrightarrow> target t e \<in> visited s t1)"
    using mod_edges_goes [OF assms(1) Cons.prems] by blast
  have sh: "shape t t1" using 1(2) by (simp add: goes_def)
  obtain t2 where 2: "mod_subsystems visit ss u 0 md t1 = Some (0, md, t2)" "goes s jid t1 t2" "s \<in> set ss \<longrightarrow> below s t1 u \<subseteq> visited s t2"
    using Cons.IH [OF ready_goes [OF Cons.prems 1(2)]] by blast
  have "visited s t1 \<subseteq> visited s t2" using 2(2) by (simp add: goes_def)
  then show ?case using 1 2 goes_trans [OF 1(2) 2(2)] shape_same(4) [OF sh] by (auto simp: below_def)
qed (simp add: goes_refl)

lemma color_visit:
  assumes "u < length (g_vtxs (graph t))" and "c = gray (m_color t) \<or> c = black (m_color t)"
  shows "shape t (color_vtx u s c t)" and "visited s (color_vtx u s c t) = insert u (visited s t)"
    and "x \<noteq> u \<Longrightarrow> vtx (color_vtx u s c t) x = vtx t x"
    and "\<exists>cs. vtx (color_vtx u s c t) u = (vtx t u)\<lparr>idata := (idata (vtx t u))\<lparr>colors := cs\<rparr>\<rparr>"
  using assms by (auto simp: color_vtx_def shape_def upd_vtx_nth visited_def has_color_def om_find_assign_any split: if_splits)

lemma put_visit:
  assumes "u < length (g_vtxs (graph t))" and "colors (idata v) = colors (idata (vtx t u))"
  shows "shape t (put u v t)" and "visited s (put u v t) = visited s t" and "x \<noteq> u \<Longrightarrow> vtx (put u v t) x = vtx t x"
  using assms by (auto simp: shape_def upd_vtx_nth visited_def)

lemma counted [simp]:
  "visited s (t\<lparr>m_preorder := k\<rparr>) = visited s t" "visited s (t\<lparr>m_postorder := k\<rparr>) = visited s t"
  "shape t (t'\<lparr>m_preorder := k\<rparr>) = shape t t'" "shape t (t'\<lparr>m_postorder := k\<rparr>) = shape t t'"
  "shape (t\<lparr>m_preorder := k\<rparr>) t' = shape t t'"
  by (simp_all add: visited_def shape_def)

lemma mod_dfv_visits:
  assumes "mod_type md = CANCEL"
  shows "visits (mod_dfv n jid) s jid md n"
proof (induction n)
  case 0
  have "False" if "ready s 0 t" "w < length (g_vtxs (graph t))" "w \<notin> visited s t" for t w
    using that by (auto simp: ready_def white_of_def)
  then show ?case by (auto simp: visits_def)
next
  case (Suc n)
  show ?case unfolding visits_def
  proof (intro allI impI)
    fix t u
    assume t: "ready s (Suc n) t" and u: "u < length (g_vtxs (graph t))" "u \<notin> visited s t"
    let ?p = "t\<lparr>m_preorder := u32 (m_preorder t + 1)\<rparr>"
    let ?g = "color_vtx u s (gray (m_color t)) ?p"
    have c: "gray (m_color t) = gray (m_color ?p) \<or> gray (m_color t) = black (m_color ?p)" by simp
    have up: "u < length (g_vtxs (graph ?p))" using u by simp
    note cv = color_visit [OF up c, where s = s]
    have g: "shape t ?g" "visited s ?g = insert u (visited s t)" "\<And>x. x \<noteq> u \<Longrightarrow> vtx ?g x = vtx t x"
      using cv(1,2) cv(3) by simp_all
    obtain cs where cs: "vtx ?g u = (vtx t u)\<lparr>idata := (idata (vtx t u))\<lparr>colors := cs\<rparr>\<rparr>" using cv(4) by auto
    have ok: "vertex_ok s (vtx t u)" "dom_of t = s" using t u by (simp_all add: ready_def)
    have ug: "u < length (g_vtxs (graph ?g))" using g(1) u by (simp add: shape_def)
    have tag: "has_tag u jid ?g = has_tag u jid t" by (simp add: has_tag_def cs)
    show "\<exists>t'. mod_dfv (Suc n) jid u md t = Some (0, md, t') \<and> goes s jid t t' \<and> u \<in> visited s t'"
    proof (cases "has_tag u jid t")
      case False
      then have "om_find jid (tags (idata (vtx t u))) = None" "om_find jid (tags (idata (vtx ?g u))) = None"
        using tag by (simp_all add: has_tag_def)
      then have r: "released s jid (vtx t u) (vtx ?g u)" and m: "mod_idata u jid s md ?g = Some (Inr 0, True, ?g)"
        using released_refl [OF ok(1)] assms by (simp_all add: cs mod_idata_def rem_tag_def)
      have "goes s jid t ?g" "u \<in> visited s ?g"
        by (rule goes_vertex [OF u g goes_refl]; use False r in \<open>simp add: shape_def\<close>)+
      moreover have "mod_dfv (Suc n) jid u md t = Some (0, md, ?g)" using m ok(2) by (simp add: Let_def code_of_def)
      ultimately show ?thesis by blast
    next
      case True
      have "vertex_ok s (vtx ?g u)" using ok(1) by (simp add: cs)
      moreover have "has_tag u jid ?g" using True tag by simp
      ultimately obtain t1 v' where
          1: "mod_idata u jid s md ?g = Some (Inr 0, False, t1)" "mod_plan u jid md t1 = Some (Inr 0, md, put u v' ?g)"
             "released s jid (vtx ?g u) v'" "colors (idata v') = colors (idata (vtx ?g u))"
        using cancel_books [OF ug _ _ assms, of s jid] by blast
      let ?b = "put u v' ?g"
      have r: "released s jid (vtx t u) v'" using 1(3) unfolding cs released_from_color .
      note pv = put_visit [OF ug 1(4)]
      have b: "shape t ?b" "visited s ?b = insert u (visited s t)" "\<And>x. x \<noteq> u \<Longrightarrow> vtx ?b x = vtx t x" "vtx ?b u = v'"
        using shape_trans [OF g(1) pv(1)] pv(2) g(2) pv(3) g(3) ug by simp_all
      have "ready s n ?b"
      proof -
        have "white_of s ?b = white_of s t - {u}" using b(1,2) by (auto simp: white_of_def shape_def)
        moreover have "u \<in> white_of s t" using u by (simp add: white_of_def)
        ultimately have "card (white_of s ?b) \<le> n" using t by (auto simp: ready_def)
        moreover have "vertex_ok s (vtx ?b x)" if "x < length (g_vtxs (graph t))" for x
          using that t r b(3,4) by (cases "x = u") (simp_all add: ready_def released_def)
        ultimately show ?thesis using t b(1) shape_same(5) [OF b(1)] by (auto simp: ready_def shape_def)
      qed
      from mod_subsystems_goes [OF Suc this, of "subsystems_of t" u] obtain t2 where
          2: "mod_subsystems (mod_dfv n jid) (subsystems_of t) u 0 md ?b = Some (0, md, t2)" "goes s jid ?b t2" "below s t u \<subseteq> visited s t2"
        using t shape_same(4) [OF b(1)] by (auto simp: ready_def)
      let ?e = "(color_vtx u s (black (m_color t2)) t2)\<lparr>m_postorder := u32 (m_postorder t2 + 1)\<rparr>"
      have sh: "shape ?b t2" using 2(2) by (simp add: goes_def)
      have u2: "u < length (g_vtxs (graph t2))" "u \<in> visited s t2" "vtx t2 u = v'" 
        using sh ug 2(2) b(2,4) by (auto simp: shape_def goes_def)
      note ev = color_visit [OF u2(1), where c = "black (m_color t2)" and s = s, OF disjI2, OF refl]
      obtain cs' where "vtx ?e u = v'\<lparr>idata := (idata v')\<lparr>colors := cs'\<rparr>\<rparr>" using ev(4) u2(3) by auto
      then have re: "released s jid (vtx t u) (vtx ?e u)" using released_color [OF r] by metis
      have "goes s jid t ?e" "u \<in> visited s ?e"
        by (rule goes_vertex [OF u b(1-3) 2(2,3) _ _ _ re]; use ev(1-3) u2(2) in \<open>simp add: insert_absorb\<close>)+
      moreover have "subsystems_of ?b = subsystems_of t" using b(1) by (simp add: shape_def)
      then have "mod_dfv (Suc n) jid u md t = Some (0, md, ?e)" using 1(1,2) 2(1) ok(2)
        by (simp add: Let_def code_of_def color_vtx_def upd_graph_def)
      ultimately show ?thesis by blast
    qed
  qed
qed

section \<open>Removing a job\<close>

text \<open>The job is tagged on the root and on a path down to every other vertex it is tagged on.\<close>

definition tagged_step :: "int \<Rightarrow> trav \<Rightarrow> (nat \<times> nat) set" where
  "tagged_step jid t = {(a, b). b \<in> below (dom_of t) t a \<and> has_tag b jid t}"

definition job_connected :: "int \<Rightarrow> nat \<Rightarrow> trav \<Rightarrow> bool" where
  "job_connected jid rv t \<longleftrightarrow> has_tag rv jid t \<and> (\<forall>u<length (g_vtxs (graph t)). has_tag u jid t \<longrightarrow> (rv, u) \<in> (tagged_step jid t)\<^sup>*)"

definition books_ok :: "trav \<Rightarrow> bool" where
  "books_ok t \<longleftrightarrow> graph_ok t \<and> dom_of t \<in> set (subsystems_of t) \<and>
     (\<forall>x<length (g_vtxs (graph t)). vertex_ok (dom_of t) (vtx t x))"

lemma remove_job:
  assumes "books_ok t" and "rv < length (g_vtxs (graph t))" and "job_connected jid rv t" and "visited (dom_of t) (reset_color t) = {}"
  shows "\<exists>t'. remove rv jid t = Some (0, t') \<and> shape (reset_color t) t' \<and>
           (\<forall>u<length (g_vtxs (graph t)). released (dom_of t) jid (vtx t u) (vtx t' u))"
proof -
  let ?s = "dom_of t" and ?N = "length (g_vtxs (graph t))"
  let ?t = "reset_color (t\<lparr>m_preorder := 0, m_postorder := 0\<rparr>)"
  have same: "graph ?t = graph t" "m_match ?t = m_match t" "metadata (m_graph_db ?t) = metadata (m_graph_db t)"
    by (simp_all add: reset_color_def)
  have v: "visited ?s ?t = {}" using assms(4) by (simp add: visited_def reset_color_def)
  have "graph_ok ?t = graph_ok t" using same by (simp add: graph_ok_def source_def target_def)
  then have r: "ready ?s (Suc ?N) ?t" using assms(1) same v by (simp add: ready_def books_ok_def white_of_def)
  obtain t' where t': "mod_dfv (Suc ?N) jid rv (new_modify_data\<lparr>mod_type := CANCEL\<rparr>) ?t = Some (0, new_modify_data\<lparr>mod_type := CANCEL\<rparr>, t')"
      "goes ?s jid ?t t'" "rv \<in> visited ?s t'"
    using mod_dfv_visits [of "new_modify_data\<lparr>mod_type := CANCEL\<rparr>" "Suc ?N" jid ?s] r v assms(2) same
    unfolding visits_def by force
  have tag: "has_tag u jid ?t = has_tag u jid t" "below ?s ?t u = below ?s t u" for u
    using same by (simp_all add: has_tag_def below_def target_def in_subsystem_def)
  have g: "\<And>x. x \<in> visited ?s t' \<Longrightarrow> released ?s jid (vtx t x) (vtx t' x) \<and> (has_tag x jid t \<longrightarrow> below ?s t x \<subseteq> visited ?s t')"
    "\<And>x. x \<notin> visited ?s t' \<Longrightarrow> vtx t' x = vtx t x"
    using t'(2) v same tag by (simp_all add: goes_def)
  have reach: "u \<in> visited ?s t' \<and> has_tag u jid t" if "(rv, u) \<in> (tagged_step jid t)\<^sup>*" for u
    using that
  proof (induction rule: rtrancl_induct)
    case base
    then show ?case using t'(3) assms(3) by (simp add: job_connected_def)
  next
    case (step y z)
    then show ?case using g(1) [of y] by (auto simp: tagged_step_def)
  qed
  have "released ?s jid (vtx t u) (vtx t' u)" if u: "u < ?N" for u
  proof (cases "u \<in> visited ?s t'")
    case False
    then have "\<not> has_tag u jid t" using reach u assms(3) by (auto simp: job_connected_def)
    then have "released ?s jid (vtx t u) ((vtx t u)\<lparr>idata := (idata (vtx t u))\<lparr>colors := colors (idata (vtx t u))\<rparr>\<rparr>)"
      using assms(1) u by (intro released_refl) (simp_all add: books_ok_def has_tag_def)
    then show ?thesis using g(2) [OF False] by simp
  qed (use g(1) in blast)
  moreover have "has_tag rv jid ?t" using assms(3) tag by (simp add: job_connected_def)
  then have "remove rv jid t = Some (0, t')" using t'(1) same by (simp add: remove_def Let_def)
  moreover have "shape (reset_color t) t'" using t'(2) by (simp add: goes_def shape_def reset_color_def)
  ultimately show ?thesis by blast
qed

text \<open>The exhaustive visit, for a job that the root is not tagged with, never reports success: its
  code starts at -1 and no removal adds a positive one.\<close>

lemma planner_rem_span_code: "planner_rem_span p k = Some (r, p') \<Longrightarrow> code_of r = 0 \<or> code_of r = - 1"
  by (auto simp: planner_rem_span_def code_of_def Let_def elim!: runE split: option.split_asm)

lemma exv_loop_negative:
  "exv_loop jid us rc t = Some (rc', t') \<Longrightarrow> rc < 0 \<Longrightarrow> - (2 ^ 31) + int (length us) \<le> rc \<Longrightarrow> rc' < 0"
proof (induction us arbitrary: rc t)
  case (Cons u us)
  have "- (2 ^ 31) + int (length us) \<le> i32 (rc + k) \<and> i32 (rc + k) < 0" if "k = 0 \<or> k = - 1" for k
  proof -
    have "i32 (rc + k) = rc + k" using that Cons.prems(2,3) by (auto simp: i32_def)
    then show ?thesis using that Cons.prems(2,3) by auto
  qed
  then show ?case using Cons by (auto simp: Let_def elim!: runE dest!: planner_rem_span_code split: option.split_asm)
qed simp

lemma mod_exv_fails:
  "mod_exv jid t = Some (rc, t') \<Longrightarrow> length (g_vtxs (graph t)) < 2 ^ 31 \<Longrightarrow> rc = - 1"
  using exv_loop_negative [of jid "[0..<length (g_vtxs (graph t))]" "- 1" t] by (auto simp: mod_exv_def split: if_splits)

text \<open>What the exhaustive visit does all the same: no vertex is left with an allocation of the job.\<close>

lemma exv_loop_step:
  assumes "exv_loop jid (u # us) rc t = Some r" and "u < length (g_vtxs (graph t))"
  shows "\<exists>rc1 c. exv_loop jid us rc1 (put u ((vtx t u)\<lparr>schedule := c\<rparr>) t) = Some r \<and> om_find jid (allocations c) = None"
proof (cases "om_find jid (allocations (schedule (vtx t u)))")
  case (Some k)
  then obtain q p where "planner_rem_span (plans (schedule (vtx t u))) k = Some (q, p)"
      "exv_loop jid us (i32 (rc + code_of q)) (put u ((vtx t u)\<lparr>schedule := (schedule (vtx t u))\<lparr>allocations := om_erase jid (allocations (schedule (vtx t u))), plans := p\<rparr>\<rparr>) t) = Some r"
    using assms by (auto simp: Let_def sets_put elim!: runE)
  moreover have "om_find jid (allocations ((schedule (vtx t u))\<lparr>allocations := om_erase jid (allocations (schedule (vtx t u))), plans := p\<rparr>)) = None"
    by (simp add: om_find_erase)
  ultimately show ?thesis by blast
next
  case None
  show ?thesis
  proof (cases "om_find jid (reservations (schedule (vtx t u)))")
    case (Some k)
    then obtain q p where "planner_rem_span (plans (schedule (vtx t u))) k = Some (q, p)"
        "exv_loop jid us (i32 (rc + code_of q)) (put u ((vtx t u)\<lparr>schedule := (schedule (vtx t u))\<lparr>reservations := om_erase jid (reservations (schedule (vtx t u))), plans := p\<rparr>\<rparr>) t) = Some r"
      using assms None by (auto simp: Let_def sets_put elim!: runE)
    moreover have "om_find jid (allocations ((schedule (vtx t u))\<lparr>reservations := om_erase jid (reservations (schedule (vtx t u))), plans := p\<rparr>)) = None"
      using None by simp
    ultimately show ?thesis by blast
  next
    case no: None
    then have "exv_loop jid us rc (put u ((vtx t u)\<lparr>schedule := schedule (vtx t u)\<rparr>) t) = Some r" using assms None by (simp add: Let_def)
    then show ?thesis using None by blast
  qed
qed

lemma exv_loop_erases:
  assumes "exv_loop jid us rc t = Some (rc', t')" and "set us \<subseteq> {..<length (g_vtxs (graph t))}"
    and "u \<in> set us \<or> om_find jid (allocations (schedule (vtx t u))) = None" and "u < length (g_vtxs (graph t))"
  shows "om_find jid (allocations (schedule (vtx t' u))) = None"
  using assms
proof (induction us arbitrary: rc t)
  case (Cons x us)
  then obtain rc1 c where 1: "exv_loop jid us rc1 (put x ((vtx t x)\<lparr>schedule := c\<rparr>) t) = Some (rc', t')" "om_find jid (allocations c) = None"
    using exv_loop_step [of jid x us rc t] by auto
  have "u \<in> set us \<or> om_find jid (allocations (schedule (vtx (put x ((vtx t x)\<lparr>schedule := c\<rparr>) t) u))) = None"
    using Cons.prems(3,4) 1(2) by (cases "u = x") (simp_all add: upd_vtx_nth)
  then show ?case using Cons.IH [OF 1(1)] Cons.prems(2,4) by simp
qed simp

lemma mod_exv_erases:
  assumes "mod_exv jid t = Some (rc, t')" and "u < length (g_vtxs (graph t))"
  shows "om_find jid (allocations (schedule (vtx t' u))) = None"
  using assms exv_loop_erases [of jid "[0..<length (g_vtxs (graph t))]" "- 1" t _ t' u] by (fastforce simp: mod_exv_def)

end
