(* ===== verification/Traverser_Booking.thy ===== *)
theory Traverser_Booking
  imports Traverser_Books
begin

text \<open>
  Booking keeps the books: whatever the planners grant or refuse, an update ends, every vertex
  satisfies its invariant afterwards, and nothing of the other jobs has changed. A job that is booked
  and removed again leaves the records and the plans of every vertex as they were.
\<close>

section \<open>What a planner answers\<close>

definition window :: "int \<Rightarrow> int \<Rightarrow> bool" where
  "window s d \<longleftrightarrow> - (2 ^ 63) \<le> s \<and> 1 \<le> d \<and> d \<le> int64_max \<and> s + d \<le> int64_max"

definition grows :: "int \<Rightarrow> planner \<Rightarrow> planner \<Rightarrow> bool" where
  "grows k q q' \<longleftrightarrow> planner_inv q' \<and> om_find k (m_span_lookup q) = None \<and> (\<exists>sp. m_span_lookup q' = om_assign k sp (m_span_lookup q)) \<and>
     m_total_resources q' = m_total_resources q \<and> m_plan_start q' = m_plan_start q \<and> m_plan_end q' = m_plan_end q"

lemma add_span_outcome:
  assumes "planner_inv p" and "window s d" and "0 \<le> r" and "r < 2 ^ 64" and "m_span_counter p < int64_max"
  shows "(\<not> fits p s d r \<and> (\<exists>e. planner_add_span (Some p) s d r = Some (Inl e, Some p))) \<or>
    (fits p s d r \<and> (\<exists>p'. planner_add_span (Some p) s d r = Some (Inr (m_span_counter p + 1), Some p') \<and> grows (m_span_counter p + 1) p p'))"
proof (cases "fits p s d r")
  case True
  have "om_find (m_span_counter p + 1) (m_span_lookup p) = None"
    using planner_invD(6) [OF assms(1)] by (force simp: om_find_None_iff span_inv_def)
  then show ?thesis using planner_add_span_ok [OF assms(1) True _ _ assms(5)] assms(2) True by (auto simp: window_def grows_def)
next
  case False
  show ?thesis
  proof (cases "r \<le> int64_max")
    case True
    then show ?thesis using add_span_rejected [OF assms(1) False] assms(2,3) False by (simp add: window_def)
  next
    case big: False
    have "(r + 2 ^ 63) mod 2 ^ 64 = (r - 2 ^ 63 + 2 ^ 64) mod 2 ^ 64" by (simp add: add.commute)
    also have "\<dots> = r - 2 ^ 63" using big assms(4) unfolding mod_add_self2 by (intro mod_pos_pos_trivial) (auto simp: int64_max_def)
    finally have "i64 r < 0" using assms(4) by (simp add: i64_def u64_def)
    then have "\<exists>e. span_new s d r p = (Inl e, p)" by (simp add: span_new_def span_input_check_def split: sum.split)
    then have "\<exists>e. planner_add_span (Some p) s d r = Some (Inl e, Some p)"
      by (cases "avail_during s d (i64 r) p") (auto simp: planner_add_span_def)
    then show ?thesis using False by blast
  qed
qed

text \<open>The parts of a filter keep the spans they had.\<close>

definition extends :: "planner_multi_meta \<Rightarrow> planner_multi_meta \<Rightarrow> bool" where
  "extends e e' \<longleftrightarrow> part_ok e' \<and> (\<forall>k. om_find k (m_span_lookup (part e)) \<noteq> None \<longrightarrow> om_find k (m_span_lookup (part e')) \<noteq> None)"

lemma multi_add_refused:
  assumes "length es = length rs" and "window s d" and "\<exists>i<length es. \<not> fits (part (es ! i)) s d (rs ! i)"
    and "\<forall>i<length es. part_ok (es ! i) \<and> m_span_counter (part (es ! i)) < int64_max \<and> 0 \<le> rs ! i \<and> rs ! i < 2 ^ 64"
  shows "\<exists>e es'. multi_add_loop s d es rs = Some (Inl e, es') \<and> length es' = length es \<and> (\<forall>i<length es. extends (es ! i) (es' ! i))"
  using assms(1,3,4)
proof (induction es rs rule: list_induct2)
  case (Cons e es r rs)
  have 0: "part_ok e" "m_span_counter (part e) < int64_max" "0 \<le> r" "r < 2 ^ 64"
    using Cons.prems(2) [rule_format, of 0] by simp_all
  then have e: "meta_planner e = Some (part e)" "planner_inv (part e)" by (auto simp: part_ok_def part_def)
  have rest: "\<forall>i<length es. part_ok (es ! i) \<and> m_span_counter (part (es ! i)) < int64_max \<and> 0 \<le> rs ! i \<and> rs ! i < 2 ^ 64"
    using Cons.prems(2) by (metis Suc_less_eq length_Cons nth_Cons_Suc)
  have same: "extends x x" if "part_ok x" for x using that by (simp add: extends_def)
  have upd: "e\<lparr>meta_planner := Some (part e)\<rparr> = e" using e(1) by (metis planner_multi_meta.surjective planner_multi_meta.update_convs(3))
  show ?case
  proof (cases "fits (part e) s d r")
    case True
    then obtain p' where p': "planner_add_span (Some (part e)) s d r = Some (Inr (m_span_counter (part e) + 1), Some p')" "grows (m_span_counter (part e) + 1) (part e) p'"
      using add_span_outcome [OF e(2) assms(2) 0(3,4,2)] by blast
    have "\<exists>i<length es. \<not> fits (part (es ! i)) s d (rs ! i)" using Cons.prems(1) True by (auto simp: less_Suc_eq_0_disj)
    then obtain err es' where "multi_add_loop s d es rs = Some (Inl err, es')" "length es' = length es" "\<forall>i<length es. extends (es ! i) (es' ! i)"
      using Cons.IH [OF _ rest] by blast
    moreover have "extends e (e\<lparr>meta_planner := Some p'\<rparr>)"
      using p'(2) by (auto simp: extends_def grows_def part_ok_def om_find_assign_any)
    ultimately show ?thesis using p'(1) e(1)
      by (intro exI [of _ err] exI [of _ "e\<lparr>meta_planner := Some p'\<rparr> # es'"]) (simp add: All_less_Suc2)
  next
    case False
    then obtain err where "planner_add_span (Some (part e)) s d r = Some (Inl err, Some (part e))"
      using add_span_outcome [OF e(2) assms(2) 0(3,4,2)] by blast
    then show ?thesis using e(1) same rest 0(1) upd by (intro exI [of _ err] exI [of _ "e # es"]) (auto simp: All_less_Suc2)
  qed
qed simp

definition multi_room :: "planner_multi \<Rightarrow> bool" where
  "multi_room pm \<longleftrightarrow> mm_span_counter pm < int64_max \<and> (\<forall>q\<in>set (parts pm). m_span_counter q < int64_max)"

definition multi_grows :: "planner_multi \<Rightarrow> planner_multi \<Rightarrow> bool" where
  "multi_grows pm pm' \<longleftrightarrow> multi_inv pm' \<and> (\<forall>k. om_find k (mm_span_lookup pm) \<noteq> None \<longrightarrow> om_find k (mm_span_lookup pm') = om_find k (mm_span_lookup pm))"

lemma multi_add_outcome:
  assumes "multi_inv pm" and "multi_room pm" and "window s d" and "\<forall>r\<in>set rs. 0 \<le> r \<and> r < 2 ^ 64"
  shows "\<exists>r pm'. planner_multi_add_span (Some pm) s d (Some rs) = Some (r, Some pm') \<and> multi_grows pm pm' \<and>
    (\<forall>k. r = Inr k \<longrightarrow> om_find k (mm_span_lookup pm) = None \<and> om_find k (mm_span_lookup pm') \<noteq> None)"
proof -
  let ?es = "m_types_totals_planners pm" and ?k = "mm_span_counter pm"
  note inv = multi_invD [OF assms(1)]
  have w: "1 \<le> d" "d \<le> int64_max" using assms(3) by (simp_all add: window_def)
  have nk: "om_find ?k (mm_span_lookup pm) = None" using inv(4) by (force simp: om_find_None_iff)
  consider (len) "length rs \<noteq> length ?es" | (fit) "length rs = length ?es" "\<forall>i<length rs. fits (parts pm ! i) s d (rs ! i)"
    | (ref) "length rs = length ?es" "\<exists>i<length ?es. \<not> fits (part (?es ! i)) s d (rs ! i)"
    by (auto simp: parts_def)
  then show ?thesis
  proof cases
    case len
    then show ?thesis using assms(1) by (auto simp: planner_multi_add_span_def get_planners_size_def multi_grows_def)
  next
    case fit
    have "fits (parts pm ! i) s d (rs ! i) \<and> m_span_counter (parts pm ! i) < int64_max" if "i < length rs" for i
      using that fit assms(2) by (simp add: multi_room_def parts_def)
    then obtain pm' ids where "planner_multi_add_span (Some pm) s d (Some rs) = Some (Inr ?k, Some pm')"
        "multi_inv pm'" "mm_span_lookup pm' = om_assign ?k ids (mm_span_lookup pm)"
      using planner_multi_add_span_ok [OF assms(1), of rs d s] fit(1) w assms(2) by (auto simp: parts_def multi_room_def)
    then show ?thesis using nk by (auto simp: multi_grows_def om_find_assign_any)
  next
    case ref
    have "\<forall>i<length ?es. part_ok (?es ! i) \<and> m_span_counter (part (?es ! i)) < int64_max \<and> 0 \<le> rs ! i \<and> rs ! i < 2 ^ 64"
      using inv(1) assms(2,4) ref(1) by (auto simp: multi_room_def parts_def)
    then obtain e es' where L: "multi_add_loop s d ?es rs = Some (Inl e, es')" "length es' = length ?es" "\<forall>i<length ?es. extends (?es ! i) (es' ! i)"
      using multi_add_refused [OF ref(1) [symmetric] assms(3) ref(2)] by blast
    let ?L = "mm_span_lookup pm"
    have er: "om_erase ?k (om_assign ?k [] ?L) = ?L" using inv(2) nk by (rule om_erase_assign)
    have c: "u64 (?k + 1) = ?k + 1" using inv(3) assms(2) by (intro u64_id) (auto simp: is_u64_def multi_room_def int64_max_def)
    let ?pm = "pm\<lparr>mm_span_counter := ?k + 1, m_types_totals_planners := es', mm_span_lookup_iter := iter_after_erase ?k (mm_span_lookup_iter pm)\<rparr>"
    have p: "planner_multi_add_span (Some pm) s d (Some rs) = Some (Inl e, Some ?pm)"
      using L(1) ref(1) nk er c by (simp add: planner_multi_add_span_def get_planners_size_def om_insert_def Let_def)
    have "ids_ok es' ids" if "(k, ids) \<in> set ?L" for k ids
      using inv(4) [OF that] L(2,3) by (auto simp: ids_ok_def extends_def)
    moreover have "\<forall>e\<in>set es'. part_ok e" using L(2,3) by (auto simp: in_set_conv_nth extends_def)
    ultimately have "multi_inv ?pm" using assms(1) unfolding multi_inv_def by (auto split: prod.split_asm)
    then show ?thesis using p by (auto simp: multi_grows_def)
  qed
qed

section \<open>Booking at a vertex\<close>

definition room :: "string \<Rightarrow> resource_pool \<Rightarrow> bool" where
  "room s v \<longleftrightarrow> (\<forall>q. plans (schedule v) = Some q \<longrightarrow> m_span_counter q < int64_max) \<and>
     (\<forall>q. x_checker (idata v) = Some q \<longrightarrow> m_span_counter q < int64_max) \<and>
     (\<forall>pm. om_get None s (subplans (idata v)) = Some pm \<longrightarrow> multi_room pm)"

text \<open>A job entered in a table with a new span of the planner, or nothing at all.\<close>

definition enters :: "int \<Rightarrow> (int, int) omap \<Rightarrow> planner option \<Rightarrow> (int, int) omap \<Rightarrow> planner option \<Rightarrow> bool" where
  "enters jid m p m' p' \<longleftrightarrow> (m' = m \<and> p' = p) \<or>
     (\<exists>q q' k. p = Some q \<and> p' = Some q' \<and> grows k q q' \<and> m' = om_assign jid k m)"

lemma enters_books:
  assumes "enters jid m p m' p'" and "books p (set m \<union> B)" and "om_ok m" and "om_find jid m = None" and "jid \<notin> fst ` B"
  shows "books p' (set m' \<union> B)" and "om_ok m'" and "fst ` set m' \<subseteq> insert jid (fst ` set m)"
proof -
  have set': "set (om_assign jid k m) = insert (jid, k) (set m)" for k
    using assms(3,4) by (force simp: set_om_assign om_find_None_iff)
  show "om_ok m'" using assms(1,3) by (auto simp: enters_def)
  show "fst ` set m' \<subseteq> insert jid (fst ` set m)" using assms(1) set' by (auto simp: enters_def)
  show "books p' (set m' \<union> B)" using assms(1) unfolding enters_def
  proof (elim disjE conjE exE)
    fix q q' k
    assume h: "p = Some q" "p' = Some q'" "grows k q q'" "m' = om_assign jid k m"
    have old: "\<forall>(j, k)\<in>set m \<union> B. om_find k (m_span_lookup q) \<noteq> None" and one: "one_each (set m \<union> B)"
      using assms(2) h(1) by (auto simp: books_def)
    have "k' \<noteq> k" if "(j, k') \<in> set m \<union> B" for j k' using bspec [OF old that] h(3) by (auto simp: grows_def)
    then have "one_each (insert (jid, k) (set m \<union> B))" using one unfolding one_each_def by fastforce
    moreover have "om_find k' (m_span_lookup q') \<noteq> None" if "(j, k') \<in> insert (jid, k) (set m \<union> B)" for j k'
      using that bspec [OF old, of "(j, k')"] h(3) by (auto simp: grows_def om_find_assign_any)
    ultimately show ?thesis using h set' by (auto simp: books_def grows_def)
  qed (use assms(2) in simp)
qed

lemma enters_refl: "enters jid m p m p"
  by (simp add: enters_def)

lemma enters_find: "enters jid m p m' p' \<Longrightarrow> j \<noteq> jid \<Longrightarrow> om_find j m' = om_find j m"
  by (auto simp: enters_def om_find_assign_any)

lemma upd_plan_books:
  fixes t u
  defines "c \<equiv> schedule (vtx t u)"
  assumes "u < length (g_vtxs (graph t))" and "books (plans c) B" and "room s (vtx t u)" and "window (jm_at meta) (jm_duration meta)"
    and "alloc_type meta = AT_ALLOC \<or> alloc_type meta = AT_ALLOC_ORELSE_RESERVE" and "0 \<le> nd" and "nd < 2 ^ 64" and "0 \<le> n"
  shows "\<exists>r n' a rr p. upd_plan u nd excl meta full n t =
      Some (r, n', put u ((vtx t u)\<lparr>schedule := \<lparr>allocations = a, reservations = rr, plans = p\<rparr>\<rparr>) t) \<and>
      (a = allocations c \<and> enters (jobid meta) (reservations c) (plans c) rr p \<or> rr = reservations c \<and> enters (jobid meta) (allocations c) (plans c) a p) \<and>
      0 \<le> n' \<and> (n' = 0 \<or> (\<exists>e. r = Inl e) \<longrightarrow> a = allocations c \<and> rr = reservations c \<and> p = plans c)"
proof -
  obtain q where q: "plans c = Some q" "planner_inv q" using assms(3) by (auto simp: books_def)
  have d: "u64 (jm_duration meta) = jm_duration meta" using assms(5) by (intro u64_id) (auto simp: window_def is_u64_def int64_max_def)
  have rm: "m_span_counter q < int64_max" using assms(4) q(1) by (simp add: room_def c_def)
  have put: "c'\<lparr>plans := p\<rparr> = \<lparr>allocations = allocations c', reservations = reservations c', plans = p\<rparr>" for c' p
    by (cases c') simp
  show ?thesis
  proof (cases "excl \<and> full")
    case False
    show ?thesis
      by (rule exI [of _ "Inr 0"], rule exI [of _ "if excl then n + 1 else n"], rule exI [of _ "allocations c"],
          rule exI [of _ "reservations c"], rule exI [of _ "plans c"])
        (use False assms(2,9) in \<open>auto simp: upd_plan_def enters_refl c_def\<close>)
  next
    case True
    from add_span_outcome [OF q(2) assms(5,7,8) rm]
    consider (no) e where "planner_add_span (plans c) (jm_at meta) (jm_duration meta) nd = Some (Inl e, Some q)"
      | (yes) q' where "planner_add_span (plans c) (jm_at meta) (jm_duration meta) nd = Some (Inr (m_span_counter q + 1), Some q')" "grows (m_span_counter q + 1) q q'"
      using q(1) by auto
    then show ?thesis
    proof cases
      case no
      show ?thesis
        by (rule exI [of _ "Inl e"], rule exI [of _ "n + 1"], rule exI [of _ "allocations c"],
            rule exI [of _ "reservations c"], rule exI [of _ "Some q"])
          (use no True assms(2,9) d q(1) in \<open>simp add: upd_plan_def c_def sets_put enters_refl put\<close>)
    next
      case yes
      have "enters (jobid meta) m (plans c) (om_assign (jobid meta) (m_span_counter q + 1) m) (Some q')" for m
        using yes(2) q(1) by (auto simp: enters_def)
      note en = this
      have upds: "c'\<lparr>plans := p, allocations := a\<rparr> = \<lparr>allocations = a, reservations = reservations c', plans = p\<rparr>"
        "c'\<lparr>plans := p, reservations := a\<rparr> = \<lparr>allocations = allocations c', reservations = a, plans = p\<rparr>" for c' p a
        by (cases c', simp)+
      show ?thesis
      proof (cases "alloc_type meta = AT_ALLOC")
        case al: True
        show ?thesis
          by (rule exI [of _ "Inr 0"], rule exI [of _ "n + 1"], rule exI [of _ "om_assign (jobid meta) (m_span_counter q + 1) (allocations c)"],
              rule exI [of _ "reservations c"], rule exI [of _ "Some q'"])
            (use True al yes(1) assms(2,9) d en in \<open>simp add: upd_plan_def c_def sets_put upds\<close>)
      next
        case False
        then have al: "alloc_type meta = AT_ALLOC_ORELSE_RESERVE" using assms(6) by blast
        show ?thesis
          by (rule exI [of _ "Inr 0"], rule exI [of _ "n + 1"], rule exI [of _ "allocations c"],
              rule exI [of _ "om_assign (jobid meta) (m_span_counter q + 1) (reservations c)"], rule exI [of _ "Some q'"])
            (use True al yes(1) assms(2,9) d en in \<open>simp add: upd_plan_def c_def sets_put upds\<close>)
      qed
    qed
  qed
qed

lemma upd_txfilter_books:
  assumes "u < length (g_vtxs (graph t))" and "idata (vtx t u) = i" and "books (x_checker i) B" and "window (jm_at meta) (jm_duration meta)"
    and "\<forall>q. x_checker i = Some q \<longrightarrow> m_span_counter q < int64_max"
  shows "\<exists>r x xs. upd_txfilter u meta t =
      Some (r, put u ((vtx t u)\<lparr>idata := i\<lparr>tags := om_assign (jobid meta) (jobid meta) (tags i), x_checker := x, x_spans := xs\<rparr>\<rparr>) t) \<and>
      enters (jobid meta) (x_spans i) (x_checker i) xs x"
proof -
  obtain q where q: "x_checker i = Some q" "planner_inv q" using assms(3) by (auto simp: books_def)
  have d: "u64 (jm_duration meta) = jm_duration meta" using assms(4) by (intro u64_id) (auto simp: window_def is_u64_def int64_max_def)
  from add_span_outcome [OF q(2) assms(4), of 1] assms(5) q(1)
  consider (no) e where "planner_add_span (Some q) (jm_at meta) (jm_duration meta) 1 = Some (Inl e, Some q)"
    | (yes) q' where "planner_add_span (Some q) (jm_at meta) (jm_duration meta) 1 = Some (Inr (m_span_counter q + 1), Some q')" "grows (m_span_counter q + 1) q q'"
    by auto
  then show ?thesis
  proof cases
    case no
    have "i\<lparr>tags := a, x_checker := Some q, x_spans := x_spans i\<rparr> = i\<lparr>tags := a, x_checker := Some q\<rparr>" for a by simp
    then show ?thesis using no assms(1,2) q(1) d
      by (intro exI [of _ "Inl e"] exI [of _ "Some q"] exI [of _ "x_spans i"]) (simp add: upd_txfilter_def sets_put Let_def enters_refl)
  next
    case yes
    have "enters (jobid meta) (x_spans i) (x_checker i) (om_assign (jobid meta) (m_span_counter q + 1) (x_spans i)) (Some q')"
      using yes(2) q(1) by (auto simp: enters_def)
    then show ?thesis using yes(1) assms(1,2) q(1) d
      by (intro exI [of _ "Inr 0"] exI [of _ "Some q'"] exI [of _ "om_assign (jobid meta) (m_span_counter q + 1) (x_spans i)"])
        (simp add: upd_txfilter_def sets_put Let_def)
  qed
qed

lemma relevant_types_some: "\<exists>rs. count_relevant_types (Some pm) m = Some rs \<and> (\<forall>r\<in>set rs. 0 \<le> r \<and> r < 2 ^ 64)"
proof -
  let ?es = "m_types_totals_planners pm" and ?f = "\<lambda>i. u64 (om_get 0 (resource_type (m_types_totals_planners pm ! i)) m)"
  have "planner_multi_resource_type_at (Some pm) i \<bind> (\<lambda>ty. case ty of Inl _ \<Rightarrow> None | Inr ty \<Rightarrow> Some (u64 (om_get 0 ty m))) = Some (?f i)"
    if "i < length ?es" for i
    using that by (simp add: planner_multi_resource_type_at_def get_resource_type_at_def at_index_def)
  then have "map (\<lambda>i. planner_multi_resource_type_at (Some pm) i \<bind> (\<lambda>ty. case ty of Inl _ \<Rightarrow> None | Inr ty \<Rightarrow> Some (u64 (om_get 0 ty m))))
      [0..<planner_multi_resources_len (Some pm)] = map Some (map ?f [0..<length ?es])"
    by (auto simp: planner_multi_resources_len_def get_planners_size_def)
  moreover have "those (map Some xs) = Some xs" for xs :: "int list" by (induction xs) simp_all
  ultimately have "count_relevant_types (Some pm) m = Some (map ?f [0..<length ?es])" unfolding count_relevant_types_def by metis
  then show ?thesis by (auto simp: u64_def)
qed

lemma upd_agfilter_books:
  assumes "u < length (g_vtxs (graph t))" and "idata (vtx t u) = i" and "filter_books s (subplans i) (job2span i)" and "om_ok (job2span i)"
    and "window (jm_at meta) (jm_duration meta)" and "\<forall>pm. om_get None s (subplans i) = Some pm \<longrightarrow> multi_room pm"
    and "om_find (jobid meta) (job2span i) = None"
  shows "\<exists>r sp js. upd_agfilter u s meta dfu t = Some (r, put u ((vtx t u)\<lparr>idata := i\<lparr>subplans := sp, job2span := js\<rparr>\<rparr>) t) \<and>
      (\<forall>s'. s' \<noteq> s \<longrightarrow> om_find s' sp = om_find s' (subplans i)) \<and> filter_books s sp js \<and>
      (js = job2span i \<or> (\<exists>k. js = om_assign (jobid meta) k (job2span i)))"
proof (cases "om_get None s (subplans i) = None \<or> dfu = []")
  case True
  then show ?thesis using assms(1-3)
    by (intro exI [of _ "Inr 0"] exI [of _ "subplans i"] exI [of _ "job2span i"]) (auto simp: upd_agfilter_def split: option.split)
next
  case False
  then obtain pm where pm: "om_get None s (subplans i) = Some pm" by auto
  then have mb: "multi_books pm (set (job2span i))" using assms(3) by (simp add: filter_books_def)
  then have inv: "multi_inv pm" by (simp add: multi_books_def)
  have d: "u64 (jm_duration meta) = jm_duration meta" using assms(5) by (intro u64_id) (auto simp: window_def is_u64_def int64_max_def)
  obtain rs where rs: "count_relevant_types (Some pm) dfu = Some rs" "\<forall>r\<in>set rs. 0 \<le> r \<and> r < 2 ^ 64" using relevant_types_some by blast
  obtain r pm' where a: "planner_multi_add_span (Some pm) (jm_at meta) (jm_duration meta) (Some rs) = Some (r, Some pm')" "multi_grows pm pm'"
      "\<And>k. r = Inr k \<Longrightarrow> om_find k (mm_span_lookup pm) = None \<and> om_find k (mm_span_lookup pm') \<noteq> None"
    using multi_add_outcome [OF inv _ assms(5) rs(2)] assms(6) pm by blast
  let ?sp = "om_assign s (Some pm') (subplans i)"
  have sp: "om_get None s ?sp = Some pm'" "\<forall>s'. s' \<noteq> s \<longrightarrow> om_find s' ?sp = om_find s' (subplans i)"
    by (simp_all add: om_get_def om_find_assign_any)
  have old: "om_find k (mm_span_lookup pm) \<noteq> None" "om_find k (mm_span_lookup pm') \<noteq> None" if "(j, k) \<in> set (job2span i)" for j k
    using mb that a(2) by (fastforce simp: multi_books_def multi_grows_def)+
  show ?thesis
  proof (cases r)
    case (Inl e)
    have "multi_books pm' (set (job2span i))" using mb a(2) old(2) by (auto simp: multi_books_def multi_grows_def)
    then have "filter_books s ?sp (job2span i)" using sp(1) by (simp add: filter_books_def)
    moreover have "i\<lparr>subplans := ?sp, job2span := job2span i\<rparr> = i\<lparr>subplans := ?sp\<rparr>" by simp
    ultimately show ?thesis using Inl False pm rs(1) a(1) sp(2) d assms(1,2)
      by (intro exI [of _ "Inl e"] exI [of _ ?sp] exI [of _ "job2span i"]) (simp add: upd_agfilter_def sets_put)
  next
    case (Inr k)
    have set': "set (om_assign (jobid meta) k (job2span i)) = insert (jobid meta, k) (set (job2span i))"
      using assms(4,7) by (force simp: set_om_assign om_find_None_iff)
    have "k' \<noteq> k" if "(j, k') \<in> set (job2span i)" for j k' using old(1) [OF that] a(3) [OF Inr] by auto
    then have "one_each (insert (jobid meta, k) (set (job2span i)))" using mb unfolding multi_books_def one_each_def by fastforce
    then have "filter_books s ?sp (om_assign (jobid meta) k (job2span i))"
      using sp(1) a(2) a(3) [OF Inr] old(2) set' by (auto simp: filter_books_def multi_books_def multi_grows_def)
    then show ?thesis using Inr False pm rs(1) a(1) sp(2) d assms(1,2)
      by (intro exI [of _ "Inr 0"] exI [of _ ?sp] exI [of _ "om_assign (jobid meta) k (job2span i)"]) (auto simp: upd_agfilter_def sets_put)
  qed
qed

text \<open>What booking does to a vertex.\<close>

definition booked :: "string \<Rightarrow> int \<Rightarrow> resource_pool \<Rightarrow> resource_pool \<Rightarrow> bool" where
  "booked s jid v v' \<longleftrightarrow> vertex_ok s v' \<and>
     (\<exists>a rr p tg xs js x sp cs. v' = v\<lparr>schedule := \<lparr>allocations = a, reservations = rr, plans = p\<rparr>,
          idata := (idata v)\<lparr>tags := tg, x_spans := xs, job2span := js, x_checker := x, subplans := sp, colors := cs\<rparr>\<rparr> \<and>
        (a = allocations (schedule v) \<and> enters jid (reservations (schedule v)) (plans (schedule v)) rr p \<or>
         rr = reservations (schedule v) \<and> enters jid (allocations (schedule v)) (plans (schedule v)) a p) \<and>
        enters jid (x_spans (idata v)) (x_checker (idata v)) xs x \<and> (tg = tags (idata v) \<or> tg = om_assign jid jid (tags (idata v))) \<and>
        (js = job2span (idata v) \<or> (\<exists>k. js = om_assign jid k (job2span (idata v)))) \<and>
        (\<forall>s'. s' \<noteq> s \<longrightarrow> om_find s' sp = om_find s' (subplans (idata v))))"

lemma untagged:
  assumes "vertex_ok s v" and "om_find jid (tags (idata v)) = None"
  shows "om_find jid (allocations (schedule v)) = None" "om_find jid (reservations (schedule v)) = None"
    "om_find jid (x_spans (idata v)) = None" "om_find jid (job2span (idata v)) = None"
  using vertex_okD(10) [OF assms(1)] assms(2) by (auto simp: om_find_None_iff)

lemma booked_refl:
  assumes "vertex_ok s v"
  shows "booked s jid v (v\<lparr>idata := (idata v)\<lparr>colors := cs\<rparr>\<rparr>)"
proof -
  have "v\<lparr>idata := (idata v)\<lparr>colors := cs\<rparr>\<rparr> = v\<lparr>schedule := \<lparr>allocations = allocations (schedule v), reservations = reservations (schedule v), plans = plans (schedule v)\<rparr>,
      idata := (idata v)\<lparr>tags := tags (idata v), x_spans := x_spans (idata v), job2span := job2span (idata v), x_checker := x_checker (idata v),
        subplans := subplans (idata v), colors := cs\<rparr>\<rparr>" by simp
  then show ?thesis unfolding booked_def using assms enters_refl vertex_ok_color by metis
qed

lemma keys_assign: "fst ` set (om_assign k v m) = insert k (fst ` set m)"
  by (induction k v m rule: om_assign.induct) auto

lemma booked_all:
  assumes "vertex_ok s v" and "om_find jid (tags (idata v)) = None"
    and "a = allocations (schedule v) \<and> enters jid (reservations (schedule v)) (plans (schedule v)) rr p \<or>
         rr = reservations (schedule v) \<and> enters jid (allocations (schedule v)) (plans (schedule v)) a p"
    and "enters jid (x_spans (idata v)) (x_checker (idata v)) xs x" and "filter_books s sp js"
    and "js = job2span (idata v) \<or> (\<exists>k. js = om_assign jid k (job2span (idata v)))"
    and "\<forall>s'. s' \<noteq> s \<longrightarrow> om_find s' sp = om_find s' (subplans (idata v))"
  shows "booked s jid v (v\<lparr>schedule := \<lparr>allocations = a, reservations = rr, plans = p\<rparr>,
      idata := (idata v)\<lparr>tags := om_assign jid jid (tags (idata v)), x_spans := xs, job2span := js, x_checker := x, subplans := sp, colors := colors (idata v)\<rparr>\<rparr>)"
    (is "booked s jid v ?v")
proof -
  note ok = vertex_okD [OF assms(1)] and un = untagged [OF assms(1,2)]
  have xs: "books x (set xs)" "om_ok xs" "fst ` set xs \<subseteq> insert jid (fst ` set (x_spans (idata v)))"
    using enters_books [OF assms(4), of "{}"] ok(2,8) un(3) by simp_all
  have js: "om_ok js" "fst ` set js \<subseteq> insert jid (fst ` set (job2span (idata v)))"
    using assms(6) ok(3) by (elim disjE exE; simp add: keys_assign subset_insertI)+
  have sch: "books p (set a \<union> set rr)" "om_ok a" "om_ok rr" "fst ` (set a \<union> set rr) \<subseteq> insert jid (fst ` (set (allocations (schedule v)) \<union> set (reservations (schedule v))))"
    "\<forall>j. om_find j a = None \<or> om_find j rr = None"
  proof -
    have "books p (set a \<union> set rr) \<and> om_ok a \<and> om_ok rr \<and> fst ` (set a \<union> set rr) \<subseteq> insert jid (fst ` (set (allocations (schedule v)) \<union> set (reservations (schedule v))))
        \<and> (\<forall>j. om_find j a = None \<or> om_find j rr = None)"
      using assms(3)
    proof (elim disjE conjE)
      assume h: "a = allocations (schedule v)" "enters jid (reservations (schedule v)) (plans (schedule v)) rr p"
      have "jid \<notin> fst ` set (allocations (schedule v))" using un(1) by (simp add: om_find_None_iff)
      then have "books p (set rr \<union> set a)" "om_ok rr" "fst ` set rr \<subseteq> insert jid (fst ` set (reservations (schedule v)))"
        using enters_books [OF h(2) _ ok(5) un(2), of "set a"] ok(7) h(1) by (simp_all add: Un_commute)
      moreover have "om_find j a = None \<or> om_find j rr = None" for j
        using enters_find [OF h(2), of j] ok(6) [of j] un(1) h(1) by (cases "j = jid") auto
      ultimately show ?thesis using h(1) ok(4) by (auto simp: Un_commute)
    next
      assume h: "rr = reservations (schedule v)" "enters jid (allocations (schedule v)) (plans (schedule v)) a p"
      have "jid \<notin> fst ` set (reservations (schedule v))" using un(2) by (simp add: om_find_None_iff)
      then have "books p (set a \<union> set rr)" "om_ok a" "fst ` set a \<subseteq> insert jid (fst ` set (allocations (schedule v)))"
        using enters_books [OF h(2) _ ok(4) un(1), of "set rr"] ok(7) h(1) by simp_all
      moreover have "om_find j a = None \<or> om_find j rr = None" for j
        using enters_find [OF h(2), of j] ok(6) [of j] un(2) h(1) by (cases "j = jid") auto
      ultimately show ?thesis using h(1) ok(5) by auto
    qed
    then show "books p (set a \<union> set rr)" "om_ok a" "om_ok rr"
      "fst ` (set a \<union> set rr) \<subseteq> insert jid (fst ` (set (allocations (schedule v)) \<union> set (reservations (schedule v))))"
      "\<forall>j. om_find j a = None \<or> om_find j rr = None" by simp_all
  qed
  have "fst ` (set a \<union> set rr \<union> set xs \<union> set js) \<subseteq> fst ` set (om_assign jid jid (tags (idata v)))"
  proof -
    have parts: "fst ` (set (allocations (schedule v)) \<union> set (reservations (schedule v))) \<subseteq> fst ` set (tags (idata v))"
      "fst ` set (x_spans (idata v)) \<subseteq> fst ` set (tags (idata v))" "fst ` set (job2span (idata v)) \<subseteq> fst ` set (tags (idata v))"
      using ok(10) by (simp_all add: image_Un)
    have "fst ` (set a \<union> set rr) \<subseteq> insert jid (fst ` set (tags (idata v)))" by (rule order_trans [OF sch(4)], rule insert_mono, rule parts(1))
    moreover have "fst ` set xs \<subseteq> insert jid (fst ` set (tags (idata v)))" by (rule order_trans [OF xs(3)], rule insert_mono, rule parts(2))
    moreover have "fst ` set js \<subseteq> insert jid (fst ` set (tags (idata v)))" by (rule order_trans [OF js(2)], rule insert_mono, rule parts(3))
    ultimately show ?thesis by (simp add: keys_assign image_Un)
  qed
  then have "vertex_ok s ?v" using ok(1) xs js sch assms(5) by (simp add: vertex_ok_def Let_def)
  then show ?thesis unfolding booked_def using assms(3,4,6,7) by blast
qed

lemma upd_idata_books:
  fixes t u
  defines "i \<equiv> idata (vtx t u)"
  assumes "u < length (g_vtxs (graph t))" and "books (x_checker i) B" and "filter_books s (subplans i) (job2span i)" and "om_ok (job2span i)"
    and rm: "\<forall>q. x_checker i = Some q \<longrightarrow> m_span_counter q < int64_max" "\<forall>pm. om_get None s (subplans i) = Some pm \<longrightarrow> multi_room pm"
    and "window (jm_at meta) (jm_duration meta)" and "om_find (jobid meta) (job2span i) = None"
  shows "\<exists>r xs x sp js. upd_idata u s meta dfu t = Some (r, put u ((vtx t u)\<lparr>idata :=
        i\<lparr>tags := om_assign (jobid meta) (jobid meta) (tags i), x_spans := xs, job2span := js, x_checker := x, subplans := sp, colors := colors i\<rparr>\<rparr>) t) \<and>
      enters (jobid meta) (x_spans i) (x_checker i) xs x \<and> filter_books s sp js \<and>
      (js = job2span i \<or> (\<exists>k. js = om_assign (jobid meta) k (job2span i))) \<and> (\<forall>s'. s' \<noteq> s \<longrightarrow> om_find s' sp = om_find s' (subplans i))"
proof -
  let ?v = "vtx t u" and ?tg = "om_assign (jobid meta) (jobid meta) (tags i)"
  obtain r x xs where 1: "upd_txfilter u meta t = Some (r, put u (?v\<lparr>idata := i\<lparr>tags := ?tg, x_checker := x, x_spans := xs\<rparr>\<rparr>) t)"
      "enters (jobid meta) (x_spans i) (x_checker i) xs x"
    using upd_txfilter_books [OF assms(2) _ assms(3) assms(8) rm(1)] i_def by blast
  let ?i = "i\<lparr>tags := ?tg, x_checker := x, x_spans := xs\<rparr>"
  let ?t = "put u (?v\<lparr>idata := ?i\<rparr>) t"
  show ?thesis
  proof (cases r)
    case (Inl e)
    have eq: "?i = i\<lparr>tags := ?tg, x_spans := xs, job2span := job2span i, x_checker := x, subplans := subplans i, colors := colors i\<rparr>" by simp
    have "upd_idata u s meta dfu t = Some (r, ?t)" using 1(1) Inl by (simp add: upd_idata_def)
    then show ?thesis unfolding eq using 1(2) assms(4) by blast
  next
    case (Inr k)
    obtain r' sp js where 2: "upd_agfilter u s meta dfu ?t = Some (r', put u (?v\<lparr>idata := ?i\<lparr>subplans := sp, job2span := js\<rparr>\<rparr>) t)"
        "\<forall>s'. s' \<noteq> s \<longrightarrow> om_find s' sp = om_find s' (subplans i)" "filter_books s sp js"
        "js = job2span i \<or> (\<exists>k. js = om_assign (jobid meta) k (job2span i))"
      using upd_agfilter_books [of u ?t ?i s meta dfu] assms(2,4,5,8,9) rm(2) by auto
    have eq: "?i\<lparr>subplans := sp, job2span := js\<rparr> = i\<lparr>tags := ?tg, x_spans := xs, job2span := js, x_checker := x, subplans := sp, colors := colors i\<rparr>" by simp
    have "upd_idata u s meta dfu t = Some (r', put u (?v\<lparr>idata := ?i\<lparr>subplans := sp, job2span := js\<rparr>\<rparr>) t)"
      using 1(1) 2(1) Inr by (simp add: upd_idata_def)
    then show ?thesis unfolding eq using 1(2) 2(2-4) by blast
  qed
qed

lemma upd_sched_books:
  assumes "u < length (g_vtxs (graph t))" and "vertex_ok s (vtx t u)" and "\<not> has_tag u (jobid meta) t" and "room s (vtx t u)"
    and "window (jm_at meta) (jm_duration meta)" and "alloc_type meta = AT_ALLOC \<or> alloc_type meta = AT_ALLOC_ORELSE_RESERVE"
    and "0 \<le> nd" and "nd < 2 ^ 64" and "0 \<le> n"
  shows "\<exists>n' tp v' l w'. upd_sched u s nd excl n meta full dfu to_parent ep t w = Some (n', tp, (put u v' t)\<lparr>m_trav_level := l\<rparr>, w') \<and>
    0 \<le> n' \<and> booked s (jobid meta) (vtx t u) v' \<and> colors (idata v') = colors (idata (vtx t u))"
proof -
  let ?v = "vtx t u" and ?j = "jobid meta"
  note ok = vertex_okD [OF assms(2)]
  have tg: "om_find ?j (tags (idata ?v)) = None" using assms(3) by (simp add: has_tag_def)
  note un = untagged [OF assms(2) tg]
  have same: "booked s ?j ?v ?v" using booked_refl [OF assms(2), of ?j "colors (idata ?v)"] by simp
  have na: "alloc_type meta \<noteq> AT_NO_ALLOC" using assms(6) by auto
  obtain r n1 a rr p where 1: "upd_plan u nd excl meta full n t = Some (r, n1, put u (?v\<lparr>schedule := \<lparr>allocations = a, reservations = rr, plans = p\<rparr>\<rparr>) t)"
      "a = allocations (schedule ?v) \<and> enters ?j (reservations (schedule ?v)) (plans (schedule ?v)) rr p \<or>
       rr = reservations (schedule ?v) \<and> enters ?j (allocations (schedule ?v)) (plans (schedule ?v)) a p"
      "0 \<le> n1" "n1 = 0 \<or> (\<exists>e. r = Inl e) \<longrightarrow> a = allocations (schedule ?v) \<and> rr = reservations (schedule ?v) \<and> p = plans (schedule ?v)"
    using upd_plan_books [OF assms(1) ok(7) assms(4-9), of excl full] by blast
  let ?v1 = "?v\<lparr>schedule := \<lparr>allocations = a, reservations = rr, plans = p\<rparr>\<rparr>"
  let ?t1 = "put u ?v1 t"
  have v1: "?v1 = ?v" if "n1 = 0 \<or> (\<exists>e. r = Inl e)" using 1(4) that by simp
  have lv: "put u v' t = (put u v' t)\<lparr>m_trav_level := m_trav_level t\<rparr>" for v' by (simp add: upd_graph_def)
  show ?thesis
  proof (cases "\<exists>e. r = Inl e")
    case True
    then have "upd_sched u s nd excl n meta full dfu to_parent ep t w = Some (n1, to_parent, put u ?v t, w)"
      using 1(1) v1 na by (auto simp: upd_sched_def)
    then show ?thesis using same 1(3) lv [of ?v] by metis
  next
    case False
    then obtain k where r: "r = Inr k" by (cases r) auto
    show ?thesis
    proof (cases "n1 = 0")
      case True
      then have "upd_sched u s nd excl n meta full dfu to_parent ep t w = Some (0, to_parent, (put u ?v t)\<lparr>m_trav_level := u32 (m_trav_level t - 1)\<rparr>, w)"
        using 1(1) v1 na r lv [of ?v] by (simp add: upd_sched_def upd_meta_def upd_done_def)
      then show ?thesis using same by auto
    next
      case False
      have rm: "\<forall>q. x_checker (idata ?v) = Some q \<longrightarrow> m_span_counter q < int64_max" "\<forall>pm. om_get None s (subplans (idata ?v)) = Some pm \<longrightarrow> multi_room pm"
        using assms(4) by (simp_all add: room_def)
      let ?v2 = "\<lambda>xs js x sp. ?v1\<lparr>idata := (idata ?v)\<lparr>tags := om_assign ?j ?j (tags (idata ?v)), x_spans := xs, job2span := js,
          x_checker := x, subplans := sp, colors := colors (idata ?v)\<rparr>\<rparr>"
      have "\<exists>r xs x sp js. upd_idata u s meta dfu ?t1 = Some (r, put u (?v2 xs js x sp) t) \<and>
          enters ?j (x_spans (idata ?v)) (x_checker (idata ?v)) xs x \<and> filter_books s sp js \<and>
          (js = job2span (idata ?v) \<or> (\<exists>k. js = om_assign ?j k (job2span (idata ?v)))) \<and> (\<forall>s'. s' \<noteq> s \<longrightarrow> om_find s' sp = om_find s' (subplans (idata ?v)))"
        using upd_idata_books [of u ?t1 "set (x_spans (idata ?v))" s meta dfu] assms(1,5) ok(3,8,9) rm un(4) by simp
      then obtain r2 xs x sp js where 2: "upd_idata u s meta dfu ?t1 = Some (r2, put u (?v2 xs js x sp) t)"
          "enters ?j (x_spans (idata ?v)) (x_checker (idata ?v)) xs x" "filter_books s sp js"
          "js = job2span (idata ?v) \<or> (\<exists>k. js = om_assign ?j k (job2span (idata ?v)))" "\<forall>s'. s' \<noteq> s \<longrightarrow> om_find s' sp = om_find s' (subplans (idata ?v))"
        by blast
      have b: "booked s ?j ?v (?v2 xs js x sp)" using booked_all [OF assms(2) tg 1(2) 2(2-5)] by simp
      have "\<exists>tp l w'. upd_sched u s nd excl n meta full dfu to_parent ep t w = Some (n1, tp, (put u (?v2 xs js x sp) t)\<lparr>m_trav_level := l\<rparr>, w')"
      proof (cases r2)
        case (Inl e)
        then have "upd_sched u s nd excl n meta full dfu to_parent ep t w = Some (n1, to_parent, put u (?v2 xs js x sp) t, w)"
          using 1(1) 2(1) na r False by (simp add: upd_sched_def upd_meta_def)
        then show ?thesis using lv [of "?v2 xs js x sp"] by metis
      qed (use 1(1) 2(1) na r False in \<open>auto simp: upd_sched_def upd_meta_def upd_done_def\<close>)
      then show ?thesis using b 1(3) by fastforce
    qed
  qed
qed

section \<open>The walk\<close>

definition skeleton :: "graph_edge \<Rightarrow> graph_edge" where
  "skeleton e = e\<lparr>edge_idata := new_relation_infra\<rparr>"

text \<open>Only the order of the out-edges and the weights of the edges may differ.\<close>

definition reshape :: "trav \<Rightarrow> trav \<Rightarrow> bool" where
  "reshape t t' \<longleftrightarrow> length (g_vtxs (graph t')) = length (g_vtxs (graph t)) \<and> map skeleton (g_edgs (graph t')) = map skeleton (g_edgs (graph t)) \<and>
     m_color t' = m_color t \<and> m_match t' = m_match t \<and> (\<exists>m. metadata (m_graph_db t') = (metadata (m_graph_db t))\<lparr>by_outedges := m\<rparr>) \<and>
     (graph_ok t \<longrightarrow> graph_ok t')"

definition enrols :: "string \<Rightarrow> int \<Rightarrow> trav \<Rightarrow> trav \<Rightarrow> bool" where
  "enrols s jid t t' \<longleftrightarrow> reshape t t' \<and> visited s t \<subseteq> visited s t' \<and>
     (\<forall>x\<in>visited s t' - visited s t. booked s jid (vtx t x) (vtx t' x)) \<and>
     (\<forall>x. x \<notin> visited s t' - visited s t \<longrightarrow> vtx t' x = vtx t x)"

lemma reshape_refl: "reshape t t"
  by (simp add: reshape_def exI [of _ "by_outedges (metadata (m_graph_db t))"])

lemma reshape_trans: "reshape t t' \<Longrightarrow> reshape t' t'' \<Longrightarrow> reshape t t''"
  by (auto simp: reshape_def)

lemma shape_reshape: "shape t t' \<Longrightarrow> reshape t t'"
  using shape_same(5) [of t t'] by (auto simp: shape_def reshape_def intro!: exI [of _ "by_outedges (metadata (m_graph_db t))"])

lemma skeleton_edges:
  assumes m: "map skeleton (g_edgs (graph t')) = map skeleton (g_edgs (graph t))"
  shows "length (g_edgs (graph t')) = length (g_edgs (graph t))" and "out_edges (graph t') u = out_edges (graph t) u"
    and "e < length (g_edgs (graph t)) \<Longrightarrow> target t' e = target t e \<and> source t' e = source t e \<and> in_subsystem t' e s = in_subsystem t e s"
proof -
  show l: "length (g_edgs (graph t')) = length (g_edgs (graph t))" using map_eq_imp_length_eq [OF m] .
  have sk: "skeleton (g_edgs (graph t') ! e) = skeleton (g_edgs (graph t) ! e)" if "e < length (g_edgs (graph t))" for e
    using m that l by (metis nth_map)
  have f: "edge_target (skeleton e) = edge_target e" "edge_source (skeleton e) = edge_source e"
    "edge_subsystem (skeleton e) = edge_subsystem e" "edge_removed (skeleton e) = edge_removed e" for e by (simp_all add: skeleton_def)
  have g: "edge_target (g_edgs (graph t') ! e) = edge_target (g_edgs (graph t) ! e) \<and> edge_source (g_edgs (graph t') ! e) = edge_source (g_edgs (graph t) ! e) \<and>
      edge_subsystem (g_edgs (graph t') ! e) = edge_subsystem (g_edgs (graph t) ! e) \<and> edge_removed (g_edgs (graph t') ! e) = edge_removed (g_edgs (graph t) ! e)"
    if "e < length (g_edgs (graph t))" for e
    using sk [OF that] f by metis
  then show "e < length (g_edgs (graph t)) \<Longrightarrow> target t' e = target t e \<and> source t' e = source t e \<and> in_subsystem t' e s = in_subsystem t e s"
    by (simp add: target_def source_def in_subsystem_def)
  show "out_edges (graph t') u = out_edges (graph t) u" unfolding out_edges_def l using g by (intro filter_cong) auto
qed

lemma reshape_edges:
  assumes "reshape t t'"
  shows "length (g_edgs (graph t')) = length (g_edgs (graph t))" and "out_edges (graph t') u = out_edges (graph t) u"
    and "e < length (g_edgs (graph t)) \<Longrightarrow> target t' e = target t e \<and> source t' e = source t e \<and> in_subsystem t' e s = in_subsystem t e s"
  using skeleton_edges [of t' t] assms by (simp_all add: reshape_def)

lemma enrols_refl: "enrols s jid t t"
  by (simp add: enrols_def reshape_refl)

lemma enrols_trans:
  assumes "enrols s jid t t1" and "enrols s jid t1 t2"
  shows "enrols s jid t t2"
proof -
  have 1: "reshape t t1" "visited s t \<subseteq> visited s t1" "\<And>x. x \<notin> visited s t1 - visited s t \<Longrightarrow> vtx t1 x = vtx t x"
    "\<And>x. x \<in> visited s t1 - visited s t \<Longrightarrow> booked s jid (vtx t x) (vtx t1 x)"
    using assms(1) by (simp_all add: enrols_def)
  have 2: "reshape t1 t2" "visited s t1 \<subseteq> visited s t2" "\<And>x. x \<notin> visited s t2 - visited s t1 \<Longrightarrow> vtx t2 x = vtx t1 x"
    "\<And>x. x \<in> visited s t2 - visited s t1 \<Longrightarrow> booked s jid (vtx t1 x) (vtx t2 x)"
    using assms(2) by (simp_all add: enrols_def)
  have "booked s jid (vtx t x) (vtx t2 x)" if "x \<in> visited s t2 - visited s t" for x
    using that 1(3,4) [of x] 2(3,4) [of x] by (cases "x \<in> visited s t1") auto
  moreover have "vtx t2 x = vtx t x" if "x \<notin> visited s t2 - visited s t" for x
  proof -
    have "x \<notin> visited s t1 - visited s t" "x \<notin> visited s t2 - visited s t1" using that 1(2) 2(2) by blast+
    then show ?thesis using 1(3) 2(3) by metis
  qed
  ultimately show ?thesis using reshape_trans [OF 1(1) 2(1)] 1(2) 2(2) unfolding enrols_def by blast
qed

lemma set_assign_sub: "set (om_assign k v m) \<subseteq> insert (k, v) (set m)"
  by (induction k v m rule: om_assign.induct) auto

lemma reorder_enrols:
  assumes "e < length (g_edgs (graph t))" and "source t e = u"
  shows "enrols s jid t (snd (upd_by_outedges s' meta u e t))"
proof -
  let ?m0 = "om_get [] u (by_outedges (metadata (m_graph_db t)))"
  let ?t = "\<lambda>wt k m. (upd_graph (upd_edg e (set_weight wt)) t)\<lparr>m_graph_db := (m_graph_db (upd_graph (upd_edg e (set_weight wt)) t))\<lparr>metadata :=
      (metadata (m_graph_db t))\<lparr>by_outedges := om_assign u (fst (om_insert k e m)) (by_outedges (metadata (m_graph_db t)))\<rparr>\<rparr>\<rparr>"
  have "enrols s jid t (?t wt k (om_erase k' ?m0))" for wt k k'
  proof -
    have "set (fst (om_insert k e (om_erase k' ?m0))) \<subseteq> insert (k, e) (set ?m0)"
      using set_assign_sub [of k e "om_erase k' ?m0"] by (auto simp: om_insert_def set_erase)
    then have sub: "set (om_get [] v (om_assign u (fst (om_insert k e (om_erase k' ?m0))) (by_outedges (metadata (m_graph_db t)))))
        \<subseteq> set (om_get [] v (by_outedges (metadata (m_graph_db t)))) \<union> (if v = u then {(k, e)} else {})" for v
      by (auto simp: om_get_def om_find_assign_any)
    let ?T = "?t wt k (om_erase k' ?m0)"
    have sk: "map skeleton (g_edgs (graph ?T)) = map skeleton (g_edgs (graph t))"
      by (simp add: upd_edg_def map_upd_same skeleton_def)
    have "graph_ok ?T" if g: "graph_ok t"
      unfolding graph_ok_def
    proof (intro conjI allI impI ballI)
      fix e'
      assume e': "e' < length (g_edgs (graph ?T))"
      show "source ?T e' < length (g_vtxs (graph ?T))" "target ?T e' < length (g_vtxs (graph ?T))"
        using skeleton_edges(1,3) [OF sk] e' g by (simp_all add: graph_ok_def)
    next
      fix v x
      assume "x \<in> set (om_get [] v (by_outedges (metadata (m_graph_db ?T))))"
      then have "x \<in> set (om_get [] v (by_outedges (metadata (m_graph_db t)))) \<or> v = u \<and> snd x = e" using sub [of v] by (auto split: if_splits)
      then show "snd x < length (g_edgs (graph ?T))" "source ?T (snd x) = v"
        using skeleton_edges(1,3) [OF sk] g assms by (auto simp: graph_ok_def)
    qed
    moreover have "\<exists>m. metadata (m_graph_db ?T) = (metadata (m_graph_db t))\<lparr>by_outedges := m\<rparr>" by auto
    ultimately have "reshape t ?T" unfolding reshape_def using sk by (intro conjI) simp_all
    moreover have "visited s ?T = visited s t" "\<And>x. vtx ?T x = vtx t x" by (simp_all add: visited_def)
    ultimately show ?thesis unfolding enrols_def by simp
  qed
  then show ?thesis by (simp add: upd_by_outedges_def Let_def split_beta enrols_refl)
qed

text \<open>What the walk relies on: the vertices that are still white do not know the job and their
  planners can number one more span.\<close>

definition open_to :: "string \<Rightarrow> int \<Rightarrow> nat \<Rightarrow> trav \<Rightarrow> bool" where
  "open_to s jid n t \<longleftrightarrow> graph_ok t \<and> dom_of t = s \<and>
     (\<forall>x<length (g_vtxs (graph t)). vertex_ok s (vtx t x) \<and> 0 \<le> vsize (vtx t x) \<and> vsize (vtx t x) < 2 ^ 32) \<and>
     (\<forall>x\<in>white_of s t. \<not> has_tag x jid t \<and> room s (vtx t x)) \<and> card (white_of s t) \<le> n"

lemma booked_keeps: "booked s jid v v' \<Longrightarrow> vertex_ok s v' \<and> vsize v' = vsize v \<and> vtype v' = vtype v"
  by (auto simp: booked_def)

lemma open_enrols:
  assumes "open_to s jid n t" and "enrols s jid t t'"
  shows "open_to s jid n t'"
proof -
  have sh: "reshape t t'" and v: "visited s t \<subseteq> visited s t'" and f: "\<And>x. x \<notin> visited s t' - visited s t \<Longrightarrow> vtx t' x = vtx t x"
    using assms(2) by (simp_all add: enrols_def)
  have len: "length (g_vtxs (graph t')) = length (g_vtxs (graph t))" using sh by (simp add: reshape_def)
  have "vertex_ok s (vtx t' x) \<and> 0 \<le> vsize (vtx t' x) \<and> vsize (vtx t' x) < 2 ^ 32" if "x < length (g_vtxs (graph t))" for x
  proof (cases "x \<in> visited s t' - visited s t")
    case True
    then have "booked s jid (vtx t x) (vtx t' x)" using assms(2) by (simp add: enrols_def)
    then show ?thesis using booked_keeps assms(1) that by (simp add: open_to_def)
  qed (use f assms(1) that in \<open>simp add: open_to_def\<close>)
  moreover have w: "white_of s t' \<subseteq> white_of s t" using v len by (auto simp: white_of_def)
  moreover have "\<not> has_tag x jid t' \<and> room s (vtx t' x)" if "x \<in> white_of s t'" for x
  proof -
    have "vtx t' x = vtx t x" using that f by (simp add: white_of_def)
    moreover have "x \<in> white_of s t" using that w by blast
    ultimately show ?thesis using assms(1) by (simp add: open_to_def has_tag_def)
  qed
  moreover have "card (white_of s t') \<le> card (white_of s t)" using w by (intro card_mono) simp_all
  ultimately show ?thesis using assms(1) sh len by (auto simp: open_to_def reshape_def)
qed

definition enlists :: "upd_visitor \<Rightarrow> string \<Rightarrow> int \<Rightarrow> nat \<Rightarrow> bool" where
  "enlists visit s jid n \<longleftrightarrow> (\<forall>t v nd x tp sh ep w. open_to s jid n t \<longrightarrow> v < length (g_vtxs (graph t)) \<longrightarrow> v \<notin> visited s t \<longrightarrow>
     0 \<le> nd \<longrightarrow> nd < 2 ^ 64 \<longrightarrow> (\<exists>k tp' t' w'. visit v nd x tp sh ep t w = Some (k, tp', t', w') \<and> 0 \<le> k \<and> enrols s jid t t'))"

lemma upd_edges_enrols:
  assumes "enlists visit s jid n" and "open_to s jid n t" and "set es \<subseteq> set (out_edges (graph t) u)" and "0 \<le> k"
  shows "\<exists>k' dfu' t' w'. upd_edges visit meta s' u md excl es k dfu t w = Some (k', dfu', t', w') \<and> 0 \<le> k' \<and> enrols s jid t t'"
  using assms(2-4)
proof (induction es arbitrary: k dfu t w)
  case (Cons e es)
  have e: "e < length (g_edgs (graph t))" "source t e = u" using Cons.prems(2) by (auto simp: out_edges_def source_def)
  have tgt: "target t e < length (g_vtxs (graph t))" "dom_of t = s" "graph_ok t" using Cons.prems(1) e(1) by (auto simp: open_to_def graph_ok_def)
  let ?nd = "get_eff_needs (u32 (m_needs (edge_idata (g_edgs (graph t) ! e)))) (vsize (vtx t (target t e))) md"
  have nd: "0 \<le> ?nd" "?nd < 2 ^ 64"
    using Cons.prems(1) tgt(1) by (auto simp: get_eff_needs_def u32_def open_to_def intro: less_trans)
  have "\<exists>k1 dfu1 t1 w1. upd_edges visit meta s' u md excl (e # es) k dfu t w = upd_edges visit meta s' u md excl es k1 dfu1 t1 w1 \<and> 0 \<le> k1 \<and> enrols s jid t t1"
  proof (cases "in_subsystem t e s' \<and> \<not> stop_explore t e s' \<and> \<not> stop_explore_best e md t \<and> s' = s")
    case True
    then have "target t e \<notin> visited s t" by (auto simp: visited_def stop_explore_color)
    then obtain j tp t1 w1 where v: "visit (target t e) ?nd (get_eff_exclusive (m_exclusive (edge_idata (g_edgs (graph t) ! e)) \<noteq> 0) md) dfu md excl t w = Some (j, tp, t1, w1)"
        "0 \<le> j" "enrols s jid t t1"
      using assms(1) Cons.prems(1) tgt(1) nd unfolding enlists_def by blast
    let ?t2 = "if get_stop_on_k_matches (m_match t1) > 0 then snd (upd_by_outedges s' meta u e t1) else t1"
    have sh: "reshape t t1" using v(3) by (simp add: enrols_def)
    have "enrols s jid t1 ?t2"
      using reorder_enrols [of e t1 u s jid s' meta] reshape_edges(1,3) [OF sh] e enrols_refl by auto
    then have en: "enrols s jid t ?t2" using enrols_trans v(3) by blast
    show ?thesis
    proof (cases "j > 0")
      case j: True
      then have "upd_edges visit meta s' u md excl (e # es) k dfu t w = upd_edges visit meta s' u md excl es (k + j) tp ?t2 (emit_edg e excl ?t2 w1)"
        using True v(1) tgt(2) by (auto simp: Let_def)
      moreover have "0 \<le> k + j" using j Cons.prems(3) by simp
      ultimately show ?thesis using en by blast
    next
      case False
      then have "upd_edges visit meta s' u md excl (e # es) k dfu t w = upd_edges visit meta s' u md excl es k tp t1 w1"
        using True v(1) tgt(2) by (auto simp: Let_def)
      then show ?thesis using v(3) Cons.prems(3) by blast
    qed
  next
    case False
    then have "upd_edges visit meta s' u md excl (e # es) k dfu t w = upd_edges visit meta s' u md excl es k dfu t w" using tgt(2) by (auto simp: Let_def)
    then show ?thesis using Cons.prems(3) enrols_refl by blast
  qed
  then obtain k1 dfu1 t1 w1 where 1: "upd_edges visit meta s' u md excl (e # es) k dfu t w = upd_edges visit meta s' u md excl es k1 dfu1 t1 w1" "0 \<le> k1" "enrols s jid t t1"
    by blast
  have "set es \<subseteq> set (out_edges (graph t1) u)" using Cons.prems(2) reshape_edges(2) [of t t1] 1(3) by (simp add: enrols_def)
  from Cons.IH [OF open_enrols [OF Cons.prems(1) 1(3)] this 1(2)] show ?case using 1(1) enrols_trans [OF 1(3)] by fastforce
qed (simp add: enrols_refl)

lemma upd_subsystems_enrols:
  assumes "enlists visit s jid n" and "open_to s jid n t" and "0 \<le> k"
  shows "\<exists>k' dfu' t' w'. upd_subsystems visit meta ss u md excl k dfu t w = Some (k', dfu', t', w') \<and> 0 \<le> k' \<and> enrols s jid t t'"
  using assms(2,3)
proof (induction ss arbitrary: k dfu t w)
  case (Cons s' ss)
  obtain k1 dfu1 t1 w1 where 1: "upd_edges visit meta s' u md excl (out_edges (graph t) u) k dfu t w = Some (k1, dfu1, t1, w1)" "0 \<le> k1" "enrols s jid t t1"
    using upd_edges_enrols [OF assms(1) Cons.prems(1) order_refl Cons.prems(2)] by blast
  from Cons.IH [OF open_enrols [OF Cons.prems(1) 1(3)] 1(2)] show ?case using 1 enrols_trans [OF 1(3)] by fastforce
qed (simp add: enrols_refl)

lemma enrols_vertex:
  assumes "u < length (g_vtxs (graph t))" and "u \<notin> visited s t"
    and 1: "shape t t1" "visited s t1 = insert u (visited s t)" "\<And>x. x \<noteq> u \<Longrightarrow> vtx t1 x = vtx t x"
    and 2: "enrols s jid t1 t2"
    and 3: "shape t2 t3" "visited s t3 = visited s t2" "\<And>x. x \<noteq> u \<Longrightarrow> vtx t3 x = vtx t2 x" "booked s jid (vtx t u) (vtx t3 u)"
  shows "enrols s jid t t3"
proof -
  have g: "reshape t1 t2" "visited s t1 \<subseteq> visited s t2" "\<And>x. x \<notin> visited s t2 - visited s t1 \<Longrightarrow> vtx t2 x = vtx t1 x"
    "\<And>x. x \<in> visited s t2 - visited s t1 \<Longrightarrow> booked s jid (vtx t1 x) (vtx t2 x)"
    using 2 by (simp_all add: enrols_def)
  have u: "u \<in> visited s t3" using g(2) 1(2) 3(2) by simp
  have "booked s jid (vtx t x) (vtx t3 x)" if "x \<in> visited s t3 - visited s t" for x
    using that g(4) [of x] 1(2) 1(3) [of x] 3(2) 3(3) [of x] 3(4) by (cases "x = u") auto
  moreover have "vtx t3 x = vtx t x" if "x \<notin> visited s t3 - visited s t" for x
  proof -
    have "x \<noteq> u" using that u assms(2) by blast
    moreover have "x \<notin> visited s t2 - visited s t1" using that 3(2) 1(2) by blast
    ultimately show ?thesis using 1(3) 3(3) g(3) by metis
  qed
  ultimately show ?thesis
    using reshape_trans [OF reshape_trans [OF shape_reshape [OF 1(1)] g(1)] shape_reshape [OF 3(1)]] g(2) 1(2) 3(2) unfolding enrols_def by blast
qed

lemma booked_color: "booked s jid (v\<lparr>idata := (idata v)\<lparr>colors := cs\<rparr>\<rparr>) v' = booked s jid v v'"
  by (simp add: booked_def)

lemma level_same [simp]:
  "visited s (t\<lparr>m_trav_level := k\<rparr>) = visited s t" "shape t (t'\<lparr>m_trav_level := k\<rparr>) = shape t t'" "shape (t\<lparr>m_trav_level := k\<rparr>) t' = shape t t'"
  for t :: trav
  by (simp_all add: visited_def shape_def)

lemma color_keeps [simp]:
  "m_match (color_vtx u s c t) = m_match t" "m_color (color_vtx u s c t) = m_color t"
  by (simp_all add: color_vtx_def)

text \<open>A visit books what lies below the vertex and then the vertex, which nothing below has touched.\<close>

lemma upd_dfv_step:
  assumes IH: "enlists (upd_dfv n meta full) s (jobid meta) n"
    and t: "open_to s (jobid meta) (Suc n) t" and u: "u < length (g_vtxs (graph t))" "u \<notin> visited s t"
  obtains k dfu t1 t2 w2 cs where "upd_dfv (Suc n) meta full u nd x tp sh ep t w =
      upd_sched u s nd (x \<or> modify_traversal u sh t) k meta full dfu tp ep (color_vtx u s (black (m_color t2)) t2) w2"
    and "0 \<le> k" and "shape t t1" and "visited s t1 = insert u (visited s t)" and "\<And>x. x \<noteq> u \<Longrightarrow> vtx t1 x = vtx t x"
    and "enrols s (jobid meta) t1 t2" and "u < length (g_vtxs (graph t2))" and "u \<in> visited s t2"
    and "vtx (color_vtx u s (black (m_color t2)) t2) u = (vtx t u)\<lparr>idata := (idata (vtx t u))\<lparr>colors := cs\<rparr>\<rparr>"
proof -
  let ?j = "jobid meta" and ?p = "t\<lparr>m_trav_level := u32 (m_trav_level t + 1)\<rparr>" and ?md = "modify_traversal u sh t"
  let ?g = "color_vtx u s (gray (m_color t)) ?p"
  have c: "gray (m_color t) = gray (m_color ?p) \<or> gray (m_color t) = black (m_color ?p)" by simp
  have up: "u < length (g_vtxs (graph ?p))" using u by simp
  note cv = color_visit [OF up c, where s = s]
  have g: "shape t ?g" "visited s ?g = insert u (visited s t)" "\<And>x. x \<noteq> u \<Longrightarrow> vtx ?g x = vtx t x"
    using cv(1,2) cv(3) by simp_all
  obtain cs where cs: "vtx ?g u = (vtx t u)\<lparr>idata := (idata (vtx t u))\<lparr>colors := cs\<rparr>\<rparr>" using cv(4) by auto
  have dom: "dom_of t = s" using t by (simp add: open_to_def)
  have "open_to s ?j n ?g"
  proof -
    have wh: "white_of s ?g = white_of s t - {u}" using g(1,2) by (auto simp: white_of_def shape_def)
    moreover have "u \<in> white_of s t" using u by (simp add: white_of_def)
    ultimately have "card (white_of s ?g) \<le> n" using t by (auto simp: open_to_def)
    moreover have "vertex_ok s (vtx ?g x) \<and> 0 \<le> vsize (vtx ?g x) \<and> vsize (vtx ?g x) < 2 ^ 32" if "x < length (g_vtxs (graph t))" for x
      using that t g(3) [of x] cs by (cases "x = u") (simp_all add: open_to_def)
    moreover have "\<not> has_tag x ?j ?g \<and> room s (vtx ?g x)" if "x \<in> white_of s ?g" for x
      using that wh g(3) [of x] t by (simp add: open_to_def has_tag_def)
    ultimately show ?thesis using t g(1) shape_same(5) [OF g(1)] by (auto simp: open_to_def shape_def)
  qed
  from upd_subsystems_enrols [OF IH this order_refl, of meta "subsystems_of t" u ?md "x \<or> ?md" "[]" w]
  obtain k dfu t2 w2 where 2: "upd_subsystems (upd_dfv n meta full) meta (subsystems_of t) u ?md (x \<or> ?md) 0 [] ?g w = Some (k, dfu, t2, w2)"
      "0 \<le> k" "enrols s ?j ?g t2" by blast
  have len: "length (g_vtxs (graph t2)) = length (g_vtxs (graph t))" using 2(3) g(1) by (simp add: enrols_def reshape_def shape_def)
  have u2: "u < length (g_vtxs (graph t2))" "u \<in> visited s t2" "vtx t2 u = vtx ?g u"
    using u(1) len 2(3) g(2) by (auto simp: enrols_def)
  obtain cs' where "vtx (color_vtx u s (black (m_color t2)) t2) u = (vtx t u)\<lparr>idata := (idata (vtx t u))\<lparr>colors := cs'\<rparr>\<rparr>"
    using color_visit(4) [OF u2(1), where c = "black (m_color t2)" and s = s] u2(3) cs by auto
  moreover have "upd_dfv (Suc n) meta full u nd x tp sh ep t w =
      upd_sched u s nd (x \<or> ?md) k meta full dfu tp ep (color_vtx u s (black (m_color t2)) t2) w2"
    using 2(1) dom by (simp add: Let_def)
  ultimately show thesis using that [OF _ 2(2) g 2(3) u2(1,2)] by blast
qed

lemma upd_dfv_enlists:
  assumes "window (jm_at meta) (jm_duration meta)" and "alloc_type meta = AT_ALLOC \<or> alloc_type meta = AT_ALLOC_ORELSE_RESERVE"
  shows "enlists (upd_dfv n meta full) s (jobid meta) n"
proof (induction n)
  case 0
  have False if "open_to s (jobid meta) 0 t" "v < length (g_vtxs (graph t))" "v \<notin> visited s t" for t v
    using that by (auto simp: open_to_def white_of_def)
  then show ?case by (auto simp: enlists_def)
next
  case (Suc n)
  show ?case unfolding enlists_def
  proof (intro allI impI)
    fix t u and nd :: int and x tp sh ep w
    assume t: "open_to s (jobid meta) (Suc n) t" and u: "u < length (g_vtxs (graph t))" "u \<notin> visited s t" and nd: "0 \<le> nd" "nd < 2 ^ 64"
    let ?j = "jobid meta"
    obtain k dfu t1 t2 w2 cs where d: "upd_dfv (Suc n) meta full u nd x tp sh ep t w =
          upd_sched u s nd (x \<or> modify_traversal u sh t) k meta full dfu tp ep (color_vtx u s (black (m_color t2)) t2) w2"
        "0 \<le> k" and g: "shape t t1" "visited s t1 = insert u (visited s t)" "\<And>x. x \<noteq> u \<Longrightarrow> vtx t1 x = vtx t x"
        and e: "enrols s ?j t1 t2" and u2: "u < length (g_vtxs (graph t2))" "u \<in> visited s t2"
        and cs: "vtx (color_vtx u s (black (m_color t2)) t2) u = (vtx t u)\<lparr>idata := (idata (vtx t u))\<lparr>colors := cs\<rparr>\<rparr>"
      using upd_dfv_step [OF Suc t u] by metis
    let ?b = "color_vtx u s (black (m_color t2)) t2"
    have ok: "vertex_ok s (vtx t u)" "\<not> has_tag u ?j t" "room s (vtx t u)" using t u by (auto simp: open_to_def white_of_def)
    note bv = color_visit [OF u2(1), where c = "black (m_color t2)" and s = s, OF disjI2, OF refl]
    have ub: "u < length (g_vtxs (graph ?b))" using bv(1) u2(1) by (simp add: shape_def)
    have "vertex_ok s (vtx ?b u)" "\<not> has_tag u ?j ?b" "room s (vtx ?b u)" using ok by (simp_all add: cs has_tag_def room_def)
    from upd_sched_books [OF ub this assms nd d(2), of "x \<or> modify_traversal u sh t" full dfu tp ep w2]
    obtain k' tp' v' l w' where 3: "upd_sched u s nd (x \<or> modify_traversal u sh t) k meta full dfu tp ep ?b w2 = Some (k', tp', (put u v' ?b)\<lparr>m_trav_level := l\<rparr>, w')"
        "0 \<le> k'" "booked s ?j (vtx ?b u) v'" "colors (idata v') = colors (idata (vtx ?b u))" by blast
    let ?e = "(put u v' ?b)\<lparr>m_trav_level := l\<rparr>"
    note pv = put_visit [OF ub 3(4)]
    have "shape t2 ?e" using shape_trans [OF bv(1) pv(1)] by simp
    moreover have "visited s ?e = visited s t2" using pv(2) bv(2) u2(2) by (simp add: insert_absorb)
    moreover have "vtx ?e x = vtx t2 x" if "x \<noteq> u" for x using pv(3) [OF that] bv(3) [OF that] by simp
    moreover have "booked s ?j (vtx t u) (vtx ?e u)" using 3(3) ub unfolding cs booked_color by simp
    ultimately have "enrols s ?j t ?e" using enrols_vertex [OF u g e] by blast
    then show "\<exists>k tp' t' w'. upd_dfv (Suc n) meta full u nd x tp sh ep t w = Some (k, tp', t', w') \<and> 0 \<le> k \<and> enrols s ?j t t'"
      using 3(1,2) d(1) by metis
  qed
qed

section \<open>Booking a job\<close>

definition bookable :: "jobmeta \<Rightarrow> trav \<Rightarrow> bool" where
  "bookable meta t \<longleftrightarrow> window (jm_at meta) (jm_duration meta) \<and> (alloc_type meta = AT_ALLOC \<or> alloc_type meta = AT_ALLOC_ORELSE_RESERVE) \<and>
     (\<forall>x<length (g_vtxs (graph t)). \<not> has_tag x (jobid meta) t \<and> room (dom_of t) (vtx t x) \<and> 0 \<le> vsize (vtx t x) \<and> vsize (vtx t x) < 2 ^ 32)"

lemma bookable_open:
  assumes "books_ok t" and "bookable meta t" and "visited (dom_of t) (reset_color t) = {}"
  shows "open_to (dom_of t) (jobid meta) (Suc (length (g_vtxs (graph t)))) (reset_color t)"
proof -
  have g: "graph (reset_color t) = graph t" "m_match (reset_color t) = m_match t"
    "metadata (m_graph_db (reset_color t)) = metadata (m_graph_db t)" by (simp_all add: reset_color_def)
  have "graph_ok (reset_color t)" using assms(1) g by (simp add: books_ok_def graph_ok_def source_def target_def)
  moreover have "white_of (dom_of t) (reset_color t) = {..<length (g_vtxs (graph t))}" using assms(3) g by (simp add: white_of_def)
  ultimately show ?thesis using assms(1,2) g by (simp add: open_to_def books_ok_def bookable_def has_tag_def)
qed

text \<open>A root whose own planner refuses: the update reports success, and the root is not tagged.\<close>

lemma update_refused:
  assumes "books_ok t" and "bookable meta t" and "rv < length (g_vtxs (graph t))" and "visited (dom_of t) (reset_color t) = {}"
    and "m_edge_seq (root_edge t) = m_sequence_number t" and "m_exclusive (root_edge t) \<noteq> 0"
    and "plans (schedule (vtx t rv)) = Some q" and "\<not> fits q (jm_at meta) (jm_duration meta) (u32 (m_needs (root_edge t)))"
  shows "\<exists>t' w'. update rv meta t w = Some (Inr 0, t', w') \<and> \<not> has_tag rv (jobid meta) t'"
proof -
  let ?s = "dom_of t" and ?N = "length (g_vtxs (graph t))" and ?j = "jobid meta" and ?t = "reset_color t" and ?nd = "u32 (m_needs (root_edge t))"
  note o = bookable_open [OF assms(1,2,4)]
  have win: "window (jm_at meta) (jm_duration meta)" "alloc_type meta = AT_ALLOC \<or> alloc_type meta = AT_ALLOC_ORELSE_RESERVE"
    using assms(2) by (simp_all add: bookable_def)
  have g: "graph ?t = graph t" "m_match ?t = m_match t" by (simp_all add: reset_color_def)
  obtain k dfu t2 w2 cs where d: "upd_dfv (Suc ?N) meta True rv ?nd True [] (modify_traversal rv False ?t) False ?t w =
        upd_sched rv ?s ?nd True k meta True dfu [] False (color_vtx rv ?s (black (m_color t2)) t2) w2" "0 \<le> k"
      "rv < length (g_vtxs (graph t2))"
      "vtx (color_vtx rv ?s (black (m_color t2)) t2) rv = (vtx t rv)\<lparr>idata := (idata (vtx t rv))\<lparr>colors := cs\<rparr>\<rparr>"
    using upd_dfv_step [OF upd_dfv_enlists [OF win] o, of rv True ?nd True "[]" "modify_traversal rv False ?t" False w] assms(3,4)
    unfolding g simp_thms by (metis empty_iff)
  let ?b = "color_vtx rv ?s (black (m_color t2)) t2"
  have inv: "planner_inv q" "m_span_counter q < int64_max"
    using assms(1-3,7) by (auto simp: books_ok_def vertex_ok_def Let_def books_def bookable_def room_def)
  have nd: "0 \<le> ?nd" "?nd < 2 ^ 64" by (simp_all add: u32_def less_trans [OF pos_mod_bound])
  obtain e where "planner_add_span (Some q) (jm_at meta) (jm_duration meta) ?nd = Some (Inl e, Some q)"
    using add_span_outcome [OF inv(1) win(1) nd inv(2)] assms(8) by blast
  moreover have "u64 (jm_duration meta) = jm_duration meta" using win(1) by (intro u64_id) (auto simp: window_def is_u64_def int64_max_def)
  ultimately have "upd_sched rv ?s ?nd True k meta True dfu [] False ?b w2 = Some (k + 1, [], set_schedule rv (\<lambda>s. s\<lparr>plans := Some q\<rparr>) ?b, w2)"
    using d(4) assms(7) win(2) by (auto simp: upd_sched_def upd_plan_def)
  moreover have "\<not> has_tag rv ?j (set_schedule rv (\<lambda>s. s\<lparr>plans := Some q\<rparr>) ?b)"
  proof -
    have "rv < length (g_vtxs (graph ?b))" using d(3) by (simp add: color_vtx_def)
    then show ?thesis using d(4) assms(2,3) by (simp add: has_tag_def sets_put bookable_def)
  qed
  ultimately show ?thesis using d(1,2) assms(5,6) g by (auto simp: update_def book_def Let_def simp del: upd_dfv.simps)
qed

lemma update_books:
  assumes "books_ok t" and "bookable meta t" and "rv < length (g_vtxs (graph t))" and "visited (dom_of t) (reset_color t) = {}"
  shows "\<exists>r t' w'. update rv meta t w = Some (r, t', w') \<and> books_ok t' \<and> m_match t' = m_match t \<and>
           length (g_vtxs (graph t')) = length (g_vtxs (graph t)) \<and>
           (\<forall>u<length (g_vtxs (graph t)). booked (dom_of t) (jobid meta) (vtx t u) (vtx t' u))"
proof -
  let ?s = "dom_of t" and ?N = "length (g_vtxs (graph t))" and ?j = "jobid meta"
  have same: "booked ?s ?j v v" if "vertex_ok ?s v" for v using booked_refl [OF that, of ?j "colors (idata v)"] by simp
  show ?thesis
  proof (cases "m_edge_seq (root_edge t) = m_sequence_number t")
    case False
    then show ?thesis using assms(1) same by (auto simp: update_def books_ok_def)
  next
    case True
    let ?t = "reset_color t"
    have g: "graph ?t = graph t" "m_match ?t = m_match t" "metadata (m_graph_db ?t) = metadata (m_graph_db t)" by (simp_all add: reset_color_def)
    note o = bookable_open [OF assms(1,2,4)]
    have "0 \<le> u32 k" "u32 k < 2 ^ 64" for k by (simp_all add: u32_def less_trans [OF pos_mod_bound])
    then obtain k tp t' w' where 1: "upd_dfv (Suc ?N) meta True rv (u32 (m_needs (root_edge t))) (m_exclusive (root_edge t) \<noteq> 0) []
        (modify_traversal rv False ?t) False ?t w = Some (k, tp, t', w')" "enrols ?s ?j ?t t'"
      using upd_dfv_enlists [of meta "Suc ?N" True ?s] assms(2,3,4) o g unfolding enlists_def bookable_def by (metis empty_iff)
    have sh: "reshape ?t t'" "open_to ?s ?j (Suc ?N) t'" using 1(2) open_enrols [OF o] by (simp_all add: enrols_def)
    have len: "length (g_vtxs (graph t')) = ?N" "m_match t' = m_match t" using sh(1) g by (simp_all add: reshape_def)
    have "booked ?s ?j (vtx t u) (vtx t' u)" if "u < ?N" for u
    proof (cases "u \<in> visited ?s t'")
      case True
      then show ?thesis using 1(2) assms(4) g by (auto simp: enrols_def)
    next
      case False
      then have "vtx t' u = vtx t u" using 1(2) g by (simp add: enrols_def)
      then show ?thesis using same assms(1) that by (simp add: books_ok_def)
    qed
    moreover have "books_ok t'" using sh(2) len assms(1) by (auto simp: open_to_def books_ok_def)
    moreover have "\<exists>r w''. update rv meta t w = Some (r, t', w'')" using 1(1) True g by (auto simp: update_def book_def Let_def simp del: upd_dfv.simps)
    ultimately show ?thesis using len by blast
  qed
qed

section \<open>Booking and removing\<close>

definition same_spans :: "planner option \<Rightarrow> planner option \<Rightarrow> bool" where
  "same_spans p p' \<longleftrightarrow> (\<exists>q q'. p = Some q \<and> p' = Some q' \<and> planner_inv q' \<and> m_span_lookup q' = m_span_lookup q \<and>
     m_total_resources q' = m_total_resources q \<and> m_plan_start q' = m_plan_start q \<and> m_plan_end q' = m_plan_end q)"

definition restored :: "resource_pool \<Rightarrow> resource_pool \<Rightarrow> bool" where
  "restored v v' \<longleftrightarrow> allocations (schedule v') = allocations (schedule v) \<and> reservations (schedule v') = reservations (schedule v) \<and>
     tags (idata v') = tags (idata v) \<and> x_spans (idata v') = x_spans (idata v) \<and> job2span (idata v') = job2span (idata v) \<and>
     same_spans (plans (schedule v)) (plans (schedule v')) \<and> same_spans (x_checker (idata v)) (x_checker (idata v'))"

lemma enters_drops:
  assumes "enters jid m p m' p'" and "drops jid (set m' \<union> B) p' p''" and "books p C" and "om_ok m" and "om_find jid m = None" and "jid \<notin> fst ` B"
  shows "om_erase jid m' = m" and "same_spans p p''"
proof -
  obtain q0 where q0: "p = Some q0" "planner_inv q0" using assms(3) by (auto simp: books_def)
  show "om_erase jid m' = m" using assms(1,4,5) by (auto simp: enters_def om_erase_none om_erase_assign)
  show "same_spans p p''" using assms(1) unfolding enters_def
  proof (elim disjE conjE exE)
    assume "m' = m" "p' = p"
    moreover have "jid \<notin> fst ` (set m \<union> B)" using assms(5,6) by (auto simp: om_find_None_iff)
    ultimately have "p'' = p" using assms(2) by (simp add: drops_def)
    then show ?thesis using q0 by (simp add: same_spans_def)
  next
    fix q q' k
    assume h: "p = Some q" "p' = Some q'" "grows k q q'" "m' = om_assign jid k m"
    have "(jid, k) \<in> set m'" using h(4) assms(4) by (simp add: set_om_assign)
    then obtain q'' where q'': "p'' = Some q''" "gives_back k q' q''" using assms(2) h(2) by (auto simp: drops_def)
    have "om_ok (m_span_lookup q)" using q0 h(1) planner_invD(5) by auto
    then have "om_erase k (m_span_lookup q') = m_span_lookup q" using h(3) by (auto simp: grows_def om_erase_assign)
    then show ?thesis using h q'' by (auto simp: same_spans_def gives_back_def grows_def)
  qed
qed

lemma booked_released:
  assumes "vertex_ok s v" and "om_find jid (tags (idata v)) = None" and "booked s jid v v'" and "released s jid v' v''"
  shows "restored v v''"
proof -
  note ok = vertex_okD [OF assms(1)] and un = untagged [OF assms(1,2)]
  obtain a rr p tg xs js x sp cs where v': "v' = v\<lparr>schedule := \<lparr>allocations = a, reservations = rr, plans = p\<rparr>,
          idata := (idata v)\<lparr>tags := tg, x_spans := xs, job2span := js, x_checker := x, subplans := sp, colors := cs\<rparr>\<rparr>"
      "a = allocations (schedule v) \<and> enters jid (reservations (schedule v)) (plans (schedule v)) rr p \<or>
         rr = reservations (schedule v) \<and> enters jid (allocations (schedule v)) (plans (schedule v)) a p"
      "enters jid (x_spans (idata v)) (x_checker (idata v)) xs x" "tg = tags (idata v) \<or> tg = om_assign jid jid (tags (idata v))"
      "js = job2span (idata v) \<or> (\<exists>k. js = om_assign jid k (job2span (idata v)))"
    using assms(3) unfolding booked_def by blast
  obtain p'' x'' where v'': "allocations (schedule v'') = om_erase jid a" "reservations (schedule v'') = om_erase jid rr"
      "tags (idata v'') = om_erase jid tg" "x_spans (idata v'') = om_erase jid xs" "job2span (idata v'') = om_erase jid js"
      "plans (schedule v'') = p''" "x_checker (idata v'') = x''" "drops jid (set a \<union> set rr) p p''" "drops jid (set xs) x x''"
    using assms(4) unfolding released_def v'(1) by auto
  have x: "om_erase jid xs = x_spans (idata v)" "same_spans (x_checker (idata v)) x''"
    using enters_drops [OF v'(3) _ ok(8,2) un(3), of "{}" x''] v''(9) by simp_all
  have "om_erase jid a = allocations (schedule v) \<and> om_erase jid rr = reservations (schedule v) \<and> same_spans (plans (schedule v)) p''"
    using v'(2)
  proof (elim disjE conjE)
    assume h: "a = allocations (schedule v)" "enters jid (reservations (schedule v)) (plans (schedule v)) rr p"
    have "jid \<notin> fst ` set a" using un(1) h(1) by (simp add: om_find_None_iff)
    then show ?thesis using enters_drops [OF h(2) _ ok(7,5) un(2), of "set a" p''] v''(8) un(1) h(1) by (simp add: Un_commute om_erase_none)
  next
    assume h: "rr = reservations (schedule v)" "enters jid (allocations (schedule v)) (plans (schedule v)) a p"
    have "jid \<notin> fst ` set rr" using un(2) h(1) by (simp add: om_find_None_iff)
    then show ?thesis using enters_drops [OF h(2) _ ok(7,4) un(1), of "set rr" p''] v''(8) un(2) h(1) by (simp add: om_erase_none)
  qed
  moreover have "om_erase jid tg = tags (idata v)" using v'(4) assms(2) ok(1) by (auto simp: om_erase_none om_erase_assign)
  moreover have "om_erase jid js = job2span (idata v)" using v'(5) un(4) ok(3) by (auto simp: om_erase_none om_erase_assign)
  ultimately show ?thesis using x v'' by (simp add: restored_def)
qed

lemma book_and_remove:
  assumes "books_ok t" and "bookable meta t" and "rv < length (g_vtxs (graph t))" and "visited (dom_of t) (reset_color t) = {}"
    and "update rv meta t w = Some (r, t1, w1)" and "job_connected (jobid meta) rv t1" and "visited (dom_of t) (reset_color t1) = {}"
  shows "\<exists>t2. remove rv (jobid meta) t1 = Some (0, t2) \<and> (\<forall>u<length (g_vtxs (graph t)). restored (vtx t u) (vtx t2 u))"
proof -
  let ?s = "dom_of t" and ?N = "length (g_vtxs (graph t))" and ?j = "jobid meta"
  have 1: "books_ok t1" "m_match t1 = m_match t" "length (g_vtxs (graph t1)) = ?N"
    "\<forall>u<?N. booked ?s ?j (vtx t u) (vtx t1 u)"
    using update_books [OF assms(1-4), of w] assms(5) by auto
  obtain t2 where 2: "remove rv ?j t1 = Some (0, t2)" "\<forall>u<?N. released ?s ?j (vtx t1 u) (vtx t2 u)"
    using remove_job [OF 1(1) _ assms(6)] assms(3,7) 1(2,3) by auto
  have "restored (vtx t u) (vtx t2 u)" if u: "u < ?N" for u
    using booked_released [of ?s "vtx t u" ?j "vtx t1 u" "vtx t2 u"] assms(1,2) 1(4) 2(2) u
    by (auto simp: books_ok_def bookable_def has_tag_def)
  then show ?thesis using 2(1) by blast
qed

end
