(* ===== verification/Traverser_Prime_Correct.thy ===== *)
theory Traverser_Prime_Correct
  imports Traverser_Prime Traverser_Fuel Matcher_Correct
begin

text \<open>
  What priming computes. A request is augmented, at every level, with what its subtree asks for in all:
  the products of the minimal counts on the way down, summed. A vertex passes to its parent the sizes of
  the vertices its walk has reached, by type.
\<close>

section \<open>Accumulation\<close>

definition amount :: "string \<Rightarrow> accum \<Rightarrow> int" where
  "amount ty m = om_get 0 ty m"

lemma amount_Nil [simp]: "amount ty [] = 0"
  by (simp add: amount_def om_get_def)

lemma amount_accum_if:
  "amount ty (accum_if util s ty' n m) =
     (if ty = ty' \<and> is_pruning_type s ty' util then (if om_find ty m = None then u32 n else i64 (amount ty m + u32 n)) else amount ty m)"
  by (auto simp: accum_if_def amount_def om_get_def om_find_assign_any split: option.split)

text \<open>The sums stay in range.\<close>

lemma i64_less: "0 \<le> x \<Longrightarrow> x < 2 ^ 63 \<Longrightarrow> i64 x = x"
  by (simp add: i64_def u64_def)

lemma amount_accum_small:
  assumes "is_pruning_type s ty' util" and "0 \<le> n" "n < 2 ^ 32" and "0 \<le> amount ty' m" "amount ty' m + n < 2 ^ 63"
  shows "amount ty (accum_if util s ty' n m) = amount ty m + (if ty = ty' then n else 0)"
proof -
  have "amount ty m = 0" if "om_find ty m = None" using that by (simp add: amount_def om_get_def)
  then show ?thesis using assms by (auto simp: amount_accum_if i64_less u32_small)
qed

lemma sum_list_mult: "(\<Sum>x\<leftarrow>xs. c * f x) = c * (\<Sum>x\<leftarrow>xs. f x)" for c :: int
  by (simp add: sum_list_const_mult)

text \<open>Adding a whole map, each count through \<open>g\<close>.\<close>

lemma amount_fold:
  assumes "is_pruning_type s ty util" and "distinct (map fst ud)"
    and "\<forall>(ty', n)\<in>set ud. ty' = ty \<longrightarrow> 0 \<le> g n \<and> g n < 2 ^ 32 \<and> 0 \<le> amount ty m \<and> amount ty m + g n < 2 ^ 63"
  shows "amount ty (fold (\<lambda>(ty, n). accum_if util s ty (g n)) ud m) = amount ty m + (case om_find ty ud of None \<Rightarrow> 0 | Some n \<Rightarrow> g n)"
  using assms(2,3)
proof (induction ud arbitrary: m)
  case (Cons x ud)
  obtain ty' n where x: "x = (ty', n)" by (cases x)
  let ?m = "accum_if util s ty' (g n) m"
  have d: "distinct (map fst ud)" and fresh: "om_find ty ud = None" if "ty = ty'"
    using Cons.prems(1) x that by (auto simp: om_find_None_iff)
  show ?case
  proof (cases "ty = ty'")
    case True
    have "amount ty ?m = amount ty m + g n"
      using Cons.prems(2) assms(1) True x by (subst amount_accum_small) auto
    moreover have "amount ty (fold (\<lambda>(ty, n). accum_if util s ty (g n)) ud ?m) = amount ty ?m + 0"
      using Cons.IH [of ?m] Cons.prems(1) fresh [OF True] x True by (force simp: om_find_None_iff)
    ultimately show ?thesis using True x by (simp add: om_find_def)
  next
    case False
    then have "amount ty ?m = amount ty m" by (simp add: amount_accum_if)
    then show ?thesis using Cons.IH [of ?m] Cons.prems False x by (auto simp: om_find_def)
  qed
qed (simp add: om_find_def)

section \<open>Requests\<close>

text \<open>What a request asks for of a type, below each of its levels.\<close>

fun demand :: "string \<Rightarrow> resource list \<Rightarrow> int" where
  "demand ty [] = 0"
| "demand ty (Resource ty' c un lb i ex w ud # rs) =
     count_min c * ((if ty' = ty then 1 else 0) + demand ty w) + demand ty rs"

fun fresh_request :: "resource list \<Rightarrow> bool" where
  "fresh_request [] = True"
| "fresh_request (Resource ty c un lb i ex w ud # rs) \<longleftrightarrow> 1 \<le> count_min c \<and> ud = [] \<and> fresh_request w \<and> fresh_request rs"

text \<open>Every level carries its demand of the tracked types, and nothing else.\<close>

fun augmented :: "(string \<Rightarrow> bool) \<Rightarrow> resource list \<Rightarrow> resource list \<Rightarrow> bool" where
  "augmented tracked [] [] = True"
| "augmented tracked (Resource ty c un lb i ex w ud # rs) (Resource ty' c' un' lb' i' ex' w' ud' # rs') \<longleftrightarrow>
     ty' = ty \<and> c' = c \<and> un' = un \<and> lb' = lb \<and> i' = i \<and> ex' = ex \<and> augmented tracked w w' \<and> augmented tracked rs rs' \<and>
     (\<forall>p. amount p ud' = (if tracked p then demand p w else 0))"
| "augmented tracked _ _ = False"

lemma demand_nonneg: "fresh_request rs \<Longrightarrow> 0 \<le> demand ty rs"
  by (induction ty rs rule: demand.induct) auto

lemma is_pruning_type_exclusive [simp]: "is_pruning_type s ty (snd (add_exclusive_resource_type ty' util)) = is_pruning_type s ty util"
  by (simp add: is_pruning_type_def add_exclusive_resource_type_def)

lemma om_ok_accum_if: "om_ok m \<Longrightarrow> om_ok (accum_if util s ty n m)"
  by (simp add: accum_if_def)

lemma om_ok_accum_fold: "om_ok m \<Longrightarrow> om_ok (fold (\<lambda>(ty, n). accum_if util s ty (g n)) ud m)"
  by (induction ud arbitrary: m) (auto simp: om_ok_accum_if)

lemma prime_jobspec_keeps:
  "prime_jobspec s rs m util = (rs', m', util') \<Longrightarrow> om_ok m \<Longrightarrow> fresh_request rs \<Longrightarrow>
     om_ok m' \<and> (\<forall>ty. is_pruning_type s ty util' = is_pruning_type s ty util)"
  by (induction s rs m util arbitrary: rs' m' util' rule: prime_jobspec.induct)
    (auto simp: Let_def om_ok_accum_if om_ok_accum_fold split: prod.split_asm if_split_asm)

lemma amount_untracked:
  assumes "\<not> is_pruning_type s ty util"
  shows "amount ty (fold (\<lambda>(ty, n). accum_if util s ty (g n)) ud m) = amount ty m"
  using assms by (induction ud arbitrary: m) (auto simp: amount_accum_if)

lemma amount_bound: "om_find ty m = Some n \<Longrightarrow> n = amount ty m"
  by (simp add: amount_def om_get_def)

text \<open>One level: the count of the request itself, and the demand of its children times the count.\<close>

lemma prime_level:
  assumes "is_pruning_type s ty util" and "om_ok ud" and "amount ty ud = k" and "1 \<le> cm" and "0 \<le> k"
    and "0 \<le> amount ty m" and "cm * ((if ty' = ty then 1 else 0) + k) < 2 ^ 32" and "amount ty m + cm * ((if ty' = ty then 1 else 0) + k) < 2 ^ 63"
  shows "amount ty (fold (\<lambda>(ty, n). accum_if util s ty (i64 (cm * n))) ud (accum_if util s ty' cm m))
    = amount ty m + cm * ((if ty' = ty then 1 else 0) + k)"
proof -
  let ?m = "accum_if util s ty' cm m"
  have ck: "0 \<le> cm * k" "cm * ((if ty' = ty then 1 else 0) + k) = (if ty' = ty then cm else 0) + cm * k"
    using assms(4,5) by (simp_all add: distrib_left)
  have b: "(if ty' = ty then cm else 0) + cm * k < 2 ^ 32" "amount ty m + ((if ty' = ty then cm else 0) + cm * k) < 2 ^ 63"
    using assms(7,8) unfolding ck(2) by simp_all
  have 1: "amount ty ?m = amount ty m + (if ty' = ty then cm else 0)"
  proof (cases "ty' = ty")
    case True
    have "cm + cm * k < 2 ^ 32" "amount ty m + (cm + cm * k) < 2 ^ 63" using b True by simp_all
    then have "cm < 2 ^ 32" "amount ty m + cm < 2 ^ 63" using ck(1) by linarith+
    then show ?thesis using True assms(1,4,6) by (subst amount_accum_small) simp_all
  qed (simp add: amount_accum_if)
  have n: "n = k \<and> i64 (cm * n) = cm * k" if "om_find ty ud = Some n" for n
  proof -
    have "cm * k < 2 ^ 63" using b(1) ck(1) assms(4) by (simp split: if_split_asm)
    then show ?thesis using amount_bound [OF that] assms(3) ck(1) i64_less by metis
  qed
  have "amount ty (fold (\<lambda>(ty, n). accum_if util s ty (i64 (cm * n))) ud ?m)
      = amount ty ?m + (case om_find ty ud of None \<Rightarrow> 0 | Some n \<Rightarrow> i64 (cm * n))"
  proof (rule amount_fold [OF assms(1) om_ok_distinct [OF assms(2)]])
    show "\<forall>(ty', n)\<in>set ud. ty' = ty \<longrightarrow> 0 \<le> i64 (cm * n) \<and> i64 (cm * n) < 2 ^ 32 \<and> 0 \<le> amount ty ?m \<and> amount ty ?m + i64 (cm * n) < 2 ^ 63"
    proof clarify
      fix n
      assume "(ty, n) \<in> set ud"
      then have e: "i64 (cm * n) = cm * k" using n om_find_Some_iff [OF assms(2)] by metis
      have "cm * k < 2 ^ 32" "0 \<le> amount ty ?m" "amount ty ?m + cm * k < 2 ^ 63" using 1 b ck(1) assms(4,6) by (auto split: if_split_asm)
      then show "0 \<le> i64 (cm * n) \<and> i64 (cm * n) < 2 ^ 32 \<and> 0 \<le> amount ty ?m \<and> amount ty ?m + i64 (cm * n) < 2 ^ 63"
        using ck(1) unfolding e by blast
    qed
  qed
  also have "(case om_find ty ud of None \<Rightarrow> 0 | Some n \<Rightarrow> i64 (cm * n)) = cm * k"
    using n assms(3) by (auto simp: amount_def om_get_def split: option.split)
  finally show ?thesis using 1 ck(2) by simp
qed

theorem prime_jobspec_demand:
  assumes "prime_jobspec s rs m util = (rs', m', util')" and "fresh_request rs" and "om_ok m"
    and "\<forall>ty. is_pruning_type s ty util \<longrightarrow> 0 \<le> amount ty m \<and> demand ty rs < 2 ^ 32 \<and> amount ty m + demand ty rs < 2 ^ 63"
  shows "(\<forall>ty. amount ty m' = amount ty m + (if is_pruning_type s ty util then demand ty rs else 0)) \<and>
    augmented (\<lambda>ty. is_pruning_type s ty util) rs rs'"
  using assms
proof (induction s rs m util arbitrary: rs' m' util' rule: prime_jobspec.induct)
  case (2 s ty c un lb i ex w ud rs m util)
  define u1 where "u1 = (if ex = TRUE then snd (add_exclusive_resource_type ty util) else util)"
  have t1: "is_pruning_type s p u1 = is_pruning_type s p util" for p by (simp add: u1_def)
  obtain w' ud' u2 where w: "prime_jobspec s w [] u1 = (w', ud', u2)" by (cases "prime_jobspec s w [] u1")
  define m2 where "m2 = fold (\<lambda>(ty, n). accum_if u2 s ty (i64 (count_min c * n))) ud' (accum_if u1 s ty (count_min c) m)"
  obtain r1 m3 u3 where r: "prime_jobspec s rs m2 u2 = (r1, m3, u3)" by (cases "prime_jobspec s rs m2 u2")
  have f: "fresh_request w" "fresh_request rs" "ud = []" "1 \<le> count_min c" using 2(4) by simp_all
  have out: "rs' = Resource ty c un lb i ex w' ud' # r1" "m' = m3"
    using 2(3) w r f(3) unfolding m2_def u1_def by (simp_all add: Let_def)
  have nn: "0 \<le> demand p w" "0 \<le> demand p rs" for p using demand_nonneg f by simp_all
  have le: "demand p w \<le> count_min c * ((if ty = p then 1 else 0) + demand p w)" for p
    using mult_right_mono [OF f(4), of "demand p w"] f(4) nn(1) [of p] by (auto simp: distrib_left)
  have b: "0 \<le> amount p m" "count_min c * ((if ty = p then 1 else 0) + demand p w) + demand p rs < 2 ^ 32"
      "amount p m + (count_min c * ((if ty = p then 1 else 0) + demand p w) + demand p rs) < 2 ^ 63" if "is_pruning_type s p util" for p
    using 2(6) that by simp_all
  have "\<forall>p. is_pruning_type s p u1 \<longrightarrow> 0 \<le> amount p [] \<and> demand p w < 2 ^ 32 \<and> amount p [] + demand p w < 2 ^ 63"
  proof (intro allI impI)
    fix p
    assume "is_pruning_type s p u1"
    then have "demand p w < 2 ^ 32" using b(2) [of p] le [of p] nn(2) [of p] t1 by simp
    then show "0 \<le> amount p [] \<and> demand p w < 2 ^ 32 \<and> amount p [] + demand p w < 2 ^ 63" by simp
  qed
  then have W: "amount p ud' = (if is_pruning_type s p util then demand p w else 0)" "augmented (\<lambda>p. is_pruning_type s p util) w w'" for p
    using 2(1) [OF u1_def refl, of w' ud' u2] w f t1 by (simp_all add: f(3))
  have keeps: "om_ok ud'" "is_pruning_type s p u2 = is_pruning_type s p util" for p
    using prime_jobspec_keeps [OF w] f(1) t1 by simp_all
  have acc: "accum_if u1 s ty (count_min c) m = accum_if u2 s ty (count_min c) m" using keeps(2) t1 by (simp add: accum_if_def)
  have M: "amount p m2 = amount p m + (if is_pruning_type s p util then count_min c * ((if ty = p then 1 else 0) + demand p w) else 0)" for p
  proof (cases "is_pruning_type s p util")
    case True
    then show ?thesis unfolding m2_def acc
      using prime_level [of s p u2 ud' "demand p w" "count_min c" m ty] keeps W(1) f(4) nn [of p] b [OF True] by simp
  qed (auto simp: m2_def acc amount_untracked keeps amount_accum_if)
  have ok: "om_ok m2" unfolding m2_def using 2(5) by (simp add: om_ok_accum_fold om_ok_accum_if)
  have "\<forall>p. is_pruning_type s p u2 \<longrightarrow> 0 \<le> amount p m2 \<and> demand p rs < 2 ^ 32 \<and> amount p m2 + demand p rs < 2 ^ 63"
  proof (intro allI impI)
    fix p
    assume "is_pruning_type s p u2"
    then have p: "is_pruning_type s p util" using keeps(2) by simp
    have "0 \<le> count_min c * ((if ty = p then 1 else 0) + demand p w)" using le [of p] nn(1) [of p] by linarith
    then show "0 \<le> amount p m2 \<and> demand p rs < 2 ^ 32 \<and> amount p m2 + demand p rs < 2 ^ 63"
      using b [OF p] M [of p] p nn(2) [of p] by simp
  qed
  then have "(\<forall>p. amount p m3 = amount p m2 + (if is_pruning_type s p u2 then demand p rs else 0)) \<and> augmented (\<lambda>p. is_pruning_type s p u2) rs r1"
    using 2(2) [OF u1_def refl _ refl m2_def] w r f ok by (simp add: f(3))
  then show ?case using M W out keeps(2) by (auto simp: fun_eq_iff)
qed simp

section \<open>The graph\<close>

text \<open>What priming keeps of the graph: types and sizes, edges, indices; pruning types and colors are
  only added.\<close>

definition primes :: "trav \<Rightarrow> trav \<Rightarrow> bool" where
  "primes t t' \<longleftrightarrow>
     map (\<lambda>v. (vtype v, vsize v)) (g_vtxs (graph t')) = map (\<lambda>v. (vtype v, vsize v)) (g_vtxs (graph t)) \<and>
     g_edgs (graph t') = g_edgs (graph t) \<and> metadata (m_graph_db t') = metadata (m_graph_db t) \<and> m_color t' = m_color t \<and>
     (\<forall>s p. is_pruning_type s p (util_of (m_match t)) \<longrightarrow> is_pruning_type s p (util_of (m_match t'))) \<and>
     (\<forall>s. visited s t \<subseteq> visited s t')"

definition weight :: "string \<Rightarrow> trav \<Rightarrow> nat set \<Rightarrow> int" where
  "weight p t V = (\<Sum>v\<in>V. if vtype (vtx t v) = p then vsize (vtx t v) else 0)"

lemma primes_trans: "primes t t' \<Longrightarrow> primes t' t'' \<Longrightarrow> primes t t''"
  unfolding primes_def by (intro conjI) (simp_all, blast+)

lemma primes_refl: "primes t t"
  by (simp add: primes_def)

lemma primes_vtx:
  assumes "primes t t'" and "v < length (g_vtxs (graph t))"
  shows "vtype (vtx t' v) = vtype (vtx t v) \<and> vsize (vtx t' v) = vsize (vtx t v)"
proof -
  have e: "map (\<lambda>v. (vtype v, vsize v)) (g_vtxs (graph t')) = map (\<lambda>v. (vtype v, vsize v)) (g_vtxs (graph t))"
    using assms(1) by (simp add: primes_def)
  have "length (g_vtxs (graph t')) = length (g_vtxs (graph t))" using arg_cong [OF e, of length] by simp
  then show ?thesis using arg_cong [OF e, of "\<lambda>xs. xs ! v"] assms(2) by simp
qed

lemma primesD:
  assumes "primes t t'"
  shows "length (g_vtxs (graph t')) = length (g_vtxs (graph t))" and "graph_ok t' = graph_ok t"
    and "V \<subseteq> {..<length (g_vtxs (graph t))} \<Longrightarrow> weight p t' V = weight p t V"
    and "visited s t \<subseteq> visited s t'" and "visited s t' \<subseteq> {..<length (g_vtxs (graph t))}"
    and "is_pruning_type s p (util_of (m_match t)) \<Longrightarrow> is_pruning_type s p (util_of (m_match t'))"
proof -
  show len: "length (g_vtxs (graph t')) = length (g_vtxs (graph t))" using assms unfolding primes_def by (metis length_map)
  from primes_vtx [OF assms] show "V \<subseteq> {..<length (g_vtxs (graph t))} \<Longrightarrow> weight p t' V = weight p t V"
    unfolding weight_def by (intro sum.cong) auto
  show "graph_ok t' = graph_ok t" using assms len by (simp add: graph_ok_def primes_def source_def target_def)
  show "visited s t' \<subseteq> {..<length (g_vtxs (graph t))}" using len by (auto simp: visited_def)
qed (use assms in \<open>auto simp: primes_def\<close>)

lemma primes_color: "c = gray (m_color t) \<or> c = black (m_color t) \<Longrightarrow> primes t (color_vtx u s c t)"
  using visited_color(1) [of c t] by (auto simp: primes_def color_vtx_def upd_vtx_def map_upd_same)

lemma primes_subplan: "primes t (set_subplan u s p t)"
proof -
  have "map (\<lambda>v. (vtype v, vsize v)) (g_vtxs (graph (set_subplan u s p t))) = map (\<lambda>v. (vtype v, vsize v)) (g_vtxs (graph t))"
    by (simp add: set_subplan_def upd_vtx_def map_upd_same)
  then show ?thesis by (auto simp: primes_def set_subplan_def upd_vtx_nth visited_def)
qed

lemma is_pruning_type_set:
  "is_pruning_type s p u \<Longrightarrow> is_pruning_type s p (set_pruning_type s' a q u)" "is_pruning_type s p (set_pruning_type s a p u)"
  by (auto simp: is_pruning_type_def set_pruning_type_def Let_def add_at_def om_get_def has_type_def om_find_assign_any split: option.splits)

lemma util_of_upd [simp]: "util_of (upd_util f m) = f (util_of m)"
  by (cases m) auto

lemma primes_leaf: "prime_leaf s u m t = (m', t') \<Longrightarrow> primes t t'"
  by (auto simp: prime_leaf_def Let_def primes_def is_pruning_type_set visited_def split: if_split_asm)

lemma primes_install: "install_filter s u dfv t = Some (r, t') \<Longrightarrow> primes t t'"
  by (auto simp: install_filter_def Let_def primes_refl elim!: runE split: if_split_asm sum.split_asm intro: primes_subplan)

text \<open>What a part of the walk adds to the amount of a tracked type: the sizes of the vertices it
  colored.\<close>

definition counts :: "string \<Rightarrow> string \<Rightarrow> trav \<Rightarrow> trav \<Rightarrow> accum \<Rightarrow> accum \<Rightarrow> bool" where
  "counts s p t t' m m' \<longleftrightarrow> primes t t' \<and> om_ok m' \<and> amount p m' = amount p m + weight p t (visited s t' - visited s t)"

definition sized :: "trav \<Rightarrow> bool" where
  "sized t \<longleftrightarrow> (\<forall>v<length (g_vtxs (graph t)). 0 \<le> vsize (vtx t v)) \<and> (\<forall>p. weight p t {..<length (g_vtxs (graph t))} < 2 ^ 32)"

lemma weight_bounds:
  assumes "sized t" and "V \<subseteq> {..<length (g_vtxs (graph t))}"
  shows "0 \<le> weight p t V" and "weight p t V < 2 ^ 32"
proof -
  have "0 \<le> (if vtype (vtx t v) = p then vsize (vtx t v) else 0)" if "v < length (g_vtxs (graph t))" for v
    using assms(1) that by (simp add: sized_def)
  then have "0 \<le> weight p t V" "weight p t V \<le> weight p t {..<length (g_vtxs (graph t))}"
    unfolding weight_def using assms(2) by (auto intro!: sum_nonneg sum_mono2)
  then show "0 \<le> weight p t V" and "weight p t V < 2 ^ 32" using assms(1) unfolding sized_def by (auto intro: le_less_trans)
qed

lemma primes_sized: "primes t t' \<Longrightarrow> sized t' = sized t"
  using primes_vtx [of t t'] primesD(1,3) [of t t'] by (auto simp: sized_def)

lemma counts_trans:
  assumes "counts s p t t1 m m1" and "counts s p t1 t2 m1 m2"
  shows "counts s p t t2 m m2"
proof -
  have pr: "primes t t1" "primes t1 t2" "primes t t2" using assms primes_trans by (auto simp: counts_def)
  have sub: "visited s t2 - visited s t1 \<subseteq> {..<length (g_vtxs (graph t))}" using primesD(5) [OF pr(3), of s] by auto
  have "visited s t2 - visited s t = (visited s t1 - visited s t) \<union> (visited s t2 - visited s t1)"
    using primesD(4) [OF pr(1)] primesD(4) [OF pr(2)] by blast
  moreover have "weight p t ((visited s t1 - visited s t) \<union> (visited s t2 - visited s t1))
      = weight p t (visited s t1 - visited s t) + weight p t (visited s t2 - visited s t1)"
    unfolding weight_def by (rule sum.union_disjoint) (auto simp: visited_def)
  ultimately have "weight p t (visited s t2 - visited s t) = weight p t (visited s t1 - visited s t) + weight p t1 (visited s t2 - visited s t1)"
    using primesD(3) [OF pr(1) sub] by simp
  then show ?thesis using assms pr(3) unfolding counts_def by simp
qed

lemma counts_same: "primes t t' \<Longrightarrow> om_ok m \<Longrightarrow> visited s t' = visited s t \<Longrightarrow> counts s p t t' m m"
  by (simp add: counts_def weight_def)

lemma counts_bounds:
  assumes "counts s p t t' [] m" and "sized t"
  shows "0 \<le> amount p m" and "amount p m < 2 ^ 32"
  using assms weight_bounds [OF assms(2), of "visited s t' - visited s t" p] primesD(5) [of t t' s] by (auto simp: counts_def)

text \<open>Coloring a vertex that was white, and counting its size.\<close>

lemma visited_gray:
  assumes "u < length (g_vtxs (graph t))"
  shows "visited s (color_vtx u s (gray (m_color t)) t) = insert u (visited s t)"
    and "visited s (color_vtx u s (black (m_color t)) t) = insert u (visited s t)"
  using assms by (auto simp: visited_def color_vtx_def upd_vtx_nth has_color_def om_find_assign_any split: if_split_asm)

lemma counts_gray:
  assumes "u < length (g_vtxs (graph t))" and "u \<notin> visited s t" and "sized t" and "om_ok m"
    and "is_pruning_type s p (util_of (m_match t))" and "0 \<le> amount p m" and "amount p m < 2 ^ 62"
  shows "counts s p t (color_vtx u s (gray (m_color t)) t) m
    (accum_if (util_of (m_match t)) s (vtype (vtx t u)) (vsize (vtx t u)) m)"
proof -
  have w: "weight q t {u} = (if vtype (vtx t u) = q then vsize (vtx t u) else 0)" for q by (simp add: weight_def)
  have b: "0 \<le> vsize (vtx t u)" "vsize (vtx t u) < 2 ^ 32"
    using weight_bounds [OF assms(3), of "{u}" "vtype (vtx t u)"] assms(1) w by simp_all
  have "amount p (accum_if (util_of (m_match t)) s (vtype (vtx t u)) (vsize (vtx t u)) m) = amount p m + weight p t {u}"
  proof (cases "vtype (vtx t u) = p")
    case True
    have "amount p m + vsize (vtx t u) < 2 ^ 63" using assms(7) b(2) by simp
    then show ?thesis using True assms(5,6) b by (subst amount_accum_small) (auto simp: w)
  qed (simp add: amount_accum_if w)
  moreover have "visited s (color_vtx u s (gray (m_color t)) t) - visited s t = {u}" using visited_gray(1) [OF assms(1)] assms(2) by auto
  ultimately show ?thesis using assms(4) by (simp add: counts_def primes_color om_ok_accum_if)
qed

lemma counts_leaf:
  assumes "prime_leaf s u m t = (m', t')" and "om_ok m" and "is_pruning_type s p (util_of (m_match t))"
  shows "counts s p t t' m m'"
proof -
  have "visited s t' = visited s t" using assms(1) by (auto simp: prime_leaf_def Let_def visited_def split: if_split_asm)
  moreover have "amount p m' = amount p m"
    using assms(1,3) by (auto simp: prime_leaf_def Let_def amount_accum_if split: if_split_asm)
  moreover have "om_ok m'" using assms by (auto simp: prime_leaf_def Let_def om_ok_accum_if split: if_split_asm)
  ultimately show ?thesis using primes_leaf [OF assms(1)] by (simp add: counts_def weight_def)
qed

text \<open>The aggregates of the children, added to those passed to the parent.\<close>

lemma counts_all:
  assumes "counts s p t t' [] dfv" and "sized t" and "om_ok m" and "is_pruning_type s p (util_of (m_match t'))"
    and "0 \<le> amount p m" "amount p m < 2 ^ 62"
  shows "counts s p t t' m (accum_all (util_of (m_match t')) s dfv m)"
proof -
  have pr: "primes t t'" "om_ok dfv" "amount p dfv = weight p t (visited s t' - visited s t)" using assms(1) by (simp_all add: counts_def)
  note b = counts_bounds [OF assms(1,2)]
  have "amount p (fold (\<lambda>(ty, n). accum_if (util_of (m_match t')) s ty n) dfv m) = amount p m + (case om_find p dfv of None \<Rightarrow> 0 | Some n \<Rightarrow> n)"
  proof (rule amount_fold [OF assms(4) om_ok_distinct [OF pr(2)]])
    show "\<forall>(ty', n)\<in>set dfv. ty' = p \<longrightarrow> 0 \<le> n \<and> n < 2 ^ 32 \<and> 0 \<le> amount p m \<and> amount p m + n < 2 ^ 63"
    proof clarify
      fix n
      assume "(p, n) \<in> set dfv"
      then have "n = amount p dfv" using amount_bound om_find_Some_iff [OF pr(2)] by metis
      then show "0 \<le> n \<and> n < 2 ^ 32 \<and> 0 \<le> amount p m \<and> amount p m + n < 2 ^ 63" using b assms(5,6) by simp
    qed
  qed
  then show ?thesis using pr assms(3) om_ok_accum_fold [of m "util_of (m_match t')" s id dfv]
    by (simp add: counts_def accum_all_def) (simp add: amount_def om_get_def)
qed

lemma prime_exp_counts:
  assumes visit: "\<And>u m t k m' t'. visit u m t = Some (Inr k, m', t') \<Longrightarrow> graph_ok t \<Longrightarrow> sized t \<Longrightarrow> u < length (g_vtxs (graph t)) \<Longrightarrow>
      u \<notin> visited s t \<Longrightarrow> om_ok m \<Longrightarrow> is_pruning_type s p (util_of (m_match t)) \<Longrightarrow> 0 \<le> amount p m \<Longrightarrow> amount p m < 2 ^ 61 \<Longrightarrow>
      counts s p t t' m m'"
    and "graph_ok t0" and "sized t0" and "is_pruning_type s p (util_of (m_match t0))" and "set es \<subseteq> {..<length (g_edgs (graph t0))}"
    and "counts s p t0 t [] dfv" and "prime_exp visit s es dfv t = Some (Inr k, dfv', t')"
  shows "counts s p t0 t' [] dfv'"
  using assms(5-7)
proof (induction es arbitrary: dfv t)
  case (Cons e es)
  have pr: "primes t0 t" "om_ok dfv" using Cons.prems(2) by (simp_all add: counts_def)
  have ok: "graph_ok t" "sized t" "is_pruning_type s p (util_of (m_match t))"
    using primesD(2,6) [OF pr(1)] primes_sized [OF pr(1)] assms(2-4) by simp_all
  show ?case
  proof (cases "stop_explore t e s \<or> \<not> in_subsystem t e s")
    case False
    then obtain j d1 t1 where v: "visit (target t e) dfv t = Some (Inr j, d1, t1)" and rest: "prime_exp visit s es d1 t1 = Some (Inr k, dfv', t')"
      using Cons.prems(3) by (auto elim!: runE)
    have "e < length (g_edgs (graph t))" using Cons.prems(1) pr(1) by (auto simp: primes_def)
    then have tgt: "target t e < length (g_vtxs (graph t))" using ok(1) by (simp add: graph_ok_def)
    moreover have "target t e \<notin> visited s t" using False by (simp add: visited_def stop_explore_color)
    ultimately have "counts s p t t1 dfv d1"
      using visit [OF v ok(1,2)] pr(2) ok(3) counts_bounds [OF Cons.prems(2) assms(3)] by simp
    then show ?thesis using Cons.IH [OF _ counts_trans [OF Cons.prems(2)] rest] Cons.prems(1) by simp
  qed (use Cons in simp)
qed simp

theorem prime_counts:
  assumes "prime_pruning_filter n s u m t = Some (Inr k, m', t')" and "graph_ok t" and "sized t"
    and "u < length (g_vtxs (graph t))" and "u \<notin> visited s t" and "om_ok m"
    and "is_pruning_type s p (util_of (m_match t))" and "0 \<le> amount p m" and "amount p m < 2 ^ 61"
  shows "counts s p t t' m m'"
  using assms
proof (induction n arbitrary: u m t k m' t')
  case (Suc n)
  let ?g = "color_vtx u s (gray (m_color t)) t"
  let ?m = "accum_if (util_of (m_match t)) s (vtype (vtx t u)) (vsize (vtx t u)) m"
  have g: "counts s p t ?g m ?m" using Suc.prems by (intro counts_gray) simp_all
  then have pr: "primes t ?g" "om_ok ?m" by (simp_all add: counts_def)
  have same: "vtype (vtx ?g u) = vtype (vtx t u)" "vsize (vtx ?g u) = vsize (vtx t u)" "m_match ?g = m_match t"
    using primes_vtx [OF pr(1) Suc.prems(4)] by (simp_all add: color_vtx_def)
  have ok: "graph_ok ?g" "sized ?g" "is_pruning_type s p (util_of (m_match ?g))"
    using primesD(2,6) [OF pr(1)] primes_sized [OF pr(1)] Suc.prems(2,3,7) by simp_all
  have "weight p t {u} \<le> amount p ?m - amount p m" "0 \<le> weight p t {u}" "weight p t {u} < 2 ^ 32" "amount p ?m = amount p m + weight p t {u}"
    using g visited_gray(1) [OF Suc.prems(4), of s] Suc.prems(5) weight_bounds [OF Suc.prems(3), of "{u}" p] Suc.prems(4)
    by (auto simp: counts_def insert_Diff_if)
  then have b: "0 \<le> amount p ?m" "amount p ?m < 2 ^ 62" using Suc.prems(8,9) by simp_all
  obtain r1 m1 t1 where mid: "(if out_edges (graph ?g) u = [] then Some (Inr 0, prime_leaf s u ?m ?g)
        else do {
          (r, dfv, t) \<leftarrow> prime_exp (prime_pruning_filter n s) s (out_edges (graph ?g) u) [] ?g;
          case r of
            Inl e \<Rightarrow> Some (Inl e, ?m, t)
          | Inr _ \<Rightarrow> do {
              (r, t') \<leftarrow> install_filter s u dfv t;
              Some (r, accum_all (util_of (m_match t)) s dfv ?m, t')
            }
        }) = Some (r1, m1, t1)" and out: "Inr k = r1" "m' = m1" "t' = color_vtx u s (black (m_color t1)) t1"
    using Suc.prems(1) unfolding prime_pruning_filter.simps Let_def same by (elim bindE) (auto split: prod.split_asm)
  have "counts s p ?g t1 ?m m1"
  proof (cases "out_edges (graph ?g) u = []")
    case True
    then show ?thesis using mid counts_leaf [OF _ pr(2) ok(3)] by (cases "prime_leaf s u ?m ?g") simp
  next
    case False
    then obtain j dfv t2 where e: "prime_exp (prime_pruning_filter n s) s (out_edges (graph ?g) u) [] ?g = Some (Inr j, dfv, t2)"
        and i: "install_filter s u dfv t2 = Some (r1, t1)" and m1: "m1 = accum_all (util_of (m_match t2)) s dfv ?m"
      using mid out(1) by (auto elim!: runE)
    have c: "counts s p ?g t2 [] dfv"
      by (rule prime_exp_counts [OF Suc.IH ok _ _ e]) (auto simp: out_edges_def intro: counts_same primes_refl)
    have t2: "is_pruning_type s p (util_of (m_match t2))" using primesD(6) ok(3) c by (auto simp: counts_def)
    have "visited s t1 = visited s t2"
      using i by (auto simp: install_filter_def Let_def set_subplan_def visited_def upd_vtx_nth elim!: runE split: if_split_asm sum.split_asm)
    then show ?thesis using counts_trans [OF counts_all [OF c ok(2) pr(2) t2 b] counts_same [OF primes_install [OF i]]] c
      by (simp add: m1 om_ok_accum_fold [of _ _ _ id, simplified] accum_all_def pr(2))
  qed
  moreover have "counts s p t1 t' m1 m1" if "counts s p ?g t1 ?m m1"
  proof (rule counts_same)
    have "primes t t1" using that pr(1) primes_trans by (auto simp: counts_def)
    then have "u < length (g_vtxs (graph t1))" "u \<in> visited s t1"
      using primesD(1) [of t t1] Suc.prems(4) visited_gray(1) [OF Suc.prems(4), of s] that primesD(4) [of ?g t1 s] by (auto simp: counts_def)
    then show "visited s t' = visited s t1" using visited_gray(2) [of u t1 s] out(3) by auto
    show "primes t1 t'" "om_ok m1" using out(3) primes_color that by (auto simp: counts_def)
  qed
  ultimately show ?case using counts_trans g out(2) by blast
qed simp

end
