(* ===== verification/Traverser_Slots.thy ===== *)
theory Traverser_Slots
  imports Traverser_Walk Policies_Correct
begin

text \<open>
  Slots: \<open>cnt_slot\<close> counts the slots that whole groups can fill, and the packing that follows fills
  exactly that many; it never runs out of groups.
\<close>

section \<open>Iteration over the groups of a type\<close>

text \<open>The groups the iterator has still to pass.\<close>

definition to_pass :: "evals \<Rightarrow> eval_egroup list" where
  "to_pass e = (if m_iter_cur_reset e then m_eval_egroups e
     else case m_iter_cur e of None \<Rightarrow> [] | Some i \<Rightarrow> drop (Suc i) (m_eval_egroups e))"

definition iter_ok :: "evals \<Rightarrow> bool" where
  "iter_ok e \<longleftrightarrow> m_iter_cur_reset e \<or> (\<exists>i. m_iter_cur e = Some i \<and> i \<le> length (m_eval_egroups e))"

definition has_edges :: "evals \<Rightarrow> bool" where
  "has_edges e \<longleftrightarrow> (\<forall>g\<in>set (m_eval_egroups e). edges g \<noteq> [])"

text \<open>Only the iterator of one type moves.\<close>

definition iterated :: "string \<Rightarrow> string \<Rightarrow> scoring \<Rightarrow> scoring \<Rightarrow> bool" where
  "iterated s ty d d' \<longleftrightarrow> score_maps_ok d' \<and> (\<forall>s' r'. (s', r') \<noteq> (s, ty) \<longrightarrow> entry s' r' d' = entry s' r' d) \<and>
     m_eval_egroups (entry s ty d') = m_eval_egroups (entry s ty d) \<and>
     m_qual_count (entry s ty d') = m_qual_count (entry s ty d) \<and> iter_ok (entry s ty d')"

lemma iterated_trans: "iterated s ty d d' \<Longrightarrow> iterated s ty d' d'' \<Longrightarrow> iterated s ty d d''"
  by (simp add: iterated_def)

lemma iteratedD:
  assumes "iterated s ty d d'"
  shows "score_maps_ok d'" and "qual s' r' d' = qual s' r' d" and "has_edges (entry s' r' d') = has_edges (entry s' r' d)"
    and "(s', r') \<noteq> (s, ty) \<Longrightarrow> entry s' r' d' = entry s' r' d" and "iter_ok (entry s ty d')"
  using assms by (cases "(s', r') = (s, ty)"; simp add: iterated_def qual_def has_edges_def)+

lemma evals_next:
  assumes "iter_ok e"
  shows "\<exists>i. evals_iter_next e = Some (i, e\<lparr>m_iter_cur := Some i, m_iter_cur_reset := False\<rparr>)
           \<and> i \<le> length (m_eval_egroups e) \<and> drop i (m_eval_egroups e) = to_pass e"
proof (cases "m_iter_cur_reset e")
  case False
  then obtain i where i: "m_iter_cur e = Some i" "i \<le> length (m_eval_egroups e)" using assms by (auto simp: iter_ok_def)
  then show ?thesis using False by (auto simp: evals_iter_next_def to_pass_def Let_def)
qed (simp add: evals_iter_next_def to_pass_def)

lemma next_group:
  assumes "score_maps_ok d" and "iter_ok (entry s ty d)"
  obtains i d1 d2 n where "eval_egroups_iter_next s ty d = Some (i, d1)" and "eval_egroups_end s ty d1 = (n, d2)"
    and "iterated s ty d d2" and "i = n \<longleftrightarrow> to_pass (entry s ty d) = []"
    and "to_pass (entry s ty d) = g # gs \<Longrightarrow> m_eval_egroups (entry s ty d2) ! i = g \<and> to_pass (entry s ty d2) = gs"
    and "to_pass (entry s ty d) = [] \<Longrightarrow> to_pass (entry s ty d2) = []"
proof -
  let ?e = "entry s ty d"
  obtain i where i: "evals_iter_next ?e = Some (i, ?e\<lparr>m_iter_cur := Some i, m_iter_cur_reset := False\<rparr>)"
    "i \<le> length (m_eval_egroups ?e)" "drop i (m_eval_egroups ?e) = to_pass ?e"
    using evals_next [OF assms(2)] by blast
  let ?e' = "?e\<lparr>m_iter_cur := Some i, m_iter_cur_reset := False\<rparr>"
  let ?d1 = "set_entry s ty ?e' d"
  have m1: "score_maps_ok ?d1" and e1: "entry s' r' ?d1 = (if s' = s \<and> r' = ty then ?e' else entry s' r' d)" for s' r'
    using assms(1) by (simp_all add: score_maps_ok_set entry_set)
  have mv: "iterated s ty d (touch s ty ?d1)"
    using m1 i(2) by (auto simp: iterated_def score_maps_ok_touch entry_touch e1 iter_ok_def)
  have e2: "entry s ty (touch s ty ?d1) = ?e'" using m1 by (simp add: entry_touch e1)
  show thesis
  proof (rule that)
    show "eval_egroups_iter_next s ty d = Some (i, ?d1)" using i(1) by (simp add: eval_egroups_iter_next_def)
    show "eval_egroups_end s ty ?d1 = (length (m_eval_egroups ?e), touch s ty ?d1)" by (simp add: eval_egroups_end_def e1)
    show "i = length (m_eval_egroups ?e) \<longleftrightarrow> to_pass ?e = []" using i(2,3) by (metis drop_eq_Nil le_antisym order_refl)
    show "m_eval_egroups (entry s ty (touch s ty ?d1)) ! i = g \<and> to_pass (entry s ty (touch s ty ?d1)) = gs"
      if "to_pass ?e = g # gs"
      using that i(2,3) by (simp add: e2 to_pass_def [of ?e'] drop_Suc nth_via_drop) (metis drop_Suc list.sel(3) tl_drop)
    show "to_pass (entry s ty (touch s ty ?d1)) = []" if "to_pass ?e = []"
      using that i(2,3) by (simp add: e2 to_pass_def [of ?e'])
  qed (rule mv)
qed

section \<open>Bundles\<close>

definition granule :: "eval_egroup \<Rightarrow> int" where
  "granule g = edg_count (hd (edges g))"

text \<open>How many times the groups, taken whole and in order, reach \<open>p\<close>; and what is left after the
  first time.\<close>

fun bundles :: "int \<Rightarrow> int \<Rightarrow> int list \<Rightarrow> nat" where
  "bundles p a [] = 0"
| "bundles p a (n # ns) = (if p \<le> u32 (a + n) then Suc (bundles p 0 ns) else bundles p (u32 (a + n)) ns)"

fun after_bundle :: "int \<Rightarrow> int \<Rightarrow> int list \<Rightarrow> int list option" where
  "after_bundle p a [] = None"
| "after_bundle p a (n # ns) = (if p \<le> u32 (a + n) then Some ns else after_bundle p (u32 (a + n)) ns)"

lemma bundles_after: "bundles p a ns = (case after_bundle p a ns of None \<Rightarrow> 0 | Some ns' \<Rightarrow> Suc (bundles p 0 ns'))"
  by (induction ns arbitrary: a) auto

lemma bundles_le: "bundles p a ns \<le> length ns"
  by (induction ns arbitrary: a) (auto intro: le_SucI)

lemma tally_groups_run:
  assumes "score_maps_ok d" and "iter_ok (entry s ty d)" and "has_edges (entry s ty d)"
    and "0 < per_share y" and "0 \<le> shares y" and "shares y + int (length (to_pass (entry s ty d))) < 2 ^ 32"
  shows "\<exists>y' d'. tally_groups s ty y d = Some (y', d') \<and> iterated s ty d d' \<and>
           shares y' = shares y + int (bundles (per_share y) (accum y) (map granule (to_pass (entry s ty d))))"
  using assms
proof (induction "to_pass (entry s ty d)" arbitrary: d y)
  case Nil
  obtain i d1 d2 n where *: "eval_egroups_iter_next s ty d = Some (i, d1)" "eval_egroups_end s ty d1 = (n, d2)"
    "iterated s ty d d2" "i = n \<longleftrightarrow> to_pass (entry s ty d) = []"
    using next_group [OF Nil.prems(1,2)] by metis
  then show ?case using Nil.hyps by (subst tally_groups.simps) simp
next
  case (Cons g gs)
  obtain i d1 d2 n where *: "eval_egroups_iter_next s ty d = Some (i, d1)" "eval_egroups_end s ty d1 = (n, d2)"
    "iterated s ty d d2" "i = n \<longleftrightarrow> to_pass (entry s ty d) = []"
    "m_eval_egroups (entry s ty d2) ! i = g" "to_pass (entry s ty d2) = gs"
    using next_group [OF Cons.prems(1,2), of g gs] Cons.hyps(2) by metis
  have "g \<in> set (m_eval_egroups (entry s ty d))"
    using Cons.hyps(2) in_set_dropD [of g] by (auto simp: to_pass_def split: if_splits option.splits) (metis list.set_intros(1))+
  then have e: "first_edge g = Some (hd (edges g))" using Cons.prems(3) by (auto simp: has_edges_def first_edge_def split: list.split)
  let ?y = "tally_add (granule g) y"
  have y: "per_share ?y = per_share y" "0 \<le> shares ?y" "shares ?y + int (length gs) < 2 ^ 32"
    "shares ?y + int (bundles (per_share ?y) (accum ?y) (map granule gs))
       = shares y + int (bundles (per_share y) (accum y) (map granule (g # gs)))"
    using Cons.prems(4-6) Cons.hyps(2) [symmetric] by (auto simp: tally_add_def Let_def)
  have "\<exists>y' d'. tally_groups s ty ?y d2 = Some (y', d') \<and> iterated s ty d2 d' \<and>
      shares y' = shares ?y + int (bundles (per_share ?y) (accum ?y) (map granule (to_pass (entry s ty d2))))"
    using Cons.hyps(1) [of d2 ?y] *(6) iteratedD [OF *(3)] Cons.prems(3,4) y by simp
  then obtain y' d' where "tally_groups s ty ?y d2 = Some (y', d')" "iterated s ty d2 d'"
    "shares y' = shares ?y + int (bundles (per_share ?y) (accum ?y) (map granule gs))"
    using *(6) by auto
  moreover have "tally_groups s ty y d = tally_groups s ty ?y d2"
    by (subst tally_groups.simps) (use * e Cons.hyps(2) [symmetric] in \<open>simp add: granule_def\<close>)
  ultimately show ?case using y(4) Cons.hyps(2) [symmetric] iterated_trans [OF *(3)] by auto
qed

section \<open>Packing\<close>

text \<open>Edges that use whole groups.\<close>

definition uses :: "eval_edg list \<Rightarrow> eval_egroup list \<Rightarrow> bool" where
  "uses es gs \<longleftrightarrow> map edge es = map (edge \<circ> hd \<circ> edges) gs \<and> map edg_count es = map granule gs"

lemma uses_simps [simp]: "uses [] []" "uses (e # es) (g # gs) \<longleftrightarrow> edge e = edge (hd (edges g)) \<and> edg_count e = granule g \<and> uses es gs"
  by (auto simp: uses_def)

lemma uses_append: "uses es gs \<Longrightarrow> uses es' gs' \<Longrightarrow> uses (es @ es') (gs @ gs')"
  by (simp add: uses_def)

lemma to_pass_subset: "set (to_pass e) \<subseteq> set (m_eval_egroups e)"
  by (auto simp: to_pass_def dest: in_set_dropD split: option.splits)

lemma pack_elem_run:
  assumes "score_maps_ok d" and "iter_ok (entry s ty d)" and "has_edges (entry s ty d)"
    and "\<forall>g\<in>set (to_pass (entry s ty d)). 0 \<le> granule g" and "0 \<le> j" and "j < cnt"
    and "bundles cnt j (map granule (to_pass (entry s ty d))) = Suc b"
  shows "\<exists>grp' d' m es. pack_elem s ty cnt j grp d = Some (Inr (grp', d')) \<and> iterated s ty d d' \<and>
           to_pass (entry s ty d') = drop m (to_pass (entry s ty d)) \<and> edges grp' = edges grp @ es \<and>
           uses es (take m (to_pass (entry s ty d))) \<and> cnt \<le> j + sum_list (map edg_count es) \<and>
           bundles cnt 0 (map granule (to_pass (entry s ty d'))) = b"
  using assms
proof (induction "to_pass (entry s ty d)" arbitrary: d j grp)
  case Nil
  then show ?case by (metis bundles.simps(1) list.simps(8) nat.distinct(1))
next
  case (Cons g gs)
  obtain i d1 d2 n where *: "eval_egroups_iter_next s ty d = Some (i, d1)" "eval_egroups_end s ty d1 = (n, d2)"
    "iterated s ty d d2" "i = n \<longleftrightarrow> to_pass (entry s ty d) = []"
    "m_eval_egroups (entry s ty d2) ! i = g" "to_pass (entry s ty d2) = gs"
    using next_group [OF Cons.prems(1,2), of g gs] Cons.hyps(2) by metis
  have g: "g \<in> set (m_eval_egroups (entry s ty d))" "0 \<le> granule g"
    using Cons.hyps(2) to_pass_subset [of "entry s ty d"] Cons.prems(4) by (auto simp flip: Cons.hyps(2))
  then have e: "first_edge g = Some (hd (edges g))" using Cons.prems(3) by (auto simp: has_edges_def first_edge_def split: list.split)
  let ?j = "u32 (j + granule g)" and ?e = "\<lparr>edg_count = granule g, edg_needs = granule g, edg_exclusive = 1, edge = edge (hd (edges g))\<rparr>"
  let ?grp = "grp\<lparr>score := i64 (score grp + score g), edges := edges grp @ [?e]\<rparr>"
  have run: "pack_elem s ty cnt j grp d = pack_elem s ty cnt ?j ?grp d2"
    by (subst pack_elem.simps) (use * e Cons.hyps(2) [symmetric] Cons.prems(6) in \<open>simp add: granule_def\<close>)
  have le: "?j \<le> j + granule g" using u32_le [of "j + granule g"] Cons.prems(5) g(2) by simp
  show ?case
  proof (cases "cnt \<le> ?j")
    case True
    have "pack_elem s ty cnt ?j ?grp d2 = Some (Inr (?grp, d2))" by (subst pack_elem.simps) (use True in simp)
    moreover have "bundles cnt 0 (map granule gs) = b" using Cons.prems(7) True by (simp flip: Cons.hyps(2))
    ultimately have "pack_elem s ty cnt j grp d = Some (Inr (?grp, d2)) \<and> iterated s ty d d2 \<and>
           to_pass (entry s ty d2) = drop 1 (to_pass (entry s ty d)) \<and> edges ?grp = edges grp @ [?e] \<and>
           uses [?e] (take 1 (to_pass (entry s ty d))) \<and> cnt \<le> j + sum_list (map edg_count [?e]) \<and>
           bundles cnt 0 (map granule (to_pass (entry s ty d2))) = b"
      using run *(3,6) le True by (simp flip: Cons.hyps(2))
    then show ?thesis by blast
  next
    case False
    have b: "bundles cnt ?j (map granule gs) = Suc b" using Cons.prems(7) False by (simp flip: Cons.hyps(2))
    have "\<exists>grp' d' m es. pack_elem s ty cnt ?j ?grp d2 = Some (Inr (grp', d')) \<and> iterated s ty d2 d' \<and>
           to_pass (entry s ty d') = drop m (to_pass (entry s ty d2)) \<and> edges grp' = edges ?grp @ es \<and>
           uses es (take m (to_pass (entry s ty d2))) \<and> cnt \<le> ?j + sum_list (map edg_count es) \<and>
           bundles cnt 0 (map granule (to_pass (entry s ty d'))) = b"
      by (rule Cons.hyps(1))
        (use *(6) iteratedD [OF *(3)] Cons.prems(3,4) False b in \<open>simp_all flip: Cons.hyps(2)\<close>)
    then obtain grp' d' m es where r: "pack_elem s ty cnt ?j ?grp d2 = Some (Inr (grp', d'))" "iterated s ty d2 d'"
      "to_pass (entry s ty d') = drop m gs" "edges grp' = edges ?grp @ es" "uses es (take m gs)"
      "cnt \<le> ?j + sum_list (map edg_count es)" "bundles cnt 0 (map granule (to_pass (entry s ty d'))) = b"
      using *(6) by auto
    have "pack_elem s ty cnt j grp d = Some (Inr (grp', d')) \<and> iterated s ty d d' \<and>
           to_pass (entry s ty d') = drop (Suc m) (to_pass (entry s ty d)) \<and> edges grp' = edges grp @ ?e # es \<and>
           uses (?e # es) (take (Suc m) (to_pass (entry s ty d))) \<and> cnt \<le> j + sum_list (map edg_count (?e # es)) \<and>
           bundles cnt 0 (map granule (to_pass (entry s ty d'))) = b"
      using r run iterated_trans [OF *(3) r(2)] le by (simp flip: Cons.hyps(2))
    then show ?thesis by blast
  qed
qed

section \<open>Slots\<close>

text \<open>What one slot needs of a request, and how many slots its groups still fill.\<close>

definition per_slot :: "string \<Rightarrow> scoring \<Rightarrow> resource \<Rightarrow> int option" where
  "per_slot s d r = calc_count (request_count r) (qual s (res_type r) d)"

definition fitting :: "string \<Rightarrow> scoring \<Rightarrow> resource \<Rightarrow> nat" where
  "fitting s d r = bundles (the (per_slot s d r)) 0 (map granule (to_pass (entry s (res_type r) d)))"

definition slot_ready :: "string \<Rightarrow> scoring \<Rightarrow> resource \<Rightarrow> bool" where
  "slot_ready s d r \<longleftrightarrow>
     (let e = entry s (res_type r) d
      in iter_ok e \<and> has_edges e \<and> (\<forall>g\<in>set (m_eval_egroups e). 0 \<le> granule g) \<and> (\<exists>n. per_slot s d r = Some n \<and> 0 < n))"

text \<open>The part of a slot that meets one request: whole groups, the next ones in order, that hold at
  least what is needed.\<close>

definition fills :: "string \<Rightarrow> scoring \<Rightarrow> scoring \<Rightarrow> resource \<Rightarrow> eval_edg list \<Rightarrow> bool" where
  "fills s d d' r es \<longleftrightarrow>
     (\<exists>m. to_pass (entry s (res_type r) d') = drop m (to_pass (entry s (res_type r) d)) \<and>
          uses es (take m (to_pass (entry s (res_type r) d)))) \<and> the (per_slot s d r) \<le> sum_list (map edg_count es)"

lemma iterated_ready:
  assumes "iterated s ty d d'" and "slot_ready s d r"
  shows "slot_ready s d' r" and "per_slot s d' r = per_slot s d r"
proof -
  show p: "per_slot s d' r = per_slot s d r" using iteratedD(2) [OF assms(1)] by (simp add: per_slot_def)
  show "slot_ready s d' r"
  proof (cases "res_type r = ty")
    case True
    then show ?thesis using assms p iteratedD(3,5) [OF assms(1)] by (auto simp: slot_ready_def Let_def iterated_def)
  next
    case False
    then show ?thesis using assms(2) p iteratedD(4) [OF assms(1), of s "res_type r"] by (simp add: slot_ready_def)
  qed
qed

lemma iterated_fits:
  assumes "iterated s ty d d'" and "res_type r \<noteq> ty"
  shows "fitting s d' r = fitting s d r" and "fills s d' d'' r es = fills s d d'' r es" and "fills s d'' d' r es = fills s d'' d r es"
  using assms iteratedD(2,4) [OF assms(1), of s "res_type r"] by (simp_all add: fitting_def per_slot_def fills_def)

text \<open>A step of \<open>pack_slot\<close>.\<close>

lemma pack_request:
  assumes "score_maps_ok d" and "slot_ready s d r" and "fitting s d r = Suc b"
  obtains grp' d' es where "pack_slot s (r # rs) grp d = pack_slot s rs grp' d'" and "iterated s (res_type r) d d'"
    and "edges grp' = edges grp @ es" and "fills s d d' r es" and "fitting s d' r = b"
proof -
  let ?t = "res_type r" and ?d = "touch s (res_type r) d"
  obtain n where n: "per_slot s d r = Some n" "0 < n" "iter_ok (entry s ?t d)" "has_edges (entry s ?t d)"
    "\<forall>g\<in>set (m_eval_egroups (entry s ?t d)). 0 \<le> granule g"
    using assms(2) by (auto simp: slot_ready_def Let_def)
  have e: "entry s' r' ?d = entry s' r' d" "score_maps_ok ?d" for s' r' using assms(1) by (simp_all add: entry_touch score_maps_ok_touch)
  then have mv: "iterated s ?t d ?d" using n(3) by (simp add: iterated_def)
  have b: "bundles n 0 (map granule (to_pass (entry s ?t d))) = Suc b" using assms(3) n(1) by (simp add: fitting_def)
  obtain grp' d' m es where p: "pack_elem s ?t n 0 grp ?d = Some (Inr (grp', d'))" "iterated s ?t ?d d'"
    "to_pass (entry s ?t d') = drop m (to_pass (entry s ?t d))" "edges grp' = edges grp @ es"
    "uses es (take m (to_pass (entry s ?t d)))" "n \<le> sum_list (map edg_count es)"
    "bundles n 0 (map granule (to_pass (entry s ?t d'))) = b"
  proof -
    have "\<forall>g\<in>set (to_pass (entry s ?t d)). 0 \<le> granule g" using n(5) to_pass_subset [of "entry s ?t d"] by blast
    then show thesis using pack_elem_run [of ?d s ?t 0 n b grp] e n(2-4) b that by (simp add: e(1)) metis
  qed
  show thesis
  proof (rule that)
    show "pack_slot s (r # rs) grp d = pack_slot s rs grp' d'"
      using n(1) p(1) by (simp add: qualified_count_def per_slot_def qual_def)
    show mv': "iterated s ?t d d'" using mv p(2) by (rule iterated_trans)
    show "fills s d d' r es" using p(3,5,6) n(1) by (auto simp: fills_def)
    show "fitting s d' r = b" using p(7) n(1) iteratedD(2) [OF mv'] by (simp add: fitting_def per_slot_def)
  qed (rule p(4))
qed

lemma pack_slot_run:
  assumes "score_maps_ok d" and "\<forall>r\<in>set rs. slot_ready s d r \<and> 0 < fitting s d r" and "distinct (map res_type rs)"
  shows "\<exists>grp' d' ess. pack_slot s rs grp d = Some (Inr (grp', d')) \<and> score_maps_ok d' \<and>
           (\<forall>s' t. s' \<noteq> s \<or> t \<notin> res_type ` set rs \<longrightarrow> entry s' t d' = entry s' t d) \<and>
           (\<forall>r\<in>set rs. slot_ready s d' r \<and> per_slot s d' r = per_slot s d r \<and> Suc (fitting s d' r) = fitting s d r \<and>
              m_eval_egroups (entry s (res_type r) d') = m_eval_egroups (entry s (res_type r) d)) \<and>
           edges grp' = edges grp @ concat ess \<and> list_all2 (fills s d d') rs ess"
  using assms
proof (induction rs arbitrary: d grp)
  case Nil
  then show ?case by auto
next
  case (Cons r rs)
  have ready: "slot_ready s d r" using Cons.prems(2) by simp
  obtain b where b: "fitting s d r = Suc b" using Cons.prems(2) by (cases "fitting s d r") auto
  obtain grp1 d1 es where 1: "pack_slot s (r # rs) grp d = pack_slot s rs grp1 d1" "iterated s (res_type r) d d1"
    "edges grp1 = edges grp @ es" "fills s d d1 r es" "fitting s d1 r = b"
    using pack_request [OF Cons.prems(1) ready b] by metis
  have other: "res_type x \<noteq> res_type r" if "x \<in> set rs" for x using Cons.prems(3) that by (metis distinct.simps(2) imageI list.simps(9) set_map)
  have rest: "slot_ready s d1 x \<and> per_slot s d1 x = per_slot s d x \<and> fitting s d1 x = fitting s d x
      \<and> entry s (res_type x) d1 = entry s (res_type x) d" if "x \<in> set rs" for x
    using iterated_ready [OF 1(2)] iterated_fits(1) [OF 1(2) other [OF that]] iteratedD(4) [OF 1(2), of s "res_type x"] other [OF that]
      Cons.prems(2) that by simp
  obtain grp' d' ess where 2: "pack_slot s rs grp1 d1 = Some (Inr (grp', d'))" "score_maps_ok d'"
    "\<forall>s' t. s' \<noteq> s \<or> t \<notin> res_type ` set rs \<longrightarrow> entry s' t d' = entry s' t d1"
    "\<forall>r\<in>set rs. slot_ready s d' r \<and> per_slot s d' r = per_slot s d1 r \<and> Suc (fitting s d' r) = fitting s d1 r \<and>
       m_eval_egroups (entry s (res_type r) d') = m_eval_egroups (entry s (res_type r) d1)"
    "edges grp' = edges grp1 @ concat ess" "list_all2 (fills s d1 d') rs ess"
    using Cons.IH [OF iteratedD(1) [OF 1(2)], of grp1] rest Cons.prems(2,3) by auto
  have own: "entry s (res_type r) d' = entry s (res_type r) d1" using 2(3) other by (metis imageE)
  then have r': "slot_ready s d' r" "per_slot s d' r = per_slot s d r" "fitting s d' r = b" "fills s d d' r es"
    "m_eval_egroups (entry s (res_type r) d') = m_eval_egroups (entry s (res_type r) d)"
    using iterated_ready [OF 1(2) ready] 1(2,4,5)
    by (simp_all add: slot_ready_def per_slot_def qual_def fitting_def fills_def) (simp add: iterated_def)
  have f: "list_all2 (fills s d d') rs ess"
    using 2(6) iterated_fits(2) [OF 1(2)] other by (simp add: list_all2_conv_all_nth)
  have "entry s' t d' = entry s' t d" if "s' \<noteq> s \<or> t \<notin> res_type ` set (r # rs)" for s' t
    using that 2(3) iteratedD(4) [OF 1(2), of s' t] by auto
  then show ?case
    using 1(1,3) 2(1,2,4,5) r' f rest b
    by (intro exI [of _ grp'] exI [of _ d'] exI [of _ "es # ess"]) auto
qed

text \<open>A slot as the parts that meet the single requests.\<close>

definition slot_of :: "string \<Rightarrow> scoring \<Rightarrow> resource list \<Rightarrow> eval_egroup \<Rightarrow> eval_edg list list \<Rightarrow> bool" where
  "slot_of s d rs g ess \<longleftrightarrow>
     edges g = concat ess \<and> eg_count g = 1 \<and> exclusive g = 1 \<and> root g = False \<and>
     list_all2 (\<lambda>r es. the (per_slot s d r) \<le> sum_list (map edg_count es)) rs ess"

lemma pack_elem_root:
  assumes "pack_elem s ty cnt j grp d = Some r" and "r = Inr (grp', d')"
  shows "root grp' = root grp"
proof -
  have "\<forall>grp' d'. r = Inr (grp', d') \<longrightarrow> root grp' = root grp"
  proof (rule pack_elem.raw_induct [OF _ assms(1)])
    fix f :: "string \<Rightarrow> string \<Rightarrow> int \<Rightarrow> int \<Rightarrow> eval_egroup \<Rightarrow> scoring \<Rightarrow> (scoring + eval_egroup \<times> scoring) option"
      and s ty cnt j grp d r
    assume IH: "\<And>s ty cnt j grp d r. f s ty cnt j grp d = Some r \<Longrightarrow> \<forall>grp' d'. r = Inr (grp', d') \<longrightarrow> root grp' = root grp"
    assume "(if j < cnt then do {
        (i, d) \<leftarrow> eval_egroups_iter_next s ty d;
        let (n, d) = eval_egroups_end s ty d;
        if i = n then Some (Inl d)
        else do {
          let g = m_eval_egroups (entry s ty d) ! i;
          e \<leftarrow> first_edge g;
          f s ty cnt (u32 (j + edg_count e))
            (grp\<lparr>score := i64 (score grp + score g),
                 edges := edges grp @ [\<lparr>edg_count = edg_count e, edg_needs = edg_count e, edg_exclusive = 1, edge = edge e\<rparr>]\<rparr>) d
        }
      }
      else Some (Inr (grp, d))) = Some r"
    then show "\<forall>grp' d'. r = Inr (grp', d') \<longrightarrow> root grp' = root grp"
      by (auto simp: Let_def split: if_splits bind_splits prod.splits dest!: IH)
  qed
  then show ?thesis using assms(2) by blast
qed

lemma pack_slot_root: "pack_slot s rs grp d = Some (Inr (grp', d')) \<Longrightarrow> root grp' = root grp"
  by (induction rs arbitrary: grp d) (auto split: bind_splits sum.splits prod.splits dest!: pack_elem_root [OF _ refl])

lemma uses_take:
  assumes "uses es (take m gs)" and "uses es' (take m' (drop m gs))"
  shows "uses (es @ es') (take (m + m') gs)"
  using uses_append [OF assms] by (simp add: take_add)

lemma pack_slots_run:
  assumes "score_maps_ok d" and "\<forall>r\<in>set rs. slot_ready s d r \<and> n \<le> fitting s d r" and "distinct (map res_type rs)"
  shows "\<exists>gs' parts. pack_slots n s rs gs d = Some (Some (gs @ gs')) \<and> length gs' = n \<and> list_all2 (slot_of s d rs) gs' parts \<and>
           (\<forall>k<length rs. \<exists>m. uses (concat (map (\<lambda>p. p ! k) parts)) (take m (to_pass (entry s (res_type (rs ! k)) d))))"
  using assms(1,2)
proof (induction n arbitrary: d gs)
  case 0
  then show ?case by (auto intro!: exI [of _ "[]"] exI [of _ "0::nat"])
next
  case (Suc n)
  let ?g0 = "new_egroup\<lparr>score := MATCH_MET\<rparr>"
  have "\<forall>r\<in>set rs. slot_ready s d r \<and> 0 < fitting s d r" using Suc.prems(2) by (auto intro: Suc_le_lessD)
  from pack_slot_run [OF Suc.prems(1) this assms(3), of ?g0]
  obtain g d1 ess where 1: "pack_slot s rs ?g0 d = Some (Inr (g, d1))" "score_maps_ok d1"
    "\<forall>r\<in>set rs. slot_ready s d1 r \<and> per_slot s d1 r = per_slot s d r \<and> Suc (fitting s d1 r) = fitting s d r"
    "edges g = edges ?g0 @ concat ess" "list_all2 (fills s d d1) rs ess"
    by blast
  let ?g = "g\<lparr>eg_count := 1, exclusive := 1\<rparr>"
  have "\<forall>r\<in>set rs. slot_ready s d1 r \<and> n \<le> fitting s d1 r" using 1(3) Suc.prems(2) by (metis Suc_le_mono)
  from Suc.IH [OF 1(2) this, of "gs @ [?g]"]
  obtain gs' parts where 2: "pack_slots n s rs (gs @ [?g]) d1 = Some (Some ((gs @ [?g]) @ gs'))" "length gs' = n"
    "list_all2 (slot_of s d1 rs) gs' parts"
    "\<forall>k<length rs. \<exists>m. uses (concat (map (\<lambda>p. p ! k) parts)) (take m (to_pass (entry s (res_type (rs ! k)) d1)))"
    by blast
  have "slot_of s d1 rs = slot_of s d rs" using 1(3) by (auto simp: slot_of_def fun_eq_iff list_all2_conv_all_nth)
  moreover have "slot_of s d rs ?g ess"
    using 1(1,4,5) pack_slot_root [OF 1(1)] by (auto simp: slot_of_def new_egroup_def fills_def list_all2_conv_all_nth)
  moreover have "\<exists>m. uses (concat (map (\<lambda>p. p ! k) (ess # parts))) (take m (to_pass (entry s (res_type (rs ! k)) d)))"
    if k: "k < length rs" for k
  proof -
    have "fills s d d1 (rs ! k) (ess ! k)" using 1(5) k by (simp add: list_all2_conv_all_nth)
    then obtain m where m: "to_pass (entry s (res_type (rs ! k)) d1) = drop m (to_pass (entry s (res_type (rs ! k)) d))"
      "uses (ess ! k) (take m (to_pass (entry s (res_type (rs ! k)) d)))"
      by (auto simp: fills_def)
    obtain m' where "uses (concat (map (\<lambda>p. p ! k) parts)) (take m' (to_pass (entry s (res_type (rs ! k)) d1)))" using 2(4) k by blast
    then show ?thesis using uses_take [OF m(2)] m(1) by auto
  qed
  ultimately show ?case
    using 1(1) 2(1-3) by (intro exI [of _ "?g # gs'"] exI [of _ "ess # parts"]) simp
qed

section \<open>Counting\<close>

text \<open>The groups stand before the start of the iteration.\<close>

definition at_start :: "string \<Rightarrow> scoring \<Rightarrow> resource \<Rightarrow> bool" where
  "at_start s d r \<longleftrightarrow>
     (let e = entry s (res_type r) d
      in m_iter_cur_reset e \<and> has_edges e \<and> (\<forall>g\<in>set (m_eval_egroups e). 0 \<le> granule g) \<and> length (m_eval_egroups e) < 2 ^ 32)"

text \<open>The number of slots: as many as the groups of every request fill.\<close>

definition slots_of :: "string \<Rightarrow> scoring \<Rightarrow> resource \<Rightarrow> int" where
  "slots_of s d r = (if per_slot s d r = Some 0 then 0 else int (fitting s d r))"

lemma at_start_cong:
  assumes "entry s (res_type r) d' = entry s (res_type r) d"
  shows "at_start s d' r = at_start s d r" and "per_slot s d' r = per_slot s d r" and "slots_of s d' r = slots_of s d r"
  using assms by (simp_all add: at_start_def per_slot_def qual_def slots_of_def fitting_def)

lemma cnt_request:
  assumes "score_maps_ok d" and "at_start s d r" and "countable (request_count r)"
    and "0 \<le> qual s (res_type r) d" and "qual s (res_type r) d < 2 ^ 32"
  obtains d' where "cnt_loop s (r # rs) q d = cnt_loop s rs (min q (slots_of s d r)) d'"
    and "score_maps_ok d'" and "\<And>s' t. (s', t) \<noteq> (s, res_type r) \<Longrightarrow> entry s' t d' = entry s' t d"
    and "at_start s d' r" and "per_slot s d' r = per_slot s d r" and "slots_of s d' r = slots_of s d r"
    and "m_eval_egroups (entry s (res_type r) d') = m_eval_egroups (entry s (res_type r) d)"
    and "qual s (res_type r) d' = qual s (res_type r) d"
proof -
  let ?t = "res_type r" and ?d = "touch s (res_type r) d"
  have e: "entry s' r' ?d = entry s' r' d" "score_maps_ok ?d" for s' r' using assms(1) by (simp_all add: entry_touch score_maps_ok_touch)
  obtain n where n: "per_slot s d r = Some n" "0 \<le> n"
    using calc_count_defined [OF assms(3-5)] unfolding per_slot_def by metis
  have st: "m_iter_cur_reset (entry s ?t d)" "has_edges (entry s ?t d)" "length (m_eval_egroups (entry s ?t d)) < 2 ^ 32"
    "to_pass (entry s ?t d) = m_eval_egroups (entry s ?t d)" "iter_ok (entry s ?t d)"
    using assms(2) by (auto simp: at_start_def Let_def to_pass_def iter_ok_def)
  have "\<exists>d1 f. (if n \<noteq> 0 then tally_groups s ?t (new_tally\<lparr>per_share := n\<rparr>) ?d else Some (new_tally\<lparr>per_share := n\<rparr>, ?d)) = Some (f, d1)
      \<and> iterated s ?t d d1 \<and> (n \<noteq> 0 \<longrightarrow> shares f = int (fitting s d r))"
  proof (cases "n = 0")
    case True
    then show ?thesis using e st(5) by (simp add: iterated_def)
  next
    case False
    have "iterated s ?t d ?d" using e st(5) by (simp add: iterated_def)
    moreover obtain f d1 where "tally_groups s ?t (new_tally\<lparr>per_share := n\<rparr>) ?d = Some (f, d1)" "iterated s ?t ?d d1"
      "shares f = int (bundles n 0 (map granule (to_pass (entry s ?t d))))"
      using tally_groups_run [of ?d s ?t "new_tally\<lparr>per_share := n\<rparr>"] e st n(2) False by (auto simp: new_tally_def)
    ultimately show ?thesis using False n(1) iterated_trans by (auto simp: fitting_def)
  qed
  then obtain d1 f where f: "(if n \<noteq> 0 then tally_groups s ?t (new_tally\<lparr>per_share := n\<rparr>) ?d else Some (new_tally\<lparr>per_share := n\<rparr>, ?d)) = Some (f, d1)"
    "iterated s ?t d d1" "n \<noteq> 0 \<longrightarrow> shares f = int (fitting s d r)" by blast
  let ?d' = "eval_egroups_iter_reset s ?t d1"
  have q: "(if q > (if n = 0 then 0 else shares f) then (if n = 0 then 0 else shares f) else q) = min q (slots_of s d r)"
    using f(3) n(1) by (simp add: slots_of_def min_def)
  have e': "entry s' t ?d' = (if s' = s \<and> t = ?t then evals_iter_reset (entry s ?t d1) else entry s' t d1)" "score_maps_ok ?d'" for s' t
    using iteratedD(1) [OF f(2)] by (simp_all add: eval_egroups_iter_reset_def entry_set score_maps_ok_set)
  have same: "m_eval_egroups (entry s ?t ?d') = m_eval_egroups (entry s ?t d)" "qual s ?t ?d' = qual s ?t d" "m_iter_cur_reset (entry s ?t ?d')"
    using f(2) by (simp_all add: e' evals_iter_reset_def iterated_def qual_def)
  show thesis
  proof (rule that)
    show "cnt_loop s (r # rs) q d = cnt_loop s rs (min q (slots_of s d r)) ?d'"
      using n(1) f(1) q by (auto simp: qualified_count_def per_slot_def qual_def Let_def split: if_splits)
    show "score_maps_ok ?d'" by (rule e'(2))
    show "entry s' t ?d' = entry s' t d" if "(s', t) \<noteq> (s, ?t)" for s' t
      using that iteratedD(4) [OF f(2)] by (auto simp: e')
    show "per_slot s ?d' r = per_slot s d r" using same(2) by (simp add: per_slot_def)
    then show "slots_of s ?d' r = slots_of s d r" using same st(1,4) by (simp add: slots_of_def fitting_def to_pass_def)
    show "at_start s ?d' r" using same assms(2) by (simp add: at_start_def Let_def has_edges_def)
  qed (rule same(1,2))+
qed

text \<open>What counting leaves of a request.\<close>

definition counted :: "string \<Rightarrow> scoring \<Rightarrow> scoring \<Rightarrow> resource \<Rightarrow> bool" where
  "counted s d d' r \<longleftrightarrow> at_start s d' r \<and> per_slot s d' r = per_slot s d r \<and> slots_of s d' r = slots_of s d r \<and>
     m_eval_egroups (entry s (res_type r) d') = m_eval_egroups (entry s (res_type r) d)"

lemma cnt_loop_run:
  assumes "score_maps_ok d" and "distinct (map res_type rs)"
    and "\<forall>r\<in>set rs. at_start s d r \<and> countable (request_count r) \<and> 0 \<le> qual s (res_type r) d \<and> qual s (res_type r) d < 2 ^ 32"
  shows "\<exists>d'. cnt_loop s rs q d = Some (fold (\<lambda>r q. min q (slots_of s d r)) rs q, d') \<and> score_maps_ok d' \<and>
           (\<forall>s' t. s' \<noteq> s \<or> t \<notin> res_type ` set rs \<longrightarrow> entry s' t d' = entry s' t d) \<and> (\<forall>r\<in>set rs. counted s d d' r)"
  using assms
proof (induction rs arbitrary: q d)
  case (Cons r rs)
  obtain d1 where 1: "cnt_loop s (r # rs) q d = cnt_loop s rs (min q (slots_of s d r)) d1" "score_maps_ok d1"
    "\<And>s' t. (s', t) \<noteq> (s, res_type r) \<Longrightarrow> entry s' t d1 = entry s' t d" "counted s d d1 r"
    using cnt_request [of d s r rs q] Cons.prems unfolding counted_def by (metis list.set_intros(1))
  have other: "res_type x \<noteq> res_type r" if "x \<in> set rs" for x
    using Cons.prems(2) that by (metis distinct.simps(2) imageI list.simps(9) set_map)
  then have e: "entry s (res_type x) d1 = entry s (res_type x) d" if "x \<in> set rs" for x using 1(3) that by blast
  have "\<forall>x\<in>set rs. at_start s d1 x \<and> countable (request_count x) \<and> 0 \<le> qual s (res_type x) d1 \<and> qual s (res_type x) d1 < 2 ^ 32"
  proof
    fix x
    assume "x \<in> set rs"
    then show "at_start s d1 x \<and> countable (request_count x) \<and> 0 \<le> qual s (res_type x) d1 \<and> qual s (res_type x) d1 < 2 ^ 32"
      using Cons.prems(3) at_start_cong(1) [OF e, of x] e [of x] by (simp add: qual_def)
  qed
  then obtain d' where 2: "cnt_loop s rs (min q (slots_of s d r)) d1
        = Some (fold (\<lambda>r q. min q (slots_of s d1 r)) rs (min q (slots_of s d r)), d')" "score_maps_ok d'"
      "\<forall>s' t. s' \<noteq> s \<or> t \<notin> res_type ` set rs \<longrightarrow> entry s' t d' = entry s' t d1" "\<forall>r\<in>set rs. counted s d1 d' r"
    using Cons.IH [OF 1(2), of "min q (slots_of s d r)"] Cons.prems(2) by auto
  have "fold (\<lambda>r q. min q (slots_of s d1 r)) rs p = fold (\<lambda>r q. min q (slots_of s d r)) rs p" for p
    using at_start_cong(3) [OF e] by (intro fold_cong) auto
  moreover have "counted s d d' x" if "x \<in> set rs" for x
    using 2(4) that at_start_cong [OF e [OF that]] e [OF that] by (auto simp: counted_def)
  moreover have own: "entry s (res_type r) d' = entry s (res_type r) d1" using 2(3) other by (metis imageE)
  have "counted s d d' r" using 1(4) own at_start_cong [OF own] unfolding counted_def by metis
  moreover have "entry s' t d' = entry s' t d" if "s' \<noteq> s \<or> t \<notin> res_type ` set (r # rs)" for s' t
    using that 2(3) 1(3) [of s' t] by auto
  ultimately show ?case using 1(1) 2(1,2) by auto
qed simp

lemma fold_min:
  fixes f :: "'a \<Rightarrow> int"
  shows "x \<le> fold (\<lambda>r q. min q (f r)) rs q \<longleftrightarrow> x \<le> q \<and> (\<forall>r\<in>set rs. x \<le> f r)"
  by (induction rs arbitrary: q) auto

theorem pack_as_counted:
  assumes "score_maps_ok d" and "distinct (map res_type rs)"
    and "\<forall>r\<in>set rs. at_start s d r \<and> countable (request_count r) \<and> 0 \<le> qual s (res_type r) d \<and> qual s (res_type r) d < 2 ^ 32"
  shows "\<exists>q d' gs parts. cnt_slot s rs d = Some (q, d') \<and>
           (\<forall>x. x \<le> q \<longleftrightarrow> x < 2 ^ 32 \<and> (\<forall>r\<in>set rs. x \<le> slots_of s d r)) \<and>
           pack_slots (nat q) s rs [] d' = Some (Some gs) \<and> length gs = nat q \<and> list_all2 (slot_of s d rs) gs parts \<and>
           (\<forall>k<length rs. \<exists>m. uses (concat (map (\<lambda>p. p ! k) parts)) (take m (m_eval_egroups (entry s (res_type (rs ! k)) d))))"
proof -
  let ?q = "fold (\<lambda>r q. min q (slots_of s d r)) rs (2 ^ 32 - 1)"
  obtain d' where d': "cnt_slot s rs d = Some (?q, d')" "score_maps_ok d'" "\<forall>r\<in>set rs. counted s d d' r"
    using cnt_loop_run [OF assms, of "2 ^ 32 - 1"] unfolding cnt_slot_def by blast
  have q: "x \<le> ?q \<longleftrightarrow> x < 2 ^ 32 \<and> (\<forall>r\<in>set rs. x \<le> slots_of s d r)" for x by (auto simp: fold_min)
  have pass: "to_pass (entry s (res_type r) d') = m_eval_egroups (entry s (res_type r) d)" if "r \<in> set rs" for r
    using d'(3) that by (auto simp: counted_def at_start_def Let_def to_pass_def)
  have "\<exists>gs parts. pack_slots (nat ?q) s rs [] d' = Some (Some gs) \<and> length gs = nat ?q \<and> list_all2 (slot_of s d' rs) gs parts \<and>
           (\<forall>k<length rs. \<exists>m. uses (concat (map (\<lambda>p. p ! k) parts)) (take m (to_pass (entry s (res_type (rs ! k)) d'))))"
  proof (cases "?q \<le> 0")
    case True
    then show ?thesis by (auto intro!: exI [of _ "[]"] exI [of _ "0::nat"])
  next
    case False
    have "slot_ready s d' r \<and> nat ?q \<le> fitting s d' r" if r: "r \<in> set rs" for r
    proof -
      have c: "counted s d d' r" using d'(3) r by blast
      have le: "?q \<le> slots_of s d' r" using q [of ?q] r c by (simp add: counted_def)
      moreover obtain n where n: "per_slot s d' r = Some n" "0 \<le> n"
        using calc_count_defined [of "request_count r" "qual s (res_type r) d"] assms(3) r c unfolding counted_def per_slot_def by metis
      moreover have "0 < slots_of s d' r" using le False by linarith
      ultimately have "0 < n" "nat ?q \<le> fitting s d' r" by (auto simp: slots_of_def split: if_splits)
      moreover have "at_start s d' r" using c by (simp add: counted_def)
      ultimately show ?thesis using n by (auto simp: at_start_def slot_ready_def Let_def iter_ok_def)
    qed
    then show ?thesis using pack_slots_run [OF d'(2) _ assms(2), of s "nat ?q" "[]"] by auto
  qed
  then obtain gs parts where p: "pack_slots (nat ?q) s rs [] d' = Some (Some gs)" "length gs = nat ?q" "list_all2 (slot_of s d' rs) gs parts"
    "\<forall>k<length rs. \<exists>m. uses (concat (map (\<lambda>p. p ! k) parts)) (take m (to_pass (entry s (res_type (rs ! k)) d')))" by blast
  have "slot_of s d' rs = slot_of s d rs" using d'(3) by (auto simp: slot_of_def fun_eq_iff list_all2_conv_all_nth counted_def)
  moreover have "\<exists>m. uses (concat (map (\<lambda>p. p ! k) parts)) (take m (m_eval_egroups (entry s (res_type (rs ! k)) d)))" if "k < length rs" for k
    using p(4) that pass [OF nth_mem [OF that]] by metis
  ultimately show ?thesis using d'(1) q p(1-3)
    by (intro exI [of _ ?q] exI [of _ d'] exI [of _ gs] exI [of _ parts]) auto
qed

end
