(* ===== verification/Traverser_Api.thy ===== *)
theory Traverser_Api
  imports Traverser_Remove
begin

text \<open>
  The interface of the traverser (\<^verbatim>\<open>src/resource/traversers/dfu.cpp\<close> and
  \<^verbatim>\<open>jobmeta_t::build\<close> of \<^verbatim>\<open>dfu_impl.hpp\<close>): initialization, matching a jobspec now or later,
  and releasing jobs.

  The error number is that of the last call that failed: the numbers a walk stores while it goes on to
  succeed are not followed. Durations are of type \<^verbatim>\<open>double\<close>: not a number, infinite, or
  a product of an integer and a power of two; the rounding of a conversion is written out.
\<close>

section \<open>Durations\<close>

datatype double = NaN | NInf | PInf | Fin int int

definition double_ge_0 :: "double \<Rightarrow> bool" where
  "double_ge_0 d = (case d of NaN \<Rightarrow> False | NInf \<Rightarrow> False | PInf \<Rightarrow> True | Fin m e \<Rightarrow> 0 \<le> m)"

definition double_gt :: "double \<Rightarrow> int \<Rightarrow> bool" where
  "double_gt d y =
     (case d of
        NaN \<Rightarrow> False
      | NInf \<Rightarrow> False
      | PInf \<Rightarrow> True
      | Fin m e \<Rightarrow> (if 0 \<le> e then y < m * 2 ^ nat e else y * 2 ^ nat (- e) < m))"

definition double_ceil :: "double \<Rightarrow> int" where
  "double_ceil d =
     (case d of Fin m e \<Rightarrow> (if 0 \<le> e then m * 2 ^ nat e else - (- m div 2 ^ nat (- e))) | _ \<Rightarrow> 0)"

text \<open>To 53 significant bits, ties to even.\<close>

function scale_of :: "int \<Rightarrow> nat" where
  "scale_of n = (if n < 2 ^ 53 then 0 else Suc (scale_of (n div 2)))"
  by pat_completeness auto

termination by (relation "measure nat") auto

definition int_to_double :: "int \<Rightarrow> int" where
  "int_to_double n =
     (let k = 2 ^ scale_of \<bar>n\<bar>; q = \<bar>n\<bar> div k; r = 2 * (\<bar>n\<bar> mod k)
      in sgn n * (if r > k \<or> r = k \<and> odd q then q + 1 else q) * k)"

record jobspec =
  js_resources :: "resource list"
  js_duration :: double
  js_queue :: string
  js_constraint :: "constraint option"

definition SYSTEM_DEFAULT_DURATION :: int where
  "SYSTEM_DEFAULT_DURATION = 43200"

definition new_jobmeta :: jobmeta where
  "new_jobmeta = \<lparr>alloc_type = AT_ALLOC, jobid = - 1, jm_at = - 1, jm_now = - 1, jm_duration = SYSTEM_DEFAULT_DURATION,
     jm_constraint = None, jm_queue = None\<rparr>"

definition build :: "jobspec \<Rightarrow> alloc_type \<Rightarrow> int \<Rightarrow> int \<Rightarrow> metadata \<Rightarrow> jobmeta \<Rightarrow> int result \<times> jobmeta" where
  "build js alloc jid tm md meta =
     (let meta = meta\<lparr>jm_at := tm, jm_now := tm, jobid := jid, alloc_type := alloc\<rparr>;
          g_duration = in_seconds (graph_end md - graph_start md)
      in if g_duration \<le> 0 \<or> \<not> double_ge_0 (js_duration js) then (Inl EINVAL, meta)
         else if double_gt (js_duration js) (int_to_double g_duration)
               \<or> double_gt (js_duration js) (int_to_double (int64_max - 1)) then (Inl EINVAL, meta)
         else
           (let d = (case js_duration js of Fin m e \<Rightarrow> (if m = 0 then g_duration else double_ceil (Fin m e)) | _ \<Rightarrow> 0)
            in (Inr 0, meta\<lparr>jm_duration := d, jm_queue := (if js_queue js \<noteq> [] then Some (js_queue js) else jm_queue meta),
                           jm_constraint := js_constraint js\<rparr>)))"

section \<open>State\<close>

record dfu =
  traverser :: trav
  m_initialized :: bool
  m_total_preorder :: int
  m_total_postorder :: int
  tmp_iter_count :: int

abbreviation db_metadata :: "trav \<Rightarrow> metadata" where
  "db_metadata t \<equiv> metadata (m_graph_db t)"

definition set_totals :: "dfu \<Rightarrow> dfu" where
  "set_totals f = f\<lparr>m_total_preorder := m_preorder (traverser f), m_total_postorder := m_postorder (traverser f)\<rparr>"

definition add_totals :: "dfu \<Rightarrow> dfu" where
  "add_totals f = f\<lparr>m_total_preorder := u32 (m_total_preorder f + m_preorder (traverser f)),
     m_total_postorder := u32 (m_total_postorder f + m_postorder (traverser f))\<rparr>"

section \<open>Initialization\<close>

text \<open>A subsystem without a root ends the loop; a walk that fails does not.\<close>

fun prime_all :: "string list \<Rightarrow> int result \<Rightarrow> trav \<Rightarrow> (int result \<times> trav) option" where
  "prime_all [] r t = Some (r, t)"
| "prime_all (s # ss) r t =
     (case om_find s (roots (db_metadata t)) of
        None \<Rightarrow> Some (Inl ENOTSUP, t)
      | Some rv \<Rightarrow> do {
          (r', _, t) \<leftarrow> prime_pruning_filter (Suc (length (g_vtxs (graph t)))) s rv [] t;
          prime_all ss (case r' of Inl e \<Rightarrow> Inl e | Inr _ \<Rightarrow> r) t
        })"

definition initialize :: "dfu \<Rightarrow> (int result \<times> dfu) option" where
  "initialize f = do {
     (r, t) \<leftarrow> prime_all (subsystems_of (traverser f)) (Inr 0) (reset_color (traverser f));
     Some (r, f\<lparr>traverser := t, m_initialized := (case r of Inl _ \<Rightarrow> False | Inr _ \<Rightarrow> True)\<rparr>)
   }"

section \<open>Matching\<close>

text \<open>A count in an unordered map that is not there is made and is 0.\<close>

definition checking_satisfiability :: "match_op \<Rightarrow> bool" where
  "checking_satisfiability op \<longleftrightarrow> op = MATCH_ALLOCATE_W_SATISFIABILITY \<or> op = MATCH_SATISFIABILITY"

definition infeasible :: "match_op \<Rightarrow> int result" where
  "infeasible op =
     (if op = MATCH_ALLOCATE_ORELSE_RESERVE \<or> op = MATCH_ALLOCATE \<or> op = MATCH_WITHOUT_ALLOCATING
         \<or> op = MATCH_WITHOUT_ALLOCATING_FUTURE then Inl EBUSY
      else if checking_satisfiability op then Inl ENODEV
      else Inr 0)"

definition node_feasible :: "'a constraint_lib_scheme \<Rightarrow> jobmeta \<Rightarrow> match_op \<Rightarrow> int \<Rightarrow> resource_pool \<Rightarrow> bool" where
  "node_feasible lib meta op tm v \<longleftrightarrow>
     (case jm_constraint meta of None \<Rightarrow> True | Some c \<Rightarrow> constraint_match (constraint_lib.truncate lib) v c)
     \<and> (checking_satisfiability op \<or> status v = UP)
     \<and> planner_avail_resources_during (plans (schedule v)) tm (u64 (jm_duration meta)) = Inr 1"

definition request_feasible :: "'a constraint_lib_scheme \<Rightarrow> jobmeta \<Rightarrow> match_op \<Rightarrow> accum \<Rightarrow> trav \<Rightarrow> int result" where
  "request_feasible lib meta op dfv t =
     (let target_nodes = om_get 0 node_rt dfv; md = db_metadata t
      in if op = MATCH_UNKNOWN then Inr 0
         else if jm_constraint meta = None \<and> target_nodes \<le> nodes_up md then Inr 0
         else if target_nodes > nodes_up md \<and> infeasible op \<noteq> Inr 0 then infeasible op
         else case om_find node_rt (by_type md) of
                None \<Rightarrow> Inr 0
              | Some all_nodes \<Rightarrow>
                  (let tm = (if op = MATCH_ALLOCATE \<or> op = MATCH_WITHOUT_ALLOCATING then jm_at meta
                             else in_seconds (graph_end md) - 1);
                       feasible_nodes = int (length (filter (\<lambda>u. node_feasible lib meta op tm (vtx t u)) all_nodes))
                   in if feasible_nodes < target_nodes then infeasible op else Inr 0))"

text \<open>\<^verbatim>\<open>at\<close> throws for a subsystem without a filter; a filter that is null answers -1 to
  every question.\<close>

definition root_filter :: "nat \<Rightarrow> trav \<Rightarrow> planner_multi option option" where
  "root_filter rv t = om_find (dom_of t) (subplans (idata (vtx t rv)))"

definition far_future :: "planner_multi option \<Rightarrow> int \<Rightarrow> int option" where
  "far_future p duration = do {
     b \<leftarrow> planner_multi_base_time p;
     d \<leftarrow> planner_multi_duration p;
     Some (i64 (code_of b + code_of d - duration - 1))
   }"

text \<open>A selection at the end of the plan that fails because nothing is free: the request can never
  be met.\<close>

definition never :: "errno \<Rightarrow> errno" where
  "never e = (if e = EBUSY \<or> e = ERANGE then ENODEV else e)"

definition select_future :: "'a walk_lib_scheme \<Rightarrow> resource list \<Rightarrow> nat \<Rightarrow> bool \<Rightarrow> planner_multi option \<Rightarrow> int \<Rightarrow> jobmeta \<Rightarrow> trav
    \<Rightarrow> (int result \<times> jobmeta \<times> trav) option" where
  "select_future lib resources rv x p duration meta t = do {
     tm \<leftarrow> far_future p duration;
     let meta = meta\<lparr>alloc_type := AT_SATISFIABILITY, jm_at := tm\<rparr>;
     (r, t) \<leftarrow> select lib resources rv meta x t;
     Some (case r of Inl e \<Rightarrow> (Inl (never e), meta, reset_color t) | Inr _ \<Rightarrow> (Inr 0, meta, t))
   }"

definition is_satisfiable :: "'a walk_lib_scheme \<Rightarrow> resource list \<Rightarrow> jobmeta \<Rightarrow> bool \<Rightarrow> nat \<Rightarrow> dfu \<Rightarrow> (int result \<times> jobmeta \<times> dfu) option" where
  "is_satisfiable lib resources meta x rv f = do {
     p \<leftarrow> root_filter rv (traverser f);
     (r, meta, t) \<leftarrow> select_future lib resources rv x p (jm_duration meta) meta (traverser f);
     Some (r, meta, set_totals (f\<lparr>traverser := t\<rparr>))
   }"

text \<open>The loop over the points of the root's filter. The filter is part of the graph the selection
  walks, so it is read back at every turn; the next point is sought after a success too. The result is
  the success or the error number that ended the loop.\<close>

partial_function (option) seek ::
  "'a walk_lib_scheme \<Rightarrow> resource list \<Rightarrow> nat \<Rightarrow> bool \<Rightarrow> int result \<Rightarrow> jobmeta \<Rightarrow> dfu \<Rightarrow> (int result \<times> jobmeta \<times> dfu) option" where
  "seek lib resources rv x tm meta f =
     (case tm of
        Inl e \<Rightarrow> Some (Inl e, meta, f)
      | Inr tm \<Rightarrow>
          (let meta = meta\<lparr>jm_at := tm\<rparr>
           in Option.bind (select lib resources rv meta x (traverser f)) (\<lambda>(r, t).
                (let f = (add_totals (f\<lparr>traverser := t\<rparr>))\<lparr>tmp_iter_count := tmp_iter_count f + 1\<rparr>
                 in Option.bind (root_filter rv t) (\<lambda>p.
                      Option.bind (planner_multi_avail_time_next p) (\<lambda>(tm, p).
                        (let f = f\<lparr>traverser := set_subplan rv (dom_of t) p t\<rparr>
                         in case r of Inr _ \<Rightarrow> Some (Inr 0, meta, f) | Inl _ \<Rightarrow> seek lib resources rv x tm meta f)))))))"

declare seek.simps [code]

definition schedule_later :: "'a walk_lib_scheme \<Rightarrow> resource list \<Rightarrow> jobmeta \<Rightarrow> bool \<Rightarrow> nat \<Rightarrow> accum \<Rightarrow> dfu
    \<Rightarrow> (int result \<times> jobmeta \<times> dfu) option" where
  "schedule_later lib resources meta x rv dfv f = do {
     p \<leftarrow> root_filter rv (traverser f);
     agg \<leftarrow> count_relevant_types p dfv;
     (tm, p) \<leftarrow> planner_multi_avail_time_first p (i64 (jm_at meta + 1)) (u64 (jm_duration meta)) (Some agg);
     let t = set_subplan rv (dom_of (traverser f)) p (traverser f);
     (r, meta, f) \<leftarrow> seek lib resources rv x tm meta (f\<lparr>traverser := t\<rparr>);
     case r of
       Inr _ \<Rightarrow> Some (Inr 0, meta, f)
     | Inl e \<Rightarrow>
         (if e = ENOENT \<or> e = ERANGE then do {
            p \<leftarrow> root_filter rv (traverser f);
            (r, meta, t) \<leftarrow> select_future lib resources rv x p (jm_duration meta) meta (traverser f);
            Some (Inl (case r of Inl e \<Rightarrow> e | Inr _ \<Rightarrow> EBUSY), meta, f\<lparr>traverser := t\<rparr>)
          }
          else Some (Inl e, meta, (add_totals f)\<lparr>tmp_iter_count := tmp_iter_count f + 1\<rparr>))
   }"

definition schedule_now :: "'a walk_lib_scheme \<Rightarrow> resource list \<Rightarrow> jobmeta \<Rightarrow> bool \<Rightarrow> match_op \<Rightarrow> nat \<Rightarrow> accum \<Rightarrow> dfu
    \<Rightarrow> (int result \<times> jobmeta \<times> dfu) option" where
  "schedule_now lib resources meta x op rv dfv f = do {
     (r, t) \<leftarrow> select lib resources rv meta x (traverser f);
     let f = f\<lparr>traverser := t, tmp_iter_count := 1\<rparr>;
     case r of
       Inr _ \<Rightarrow> Some (Inr 0, meta, set_totals f)
     | Inl e \<Rightarrow>
         (if op = MATCH_ALLOCATE_W_SATISFIABILITY then do {
            p \<leftarrow> root_filter rv t;
            (r, meta, t) \<leftarrow> select_future lib resources rv x p (jm_duration meta) meta t;
            Some (Inl (case r of Inl e \<Rightarrow> e | Inr _ \<Rightarrow> EBUSY), meta,
                  (add_totals (f\<lparr>traverser := t\<rparr>))\<lparr>tmp_iter_count := 2\<rparr>)
          }
          else if op = MATCH_ALLOCATE_ORELSE_RESERVE
          then schedule_later lib resources (meta\<lparr>alloc_type := AT_ALLOC_ORELSE_RESERVE\<rparr>) x rv dfv f
          else if op = MATCH_WITHOUT_ALLOCATING_FUTURE then schedule_later lib resources meta x rv dfv f
          else if op = MATCH_ALLOCATE \<or> op = MATCH_WITHOUT_ALLOCATING then Some (Inl EBUSY, meta, f)
          else Some (Inl e, meta, f))
   }"

definition schedule_job :: "'a walk_lib_scheme \<Rightarrow> resource list \<Rightarrow> jobmeta \<Rightarrow> bool \<Rightarrow> match_op \<Rightarrow> nat \<Rightarrow> accum \<Rightarrow> dfu
    \<Rightarrow> (int result \<times> jobmeta \<times> dfu) option" where
  "schedule_job lib resources meta x op rv dfv f =
     (case request_feasible lib meta op dfv (traverser f) of
        Inl e \<Rightarrow> Some (Inl e, meta, f\<lparr>tmp_iter_count := 0\<rparr>)
      | Inr _ \<Rightarrow> schedule_now lib resources meta x op rv dfv f)"

definition set_util :: "(matcher_util \<Rightarrow> matcher_util) \<Rightarrow> trav \<Rightarrow> trav" where
  "set_util h t = t\<lparr>m_match := upd_util h (m_match t)\<rparr>"

text \<open>The end of a match: the duration is cut to the end of the graph, and the job is booked. The
  results are the code, the time and the state.\<close>

definition book_match :: "nat \<Rightarrow> jobmeta \<Rightarrow> int \<Rightarrow> dfu \<Rightarrow> emit list \<Rightarrow> (int result \<times> dfu \<times> emit list) option" where
  "book_match rv meta stop f w =
     (if jm_at meta = stop then Some (Inl EBUSY, f, w)
      else if jm_at meta < 0 \<or> jm_at meta > stop then Some (Inl EINVAL, f, w)
      else do {
        let meta = (if i64 (jm_at meta + jm_duration meta) > stop then meta\<lparr>jm_duration := stop - jm_at meta\<rparr> else meta);
        (r, t, w) \<leftarrow> update rv meta (traverser f) w;
        Some (r, f\<lparr>traverser := t\<rparr>, w)
      })"

definition run_op :: "'a walk_lib_scheme \<Rightarrow> resource list \<Rightarrow> jobmeta \<Rightarrow> bool \<Rightarrow> match_op \<Rightarrow> nat \<Rightarrow> accum \<Rightarrow> int \<Rightarrow> dfu \<Rightarrow> emit list
    \<Rightarrow> (int result \<times> int \<times> dfu \<times> emit list) option" where
  "run_op lib resources meta x op rv dfv tm f w =
     (if op = MATCH_SATISFIABILITY then do {
        (r, _, f) \<leftarrow> is_satisfiable lib resources meta x rv f;
        Some (r, tm, case r of Inl _ \<Rightarrow> f | Inr _ \<Rightarrow> f\<lparr>traverser := reset_color (traverser f)\<rparr>, w)
      }
      else do {
        (r, meta, f) \<leftarrow> schedule_job lib resources meta x op rv dfv f;
        case r of
          Inl e \<Rightarrow> Some (Inl e, tm, f, w)
        | Inr _ \<Rightarrow>
            map_option (\<lambda>(r, f, w). (r, jm_at meta, f, w)) (book_match rv meta (in_seconds (graph_end (db_metadata (traverser f)))) f w)
      })"

text \<open>A jobspec that is not built leaves the types the priming made exclusive.\<close>

definition run :: "'a walk_lib_scheme \<Rightarrow> jobspec \<Rightarrow> match_op \<Rightarrow> int \<Rightarrow> int \<Rightarrow> dfu \<Rightarrow> emit list
    \<Rightarrow> (int result \<times> int \<times> dfu \<times> emit list) option" where
  "run lib js op jid tm f w =
     (let t = traverser f
      in case om_find (dom_of t) (roots (db_metadata t)) of
           None \<Rightarrow> Some (Inl EINVAL, tm, f, w)
         | Some rv \<Rightarrow>
             (if js_resources js = [] then Some (Inl EINVAL, tm, f, w)
              else
                (let x = exclusivity (js_resources js) (vtx t rv);
                     types = m_x_resource_types (util_of (m_match t))
                 in case prime_jobspec (dom_of t) (js_resources js) [] (util_of (m_match t)) of
                      (resources, dfv, util) \<Rightarrow>
                        (let f = f\<lparr>traverser := set_util (\<lambda>_. util) t\<rparr>
                         in case build js AT_ALLOC jid tm (db_metadata t) new_jobmeta of
                              (Inl e, _) \<Rightarrow> Some (Inl e, tm, f, w)
                            | (Inr _, meta) \<Rightarrow> do {
                                let meta = (if op = MATCH_WITHOUT_ALLOCATING \<or> op = MATCH_WITHOUT_ALLOCATING_FUTURE
                                            then meta\<lparr>alloc_type := AT_NO_ALLOC\<rparr> else meta);
                                (r, tm, f, w) \<leftarrow> run_op lib resources meta x op rv dfv tm f w;
                                Some (r, tm, f\<lparr>traverser := set_util (\<lambda>u. snd (reset_exclusive_resource_types types u)) (traverser f)\<rparr>, w)
                              }))))"

section \<open>Releasing and marking\<close>

definition run_with :: "reader \<Rightarrow> string \<Rightarrow> int \<Rightarrow> int \<Rightarrow> int \<Rightarrow> dfu \<Rightarrow> emit list \<Rightarrow> (int \<times> dfu \<times> emit list) option" where
  "run_with rd str jid tm duration f w =
     (let t = traverser f
      in case (if tm < 0 then None else om_find (dom_of t) (roots (db_metadata t))) of
           None \<Rightarrow> Some (- 1, f, w)
         | Some rv \<Rightarrow>
             map_option (\<lambda>(rc, t, w). (rc, f\<lparr>traverser := t\<rparr>, w))
               (update_with rd rv str (new_jobmeta\<lparr>jobid := jid, jm_at := tm, jm_duration := i64 duration\<rparr>) t w))"

definition with_root :: "(nat \<Rightarrow> trav \<Rightarrow> (int \<times> trav) option) \<Rightarrow> dfu \<Rightarrow> (int \<times> dfu) option" where
  "with_root op f =
     (case om_find (dom_of (traverser f)) (roots (db_metadata (traverser f))) of
        None \<Rightarrow> Some (- 1, f)
      | Some rv \<Rightarrow> map_option (\<lambda>(rc, t). (rc, set_totals (f\<lparr>traverser := t\<rparr>))) (op rv (traverser f)))"

definition dfu_remove :: "int \<Rightarrow> dfu \<Rightarrow> (int \<times> dfu) option" where
  "dfu_remove jid f = with_root (\<lambda>rv. remove rv jid) f"

definition dfu_remove_ranks :: "int list \<Rightarrow> dfu \<Rightarrow> (int \<times> dfu) option" where
  "dfu_remove_ranks rks f = with_root (\<lambda>_. remove_ranks rks) f"

definition dfu_remove_part :: "reader \<Rightarrow> string \<Rightarrow> int \<Rightarrow> bool \<Rightarrow> dfu \<Rightarrow> (int \<times> bool \<times> dfu) option" where
  "dfu_remove_part rd R_to_cancel jid full_cancel f =
     (case om_find (dom_of (traverser f)) (roots (db_metadata (traverser f))) of
        None \<Rightarrow> Some (- 1, full_cancel, f)
      | Some rv \<Rightarrow>
          map_option (\<lambda>(rc, full, t). (rc, full, set_totals (f\<lparr>traverser := t\<rparr>))) (remove_part rd rv R_to_cancel jid full_cancel (traverser f)))"

definition dfu_mark :: "string \<Rightarrow> status \<Rightarrow> dfu \<Rightarrow> (int result \<times> dfu) option" where
  "dfu_mark root_path st f = map_option (\<lambda>(r, t). (r, f\<lparr>traverser := t\<rparr>)) (mark root_path st (traverser f))"

definition dfu_mark_ranks :: "int list \<Rightarrow> status \<Rightarrow> dfu \<Rightarrow> (int result \<times> dfu) option" where
  "dfu_mark_ranks rks st f = map_option (\<lambda>(r, t). (r, f\<lparr>traverser := t\<rparr>)) (mark_ranks rks st (traverser f))"

definition dfu_remove_subgraph :: "string \<Rightarrow> dfu \<Rightarrow> (int result \<times> dfu) option" where
  "dfu_remove_subgraph path f = map_option (\<lambda>(r, t). (r, f\<lparr>traverser := t\<rparr>)) (remove_subgraph path (traverser f))"

definition dfu_remove_subgraph_ranks :: "int list \<Rightarrow> dfu \<Rightarrow> (int result \<times> dfu) option" where
  "dfu_remove_subgraph_ranks rks f = map_option (\<lambda>(r, t). (r, f\<lparr>traverser := t\<rparr>)) (remove_subgraph_ranks rks (traverser f))"

end
