(* ===== verification/Traverser_Properties.thy ===== *)
theory Traverser_Properties
  imports Traverser_Booking Traverser_Prime_Correct Traverser_Slots Traverser_Api
begin

text \<open>
  The properties of the traverser: priming, selection, booking and removal, each with a witness on a
  small graph.
\<close>

section \<open>A small graph\<close>

text \<open>A cluster with one node; the walk has chosen the node.\<close>

definition one_unit :: "planner option" where
  "one_unit = (case planner_new 0 100 1 (Some ''u'') of Some (Inr p) \<Rightarrow> Some p | _ \<Rightarrow> None)"

definition many_units :: "planner option" where
  "many_units = (case planner_new 0 100 X_CHECKER_NJOBS (Some ''jobs'') of Some (Inr p) \<Rightarrow> Some p | _ \<Rightarrow> None)"

definition pool_of :: "string \<Rightarrow> int \<Rightarrow> resource_pool" where
  "pool_of ty i = \<lparr>vtype = ty, basename = ty, vname = ty, properties = [], vid = 0, rank = 0, paths = [], uniq_id = i, vsize = 1, unit = [],
     schedule = new_schedule\<lparr>plans := one_unit\<rparr>, idata = new_pool_infra\<lparr>x_checker := many_units\<rparr>, status = UP\<rparr>"

definition chosen_edge :: relation_infra where
  "chosen_edge = \<lparr>m_needs = 1, m_edge_seq = 0, m_weight = 0, m_exclusive = 1\<rparr>"

definition small_graph :: resource_graph where
  "small_graph = \<lparr>g_vtxs = [pool_of ''cluster'' 0, pool_of ''node'' 1],
     g_edgs = [\<lparr>edge_source = 0, edge_target = 1, edge_subsystem = ''containment'', edge_idata = chosen_edge, edge_removed = False\<rparr>]\<rparr>"

definition small_metadata :: metadata where
  "small_metadata = \<lparr>roots = [(''containment'', 0)], v_rt_edges = [(''containment'', chosen_edge\<lparr>m_exclusive := 0\<rparr>)],
     by_type = [(''node'', [1])], by_name = [], by_rank = [], by_path = [], by_outedges = [], graph_start = 0, graph_end = 100 * 10 ^ 9, nodes_up = 1\<rparr>"

definition small_policy :: match_cb where
  "small_policy = High_first ((new_multilevel_id ''high'')\<lparr>cb_data := snd (add_subsystem ''containment'' ''*'' (new_matcher_data ''high''))\<rparr>)"

definition small_trav :: trav where
  "small_trav = \<lparr>m_graph_db = \<lparr>resource_graph = small_graph, metadata = small_metadata\<rparr>, m_match = small_policy, m_color = 0,
     m_sequence_number = 0, m_trav_level = 0, m_preorder = 0, m_postorder = 0, aux_root = None\<rparr>"

definition small_job :: jobmeta where
  "small_job = \<lparr>alloc_type = AT_ALLOC, jobid = 7, jm_at = 0, jm_now = 0, jm_duration = 10, jm_constraint = None, jm_queue = None\<rparr>"

definition booked_trav :: trav where
  "booked_trav = (case update 0 small_job small_trav [] of Some (_, t, _) \<Rightarrow> t | None \<Rightarrow> small_trav)"

lemma units_ok:
  obtains q x where "one_unit = Some q" "planner_inv q" "m_span_counter q = 0" "m_total_resources q = 1" "m_plan_start q = 0" "m_plan_end q = 100" "m_span_lookup q = []"
    and "many_units = Some x" "planner_inv x" "m_span_counter x = 0"
  using planner_new_ok [of 1 0 100 "''u''"] planner_new_ok [of X_CHECKER_NJOBS 0 100 "''jobs''"]
  by (auto simp: one_unit_def many_units_def int64_max_def X_CHECKER_NJOBS_def)

lemma small_sub: "dom_of small_trav = ''containment''" "subsystems_of small_trav = [''containment'']"
  by code_simp+

lemma pool_vertex_ok: "vertex_ok s (pool_of ty i)" and pool_room: "room s (pool_of ty i)"
proof -
  obtain q x where u: "one_unit = Some q" "planner_inv q" "m_span_counter q = 0" "many_units = Some x" "planner_inv x" "m_span_counter x = 0"
    using units_ok by metis
  have p: "schedule (pool_of ty i) = \<lparr>allocations = [], reservations = [], plans = Some q\<rparr>" "x_checker (idata (pool_of ty i)) = Some x"
    "subplans (idata (pool_of ty i)) = []" "tags (idata (pool_of ty i)) = []" "x_spans (idata (pool_of ty i)) = []" "job2span (idata (pool_of ty i)) = []"
    unfolding pool_of_def u(1,4) by (simp_all add: new_schedule_def new_pool_infra_def)
  show "vertex_ok s (pool_of ty i)" 
    unfolding vertex_ok_def Let_def p using u(2,5) by (simp add: books_def one_each_def filter_books_def om_get_def)
  show "room s (pool_of ty i)" 
    unfolding room_def p using u(3,6) by (simp add: om_get_def int64_max_def)
qed

lemma small_vtx: "u < 2 \<Longrightarrow> vtx small_trav u = pool_of (if u = 0 then ''cluster'' else ''node'') (int u)"
  by (auto simp: small_trav_def small_graph_def less_2_cases_iff)

lemma small_ok: "books_ok small_trav" and small_bookable: "bookable small_job small_trav" and small_size: "length (g_vtxs (graph small_trav)) = 2"
proof -
  show len: "length (g_vtxs (graph small_trav)) = 2" by (simp add: small_trav_def small_graph_def)
  have "graph_ok small_trav"
    by (simp add: graph_ok_def small_trav_def small_graph_def small_metadata_def source_def target_def om_get_def)
  then show "books_ok small_trav" by (simp add: books_ok_def small_sub len small_vtx pool_vertex_ok)
  show "bookable small_job small_trav"
    unfolding bookable_def len
    by (auto simp: small_vtx pool_room small_job_def window_def int64_max_def has_tag_def) (auto simp: pool_of_def new_pool_infra_def)
qed

lemma small_white: "visited (dom_of small_trav) (reset_color small_trav) = {}"
  by (auto simp: visited_def reset_color_def has_color_def small_trav_def small_graph_def less_2_cases_iff pool_of_def new_pool_infra_def nth_Cons split: nat.split_asm)

text \<open>What the update leaves, evaluated.\<close>

definition booking_seen :: "trav \<Rightarrow> bool" where
  "booking_seen t \<longleftrightarrow> has_tag 0 7 t \<and> has_tag 1 7 t \<and> target t 0 = 1 \<and> out_edges (graph t) 0 = [0] \<and> in_subsystem t 0 ''containment'' \<and>
     list_all (\<lambda>v. \<not> has_color (m_color (reset_color t)) ''containment'' (colors (idata v))) (g_vtxs (graph t))"

lemma booking_evaluates: "case update 0 small_job small_trav [] of Some (Inr _, t, _) \<Rightarrow> booking_seen t | _ \<Rightarrow> False"
  by code_simp

lemma booked_trav_ok:
  "\<exists>r w. update 0 small_job small_trav [] = Some (r, booked_trav, w)" "books_ok booked_trav" "job_connected 7 0 booked_trav"
  "dom_of booked_trav = ''containment''" "length (g_vtxs (graph booked_trav)) = 2" "visited ''containment'' (reset_color booked_trav) = {}"
proof -
  obtain k t w where u: "update 0 small_job small_trav [] = Some (Inr k, t, w)" "booking_seen t"
    using booking_evaluates by (auto split: option.split_asm prod.split_asm sum.split_asm)
  have t: "booked_trav = t" using u(1) by (simp add: booked_trav_def)
  show "\<exists>r w. update 0 small_job small_trav [] = Some (r, booked_trav, w)" using u(1) t by auto
  have b: "books_ok t" "m_match t = m_match small_trav" "length (g_vtxs (graph t)) = 2"
    using update_books [OF small_ok small_bookable, of 0 "[]"] small_white small_size u(1) by auto
  then show "books_ok booked_trav" "dom_of booked_trav = ''containment''" "length (g_vtxs (graph booked_trav)) = 2"
    using t small_sub by simp_all
  have s: "dom_of t = ''containment''" using b(2) small_sub(1) by simp
  have "1 \<in> below (dom_of t) t 0" using u(2) s by (force simp: booking_seen_def below_def)
  then have "(0, 1) \<in> tagged_step 7 t" using u(2) by (simp add: booking_seen_def tagged_step_def)
  then show "job_connected 7 0 booked_trav"
    using u(2) b(3) t by (auto simp: job_connected_def booking_seen_def less_2_cases_iff)
  show "visited ''containment'' (reset_color booked_trav) = {}"
    using u(2) t by (auto simp: booking_seen_def visited_def list_all_length reset_color_def)
qed

section \<open>Releasing jobs\<close>

text \<open>C27. Removing a job that is booked consistently, and tagged along a path from the root to every
  vertex that holds it, succeeds: every vertex is released of the job, its records of other jobs are
  untouched, and its planners have given back the spans of this job and no other.\<close>

theorem dfu_remove_releases:
  assumes "books_ok (traverser f)" and "om_find (dom_of (traverser f)) (roots (db_metadata (traverser f))) = Some rv"
    and "rv < length (g_vtxs (graph (traverser f)))" and "job_connected jid rv (traverser f)"
    and "visited (dom_of (traverser f)) (reset_color (traverser f)) = {}"
  shows "\<exists>f'. dfu_remove jid f = Some (0, f') \<and>
    (\<forall>u<length (g_vtxs (graph (traverser f))). released (dom_of (traverser f)) jid (vtx (traverser f) u) (vtx (traverser f') u))"
  using remove_job [OF assms(1,3,4,5)] assms(2) by (auto simp: dfu_remove_def with_root_def set_totals_def)

definition small_dfu :: "trav \<Rightarrow> dfu" where
  "small_dfu t = \<lparr>traverser = t, m_initialized = True, m_total_preorder = 0, m_total_postorder = 0, tmp_iter_count = 0\<rparr>"

lemma booked_roots: "om_find ''containment'' (roots (db_metadata booked_trav)) = Some 0"
  by code_simp

theorem dfu_remove_releases_witness:
  "\<exists>f'. dfu_remove 7 (small_dfu booked_trav) = Some (0, f') \<and>
    (\<forall>u<2. released ''containment'' 7 (vtx booked_trav u) (vtx (traverser f') u))"
  using dfu_remove_releases [of "small_dfu booked_trav" 0 7] booked_trav_ok(2-6) booked_roots by (simp add: small_dfu_def)

text \<open>C28. Booking keeps the books: whatever the planners grant or refuse, the update ends, every
  vertex satisfies its invariant, and it has at most entered the job with a new span in its tables.\<close>

theorem update_keeps_books:
  assumes "books_ok t" and "bookable meta t" and "rv < length (g_vtxs (graph t))" and "visited (dom_of t) (reset_color t) = {}"
  shows "\<exists>r t' w'. update rv meta t w = Some (r, t', w') \<and> books_ok t' \<and>
    (\<forall>u<length (g_vtxs (graph t)). booked (dom_of t) (jobid meta) (vtx t u) (vtx t' u))"
  using update_books [OF assms] by blast

theorem update_keeps_books_witness:
  "\<exists>r t' w'. update 0 small_job small_trav [] = Some (r, t', w') \<and> books_ok t' \<and>
    (\<forall>u<2. booked ''containment'' 7 (vtx small_trav u) (vtx t' u))"
  using update_keeps_books [OF small_ok small_bookable, of 0 "[]"] small_white small_size small_sub(1) by (simp add: small_job_def)



text \<open>C30. Removing a job whose tag the root does not carry reports a failure although it erases the
  allocations of the job everywhere: the code of the exhaustive visit starts at -1 and never rises.\<close>

theorem dfu_remove_untagged_fails:
  assumes "om_find (dom_of (traverser f)) (roots (db_metadata (traverser f))) = Some rv" and "\<not> has_tag rv jid (traverser f)"
    and "length (g_vtxs (graph (traverser f))) < 2 ^ 31" and "dfu_remove jid f = Some (rc, f')"
  shows "rc = - 1 \<and> (\<forall>u<length (g_vtxs (graph (traverser f))). om_find jid (allocations (schedule (vtx (traverser f') u))) = None)"
proof -
  let ?t = "reset_color ((traverser f)\<lparr>m_preorder := 0, m_postorder := 0\<rparr>)"
  have g: "graph ?t = graph (traverser f)" by (simp add: reset_color_def)
  obtain t' where t': "mod_exv jid ?t = Some (rc, t')" "traverser f' = t'"
    using assms(1,2,4) g by (auto simp: dfu_remove_def with_root_def remove_def Let_def has_tag_def set_totals_def)
  then show ?thesis using mod_exv_fails [OF t'(1)] mod_exv_erases [OF t'(1)] assms(3) g by simp
qed

theorem dfu_remove_untagged_fails_witness:
  "\<exists>rc f'. dfu_remove 9 (small_dfu booked_trav) = Some (rc, f') \<and> rc = - 1 \<and>
     (\<forall>u<2. om_find 9 (allocations (schedule (vtx (traverser f') u))) = None)"
proof -
  have "case dfu_remove 9 (small_dfu booked_trav) of Some _ \<Rightarrow> \<not> has_tag 0 9 booked_trav | None \<Rightarrow> False" by code_simp
  then obtain rc f' where r: "dfu_remove 9 (small_dfu booked_trav) = Some (rc, f')" and "\<not> has_tag 0 9 booked_trav" by (auto split: option.split_asm)
  then show ?thesis
    using dfu_remove_untagged_fails [of "small_dfu booked_trav" 0 9 rc f'] booked_trav_ok(4,5) booked_roots by (simp add: small_dfu_def)
qed

text \<open>C31. An update whose root is taken exclusively but refused by the root's own planner still
  reports success, and the root does not carry the tag a later removal looks for.\<close>

theorem update_reports_refused:
  assumes "books_ok t" and "bookable meta t" and "rv < length (g_vtxs (graph t))" and "visited (dom_of t) (reset_color t) = {}"
    and "m_edge_seq (root_edge t) = m_sequence_number t" and "m_exclusive (root_edge t) \<noteq> 0"
    and "plans (schedule (vtx t rv)) = Some q" and "\<not> fits q (jm_at meta) (jm_duration meta) (u32 (m_needs (root_edge t)))"
  shows "\<exists>t' w'. update rv meta t w = Some (Inr 0, t', w') \<and> \<not> has_tag rv (jobid meta) t'"
  using assms by (rule update_refused)

definition greedy_trav :: trav where
  "greedy_trav = upd_metadata (\<lambda>m. m\<lparr>v_rt_edges := [(''containment'', chosen_edge\<lparr>m_needs := 2\<rparr>)]\<rparr>) small_trav"

theorem update_reports_refused_witness:
  "\<exists>t' w'. update 0 small_job greedy_trav [] = Some (Inr 0, t', w') \<and> \<not> has_tag 0 7 t'"
proof -
  have g: "graph greedy_trav = graph small_trav" "m_match greedy_trav = m_match small_trav" "m_color greedy_trav = m_color small_trav"
    "m_sequence_number greedy_trav = 0" by (simp_all add: greedy_trav_def upd_metadata_def small_trav_def)
  have r: "root_edge greedy_trav = chosen_edge\<lparr>m_needs := 2\<rparr>" by code_simp
  have "graph_ok greedy_trav"
    using small_ok g by (simp add: books_ok_def graph_ok_def source_def target_def greedy_trav_def upd_metadata_def)
  then have "books_ok greedy_trav" using small_ok g by (simp add: books_ok_def)
  moreover have "bookable small_job greedy_trav" using small_bookable g by (simp add: bookable_def has_tag_def)
  moreover have "visited (dom_of greedy_trav) (reset_color greedy_trav) = {}" using small_white g by (simp add: visited_def reset_color_def)
  moreover obtain q where "one_unit = Some q" "m_total_resources q = 1" using units_ok by metis
  moreover have "plans (schedule (vtx greedy_trav 0)) = one_unit" using g small_vtx [of 0] by (simp add: pool_of_def new_schedule_def)
  ultimately show ?thesis
    using update_reports_refused [of greedy_trav small_job 0 q "[]"] g small_size r
    by (simp add: small_job_def chosen_edge_def fits_def u32_def)
qed

section \<open>Selecting\<close>

lemma vertex_ok_bare: "vertex_ok s (bare v) = vertex_ok s v"
  by (simp add: vertex_ok_def bare_def Let_def)

lemma vertices_ok_bare:
  assumes "map bare vs' = map bare vs" and "\<forall>x<length vs. vertex_ok s (vs ! x)"
  shows "\<forall>x<length vs'. vertex_ok s (vs' ! x)"
  using assms by (metis length_map nth_map vertex_ok_bare)

text \<open>The fields of the traverser that the marking of the root leaves.\<close>

lemma mark_root_fields [simp]:
  "graph (mark_root s n x t) = graph t" "m_match (mark_root s n x t) = m_match t" "m_sequence_number (mark_root s n x t) = m_sequence_number t"
  "(db_metadata (mark_root s n x t))\<lparr>v_rt_edges := es\<rparr> = (db_metadata t)\<lparr>v_rt_edges := es\<rparr>"
  "by_outedges (db_metadata (mark_root s n x t)) = by_outedges (db_metadata t)"
  by (simp_all add: mark_root_def Let_def)

lemma select_run:
  assumes "select lib rs rv meta x t = Some (r, t')"
  obtains t1 where "survives ((tick t)\<lparr>m_preorder := 0, m_postorder := 0\<rparr>) t1" and "t' = t1 \<or> (\<exists>s n y. t' = mark_root s n y t1)"
proof -
  let ?t = "(tick t)\<lparr>m_preorder := 0, m_postorder := 0\<rparr>"
  obtain q y d ta where a: "dom_dfv (Suc (2 * length (g_vtxs (graph ?t)))) lib meta rv rs True x new_scoring ?t = Some (q, y, d, ta)"
      and b: "t' = ta \<or> (\<exists>d ok n tb. resolve_graph lib rv rs d ta = Some (ok, n, tb) \<and> t' = mark_root (dom_of t) n y tb)"
    using assms by (auto simp: select_def Let_def simp del: dom_dfv.simps elim!: runE) blast
  have ta: "survives ?t ta" using kept.keepsD [OF kept.dom_dfv_keeps a] .
  show thesis
  proof (cases "t' = ta")
    case False
    then obtain d ok n tb where "resolve_graph lib rv rs d ta = Some (ok, n, tb)" "t' = mark_root (dom_of t) n y tb" using b by blast
    then show ?thesis using that [of tb] kept.resolve_graph_rel survives_trans [OF ta] by blast
  qed (use that [of ta] ta in blast)
qed

text \<open>C32. A selection writes nothing that a job or an operator has entered: the vertices keep all but
  colors and labels, the edges all but their marks, the indices all but the edge of the root, the policy
  its settings; every edge that changed carries the new sequence number, and the books stay in order.\<close>

theorem select_keeps:
  assumes "select lib rs rv meta x t = Some (r, t')"
  shows "map bare (g_vtxs (graph t')) = map bare (g_vtxs (graph t))
    \<and> map unmarked (g_edgs (graph t')) = map unmarked (g_edgs (graph t))
    \<and> m_sequence_number t' = u64 (m_sequence_number t + 1)
    \<and> (\<forall>e<length (g_edgs (graph t)). g_edgs (graph t') ! e = g_edgs (graph t) ! e
          \<or> m_edge_seq (edge_idata (g_edgs (graph t') ! e)) = m_sequence_number t')
    \<and> (db_metadata t')\<lparr>v_rt_edges := v_rt_edges (db_metadata t)\<rparr> = db_metadata t
    \<and> data_of (m_match t') = data_of (m_match t) \<and> util_of (m_match t') = util_of (m_match t)
    \<and> (books_ok t \<longrightarrow> books_ok t')"
proof -
  let ?t = "(tick t)\<lparr>m_preorder := 0, m_postorder := 0\<rparr>"
  obtain t1 where s: "survives ?t t1" and m: "t' = t1 \<or> (\<exists>s n y. t' = mark_root s n y t1)" using select_run [OF assms] .
  have g: "graph t' = graph t1" "m_match t' = m_match t1" "m_sequence_number t' = m_sequence_number t1"
      "(db_metadata t')\<lparr>v_rt_edges := es\<rparr> = (db_metadata t1)\<lparr>v_rt_edges := es\<rparr>" "by_outedges (db_metadata t') = by_outedges (db_metadata t1)" for es
    using m by auto
  have t: "graph ?t = graph t" "m_match ?t = m_match t" "db_metadata ?t = db_metadata t" "m_sequence_number ?t = u64 (m_sequence_number t + 1)"
    by (simp_all add: tick_def)
  have keep: "map bare (g_vtxs (graph t')) = map bare (g_vtxs (graph t))" "data_of (m_match t') = data_of (m_match t)"
      "db_metadata t1 = db_metadata t" using s g t by (simp_all add: survives_def)
  have "graph_ok t1 = graph_ok t" using survives_ok(1) [OF s] t(1,3) by (simp add: graph_ok_def source_def target_def)
  then have "graph_ok t' = graph_ok t" using g(1,5) by (simp add: graph_ok_def source_def target_def)
  then have "books_ok t \<longrightarrow> books_ok t'" using vertices_ok_bare [OF keep(1)] keep(2) by (simp add: books_ok_def)
  then show ?thesis using s g t keep(3) by (simp add: survives_def)
qed


text \<open>A request for the node of the small cluster.\<close>

definition small_lib :: walk_lib where
  "small_lib = \<lparr>hostlist_find = (\<lambda>_ _. False), idset_test = (\<lambda>_ _. False), lib_sort = sort_by, lib_icl = (\<lambda>_ _. (0, 1))\<rparr>"

definition small_request :: "resource list" where
  "small_request = [Resource ''cluster'' \<lparr>count_min = 1, count_max = 1, count_oper = CHR ''+'', count_operand = 1\<rparr> [] [] [] UNSPECIFIED
     [Resource ''node'' \<lparr>count_min = 1, count_max = 1, count_oper = CHR ''+'', count_operand = 1\<rparr> [] [] [] TRUE [] []] []]"

lemma selection_evaluates:
  "case select small_lib small_request 0 small_job False small_trav of
     Some (Inr _, t) \<Rightarrow> m_edge_seq (edge_idata (g_edgs (graph t) ! 0)) = 1 | _ \<Rightarrow> False"
  by code_simp

theorem select_keeps_witness:
  "\<exists>k t'. select small_lib small_request 0 small_job False small_trav = Some (Inr k, t') \<and> books_ok t' \<and> m_sequence_number t' = 1 \<and>
     map bare (g_vtxs (graph t')) = map bare (g_vtxs (graph small_trav)) \<and> m_edge_seq (edge_idata (g_edgs (graph t') ! 0)) = m_sequence_number t'"
proof -
  obtain k t' where s: "select small_lib small_request 0 small_job False small_trav = Some (Inr k, t')" "m_edge_seq (edge_idata (g_edgs (graph t') ! 0)) = 1"
    using selection_evaluates by (auto split: option.split_asm prod.split_asm sum.split_asm)
  have "m_sequence_number small_trav = 0" by (simp add: small_trav_def)
  then show ?thesis using select_keeps [OF s(1)] small_ok s by (simp add: u64_def)
qed


section \<open>Priming\<close>


definition tracking :: trav where
  "tracking = reset_color (small_trav\<lparr>m_match := upd_util (set_pruning_type ''containment'' ''cluster'' ''node'') small_policy\<rparr>)"


text \<open>C39. Priming a request counts it through: for each tracked type the aggregate grows by what the
  request asks for at its minimum, products over the levels included, and every level of the request
  carries the demand below it.\<close>

theorem prime_request_demand:
  assumes "prime_jobspec s rs m util = (rs', m', util')" and "fresh_request rs" and "om_ok m"
    and "\<forall>ty. is_pruning_type s ty util \<longrightarrow> 0 \<le> amount ty m \<and> demand ty rs < 2 ^ 32 \<and> amount ty m + demand ty rs < 2 ^ 63"
  shows "(\<forall>ty. amount ty m' = amount ty m + (if is_pruning_type s ty util then demand ty rs else 0)) \<and>
    augmented (\<lambda>ty. is_pruning_type s ty util) rs rs'"
  using assms by (rule prime_jobspec_demand)

theorem prime_request_demand_witness:
  "\<exists>rs' m' util'. prime_jobspec ''containment'' small_request [] (util_of (m_match tracking)) = (rs', m', util') \<and> amount ''node'' m' = 1 \<and>
     amount ''cluster'' m' = 0"
proof -
  obtain rs' m' util' where p: "prime_jobspec ''containment'' small_request [] (util_of (m_match tracking)) = (rs', m', util')" by (metis prod_cases3)
  have t: "is_pruning_type ''containment'' ''node'' (util_of (m_match tracking))" "\<not> is_pruning_type ''containment'' ''cluster'' (util_of (m_match tracking))"
    by code_simp+
  have f: "fresh_request small_request" by code_simp
  have d: "demand ty small_request = (if ty = ''cluster'' then 1 else 0) + (if ty = ''node'' then 1 else 0)" for ty by (simp add: small_request_def)
  show ?thesis using prime_request_demand [OF p f] p t by (simp add: d)
qed

section \<open>Slots\<close>

text \<open>C40. Packing delivers as many slots as counting announced: the number of slots is the greatest
  that the groups of every request fill, each slot then holds for every request at least what the slot
  needs of it, and the slots use the groups of a type whole, in order and none twice.\<close>

theorem slots_packed_as_counted:
  assumes "score_maps_ok d" and "distinct (map res_type rs)"
    and "\<forall>r\<in>set rs. at_start s d r \<and> countable (request_count r) \<and> 0 \<le> qual s (res_type r) d \<and> qual s (res_type r) d < 2 ^ 32"
  shows "\<exists>q d' gs parts. cnt_slot s rs d = Some (q, d') \<and>
           (\<forall>x. x \<le> q \<longleftrightarrow> x < 2 ^ 32 \<and> (\<forall>r\<in>set rs. x \<le> slots_of s d r)) \<and>
           pack_slots (nat q) s rs [] d' = Some (Some gs) \<and> length gs = nat q \<and> list_all2 (slot_of s d rs) gs parts \<and>
           (\<forall>k<length rs. \<exists>m. uses (concat (map (\<lambda>p. p ! k) parts)) (take m (m_eval_egroups (entry s (res_type (rs ! k)) d))))"
  using assms by (rule pack_as_counted)

definition two_cores :: "nat \<Rightarrow> eval_egroup" where
  "two_cores n = (egroup 5 2 0 0 False)\<lparr>edges := [\<lparr>edg_count = 2, edg_needs = 0, edg_exclusive = 0, edge = n\<rparr>]\<rparr>"

definition slot_scores :: scoring where
  "slot_scores = snd (scoring_add ''containment'' ''core'' (two_cores 1) (snd (scoring_add ''containment'' ''core'' (two_cores 0) new_scoring)))"

definition slot_request :: resource where
  "slot_request = Resource ''core'' \<lparr>count_min = 2, count_max = 2, count_oper = CHR ''+'', count_operand = 1\<rparr> [] [] [] UNSPECIFIED [] []"

theorem slots_packed_as_counted_witness:
  "\<exists>d' gs. cnt_slot ''containment'' [slot_request] slot_scores = Some (2, d') \<and> length gs = 2 \<and>
     pack_slots 2 ''containment'' [slot_request] [] d' = Some (Some gs)"
proof -
  have m: "score_maps_ok slot_scores"
    unfolding slot_scores_def by (rule scores_okD(1)) (intro scores_ok_add scores_ok_new; simp add: two_cores_def egroup_def)
  have e: "entry ''containment'' ''core'' slot_scores = new_evals\<lparr>m_eval_egroups := [two_cores 0, two_cores 1], m_total_count := 4, m_qual_count := 4\<rparr>"
    by code_simp
  have st: "at_start ''containment'' slot_scores slot_request"
    by (simp add: at_start_def slot_request_def e has_edges_def granule_def two_cores_def new_evals_def)
  have q: "qual ''containment'' ''core'' slot_scores = 4" by (simp add: qual_def e)
  have c: "countable (request_count slot_request)" by (auto simp: slot_request_def valid_count_def intro!: countable_plus)
  have n: "slots_of ''containment'' slot_scores slot_request = 2" by code_simp
  obtain k d' gs where k: "cnt_slot ''containment'' [slot_request] slot_scores = Some (k, d')" "\<forall>x. x \<le> k \<longleftrightarrow> x < 2 ^ 32 \<and> x \<le> 2"
      "pack_slots (nat k) ''containment'' [slot_request] [] d' = Some (Some gs)" "length gs = nat k"
    using slots_packed_as_counted [OF m, of "[slot_request]" "''containment''"] st q c n by (auto simp: slot_request_def)
  moreover have "k = 2" using k(2) [rule_format, of k] k(2) [rule_format, of 2] by simp
  ultimately show ?thesis by auto
qed

end
