(* ===== verification/Queue_FCFS.thy ===== *)
theory Queue_FCFS
  imports Queue_Params
begin

text \<open>
  The first-come first-served policy (\<^verbatim>\<open>src/qmanager/policies/queue_policy_fcfs.hpp\<close>,
  \<^verbatim>\<open>queue_policy_fcfs_impl.hpp\<close>). Its iterator \<^verbatim>\<open>m_iter\<close> is the base record's
  \<open>m_in_progress_iter\<close>. Running the loop sends the first jobs to the resource service; the
  answers come back one by one as calls of the two handlers.
\<close>

record fcfs_queue = queue +
  m_queue_depth_limit :: bool

text \<open>The jobs packed and their number; \<^verbatim>\<open>m_jobs[id]\<close> of an unknown id is a null
  pointer, which is then dereferenced.\<close>

fun pack_loop :: "reapi \<Rightarrow> nat \<Rightarrow> job_map \<Rightarrow> 'a queue_scheme \<Rightarrow> (int \<times> string) list result option" where
  "pack_loop api n [] q = Some (Inr [])"
| "pack_loop api 0 (e # es) q = Some (Inr [])"
| "pack_loop api (Suc n) ((_, i) # es) q = do {
     j \<leftarrow> om_find i (m_jobs q);
     (if \<not> json_loads api (jobspec j) then Some (Inl ENOMEM)
      else do {
        r \<leftarrow> pack_loop api n es q;
        Some (map_sum id ((#) (job_id j, jobspec j)) r)
      })
   }"

definition pack_jobs :: "reapi \<Rightarrow> fcfs_queue \<Rightarrow> ((int \<times> string) list result \<times> fcfs_queue) option" where
  "pack_jobs api q = do {
     r \<leftarrow> pack_loop api (nat (m_queue_depth q)) (m_pending q) q;
     (case r of
        Inl e \<Rightarrow> Some (Inl e, q)
      | Inr jobs \<Rightarrow>
          Some (Inr jobs, if int (length jobs) = m_queue_depth q \<and> int (length (m_pending q)) \<noteq> m_queue_depth q
                          then q\<lparr>m_queue_depth_limit := True\<rparr> else q))
   }"

text \<open>\<^verbatim>\<open>m_pending.insert (first, last)\<close> and \<^verbatim>\<open>clear ()\<close> of the provisional map.\<close>

definition take_provisional :: "'a queue_scheme \<Rightarrow> 'a queue_scheme" where
  "take_provisional q = q\<lparr>m_pending := fst (om_merge (m_pending q) (m_pending_provisional q)),
     m_pending_provisional := []\<rparr>"

definition allocate_jobs :: "reapi \<Rightarrow> fcfs_queue \<Rightarrow> (int \<times> fcfs_queue) option" where
  "allocate_jobs api q = do {
     let q = take_provisional q;
     let q = q\<lparr>m_in_progress_iter := om_begin (m_pending q)\<rparr>;
     (if m_pending q = [] then Some (0, q)
      else do {
        (r, q) \<leftarrow> pack_jobs api q;
        (case r of
           Inl _ \<Rightarrow> Some (- 1, q)
         | Inr jobs \<Rightarrow>
             (let q = (snd (set_sched_loop_active True q))\<lparr>sent := sent q @ [(False, jobs)]\<rparr>
              in if match_allocate_multi api False jobs < 0
                 then Some (- 1, snd (set_sched_loop_active False q))
                 else Some (0, q)))
      })
   }"

definition fcfs_run_sched_loop :: "reapi \<Rightarrow> fcfs_queue \<Rightarrow> (int \<times> fcfs_queue) option" where
  "fcfs_run_sched_loop api q =
     (if m_sched_loop_active q then Some (1, q) else allocate_jobs api (set_schedulability False q))"

text \<open>The answers carry \<^verbatim>\<open>status\<close>, the allocated set, the start and the overhead.\<close>

definition fcfs_handle_match_success ::
  "int \<Rightarrow> string \<Rightarrow> string \<Rightarrow> int \<Rightarrow> int \<Rightarrow> fcfs_queue \<Rightarrow> (int result \<times> fcfs_queue) option" where
  "fcfs_handle_match_success jobid status R at ov q =
     (if \<not> m_sched_loop_active q then Some (Inl EINVAL, q)
      else case m_in_progress_iter q of
             At k \<Rightarrow> do {
               i \<leftarrow> om_find k (m_pending q);
               j \<leftarrow> om_find i (m_jobs q);
               (if job_id j \<noteq> jobid then Some (Inl EINVAL, q)
                else do {
                  let q = modify_job i (\<lambda>j. j\<lparr>schedule_of := (schedule_of j)\<lparr>reserved := (status = ''RESERVED''),
                             sched_R := R, sched_at := at, sched_ov := ov, selection_type := IMMEDIATE\<rparr>\<rparr>) q;
                  (it, q) \<leftarrow> to_running k True q;
                  Some (Inr 0, q\<lparr>m_in_progress_iter := it\<rparr>)
                })
             }
           | _ \<Rightarrow> None)"

definition fcfs_handle_match_failure :: "errno \<Rightarrow> fcfs_queue \<Rightarrow> (int result \<times> fcfs_queue) option" where
  "fcfs_handle_match_failure errcode q =
     (if \<not> m_sched_loop_active q then Some (Inl EINVAL, q)
      else do {
        q \<leftarrow> (if errcode \<noteq> EBUSY \<and> errcode \<noteq> ENODATA
             then (case m_in_progress_iter q of
                     At k \<Rightarrow> map_option (\<lambda>(it, q). q\<lparr>m_in_progress_iter := it\<rparr>)
                       (to_rejected k (if errcode = ENODEV then ''unsatisfiable'' else ''match error'') q)
                   | _ \<Rightarrow> None)
             else Some q);
        let q = (if errcode = ENODEV then set_schedulability True q
                 else if errcode = ENODATA \<and> m_queue_depth_limit q
                 then (set_schedulability True q)\<lparr>m_queue_depth_limit := False\<rparr>
                 else q);
        Some (Inr 0, (snd (set_sched_loop_active False q))\<lparr>m_scheduled := True\<rparr>)
      })"

text \<open>The methods the policy inherits, with its own virtual methods in place.\<close>

definition fcfs_remove :: "reapi \<Rightarrow> int \<Rightarrow> bool \<Rightarrow> string \<Rightarrow> fcfs_queue \<Rightarrow> int result \<times> fcfs_queue" where
  "fcfs_remove = q_remove cancel_sched_loop"

definition fcfs_remove_pending :: "int \<Rightarrow> fcfs_queue \<Rightarrow> int result \<times> fcfs_queue" where
  "fcfs_remove_pending = remove_pending cancel_sched_loop"

definition fcfs_reprioritize :: "int \<Rightarrow> int \<Rightarrow> fcfs_queue \<Rightarrow> int result \<times> fcfs_queue" where
  "fcfs_reprioritize = pending_reprioritize cancel_sched_loop"

definition fcfs_apply_params :: "fcfs_queue \<Rightarrow> int \<times> fcfs_queue" where
  "fcfs_apply_params = apply_params"

end
