(* ===== verification/Queue_Backfill.thy ===== *)
theory Queue_Backfill
  imports Queue_FCFS
begin

text \<open>
  The backfilling policies (\<^verbatim>\<open>src/qmanager/policies/queue_policy_bf_base.hpp\<close>,
  \<^verbatim>\<open>queue_policy_bf_base_impl.hpp\<close>) and the three policies derived from them, which
  differ in how many jobs may hold a reservation: \<^verbatim>\<open>easy\<close> one,
  \<^verbatim>\<open>hybrid\<close> a parameter, \<^verbatim>\<open>conservative\<close> as many as the queue is deep.
  The loop asks the resource service about one job at a time; each answer moves the iterator
  on and asks about the next.
\<close>

record bf_queue = queue +
  m_reservation_depth :: int
  m_max_reservation_depth :: int
  m_reserved :: "(int, int) omap"
  m_reservation_cnt :: int
  m_scheduled_cnt :: int
  m_try_reserve :: bool

definition MAX_RESERVATION_DEPTH :: int where
  "MAX_RESERVATION_DEPTH = 100000"

definition HYBRID_RESERVATION_DEPTH :: int where
  "HYBRID_RESERVATION_DEPTH = 64"

section \<open>The loop\<close>

definition cancel_reserved_jobs :: "reapi \<Rightarrow> bf_queue \<Rightarrow> int \<times> bf_queue" where
  "cancel_reserved_jobs api q =
     (sum_list (map (\<lambda>(_, i). reapi_cancel api i False) (m_reserved q)), q\<lparr>m_reserved := []\<rparr>)"

text \<open>The counters are \<^verbatim>\<open>int\<close> and compared with \<^verbatim>\<open>unsigned int\<close> depths. A
  singular iterator may not be compared.\<close>

definition next_match_iter :: "reapi \<Rightarrow> bf_queue \<Rightarrow> (int result \<times> bf_queue) option" where
  "next_match_iter api q =
     (let reached_queue_depth = u32 (m_scheduled_cnt q) \<ge> m_queue_depth q
      in case m_in_progress_iter q of
           Singular \<Rightarrow> None
         | End \<Rightarrow> Some (Inr 0, snd (set_sched_loop_active False q))
         | At k \<Rightarrow>
             (if reached_queue_depth then
                (let q = snd (set_sched_loop_active False q)
                 in Some (Inr 0, if m_scheduled q then set_schedulability True q else q))
              else do {
                i \<leftarrow> om_find k (m_pending q);
                j \<leftarrow> om_find i (m_jobs q);
                let q = q\<lparr>m_try_reserve := u32 (m_reservation_cnt q) < m_reservation_depth q\<rparr>;
                (if \<not> json_loads api (jobspec j) then Some (Inl ENOMEM, q)
                 else
                   (let jobs = [(job_id j, jobspec j)]; q = q\<lparr>sent := sent q @ [(m_try_reserve q, jobs)]\<rparr>;
                        rc = match_allocate_multi api (m_try_reserve q) jobs
                    in Some (if rc < 0 then Inl UNSET else Inr rc, q)))
              }))"

definition allocate_orelse_reserve_jobs :: "reapi \<Rightarrow> bf_queue \<Rightarrow> (int result \<times> bf_queue) option" where
  "allocate_orelse_reserve_jobs api q =
     (if m_sched_loop_active q then Some (Inr 0, q)
      else
        (let q = take_provisional q;
             q = q\<lparr>m_in_progress_iter := om_begin (m_pending q), m_reservation_cnt := 0, m_scheduled_cnt := 0\<rparr>
         in next_match_iter api (snd (set_sched_loop_active True q))))"

definition bf_run_sched_loop :: "reapi \<Rightarrow> bf_queue \<Rightarrow> (int result \<times> bf_queue) option" where
  "bf_run_sched_loop api q =
     (if m_sched_loop_active q then allocate_orelse_reserve_jobs api q
      else
        (let (rc, q) = cancel_reserved_jobs api (set_schedulability False q)
         in if rc \<noteq> 0 then Some (if rc < 0 then Inl UNSET else Inr rc, q)
            else allocate_orelse_reserve_jobs api q))"

definition bf_cancel_sched_loop :: "bf_queue \<Rightarrow> int \<times> bf_queue" where
  "bf_cancel_sched_loop q =
     (if \<not> m_sched_loop_active q then (0, q) else (- 1, q\<lparr>m_scheduled_cnt := i32 (m_queue_depth q)\<rparr>))"

section \<open>The answers\<close>

text \<open>How an allocated job was started.\<close>

definition selection_of :: "job \<Rightarrow> bf_queue \<Rightarrow> job_selection_type" where
  "selection_of j q =
     (if was_reserved (schedule_of j) then RESERVED
      else if m_reservation_cnt q > 0 then BACKFILL else IMMEDIATE)"

definition reserve_job :: "int \<Rightarrow> pending_key \<Rightarrow> bf_queue \<Rightarrow> bf_queue option" where
  "reserve_job i k q = do {
     nxt \<leftarrow> om_next (At k) (m_pending q);
     let q = modify_job i (\<lambda>j. j\<lparr>schedule_of := (schedule_of j)\<lparr>was_reserved := True, selection_type := RESERVED\<rparr>\<rparr>) q;
     Some (q\<lparr>m_reserved := fst (om_insert (m_oq_cnt q) i (m_reserved q)), m_oq_cnt := u64 (m_oq_cnt q + 1),
             m_reservation_cnt := m_reservation_cnt q + 1, m_in_progress_iter := nxt, m_scheduled := True\<rparr>)
   }"

definition bf_handle_match_success ::
  "reapi \<Rightarrow> int \<Rightarrow> string \<Rightarrow> string \<Rightarrow> int \<Rightarrow> int \<Rightarrow> bf_queue \<Rightarrow> (int result \<times> bf_queue) option" where
  "bf_handle_match_success api jobid status R at ov q =
     (if \<not> m_sched_loop_active q then Some (Inl EINVAL, q)
      else case m_in_progress_iter q of
             At k \<Rightarrow> do {
               i \<leftarrow> om_find k (m_pending q);
               (case om_find i (m_jobs q) of
                  None \<Rightarrow> Some (Inl ENOENT, q)
                | Some j \<Rightarrow>
                    (if job_id j \<noteq> jobid then Some (Inl EINVAL, q)
                     else do {
                       let q = modify_job i (\<lambda>j. j\<lparr>schedule_of := (schedule_of j)\<lparr>reserved := (status = ''RESERVED''),
                                  sched_R := R, sched_old_at := sched_at (schedule_of j), sched_at := at, sched_ov := ov\<rparr>\<rparr>) q;
                       q \<leftarrow> (if status = ''RESERVED'' then reserve_job (job_id j) k q
                            else do {
                              let st = selection_of j q;
                              let q = modify_job i (\<lambda>j. j\<lparr>schedule_of := (schedule_of j)\<lparr>selection_type := st\<rparr>\<rparr>) q;
                              (it, q) \<leftarrow> to_running k True q;
                              Some (q\<lparr>m_in_progress_iter := it\<rparr>)
                            });
                       next_match_iter api (q\<lparr>m_scheduled_cnt := m_scheduled_cnt q + 1\<rparr>)
                     }))
             }
           | _ \<Rightarrow> None)"

text \<open>A job that can be neither started nor reserved loses its estimate; while reservations
  are tried it is blocked until resources change.\<close>

definition clear_estimate :: "int \<Rightarrow> job \<Rightarrow> bf_queue \<Rightarrow> bf_queue" where
  "clear_estimate i j q =
     (if sched_at (schedule_of j) \<noteq> 0 then
        (modify_job i (\<lambda>j. j\<lparr>schedule_of := (schedule_of j)\<lparr>sched_at := 0, selection_type := UNKNOWN,
           was_reserved := False\<rparr>\<rparr>) q)\<lparr>m_annotation_dirty := True\<rparr>
      else q)"

definition skip_busy :: "pending_key \<Rightarrow> int \<Rightarrow> bf_queue \<Rightarrow> (int result \<times> bf_queue) option" where
  "skip_busy k i q =
     (case om_find i (m_jobs q) of
        None \<Rightarrow> Some (Inl ENOENT, q)
      | Some j \<Rightarrow> do {
          let q = clear_estimate i j q;
          nxt \<leftarrow> om_next (At k) (m_pending q);
          let q = q\<lparr>m_in_progress_iter := nxt\<rparr>;
          Some (Inr 0, if m_try_reserve q
                       then (erase_pending k q)\<lparr>m_blocked := fst (om_insert k i (m_blocked q)),
                              m_scheduled_cnt := m_scheduled_cnt q - 1\<rparr>
                       else q)
        })"

definition bf_handle_match_failure :: "reapi \<Rightarrow> errno \<Rightarrow> bf_queue \<Rightarrow> (int result \<times> bf_queue) option" where
  "bf_handle_match_failure api errcode q =
     (if \<not> m_sched_loop_active q then Some (Inl EINVAL, q)
      else if errcode = ENODATA then Some (Inr 0, q)
      else case m_in_progress_iter q of
             At k \<Rightarrow> do {
               i \<leftarrow> om_find k (m_pending q);
               (r, q) \<leftarrow> (if errcode \<noteq> EBUSY
                  then map_option (\<lambda>(it, q). (Inr 0, q\<lparr>m_in_progress_iter := it\<rparr>))
                         (to_rejected k (if errcode = ENODEV then ''unsatisfiable'' else ''match error'') q)
                  else skip_busy k i q);
               (case r of
                  Inl e \<Rightarrow> Some (Inl e, q)
                | Inr _ \<Rightarrow> next_match_iter api (q\<lparr>m_scheduled_cnt := m_scheduled_cnt q + 1\<rparr>))
             }
           | _ \<Rightarrow> None)"

section \<open>Inherited methods with the policy's own virtual methods\<close>

definition bf_remove :: "reapi \<Rightarrow> int \<Rightarrow> bool \<Rightarrow> string \<Rightarrow> bf_queue \<Rightarrow> int result \<times> bf_queue" where
  "bf_remove = q_remove bf_cancel_sched_loop"

definition bf_remove_pending :: "int \<Rightarrow> bf_queue \<Rightarrow> int result \<times> bf_queue" where
  "bf_remove_pending = remove_pending bf_cancel_sched_loop"

definition bf_reprioritize :: "int \<Rightarrow> int \<Rightarrow> bf_queue \<Rightarrow> int result \<times> bf_queue" where
  "bf_reprioritize = pending_reprioritize bf_cancel_sched_loop"

definition bf_apply_params :: "bf_queue \<Rightarrow> int \<times> bf_queue" where
  "bf_apply_params q = (0, q)"

section \<open>The derived policies\<close>

definition easy_apply_params :: "bf_queue \<Rightarrow> int \<times> bf_queue" where
  "easy_apply_params = apply_params"

text \<open>A text that is no number, or out of range, throws; the exception is swallowed and the
  return code stays what it was.\<close>

definition hybrid_max_depth :: "int \<times> bf_queue \<Rightarrow> stoi_error + int \<times> bf_queue" where
  "hybrid_max_depth z = (case z of (rc, q) \<Rightarrow>
     (case om_find ''max-reservation-depth'' (m_pparams q) of
        None \<Rightarrow> Inr (rc, q)
      | Some s \<Rightarrow>
          (case stoi s of
             Inl e \<Rightarrow> Inl e
           | Inr depth \<Rightarrow> Inr (if depth < 1 then rc - 1 else rc, q\<lparr>m_max_reservation_depth := u32 depth\<rparr>))))"

definition hybrid_depth :: "int \<times> bf_queue \<Rightarrow> stoi_error + int \<times> bf_queue" where
  "hybrid_depth z = (case z of (rc, q) \<Rightarrow>
     (case om_find ''reservation-depth'' (m_pparams q) of
        None \<Rightarrow> Inr (rc, q)
      | Some s \<Rightarrow>
          (case stoi s of
             Inl e \<Rightarrow> Inl e
           | Inr depth \<Rightarrow> Inr (if depth < 1 then rc - 1 else rc,
               q\<lparr>m_reservation_depth := (if u32 depth < m_max_reservation_depth q then u32 depth
                                           else m_reservation_depth q)\<rparr>))))"

definition hybrid_apply_params :: "bf_queue \<Rightarrow> int \<times> bf_queue" where
  "hybrid_apply_params q =
     (let z = apply_params q
      in case hybrid_max_depth z of
           Inl _ \<Rightarrow> z
         | Inr z \<Rightarrow> (case hybrid_depth z of Inl _ \<Rightarrow> z | Inr z \<Rightarrow> z))"

definition conservative_apply_params :: "bf_queue \<Rightarrow> int \<times> bf_queue" where
  "conservative_apply_params q =
     (let (rc, q) = apply_params q;
          q = (if rc = 0 \<and> m_reservation_depth q > m_queue_depth q
               then q\<lparr>m_reservation_depth := m_queue_depth q\<rparr> else q)
      in case om_find ''max-reservation-depth'' (m_pparams q) of
           None \<Rightarrow> (rc, q)
         | Some s \<Rightarrow>
             (case stoi s of
                Inl _ \<Rightarrow> (rc, q)
              | Inr depth \<Rightarrow>
                  (if depth < 1 then - 1 else rc,
                   q\<lparr>m_max_reservation_depth := u32 depth,
                      m_reservation_depth := (if u32 depth < m_reservation_depth q then u32 depth
                                                else m_reservation_depth q)\<rparr>)))"

section \<open>The factory\<close>

datatype policy = Fcfs fcfs_queue | Easy bf_queue | Hybrid bf_queue | Conservative bf_queue

definition new_queue :: queue where
  "new_queue = \<lparr>m_schedulable = False, m_scheduled = False, m_annotation_dirty = False, m_sched_loop_active = False,
     m_pq_cnt = 0, m_rq_cnt = 0, m_dq_cnt = 0, m_cq_cnt = 0, m_oq_cnt = 0, m_cancel_cnt = 0, m_reprio_cnt = 0,
     m_queue_depth = DEFAULT_QUEUE_DEPTH, m_max_queue_depth = MAX_QUEUE_DEPTH,
     m_blocked = [], m_pending = [], m_pending_provisional = [], m_pending_cancel_provisional = [],
     m_pending_reconsider = False, m_pending_reprio_provisional = [], m_running = [], m_alloced = [],
     m_rejected = [], m_canceled = [], m_jobs = [], m_qparams = [], m_pparams = [],
     m_pending_iter = Singular, m_iter_valid = False, m_in_progress_iter = Singular, sent = []\<rparr>"

definition new_fcfs :: fcfs_queue where
  "new_fcfs = queue.extend new_queue (fcfs_queue.fields False)"

definition new_bf :: "int \<Rightarrow> bf_queue" where
  "new_bf depth = (queue.extend new_queue (bf_queue.fields depth MAX_RESERVATION_DEPTH [] 0 0 False))
     \<lparr>m_in_progress_iter := End\<rparr>"

definition create_queue_policy :: "string \<Rightarrow> string \<Rightarrow> policy option" where
  "create_queue_policy policy reapi =
     (if reapi \<noteq> ''module'' then None
      else if policy = ''fcfs'' then Some (Fcfs new_fcfs)
      else if policy = ''easy'' then Some (Easy (new_bf 1))
      else if policy = ''hybrid'' then Some (Hybrid (new_bf HYBRID_RESERVATION_DEPTH))
      else if policy = ''conservative'' then Some (Conservative (new_bf MAX_RESERVATION_DEPTH))
      else None)"

end
