(* ===== verification/Queue_Inv.thy ===== *)
theory Queue_Inv
  imports Queue_Backfill
begin

text \<open>
  Where the jobs of a queue are: each job the queue knows stands in the map of its state and
  in no other, and every entry of a map names such a job. The statements are about the maps
  as functions, so that each operation is one of a few abstract moves.
\<close>

section \<open>A map that tracks the jobs in some states\<close>

type_synonym jobs = "int \<rightharpoonup> job"

text \<open>The entries of the map are exactly the jobs in one of the states, each under its key.\<close>

definition tracks :: "('k \<rightharpoonup> int) \<Rightarrow> jobs \<Rightarrow> (job_state_kind \<Rightarrow> bool) \<Rightarrow> (job \<Rightarrow> 'k) \<Rightarrow> bool" where
  "tracks M J S f \<longleftrightarrow> (\<forall>k i. M k = Some i \<longleftrightarrow> (\<exists>j. J i = Some j \<and> S (job_state j) \<and> f j = k))"

text \<open>Every entry is such a job.\<close>

definition within :: "('k \<rightharpoonup> int) \<Rightarrow> jobs \<Rightarrow> (job_state_kind \<Rightarrow> bool) \<Rightarrow> (job \<Rightarrow> 'k) \<Rightarrow> bool" where
  "within M J S f \<longleftrightarrow> (\<forall>k i. M k = Some i \<longrightarrow> (\<exists>j. J i = Some j \<and> S (job_state j) \<and> f j = k))"

lemma tracksD:
  assumes "tracks M J S f" and "J i = Some j" and "S (job_state j)"
  shows "M (f j) = Some i"
  using assms by (auto simp: tracks_def)

lemma tracksE:
  assumes "tracks M J S f" and "M k = Some i"
  obtains j where "J i = Some j" and "S (job_state j)" and "f j = k"
  using assms by (auto simp: tracks_def)

lemma tracks_other:
  assumes "tracks M J S f" and "\<And>j. J i = Some j \<Longrightarrow> \<not> S (job_state j)" and "\<not> S (job_state j')"
  shows "tracks M (J(i \<mapsto> j')) S f"
  using assms by (auto simp: tracks_def)

lemma tracks_same:
  assumes "tracks M J S f" and "J i = Some j" and "S (job_state j)" "S (job_state j')" "f j' = f j"
  shows "tracks M (J(i \<mapsto> j')) S f"
  using assms by (auto simp: tracks_def)

lemma tracks_enter:
  assumes "tracks M J S f" and "\<And>j. J i = Some j \<Longrightarrow> \<not> S (job_state j)" and "S (job_state j')" and "M (f j') = None"
  shows "tracks (M(f j' \<mapsto> i)) (J(i \<mapsto> j')) S f"
proof -
  have 1: "f j \<noteq> f j'" if "J k = Some j" "S (job_state j)" for k j using tracksD [OF assms(1) that] assms(4) by auto
  show ?thesis
    unfolding tracks_def
  proof (intro allI)
    fix k i'
    show "(M(f j' \<mapsto> i)) k = Some i' \<longleftrightarrow> (\<exists>j''. (J(i \<mapsto> j')) i' = Some j'' \<and> S (job_state j'') \<and> f j'' = k)"
      using 1 [of i'] assms(1) [unfolded tracks_def, rule_format, of k i'] assms(2-)
      by (cases "i' = i") auto
  qed
qed

lemma tracks_key:
  assumes "tracks M J S f" and "J i = Some j" and "S (job_state j)" and "J k = Some j'" "S (job_state j')" "f j' = f j"
  shows "k = i"
  using tracksD [OF assms(1,4,5)] tracksD [OF assms(1-3)] assms(6) by simp

lemma tracks_leave:
  assumes "tracks M J S f" and "J i = Some j" and "S (job_state j)" "\<not> S (job_state j')"
  shows "tracks (M(f j := None)) (J(i \<mapsto> j')) S f"
proof -
  show ?thesis
    unfolding tracks_def
  proof (intro allI)
    fix k i'
    show "(M(f j := None)) k = Some i' \<longleftrightarrow> (\<exists>j''. (J(i \<mapsto> j')) i' = Some j'' \<and> S (job_state j'') \<and> f j'' = k)"
      using tracks_key [OF assms(1-3), of i'] assms(1) [unfolded tracks_def, rule_format, of k i'] assms(2-)
      by (cases "i' = i") auto
  qed
qed

lemma tracks_drop:
  assumes "tracks M J S f" and "J i = Some j" and "S (job_state j)"
  shows "tracks (M(f j := None)) (J(i := None)) S f"
proof -
  show ?thesis
    unfolding tracks_def
  proof (intro allI)
    fix k i'
    show "(M(f j := None)) k = Some i' \<longleftrightarrow> (\<exists>j''. (J(i := None)) i' = Some j'' \<and> S (job_state j'') \<and> f j'' = k)"
      using tracks_key [OF assms(1-3), of i'] assms(1) [unfolded tracks_def, rule_format, of k i'] assms(2-)
      by (cases "i' = i") auto
  qed
qed

lemma tracks_drop_other:
  assumes "tracks M J S f" and "\<And>j. J i = Some j \<Longrightarrow> \<not> S (job_state j)"
  shows "tracks M (J(i := None)) S f"
  using assms by (auto simp: tracks_def)

lemma tracks_rekey:
  assumes "tracks M J S f" and "J i = Some j" and "S (job_state j)" "S (job_state j')" and "(M(f j := None)) (f j') = None"
  shows "tracks ((M(f j := None))(f j' \<mapsto> i)) (J(i \<mapsto> j')) S f"
proof -
  note 1 = tracks_key [OF assms(1-3)]
  have 2: "k = i" if "J k = Some j''" "S (job_state j'')" "f j'' = f j'" for k j''
    using tracksD [OF assms(1) that(1,2)] 1 [OF that(1,2)] that(3) assms(5) by (auto split: if_splits)
  show ?thesis
    unfolding tracks_def
  proof (intro allI)
    fix k i'
    show "((M(f j := None))(f j' \<mapsto> i)) k = Some i' \<longleftrightarrow> (\<exists>j''. (J(i \<mapsto> j')) i' = Some j'' \<and> S (job_state j'') \<and> f j'' = k)"
      using 1 [of i'] 2 [of i'] assms(1) [unfolded tracks_def, rule_format, of k i'] assms(2-4)
      by (cases "i' = i") auto
  qed
qed

lemma within_other:
  assumes "within M J S f" and "\<And>j. J i = Some j \<Longrightarrow> \<not> S (job_state j)"
  shows "within M (J(i \<mapsto> j')) S f" and "within M (J(i := None)) S f"
  using assms by (force simp: within_def)+

lemma within_same:
  assumes "within M J S f" and "J i = Some j" and "S (job_state j')" "f j' = f j"
  shows "within M (J(i \<mapsto> j')) S f"
  using assms by (fastforce simp: within_def)

lemma within_enter:
  assumes "within M J S f" and "\<And>j. J i = Some j \<Longrightarrow> \<not> S (job_state j)" and "S (job_state j')"
  shows "within (M(f j' \<mapsto> i)) (J(i \<mapsto> j')) S f"
  using assms by (fastforce simp: within_def)

lemma within_less: "within M J S f \<Longrightarrow> within (M(k := None)) J S f"
  by (auto simp: within_def)

lemma within_drop:
  assumes "within M J S f" and "J i = Some j"
  shows "within (M(f j := None)) (J(i := None)) S f"
  using assms by (fastforce simp: within_def)

lemma tracks_keep:
  assumes "tracks M J S f" and "J i = Some j" and "job_state j' = job_state j" and "S (job_state j) \<Longrightarrow> f j' = f j"
  shows "tracks M (J(i \<mapsto> j')) S f"
  using tracks_same [OF assms(1,2), of j'] tracks_other [OF assms(1), of i j'] assms by (cases "S (job_state j)") auto

lemma within_keep:
  assumes "within M J S f" and "J i = Some j" and "job_state j' = job_state j" and "f j' = f j"
  shows "within M (J(i \<mapsto> j')) S f"
  using within_same [OF assms(1,2), of j'] within_other(1) [OF assms(1), of i j'] assms by (cases "S (job_state j)") auto

section \<open>All the maps of a queue\<close>

definition running_state :: "job_state_kind \<Rightarrow> bool" where
  "running_state s \<longleftrightarrow> s = RUNNING \<or> s = ALLOC_RUNNING"

abbreviation run_key :: "job \<Rightarrow> int" where
  "run_key j \<equiv> running_ts (stamps j)"

definition core_inv :: "jobs \<Rightarrow> (pending_key \<rightharpoonup> int) \<Rightarrow> (int \<rightharpoonup> int) \<Rightarrow> (int \<rightharpoonup> int) \<Rightarrow> (int \<rightharpoonup> int) \<Rightarrow> (int \<rightharpoonup> int) \<Rightarrow> bool" where
  "core_inv J P R A D C \<longleftrightarrow>
     (\<forall>i j. J i = Some j \<longrightarrow> job_id j = i \<and> job_state j \<noteq> INIT \<and> job_state j \<noteq> COMPLETE)
     \<and> tracks P J ((=) PENDING) get_key
     \<and> tracks R J running_state run_key
     \<and> within A J ((=) ALLOC_RUNNING) run_key
     \<and> within D J ((=) REJECTED) (\<lambda>j. rejected_ts (stamps j))
     \<and> tracks C J ((=) CANCELED) (\<lambda>j. canceled_ts (stamps j))
     \<and> inj_on (\<lambda>i. map_option (\<lambda>j. pending_ts (stamps j)) (J i)) {i. \<exists>j. J i = Some j \<and> job_state j = PENDING}"

lemmas core_simps = core_inv_def running_state_def

lemma core_empty: "core_inv Map.empty Map.empty Map.empty Map.empty Map.empty Map.empty"
  by (simp add: core_inv_def tracks_def within_def)

lemma coreD:
  assumes "core_inv J P R A D C"
  shows "\<And>i j. J i = Some j \<Longrightarrow> job_id j = i" and "tracks P J ((=) PENDING) get_key"
    and "tracks R J running_state run_key" and "within A J ((=) ALLOC_RUNNING) run_key"
    and "within D J ((=) REJECTED) (\<lambda>j. rejected_ts (stamps j))"
    and "tracks C J ((=) CANCELED) (\<lambda>j. canceled_ts (stamps j))"
    and "\<And>i j. J i = Some j \<Longrightarrow> job_state j \<noteq> INIT \<and> job_state j \<noteq> COMPLETE"
    and "\<And>i i' j j'. J i = Some j \<Longrightarrow> J i' = Some j' \<Longrightarrow> job_state j = PENDING \<Longrightarrow> job_state j' = PENDING
          \<Longrightarrow> pending_ts (stamps j) = pending_ts (stamps j') \<Longrightarrow> i = i'"
proof -
  fix i i' j j'
  assume a: "J i = Some j" "J i' = Some j'" "job_state j = PENDING" "job_state j' = PENDING"
    "pending_ts (stamps j) = pending_ts (stamps j')"
  have "inj_on (\<lambda>i. map_option (\<lambda>j. pending_ts (stamps j)) (J i)) {i. \<exists>j. J i = Some j \<and> job_state j = PENDING}"
    using assms by (simp add: core_inv_def)
  then show "i = i'" by (rule inj_onD) (use a in auto)
qed (use assms in \<open>auto simp: core_inv_def\<close>)

lemma stamps_inj_upd:
  assumes "core_inv J P R A D C"
    and "job_state j' = PENDING \<Longrightarrow> (\<exists>j. J i = Some j \<and> job_state j = PENDING \<and> pending_ts (stamps j') = pending_ts (stamps j))
      \<or> (\<forall>i' j. J i' = Some j \<and> job_state j = PENDING \<longrightarrow> pending_ts (stamps j) \<noteq> pending_ts (stamps j'))"
  shows "inj_on (\<lambda>k. map_option (\<lambda>j. pending_ts (stamps j)) ((J(i \<mapsto> j')) k)) {k. \<exists>j. (J(i \<mapsto> j')) k = Some j \<and> job_state j = PENDING}"
proof (rule inj_onI)
  fix a b
  assume "a \<in> {k. \<exists>j. (J(i \<mapsto> j')) k = Some j \<and> job_state j = PENDING}"
    and "b \<in> {k. \<exists>j. (J(i \<mapsto> j')) k = Some j \<and> job_state j = PENDING}"
    and e: "map_option (\<lambda>j. pending_ts (stamps j)) ((J(i \<mapsto> j')) a) = map_option (\<lambda>j. pending_ts (stamps j)) ((J(i \<mapsto> j')) b)"
  then obtain ja jb where ab: "(J(i \<mapsto> j')) a = Some ja" "job_state ja = PENDING" "(J(i \<mapsto> j')) b = Some jb" "job_state jb = PENDING"
    by blast
  then have p: "pending_ts (stamps ja) = pending_ts (stamps jb)" using e by simp
  show "a = b"
    using ab p coreD(8) [OF assms(1), of a ja b jb] assms(2) coreD(8) [OF assms(1), of i _ b jb] coreD(8) [OF assms(1), of a ja i]
    by (auto split: if_splits)
qed

section \<open>The moves\<close>

lemma core_join:
  assumes "core_inv J P R A D C" and "J i = None" and "job_id j = i" and "job_state j = PENDING"
    and "\<And>i' j'. J i' = Some j' \<Longrightarrow> job_state j' = PENDING \<Longrightarrow> pending_ts (stamps j') \<noteq> pending_ts (stamps j)"
  shows "core_inv (J(i \<mapsto> j)) (P(get_key j \<mapsto> i)) R A D C" and "P (get_key j) = None"
proof -
  note inv = coreD [OF assms(1)]
  show n: "P (get_key j) = None"
  proof (rule ccontr)
    assume "P (get_key j) \<noteq> None"
    then obtain i' where "P (get_key j) = Some i'" by blast
    from tracksE [OF inv(2) this] obtain j' where "J i' = Some j'" "PENDING = job_state j'" "get_key j' = get_key j" .
    with assms(5) show False by (auto simp: get_key_def)
  qed
  have "inj_on (\<lambda>k. map_option (\<lambda>j. pending_ts (stamps j)) ((J(i \<mapsto> j)) k)) {k. \<exists>j'. (J(i \<mapsto> j)) k = Some j' \<and> job_state j' = PENDING}"
    by (rule stamps_inj_upd [OF assms(1)]) (use assms(5) in blast)+
  then show "core_inv (J(i \<mapsto> j)) (P(get_key j \<mapsto> i)) R A D C"
    unfolding core_inv_def
    using assms(2-4) n inv(1,7)
    by (auto intro!: tracks_enter [OF inv(2)] tracks_other [OF inv(3)] tracks_other [OF inv(6)]
          within_other [OF inv(4)] within_other [OF inv(5)] simp: running_state_def)
qed

text \<open>A job changes in ways no map sees.\<close>

lemma core_same:
  assumes "core_inv J P R A D C" and "J i = Some j" and "job_id j' = i" and "job_state j' = job_state j"
    and "get_key j' = get_key j" "run_key j' = run_key j" "rejected_ts (stamps j') = rejected_ts (stamps j)"
    and "job_state j = CANCELED \<Longrightarrow> canceled_ts (stamps j') = canceled_ts (stamps j)"
  shows "core_inv (J(i \<mapsto> j')) P R A D C"
proof -
  note inv = coreD [OF assms(1)]
  have "inj_on (\<lambda>k. map_option (\<lambda>j. pending_ts (stamps j)) ((J(i \<mapsto> j')) k)) {k. \<exists>j. (J(i \<mapsto> j')) k = Some j \<and> job_state j = PENDING}"
    by (rule stamps_inj_upd [OF assms(1)]) (use assms(2,4,5) in \<open>auto simp: get_key_def\<close>)
  then show ?thesis
    unfolding core_inv_def using inv(1,7) assms(2-8) 
    by (auto intro!: tracks_keep [OF inv(2)] tracks_keep [OF inv(3)] tracks_keep [OF inv(6)]
          within_keep [OF inv(4)] within_keep [OF inv(5)])
qed

text \<open>A pending job goes into another map, or nowhere.\<close>

lemma core_leave:
  assumes "core_inv J P R A D C" and "J i = Some j" and "job_state j = PENDING"
    and "job_id j' = i" and "job_state j' \<noteq> PENDING" "job_state j' \<noteq> INIT" "job_state j' \<noteq> COMPLETE"
    and "tracks R' (J(i \<mapsto> j')) running_state run_key" and "within A' (J(i \<mapsto> j')) ((=) ALLOC_RUNNING) run_key"
    and "within D' (J(i \<mapsto> j')) ((=) REJECTED) (\<lambda>j. rejected_ts (stamps j))"
    and "tracks C' (J(i \<mapsto> j')) ((=) CANCELED) (\<lambda>j. canceled_ts (stamps j))"
  shows "core_inv (J(i \<mapsto> j')) (P(get_key j := None)) R' A' D' C'"
proof -
  note inv = coreD [OF assms(1)]
  have "inj_on (\<lambda>k. map_option (\<lambda>j. pending_ts (stamps j)) ((J(i \<mapsto> j')) k)) {k. \<exists>j. (J(i \<mapsto> j')) k = Some j \<and> job_state j = PENDING}"
    by (rule stamps_inj_upd [OF assms(1)]) (use assms(5) in auto)
  then show ?thesis
    unfolding core_inv_def using inv(1,7) assms(4-11) tracks_leave [OF inv(2) assms(2), of j'] assms(3) by auto
qed

lemma core_start:
  assumes "core_inv J P R A D C" and "J i = Some j" and "job_state j = PENDING"
    and "job_id j' = i" and "job_state j' = ALLOC_RUNNING" and "R (run_key j') = None"
  shows "core_inv (J(i \<mapsto> j')) (P(get_key j := None)) (R(run_key j' \<mapsto> i)) (A(run_key j' \<mapsto> i)) D C"
proof -
  note inv = coreD [OF assms(1)]
  show ?thesis
    by (rule core_leave [OF assms(1-4)])
       (use assms(2,3,5,6) in \<open>auto intro!: tracks_enter [OF inv(3)] within_enter [OF inv(4)] within_other [OF inv(5)]
          tracks_other [OF inv(6)] simp: running_state_def\<close>)
qed

lemma core_reject:
  assumes "core_inv J P R A D C" and "J i = Some j" and "job_state j = PENDING"
    and "job_id j' = i" and "job_state j' = REJECTED"
  shows "core_inv (J(i \<mapsto> j')) (P(get_key j := None)) R A (D(rejected_ts (stamps j') \<mapsto> i)) C"
proof -
  note inv = coreD [OF assms(1)]
  show ?thesis
    by (rule core_leave [OF assms(1-4)])
       (use assms(2,3,5) in \<open>auto intro!: tracks_other [OF inv(3)] within_other [OF inv(4)] within_enter [OF inv(5)]
          tracks_other [OF inv(6)] simp: running_state_def\<close>)
qed

lemma core_cancel:
  assumes "core_inv J P R A D C" and "J i = Some j" and "job_state j = PENDING"
    and "job_id j' = i" and "job_state j' = CANCELED" and "C (canceled_ts (stamps j')) = None"
  shows "core_inv (J(i \<mapsto> j')) (P(get_key j := None)) R A D (C(canceled_ts (stamps j') \<mapsto> i))"
proof -
  note inv = coreD [OF assms(1)]
  show ?thesis
    by (rule core_leave [OF assms(1-4)])
       (use assms(2,3,5,6) in \<open>auto intro!: tracks_other [OF inv(3)] within_other [OF inv(4)] within_other [OF inv(5)]
          tracks_enter [OF inv(6)] simp: running_state_def\<close>)
qed

text \<open>A pending job gets another priority.\<close>

lemma core_rekey:
  assumes "core_inv J P R A D C" and "J i = Some j" and "job_state j = PENDING"
    and "job_id j' = i" and "job_state j' = PENDING" and "pending_ts (stamps j') = pending_ts (stamps j)"
  shows "core_inv (J(i \<mapsto> j')) ((P(get_key j := None))(get_key j' \<mapsto> i)) R A D C"
    and "(P(get_key j := None)) (get_key j') = None"
proof -
  note inv = coreD [OF assms(1)]
  show n: "(P(get_key j := None)) (get_key j') = None"
  proof (rule ccontr)
    assume "\<not> ?thesis"
    then obtain i' where k: "P (get_key j') = Some i'" "get_key j' \<noteq> get_key j" by (auto split: if_splits)
    from tracksE [OF inv(2) k(1)] obtain j'' where j'': "J i' = Some j''" "PENDING = job_state j''" "get_key j'' = get_key j'" .
    then have "i' = i" using inv(8) [OF j''(1) assms(2)] assms(3,6) by (simp add: get_key_def)
    with j'' k(2) assms(2) show False by simp
  qed
  have "inj_on (\<lambda>k. map_option (\<lambda>j. pending_ts (stamps j)) ((J(i \<mapsto> j')) k)) {k. \<exists>j. (J(i \<mapsto> j')) k = Some j \<and> job_state j = PENDING}"
    by (rule stamps_inj_upd [OF assms(1)]) (use assms(2,3,5,6) in auto)
  then show "core_inv (J(i \<mapsto> j')) ((P(get_key j := None))(get_key j' \<mapsto> i)) R A D C"
    unfolding core_inv_def
    using inv(1,7) assms(2-5) n
    by (auto intro!: tracks_rekey [OF inv(2)] tracks_other [OF inv(3)] tracks_other [OF inv(6)]
          within_other [OF inv(4)] within_other [OF inv(5)] simp: running_state_def)
qed

text \<open>A job leaves the queue for good.\<close>

lemma core_drop:
  assumes "core_inv J P R A D C" and "J i = Some j"
    and "P' = (if job_state j = PENDING then P(get_key j := None) else P)"
    and "R' = (if running_state (job_state j) then R(run_key j := None) else R)"
    and "A' = (if running_state (job_state j) then A(run_key j := None) else A)"
    and "C' = (if job_state j = CANCELED then C(canceled_ts (stamps j) := None) else C)"
    and "job_state j \<noteq> REJECTED"
  shows "core_inv (J(i := None)) P' R' A' D C'"
proof -
  note inv = coreD [OF assms(1)]
  have "inj_on (\<lambda>k. map_option (\<lambda>j. pending_ts (stamps j)) ((J(i := None)) k)) {k. \<exists>j. (J(i := None)) k = Some j \<and> job_state j = PENDING}"
    using inv(8) by (auto intro!: inj_onI split: if_splits)
  moreover have "tracks P' (J(i := None)) ((=) PENDING) get_key"
    using assms(2,3) tracks_drop [OF inv(2) assms(2)] tracks_drop_other [OF inv(2), of i] by (cases "job_state j = PENDING") auto
  moreover have "tracks R' (J(i := None)) running_state run_key"
    using assms(2,4) tracks_drop [OF inv(3) assms(2)] tracks_drop_other [OF inv(3), of i] by (cases "running_state (job_state j)") auto
  moreover have "within A' (J(i := None)) ((=) ALLOC_RUNNING) run_key"
    using assms(2,5) within_drop [OF inv(4) assms(2)] within_other(2) [OF inv(4), of i]
    by (cases "running_state (job_state j)") (auto simp: running_state_def)
  moreover have "within D (J(i := None)) ((=) REJECTED) (\<lambda>j. rejected_ts (stamps j))"
    using assms(2,7) by (intro within_other(2) [OF inv(5)]) auto
  moreover have "tracks C' (J(i := None)) ((=) CANCELED) (\<lambda>j. canceled_ts (stamps j))"
    using assms(2,6) tracks_drop [OF inv(6) assms(2)] tracks_drop_other [OF inv(6), of i] by (cases "job_state j = CANCELED") auto
  ultimately show ?thesis unfolding core_inv_def using inv(1,7) by (auto split: if_splits)
qed

lemma core_pop:
  assumes "core_inv J P R A D C"
  shows "core_inv J P R (A(t := None)) D C" and "core_inv J P R A (D(t := None)) C"
  using assms within_less [of A J] within_less [of D J] by (auto simp: core_inv_def)

text \<open>A running job known from before a restart joins.\<close>

lemma core_rejoin:
  assumes "core_inv J P R A D C" and "J i = None" and "job_id j = i" and "job_state j = RUNNING" and "R (run_key j) = None"
  shows "core_inv (J(i \<mapsto> j)) P (R(run_key j \<mapsto> i)) A D C"
proof -
  note inv = coreD [OF assms(1)]
  have "inj_on (\<lambda>k. map_option (\<lambda>j. pending_ts (stamps j)) ((J(i \<mapsto> j)) k)) {k. \<exists>j'. (J(i \<mapsto> j)) k = Some j' \<and> job_state j' = PENDING}"
    by (rule stamps_inj_upd [OF assms(1)]) (use assms(4) in auto)
  then show ?thesis
    unfolding core_inv_def
    using assms(2-5) inv(1,7)
    by (auto intro!: tracks_other [OF inv(2)] tracks_enter [OF inv(3)] tracks_other [OF inv(6)]
          within_other [OF inv(4)] within_other [OF inv(5)] simp: running_state_def)
qed

end
