(* ===== verification/Queue_Ops.thy ===== *)
theory Queue_Ops
  imports Queue_Inv
begin

text \<open>
  The invariant of a queue and that every operation of the base class keeps it.
\<close>

section \<open>The invariant\<close>

abbreviation jobs_of :: "'a queue_scheme \<Rightarrow> jobs" where
  "jobs_of q \<equiv> \<lambda>i. om_find i (m_jobs q)"

definition first_of :: "'v option \<Rightarrow> 'v option \<Rightarrow> 'v option" where
  "first_of a b = (case a of Some v \<Rightarrow> Some v | None \<Rightarrow> b)"

text \<open>The three maps of pending jobs as one.\<close>

definition pend :: "'a queue_scheme \<Rightarrow> pending_key \<Rightarrow> int option" where
  "pend q k = first_of (om_find k (m_pending q)) (first_of (om_find k (m_pending_provisional q)) (om_find k (m_blocked q)))"

definition apart :: "'a queue_scheme \<Rightarrow> bool" where
  "apart q \<longleftrightarrow> (\<forall>k. \<not> (om_find k (m_pending q) \<noteq> None \<and> om_find k (m_pending_provisional q) \<noteq> None)
     \<and> \<not> (om_find k (m_pending q) \<noteq> None \<and> om_find k (m_blocked q) \<noteq> None)
     \<and> \<not> (om_find k (m_pending_provisional q) \<noteq> None \<and> om_find k (m_blocked q) \<noteq> None))"

definition maps_ok :: "'a queue_scheme \<Rightarrow> bool" where
  "maps_ok q \<longleftrightarrow> om_ok (m_pending q) \<and> om_ok (m_pending_provisional q) \<and> om_ok (m_blocked q) \<and> om_ok (m_jobs q)
     \<and> om_ok (m_running q) \<and> om_ok (m_alloced q) \<and> om_ok (m_rejected q) \<and> om_ok (m_canceled q)
     \<and> om_ok (m_pending_cancel_provisional q) \<and> om_ok (m_pending_reprio_provisional q)"

definition core :: "'a queue_scheme \<Rightarrow> bool" where
  "core q \<longleftrightarrow> core_inv (jobs_of q) (pend q) (\<lambda>t. om_find t (m_running q)) (\<lambda>t. om_find t (m_alloced q))
     (\<lambda>t. om_find t (m_rejected q)) (\<lambda>t. om_find t (m_canceled q))"

text \<open>The stamps handed out so far lie below the counters.\<close>

definition fresh_inv :: "'a queue_scheme \<Rightarrow> bool" where
  "fresh_inv q \<longleftrightarrow>
     (\<forall>i j. jobs_of q i = Some j \<and> job_state j = PENDING \<longrightarrow> pending_ts (stamps j) < m_pq_cnt q)
     \<and> (\<forall>t. m_rq_cnt q \<le> t \<longrightarrow> om_find t (m_running q) = None)
     \<and> (\<forall>t. m_dq_cnt q \<le> t \<longrightarrow> om_find t (m_rejected q) = None)
     \<and> (\<forall>t. m_cancel_cnt q \<le> t \<longrightarrow> om_find t (m_canceled q) = None \<and> om_find t (m_pending_cancel_provisional q) = None)
     \<and> (\<forall>t. m_reprio_cnt q \<le> t \<longrightarrow> om_find t (m_pending_reprio_provisional q) = None)
     \<and> 0 \<le> m_pq_cnt q \<and> 0 \<le> m_rq_cnt q \<and> 0 \<le> m_dq_cnt q \<and> 0 \<le> m_cancel_cnt q \<and> 0 \<le> m_reprio_cnt q"

text \<open>A cancellation that was put off is remembered under the stamp of its job, and no stamp
  goes to two jobs.\<close>

definition cancel_inv :: "'a queue_scheme \<Rightarrow> bool" where
  "cancel_inv q \<longleftrightarrow>
     (\<forall>t i j. om_find t (m_pending_cancel_provisional q) = Some i \<and> jobs_of q i = Some j \<and> job_state j = PENDING
        \<longrightarrow> om_find (canceled_ts (stamps j)) (m_pending_cancel_provisional q) = Some i)
     \<and> (\<forall>t i i'. om_find t (m_pending_cancel_provisional q) = Some i \<and> om_find t (m_canceled q) = Some i' \<longrightarrow> i = i')"

definition qinv :: "'a queue_scheme \<Rightarrow> bool" where
  "qinv q \<longleftrightarrow> maps_ok q \<and> apart q \<and> core q \<and> fresh_inv q \<and> cancel_inv q"

lemma apartD:
  assumes "apart q"
  shows "om_find k (m_pending q) = None \<or> om_find k (m_pending_provisional q) = None"
    and "om_find k (m_pending q) = None \<or> om_find k (m_blocked q) = None"
    and "om_find k (m_pending_provisional q) = None \<or> om_find k (m_blocked q) = None"
  using assms unfolding apart_def by blast+

lemma freshD:
  assumes "fresh_inv q"
  shows "\<And>i j. jobs_of q i = Some j \<Longrightarrow> job_state j = PENDING \<Longrightarrow> pending_ts (stamps j) < m_pq_cnt q"
    and "\<And>t. m_rq_cnt q \<le> t \<Longrightarrow> om_find t (m_running q) = None" "\<And>t. m_dq_cnt q \<le> t \<Longrightarrow> om_find t (m_rejected q) = None"
    and "\<And>t. m_cancel_cnt q \<le> t \<Longrightarrow> om_find t (m_canceled q) = None"
    and "\<And>t. m_cancel_cnt q \<le> t \<Longrightarrow> om_find t (m_pending_cancel_provisional q) = None"
    and "\<And>t. m_reprio_cnt q \<le> t \<Longrightarrow> om_find t (m_pending_reprio_provisional q) = None"
    and "0 \<le> m_pq_cnt q" "0 \<le> m_rq_cnt q" "0 \<le> m_dq_cnt q" "0 \<le> m_cancel_cnt q" "0 \<le> m_reprio_cnt q"
  using assms unfolding fresh_inv_def by blast+

lemma freshI:
  assumes "\<And>i j. jobs_of q i = Some j \<Longrightarrow> job_state j = PENDING \<Longrightarrow> pending_ts (stamps j) < m_pq_cnt q"
    and "\<And>t. m_rq_cnt q \<le> t \<Longrightarrow> om_find t (m_running q) = None" "\<And>t. m_dq_cnt q \<le> t \<Longrightarrow> om_find t (m_rejected q) = None"
    and "\<And>t. m_cancel_cnt q \<le> t \<Longrightarrow> om_find t (m_canceled q) = None"
    and "\<And>t. m_cancel_cnt q \<le> t \<Longrightarrow> om_find t (m_pending_cancel_provisional q) = None"
    and "\<And>t. m_reprio_cnt q \<le> t \<Longrightarrow> om_find t (m_pending_reprio_provisional q) = None"
    and "0 \<le> m_pq_cnt q" "0 \<le> m_rq_cnt q" "0 \<le> m_dq_cnt q" "0 \<le> m_cancel_cnt q" "0 \<le> m_reprio_cnt q"
  shows "fresh_inv q"
  using assms unfolding fresh_inv_def by blast

lemma qinvD:
  assumes "qinv q"
  shows "maps_ok q" "apart q" "core q" "fresh_inv q" "cancel_inv q"
  using assms by (simp_all add: qinv_def)

text \<open>What the invariant sees of a queue.\<close>

definition qview :: "'a queue_scheme \<Rightarrow> _" where
  "qview q = (m_blocked q, m_pending q, m_pending_provisional q, m_pending_cancel_provisional q,
     m_pending_reprio_provisional q, m_running q, m_alloced q, m_rejected q, m_canceled q, m_jobs q,
     (m_pq_cnt q, m_rq_cnt q, m_dq_cnt q, m_cancel_cnt q, m_reprio_cnt q))"

lemma qinv_view:
  assumes "qview q' = qview q"
  shows "qinv q' \<longleftrightarrow> qinv q"
proof -
  have "pend q' = pend q" using assms by (simp add: qview_def pend_def fun_eq_iff)
  then show ?thesis using assms
    by (simp add: qview_def qinv_def maps_ok_def apart_def core_def fresh_inv_def cancel_inv_def)
qed

lemma qview_flags [simp]:
  "qview (set_schedulability b q) = qview q" "qview (reset_scheduled q) = qview q"
  "qview (q\<lparr>m_sched_loop_active := b\<rparr>) = qview q" "qview (q\<lparr>m_scheduled := b\<rparr>) = qview q"
  "qview (q\<lparr>m_pending_reconsider := b\<rparr>) = qview q" "qview (q\<lparr>m_in_progress_iter := it\<rparr>) = qview q"
  "qview (q\<lparr>sent := s\<rparr>) = qview q" "qview (q\<lparr>m_annotation_dirty := b\<rparr>) = qview q"
  by (simp_all add: qview_def set_schedulability_def reset_scheduled_def)

lemma pend_view: "qview q' = qview q \<Longrightarrow> pend q' = pend q"
  by (simp add: qview_def pend_def fun_eq_iff)

section \<open>Maps\<close>

lemma om_find_insert: "om_ok m \<Longrightarrow> om_find j (fst (om_insert k v m)) = (if j = k \<and> om_find k m = None then Some v else om_find j m)"
  by (auto simp: om_insert_def om_find_assign)

lemma om_ok_filter: "om_ok m \<Longrightarrow> om_ok (filter P m)"
  unfolding om_ok_def by (induction m) auto

lemma om_find_Cons: "om_find k ((a, v) # m) = (if k = a then Some v else om_find k m)"
  by (simp add: om_find_def)

lemma om_merge_fold:
  assumes "om_ok d" and "om_ok s"
  shows "om_ok (fold (\<lambda>(k, v) m. fst (om_insert k v m)) s d)
    \<and> om_find k (fold (\<lambda>(k, v) m. fst (om_insert k v m)) s d) = first_of (om_find k d) (om_find k s)"
  using assms
proof (induction s arbitrary: d)
  case Nil
  then show ?case by (simp add: first_of_def split: option.split)
next
  case (Cons e s)
  obtain a v where e: "e = (a, v)" by fastforce
  have s: "om_ok s" "om_find a s = None" using Cons.prems(2) e by (auto simp: om_ok_Cons om_find_None_iff)
  show ?case
    using Cons.IH [of "fst (om_insert a v d)"] Cons.prems(1) s e
    by (auto simp: om_find_insert first_of_def om_find_Cons split: option.split)
qed

lemma om_merge_ok:
  assumes "om_ok d" and "om_ok s"
  shows "om_ok (fst (om_merge d s))" and "om_find k (fst (om_merge d s)) = first_of (om_find k d) (om_find k s)"
    and "om_ok (snd (om_merge d s))" and "(\<And>k. om_find k d = None \<or> om_find k s = None) \<Longrightarrow> snd (om_merge d s) = []"
proof -
  show "om_ok (fst (om_merge d s))" "om_find k (fst (om_merge d s)) = first_of (om_find k d) (om_find k s)"
    using om_merge_fold [OF assms] by (simp_all add: om_merge_def)
  show "om_ok (snd (om_merge d s))" using om_ok_filter [OF assms(2)] by (simp add: om_merge_def)
  assume a: "\<And>k. om_find k d = None \<or> om_find k s = None"
  have "om_find k d = None" if "(k, v) \<in> set s" for k v
    using a [of k] that by (force simp: om_find_None_iff [of k s])
  then show "snd (om_merge d s) = []" by (auto simp: om_merge_def filter_empty_conv)
qed

lemma map_modify: "map_of (map (\<lambda>(k, j). (k, if k = i then f j else j)) m) k = (if k = i then map_option f (map_of m k) else map_of m k)"
  by (induction m) auto

lemma jobs_modify [simp]: "om_find k (m_jobs (modify_job i f q)) = ((jobs_of q)(i := map_option f (jobs_of q i))) k"
  by (simp add: modify_job_def om_find_def map_modify)

lemma om_ok_modify [simp]: "om_ok (m_jobs (modify_job i f q)) = om_ok (m_jobs q)"
  by (simp add: modify_job_def om_ok_def comp_def case_prod_beta)

lemma modify_sel [simp]:
  "m_blocked (modify_job i f q) = m_blocked q" "m_pending (modify_job i f q) = m_pending q"
  "m_pending_provisional (modify_job i f q) = m_pending_provisional q"
  "m_pending_cancel_provisional (modify_job i f q) = m_pending_cancel_provisional q"
  "m_pending_reprio_provisional (modify_job i f q) = m_pending_reprio_provisional q"
  "m_running (modify_job i f q) = m_running q" "m_alloced (modify_job i f q) = m_alloced q"
  "m_rejected (modify_job i f q) = m_rejected q" "m_canceled (modify_job i f q) = m_canceled q"
  "m_pq_cnt (modify_job i f q) = m_pq_cnt q" "m_rq_cnt (modify_job i f q) = m_rq_cnt q"
  "m_dq_cnt (modify_job i f q) = m_dq_cnt q" "m_cancel_cnt (modify_job i f q) = m_cancel_cnt q"
  "m_reprio_cnt (modify_job i f q) = m_reprio_cnt q" "m_sched_loop_active (modify_job i f q) = m_sched_loop_active q"
  "m_in_progress_iter (modify_job i f q) = m_in_progress_iter q" "m_pending_reconsider (modify_job i f q) = m_pending_reconsider q"
  "m_queue_depth (modify_job i f q) = m_queue_depth q"
  "pend (modify_job i f q) = pend q"
  by (simp_all add: modify_job_def pend_def fun_eq_iff)

section \<open>The pending maps\<close>

text \<open>Another queue that differs in the three pending maps and the iterators only.\<close>

definition repend :: "'a queue_scheme \<Rightarrow> 'a queue_scheme \<Rightarrow> bool" where
  "repend q q' \<longleftrightarrow> (\<exists>P V B a b. q' = q\<lparr>m_pending := P, m_pending_provisional := V, m_blocked := B,
     m_pending_iter := a, m_in_progress_iter := b\<rparr>)"

lemma rependD:
  assumes "repend q q'"
  shows "m_jobs q' = m_jobs q" "m_running q' = m_running q" "m_alloced q' = m_alloced q" "m_rejected q' = m_rejected q"
    "m_canceled q' = m_canceled q" "m_pending_cancel_provisional q' = m_pending_cancel_provisional q"
    "m_pending_reprio_provisional q' = m_pending_reprio_provisional q" "m_pq_cnt q' = m_pq_cnt q" "m_rq_cnt q' = m_rq_cnt q"
    "m_dq_cnt q' = m_dq_cnt q" "m_cancel_cnt q' = m_cancel_cnt q" "m_reprio_cnt q' = m_reprio_cnt q"
    "m_sched_loop_active q' = m_sched_loop_active q" "m_pending_reconsider q' = m_pending_reconsider q"
  using assms by (auto simp: repend_def)

lemma erase_pending_repend: "repend q (erase_pending k q)"
  unfolding repend_def erase_pending_def
  by (intro exI [of _ "om_erase k (m_pending q)"] exI [of _ "m_pending_provisional q"] exI [of _ "m_blocked q"]
        exI [of _ "iter_after_erase k (m_pending_iter q)"] exI [of _ "iter_after_erase k (m_in_progress_iter q)"]) simp

lemma repend_maps:
  "repend q (q\<lparr>m_pending := P, m_pending_provisional := V, m_blocked := B\<rparr>)"
  "repend q (q\<lparr>m_pending := P\<rparr>)" "repend q (q\<lparr>m_pending_provisional := V\<rparr>)" "repend q (q\<lparr>m_blocked := B\<rparr>)"
  unfolding repend_def
  by (rule exI [of _ P], rule exI [of _ V], rule exI [of _ B], rule exI [of _ "m_pending_iter q"], rule exI [of _ "m_in_progress_iter q"], simp)
     (rule exI [of _ P], rule exI [of _ "m_pending_provisional q"], rule exI [of _ "m_blocked q"], rule exI [of _ "m_pending_iter q"], rule exI [of _ "m_in_progress_iter q"], simp,
      rule exI [of _ "m_pending q"], rule exI [of _ V], rule exI [of _ "m_blocked q"], rule exI [of _ "m_pending_iter q"], rule exI [of _ "m_in_progress_iter q"], simp,
      rule exI [of _ "m_pending q"], rule exI [of _ "m_pending_provisional q"], rule exI [of _ B], rule exI [of _ "m_pending_iter q"], rule exI [of _ "m_in_progress_iter q"], simp)

lemma erase_pending_sel [simp]:
  "m_pending (erase_pending k q) = om_erase k (m_pending q)" "m_pending_provisional (erase_pending k q) = m_pending_provisional q"
  "m_blocked (erase_pending k q) = m_blocked q"
  by (simp_all add: erase_pending_def)

lemma erase_pending_job_ok:
  assumes "maps_ok q" and "apart q" and "pend q (get_key j) = Some i"
  shows "\<exists>b q'. erase_pending_job j q = (Inr b, q') \<and> repend q q' \<and> maps_ok q' \<and> apart q'
    \<and> pend q' = (pend q)(get_key j := None)"
proof -
  let ?k = "get_key j"
  have fin: "repend q q' \<and> maps_ok q' \<and> apart q' \<and> pend q' = (pend q)(?k := None)"
    if "repend q q'" and "m_pending q' = om_erase ?k (m_pending q) \<or> m_pending q' = m_pending q \<and> om_find ?k (m_pending q) = None"
      "m_pending_provisional q' = om_erase ?k (m_pending_provisional q) \<or> m_pending_provisional q' = m_pending_provisional q \<and> om_find ?k (m_pending_provisional q) = None"
      "m_blocked q' = om_erase ?k (m_blocked q) \<or> m_blocked q' = m_blocked q \<and> om_find ?k (m_blocked q) = None" for q'
  proof -
    have e: "om_find k (m_pending q') = (if k = ?k then None else om_find k (m_pending q))"
      "om_find k (m_pending_provisional q') = (if k = ?k then None else om_find k (m_pending_provisional q))"
      "om_find k (m_blocked q') = (if k = ?k then None else om_find k (m_blocked q))" for k
      using that(2-4) by (auto simp: om_find_erase)
    have "maps_ok q'" using assms(1) that(2-4) rependD [OF that(1)] by (auto simp: maps_ok_def)
    moreover have "apart q'" using assms(2) by (simp add: apart_def e)
    moreover have "pend q' = (pend q)(?k := None)" by (auto simp: pend_def e first_of_def fun_eq_iff)
    ultimately show ?thesis using that(1) by blast
  qed
  have ap: "\<not> (om_find ?k (m_pending q) \<noteq> None \<and> om_find ?k (m_pending_provisional q) \<noteq> None)"
    "\<not> (om_find ?k (m_pending q) \<noteq> None \<and> om_find ?k (m_blocked q) \<noteq> None)"
    "\<not> (om_find ?k (m_pending_provisional q) \<noteq> None \<and> om_find ?k (m_blocked q) \<noteq> None)"
    using assms(2) unfolding apart_def by blast+
  consider "om_find ?k (m_pending q) \<noteq> None" | "om_find ?k (m_pending q) = None" "om_find ?k (m_blocked q) \<noteq> None"
    | "om_find ?k (m_pending q) = None" "om_find ?k (m_blocked q) = None" "om_find ?k (m_pending_provisional q) \<noteq> None"
    using assms(3) by (auto simp: pend_def first_of_def split: option.splits)
  then show ?thesis
  proof cases
    case 1
    with fin [OF erase_pending_repend] ap show ?thesis by (auto simp: erase_pending_job_def Let_def)
  next
    case 2
    with fin [OF repend_maps(4)] ap show ?thesis by (auto simp: erase_pending_job_def Let_def)
  next
    case 3
    with fin [OF repend_maps(3)] ap show ?thesis by (auto simp: erase_pending_job_def Let_def)
  qed
qed

lemma insert_pending_job_ok:
  assumes "maps_ok q" and "apart q" and "pend q (get_key j) = None"
  shows "\<exists>q'. insert_pending_job j prov q = (Inr 0, q') \<and> repend q q' \<and> maps_ok q' \<and> apart q'
    \<and> pend q' = (pend q)(get_key j \<mapsto> job_id j)"
proof -
  have n: "om_find (get_key j) (m_pending q) = None" "om_find (get_key j) (m_pending_provisional q) = None"
    "om_find (get_key j) (m_blocked q) = None"
    using assms(3) by (auto simp: pend_def first_of_def split: option.splits)
  have o: "om_ok (m_pending q)" "om_ok (m_pending_provisional q)" using assms(1) by (simp_all add: maps_ok_def)
  show ?thesis
  proof (cases prov)
    case True
    let ?q = "q\<lparr>m_pending_provisional := om_assign (get_key j) (job_id j) (m_pending_provisional q)\<rparr>"
    have "pend ?q = (pend q)(get_key j \<mapsto> job_id j)"
      using n o by (auto simp: pend_def first_of_def om_find_assign fun_eq_iff)
    moreover have "apart ?q" using assms(2) n o by (auto simp: apart_def om_find_assign)
    moreover have "maps_ok ?q" using assms(1) by (simp add: maps_ok_def)
    ultimately show ?thesis using True n repend_maps(3) by (auto simp: insert_pending_job_def om_insert_def)
  next
    case False
    let ?q = "q\<lparr>m_pending := om_assign (get_key j) (job_id j) (m_pending q)\<rparr>"
    have "pend ?q = (pend q)(get_key j \<mapsto> job_id j)"
      using n o by (auto simp: pend_def first_of_def om_find_assign fun_eq_iff)
    moreover have "apart ?q" using assms(2) n o by (auto simp: apart_def om_find_assign)
    moreover have "maps_ok ?q" using assms(1) by (simp add: maps_ok_def)
    ultimately show ?thesis using False n repend_maps(2) by (auto simp: insert_pending_job_def om_insert_def)
  qed
qed

lemma first_of_assoc: "first_of (first_of a b) c = first_of a (first_of b c)"
  by (simp add: first_of_def split: option.split)

text \<open>Blocked jobs that are reconsidered become pending, all of them: the assertion in the code
  holds.\<close>

lemma merge_blocked:
  assumes "maps_ok q" and "apart q" and "om_merge (m_pending q) (m_blocked q) = (p, b)"
  shows "b = []" and "maps_ok (q\<lparr>m_pending := p, m_blocked := b\<rparr>)" and "apart (q\<lparr>m_pending := p, m_blocked := b\<rparr>)"
    and "pend (q\<lparr>m_pending := p, m_blocked := b\<rparr>) = pend q"
proof -
  have o: "om_ok (m_pending q)" "om_ok (m_blocked q)" using assms(1) by (simp_all add: maps_ok_def)
  note d = apartD [OF assms(2)]
  note m = om_merge_ok [OF o, unfolded assms(3), simplified]
  show b: "b = []" using m(4) d(2) by blast
  show "maps_ok (q\<lparr>m_pending := p, m_blocked := b\<rparr>)" using assms(1) m(1) b by (simp add: maps_ok_def)
  show "apart (q\<lparr>m_pending := p, m_blocked := b\<rparr>)"
    unfolding apart_def
  proof (intro allI)
    fix k
    show "\<not> (om_find k (m_pending (q\<lparr>m_pending := p, m_blocked := b\<rparr>)) \<noteq> None \<and> om_find k (m_pending_provisional (q\<lparr>m_pending := p, m_blocked := b\<rparr>)) \<noteq> None)
      \<and> \<not> (om_find k (m_pending (q\<lparr>m_pending := p, m_blocked := b\<rparr>)) \<noteq> None \<and> om_find k (m_blocked (q\<lparr>m_pending := p, m_blocked := b\<rparr>)) \<noteq> None)
      \<and> \<not> (om_find k (m_pending_provisional (q\<lparr>m_pending := p, m_blocked := b\<rparr>)) \<noteq> None \<and> om_find k (m_blocked (q\<lparr>m_pending := p, m_blocked := b\<rparr>)) \<noteq> None)"
      using d(1) [of k] d(3) [of k] b by (auto simp: m(2) first_of_def)
  qed
  show "pend (q\<lparr>m_pending := p, m_blocked := b\<rparr>) = pend q"
  proof (rule ext)
    fix k
    show "pend (q\<lparr>m_pending := p, m_blocked := b\<rparr>) k = pend q k"
      using d(2) [of k] d(3) [of k] b by (auto simp: pend_def m(2) first_of_def split: option.split)
  qed
qed

lemma qinv_repend:
  assumes "qinv q" and "repend q q'" and "maps_ok q'" "apart q'" "pend q' = pend q"
  shows "qinv q'"
proof -
  note r = rependD [OF assms(2)]
  have "core q' = core q" by (simp only: core_def r assms(5))
  moreover have "fresh_inv q' = fresh_inv q" by (simp only: fresh_inv_def r)
  moreover have "cancel_inv q' = cancel_inv q" by (simp only: cancel_inv_def r)
  ultimately show ?thesis using qinvD [OF assms(1)] assms(3,4) by (simp add: qinv_def)
qed

lemma reconsider_ok:
  assumes "qinv q"
  shows "qinv (process_provisional_reconsider q)" and "qinv (reconsider_blocked_jobs q)"
    and "pend (process_provisional_reconsider q) = pend q" and "pend (reconsider_blocked_jobs q) = pend q"
proof -
  have main: "qinv (process_provisional_reconsider q) \<and> pend (process_provisional_reconsider q) = pend q" if "qinv q" for q :: "'a queue_scheme"
  proof (cases "m_pending_reconsider q")
    case True
    obtain p b where pb: "om_merge (m_pending q) (m_blocked q) = (p, b)" by fastforce
    note m = merge_blocked [OF qinvD(1,2) [OF that] pb]
    let ?q = "q\<lparr>m_pending := p, m_blocked := b\<rparr>"
    have r: "repend q ?q" using repend_maps(1) [where P = p and V = "m_pending_provisional q" and B = b and q = q] by simp
    have "qview (process_provisional_reconsider q) = qview ?q"
      using True pb by (simp add: process_provisional_reconsider_def qview_def set_schedulability_def Let_def)
    then show ?thesis using qinv_view pend_view qinv_repend [OF that r m(2-4)] m(4) by metis
  qed (use that in \<open>simp add: process_provisional_reconsider_def\<close>)
  show "qinv (process_provisional_reconsider q)" "pend (process_provisional_reconsider q) = pend q" using main [OF assms] by simp_all
  have "qinv (q\<lparr>m_pending_reconsider := True\<rparr>)" "pend (q\<lparr>m_pending_reconsider := True\<rparr>) = pend q"
    using assms qinv_view [of "q\<lparr>m_pending_reconsider := True\<rparr>" q] pend_view [of "q\<lparr>m_pending_reconsider := True\<rparr>" q] by simp_all
  then show "qinv (reconsider_blocked_jobs q)" "pend (reconsider_blocked_jobs q) = pend q"
    using main [of "q\<lparr>m_pending_reconsider := True\<rparr>"] by (simp_all add: reconsider_blocked_jobs_def Let_def)
qed

section \<open>Changes of priority\<close>

lemma coreI:
  assumes "core q" and "jobs_of q' = (jobs_of q)(i \<mapsto> j')"
    and "m_running q' = m_running q" "m_alloced q' = m_alloced q" "m_rejected q' = m_rejected q"
    and "jobs_of q i = Some j" and "job_state j = PENDING" "job_state j' = PENDING" "job_id j' = i"
    and "pending_ts (stamps j') = pending_ts (stamps j)" "m_canceled q' = m_canceled q"
    and "pend q' = ((pend q)(get_key j := None))(get_key j' \<mapsto> i)"
  shows "core q'"
  unfolding core_def assms(2-5,11,12)
  by (rule core_rekey(1)) (use assms in \<open>simp_all add: core_def\<close>)

lemma fresh_modify:
  assumes "fresh_inv q" and "jobs_of q' = (jobs_of q)(i \<mapsto> j')"
    and "job_state j' = PENDING \<Longrightarrow> pending_ts (stamps j') < m_pq_cnt q" and "m_running q' = m_running q" "m_rejected q' = m_rejected q"
    "m_canceled q' = m_canceled q" "m_pending_cancel_provisional q' = m_pending_cancel_provisional q"
    "m_pending_reprio_provisional q' = m_pending_reprio_provisional q" "m_pq_cnt q' = m_pq_cnt q" "m_rq_cnt q' = m_rq_cnt q"
    "m_dq_cnt q' = m_dq_cnt q" "m_cancel_cnt q' = m_cancel_cnt q" "m_reprio_cnt q' = m_reprio_cnt q"
  shows "fresh_inv q'"
proof -
  have "pending_ts (stamps j) < m_pq_cnt q'" if "jobs_of q' i' = Some j" "job_state j = PENDING" for i' j
    using that assms(1,3,9) fun_cong [OF assms(2), of i'] by (auto simp: fresh_inv_def split: if_splits)
  then show ?thesis using assms(1,4-13) by (auto simp: fresh_inv_def)
qed

lemma cancel_modify:
  assumes "cancel_inv q" and "jobs_of q' = (jobs_of q)(i \<mapsto> j')" and "jobs_of q i = Some j" and "job_state j = PENDING"
    and "canceled_ts (stamps j') = canceled_ts (stamps j)"
    and "m_canceled q' = m_canceled q" "m_pending_cancel_provisional q' = m_pending_cancel_provisional q"
  shows "cancel_inv q'"
  unfolding cancel_inv_def assms(6,7)
proof (intro conjI allI impI)
  fix t i' j''
  assume "om_find t (m_pending_cancel_provisional q) = Some i' \<and> jobs_of q' i' = Some j'' \<and> job_state j'' = PENDING"
  then show "om_find (canceled_ts (stamps j'')) (m_pending_cancel_provisional q) = Some i'"
    using assms(1,3-5) fun_cong [OF assms(2), of i'] by (cases "i' = i") (auto simp: cancel_inv_def)
next
  fix t i' i''
  assume "om_find t (m_pending_cancel_provisional q) = Some i' \<and> om_find t (m_canceled q) = Some i''"
  then show "i' = i''" using assms(1) unfolding cancel_inv_def by blast
qed

lemma qinv_job:
  assumes "qinv q" and "jobs_of q i = Some j"
  shows "job_id j = i" and "job_state j = PENDING \<Longrightarrow> pend q (get_key j) = Some i"
  using coreD(1) [OF qinvD(3) [OF assms(1), unfolded core_def], OF assms(2)]
    tracksD [OF coreD(2) [OF qinvD(3) [OF assms(1), unfolded core_def]], OF assms(2)] by auto

text \<open>One change of priority: the job is found, taken out and put back where it was, under its
  new key.\<close>

lemma reprio_one:
  assumes "qinv q" and "jobs_of q i = Some j" and "job_state j = PENDING"
  obtains prov q1 q2 where "erase_pending_job j q = (Inr prov, q1)" and "repend q q1"
    and "insert_pending_job (j\<lparr>priority := prio\<rparr>) prov (modify_job i (\<lambda>j. j\<lparr>priority := prio\<rparr>) q1) = (Inr 0, q2)"
    and "qinv q2" and "jobs_of q2 = (jobs_of q)(i \<mapsto> j\<lparr>priority := prio\<rparr>)"
    and "repend (modify_job i (\<lambda>j. j\<lparr>priority := prio\<rparr>) q1) q2"
    and "pend q2 = ((pend q)(get_key j := None))(get_key (j\<lparr>priority := prio\<rparr>) \<mapsto> i)"
proof -
  note inv = qinvD [OF assms(1)]
  let ?j = "j\<lparr>priority := prio\<rparr>"
  have id: "job_id j = i" and p: "pend q (get_key j) = Some i" using qinv_job [OF assms(1,2)] assms(3) by auto
  obtain prov q1 where e: "erase_pending_job j q = (Inr prov, q1)" "repend q q1" "maps_ok q1" "apart q1"
      "pend q1 = (pend q)(get_key j := None)"
    using erase_pending_job_ok [OF inv(1,2) p] by blast
  let ?q = "modify_job i (\<lambda>j. j\<lparr>priority := prio\<rparr>) q1"
  note r1 = rependD [OF e(2)]
  have m: "maps_ok ?q" "apart ?q" using e(3,4) by (simp_all add: maps_ok_def apart_def)
  have "(jobs_of q)(i := map_option (\<lambda>j. j\<lparr>priority := prio\<rparr>) (jobs_of q i)) = (jobs_of q)(i \<mapsto> ?j)" using assms(2) by simp
  then have jq: "jobs_of ?q = (jobs_of q)(i \<mapsto> ?j)" by (simp add: r1(1) fun_eq_iff)
  have "pend ?q (get_key ?j) = None"
    using core_rekey(2) [OF inv(3) [unfolded core_def] assms(2,3), of ?j] assms(3) id e(5) by simp
  from insert_pending_job_ok [OF m this] obtain q2 where
    i: "insert_pending_job ?j prov ?q = (Inr 0, q2)" "repend ?q q2" "maps_ok q2" "apart q2"
      "pend q2 = (pend ?q)(get_key ?j \<mapsto> job_id ?j)" by blast
  note r2 = rependD [OF i(2)]
  have pq2: "pend q2 = ((pend q)(get_key j := None))(get_key ?j \<mapsto> i)" using i(5) e(5) id by simp
  have jq2: "jobs_of q2 = (jobs_of q)(i \<mapsto> ?j)" using jq r2(1) by simp
  have "core q2"
    by (rule coreI [OF inv(3) jq2 _ _ _ assms(2,3) _ _ _ _ pq2]) (use assms(3) id r1 r2 in simp_all)
  moreover have "fresh_inv q2"
    by (rule fresh_modify [OF inv(4) jq2]) (use inv(4) assms(2,3) r1 r2 in \<open>auto simp: fresh_inv_def\<close>)
  moreover have "cancel_inv q2"
    by (rule cancel_modify [OF inv(5) jq2 assms(2,3)]) (use r1 r2 in simp_all)
  ultimately have "qinv q2" using i(3,4) by (simp add: qinv_def)
  from that [OF e(1,2) i(1) this jq2 i(2) pq2] show ?thesis .
qed

text \<open>What stays when work is put off or caught up with.\<close>

definition same_loop :: "'a queue_scheme \<Rightarrow> 'a queue_scheme \<Rightarrow> bool" where
  "same_loop q q' \<longleftrightarrow> m_sched_loop_active q' = m_sched_loop_active q \<and> dom (jobs_of q') = dom (jobs_of q)
     \<and> m_pending_cancel_provisional q' = m_pending_cancel_provisional q"

lemma same_loop_trans: "same_loop q q' \<Longrightarrow> same_loop q' q'' \<Longrightarrow> same_loop q q''"
  by (simp add: same_loop_def)

lemma reconsider_same_loop: "same_loop q (process_provisional_reconsider q)" "same_loop q (reconsider_blocked_jobs q)"
proof -
  have "same_loop q (process_provisional_reconsider q)" for q :: "'a queue_scheme"
    by (simp add: same_loop_def process_provisional_reconsider_def set_schedulability_def Let_def split: prod.split)
  from this [of q] this [of "q\<lparr>m_pending_reconsider := True\<rparr>"]
  show "same_loop q (process_provisional_reconsider q)" "same_loop q (reconsider_blocked_jobs q)"
    by (simp_all add: same_loop_def reconsider_blocked_jobs_def Let_def)
qed

lemma qinv_clear_reprio:
  assumes "qinv q"
  shows "qinv (q\<lparr>m_pending_reprio_provisional := []\<rparr>)"
proof -
  let ?q = "q\<lparr>m_pending_reprio_provisional := []\<rparr>"
  note inv = qinvD [OF assms]
  have "pend ?q = pend q" by (simp add: pend_def fun_eq_iff)
  then have "core ?q = core q" by (simp add: core_def)
  moreover have "maps_ok ?q" using inv(1) by (simp add: maps_ok_def)
  moreover have "apart ?q = apart q" by (simp add: apart_def)
  moreover have "fresh_inv ?q" using inv(4) by (auto simp: fresh_inv_def)
  moreover have "cancel_inv ?q = cancel_inv q" by (simp add: cancel_inv_def)
  ultimately show ?thesis using inv by (simp add: qinv_def)
qed

lemma reprio_loop_ok:
  assumes "qinv q" and "reprio_loop xs q = (r, q')"
  shows "qinv q' \<and> m_sched_loop_active q' = m_sched_loop_active q \<and> dom (jobs_of q') = dom (jobs_of q)
    \<and> m_pending_cancel_provisional q' = m_pending_cancel_provisional q \<and> (r = Inr 0 \<or> r = Inl ENOENT)
    \<and> (r = Inr 0 \<longleftrightarrow> (\<forall>(t, i, prio)\<in>set xs. jobs_of q i \<noteq> None))"
  using assms
proof (induction xs arbitrary: q)
  case Nil
  then show ?case using qinv_clear_reprio [of q] by auto
next
  case (Cons x xs)
  obtain t i prio where x: "x = (t, i, prio)" by (cases x)
  show ?case
  proof (cases "jobs_of q i")
    case None
    with Cons.prems x show ?thesis by auto
  next
    case (Some j)
    show ?thesis
    proof (cases "job_state j = PENDING")
      case False
      with Cons.prems x Some have "reprio_loop xs q = (r, q')" by simp
      from Cons.IH [OF Cons.prems(1) this] Some x show ?thesis by auto
    next
      case True
      obtain prov q1 q2 where s: "erase_pending_job j q = (Inr prov, q1)" "repend q q1"
          "insert_pending_job (j\<lparr>priority := prio\<rparr>) prov (modify_job i (\<lambda>j. j\<lparr>priority := prio\<rparr>) q1) = (Inr 0, q2)"
          "qinv q2" "jobs_of q2 = (jobs_of q)(i \<mapsto> j\<lparr>priority := prio\<rparr>)"
          "repend (modify_job i (\<lambda>j. j\<lparr>priority := prio\<rparr>) q1) q2"
        by (rule reprio_one [OF Cons.prems(1) Some True])
      let ?q3 = "reconsider_blocked_jobs (set_schedulability True q2)"
      have "qinv (set_schedulability True q2)" using s(4) qinv_view [of "set_schedulability True q2" q2] by simp
      then have q3: "qinv ?q3" by (rule reconsider_ok(2))
      have "reprio_loop xs ?q3 = (r, q')" using Cons.prems(2) x Some True s(1,3) by simp
      note IH = Cons.IH [OF q3 this]
      have "same_loop (set_schedulability True q2) ?q3" by (rule reconsider_same_loop)
      then have l3: "same_loop q2 ?q3" by (simp add: same_loop_def set_schedulability_def)
      have "dom (jobs_of q2) = dom (jobs_of q)" using s(5) Some by auto
      then have "same_loop q q2" using rependD [OF s(2)] rependD [OF s(6)] by (simp add: same_loop_def)
      then have l: "same_loop q ?q3" using l3 by (rule same_loop_trans)
      then have "jobs_of ?q3 i' = None \<longleftrightarrow> jobs_of q i' = None" for i' unfolding same_loop_def by (metis domIff)
      then show ?thesis using IH l x Some unfolding same_loop_def by auto
    qed
  qed
qed

lemma process_provisional_reprio_ok:
  assumes "qinv q"
  shows "qinv (snd (process_provisional_reprio q))"
    and "m_sched_loop_active (snd (process_provisional_reprio q)) = m_sched_loop_active q"
    and "dom (jobs_of (snd (process_provisional_reprio q))) = dom (jobs_of q)"
    and "m_pending_cancel_provisional (snd (process_provisional_reprio q)) = m_pending_cancel_provisional q"
  using reprio_loop_ok [OF assms] unfolding process_provisional_reprio_def by (metis prod.collapse)+

section \<open>Cancellation\<close>

definition cancel_but :: "int \<Rightarrow> 'a queue_scheme \<Rightarrow> bool" where
  "cancel_but i q \<longleftrightarrow>
     (\<forall>t i' j. i' \<noteq> i \<and> om_find t (m_pending_cancel_provisional q) = Some i' \<and> jobs_of q i' = Some j \<and> job_state j = PENDING
        \<longrightarrow> om_find (canceled_ts (stamps j)) (m_pending_cancel_provisional q) = Some i')
     \<and> (\<forall>t i i'. om_find t (m_pending_cancel_provisional q) = Some i \<and> om_find t (m_canceled q) = Some i' \<longrightarrow> i = i')"

lemma cancel_butI: "cancel_inv q \<Longrightarrow> cancel_but i q"
  by (auto simp: cancel_inv_def cancel_but_def)

lemma cancel_job_ok:
  assumes "maps_ok q" "apart q" "core q" "fresh_inv q" "cancel_but i q" and "jobs_of q i = Some j" and "job_state j = PENDING"
    and "om_find (canceled_ts (stamps j)) (m_canceled q) = None" and "canceled_ts (stamps j) < m_cancel_cnt q"
    and "\<And>i'. om_find (canceled_ts (stamps j)) (m_pending_cancel_provisional q) = Some i' \<Longrightarrow> i' = i"
  obtains q' where "cancel_job i j q = (Inr 0, q')" and "qinv q'" and "jobs_of q' = (jobs_of q)(i \<mapsto> set_state CANCELED j)"
    and "same_loop q q'"
proof -
  let ?j = "set_state CANCELED j" and ?c = "canceled_ts (stamps j)"
  note cd = coreD [OF assms(3) [unfolded core_def]]
  have id: "job_id j = i" using cd(1) assms(6) by simp
  have p: "pend q (get_key j) = Some i" using tracksD [OF cd(2) assms(6)] assms(7) by simp
  obtain prov q1 where e: "erase_pending_job j q = (Inr prov, q1)" "repend q q1" "maps_ok q1" "apart q1"
      "pend q1 = (pend q)(get_key j := None)"
    using erase_pending_job_ok [OF assms(1,2) p] by blast
  note r = rependD [OF e(2)]
  let ?q2 = "modify_job i (set_state CANCELED) q1"
  let ?q = "set_schedulability True (?q2\<lparr>m_canceled := om_assign ?c (job_id j) (m_canceled q)\<rparr>)"
  have o: "om_ok (m_canceled q)" using assms(1) by (simp add: maps_ok_def)
  have c: "cancel_job i j q = (Inr 0, ?q)" using e(1) assms(8) by (simp add: cancel_job_def om_insert_def r Let_def)
  have j: "om_find k (m_jobs ?q) = ((jobs_of q)(i \<mapsto> ?j)) k" for k using assms(6) by (simp add: set_schedulability_def r)
  have jq: "jobs_of ?q = (jobs_of q)(i \<mapsto> ?j)" by (rule ext) (rule j)
  have cq: "om_find t (m_canceled ?q) = ((\<lambda>t. om_find t (m_canceled q))(?c \<mapsto> i)) t" for t
    using o id by (simp add: set_schedulability_def om_find_assign)
  have cq': "(\<lambda>t. om_find t (m_canceled ?q)) = (\<lambda>t. om_find t (m_canceled q))(?c \<mapsto> i)" by (rule ext) (rule cq)
  have pq: "pend ?q = pend q1" by (simp add: pend_def set_schedulability_def fun_eq_iff)
  have "core ?q"
    unfolding core_def jq cq' pq e(5)
    using core_cancel [OF assms(3) [unfolded core_def] assms(6,7), of ?j] id assms(8) by (simp add: set_schedulability_def r)
  moreover have "maps_ok ?q" "apart ?q" using e(3,4) o by (simp_all add: maps_ok_def apart_def set_schedulability_def)
  moreover have "fresh_inv ?q"
  proof -
    have "pending_ts (stamps j') < m_pq_cnt q" if "jobs_of ?q i' = Some j'" "job_state j' = PENDING" for i' j'
      using that assms(4) unfolding j by (auto simp: fresh_inv_def split: if_splits)
    moreover have "om_find t (m_canceled ?q) = None" if "m_cancel_cnt q \<le> t" for t
      using that assms(4,9) unfolding cq by (auto simp: fresh_inv_def)
    ultimately show ?thesis using assms(4) by (auto simp: fresh_inv_def set_schedulability_def r)
  qed
  moreover have "cancel_inv ?q"
  proof -
    have pr: "m_pending_cancel_provisional ?q = m_pending_cancel_provisional q" by (simp add: set_schedulability_def r)
    show ?thesis
      unfolding cancel_inv_def pr
    proof (intro conjI allI impI)
      fix t i' j'
      assume "om_find t (m_pending_cancel_provisional q) = Some i' \<and> jobs_of ?q i' = Some j' \<and> job_state j' = PENDING"
      then show "om_find (canceled_ts (stamps j')) (m_pending_cancel_provisional q) = Some i'"
        using assms(5) unfolding j by (cases "i' = i") (auto simp: cancel_but_def)
    next
      fix t a b
      assume "om_find t (m_pending_cancel_provisional q) = Some a \<and> om_find t (m_canceled ?q) = Some b"
      then have ab: "om_find t (m_pending_cancel_provisional q) = Some a" "((\<lambda>t. om_find t (m_canceled q))(?c \<mapsto> i)) t = Some b"
        unfolding cq by blast+
      show "a = b"
      proof (cases "t = ?c")
        case True
        with ab assms(10) show ?thesis by simp
      next
        case False
        then have "om_find t (m_canceled q) = Some b" using ab(2) by simp
        with ab(1) assms(5) show ?thesis unfolding cancel_but_def by blast
      qed
    qed
  qed
  ultimately have "qinv ?q" by (simp add: qinv_def)
  moreover have "same_loop q ?q" using assms(6) r jq by (auto simp: same_loop_def set_schedulability_def)
  ultimately show ?thesis using that c jq by blast
qed

lemma qinv_clear_cancel:
  assumes "qinv q"
  shows "qinv (q\<lparr>m_pending_cancel_provisional := []\<rparr>)"
proof -
  let ?q = "q\<lparr>m_pending_cancel_provisional := []\<rparr>"
  note inv = qinvD [OF assms]
  have "pend ?q = pend q" by (simp add: pend_def fun_eq_iff)
  then have "core ?q = core q" by (simp add: core_def)
  moreover have "maps_ok ?q" using inv(1) by (simp add: maps_ok_def)
  moreover have "apart ?q = apart q" by (simp add: apart_def)
  moreover have "fresh_inv ?q" using inv(4) by (auto simp: fresh_inv_def)
  moreover have "cancel_inv ?q" by (simp add: cancel_inv_def)
  ultimately show ?thesis using inv by (simp add: qinv_def)
qed

lemma put_off_stamp:
  assumes "qinv q" and "om_find t (m_pending_cancel_provisional q) = Some i" and "jobs_of q i = Some j" and "job_state j = PENDING"
  shows "om_find (canceled_ts (stamps j)) (m_pending_cancel_provisional q) = Some i"
    and "om_find (canceled_ts (stamps j)) (m_canceled q) = None" and "canceled_ts (stamps j) < m_cancel_cnt q"
proof -
  note inv = qinvD [OF assms(1)]
  let ?c = "canceled_ts (stamps j)"
  show s: "om_find ?c (m_pending_cancel_provisional q) = Some i" using inv(5) assms(2-) by (auto simp: cancel_inv_def)
  show "om_find ?c (m_canceled q) = None"
  proof (rule ccontr)
    assume "om_find ?c (m_canceled q) \<noteq> None"
    then obtain i' where i': "om_find ?c (m_canceled q) = Some i'" by blast
    then have "i' = i" using s inv(5) unfolding cancel_inv_def by blast
    moreover obtain j' where "jobs_of q i' = Some j'" "CANCELED = job_state j'"
      using tracksE [OF coreD(6) [OF inv(3) [unfolded core_def]] i'] by blast
    ultimately show False using assms(3,4) by simp
  qed
  show "?c < m_cancel_cnt q"
  proof (rule ccontr)
    assume "\<not> ?c < m_cancel_cnt q"
    then have "om_find ?c (m_pending_cancel_provisional q) = None" using inv(4) by (simp add: fresh_inv_def)
    with s show False by simp
  qed
qed

definition cancel_if_pending :: "job \<Rightarrow> job" where
  "cancel_if_pending j = (if job_state j = PENDING then set_state CANCELED j else j)"

text \<open>Catching up with the cancellations fails only at a job the queue no longer knows, and
  otherwise cancels exactly the named jobs that are still pending.\<close>

lemma cancel_loop_ok:
  assumes "qinv q" and "cancel_loop xs q = (r, q')"
    and "\<And>t i. (t, i) \<in> set xs \<Longrightarrow> om_find t (m_pending_cancel_provisional q) = Some i"
  shows "qinv q' \<and> m_sched_loop_active q' = m_sched_loop_active q \<and> dom (jobs_of q') = dom (jobs_of q)
    \<and> (r = Inr 0 \<or> r = Inl ENOENT) \<and> (r = Inr 0 \<longleftrightarrow> (\<forall>(t, i)\<in>set xs. jobs_of q i \<noteq> None))
    \<and> (r = Inr 0 \<longrightarrow> m_pending_cancel_provisional q' = [] \<and>
         (\<forall>k. jobs_of q' k = (if k \<in> snd ` set xs then map_option cancel_if_pending (jobs_of q k) else jobs_of q k)))"
  using assms
proof (induction xs arbitrary: q)
  case Nil
  then show ?case using qinv_clear_cancel [of q] by auto
next
  case (Cons x xs)
  obtain t i where x: "x = (t, i)" by (cases x)
  have hit: "om_find t (m_pending_cancel_provisional q) = Some i" using Cons.prems(3) x by simp
  show ?case
  proof (cases "jobs_of q i")
    case None
    with Cons.prems(1,2) x show ?thesis by auto
  next
    case (Some j)
    show ?thesis
    proof (cases "job_state j = PENDING")
      case False
      with Cons.prems(2) x Some have "cancel_loop xs q = (r, q')" by simp
      from Cons.IH [OF Cons.prems(1) this] Cons.prems(3) Some x False show ?thesis by (auto simp: cancel_if_pending_def)
    next
      case True
      note inv = qinvD [OF Cons.prems(1)] and st = put_off_stamp [OF Cons.prems(1) hit Some True]
      obtain q1 where c: "cancel_job i j q = (Inr 0, q1)" "qinv q1" "jobs_of q1 = (jobs_of q)(i \<mapsto> set_state CANCELED j)" "same_loop q q1"
        using cancel_job_ok [OF inv(1-4) cancel_butI [OF inv(5)] Some True st(2,3)] st(1) by auto
      have "cancel_loop xs q1 = (r, q')" using Cons.prems(2) x Some True c(1) by simp
      moreover have "om_find t' (m_pending_cancel_provisional q1) = Some i'" if "(t', i') \<in> set xs" for t' i'
        using Cons.prems(3) that c(4) by (simp add: same_loop_def)
      ultimately have IH: "qinv q' \<and> m_sched_loop_active q' = m_sched_loop_active q1 \<and> dom (jobs_of q') = dom (jobs_of q1)
          \<and> (r = Inr 0 \<or> r = Inl ENOENT) \<and> (r = Inr 0 \<longleftrightarrow> (\<forall>(t, i)\<in>set xs. jobs_of q1 i \<noteq> None))
          \<and> (r = Inr 0 \<longrightarrow> m_pending_cancel_provisional q' = [] \<and>
               (\<forall>k. jobs_of q' k = (if k \<in> snd ` set xs then map_option cancel_if_pending (jobs_of q1 k) else jobs_of q1 k)))"
        using Cons.IH [OF c(2)] by blast
      have j1: "om_find k (m_jobs q1) = ((jobs_of q)(i \<mapsto> set_state CANCELED j)) k" for k using fun_cong [OF c(3)] .
      have e1: "(if k \<in> snd ` set xs then map_option cancel_if_pending (jobs_of q1 k) else jobs_of q1 k)
          = (if k \<in> snd ` set (x # xs) then map_option cancel_if_pending (jobs_of q k) else jobs_of q k)" for k
        unfolding j1 using Some True x by (auto simp: cancel_if_pending_def)
      have e2: "(\<forall>(t, i)\<in>set xs. jobs_of q1 i \<noteq> None) \<longleftrightarrow> (\<forall>(t, i)\<in>set (x # xs). jobs_of q i \<noteq> None)"
        unfolding j1 using Some x by auto
      have e3: "m_sched_loop_active q1 = m_sched_loop_active q" "dom (jobs_of q1) = dom (jobs_of q)"
        using c(4) by (simp_all add: same_loop_def)
      show ?thesis using IH unfolding e1 e2 e3 .
    qed
  qed
qed

lemma process_provisional_cancel_ok:
  assumes "qinv q" and "process_provisional_cancel q = (r, q')"
  shows "qinv q'" and "m_sched_loop_active q' = m_sched_loop_active q" and "dom (jobs_of q') = dom (jobs_of q)"
    and "r = Inr 0 \<longleftrightarrow> (\<forall>(t, i)\<in>set (m_pending_cancel_provisional q). jobs_of q i \<noteq> None)"
    and "r = Inr 0 \<Longrightarrow> m_pending_cancel_provisional q' = []"
    and "r = Inr 0 \<Longrightarrow> jobs_of q' k =
      (if k \<in> snd ` set (m_pending_cancel_provisional q) then map_option cancel_if_pending (jobs_of q k) else jobs_of q k)"
proof -
  have "om_ok (m_pending_cancel_provisional q)" using qinvD(1) [OF assms(1)] by (simp add: maps_ok_def)
  then have "om_find t (m_pending_cancel_provisional q) = Some i" if "(t, i) \<in> set (m_pending_cancel_provisional q)" for t i
    using that by (simp add: om_find_Some_iff)
  note l = cancel_loop_ok [OF assms(1) assms(2) [unfolded process_provisional_cancel_def] this]
  from l show "qinv q'" "m_sched_loop_active q' = m_sched_loop_active q" "dom (jobs_of q') = dom (jobs_of q)" by simp_all
  from l show "r = Inr 0 \<longleftrightarrow> (\<forall>(t, i)\<in>set (m_pending_cancel_provisional q). jobs_of q i \<noteq> None)" by blast
  from l show "r = Inr 0 \<Longrightarrow> m_pending_cancel_provisional q' = []" by blast
  from l show "r = Inr 0 \<Longrightarrow> jobs_of q' k =
      (if k \<in> snd ` set (m_pending_cancel_provisional q) then map_option cancel_if_pending (jobs_of q k) else jobs_of q k)" by blast
qed

section \<open>The end of the loop\<close>

lemma set_sched_loop_active_ok:
  assumes "qinv q"
  shows "qinv (snd (set_sched_loop_active b q))" and "m_sched_loop_active (snd (set_sched_loop_active b q)) = b"
    and "dom (jobs_of (snd (set_sched_loop_active b q))) = dom (jobs_of q)"
proof -
  let ?q0 = "q\<lparr>m_sched_loop_active := b\<rparr>"
  have q0: "qinv ?q0" using assms qinv_view [of ?q0 q] by simp
  have "qinv (snd (set_sched_loop_active b q)) \<and> m_sched_loop_active (snd (set_sched_loop_active b q)) = b
    \<and> dom (jobs_of (snd (set_sched_loop_active b q))) = dom (jobs_of q)"
  proof (cases "m_sched_loop_active q \<and> \<not> b")
    case True
    obtain r1 q1 where 1: "process_provisional_reprio ?q0 = (r1, q1)" by fastforce
    note o1 = process_provisional_reprio_ok [OF q0, unfolded 1 snd_conv]
    obtain r2 q2 where 2: "process_provisional_cancel q1 = (r2, q2)" by fastforce
    note o2 = process_provisional_cancel_ok(1-3) [OF o1(1) 2]
    have "snd (set_sched_loop_active b q) = process_provisional_reconsider q2"
      using True 1 2 by (simp add: set_sched_loop_active_def Let_def)
    then show ?thesis using reconsider_ok(1) [OF o2(1)] reconsider_same_loop(1) [of q2] o1 o2 by (simp add: same_loop_def)
  next
    case False
    then have "snd (set_sched_loop_active b q) = ?q0" by (auto simp: set_sched_loop_active_def Let_def)
    with q0 show ?thesis by simp
  qed
  then show "qinv (snd (set_sched_loop_active b q))" "m_sched_loop_active (snd (set_sched_loop_active b q)) = b"
    "dom (jobs_of (snd (set_sched_loop_active b q))) = dom (jobs_of q)" by simp_all
qed

end
