(* ===== verification/Queue_Interface.thy ===== *)
theory Queue_Interface
  imports Queue_Ops
begin

text \<open>
  What the queue manager may rely on: each operation of the base class keeps the invariant,
  and does to the job what it says. The operations that call the virtual method
  \<^verbatim>\<open>cancel_sched_loop\<close> are shown correct for any implementation that keeps the
  contract \<open>sched_loop\<close>; both implementations do.
\<close>

section \<open>The iterator of the loop\<close>

definition iter_on :: "pending_key iter \<Rightarrow> job_map \<Rightarrow> bool" where
  "iter_on it m \<longleftrightarrow> (case it of Singular \<Rightarrow> False | End \<Rightarrow> True | At k \<Rightarrow> om_find k m \<noteq> None)"

definition loop_inv :: "'a queue_scheme \<Rightarrow> bool" where
  "loop_inv q \<longleftrightarrow> qinv q \<and> (m_sched_loop_active q \<longrightarrow> iter_on (m_in_progress_iter q) (m_pending q))"

text \<open>While the loop is active an operation may not touch what the iterator stands on.\<close>

definition calm :: "'a queue_scheme \<Rightarrow> 'a queue_scheme \<Rightarrow> bool" where
  "calm q q' \<longleftrightarrow> m_sched_loop_active q' = m_sched_loop_active q
     \<and> (m_sched_loop_active q \<longrightarrow> m_pending q' = m_pending q \<and> m_in_progress_iter q' = m_in_progress_iter q)"

lemma calm_refl [simp]: "calm q q"
  by (simp add: calm_def)

lemma calm_trans: "calm q q' \<Longrightarrow> calm q' q'' \<Longrightarrow> calm q q''"
  by (auto simp: calm_def)

lemma loop_invI: "loop_inv q \<Longrightarrow> qinv q' \<Longrightarrow> calm q q' \<Longrightarrow> loop_inv q'"
  by (auto simp: loop_inv_def calm_def)

lemma calm_flags [simp]:
  "calm q (set_schedulability b q)" "calm q (q\<lparr>m_pending_reconsider := b\<rparr>)"
  by (simp_all add: calm_def set_schedulability_def)

lemma calm_modify [simp]: "calm q (modify_job i f q)"
  by (simp add: calm_def)

lemma calm_idle: "\<not> m_sched_loop_active q \<Longrightarrow> \<not> m_sched_loop_active q' \<Longrightarrow> calm q q'"
  by (simp add: calm_def)

lemma reconsider_calm: "calm q (reconsider_blocked_jobs q)"
proof (cases "m_sched_loop_active q")
  case False
  then show ?thesis using reconsider_same_loop(2) [of q] by (simp add: calm_idle same_loop_def)
qed (simp add: reconsider_blocked_jobs_def Let_def)

section \<open>Insertion\<close>

definition accepted :: "int \<Rightarrow> job \<Rightarrow> job" where
  "accepted t j = j\<lparr>job_state := PENDING, stamps := (stamps j)\<lparr>pending_ts := t\<rparr>\<rparr>"

lemma u64_succ: "0 \<le> c \<Longrightarrow> c + 1 < 2 ^ 64 \<Longrightarrow> u64 (c + 1) = c + 1"
  by (simp add: u64_def)

lemma q_insert_ok:
  assumes "qinv q" and "m_pq_cnt q + 1 < 2 ^ 64" and "jobs_of q (job_id j) = None"
    and "\<forall>t. om_find t (m_pending_cancel_provisional q) \<noteq> Some (job_id j)"
  obtains q' where "q_insert (Some j) q = (Inr 0, q')" and "qinv q'" and "calm q q'"
    and "jobs_of q' = (jobs_of q)(job_id j \<mapsto> accepted (m_pq_cnt q) j)"
    and "pend q' = (pend q)(get_key (accepted (m_pq_cnt q) j) \<mapsto> job_id j)"
    and "m_schedulable q'"
proof -
  note inv = qinvD [OF assms(1)]
  let ?i = "job_id j" and ?j = "accepted (m_pq_cnt q) j" and ?k = "get_key (accepted (m_pq_cnt q) j)"
  have j: "job_state ?j = PENDING" "job_id ?j = ?i" "pending_ts (stamps ?j) = m_pq_cnt q" by (simp_all add: accepted_def)
  have new: "pending_ts (stamps j') \<noteq> pending_ts (stamps ?j)" if "jobs_of q i' = Some j'" "job_state j' = PENDING" for i' j'
    using freshD(1) [OF inv(4) that] j(3) by simp
  have cj: "core_inv ((jobs_of q)(?i \<mapsto> ?j)) ((pend q)(?k \<mapsto> ?i)) (\<lambda>t. om_find t (m_running q)) (\<lambda>t. om_find t (m_alloced q))
      (\<lambda>t. om_find t (m_rejected q)) (\<lambda>t. om_find t (m_canceled q))" "pend q ?k = None"
    by (rule core_join [OF inv(3) [unfolded core_def] assms(3) j(2,1)], erule (1) new)+
  have n: "om_find ?k (m_pending q) = None" "om_find ?k (m_pending_provisional q) = None" "om_find ?k (m_blocked q) = None"
    using cj(2) by (auto simp: pend_def first_of_def split: option.splits)
  have o: "om_ok (m_pending_provisional q)" "om_ok (m_jobs q)" using inv(1) by (simp_all add: maps_ok_def)
  let ?q = "set_schedulability True (q\<lparr>m_pq_cnt := m_pq_cnt q + 1,
      m_pending_provisional := om_assign ?k ?i (m_pending_provisional q), m_jobs := om_assign ?i ?j (m_jobs q)\<rparr>)"
  have c: "0 \<le> m_pq_cnt q" using inv(4) by (simp add: fresh_inv_def)
  have e: "q_insert (Some j) q = (Inr 0, ?q)"
    using assms(3) n(2) j u64_succ [OF c assms(2)] by (simp add: q_insert_def om_insert_def Let_def accepted_def)
  have f: "om_find k (m_jobs ?q) = ((jobs_of q)(?i \<mapsto> ?j)) k" for k using o by (simp add: set_schedulability_def om_find_assign)
  have jq: "jobs_of ?q = (jobs_of q)(?i \<mapsto> ?j)" by (rule ext) (rule f)
  have pq: "pend ?q = (pend q)(?k \<mapsto> ?i)"
  proof (rule ext)
    fix k
    show "pend ?q k = ((pend q)(?k \<mapsto> ?i)) k"
      using n o by (auto simp: pend_def set_schedulability_def om_find_assign first_of_def)
  qed
  have "core ?q" unfolding core_def jq pq using cj(1) by (simp add: set_schedulability_def)
  moreover have "maps_ok ?q" using inv(1) by (simp add: maps_ok_def set_schedulability_def)
  moreover have "apart ?q"
    unfolding apart_def
  proof (intro allI)
    fix k
    show "\<not> (om_find k (m_pending ?q) \<noteq> None \<and> om_find k (m_pending_provisional ?q) \<noteq> None)
      \<and> \<not> (om_find k (m_pending ?q) \<noteq> None \<and> om_find k (m_blocked ?q) \<noteq> None)
      \<and> \<not> (om_find k (m_pending_provisional ?q) \<noteq> None \<and> om_find k (m_blocked ?q) \<noteq> None)"
      using apartD [OF inv(2), of k] n o by (cases "k = ?k") (simp_all add: set_schedulability_def om_find_assign, blast?)
  qed
  moreover have "fresh_inv ?q"
  proof -
    have "pending_ts (stamps j') < m_pq_cnt q + 1" if "jobs_of ?q i' = Some j'" "job_state j' = PENDING" for i' j'
      using that freshD(1) [OF inv(4), of i' j'] j(3) unfolding f by (cases "i' = ?i") auto
    then show ?thesis using inv(4) by (auto simp: fresh_inv_def set_schedulability_def)
  qed
  moreover have "cancel_inv ?q"
  proof -
    have "om_find (canceled_ts (stamps j')) (m_pending_cancel_provisional q) = Some i'"
      if "om_find t (m_pending_cancel_provisional q) = Some i'" "jobs_of ?q i' = Some j'" "job_state j' = PENDING" for t i' j'
      using that assms(4) inv(5) unfolding f by (cases "i' = ?i") (auto simp: cancel_inv_def)
    then show ?thesis using inv(5) by (auto simp: cancel_inv_def set_schedulability_def)
  qed
  ultimately have "qinv ?q" by (simp add: qinv_def)
  moreover have "calm q ?q" "m_schedulable ?q" by (simp_all add: calm_def set_schedulability_def)
  ultimately show ?thesis using that e jq pq by blast
qed

section \<open>Moving on\<close>

lemma om_begin_filter:
  assumes "om_ok m" and "om_begin (filter (\<lambda>(k', _). k < k') m) = At k'"
  shows "om_find k' m \<noteq> None" and "k < k'"
proof -
  obtain v r where f: "filter (\<lambda>(k', _). k < k') m = (k', v) # r"
    using assms(2) by (cases "filter (\<lambda>(k', _). k < k') m") auto
  then have "(k', v) \<in> set (filter (\<lambda>(k', _). k < k') m)" by simp
  then have "(k', v) \<in> set m" "k < k'" by auto
  with assms(1) show "om_find k' m \<noteq> None" "k < k'" by (auto simp: om_find_Some_iff [symmetric])
qed

lemma om_begin_on: "iter_on (om_begin m) m"
  by (cases m) (auto simp: iter_on_def om_find_def)

lemma om_begin_not_singular: "om_begin m \<noteq> Singular"
  by (cases m) auto

text \<open>The position after \<open>k\<close> is a valid one, also once \<open>k\<close> is erased.\<close>

lemma om_after_on:
  assumes "om_ok m"
  shows "iter_on (om_begin (filter (\<lambda>(k', _). k < k') m)) (om_erase k m)"
    and "iter_on (om_begin (filter (\<lambda>(k', _). k < k') m)) m"
proof -
  let ?it = "om_begin (filter (\<lambda>(k', _). k < k') m)"
  have "iter_on ?it (om_erase k m) \<and> iter_on ?it m"
  proof (cases ?it)
    case Singular
    then show ?thesis using om_begin_not_singular by blast
  next
    case (At k')
    with om_begin_filter [OF assms At] show ?thesis unfolding At by (simp add: iter_on_def om_find_erase)
  qed (simp add: iter_on_def)
  then show "iter_on ?it (om_erase k m)" "iter_on ?it m" by simp_all
qed

lemma pend_pending:
  assumes "qinv q" and "om_find k (m_pending q) = Some i"
  obtains j where "jobs_of q i = Some j" and "job_state j = PENDING" and "get_key j = k" and "job_id j = i" and "pend q k = Some i"
proof -
  note inv = qinvD [OF assms(1)]
  have p: "pend q k = Some i" using assms(2) by (simp add: pend_def first_of_def)
  from tracksE [OF coreD(2) [OF inv(3) [unfolded core_def]] p] obtain j where j: "jobs_of q i = Some j" "PENDING = job_state j" "get_key j = k" .
  with that [of j] p qinv_job(1) [OF assms(1) j(1)] show ?thesis by simp
qed

lemma erase_pend:
  assumes "apart q" and "om_find k (m_pending q) \<noteq> None" and "m_pending q' = om_erase k (m_pending q)"
    and "m_pending_provisional q' = m_pending_provisional q" "m_blocked q' = m_blocked q"
  shows "pend q' = (pend q)(k := None)" and "apart q'"
proof -
  show "pend q' = (pend q)(k := None)"
  proof (rule ext)
    fix k'
    show "pend q' k' = ((pend q)(k := None)) k'"
      using apartD [OF assms(1), of k] assms(2-) by (cases "k' = k") (auto simp: pend_def om_find_erase first_of_def)
  qed
  show "apart q'" unfolding apart_def
  proof (intro allI)
    fix k'
    show "\<not> (om_find k' (m_pending q') \<noteq> None \<and> om_find k' (m_pending_provisional q') \<noteq> None)
      \<and> \<not> (om_find k' (m_pending q') \<noteq> None \<and> om_find k' (m_blocked q') \<noteq> None)
      \<and> \<not> (om_find k' (m_pending_provisional q') \<noteq> None \<and> om_find k' (m_blocked q') \<noteq> None)"
      using apartD [OF assms(1), of k'] unfolding assms(3-5) by (auto simp: om_find_erase)
  qed
qed

lemma cancel_leave:
  assumes "cancel_inv q" and "jobs_of q' = (jobs_of q)(i \<mapsto> j')" and "job_state j' \<noteq> PENDING"
    and "m_canceled q' = m_canceled q" "m_pending_cancel_provisional q' = m_pending_cancel_provisional q"
  shows "cancel_inv q'"
  unfolding cancel_inv_def assms(4,5)
proof (intro conjI allI impI)
  fix t i' j''
  assume "om_find t (m_pending_cancel_provisional q) = Some i' \<and> jobs_of q' i' = Some j'' \<and> job_state j'' = PENDING"
  then show "om_find (canceled_ts (stamps j'')) (m_pending_cancel_provisional q) = Some i'"
    using assms(1,3) fun_cong [OF assms(2), of i'] by (cases "i' = i") (auto simp: cancel_inv_def)
next
  fix t i' i''
  assume "om_find t (m_pending_cancel_provisional q) = Some i' \<and> om_find t (m_canceled q) = Some i''"
  then show "i' = i''" using assms(1) unfolding cancel_inv_def by blast
qed

definition started :: "int \<Rightarrow> job \<Rightarrow> job" where
  "started t j = j\<lparr>stamps := (stamps j)\<lparr>running_ts := t\<rparr>, job_state := ALLOC_RUNNING\<rparr>"

definition turned_down :: "int \<Rightarrow> string \<Rightarrow> job \<Rightarrow> job" where
  "turned_down t msg j = j\<lparr>job_state := REJECTED, job_note := msg, stamps := (stamps j)\<lparr>rejected_ts := t\<rparr>\<rparr>"

lemma map_upd_map: "(\<lambda>(k, j). (k, if k = i then f j else j)) \<circ> (\<lambda>(k, j). (k, if k = i then g j else j))
    = (\<lambda>(k, j). (k, if k = i then f (g j) else j))"
  by auto

lemma modify_modify: "modify_job i f (modify_job i g q) = modify_job i (\<lambda>j. f (g j)) q"
  by (simp add: modify_job_def map_upd_map)

lemma to_running_eq:
  assumes "om_find k (m_pending q) = Some i" and "jobs_of q i = Some j"
    and "om_find (m_rq_cnt q) (m_running q) = None" and "om_find (m_rq_cnt q) (m_alloced q) = None"
  shows "to_running k True q = Some (om_begin (filter (\<lambda>(k', _). k < k') (m_pending q)),
    erase_pending k ((modify_job i (started (m_rq_cnt q)) (q\<lparr>m_rq_cnt := u64 (m_rq_cnt q + 1), m_running := om_assign (m_rq_cnt q) (job_id j) (m_running q)\<rparr>))
      \<lparr>m_alloced := om_assign (m_rq_cnt q) (job_id j) (m_alloced q),
       m_scheduled := True\<rparr>))"
  using assms by (simp add: to_running_def om_insert_def Let_def modify_job_def map_upd_map started_def cong: if_cong)

lemma no_alloced:
  assumes "qinv q" and "m_rq_cnt q \<le> t"
  shows "om_find t (m_alloced q) = None"
proof (rule ccontr)
  note inv = qinvD [OF assms(1)] and cd = coreD [OF qinvD(3) [OF assms(1), unfolded core_def]]
  assume "om_find t (m_alloced q) \<noteq> None"
  then obtain i where "om_find t (m_alloced q) = Some i" by blast
  then obtain j where "jobs_of q i = Some j" "ALLOC_RUNNING = job_state j" "run_key j = t"
    using cd(4) unfolding within_def by blast
  then have "om_find t (m_running q) = Some i" using tracksD [OF cd(3), of i j] by (simp add: running_state_def)
  with freshD(2) [OF inv(4) assms(2)] show False by simp
qed

lemma to_running_ok:
  assumes "qinv q" and "om_find k (m_pending q) = Some i" and "m_rq_cnt q + 1 < 2 ^ 64" and "jobs_of q i = Some j"
  obtains q' where "to_running k True q = Some (om_begin (filter (\<lambda>(k', _). k < k') (m_pending q)), q')" and "qinv q'"
    and "jobs_of q' = (jobs_of q)(i \<mapsto> started (m_rq_cnt q) j)" and "m_pending q' = om_erase k (m_pending q)"
    and "m_sched_loop_active q' = m_sched_loop_active q" and "om_find (m_rq_cnt q) (m_alloced q') = Some i"
    and "queue.more q' = queue.more q" and "m_pending_reconsider q' = m_pending_reconsider q"
proof -
  note inv = qinvD [OF assms(1)]
  let ?t = "m_rq_cnt q" and ?j = "started (m_rq_cnt q) j"
  from pend_pending [OF assms(1,2)] assms(4) have j: "job_state j = PENDING" "get_key j = k" "job_id j = i" by auto
  have n: "om_find ?t (m_running q) = None" "om_find ?t (m_alloced q) = None"
    using freshD(2) [OF inv(4)] no_alloced [OF assms(1)] by simp_all
  let ?q = "erase_pending k ((modify_job i (started ?t) (q\<lparr>m_rq_cnt := ?t + 1, m_running := om_assign ?t i (m_running q)\<rparr>))
      \<lparr>m_alloced := om_assign ?t i (m_alloced q), m_scheduled := True\<rparr>)"
  have e: "to_running k True q = Some (om_begin (filter (\<lambda>(k', _). k < k') (m_pending q)), ?q)"
    using to_running_eq [OF assms(2,4) n] u64_succ [OF freshD(8) [OF inv(4)] assms(3)] j(3) by simp
  have f: "om_find i' (m_jobs ?q) = ((jobs_of q)(i \<mapsto> ?j)) i'" for i'
    using assms(4) by (simp add: erase_pending_def)
  have jq: "jobs_of ?q = (jobs_of q)(i \<mapsto> ?j)" by (rule ext) (rule f)
  have o: "om_ok (m_running q)" "om_ok (m_alloced q)" using inv(1) by (simp_all add: maps_ok_def)
  have R: "(\<lambda>t. om_find t (m_running ?q)) = (\<lambda>t. om_find t (m_running q))(?t \<mapsto> i)"
    and A: "(\<lambda>t. om_find t (m_alloced ?q)) = (\<lambda>t. om_find t (m_alloced q))(?t \<mapsto> i)"
    using o by (auto simp: erase_pending_def om_find_assign)
  have p: "pend ?q = (pend q)(k := None)" "apart ?q"
    by (rule erase_pend [OF inv(2), of k]; use assms(2) in \<open>simp add: erase_pending_def\<close>)+
  have "core ?q"
    using core_start [OF inv(3) [unfolded core_def] assms(4) j(1), of ?j] j n(1)
    unfolding core_def jq p R A by (simp add: started_def erase_pending_def)
  moreover have "maps_ok ?q" using inv(1) by (simp add: maps_ok_def erase_pending_def)
  moreover have "fresh_inv ?q"
  proof -
    have 1: "pending_ts (stamps j') < m_pq_cnt ?q" if "jobs_of ?q i' = Some j'" "job_state j' = PENDING" for i' j'
      using that freshD(1) [OF inv(4), of i' j'] unfolding f by (cases "i' = i") (auto simp: started_def erase_pending_def)
    have 2: "om_find t (m_running ?q) = None" if "?t + 1 \<le> t" for t
      using that fun_cong [OF R, of t] freshD(2) [OF inv(4), of t] by simp
    show ?thesis
      by (rule freshI, erule (1) 1) (use freshD(2-) [OF inv(4)] 2 in \<open>simp_all add: erase_pending_def\<close>)
  qed
  moreover have "cancel_inv ?q"
    by (rule cancel_leave [OF inv(5) jq]) (simp_all add: started_def erase_pending_def)
  ultimately have "qinv ?q" using p(2) by (simp add: qinv_def)
  moreover have "om_find ?t (m_alloced ?q) = Some i" using fun_cong [OF A, of ?t] by simp
  ultimately show ?thesis using that [OF e _ jq] by (simp add: erase_pending_def modify_job_def)
qed

lemma to_rejected_eq:
  assumes "om_find k (m_pending q) = Some i" and "jobs_of q i = Some j" and "om_find (m_dq_cnt q) (m_rejected q) = None"
  shows "to_rejected k msg q = Some (om_begin (filter (\<lambda>(k', _). k < k') (m_pending q)),
    erase_pending k ((modify_job i (turned_down (m_dq_cnt q) msg) (q\<lparr>m_dq_cnt := u64 (m_dq_cnt q + 1)\<rparr>))
      \<lparr>m_rejected := om_assign (m_dq_cnt q) (job_id j) (m_rejected q), m_scheduled := True\<rparr>))"
  using assms by (simp add: to_rejected_def om_insert_def Let_def modify_job_def turned_down_def cong: if_cong)

lemma to_rejected_ok:
  assumes "qinv q" and "om_find k (m_pending q) = Some i" and "m_dq_cnt q + 1 < 2 ^ 64" and "jobs_of q i = Some j"
  obtains q' where "to_rejected k msg q = Some (om_begin (filter (\<lambda>(k', _). k < k') (m_pending q)), q')" and "qinv q'"
    and "jobs_of q' = (jobs_of q)(i \<mapsto> turned_down (m_dq_cnt q) msg j)" and "m_pending q' = om_erase k (m_pending q)"
    and "m_sched_loop_active q' = m_sched_loop_active q" and "om_find (m_dq_cnt q) (m_rejected q') = Some i"
    and "queue.more q' = queue.more q" and "m_pending_reconsider q' = m_pending_reconsider q"
proof -
  note inv = qinvD [OF assms(1)]
  let ?t = "m_dq_cnt q" and ?j = "turned_down (m_dq_cnt q) msg j"
  from pend_pending [OF assms(1,2)] assms(4) have j: "job_state j = PENDING" "get_key j = k" "job_id j = i" by auto
  have n: "om_find ?t (m_rejected q) = None" using freshD(3) [OF inv(4)] by simp
  let ?q = "erase_pending k ((modify_job i (turned_down ?t msg) (q\<lparr>m_dq_cnt := ?t + 1\<rparr>))
      \<lparr>m_rejected := om_assign ?t i (m_rejected q), m_scheduled := True\<rparr>)"
  have e: "to_rejected k msg q = Some (om_begin (filter (\<lambda>(k', _). k < k') (m_pending q)), ?q)"
    using to_rejected_eq [OF assms(2,4) n] u64_succ [OF freshD(9) [OF inv(4)] assms(3)] j(3) by simp
  have f: "om_find i' (m_jobs ?q) = ((jobs_of q)(i \<mapsto> ?j)) i'" for i'
    using assms(4) by (simp add: erase_pending_def)
  have jq: "jobs_of ?q = (jobs_of q)(i \<mapsto> ?j)" by (rule ext) (rule f)
  have o: "om_ok (m_rejected q)" using inv(1) by (simp add: maps_ok_def)
  have D: "(\<lambda>t. om_find t (m_rejected ?q)) = (\<lambda>t. om_find t (m_rejected q))(?t \<mapsto> i)"
    using o by (auto simp: erase_pending_def om_find_assign)
  have p: "pend ?q = (pend q)(k := None)" "apart ?q"
    by (rule erase_pend [OF inv(2), of k]; use assms(2) in \<open>simp add: erase_pending_def\<close>)+
  have "core ?q"
    using core_reject [OF inv(3) [unfolded core_def] assms(4) j(1), of ?j] j
    unfolding core_def jq p D by (simp add: turned_down_def erase_pending_def)
  moreover have "maps_ok ?q" using inv(1) by (simp add: maps_ok_def erase_pending_def)
  moreover have "fresh_inv ?q"
  proof -
    have 1: "pending_ts (stamps j') < m_pq_cnt ?q" if "jobs_of ?q i' = Some j'" "job_state j' = PENDING" for i' j'
      using that freshD(1) [OF inv(4), of i' j'] unfolding f by (cases "i' = i") (auto simp: turned_down_def erase_pending_def)
    have 2: "om_find t (m_rejected ?q) = None" if "?t + 1 \<le> t" for t
      using that fun_cong [OF D, of t] freshD(3) [OF inv(4), of t] by simp
    show ?thesis
      by (rule freshI, erule (1) 1) (use freshD(2-) [OF inv(4)] 2 in \<open>simp_all add: erase_pending_def\<close>)
  qed
  moreover have "cancel_inv ?q"
    by (rule cancel_leave [OF inv(5) jq]) (simp_all add: turned_down_def erase_pending_def)
  ultimately have "qinv ?q" using p(2) by (simp add: qinv_def)
  moreover have "om_find ?t (m_rejected ?q) = Some i" using fun_cong [OF D, of ?t] by simp
  ultimately show ?thesis using that [OF e _ jq] by (simp add: erase_pending_def modify_job_def)
qed

section \<open>Handing over\<close>

lemma pend_upd [simp]:
  "pend (q\<lparr>m_alloced := m\<rparr>) = pend q" "pend (q\<lparr>m_running := m\<rparr>) = pend q" "pend (q\<lparr>m_rejected := m\<rparr>) = pend q"
  "pend (q\<lparr>m_canceled := m\<rparr>) = pend q" "pend (q\<lparr>m_jobs := js\<rparr>) = pend q" "pend (q\<lparr>m_cq_cnt := c\<rparr>) = pend q"
  "pend (q\<lparr>m_rq_cnt := c\<rparr>) = pend q" "pend (q\<lparr>m_cancel_cnt := c\<rparr>) = pend q" "pend (q\<lparr>m_reprio_cnt := c\<rparr>) = pend q"
  "pend (q\<lparr>m_pending_cancel_provisional := m\<rparr>) = pend q" "pend (q\<lparr>m_pending_reprio_provisional := r\<rparr>) = pend q"
  "pend (set_schedulability b q) = pend q"
  by (simp_all add: pend_def set_schedulability_def fun_eq_iff)

lemma om_pop:
  assumes "om_ok m" and "m = (k, v) # m'"
  shows "om_find k m = Some v" and "om_erase k m = m'"
  using assms by (auto simp: om_find_def om_erase_def om_ok_Cons filter_id_conv)

lemma fresh_less:
  assumes "fresh_inv q" and "\<And>i j. jobs_of q' i = Some j \<Longrightarrow> jobs_of q i = Some j"
    and "\<And>t. om_find t (m_running q) = None \<Longrightarrow> om_find t (m_running q') = None"
    and "\<And>t. om_find t (m_rejected q) = None \<Longrightarrow> om_find t (m_rejected q') = None"
    and "\<And>t. om_find t (m_canceled q) = None \<Longrightarrow> om_find t (m_canceled q') = None"
    and "m_pending_cancel_provisional q' = m_pending_cancel_provisional q"
    "m_pending_reprio_provisional q' = m_pending_reprio_provisional q" "m_pq_cnt q' = m_pq_cnt q" "m_rq_cnt q' = m_rq_cnt q"
    "m_dq_cnt q' = m_dq_cnt q" "m_cancel_cnt q' = m_cancel_cnt q" "m_reprio_cnt q' = m_reprio_cnt q"
  shows "fresh_inv q'"
proof (rule freshI)
  fix i j
  assume "jobs_of q' i = Some j" and "job_state j = PENDING"
  then show "pending_ts (stamps j) < m_pq_cnt q'" using freshD(1) [OF assms(1), of i j] assms(2) [of i j] assms(8) by simp
qed (use freshD(2-) [OF assms(1)] assms(3-) in simp_all)

lemma cancel_less:
  assumes "cancel_inv q" and "\<And>i j. jobs_of q' i = Some j \<Longrightarrow> jobs_of q i = Some j"
    and "\<And>t i. om_find t (m_canceled q') = Some i \<Longrightarrow> om_find t (m_canceled q) = Some i"
    and "m_pending_cancel_provisional q' = m_pending_cancel_provisional q"
  shows "cancel_inv q'"
  using assms unfolding cancel_inv_def by (metis (lifting))

text \<open>Each of these hands over the entry with the least stamp.\<close>

lemma alloced_pop_ok:
  assumes "qinv q"
  shows "qinv (snd (alloced_pop q))" and "calm q (snd (alloced_pop q))"
    and "fst (alloced_pop q) = (case m_alloced q of [] \<Rightarrow> None | (t, i) # _ \<Rightarrow> jobs_of q i)"
    and "m_alloced (snd (alloced_pop q)) = tl (m_alloced q)"
    and "jobs_of (snd (alloced_pop q)) = jobs_of q"
proof -
  note inv = qinvD [OF assms]
  have "qinv (snd (alloced_pop q)) \<and> calm q (snd (alloced_pop q))
    \<and> fst (alloced_pop q) = (case m_alloced q of [] \<Rightarrow> None | (t, i) # _ \<Rightarrow> jobs_of q i)
    \<and> m_alloced (snd (alloced_pop q)) = tl (m_alloced q) \<and> jobs_of (snd (alloced_pop q)) = jobs_of q"
  proof (cases "m_alloced q")
    case Nil
    then show ?thesis using assms by (simp add: alloced_pop_def)
  next
    case (Cons e m)
    obtain t i where e: "e = (t, i)" by (cases e)
    have o: "om_ok (m_alloced q)" using inv(1) by (simp add: maps_ok_def)
    note pop = om_pop [OF o Cons [unfolded e]]
    obtain j where j: "jobs_of q i = Some j" "run_key j = t"
      using coreD(4) [OF inv(3) [unfolded core_def]] pop(1) unfolding within_def by blast
    let ?q = "q\<lparr>m_alloced := om_erase t (m_alloced q)\<rparr>"
    have p: "alloced_pop q = (Some j, ?q)" using Cons e j by (simp add: alloced_pop_def)
    have "(\<lambda>t. om_find t (m_alloced ?q)) = (\<lambda>t. om_find t (m_alloced q))(t := None)" by (auto simp: om_find_erase)
    then have "core ?q"
      unfolding core_def using core_pop(1) [OF inv(3) [unfolded core_def], of t] by simp
    moreover have "maps_ok ?q" using inv(1) by (simp add: maps_ok_def)
    moreover have "apart ?q" using inv(2) by (simp add: apart_def)
    moreover have "fresh_inv ?q" by (rule fresh_less [OF inv(4)]) simp_all
    moreover have "cancel_inv ?q" by (rule cancel_less [OF inv(5)]) simp_all
    ultimately show ?thesis using p Cons e j(1) pop(2) by (simp add: qinv_def calm_def)
  qed
  then show "qinv (snd (alloced_pop q))" "calm q (snd (alloced_pop q))"
    "fst (alloced_pop q) = (case m_alloced q of [] \<Rightarrow> None | (t, i) # _ \<Rightarrow> jobs_of q i)"
    "m_alloced (snd (alloced_pop q)) = tl (m_alloced q)" "jobs_of (snd (alloced_pop q)) = jobs_of q" by simp_all
qed

lemma rejected_pop_ok:
  assumes "qinv q"
  shows "qinv (snd (rejected_pop q)) \<and> calm q (snd (rejected_pop q))
    \<and> fst (rejected_pop q) = (case m_rejected q of [] \<Rightarrow> None | (t, i) # _ \<Rightarrow> jobs_of q i)
    \<and> m_rejected (snd (rejected_pop q)) = tl (m_rejected q) \<and> jobs_of (snd (rejected_pop q)) = jobs_of q"
proof (cases "m_rejected q")
  case Nil
  then show ?thesis using assms by (simp add: rejected_pop_def)
next
  case (Cons e m)
  note inv = qinvD [OF assms]
  obtain t i where e: "e = (t, i)" by (cases e)
  have o: "om_ok (m_rejected q)" using inv(1) by (simp add: maps_ok_def)
  note pop = om_pop [OF o Cons [unfolded e]]
  obtain j where j: "jobs_of q i = Some j" "rejected_ts (stamps j) = t"
    using coreD(5) [OF inv(3) [unfolded core_def]] pop(1) unfolding within_def by blast
  let ?q = "q\<lparr>m_rejected := om_erase t (m_rejected q)\<rparr>"
  have p: "rejected_pop q = (Some j, ?q)" using Cons e j by (simp add: rejected_pop_def)
  have "(\<lambda>t. om_find t (m_rejected ?q)) = (\<lambda>t. om_find t (m_rejected q))(t := None)" by (auto simp: om_find_erase)
  then have "core ?q"
    unfolding core_def using core_pop(2) [OF inv(3) [unfolded core_def], of t] by simp
  moreover have "maps_ok ?q" using inv(1) by (simp add: maps_ok_def)
  moreover have "apart ?q" using inv(2) by (simp add: apart_def)
  moreover have "fresh_inv ?q" by (rule fresh_less [OF inv(4)]) (simp_all add: om_find_erase)
  moreover have "cancel_inv ?q" by (rule cancel_less [OF inv(5)]) simp_all
  ultimately show ?thesis using p Cons e j(1) pop(2) by (simp add: qinv_def calm_def)
qed

text \<open>Dropping a job from \<open>m_jobs\<close> together with its entries.\<close>

lemma qinv_drop:
  assumes "qinv q" and "jobs_of q i = Some j" and "job_state j \<noteq> REJECTED" and "maps_ok q'" and "apart q'"
    and "jobs_of q' = (jobs_of q)(i := None)"
    and "pend q' = (if job_state j = PENDING then (pend q)(get_key j := None) else pend q)"
    and "(\<lambda>t. om_find t (m_running q')) =
      (if running_state (job_state j) then (\<lambda>t. om_find t (m_running q))(run_key j := None) else (\<lambda>t. om_find t (m_running q)))"
    and "(\<lambda>t. om_find t (m_alloced q')) =
      (if running_state (job_state j) then (\<lambda>t. om_find t (m_alloced q))(run_key j := None) else (\<lambda>t. om_find t (m_alloced q)))"
    and "(\<lambda>t. om_find t (m_canceled q')) =
      (if job_state j = CANCELED then (\<lambda>t. om_find t (m_canceled q))(canceled_ts (stamps j) := None) else (\<lambda>t. om_find t (m_canceled q)))"
    and "m_rejected q' = m_rejected q" "m_pending_cancel_provisional q' = m_pending_cancel_provisional q"
    "m_pending_reprio_provisional q' = m_pending_reprio_provisional q" "m_pq_cnt q' = m_pq_cnt q" "m_rq_cnt q' = m_rq_cnt q"
    "m_dq_cnt q' = m_dq_cnt q" "m_cancel_cnt q' = m_cancel_cnt q" "m_reprio_cnt q' = m_reprio_cnt q"
  shows "qinv q'"
proof -
  note inv = qinvD [OF assms(1)]
  have j: "om_find i' (m_jobs q') = ((jobs_of q)(i := None)) i'" for i' using fun_cong [OF assms(6)] .
  have c: "om_find t (m_canceled q) = Some i'" if "om_find t (m_canceled q') = Some i'" for t i'
    using that fun_cong [OF assms(10), of t] by (auto split: if_splits)
  have r: "om_find t (m_running q) = Some i'" if "om_find t (m_running q') = Some i'" for t i'
    using that fun_cong [OF assms(8), of t] by (auto split: if_splits)
  have "core q'"
    unfolding core_def assms(6,11) by (rule core_drop [OF inv(3) [unfolded core_def] assms(2,7-10,3)])
  moreover have "fresh_inv q'"
  proof (rule fresh_less [OF inv(4)])
    show "jobs_of q' i' = Some j' \<Longrightarrow> jobs_of q i' = Some j'" for i' j' unfolding j by (simp split: if_splits)
    show "om_find t (m_running q) = None \<Longrightarrow> om_find t (m_running q') = None" for t using r [of t] by (cases "om_find t (m_running q')") auto
    show "om_find t (m_canceled q) = None \<Longrightarrow> om_find t (m_canceled q') = None" for t using c [of t] by (cases "om_find t (m_canceled q')") auto
  qed (use assms(11-) in simp_all)
  moreover have "cancel_inv q'"
  proof (rule cancel_less [OF inv(5)])
    show "jobs_of q' i' = Some j' \<Longrightarrow> jobs_of q i' = Some j'" for i' j' unfolding j by (simp split: if_splits)
  qed (use c assms(12) in simp_all)
  ultimately show ?thesis using assms(4,5) by (simp add: qinv_def)
qed

lemma canceled_pop_ok:
  assumes "qinv q"
  shows "qinv (snd (canceled_pop q)) \<and> calm q (snd (canceled_pop q))
    \<and> fst (canceled_pop q) = (case m_canceled q of [] \<Rightarrow> None | (t, i) # _ \<Rightarrow> jobs_of q i)
    \<and> m_canceled (snd (canceled_pop q)) = tl (m_canceled q)
    \<and> jobs_of (snd (canceled_pop q)) = (case m_canceled q of [] \<Rightarrow> jobs_of q | (t, i) # _ \<Rightarrow> (jobs_of q)(i := None))"
proof (cases "m_canceled q")
  case Nil
  then show ?thesis using assms by (simp add: canceled_pop_def)
next
  case (Cons e m)
  note inv = qinvD [OF assms]
  obtain t i where e: "e = (t, i)" by (cases e)
  have o: "om_ok (m_canceled q)" using inv(1) by (simp add: maps_ok_def)
  note pop = om_pop [OF o Cons [unfolded e]]
  obtain j where j: "jobs_of q i = Some j" "CANCELED = job_state j" "canceled_ts (stamps j) = t"
    using tracksE [OF coreD(6) [OF inv(3) [unfolded core_def]] pop(1)] by blast
  let ?q = "q\<lparr>m_canceled := om_erase t (m_canceled q), m_jobs := om_erase i (m_jobs q)\<rparr>"
  have p: "canceled_pop q = (Some j, ?q)" using Cons e j by (simp add: canceled_pop_def)
  have jq: "jobs_of ?q = (jobs_of q)(i := None)" by (auto simp: om_find_erase)
  have "qinv ?q"
    by (rule qinv_drop [OF assms j(1)])
       (use inv(1,2) j(2,3) in \<open>auto simp: maps_ok_def apart_def running_state_def om_find_erase\<close>)
  then show ?thesis using p Cons e j(1) pop(2) jq by (simp add: calm_def)
qed

lemma pending_pop_ok:
  assumes "qinv q" and "\<not> m_sched_loop_active q"
  shows "qinv (snd (pending_pop q)) \<and> \<not> m_sched_loop_active (snd (pending_pop q))
    \<and> fst (pending_pop q) = (case m_pending q of [] \<Rightarrow> None | (k, i) # _ \<Rightarrow> jobs_of q i)
    \<and> m_pending (snd (pending_pop q)) = tl (m_pending q)"
proof (cases "m_pending q")
  case Nil
  then show ?thesis using assms by (simp add: pending_pop_def)
next
  case (Cons e m)
  note inv = qinvD [OF assms(1)]
  obtain k i where e: "e = (k, i)" by (cases e)
  have o: "om_ok (m_pending q)" using inv(1) by (simp add: maps_ok_def)
  note pop = om_pop [OF o Cons [unfolded e]]
  from pend_pending [OF assms(1) pop(1)] obtain j where j: "jobs_of q i = Some j" "job_state j = PENDING" "get_key j = k" .
  let ?q = "(erase_pending k q)\<lparr>m_jobs := om_erase i (m_jobs q)\<rparr>"
  have p: "pending_pop q = (Some j, ?q)" using Cons e j by (simp add: pending_pop_def)
  have ep: "pend ?q = (pend q)(k := None)" "apart ?q"
    by (rule erase_pend [OF inv(2), of k]; use pop(1) in \<open>simp add: erase_pending_def\<close>)+
  have jq: "jobs_of ?q = (jobs_of q)(i := None)" by (auto simp: om_find_erase)
  have m: "maps_ok ?q" using inv(1) by (simp add: maps_ok_def erase_pending_def)
  have "qinv ?q"
    by (rule qinv_drop [OF assms(1) j(1) _ m ep(2) jq])
       (use j ep(1) in \<open>simp_all add: erase_pending_def running_state_def\<close>)
  then show ?thesis using p Cons e j(1) pop(2) assms(2) by (simp add: erase_pending_def)
qed

section \<open>Running jobs\<close>

lemma reconstruct_queue_ok:
  assumes "qinv q" and "m_rq_cnt q + 1 < 2 ^ 64" and "job_state j = RUNNING" and "jobs_of q (job_id j) = None"
  obtains q' where "reconstruct_queue (Some j) q = (Inr 0, q')" and "qinv q'" and "calm q q'"
    and "jobs_of q' = (jobs_of q)(job_id j \<mapsto> j\<lparr>stamps := (stamps j)\<lparr>running_ts := m_rq_cnt q\<rparr>\<rparr>)"
    and "om_find (m_rq_cnt q) (m_running q') = Some (job_id j)"
proof -
  note inv = qinvD [OF assms(1)]
  let ?t = "m_rq_cnt q" and ?i = "job_id j" and ?j = "j\<lparr>stamps := (stamps j)\<lparr>running_ts := m_rq_cnt q\<rparr>\<rparr>"
  let ?q = "q\<lparr>m_rq_cnt := ?t + 1, m_running := om_assign ?t ?i (m_running q), m_jobs := om_assign ?i ?j (m_jobs q)\<rparr>"
  have n: "om_find ?t (m_running q) = None" using freshD(2) [OF inv(4)] by simp
  have e: "reconstruct_queue (Some j) q = (Inr 0, ?q)"
    using assms(4) n u64_succ [OF freshD(8) [OF inv(4)] assms(2)]
    by (simp add: reconstruct_queue_def Let_def om_insert_def)
  have o: "om_ok (m_running q)" "om_ok (m_jobs q)" using inv(1) by (simp_all add: maps_ok_def)
  have f: "om_find i' (m_jobs ?q) = ((jobs_of q)(?i \<mapsto> ?j)) i'" for i' using o by (simp add: om_find_assign)
  have jq: "jobs_of ?q = (jobs_of q)(?i \<mapsto> ?j)" by (rule ext) (rule f)
  have R: "(\<lambda>t. om_find t (m_running ?q)) = (\<lambda>t. om_find t (m_running q))(?t \<mapsto> ?i)" using o by (auto simp: om_find_assign)
  have "core ?q"
    unfolding core_def jq R using core_rejoin [OF inv(3) [unfolded core_def] assms(4), of ?j] assms(3) n by simp
  moreover have "maps_ok ?q" using inv(1) by (simp add: maps_ok_def)
  moreover have "apart ?q" using inv(2) by (simp add: apart_def)
  moreover have "fresh_inv ?q"
  proof -
    have 1: "pending_ts (stamps j') < m_pq_cnt ?q" if "jobs_of ?q i' = Some j'" "job_state j' = PENDING" for i' j'
      using that freshD(1) [OF inv(4), of i' j'] assms(3) unfolding f by (cases "i' = ?i") auto
    have 2: "om_find t (m_running ?q) = None" if "?t + 1 \<le> t" for t
      using that fun_cong [OF R, of t] freshD(2) [OF inv(4), of t] by simp
    show ?thesis by (rule freshI, erule (1) 1) (use freshD(2-) [OF inv(4)] 2 in simp_all)
  qed
  moreover have "cancel_inv ?q" by (rule cancel_leave [OF inv(5) jq]) (simp_all add: assms(3))
  ultimately have "qinv ?q" by (simp add: qinv_def)
  moreover have "calm q ?q" by (simp add: calm_def)
  moreover have "om_find ?t (m_running ?q) = Some ?i" using fun_cong [OF R, of ?t] by simp
  ultimately show ?thesis using that e jq by blast
qed

lemma remove_running_ok:
  assumes "qinv q" and "jobs_of q i = Some j" and "running_state (job_state j)"
  shows "qinv (snd (remove_running api i j fin R q))" and "calm q (snd (remove_running api i j fin R q))"
    and "fst (remove_running api i j fin R q) = Inr 0 \<Longrightarrow> fin \<Longrightarrow> jobs_of (snd (remove_running api i j fin R q)) = (jobs_of q)(i := None)"
proof -
  note inv = qinvD [OF assms(1)]
  let ?sched = "set_schedulability True q"
  let ?q = "?sched\<lparr>m_alloced := om_erase (run_key j) (m_alloced q), m_running := om_erase (run_key j) (m_running q),
      m_cq_cnt := u64 (m_cq_cnt q + 1), m_jobs := om_erase i (m_jobs q)\<rparr>"
  have q0: "qinv ?sched" using assms(1) qinv_view [of ?sched q] by simp
  have j0: "jobs_of ?sched i = Some j" using assms(2) by (simp add: set_schedulability_def)
  have jq: "jobs_of ?q = (jobs_of q)(i := None)" by (auto simp: om_find_erase)
  have jq0: "jobs_of ?q = (jobs_of ?sched)(i := None)" unfolding jq by (simp add: set_schedulability_def)
  have m: "maps_ok ?q" "apart ?q" using inv(1,2) by (simp_all add: maps_ok_def apart_def set_schedulability_def)
  have q: "qinv ?q"
    by (rule qinv_drop [OF q0 j0 _ m jq0])
       (use assms(3) in \<open>auto simp: running_state_def om_find_erase set_schedulability_def\<close>)
  have c: "calm q ?sched" "calm q ?q" by (simp_all add: calm_def set_schedulability_def)
  obtain rc full where rc: "(if \<not> fin then reapi_partial_cancel api (job_id j) R True else (reapi_cancel api (job_id j) True, True)) = (rc, full)"
    by fastforce
  have *: "remove_running api i j fin R q = (if rc \<noteq> 0 then (Inl (if fin then EPROTO else EINVAL), q)
      else if full \<or> fin then (if full \<and> \<not> fin then (Inl EPROTO, ?q) else (Inr 0, ?q)) else (Inr 0, ?sched))"
    unfolding remove_running_def rc by (simp add: Let_def set_schedulability_def)
  show "qinv (snd (remove_running api i j fin R q))" using assms(1) q q0 unfolding * by simp
  show "calm q (snd (remove_running api i j fin R q))" using c unfolding * by simp
  show "fst (remove_running api i j fin R q) = Inr 0 \<Longrightarrow> fin \<Longrightarrow> jobs_of (snd (remove_running api i j fin R q)) = (jobs_of q)(i := None)"
    using jq unfolding * by (simp split: if_splits)
qed

section \<open>Cancelling a pending job\<close>

definition stamped :: "int \<Rightarrow> job \<Rightarrow> job" where
  "stamped t j = j\<lparr>stamps := (stamps j)\<lparr>canceled_ts := t\<rparr>\<rparr>"

definition stamp_job :: "int \<Rightarrow> 'a queue_scheme \<Rightarrow> 'a queue_scheme" where
  "stamp_job i q = modify_job i (stamped (m_cancel_cnt q)) (q\<lparr>m_cancel_cnt := m_cancel_cnt q + 1\<rparr>)"

lemma stamp_job_sel [simp]:
  "m_canceled (stamp_job i q) = m_canceled q" "m_pending_cancel_provisional (stamp_job i q) = m_pending_cancel_provisional q"
  "m_cancel_cnt (stamp_job i q) = m_cancel_cnt q + 1" "m_sched_loop_active (stamp_job i q) = m_sched_loop_active q"
  "m_in_progress_iter (stamp_job i q) = m_in_progress_iter q" "m_pending (stamp_job i q) = m_pending q"
  by (simp_all add: stamp_job_def)

text \<open>A fresh stamp for a pending job keeps everything but the record of its put-off
  cancellation.\<close>

lemma stamp_job_ok:
  assumes "qinv q" and "jobs_of q i = Some j" and "job_state j = PENDING"
  shows "maps_ok (stamp_job i q)" "apart (stamp_job i q)" "core (stamp_job i q)" "fresh_inv (stamp_job i q)" "cancel_but i (stamp_job i q)"
    and "jobs_of (stamp_job i q) = (jobs_of q)(i \<mapsto> stamped (m_cancel_cnt q) j)"
proof -
  note inv = qinvD [OF assms(1)]
  let ?t = "m_cancel_cnt q" and ?q = "stamp_job i q"
  have f: "om_find i' (m_jobs ?q) = ((jobs_of q)(i \<mapsto> stamped ?t j)) i'" for i' using assms(2) by (simp add: stamp_job_def)
  show jq: "jobs_of ?q = (jobs_of q)(i \<mapsto> stamped ?t j)" by (rule ext) (rule f)
  show "maps_ok ?q" "apart ?q" using inv(1,2) by (simp_all add: maps_ok_def apart_def stamp_job_def)
  have p: "pend ?q = pend q" by (simp add: stamp_job_def)
  have "core_inv ((jobs_of q)(i \<mapsto> stamped ?t j)) (pend q) (\<lambda>t. om_find t (m_running q)) (\<lambda>t. om_find t (m_alloced q))
      (\<lambda>t. om_find t (m_rejected q)) (\<lambda>t. om_find t (m_canceled q))"
    by (rule core_same [OF inv(3) [unfolded core_def] assms(2)])
       (use assms(3) qinv_job(1) [OF assms(1,2)] in \<open>simp_all add: stamped_def get_key_def\<close>)
  then show "core ?q" unfolding core_def jq p by (simp add: stamp_job_def)
  have 1: "pending_ts (stamps j') < m_pq_cnt ?q" if "jobs_of ?q i' = Some j'" "job_state j' = PENDING" for i' j'
    using that freshD(1) [OF inv(4), of i' j'] freshD(1) [OF inv(4) assms(2,3)] unfolding f
    by (cases "i' = i") (auto simp: stamped_def stamp_job_def)
  show "fresh_inv ?q"
    by (rule freshI, erule (1) 1) (use freshD(2-) [OF inv(4)] in \<open>simp_all add: stamp_job_def\<close>)
  show "cancel_but i ?q"
    unfolding cancel_but_def stamp_job_sel
  proof (intro conjI allI impI)
    fix t i' j'
    assume "i' \<noteq> i \<and> om_find t (m_pending_cancel_provisional q) = Some i' \<and> jobs_of ?q i' = Some j' \<and> job_state j' = PENDING"
    then show "om_find (canceled_ts (stamps j')) (m_pending_cancel_provisional q) = Some i'"
      using inv(5) unfolding f by (auto simp: cancel_inv_def)
  next
    fix t a b
    assume "om_find t (m_pending_cancel_provisional q) = Some a \<and> om_find t (m_canceled q) = Some b"
    then show "a = b" using inv(5) unfolding cancel_inv_def by blast
  qed
qed

lemma put_off_ok:
  assumes "qinv q" and "jobs_of q i = Some j" and "job_state j = PENDING" and "qview q1 = qview (stamp_job i q)"
    and "q2 = q1\<lparr>m_pending_cancel_provisional := om_assign (m_cancel_cnt q) i (m_pending_cancel_provisional q)\<rparr>"
  shows "qinv q2" and "jobs_of q2 = (jobs_of q)(i \<mapsto> stamped (m_cancel_cnt q) j)"
proof -
  note inv = qinvD [OF assms(1)] and s = stamp_job_ok [OF assms(1-3)]
  let ?t = "m_cancel_cnt q"
  let ?q = "(stamp_job i q)\<lparr>m_pending_cancel_provisional := om_assign ?t i (m_pending_cancel_provisional q)\<rparr>"
  have v: "qview q2 = qview ?q" using assms(4,5) by (simp add: qview_def)
  have o: "om_ok (m_pending_cancel_provisional q)" using inv(1) by (simp add: maps_ok_def)
  have f: "om_find i' (m_jobs ?q) = ((jobs_of q)(i \<mapsto> stamped ?t j)) i'" for i' using fun_cong [OF s(6)] by simp
  have P: "om_find t (m_pending_cancel_provisional ?q) = ((\<lambda>t. om_find t (m_pending_cancel_provisional q))(?t \<mapsto> i)) t" for t
    using o by (simp add: om_find_assign)
  have new: "om_find ?t (m_pending_cancel_provisional q) = None" "om_find ?t (m_canceled q) = None"
    using freshD(4,5) [OF inv(4)] by simp_all
  have "core ?q" using s(3) by (simp add: core_def)
  moreover have "maps_ok ?q" "apart ?q" using s(1,2) o by (simp_all add: maps_ok_def apart_def)
  moreover have "fresh_inv ?q"
  proof -
    have 1: "om_find t (m_pending_cancel_provisional ?q) = None" if "?t + 1 \<le> t" for t
      using that freshD(5) [OF inv(4), of t] unfolding P by simp
    have 2: "pending_ts (stamps j') < m_pq_cnt ?q" if "jobs_of ?q i' = Some j'" "job_state j' = PENDING" for i' j'
      using that freshD(1) [OF s(4)] by simp
    show ?thesis by (rule freshI, erule (1) 2) (use freshD(2-) [OF s(4)] 1 in simp_all)
  qed
  moreover have "cancel_inv ?q"
    unfolding cancel_inv_def
  proof (intro conjI allI impI)
    fix t i' j'
    assume a: "om_find t (m_pending_cancel_provisional ?q) = Some i' \<and> jobs_of ?q i' = Some j' \<and> job_state j' = PENDING"
    show "om_find (canceled_ts (stamps j')) (m_pending_cancel_provisional ?q) = Some i'"
    proof (cases "i' = i")
      case True
      then show ?thesis using a unfolding P f by (auto simp: stamped_def)
    next
      case False
      then have "om_find t (m_pending_cancel_provisional q) = Some i'" "jobs_of q i' = Some j'"
        using a unfolding P f by (auto split: if_splits)
      then have "om_find (canceled_ts (stamps j')) (m_pending_cancel_provisional q) = Some i'"
        using inv(5) a unfolding cancel_inv_def by blast
      then show ?thesis using new(1) unfolding P by auto
    qed
  next
    fix t a b
    assume ab: "om_find t (m_pending_cancel_provisional ?q) = Some a \<and> om_find t (m_canceled ?q) = Some b"
    then have "om_find t (m_canceled q) = Some b" "t \<noteq> ?t" using new(2) by auto
    moreover then have "om_find t (m_pending_cancel_provisional q) = Some a" using ab unfolding P by simp
    ultimately show "a = b" using inv(5) unfolding cancel_inv_def by blast
  qed
  ultimately have "qinv ?q" by (simp add: qinv_def)
  then show "qinv q2" using qinv_view [OF v] by simp
  have "jobs_of q2 = jobs_of ?q" using v by (simp add: qview_def)
  then show "jobs_of q2 = (jobs_of q)(i \<mapsto> stamped ?t j)" using s(6) by simp
qed

section \<open>The virtual method\<close>

text \<open>The contract of \<^verbatim>\<open>cancel_sched_loop\<close>: it succeeds exactly when the loop is not
  active, and changes nothing that the base class looks at.\<close>

locale sched_loop =
  fixes cancel_sl :: "'a queue_scheme \<Rightarrow> int \<times> 'a queue_scheme"
  assumes busy: "m_sched_loop_active q \<Longrightarrow> fst (cancel_sl q) < 0"
    and idle: "\<not> m_sched_loop_active q \<Longrightarrow> cancel_sl q = (0, q)"
    and view: "qview (snd (cancel_sl q)) = qview q"
    and still: "calm q (snd (cancel_sl q))"
begin

lemma keeps: "qinv q \<Longrightarrow> qinv (snd (cancel_sl q))"
  using qinv_view [OF view] by blast

lemma keeps_jobs: "jobs_of (snd (cancel_sl q)) = jobs_of q"
  using view [of q] by (simp add: qview_def)

text \<open>A pending job is cancelled at once when the loop is idle, and remembered otherwise.\<close>

lemma remove_pending_ok:
  assumes "qinv q" and "jobs_of q i = Some j" and "job_state j = PENDING" and "m_cancel_cnt q + 1 < 2 ^ 64"
  obtains q' where "remove_pending cancel_sl i q = (Inr 0, q')" and "qinv q'" and "calm q q'"
    and "m_sched_loop_active q \<Longrightarrow> om_find (m_cancel_cnt q) (m_pending_cancel_provisional q') = Some i
      \<and> jobs_of q' = (jobs_of q)(i \<mapsto> stamped (m_cancel_cnt q) j)"
    and "\<not> m_sched_loop_active q \<Longrightarrow> jobs_of q' = (jobs_of q)(i \<mapsto> set_state CANCELED (stamped (m_cancel_cnt q) j))
      \<and> om_find (m_cancel_cnt q) (m_canceled q') = Some i"
proof -
  note inv = qinvD [OF assms(1)] and s = stamp_job_ok [OF assms(1-3)]
  let ?t = "m_cancel_cnt q" and ?j = "stamped (m_cancel_cnt q) j"
  have o: "om_ok (m_pending_cancel_provisional q)" using inv(1) by (simp add: maps_ok_def)
  have id: "job_id j = i" using qinv_job(1) [OF assms(1,2)] .
  have new: "om_find ?t (m_pending_cancel_provisional q) = None" "om_find ?t (m_canceled q) = None"
    using freshD(4,5) [OF inv(4)] by simp_all
  have st: "modify_job i (\<lambda>j. j\<lparr>stamps := (stamps j)\<lparr>canceled_ts := ?t\<rparr>\<rparr>) (q\<lparr>m_cancel_cnt := u64 (?t + 1)\<rparr>) = stamp_job i q"
    using u64_succ [OF freshD(10) [OF inv(4)] assms(4)] by (simp add: stamp_job_def stamped_def [abs_def])
  show ?thesis
  proof (cases "m_sched_loop_active q")
    case True
    obtain rc q1 where c: "cancel_sl (stamp_job i q) = (rc, q1)" by fastforce
    have rc: "rc < 0" using busy [of "stamp_job i q"] True c by simp
    have v: "qview q1 = qview (stamp_job i q)" using view [of "stamp_job i q"] c by simp
    have pv: "m_pending_cancel_provisional q1 = m_pending_cancel_provisional q" using v by (simp add: qview_def)
    let ?q = "q1\<lparr>m_pending_cancel_provisional := om_assign ?t i (m_pending_cancel_provisional q)\<rparr>"
    have e: "remove_pending cancel_sl i q = (Inr 0, ?q)"
      unfolding remove_pending_def using assms(2,3) True c rc new id pv
      by (simp add: Let_def st om_insert_def)
    note po = put_off_ok [OF assms(1-3) v refl]
    have "calm (stamp_job i q) q1" using still [of "stamp_job i q"] c by simp
    then have "calm q ?q" by (simp add: calm_def)
    moreover have "om_find ?t (m_pending_cancel_provisional ?q) = Some i" using o by (simp add: om_find_assign)
    ultimately show ?thesis using that e po True by blast
  next
    case False
    have j: "jobs_of (stamp_job i q) i = Some ?j" using fun_cong [OF s(6), of i] by simp
    obtain q' where c: "cancel_job i ?j (stamp_job i q) = (Inr 0, q')" "qinv q'"
        "jobs_of q' = (jobs_of (stamp_job i q))(i \<mapsto> set_state CANCELED ?j)" "same_loop (stamp_job i q) q'"
      by (rule cancel_job_ok [OF s(1-5) j]) (use assms(3) new in \<open>simp_all add: stamped_def\<close>)
    have e: "remove_pending cancel_sl i q = (Inr 0, q')"
      unfolding remove_pending_def using assms(2,3) False c(1) by (simp add: Let_def st stamped_def)
    have jq: "jobs_of q' = (jobs_of q)(i \<mapsto> set_state CANCELED ?j)" unfolding c(3) s(6) by simp
    have "calm q q'" using c(4) False by (intro calm_idle) (simp_all add: same_loop_def)
    moreover have "om_find ?t (m_canceled q') = Some i"
      using tracksD [OF coreD(6) [OF qinvD(3) [OF c(2), unfolded core_def]], of i "set_state CANCELED ?j"] fun_cong [OF jq, of i]
      by (simp add: stamped_def)
    ultimately show ?thesis using that e c(2) jq False by blast
  qed
qed

text \<open>Removal, whatever the state of the job.\<close>

lemma q_remove_ok:
  assumes "qinv q" and "m_cancel_cnt q + 1 < 2 ^ 64"
  shows "qinv (snd (q_remove cancel_sl api i fin R q)) \<and> calm q (snd (q_remove cancel_sl api i fin R q))"
proof -
  define rq where "rq = (case om_find i (m_jobs q) of
           None \<Rightarrow> (Inl ENOENT, q)
         | Some j \<Rightarrow>
             (if job_state j = PENDING then (Inr 0, snd (remove_pending cancel_sl i q))
              else if job_state j = ALLOC_RUNNING \<or> job_state j = RUNNING then remove_running api i j fin R q
              else (Inr 0, q)))"
  have "qinv (snd rq) \<and> calm q (snd rq)"
  proof (cases "jobs_of q i")
    case None
    then show ?thesis using assms(1) by (simp add: rq_def)
  next
    case (Some j)
    show ?thesis
    proof (cases "job_state j = PENDING")
      case True
      obtain q' where "remove_pending cancel_sl i q = (Inr 0, q')" "qinv q'" "calm q q'"
        by (rule remove_pending_ok [OF assms(1) Some True assms(2)])
      with Some True show ?thesis by (simp add: rq_def)
    next
      case False
      with remove_running_ok(1,2) [OF assms(1) Some, of api fin R] Some assms(1) show ?thesis
        by (simp add: rq_def running_state_def)
    qed
  qed
  moreover have "q_remove cancel_sl api i fin R q = (fst rq, reconsider_blocked_jobs (snd (cancel_sl (snd rq))))"
    unfolding q_remove_def rq_def [symmetric] by (simp add: case_prod_beta)
  moreover have "qinv (reconsider_blocked_jobs (snd (cancel_sl (snd rq))))" if "qinv (snd rq)"
    by (rule reconsider_ok(2)) (rule keeps [OF that])
  moreover have "calm q (reconsider_blocked_jobs (snd (cancel_sl (snd rq))))" if "calm q (snd rq)"
    using calm_trans [OF that still] reconsider_calm by (rule calm_trans)
  ultimately show ?thesis by simp
qed

lemma pending_reprioritize_ok:
  assumes "qinv q" and "m_reprio_cnt q + 1 < 2 ^ 64"
  shows "qinv (snd (pending_reprioritize cancel_sl i prio q)) \<and> calm q (snd (pending_reprioritize cancel_sl i prio q))"
proof (cases "\<exists>j. jobs_of q i = Some j \<and> job_state j = PENDING")
  case False
  then show ?thesis using assms(1) by (auto simp: pending_reprioritize_def split: option.split)
next
  case True
  then obtain j where j: "jobs_of q i = Some j" "job_state j = PENDING" by blast
  note inv = qinvD [OF assms(1)]
  let ?t = "m_reprio_cnt q"
  let ?q = "q\<lparr>m_pending_reprio_provisional := om_assign ?t (job_id j, prio) (m_pending_reprio_provisional q), m_reprio_cnt := ?t + 1\<rparr>"
  have n: "om_find ?t (m_pending_reprio_provisional q) = None" using freshD(6) [OF inv(4)] by simp
  have o: "om_ok (m_pending_reprio_provisional q)" using inv(1) by (simp add: maps_ok_def)
  have "core ?q = core q" by (simp add: core_def)
  moreover have "maps_ok ?q" using inv(1) by (simp add: maps_ok_def)
  moreover have "apart ?q = apart q" by (simp add: apart_def)
  moreover have "cancel_inv ?q = cancel_inv q" by (simp add: cancel_inv_def)
  moreover have "fresh_inv ?q"
  proof -
    have 1: "pending_ts (stamps j') < m_pq_cnt ?q" if "jobs_of ?q i' = Some j'" "job_state j' = PENDING" for i' j'
      using that freshD(1) [OF inv(4)] by simp
    show ?thesis
      by (rule freshI, erule (1) 1) (use freshD(2-) [OF inv(4)] o in \<open>simp_all add: om_find_assign\<close>)
  qed
  ultimately have q: "qinv ?q" using inv by (simp add: qinv_def)
  have c: "calm q ?q" by (simp add: calm_def)
  have e: "pending_reprioritize cancel_sl i prio q =
      (let (rc, q') = (if \<not> m_sched_loop_active q then (0, ?q) else cancel_sl ?q)
       in if rc = 0 then process_provisional_reprio q' else (Inr 0, q'))"
    using j n u64_succ [OF freshD(11) [OF inv(4)] assms(2)] by (simp add: pending_reprioritize_def om_insert_def Let_def)
  show ?thesis
  proof (cases "m_sched_loop_active q")
    case True
    then have "pending_reprioritize cancel_sl i prio q = (Inr 0, snd (cancel_sl ?q))"
      using busy [of ?q] unfolding e by (simp add: case_prod_beta)
    then show ?thesis using keeps [OF q] calm_trans [OF c still] by simp
  next
    case False
    then have "pending_reprioritize cancel_sl i prio q = process_provisional_reprio ?q" unfolding e by simp
    then show ?thesis using process_provisional_reprio_ok(1,2) [OF q] False by (simp add: calm_idle)
  qed
qed

end

interpretation base: sched_loop "cancel_sched_loop :: 'a queue_scheme \<Rightarrow> _"
  by unfold_locales (auto simp: cancel_sched_loop_def)

interpretation bf: sched_loop bf_cancel_sched_loop
  by unfold_locales (auto simp: bf_cancel_sched_loop_def qview_def calm_def)

end
