(* ===== verification/Queue_Loop.thy ===== *)
theory Queue_Loop
  imports Queue_Interface
begin

text \<open>
  The scheduling loops of the two policies: starting a loop and taking the answers of the
  resource service keep the invariant, never look at an iterator that is not valid, and each
  answer moves the loop on.
\<close>

section \<open>Shared steps\<close>

lemma take_provisional_ok:
  assumes "qinv q"
  shows "qinv (take_provisional q)" and "pend (take_provisional q) = pend q"
proof -
  note inv = qinvD [OF assms]
  note d = apartD [OF inv(2)]
  have o: "om_ok (m_pending q)" "om_ok (m_pending_provisional q)" using inv(1) by (simp_all add: maps_ok_def)
  let ?q = "take_provisional q"
  have P: "om_find k (m_pending ?q) = first_of (om_find k (m_pending q)) (om_find k (m_pending_provisional q))" for k
    using om_merge_ok(2) [OF o] by (simp add: take_provisional_def)
  have r: "repend q ?q"
    using repend_maps(1) [where P = "fst (om_merge (m_pending q) (m_pending_provisional q))" and V = "[]" and B = "m_blocked q" and q = q]
    by (simp add: take_provisional_def)
  have "maps_ok ?q" using inv(1) om_merge_ok(1) [OF o] by (simp add: maps_ok_def take_provisional_def)
  moreover have "apart ?q"
    unfolding apart_def
  proof (intro allI)
    fix k
    show "\<not> (om_find k (m_pending ?q) \<noteq> None \<and> om_find k (m_pending_provisional ?q) \<noteq> None)
      \<and> \<not> (om_find k (m_pending ?q) \<noteq> None \<and> om_find k (m_blocked ?q) \<noteq> None)
      \<and> \<not> (om_find k (m_pending_provisional ?q) \<noteq> None \<and> om_find k (m_blocked ?q) \<noteq> None)"
      using d [of k] unfolding P by (auto simp: take_provisional_def first_of_def split: option.splits)
  qed
  moreover show p: "pend ?q = pend q"
  proof (rule ext)
    fix k
    show "pend ?q k = pend q k"
      unfolding pend_def P by (simp add: take_provisional_def first_of_def split: option.split)
  qed
  ultimately show "qinv ?q" using qinv_repend [OF assms r] by blast
qed

text \<open>Changing what no map looks at.\<close>

definition quiet :: "(job \<Rightarrow> job) \<Rightarrow> bool" where
  "quiet f \<longleftrightarrow> (\<forall>j. job_id (f j) = job_id j \<and> job_state (f j) = job_state j \<and> stamps (f j) = stamps j
     \<and> priority (f j) = priority j \<and> t_submit (f j) = t_submit j)"

lemma quiet_modify:
  assumes "qinv q" and "quiet f"
  shows "qinv (modify_job i f q)"
proof (cases "jobs_of q i")
  case None
  then have "m_jobs (modify_job i f q) = m_jobs q"
    by (force simp: modify_job_def om_find_None_iff intro!: map_idI)
  then have "modify_job i f q = q" by (simp add: modify_job_def)
  with assms(1) show ?thesis by simp
next
  case (Some j)
  note inv = qinvD [OF assms(1)]
  have f: "job_id (f j) = job_id j" "job_state (f j) = job_state j" "stamps (f j) = stamps j" "get_key (f j) = get_key j"
    using assms(2) by (simp_all add: quiet_def get_key_def)
  let ?q = "modify_job i f q"
  have F: "om_find k (m_jobs ?q) = ((jobs_of q)(i \<mapsto> f j)) k" for k using Some by simp
  have jq: "jobs_of ?q = (jobs_of q)(i \<mapsto> f j)" by (rule ext) (rule F)
  have "core ?q"
    unfolding core_def jq
    using core_same [OF inv(3) [unfolded core_def] Some, of "f j"] f qinv_job(1) [OF assms(1) Some] by simp
  moreover have "maps_ok ?q" using inv(1) by (simp add: maps_ok_def)
  moreover have "apart ?q" using inv(2) by (simp add: apart_def)
  moreover have "fresh_inv ?q"
    by (rule fresh_modify [OF inv(4) jq]) (use freshD(1) [OF inv(4) Some] f in simp_all)
  moreover have "cancel_inv ?q"
  proof (cases "job_state j = PENDING")
    case True
    show ?thesis by (rule cancel_modify [OF inv(5) jq Some True]) (use f in simp_all)
  next
    case False
    show ?thesis by (rule cancel_leave [OF inv(5) jq]) (use f False in simp_all)
  qed
  ultimately show ?thesis by (simp add: qinv_def)
qed

lemma iter_onE:
  assumes "iter_on it m"
  obtains (end_) "it = End" | (at_) k i where "it = At k" and "om_find k m = Some i"
  using assms by (cases it) (auto simp: iter_on_def)

lemma qinv_iter [simp]: "qinv (q\<lparr>m_in_progress_iter := it\<rparr>) = qinv q" "qinv (q\<lparr>m_scheduled := b\<rparr>) = qinv q"
  "qinv (q\<lparr>sent := x\<rparr>) = qinv q" "qinv (set_schedulability b q) = qinv q" "qinv (q\<lparr>m_annotation_dirty := b\<rparr>) = qinv q"
  "qinv (q\<lparr>m_sched_loop_active := b\<rparr>) = qinv q"
  by (rule qinv_view, simp)+

lemma activate: "\<not> m_sched_loop_active q \<Longrightarrow> snd (set_sched_loop_active True q) = q\<lparr>m_sched_loop_active := True\<rparr>"
  by (simp add: set_sched_loop_active_def Let_def)

lemma deactivate_inv:
  assumes "qinv q"
  shows "loop_inv (snd (set_sched_loop_active False q))"
  using set_sched_loop_active_ok [OF assms, of False] by (simp add: loop_inv_def)

section \<open>First come, first served\<close>

lemma pack_loop_ok:
  assumes "\<forall>e\<in>set es. jobs_of q (snd e) \<noteq> None"
  shows "\<exists>r. pack_loop api n es q = Some r \<and> (case r of
      Inl e \<Rightarrow> e = ENOMEM \<and> (\<exists>(k, i)\<in>set (take n es). \<not> json_loads api (jobspec (the (jobs_of q i))))
    | Inr js \<Rightarrow> js = map (\<lambda>(k, i). (job_id (the (jobs_of q i)), jobspec (the (jobs_of q i)))) (take n es)
        \<and> (\<forall>(k, i)\<in>set (take n es). json_loads api (jobspec (the (jobs_of q i)))))"
  using assms
proof (induction api n es q rule: pack_loop.induct)
  case (3 api n k i es q)
  obtain j where j: "jobs_of q i = Some j" using 3(2) by auto
  show ?case
  proof (cases "json_loads api (jobspec j)")
    case False
    with j show ?thesis by simp
  next
    case True
    have "\<forall>e\<in>set es. jobs_of q (snd e) \<noteq> None" using 3(2) by simp
    with 3(1) [OF j] True obtain r where r: "pack_loop api n es q = Some r" "case r of
      Inl e \<Rightarrow> e = ENOMEM \<and> (\<exists>(k, i)\<in>set (take n es). \<not> json_loads api (jobspec (the (jobs_of q i))))
    | Inr js \<Rightarrow> js = map (\<lambda>(k, i). (job_id (the (jobs_of q i)), jobspec (the (jobs_of q i)))) (take n es)
        \<and> (\<forall>(k, i)\<in>set (take n es). json_loads api (jobspec (the (jobs_of q i))))" by blast
    with j True show ?thesis by (cases r) auto
  qed
qed auto

lemma pending_known:
  assumes "qinv q" and "(k, i) \<in> set (m_pending q)"
  shows "jobs_of q i \<noteq> None"
proof -
  have "om_ok (m_pending q)" using qinvD(1) [OF assms(1)] by (simp add: maps_ok_def)
  then have "om_find k (m_pending q) = Some i" using assms(2) by (simp add: om_find_Some_iff)
  from pend_pending [OF assms(1) this] show ?thesis by auto
qed

lemma qinv_limit [simp]: "qinv (q\<lparr>m_queue_depth_limit := b\<rparr>) = qinv q"
  by (rule qinv_view) (simp add: qview_def)

text \<open>The queue as the loop sees it: what is pending and what came in since, in the order of
  priority, submission and arrival.\<close>

definition in_order :: "'a queue_scheme \<Rightarrow> job_map" where
  "in_order q = fst (om_merge (m_pending q) (m_pending_provisional q))"

definition request :: "'a queue_scheme \<Rightarrow> job_map \<Rightarrow> (int \<times> string) list" where
  "request q es = map (\<lambda>(k, i). (i, jobspec (the (jobs_of q i)))) es"

lemma in_order_ok: "qinv q \<Longrightarrow> om_ok (in_order q)"
  using om_merge_ok(1) qinvD(1) [of q] by (auto simp: in_order_def maps_ok_def)

lemma request_ids:
  assumes "qinv q" and "set es \<subseteq> set (m_pending q)"
  shows "map (\<lambda>(k, i). (job_id (the (jobs_of q i)), jobspec (the (jobs_of q i)))) es = request q es"
proof -
  have "job_id (the (jobs_of q i)) = i" if "(k, i) \<in> set es" for k i
    using pending_known [OF assms(1), of k i] qinv_job(1) [OF assms(1)] assms(2) that by fastforce
  then show ?thesis by (auto simp: request_def)
qed

lemma pack_jobs_ok:
  assumes "qinv q"
  shows "\<exists>b r. pack_jobs api q = Some (r, q\<lparr>m_queue_depth_limit := b\<rparr>)
    \<and> (\<forall>js. r = Inr js \<longrightarrow> js = request q (take (nat (m_queue_depth q)) (m_pending q)))
    \<and> ((\<forall>(k, i)\<in>set (m_pending q). json_loads api (jobspec (the (jobs_of q i)))) \<longrightarrow> (\<exists>js. r = Inr js))"
proof -
  let ?es = "take (nat (m_queue_depth q)) (m_pending q)"
  have "\<forall>e\<in>set (m_pending q). jobs_of q (snd e) \<noteq> None" using pending_known [OF assms] by auto
  from pack_loop_ok [OF this, of api "nat (m_queue_depth q)"]
  obtain r where r: "pack_loop api (nat (m_queue_depth q)) (m_pending q) q = Some r" and
    c: "case r of Inl e \<Rightarrow> e = ENOMEM \<and> (\<exists>(k, i)\<in>set ?es. \<not> json_loads api (jobspec (the (jobs_of q i))))
    | Inr js \<Rightarrow> js = map (\<lambda>(k, i). (job_id (the (jobs_of q i)), jobspec (the (jobs_of q i)))) ?es
        \<and> (\<forall>(k, i)\<in>set ?es. json_loads api (jobspec (the (jobs_of q i))))" by blast
  have s: "set ?es \<subseteq> set (m_pending q)" by (rule set_take_subset)
  have 1: "js = request q ?es" if "r = Inr js" for js using c that request_ids [OF assms s] by simp
  have 2: "\<exists>js. r = Inr js" if "\<forall>(k, i)\<in>set (m_pending q). json_loads api (jobspec (the (jobs_of q i)))"
    using c that s by (cases r) auto
  have q: "q = q\<lparr>m_queue_depth_limit := m_queue_depth_limit q\<rparr>" by simp
  show ?thesis
  proof (cases r)
    case (Inl e)
    then have "pack_jobs api q = Some (r, q\<lparr>m_queue_depth_limit := m_queue_depth_limit q\<rparr>)" using r by (simp add: pack_jobs_def)
    then show ?thesis using 1 2 by blast
  next
    case (Inr js)
    let ?b = "if int (length js) = m_queue_depth q \<and> int (length (m_pending q)) \<noteq> m_queue_depth q then True
      else m_queue_depth_limit q"
    have "pack_jobs api q = Some (r, q\<lparr>m_queue_depth_limit := ?b\<rparr>)" using r Inr by (simp add: pack_jobs_def)
    then show ?thesis using 1 2 by blast
  qed
qed

text \<open>Starting the loop is always defined; it asks for the first jobs in order, as many as the
  queue depth allows.\<close>

lemma fcfs_run_ok:
  assumes "loop_inv q"
  shows "\<exists>rc q'. fcfs_run_sched_loop api q = Some (rc, q') \<and> loop_inv q'
    \<and> (\<not> m_sched_loop_active q \<and> in_order q \<noteq> [] \<and> (\<forall>(k, i)\<in>set (in_order q). json_loads api (jobspec (the (jobs_of q i))))
      \<and> (\<forall>x. 0 \<le> match_allocate_multi api False x) \<longrightarrow>
      rc = 0 \<and> m_sched_loop_active q' \<and> m_pending q' = in_order q \<and> m_in_progress_iter q' = om_begin (in_order q)
      \<and> sent q' = sent q @ [(False, request q (take (nat (m_queue_depth q)) (in_order q)))])"
proof (cases "m_sched_loop_active q")
  case True
  then have "fcfs_run_sched_loop api q = Some (1, q)" by (simp add: fcfs_run_sched_loop_def)
  then show ?thesis using assms True by blast
next
  case False
  have q: "qinv q" using assms by (simp add: loop_inv_def)
  let ?u = "take_provisional (set_schedulability False q)"
  let ?v = "?u\<lparr>m_in_progress_iter := om_begin (in_order q)\<rparr>"
  have u: "qinv ?u" by (rule take_provisional_ok(1)) (simp add: q)
  have v: "qinv ?v" using u by simp
  have mp: "m_pending ?u = in_order q" by (simp add: take_provisional_def in_order_def set_schedulability_def)
  have same: "m_queue_depth ?v = m_queue_depth q" "m_jobs ?v = m_jobs q" "m_sched_loop_active ?v = False" "sent ?v = sent q" "m_pending ?v = in_order q"
    "m_in_progress_iter ?v = om_begin (in_order q)"
    using False mp by (simp_all add: take_provisional_def set_schedulability_def in_order_def)
  have run: "fcfs_run_sched_loop api q = allocate_jobs api (set_schedulability False q)" using False by (simp add: fcfs_run_sched_loop_def)
  show ?thesis
  proof (cases "in_order q = []")
    case True
    then have "fcfs_run_sched_loop api q = Some (0, ?v)" using run mp by (simp add: allocate_jobs_def Let_def)
    moreover have "loop_inv ?v" using v same(3) by (simp add: loop_inv_def)
    ultimately show ?thesis using True by blast
  next
    case ne: False
    obtain b r where p: "pack_jobs api ?v = Some (r, ?v\<lparr>m_queue_depth_limit := b\<rparr>)"
      "\<forall>js. r = Inr js \<longrightarrow> js = request ?v (take (nat (m_queue_depth ?v)) (m_pending ?v))"
      "(\<forall>(k, i)\<in>set (m_pending ?v). json_loads api (jobspec (the (jobs_of ?v i)))) \<longrightarrow> (\<exists>js. r = Inr js)"
      using pack_jobs_ok [OF v, of api] by blast
    let ?w = "?v\<lparr>m_queue_depth_limit := b\<rparr>"
    have a: "allocate_jobs api (set_schedulability False q) = (case r of Inl _ \<Rightarrow> Some (- 1, ?w)
         | Inr jobs \<Rightarrow> (let q = (snd (set_sched_loop_active True ?w))\<lparr>sent := sent ?w @ [(False, jobs)]\<rparr>
              in if match_allocate_multi api False jobs < 0
                 then Some (- 1, snd (set_sched_loop_active False q)) else Some (0, q)))"
      using p(1) ne mp by (simp add: allocate_jobs_def Let_def split: sum.split)
    have w: "qinv ?w" "m_sched_loop_active ?w = False" using v same(3) by simp_all
    show ?thesis
    proof (cases r)
      case (Inl e)
      then have "fcfs_run_sched_loop api q = Some (- 1, ?w)" using run a by simp
      moreover have "loop_inv ?w" using w by (simp add: loop_inv_def)
      moreover have "\<not> (\<forall>(k, i)\<in>set (in_order q). json_loads api (jobspec (the (jobs_of q i))))"
        using p(3) Inl same by auto
      ultimately show ?thesis by blast
    next
      case (Inr jobs)
      let ?x = "?w\<lparr>m_sched_loop_active := True, sent := sent q @ [(False, jobs)]\<rparr>"
      have jobs: "jobs = request q (take (nat (m_queue_depth q)) (in_order q))" using p(2) Inr same by (simp add: request_def)
      have e: "fcfs_run_sched_loop api q = (if match_allocate_multi api False jobs < 0
          then Some (- 1, snd (set_sched_loop_active False ?x)) else Some (0, ?x))"
        using run a Inr activate [of ?w] w(2) same(4) by simp
      have x: "qinv ?x" using w(1) by simp
      have "loop_inv ?x" using x om_begin_on [of "in_order q"] same(5,6) by (simp add: loop_inv_def)
      moreover have "loop_inv (snd (set_sched_loop_active False ?x))" using deactivate_inv [OF x] .
      ultimately show ?thesis
        using e same(5,6) jobs by (cases "match_allocate_multi api False jobs < 0") (simp_all, meson linorder_not_less)
    qed
  qed
qed

definition after :: "pending_key \<Rightarrow> job_map \<Rightarrow> pending_key iter" where
  "after k m = om_begin (filter (\<lambda>(k', _). k < k') m)"

lemma after_on: "om_ok m \<Longrightarrow> iter_on (after k m) (om_erase k m)" "om_ok m \<Longrightarrow> iter_on (after k m) m"
  unfolding after_def by (rule om_after_on, assumption)+

lemma pending_om_ok: "qinv q \<Longrightarrow> om_ok (m_pending q)"
  using qinvD(1) by (auto simp: maps_ok_def)

text \<open>An allocated job is started, and the iterator goes to its successor.\<close>

lemma start_ok:
  assumes "qinv q" and "om_find k (m_pending q) = Some i" and "m_rq_cnt q + 1 < 2 ^ 64" and "quiet f" and "jobs_of q i = Some j"
  shows "\<exists>q'. to_running k True (modify_job i f q) = Some (after k (m_pending q), q')
    \<and> loop_inv (q'\<lparr>m_in_progress_iter := after k (m_pending q)\<rparr>) \<and> m_pending q' = om_erase k (m_pending q)
    \<and> m_sched_loop_active q' = m_sched_loop_active q \<and> jobs_of q' = (jobs_of q)(i \<mapsto> started (m_rq_cnt q) (f j))
    \<and> om_find (m_rq_cnt q) (m_alloced q') = Some i \<and> queue.more q' = queue.more q"
proof -
  let ?q = "modify_job i f q"
  have j: "jobs_of ?q i = Some (f j)" using assms(5) by simp
  obtain q' where s: "to_running k True ?q = Some (om_begin (filter (\<lambda>(k', _). k < k') (m_pending ?q)), q')" "qinv q'"
      "jobs_of q' = (jobs_of ?q)(i \<mapsto> started (m_rq_cnt ?q) (f j))" "m_pending q' = om_erase k (m_pending ?q)"
      "m_sched_loop_active q' = m_sched_loop_active ?q" "om_find (m_rq_cnt ?q) (m_alloced q') = Some i" "queue.more q' = queue.more ?q"
    using to_running_ok [OF quiet_modify [OF assms(1,4)], of k i i "f j"] assms(2,3) j by auto
  have "iter_on (after k (m_pending q)) (m_pending q')" using after_on(1) [OF pending_om_ok [OF assms(1)]] s(4) by simp
  moreover have "(jobs_of ?q)(i \<mapsto> x) = (jobs_of q)(i \<mapsto> x)" for x by auto
  ultimately show ?thesis using s by (simp add: loop_inv_def after_def modify_job_def)
qed

lemma reject_ok:
  assumes "qinv q" and "om_find k (m_pending q) = Some i" and "m_dq_cnt q + 1 < 2 ^ 64" and "jobs_of q i = Some j"
  shows "\<exists>q'. to_rejected k msg q = Some (after k (m_pending q), q')
    \<and> loop_inv (q'\<lparr>m_in_progress_iter := after k (m_pending q)\<rparr>) \<and> m_pending q' = om_erase k (m_pending q)
    \<and> m_sched_loop_active q' = m_sched_loop_active q \<and> jobs_of q' = (jobs_of q)(i \<mapsto> turned_down (m_dq_cnt q) msg j)
    \<and> queue.more q' = queue.more q"
proof -
  obtain q' where s: "to_rejected k msg q = Some (om_begin (filter (\<lambda>(k', _). k < k') (m_pending q)), q')" "qinv q'"
      "jobs_of q' = (jobs_of q)(i \<mapsto> turned_down (m_dq_cnt q) msg j)" "m_pending q' = om_erase k (m_pending q)"
      "m_sched_loop_active q' = m_sched_loop_active q" "queue.more q' = queue.more q"
    using to_rejected_ok [OF assms] by metis
  have "iter_on (after k (m_pending q)) (m_pending q')" using after_on(1) [OF pending_om_ok [OF assms(1)]] s(4) by simp
  then show ?thesis using s by (simp add: loop_inv_def after_def)
qed

text \<open>How an answer annotates the job.\<close>

definition annotate :: "string \<Rightarrow> string \<Rightarrow> int \<Rightarrow> int \<Rightarrow> job \<Rightarrow> job" where
  "annotate status R at ov j = j\<lparr>schedule_of := (schedule_of j)\<lparr>reserved := (status = ''RESERVED''),
     sched_R := R, sched_at := at, sched_ov := ov, selection_type := IMMEDIATE\<rparr>\<rparr>"

lemma quiet_annotate [simp]: "quiet (annotate status R at ov)"
  by (simp add: quiet_def annotate_def)

lemma fcfs_success_ok:
  assumes "loop_inv q" and "m_sched_loop_active q" and "m_in_progress_iter q = At k" and "m_rq_cnt q + 1 < 2 ^ 64"
  obtains i j where "om_find k (m_pending q) = Some i" and "jobs_of q i = Some j" and "job_state j = PENDING"
    and "i \<noteq> jobid \<Longrightarrow> fcfs_handle_match_success jobid status R at ov q = Some (Inl EINVAL, q)"
    and "i = jobid \<Longrightarrow> \<exists>q'. fcfs_handle_match_success jobid status R at ov q = Some (Inr 0, q') \<and> loop_inv q'
      \<and> m_in_progress_iter q' = after k (m_pending q) \<and> m_pending q' = om_erase k (m_pending q)
      \<and> m_sched_loop_active q' \<and> jobs_of q' = (jobs_of q)(i \<mapsto> started (m_rq_cnt q) (annotate status R at ov j))
      \<and> om_find (m_rq_cnt q) (m_alloced q') = Some i"
proof -
  have q: "qinv q" "iter_on (At k) (m_pending q)" using assms(1-3) by (simp_all add: loop_inv_def)
  then obtain i where i: "om_find k (m_pending q) = Some i" by (auto simp: iter_on_def)
  from pend_pending [OF q(1) i] obtain j where j: "jobs_of q i = Some j" "job_state j = PENDING" "job_id j = i" .
  have f: "(\<lambda>j. j\<lparr>schedule_of := (schedule_of j)\<lparr>reserved := (status = ''RESERVED''),
                             sched_R := R, sched_at := at, sched_ov := ov, selection_type := IMMEDIATE\<rparr>\<rparr>) = annotate status R at ov"
    by (rule ext) (simp add: annotate_def)
  have e: "fcfs_handle_match_success jobid status R at ov q = (if i \<noteq> jobid then Some (Inl EINVAL, q)
      else do { (it, q) \<leftarrow> to_running k True (modify_job i (annotate status R at ov) q); Some (Inr 0, q\<lparr>m_in_progress_iter := it\<rparr>) })"
    unfolding fcfs_handle_match_success_def f using assms(2,3) i j by (simp add: Let_def)
  obtain q' where s: "to_running k True (modify_job i (annotate status R at ov) q) = Some (after k (m_pending q), q')"
    "loop_inv (q'\<lparr>m_in_progress_iter := after k (m_pending q)\<rparr>)" "m_pending q' = om_erase k (m_pending q)"
    "m_sched_loop_active q' = m_sched_loop_active q" "jobs_of q' = (jobs_of q)(i \<mapsto> started (m_rq_cnt q) (annotate status R at ov j))"
    "om_find (m_rq_cnt q) (m_alloced q') = Some i"
    using start_ok [OF q(1) i assms(4) quiet_annotate j(1)] by blast
  show ?thesis
    by (rule that [OF i j(1,2)]) (use e s assms(2) in simp_all)
qed

lemma loop_inv_sched [simp]: "loop_inv (q\<lparr>m_scheduled := b\<rparr>) = loop_inv q" "loop_inv (set_schedulability b q) = loop_inv q"
  by (simp_all add: loop_inv_def) (simp_all add: set_schedulability_def)

text \<open>A refusal ends the loop; one that is final for the job rejects it.\<close>

lemma fcfs_failure_ok:
  assumes "loop_inv q" and "m_sched_loop_active q" and "m_dq_cnt q + 1 < 2 ^ 64"
    and "errcode = EBUSY \<or> errcode = ENODATA \<or> m_in_progress_iter q \<noteq> End"
  obtains q' where "fcfs_handle_match_failure errcode q = Some (Inr 0, q')" and "loop_inv q'" and "\<not> m_sched_loop_active q'"
proof -
  have q: "qinv q" "iter_on (m_in_progress_iter q) (m_pending q)" using assms(1,2) by (simp_all add: loop_inv_def)
  define first where "first = (if errcode \<noteq> EBUSY \<and> errcode \<noteq> ENODATA
             then (case m_in_progress_iter q of
                     At k \<Rightarrow> map_option (\<lambda>(it, q). q\<lparr>m_in_progress_iter := it\<rparr>)
                       (to_rejected k (if errcode = ENODEV then ''unsatisfiable'' else ''match error'') q)
                   | _ \<Rightarrow> None)
             else Some q)"
  have "\<exists>q1. first = Some q1 \<and> qinv q1"
  proof (cases "errcode \<noteq> EBUSY \<and> errcode \<noteq> ENODATA")
    case True
    with assms(4) q(2) obtain k i where k: "m_in_progress_iter q = At k" "om_find k (m_pending q) = Some i"
      by (auto simp: iter_on_def split: iter.splits)
    from pend_pending [OF q(1) k(2)] obtain j where j: "jobs_of q i = Some j" .
    from reject_ok [OF q(1) k(2) assms(3) j] obtain q' where
      "to_rejected k (if errcode = ENODEV then ''unsatisfiable'' else ''match error'') q = Some (after k (m_pending q), q')"
      "loop_inv (q'\<lparr>m_in_progress_iter := after k (m_pending q)\<rparr>)" by blast
    with True k(1) show ?thesis by (auto simp: first_def loop_inv_def)
  next
    case False
    with q(1) show ?thesis by (auto simp: first_def)
  qed
  then obtain q1 where q1: "first = Some q1" "qinv q1" by blast
  let ?q = "if errcode = ENODEV then set_schedulability True q1
                 else if errcode = ENODATA \<and> m_queue_depth_limit q1
                 then (set_schedulability True q1)\<lparr>m_queue_depth_limit := False\<rparr>
                 else q1"
  have e: "fcfs_handle_match_failure errcode q = Some (Inr 0, (snd (set_sched_loop_active False ?q))\<lparr>m_scheduled := True\<rparr>)"
    unfolding fcfs_handle_match_failure_def first_def [symmetric] using assms(2) q1(1) by (simp add: Let_def)
  have "qinv ?q" using q1(2) by simp
  from that [OF e] deactivate_inv [OF this] set_sched_loop_active_ok(2) [OF this, of False] show ?thesis by simp
qed

section \<open>Backfilling\<close>

lemma qinv_bf [simp]: "qinv (q\<lparr>m_scheduled_cnt := c\<rparr>) = qinv q" "qinv (q\<lparr>m_try_reserve := b\<rparr>) = qinv q"
  "qinv (q\<lparr>m_reservation_cnt := c\<rparr>) = qinv q" "qinv (q\<lparr>m_reserved := r\<rparr>) = qinv q" "qinv (q\<lparr>m_oq_cnt := c\<rparr>) = qinv q"
  by (rule qinv_view, simp add: qview_def)+

text \<open>In a backfilling loop that is active the iterator stands at a job: the loop is over as
  soon as it reaches the end.\<close>

definition bf_inv :: "bf_queue \<Rightarrow> bool" where
  "bf_inv q \<longleftrightarrow> qinv q \<and> (m_sched_loop_active q \<longrightarrow> iter_on (m_in_progress_iter q) (m_pending q) \<and> m_in_progress_iter q \<noteq> End)"

lemma bf_invD: "bf_inv q \<Longrightarrow> loop_inv q"
  by (simp add: bf_inv_def loop_inv_def)

lemma bf_invI: "bf_inv q \<Longrightarrow> qinv q' \<Longrightarrow> calm q q' \<Longrightarrow> bf_inv q'"
  by (auto simp: bf_inv_def calm_def)

text \<open>How many jobs the loop still has before it.\<close>

definition pos :: "pending_key iter \<Rightarrow> job_map \<Rightarrow> nat" where
  "pos it m = (case it of At k \<Rightarrow> length (filter (\<lambda>(k', _). k \<le> k') m) | _ \<Rightarrow> 0)"

definition ahead :: "'a queue_scheme \<Rightarrow> nat" where
  "ahead q = pos (m_in_progress_iter q) (m_pending q)"

lemma pos_after:
  assumes "om_ok m" and "om_find k m = Some i"
  shows "pos (after k m) m < pos (At k) m" and "pos (after k m) (om_erase k m) < pos (At k) m"
proof -
  have k: "(k, i) \<in> set m" using assms by (simp add: om_find_Some_iff)
  have "(k, i) \<in> set (filter (\<lambda>(k', _). k \<le> k') m)" using k by simp
  then have here: "0 < pos (At k) m" unfolding pos_def by (simp only: iter.case length_pos_if_in_set)
  show 1: "pos (after k m) m < pos (At k) m"
  proof (cases "after k m")
    case (At k')
    have lt: "k < k'" using om_begin_filter(2) [OF assms(1) At [unfolded after_def]] .
    then have "filter (\<lambda>(x, _). k' \<le> x) m = filter (\<lambda>(x, _). k' \<le> x) (filter (\<lambda>(x, _). k \<le> x) m)"
      by (auto intro!: filter_cong)
    moreover have "length (filter (\<lambda>(x, _). k' \<le> x) (filter (\<lambda>(x, _). k \<le> x) m)) < length (filter (\<lambda>(x, _). k \<le> x) m)"
      by (rule length_filter_less [of "(k, i)"]) (use k lt in auto)
    ultimately show ?thesis by (simp add: pos_def At)
  next
    case Singular
    then show ?thesis using here by (simp add: pos_def)
  next
    case End
    then show ?thesis using here by (simp add: pos_def)
  qed
  have "pos it (om_erase k m) \<le> pos it m" for it
  proof (cases it)
    case (At x)
    have "filter (\<lambda>(k', _). x \<le> k') (om_erase k m) = filter (\<lambda>(j, _). j \<noteq> k) (filter (\<lambda>(k', _). x \<le> k') m)"
      unfolding om_erase_def by (simp add: conj_commute case_prod_beta)
    then have "length (filter (\<lambda>(k', _). x \<le> k') (om_erase k m)) \<le> length (filter (\<lambda>(k', _). x \<le> k') m)"
      by (simp only: length_filter_le)
    then show ?thesis using At by (simp add: pos_def)
  qed (simp_all add: pos_def)
  with 1 show "pos (after k m) (om_erase k m) < pos (At k) m" using le_less_trans by blast
qed

text \<open>The reservations held never exceed the reservation depth.\<close>

definition held :: "bf_queue \<Rightarrow> bool" where
  "held q \<longleftrightarrow> int (length (m_reserved q)) \<le> m_reservation_cnt q
     \<and> m_reservation_cnt q \<le> m_reservation_depth q \<and> m_reservation_depth q < 2 ^ 32"

definition reserves :: "bf_queue \<Rightarrow> bool" where
  "reserves q \<longleftrightarrow> held q \<and> (m_sched_loop_active q \<and> m_try_reserve q \<longrightarrow> m_reservation_cnt q < m_reservation_depth q)"

text \<open>The base class leaves the fields of the derived classes alone.\<close>

lemma more_frames:
  "queue.more (snd (erase_pending_job j q)) = queue.more q" "queue.more (snd (insert_pending_job j b q)) = queue.more q"
  "queue.more (modify_job i f q) = queue.more q" "queue.more (process_provisional_reconsider q) = queue.more q"
  "queue.more (reconsider_blocked_jobs q) = queue.more q" "queue.more (set_schedulability c q) = queue.more q"
  by (simp_all add: erase_pending_job_def Let_def erase_pending_def insert_pending_job_def modify_job_def set_schedulability_def
       reconsider_blocked_jobs_def process_provisional_reconsider_def split: prod.split)

lemma cancel_job_more: "queue.more (snd (cancel_job i j q)) = queue.more q"
proof -
  obtain re q1 where e: "erase_pending_job j q = (re, q1)" by fastforce
  then have "queue.more q1 = queue.more q" using more_frames(1) [of j q] by simp
  with e show ?thesis by (auto simp: cancel_job_def more_frames Let_def om_insert_def split: sum.split)
qed

lemma reprio_loop_more: "queue.more (snd (reprio_loop xs q)) = queue.more q"
proof (induction xs q rule: reprio_loop.induct)
  case (2 t i prio rest q)
  show ?case
  proof (cases "\<exists>j. om_find i (m_jobs q) = Some j \<and> job_state j = PENDING")
    case False
    with 2(2) show ?thesis by (auto split: option.split)
  next
    case True
    then obtain j where j: "om_find i (m_jobs q) = Some j" "job_state j = PENDING" by blast
    obtain re q1 where e: "erase_pending_job j q = (re, q1)" by fastforce
    have m1: "queue.more q1 = queue.more q" using more_frames(1) [of j q] e by simp
    show ?thesis
    proof (cases re)
      case (Inl x)
      with j e m1 show ?thesis by simp
    next
      case (Inr prov)
      let ?q = "modify_job i (\<lambda>j. j\<lparr>priority := prio\<rparr>) q1"
      obtain ri q2 where p: "insert_pending_job (j\<lparr>priority := prio\<rparr>) prov ?q = (ri, q2)" by fastforce
      have m2: "queue.more q2 = queue.more q" using more_frames(2) [of "j\<lparr>priority := prio\<rparr>" prov ?q] p m1 by (simp add: more_frames)
      show ?thesis
      proof (cases ri)
        case (Inl x)
        with j e Inr p m2 show ?thesis by simp
      next
        case (Inr n)
        with 2(1) [OF j e [symmetric, folded \<open>re = Inr prov\<close>]] j e \<open>re = Inr prov\<close> p m2 show ?thesis by (simp add: more_frames)
      qed
    qed
  qed
qed simp

lemma cancel_loop_more: "queue.more (snd (cancel_loop xs q)) = queue.more q"
proof (induction xs q rule: cancel_loop.induct)
  case (2 t i rest q)
  then show ?case using cancel_job_more [of i _ q] by (auto split: option.split prod.split sum.split) (metis snd_conv)+
qed simp

lemma set_sched_loop_more: "queue.more (snd (set_sched_loop_active b q)) = queue.more q"
proof -
  have "queue.more (snd (process_provisional_reprio q)) = queue.more q" "queue.more (snd (process_provisional_cancel q)) = queue.more q" for q :: "'a queue_scheme"
    by (simp_all add: process_provisional_reprio_def process_provisional_cancel_def reprio_loop_more cancel_loop_more)
  then show ?thesis by (simp add: set_sched_loop_active_def Let_def more_frames case_prod_beta)
qed

lemma held_more: "queue.more q' = queue.more q \<Longrightarrow> held q' = held q"
  by (cases q, cases q') (simp add: held_def)

lemma try_more: "queue.more q' = queue.more q \<Longrightarrow> m_try_reserve q' = m_try_reserve q"
  by (cases q, cases q') simp

lemma next_match_iter_ok:
  assumes "qinv q" and "m_sched_loop_active q" and "iter_on (m_in_progress_iter q) (m_pending q)"
  obtains r q' where "next_match_iter api q = Some (r, q')" and "bf_inv q'" and "held q \<longrightarrow> reserves q'"
    and "m_sched_loop_active q' \<longrightarrow> ahead q' = ahead q"
proof -
  have off: "bf_inv (snd (set_sched_loop_active False q))" "held q \<longrightarrow> reserves (snd (set_sched_loop_active False q))"
    "\<not> m_sched_loop_active (snd (set_sched_loop_active False q))"
    using set_sched_loop_active_ok [OF assms(1), of False] held_more [OF set_sched_loop_more, of False q]
    by (simp_all add: bf_inv_def reserves_def)
  have sc: "bf_inv (set_schedulability b q') = bf_inv q'" "reserves (set_schedulability b q') = reserves q'"
    "m_sched_loop_active (set_schedulability b q') = m_sched_loop_active q'" for b q'
    by (simp_all add: bf_inv_def reserves_def held_def) (simp_all add: set_schedulability_def)
  from assms(3) show ?thesis
  proof (cases rule: iter_onE)
    case end_
    then have "next_match_iter api q = Some (Inr 0, snd (set_sched_loop_active False q))" by (simp add: next_match_iter_def)
    then show ?thesis using that off by blast
  next
    case (at_ k i)
    show ?thesis
    proof (cases "u32 (m_scheduled_cnt q) \<ge> m_queue_depth q")
      case True
      let ?q = "snd (set_sched_loop_active False q)"
      let ?q' = "if m_scheduled ?q then set_schedulability True ?q else ?q"
      have "next_match_iter api q = Some (Inr 0, ?q')" using at_ True by (simp add: next_match_iter_def Let_def)
      moreover have "bf_inv ?q'" "held q \<longrightarrow> reserves ?q'" "\<not> m_sched_loop_active ?q'" using off sc by auto
      ultimately show ?thesis using that by blast
    next
      case False
      from pend_pending [OF assms(1) at_(2)] obtain j where j: "jobs_of q i = Some j" .
      let ?u = "q\<lparr>m_try_reserve := u32 (m_reservation_cnt q) < m_reservation_depth q\<rparr>"
      let ?x = "[(job_id j, jobspec j)]"
      let ?v = "?u\<lparr>sent := sent q @ [(m_try_reserve ?u, ?x)]\<rparr>"
      let ?r = "if \<not> json_loads api (jobspec j) then Inl ENOMEM
        else if match_allocate_multi api (m_try_reserve ?u) ?x < 0 then Inl UNSET else Inr (match_allocate_multi api (m_try_reserve ?u) ?x)"
      let ?w = "if \<not> json_loads api (jobspec j) then ?u else ?v"
      have e: "next_match_iter api q = Some (?r, ?w)"
        using at_ False j by (simp add: next_match_iter_def Let_def)
      have "bf_inv ?w" using assms at_ by (simp add: bf_inv_def)
      moreover have "u32 (m_reservation_cnt q) = m_reservation_cnt q" if "held q"
        using that by (simp add: held_def u32_def)
      then have "held q \<longrightarrow> reserves ?w" by (simp add: reserves_def held_def)
      moreover have "ahead ?w = ahead q" by (simp add: ahead_def)
      ultimately show ?thesis using that e by blast
    qed
  qed
qed

lemma length_om_insert: "length (fst (om_insert k v m)) \<le> Suc (length m)"
proof -
  have "length (om_assign k v m) \<le> Suc (length m)" by (induction k v m rule: om_assign.induct) auto
  then show ?thesis by (simp add: om_insert_def)
qed

definition bf_annotate :: "string \<Rightarrow> string \<Rightarrow> int \<Rightarrow> int \<Rightarrow> job \<Rightarrow> job" where
  "bf_annotate status R at ov j = j\<lparr>schedule_of := (schedule_of j)\<lparr>reserved := (status = ''RESERVED''),
     sched_R := R, sched_old_at := sched_at (schedule_of j), sched_at := at, sched_ov := ov\<rparr>\<rparr>"

definition select_as :: "job_selection_type \<Rightarrow> job \<Rightarrow> job" where
  "select_as st j = j\<lparr>schedule_of := (schedule_of j)\<lparr>selection_type := st\<rparr>\<rparr>"

definition hold :: "job \<Rightarrow> job" where
  "hold j = j\<lparr>schedule_of := (schedule_of j)\<lparr>was_reserved := True, selection_type := RESERVED\<rparr>\<rparr>"

lemma quiet_bf: "quiet (bf_annotate status R at ov)" "quiet hold" "quiet (\<lambda>j. select_as st (bf_annotate status R at ov j))"
  by (simp_all add: quiet_def bf_annotate_def hold_def select_as_def)

text \<open>What one answer leaves for the next question.\<close>

definition moved :: "bf_queue \<Rightarrow> pending_key \<Rightarrow> bf_queue \<Rightarrow> bool" where
  "moved q k q' \<longleftrightarrow> qinv q' \<and> m_sched_loop_active q' \<and> iter_on (m_in_progress_iter q') (m_pending q') \<and> ahead q' < ahead q"

lemma ask_next:
  assumes "moved q k q1" and "\<And>c. held (q1\<lparr>m_scheduled_cnt := c\<rparr>) = held q1"
  obtains r q' where "next_match_iter api (q1\<lparr>m_scheduled_cnt := c\<rparr>) = Some (r, q')" and "bf_inv q'" and "held q1 \<longrightarrow> reserves q'"
    and "m_sched_loop_active q' \<longrightarrow> ahead q' < ahead q"
proof -
  let ?q = "q1\<lparr>m_scheduled_cnt := c\<rparr>"
  have "ahead ?q = ahead q1" by (simp add: ahead_def)
  moreover have "qinv ?q" "m_sched_loop_active ?q" "iter_on (m_in_progress_iter ?q) (m_pending ?q)"
    using assms(1) by (simp_all add: moved_def)
  from next_match_iter_ok [OF this, of api] obtain r q' where
    "next_match_iter api ?q = Some (r, q')" "bf_inv q'" "held ?q \<longrightarrow> reserves q'" "m_sched_loop_active q' \<longrightarrow> ahead q' = ahead ?q" .
  ultimately show ?thesis using that assms by (simp add: moved_def)
qed

lemma held_cnt [simp]: "held (q\<lparr>m_scheduled_cnt := c\<rparr>) = held q"
  by (simp add: held_def)

lemma reserve_ok:
  assumes "qinv q" and "m_sched_loop_active q" and "m_in_progress_iter q = At k" and "om_find k (m_pending q) = Some i" and "quiet f"
  obtains q1 where "reserve_job i k (modify_job i f q) = Some q1" and "moved q k q1"
    and "held q \<and> m_reservation_cnt q < m_reservation_depth q \<longrightarrow> held q1"
    and "m_reservation_cnt q1 = m_reservation_cnt q + 1"
    and "jobs_of q1 = (jobs_of q)(i := map_option (\<lambda>j. hold (f j)) (jobs_of q i))"
proof -
  let ?q = "modify_job i hold (modify_job i f q)"
  let ?q1 = "?q\<lparr>m_reserved := fst (om_insert (m_oq_cnt q) i (m_reserved q)), m_oq_cnt := u64 (m_oq_cnt q + 1),
             m_reservation_cnt := m_reservation_cnt q + 1, m_in_progress_iter := after k (m_pending q), m_scheduled := True\<rparr>"
  have h: "(\<lambda>j. j\<lparr>schedule_of := (schedule_of j)\<lparr>was_reserved := True, selection_type := RESERVED\<rparr>\<rparr>) = hold"
    by (rule ext) (simp add: hold_def)
  have x: "m_oq_cnt ?q = m_oq_cnt q" "m_reserved ?q = m_reserved q" "m_reservation_cnt ?q = m_reservation_cnt q"
    "m_reservation_depth ?q = m_reservation_depth q" by (simp_all add: modify_job_def)
  have e: "reserve_job i k (modify_job i f q) = Some ?q1"
    unfolding reserve_job_def h using assms(4) x by (simp add: after_def Let_def)
  have "qinv ?q" using assms(1,5) quiet_modify quiet_bf(2) by blast
  then have "moved q k ?q1"
    using pos_after(1) [OF pending_om_ok [OF assms(1)] assms(4)] after_on(2) [OF pending_om_ok [OF assms(1)]] assms(2,3)
    by (simp add: moved_def ahead_def)
  moreover have "held q \<and> m_reservation_cnt q < m_reservation_depth q \<longrightarrow> held ?q1"
    using length_om_insert [of "m_oq_cnt q" i "m_reserved q"] x by (auto simp: held_def)
  moreover have "m_reservation_cnt ?q1 = m_reservation_cnt q + 1" by simp
  moreover have "jobs_of ?q1 = (jobs_of q)(i := map_option (\<lambda>j. hold (f j)) (jobs_of q i))"
    by (auto simp: option.map_comp comp_def)
  ultimately show ?thesis using that e by blast
qed

lemma bf_at:
  assumes "bf_inv q" and "m_sched_loop_active q"
  obtains k i j where "m_in_progress_iter q = At k" and "om_find k (m_pending q) = Some i" and "jobs_of q i = Some j"
    and "job_state j = PENDING" and "job_id j = i" and "get_key j = k"
proof -
  have i: "qinv q" "iter_on (m_in_progress_iter q) (m_pending q)" "m_in_progress_iter q \<noteq> End" using assms by (simp_all add: bf_inv_def)
  from i(2) show ?thesis
  proof (cases rule: iter_onE)
    case end_
    with i(3) show ?thesis by simp
  next
    case (at_ k i)
    from pend_pending [OF \<open>qinv q\<close> at_(2)] that at_ show ?thesis by metis
  qed
qed

text \<open>An answer to a request for a reservation comes only when one was asked for.\<close>

lemma bf_success_ok:
  assumes "bf_inv q" and "m_sched_loop_active q" and "m_rq_cnt q + 1 < 2 ^ 64"
  shows "\<exists>r q'. bf_handle_match_success api jobid status R at ov q = Some (r, q') \<and> bf_inv q'
    \<and> (reserves q \<and> (status = ''RESERVED'' \<longrightarrow> m_try_reserve q) \<longrightarrow> reserves q')
    \<and> (m_sched_loop_active q' \<and> r \<noteq> Inl EINVAL \<longrightarrow> ahead q' < ahead q)"
proof -
  obtain k i j where k: "m_in_progress_iter q = At k" "om_find k (m_pending q) = Some i" "jobs_of q i = Some j" "job_id j = i"
    using bf_at [OF assms(1,2)] by metis
  have q: "qinv q" using assms(1) by (simp add: bf_inv_def)
  have f: "(\<lambda>j. j\<lparr>schedule_of := (schedule_of j)\<lparr>reserved := (status = ''RESERVED''),
         sched_R := R, sched_old_at := sched_at (schedule_of j), sched_at := at, sched_ov := ov\<rparr>\<rparr>) = bf_annotate status R at ov"
    by (rule ext) (simp add: bf_annotate_def)
  let ?u = "modify_job i (bf_annotate status R at ov) q"
  let ?st = "selection_of j ?u"
  have g: "(\<lambda>j. j\<lparr>schedule_of := (schedule_of j)\<lparr>selection_type := st\<rparr>\<rparr>) = select_as st" for st
    by (rule ext) (simp add: select_as_def)
  show ?thesis
  proof (cases "i = jobid")
    case False
    then show ?thesis using k assms by (simp add: bf_handle_match_success_def)
  next
    case True
    have e: "bf_handle_match_success api jobid status R at ov q = do {
        q \<leftarrow> (if status = ''RESERVED'' then reserve_job i k ?u
             else do { (it, q) \<leftarrow> to_running k True (modify_job i (select_as ?st) ?u); Some (q\<lparr>m_in_progress_iter := it\<rparr>) });
        next_match_iter api (q\<lparr>m_scheduled_cnt := m_scheduled_cnt q + 1\<rparr>) }"
      unfolding bf_handle_match_success_def f g using k True assms(2) by (simp add: Let_def)
    have "\<exists>q1. (if status = ''RESERVED'' then reserve_job i k ?u
             else do { (it, q) \<leftarrow> to_running k True (modify_job i (select_as ?st) ?u); Some (q\<lparr>m_in_progress_iter := it\<rparr>) }) = Some q1
        \<and> moved q k q1 \<and> (reserves q \<and> (status = ''RESERVED'' \<longrightarrow> m_try_reserve q) \<longrightarrow> held q1)"
    proof (cases "status = ''RESERVED''")
      case True
      from reserve_ok [OF q assms(2) k(1,2) quiet_bf(1) [of status R at ov]] obtain q1 where
        "reserve_job i k ?u = Some q1" "moved q k q1" "held q \<and> m_reservation_cnt q < m_reservation_depth q \<longrightarrow> held q1" .
      then show ?thesis using True assms(2) by (auto simp: reserves_def)
    next
      case False
      from start_ok [OF q k(2) assms(3) quiet_bf(3) [of ?st status R at ov] k(3)] obtain q1 where
        s: "to_running k True (modify_job i (select_as ?st) ?u) = Some (after k (m_pending q), q1)"
           "loop_inv (q1\<lparr>m_in_progress_iter := after k (m_pending q)\<rparr>)" "m_pending q1 = om_erase k (m_pending q)"
           "m_sched_loop_active q1 = m_sched_loop_active q" "queue.more q1 = queue.more q"
        unfolding modify_modify by blast
      let ?q = "q1\<lparr>m_in_progress_iter := after k (m_pending q)\<rparr>"
      have "moved q k ?q"
        using s(2-4) assms(2) pos_after(2) [OF pending_om_ok [OF q] k(2)] k(1)
        by (simp add: moved_def loop_inv_def ahead_def)
      moreover have "held ?q = held q1" by (simp add: held_def)
      ultimately show ?thesis using False s(1) held_more [OF s(5)] by (simp add: reserves_def)
    qed
    then obtain q1 where q1: "(if status = ''RESERVED'' then reserve_job i k ?u
             else do { (it, q) \<leftarrow> to_running k True (modify_job i (select_as ?st) ?u); Some (q\<lparr>m_in_progress_iter := it\<rparr>) }) = Some q1"
        "moved q k q1" "reserves q \<and> (status = ''RESERVED'' \<longrightarrow> m_try_reserve q) \<longrightarrow> held q1" by blast
    from ask_next [OF q1(2) held_cnt, of api "m_scheduled_cnt q1 + 1"] obtain r q' where
      "next_match_iter api (q1\<lparr>m_scheduled_cnt := m_scheduled_cnt q1 + 1\<rparr>) = Some (r, q')" "bf_inv q'" "held q1 \<longrightarrow> reserves q'"
      "m_sched_loop_active q' \<longrightarrow> ahead q' < ahead q" .
    then show ?thesis unfolding e q1(1) using q1(3) by auto
  qed
qed

lemma clear_estimate_ok:
  assumes "qinv q"
  shows "qinv (clear_estimate i j q)" and "m_pending (clear_estimate i j q) = m_pending q"
    and "m_sched_loop_active (clear_estimate i j q) = m_sched_loop_active q" and "queue.more (clear_estimate i j q) = queue.more q"
    and "m_in_progress_iter (clear_estimate i j q) = m_in_progress_iter q"
proof -
  have "quiet (\<lambda>j. j\<lparr>schedule_of := (schedule_of j)\<lparr>sched_at := 0, selection_type := UNKNOWN, was_reserved := False\<rparr>\<rparr>)"
    by (simp add: quiet_def)
  from quiet_modify [OF assms this] show "qinv (clear_estimate i j q)" using assms by (simp add: clear_estimate_def)
  show "m_pending (clear_estimate i j q) = m_pending q" "m_sched_loop_active (clear_estimate i j q) = m_sched_loop_active q"
    "queue.more (clear_estimate i j q) = queue.more q" "m_in_progress_iter (clear_estimate i j q) = m_in_progress_iter q"
    by (simp_all add: clear_estimate_def modify_job_def)
qed

text \<open>A job set aside moves from the pending map to the blocked one, under its key.\<close>

lemma block_ok:
  assumes "qinv q" and "om_find k (m_pending q) = Some i"
  shows "qinv ((erase_pending k q)\<lparr>m_blocked := fst (om_insert k i (m_blocked q))\<rparr>)"
proof -
  note inv = qinvD [OF assms(1)]
  let ?q = "(erase_pending k q)\<lparr>m_blocked := fst (om_insert k i (m_blocked q))\<rparr>"
  have o: "om_ok (m_pending q)" "om_ok (m_blocked q)" using inv(1) by (simp_all add: maps_ok_def)
  have n: "om_find k (m_blocked q) = None" "om_find k (m_pending_provisional q) = None"
    using apartD(1,2) [OF inv(2), of k] assms(2) by auto
  have m: "om_find x (m_pending ?q) = (if x = k then None else om_find x (m_pending q))"
    "om_find x (m_blocked ?q) = (if x = k then Some i else om_find x (m_blocked q))" "m_pending_provisional ?q = m_pending_provisional q" for x
    using o n by (simp_all add: om_find_erase om_find_insert)
  obtain P a b where u: "erase_pending k q = q\<lparr>m_pending := P, m_pending_iter := a, m_in_progress_iter := b\<rparr>"
    by (simp add: erase_pending_def)
  have r: "repend q ?q"
    unfolding repend_def u
    by (rule exI [of _ P], rule exI [of _ "m_pending_provisional q"], rule exI [of _ "fst (om_insert k i (m_blocked q))"],
        rule exI [of _ a], rule exI [of _ b]) simp
  have "maps_ok ?q" using inv(1) by (simp add: maps_ok_def erase_pending_def)
  moreover have "apart ?q"
    unfolding apart_def
  proof (intro allI)
    fix x
    show "\<not> (om_find x (m_pending ?q) \<noteq> None \<and> om_find x (m_pending_provisional ?q) \<noteq> None)
      \<and> \<not> (om_find x (m_pending ?q) \<noteq> None \<and> om_find x (m_blocked ?q) \<noteq> None)
      \<and> \<not> (om_find x (m_pending_provisional ?q) \<noteq> None \<and> om_find x (m_blocked ?q) \<noteq> None)"
      unfolding m using apartD [OF inv(2), of x] n by auto
  qed
  moreover have "pend ?q = pend q"
  proof (rule ext)
    fix x
    show "pend ?q x = pend q x" unfolding pend_def m using n assms(2) by (simp add: first_of_def)
  qed
  ultimately show ?thesis using qinv_repend [OF assms(1) r] by blast
qed

lemma skip_busy_ok:
  assumes "qinv q" and "m_sched_loop_active q" and "m_in_progress_iter q = At k" and "om_find k (m_pending q) = Some i" and "jobs_of q i = Some j"
  obtains q1 where "skip_busy k i q = Some (Inr 0, q1)" and "moved q k q1" and "held q1 = held q"
proof -
  let ?u = "clear_estimate i j q"
  note u = clear_estimate_ok [OF assms(1), of i j]
  let ?v = "?u\<lparr>m_in_progress_iter := after k (m_pending q)\<rparr>"
  let ?w = "(erase_pending k ?v)\<lparr>m_blocked := fst (om_insert k i (m_blocked ?v))\<rparr>"
  let ?x = "?w\<lparr>m_scheduled_cnt := m_scheduled_cnt ?w - 1\<rparr>"
  let ?y = "if m_try_reserve ?v then ?x else ?v"
  have o: "om_ok (m_pending q)" using pending_om_ok [OF assms(1)] .
  have it: "m_in_progress_iter ?w = after k (m_pending q)"
  proof (cases "after k (m_pending q)")
    case (At k')
    then show ?thesis using om_begin_filter(2) [OF o At [unfolded after_def]] by (simp add: erase_pending_def)
  qed (simp_all add: erase_pending_def)
  have e: "skip_busy k i q = Some (Inr 0, ?y)"
    using assms(4,5) u(2) by (simp add: skip_busy_def Let_def after_def erase_pending_def)
  have w: "qinv ?w" using block_ok [of ?v k i] u(1,2) assms(4) by simp
  have "moved q k ?x"
    using w it after_on(1) [OF o, of k] pos_after(2) [OF o assms(4)] u(2,3) assms(2,3)
    by (simp add: moved_def ahead_def) (simp add: erase_pending_def)
  moreover have "moved q k ?v"
    using u(1-3) after_on(2) [OF o, of k] pos_after(1) [OF o assms(4)] assms(2,3) by (simp add: moved_def ahead_def)
  moreover have "held ?u = held q" using held_more [OF u(4)] .
  then have "held ?x = held q" "held ?v = held q" by (simp_all add: held_def erase_pending_def)
  ultimately show ?thesis using that e by (cases "m_try_reserve ?v") simp_all
qed

lemma bf_failure_ok:
  assumes "bf_inv q" and "m_sched_loop_active q" and "m_dq_cnt q + 1 < 2 ^ 64"
  shows "\<exists>r q'. bf_handle_match_failure api errcode q = Some (r, q') \<and> bf_inv q' \<and> (reserves q \<longrightarrow> reserves q')
    \<and> (m_sched_loop_active q' \<and> errcode \<noteq> ENODATA \<longrightarrow> ahead q' < ahead q)"
proof (cases "errcode = ENODATA")
  case True
  then show ?thesis using assms(1,2) by (simp add: bf_handle_match_failure_def)
next
  case False
  obtain k i j where k: "m_in_progress_iter q = At k" "om_find k (m_pending q) = Some i" "jobs_of q i = Some j"
    using bf_at [OF assms(1,2)] by metis
  have q: "qinv q" using assms(1) by (simp add: bf_inv_def)
  define act where "act = (if errcode \<noteq> EBUSY
                  then map_option (\<lambda>(it, q). (Inr 0, q\<lparr>m_in_progress_iter := it\<rparr>))
                         (to_rejected k (if errcode = ENODEV then ''unsatisfiable'' else ''match error'') q)
                  else skip_busy k i q)"
  have "\<exists>q1. act = Some (Inr 0, q1) \<and> moved q k q1 \<and> held q1 = held q"
  proof (cases "errcode = EBUSY")
    case True
    with skip_busy_ok [OF q assms(2) k] show ?thesis unfolding act_def by metis
  next
    case False
    from reject_ok [OF q k(2) assms(3) k(3)] obtain q1 where
      s: "to_rejected k (if errcode = ENODEV then ''unsatisfiable'' else ''match error'') q = Some (after k (m_pending q), q1)"
         "loop_inv (q1\<lparr>m_in_progress_iter := after k (m_pending q)\<rparr>)" "m_pending q1 = om_erase k (m_pending q)"
         "m_sched_loop_active q1 = m_sched_loop_active q" "queue.more q1 = queue.more q" by blast
    let ?q = "q1\<lparr>m_in_progress_iter := after k (m_pending q)\<rparr>"
    have "moved q k ?q"
      using s(2-4) assms(2) pos_after(2) [OF pending_om_ok [OF q] k(2)] k(1)
      by (simp add: moved_def loop_inv_def ahead_def)
    moreover have "held ?q = held q1" by (simp add: held_def)
    ultimately show ?thesis using False s(1) held_more [OF s(5)] by (simp add: act_def)
  qed
  then obtain q1 where q1: "act = Some (Inr 0, q1)" "moved q k q1" "held q1 = held q" by blast
  have e: "bf_handle_match_failure api errcode q = next_match_iter api (q1\<lparr>m_scheduled_cnt := m_scheduled_cnt q1 + 1\<rparr>)"
    unfolding bf_handle_match_failure_def using False assms(2) k(1,2) q1(1) by (simp add: act_def)
  from ask_next [OF q1(2) held_cnt, of api "m_scheduled_cnt q1 + 1"] obtain r q' where
      "next_match_iter api (q1\<lparr>m_scheduled_cnt := m_scheduled_cnt q1 + 1\<rparr>) = Some (r, q')" "bf_inv q'" "held q1 \<longrightarrow> reserves q'"
      "m_sched_loop_active q' \<longrightarrow> ahead q' < ahead q" .
  then show ?thesis unfolding e using q1(3) by (auto simp: reserves_def)
qed

lemma bf_run_ok:
  assumes "bf_inv q"
  shows "\<exists>r q'. bf_run_sched_loop api q = Some (r, q') \<and> bf_inv q' \<and> (reserves q \<longrightarrow> reserves q')"
proof (cases "m_sched_loop_active q")
  case True
  then show ?thesis using assms by (simp add: bf_run_sched_loop_def allocate_orelse_reserve_jobs_def)
next
  case False
  have q: "qinv q" using assms by (simp add: bf_inv_def)
  let ?u = "(set_schedulability False q)\<lparr>m_reserved := []\<rparr>"
  obtain rc where c: "cancel_reserved_jobs api (set_schedulability False q) = (rc, ?u)" by (simp add: cancel_reserved_jobs_def)
  have u: "qinv ?u" "\<not> m_sched_loop_active ?u" using q False by (simp_all add: set_schedulability_def [symmetric]) (simp add: set_schedulability_def)
  show ?thesis
  proof (cases "rc = 0")
    case rc: False
    have "bf_inv ?u" using u by (simp add: bf_inv_def)
    moreover have "reserves q \<longrightarrow> reserves ?u" using False by (simp add: reserves_def held_def set_schedulability_def)
    ultimately show ?thesis using False rc c by (simp add: bf_run_sched_loop_def)
  next
    case True
    let ?v = "take_provisional ?u"
    let ?w = "?v\<lparr>m_in_progress_iter := om_begin (m_pending ?v), m_reservation_cnt := 0, m_scheduled_cnt := 0\<rparr>"
    let ?x = "?w\<lparr>m_sched_loop_active := True\<rparr>"
    have na: "\<not> m_sched_loop_active ?w" using u(2) by (simp add: take_provisional_def)
    have e: "bf_run_sched_loop api q = next_match_iter api ?x"
      using False True c u(2) activate [OF na] by (simp add: bf_run_sched_loop_def allocate_orelse_reserve_jobs_def Let_def)
    have x: "qinv ?x" "m_sched_loop_active ?x" "iter_on (m_in_progress_iter ?x) (m_pending ?x)"
      using take_provisional_ok(1) [OF u(1)] om_begin_on by simp_all
    from next_match_iter_ok [OF x, of api] obtain r q' where
      n: "next_match_iter api ?x = Some (r, q')" "bf_inv q'" "held ?x \<longrightarrow> reserves q'" .
    have "held q \<longrightarrow> held ?x" by (simp add: held_def take_provisional_def set_schedulability_def)
    then show ?thesis using e n by (auto simp: reserves_def)
  qed
qed

end
