(* ===== verification/Queue_Steps.thy ===== *)
theory Queue_Steps
  imports Queue_Loop
begin

text \<open>
  A queue as a state machine: the operations the queue manager calls between two states of
  the queue, and the invariants of every state it can reach. The counters of the code are
  64 bits wide and the steps are those in which they do not wrap; an id is not reused while
  a put-off cancellation still names it.
\<close>

section \<open>Steps\<close>

definition room :: "'a queue_scheme \<Rightarrow> bool" where
  "room q \<longleftrightarrow> m_pq_cnt q + 1 < 2 ^ 64 \<and> m_rq_cnt q + 1 < 2 ^ 64 \<and> m_dq_cnt q + 1 < 2 ^ 64
     \<and> m_cancel_cnt q + 1 < 2 ^ 64 \<and> m_reprio_cnt q + 1 < 2 ^ 64"

inductive base_step ::
  "('a queue_scheme \<Rightarrow> int \<times> 'a queue_scheme) \<Rightarrow> reapi \<Rightarrow> 'a queue_scheme \<Rightarrow> 'a queue_scheme \<Rightarrow> bool"
  for cancel_sl :: "'a queue_scheme \<Rightarrow> int \<times> 'a queue_scheme" and api :: reapi
  where
    insert: "room q \<Longrightarrow> \<forall>t. om_find t (m_pending_cancel_provisional q) \<noteq> Some (job_id j)
      \<Longrightarrow> base_step cancel_sl api q (snd (q_insert (Some j) q))"
  | remove: "room q \<Longrightarrow> base_step cancel_sl api q (snd (q_remove cancel_sl api i fin R q))"
  | remove_pending: "room q \<Longrightarrow> base_step cancel_sl api q (snd (remove_pending cancel_sl i q))"
  | reprioritize: "room q \<Longrightarrow> base_step cancel_sl api q (snd (pending_reprioritize cancel_sl i prio q))"
  | reconsider: "base_step cancel_sl api q (reconsider_blocked_jobs q)"
  | alloced: "base_step cancel_sl api q (snd (alloced_pop q))"
  | rejected: "base_step cancel_sl api q (snd (rejected_pop q))"
  | canceled: "base_step cancel_sl api q (snd (canceled_pop q))"
  | pending: "\<not> m_sched_loop_active q \<Longrightarrow> base_step cancel_sl api q (snd (pending_pop q))"
  | reconstruct: "room q \<Longrightarrow> job_state j = RUNNING \<Longrightarrow> base_step cancel_sl api q (snd (reconstruct api j q))"

inductive fcfs_step :: "reapi \<Rightarrow> fcfs_queue \<Rightarrow> fcfs_queue \<Rightarrow> bool" for api :: reapi
  where
    base: "base_step cancel_sched_loop api q q' \<Longrightarrow> fcfs_step api q q'"
  | run: "fcfs_run_sched_loop api q = Some (rc, q') \<Longrightarrow> fcfs_step api q q'"
  | success: "room q \<Longrightarrow> fcfs_handle_match_success jobid status R at ov q = Some (r, q') \<Longrightarrow> fcfs_step api q q'"
  | failure: "room q \<Longrightarrow> fcfs_handle_match_failure errcode q = Some (r, q') \<Longrightarrow> fcfs_step api q q'"

text \<open>The resource service reserves only when it was asked to.\<close>

inductive bf_step :: "reapi \<Rightarrow> bf_queue \<Rightarrow> bf_queue \<Rightarrow> bool" for api :: reapi
  where
    base: "base_step bf_cancel_sched_loop api q q' \<Longrightarrow> bf_step api q q'"
  | run: "bf_run_sched_loop api q = Some (rc, q') \<Longrightarrow> bf_step api q q'"
  | success: "room q \<Longrightarrow> status = ''RESERVED'' \<longrightarrow> m_try_reserve q
      \<Longrightarrow> bf_handle_match_success api jobid status R at ov q = Some (r, q') \<Longrightarrow> bf_step api q q'"
  | failure: "room q \<Longrightarrow> bf_handle_match_failure api errcode q = Some (r, q') \<Longrightarrow> bf_step api q q'"

inductive_cases base_stepE: "base_step cancel_sl api q q'"
inductive_cases fcfs_stepE: "fcfs_step api q q'"
inductive_cases bf_stepE: "bf_step api q q'"

section \<open>Invariants\<close>

lemma q_insert_known:
  assumes "jobs_of q (job_id j) \<noteq> None"
  shows "q_insert (Some j) q = (Inl EINVAL, q)"
  using assms by (simp add: q_insert_def)

lemma reconstruct_step:
  assumes "qinv q" and "room q" and "job_state j = RUNNING"
  shows "qinv (snd (reconstruct api j q))" and "calm q (snd (reconstruct api j q))"
proof -
  have r: "m_rq_cnt q + 1 < 2 ^ 64" using assms(2) by (simp add: room_def)
  have "qinv (snd (reconstruct_queue (Some j) q)) \<and> calm q (snd (reconstruct_queue (Some j) q))"
  proof (cases "jobs_of q (job_id j)")
    case None
    from reconstruct_queue_ok [OF assms(1) r assms(3) None] obtain q' where
      "reconstruct_queue (Some j) q = (Inr 0, q')" "qinv q'" "calm q q'" .
    then show ?thesis by simp
  next
    case (Some x)
    then show ?thesis using assms(1) by (simp add: reconstruct_queue_def)
  qed
  then show "qinv (snd (reconstruct api j q))" "calm q (snd (reconstruct api j q))"
    using assms(1) by (simp_all add: reconstruct_def split: sum.split)
qed

context sched_loop
begin

lemma base_step_inv:
  assumes "base_step cancel_sl api q q'" and "qinv q"
  shows "qinv q' \<and> calm q q'"
  using assms
proof (induction rule: base_step.induct)
  case (insert q j)
  show ?case
  proof (cases "jobs_of q (job_id j)")
    case None
    have "m_pq_cnt q + 1 < 2 ^ 64" using insert(1) by (simp add: room_def)
    from q_insert_ok [OF insert(3) this None insert(2)] obtain q' where "q_insert (Some j) q = (Inr 0, q')" "qinv q'" "calm q q'" .
    then show ?thesis by simp
  next
    case (Some x)
    then show ?thesis using insert(3) q_insert_known [of j q] by simp
  qed
next
  case (remove q i fin R)
  then show ?case using q_remove_ok [of q api i fin R] by (simp add: room_def)
next
  case (remove_pending q i)
  show ?case
  proof (cases "\<exists>j. jobs_of q i = Some j \<and> job_state j = PENDING")
    case True
    then obtain j where j: "jobs_of q i = Some j" "job_state j = PENDING" by blast
    have "m_cancel_cnt q + 1 < 2 ^ 64" using remove_pending(1) by (simp add: room_def)
    from remove_pending_ok [OF remove_pending(2) j this] obtain q' where "remove_pending cancel_sl i q = (Inr 0, q')" "qinv q'" "calm q q'" .
    then show ?thesis by simp
  next
    case False
    then have "remove_pending cancel_sl i q = (Inl EINVAL, q)" by (auto simp: remove_pending_def split: option.split)
    then show ?thesis using remove_pending(2) by simp
  qed
next
  case (reprioritize q i prio)
  then show ?case using pending_reprioritize_ok [of q i prio] by (simp add: room_def)
next
  case (reconsider q)
  then show ?case using reconsider_ok(2) reconsider_calm by blast
next
  case (alloced q)
  then show ?case using alloced_pop_ok(1,2) by blast
next
  case (rejected q)
  then show ?case using rejected_pop_ok by blast
next
  case (canceled q)
  then show ?case using canceled_pop_ok by blast
next
  case (pending q)
  then show ?case using pending_pop_ok [of q] calm_idle by blast
next
  case (reconstruct q j)
  then show ?case using reconstruct_step by blast
qed

end

text \<open>What a derived class keeps for itself, and its virtual method leaves alone, no operation of
  the base class changes.\<close>

locale own_state = sched_loop cancel_sl for cancel_sl :: "'a queue_scheme \<Rightarrow> int \<times> 'a queue_scheme" +
  fixes own :: "'a queue_scheme \<Rightarrow> 'b"
  assumes own_more: "queue.more q' = queue.more q \<Longrightarrow> own q' = own q"
    and own_cancel: "own (snd (cancel_sl q)) = own q"
begin

lemma own_reconsider: "own (reconsider_blocked_jobs q) = own q"
  by (rule own_more) (simp add: more_frames)

lemma own_remove_pending: "own (snd (remove_pending cancel_sl i q)) = own q"
proof (cases "\<exists>j. jobs_of q i = Some j \<and> job_state j = PENDING")
  case False
  then have "remove_pending cancel_sl i q = (Inl EINVAL, q)" by (auto simp: remove_pending_def split: option.split)
  then show ?thesis by simp
next
  case True
  then obtain j where j: "jobs_of q i = Some j" "job_state j = PENDING" by blast
  let ?stamp = "\<lambda>j. j\<lparr>stamps := (stamps j)\<lparr>canceled_ts := m_cancel_cnt q\<rparr>\<rparr>"
  let ?q = "modify_job i ?stamp (q\<lparr>m_cancel_cnt := u64 (m_cancel_cnt q + 1)\<rparr>)"
  obtain rc q1 where c: "(if m_sched_loop_active ?q then cancel_sl ?q else (0, ?q)) = (rc, q1)" by fastforce
  have "own ?q = own q" by (rule own_more) (simp add: more_frames)
  then have q1: "own q1 = own q" using c own_cancel [of ?q] by (auto split: if_splits)
  have e: "remove_pending cancel_sl i q = (if rc < 0 then
       (case om_insert (m_cancel_cnt q) (job_id j) (m_pending_cancel_provisional q1) of
          (m, ok) \<Rightarrow> (if ok then Inr 0 else Inl EEXIST, q1\<lparr>m_pending_cancel_provisional := m\<rparr>))
       else cancel_job i (?stamp j) q1)"
    unfolding remove_pending_def using j c by (simp add: Let_def)
  have "own (q1\<lparr>m_pending_cancel_provisional := m\<rparr>) = own q1" for m by (rule own_more) simp
  moreover have "own (snd (cancel_job i (?stamp j) q1)) = own q1" by (rule own_more) (simp add: cancel_job_more)
  ultimately show ?thesis unfolding e using q1 by (simp split: prod.split)
qed

lemma own_remove_running: "own (snd (remove_running api i j fin R q)) = own q"
  by (rule own_more) (simp add: remove_running_def set_schedulability_def Let_def split: prod.split)

lemma own_remove: "own (snd (q_remove cancel_sl api i fin R q)) = own q"
proof -
  have "own (snd (case om_find i (m_jobs q) of
           None \<Rightarrow> (Inl ENOENT, q)
         | Some j \<Rightarrow>
             (if job_state j = PENDING then (Inr 0, snd (remove_pending cancel_sl i q))
              else if job_state j = ALLOC_RUNNING \<or> job_state j = RUNNING then remove_running api i j fin R q
              else (Inr 0, q)))) = own q"
    by (simp add: own_remove_pending own_remove_running split: option.split)
  then show ?thesis by (simp add: q_remove_def case_prod_beta own_reconsider own_cancel)
qed

lemma own_reprioritize: "own (snd (pending_reprioritize cancel_sl i prio q)) = own q"
proof (cases "\<exists>j. jobs_of q i = Some j \<and> job_state j = PENDING")
  case False
  then show ?thesis by (auto simp: pending_reprioritize_def split: option.split)
next
  case True
  then obtain j where j: "jobs_of q i = Some j" "job_state j = PENDING" by blast
  obtain m ok where m: "om_insert (m_reprio_cnt q) (job_id j, prio) (m_pending_reprio_provisional q) = (m, ok)" by fastforce
  let ?q = "q\<lparr>m_pending_reprio_provisional := m, m_reprio_cnt := u64 (m_reprio_cnt q + 1)\<rparr>"
  obtain rc q1 where c: "(if \<not> m_sched_loop_active ?q then (0, ?q) else cancel_sl ?q) = (rc, q1)" by fastforce
  have q: "own ?q = own q" by (rule own_more) simp
  then have q1: "own q1 = own q" using c own_cancel [of ?q] by (auto split: if_splits)
  have "own (snd (process_provisional_reprio q1)) = own q1"
    by (rule own_more) (simp add: process_provisional_reprio_def reprio_loop_more)
  moreover have "pending_reprioritize cancel_sl i prio q =
      (if \<not> ok then (Inl EEXIST, ?q) else if rc = 0 then process_provisional_reprio q1 else (Inr 0, q1))"
    unfolding pending_reprioritize_def using j m c by (simp add: Let_def)
  ultimately show ?thesis using q q1 by simp
qed

lemma base_step_own:
  assumes "base_step cancel_sl api q q'"
  shows "own q' = own q"
  using assms
proof (cases rule: base_step.cases)
  case (insert j)
  have "queue.more q' = queue.more q" unfolding insert(1) by (simp add: q_insert_def Let_def set_schedulability_def)
  then show ?thesis by (rule own_more)
next
  case alloced
  have "queue.more q' = queue.more q" unfolding alloced by (simp add: alloced_pop_def split: list.split option.split)
  then show ?thesis by (rule own_more)
next
  case rejected
  have "queue.more q' = queue.more q" unfolding rejected by (simp add: rejected_pop_def split: list.split option.split)
  then show ?thesis by (rule own_more)
next
  case canceled
  have "queue.more q' = queue.more q" unfolding canceled by (simp add: canceled_pop_def split: list.split option.split)
  then show ?thesis by (rule own_more)
next
  case pending
  have "queue.more q' = queue.more q" unfolding pending(1) by (simp add: pending_pop_def erase_pending_def split: list.split option.split)
  then show ?thesis by (rule own_more)
next
  case (reconstruct j)
  have "queue.more q' = queue.more q"
    unfolding reconstruct(1) by (simp add: reconstruct_def reconstruct_queue_def om_insert_def Let_def split: sum.split)
  then show ?thesis by (rule own_more)
qed (simp_all add: own_remove own_remove_pending own_reprioritize own_reconsider)

end

definition bf_own :: "bf_queue \<Rightarrow> (int, int) omap \<times> int \<times> int \<times> bool" where
  "bf_own q = (m_reserved q, m_reservation_cnt q, m_reservation_depth q, m_try_reserve q)"

interpretation bf_own: own_state bf_cancel_sched_loop bf_own
proof unfold_locales
  show "queue.more q' = queue.more q \<Longrightarrow> bf_own q' = bf_own q" for q q' :: bf_queue
    by (cases q, cases q') (simp add: bf_own_def)
  show "bf_own (snd (bf_cancel_sched_loop q)) = bf_own q" for q
    by (simp add: bf_own_def bf_cancel_sched_loop_def)
qed

section \<open>Reachable states\<close>

lemma new_queue_inv: "qinv new_fcfs" "qinv (new_bf d)" "\<not> m_sched_loop_active new_fcfs" "\<not> m_sched_loop_active (new_bf d)"
proof -
  have p: "pend new_fcfs = Map.empty" "pend (new_bf d) = Map.empty"
    by (simp_all add: fun_eq_iff pend_def first_of_def new_fcfs_def new_bf_def new_queue_def queue.defs)
  show "qinv new_fcfs" "qinv (new_bf d)"
    using p core_empty by (simp_all add: qinv_def maps_ok_def apart_def core_def fresh_inv_def cancel_inv_def)
      (simp_all add: new_fcfs_def new_bf_def new_queue_def queue.defs)
  show "\<not> m_sched_loop_active new_fcfs" "\<not> m_sched_loop_active (new_bf d)"
    by (simp_all add: new_fcfs_def new_bf_def new_queue_def queue.defs)
qed

lemma fcfs_step_inv:
  assumes "fcfs_step api q q'" and "loop_inv q"
  shows "loop_inv q'"
  using assms
proof (cases rule: fcfs_step.cases)
  case base
  then show ?thesis using base.base_step_inv [OF base] assms(2) loop_invI by (auto simp: loop_inv_def)
next
  case (run rc)
  then show ?thesis using fcfs_run_ok [OF assms(2), of api] by auto
next
  case (success jobid status R at ov r)
  show ?thesis
  proof (cases "m_sched_loop_active q \<and> (\<exists>k. m_in_progress_iter q = At k)")
    case True
    then obtain k where k: "m_in_progress_iter q = At k" and a: "m_sched_loop_active q" by blast
    have "m_rq_cnt q + 1 < 2 ^ 64" using success(1) by (simp add: room_def)
    from fcfs_success_ok [OF assms(2) a k this, of jobid status R at ov] obtain i j where
      "i \<noteq> jobid \<Longrightarrow> fcfs_handle_match_success jobid status R at ov q = Some (Inl EINVAL, q)"
      "i = jobid \<Longrightarrow> \<exists>q'. fcfs_handle_match_success jobid status R at ov q = Some (Inr 0, q') \<and> loop_inv q'" by metis
    then show ?thesis using success(2) assms(2) by (cases "i = jobid") auto
  next
    case False
    then show ?thesis using success(2) assms(2)
      by (auto simp: fcfs_handle_match_success_def split: if_splits iter.splits)
  qed
next
  case (failure errcode r)
  have d: "m_dq_cnt q + 1 < 2 ^ 64" using failure(1) by (simp add: room_def)
  show ?thesis
  proof (cases "m_sched_loop_active q \<and> (errcode = EBUSY \<or> errcode = ENODATA \<or> m_in_progress_iter q \<noteq> End)")
    case True
    then have a: "m_sched_loop_active q" and c: "errcode = EBUSY \<or> errcode = ENODATA \<or> m_in_progress_iter q \<noteq> End" by blast+
    from fcfs_failure_ok [OF assms(2) a d c] obtain q'' where "fcfs_handle_match_failure errcode q = Some (Inr 0, q'')" "loop_inv q''" .
    then show ?thesis using failure(2) by simp
  next
    case False
    then show ?thesis using failure(2) assms(2) by (auto simp: fcfs_handle_match_failure_def split: if_splits)
  qed
qed

lemma bf_step_inv:
  assumes "bf_step api q q'" and "bf_inv q" and "reserves q"
  shows "bf_inv q' \<and> reserves q'"
  using assms
proof (cases rule: bf_step.cases)
  case base
  note own = bf_own.base_step_own [OF base] and inv = bf.base_step_inv [OF base]
  have "qinv q' \<and> calm q q'" using inv assms(2) by (simp add: bf_inv_def)
  moreover then have "reserves q'" using own assms(3) by (simp add: bf_own_def reserves_def held_def calm_def)
  ultimately show ?thesis using bf_invI assms(2) by blast
next
  case (run rc)
  then show ?thesis using bf_run_ok [OF assms(2), of api] assms(3) by auto
next
  case (success status jobid R at ov r)
  have "m_rq_cnt q + 1 < 2 ^ 64" using success(1) by (simp add: room_def)
  then show ?thesis
    using success(2,3) assms(2,3) bf_success_ok [OF assms(2) _, of api jobid status R at ov]
    by (cases "m_sched_loop_active q") (auto simp: bf_handle_match_success_def)
next
  case (failure errcode r)
  have "m_dq_cnt q + 1 < 2 ^ 64" using failure(1) by (simp add: room_def)
  then show ?thesis
    using failure(2) assms(2,3) bf_failure_ok [OF assms(2) _, of api errcode]
    by (cases "m_sched_loop_active q") (auto simp: bf_handle_match_failure_def)
qed

end
