(* ===== verification/Queue_Properties.thy ===== *)
theory Queue_Properties
  imports Queue_Steps
begin

text \<open>
  What the queueing policies promise, over the invariants of the other queue theories, with
  the sample queues the statements are tried on.
\<close>

section \<open>Sample queues\<close>

text \<open>A resource service that takes every request, and two jobs.\<close>

definition willing :: reapi where
  "willing = \<lparr>match_allocate_multi = (\<lambda>_ _. 0), reapi_cancel = (\<lambda>_ _. 0), reapi_partial_cancel = (\<lambda>_ _ _. (0, False)),
     update_allocate = (\<lambda>_ _ _ _. Inr 0), json_loads = (\<lambda>_. True)\<rparr>"

definition sample_job :: "int \<Rightarrow> int \<Rightarrow> job" where
  "sample_job i prio = \<lparr>job_state = INIT, job_id = i, userid = 0, priority = prio, t_submit = 0, jobspec = ''{}'', job_note = [],
     stamps = \<lparr>pending_ts = 0, running_ts = 0, rejected_ts = 0, complete_ts = 0, canceled_ts = 0\<rparr>,
     schedule_of = \<lparr>sched_R = [], reserved = False, was_reserved = False, selection_type = UNKNOWN, sched_at = 0,
       sched_old_at = 0, sched_ov = 0\<rparr>\<rparr>"

definition two_jobs :: "'a queue_scheme \<Rightarrow> 'a queue_scheme" where
  "two_jobs q = snd (q_insert (Some (sample_job 2 5)) (snd (q_insert (Some (sample_job 1 9)) q)))"


definition bf_busy :: bf_queue where
  "bf_busy = snd (the (bf_run_sched_loop willing (two_jobs (new_bf 1))))"

lemma willing_sel [simp]: "json_loads willing s" "match_allocate_multi willing b x = 0"
  by (simp_all add: willing_def)

lemma two_jobs_base:
  assumes "m_pq_cnt q = 0" "m_rq_cnt q = 0" "m_dq_cnt q = 0" "m_cancel_cnt q = 0" "m_reprio_cnt q = 0"
    and "m_pending_cancel_provisional q = []" "m_jobs q = []"
  shows "(base_step cancel_sl willing)\<^sup>*\<^sup>* q (two_jobs q)"
proof -
  let ?q = "snd (q_insert (Some (sample_job 1 9)) q)"
  have 1: "base_step cancel_sl willing q ?q"
    by (rule base_step.insert) (use assms in \<open>simp_all add: room_def\<close>)
  have 2: "base_step cancel_sl willing ?q (two_jobs q)"
    unfolding two_jobs_def
    by (rule base_step.insert)
       (use assms in \<open>simp_all add: room_def q_insert_def Let_def set_schedulability_def sample_job_def u64_def\<close>)
  have "(base_step cancel_sl willing)\<^sup>*\<^sup>* q ?q" using 1 by (rule r_into_rtranclp)
  then show ?thesis using 2 by (rule rtranclp.rtrancl_into_rtrancl)
qed

lemma fcfs_base: "(base_step cancel_sched_loop api)\<^sup>*\<^sup>* q q' \<Longrightarrow> (fcfs_step api)\<^sup>*\<^sup>* q q'"
  by (rule rtranclp_mono [THEN predicate2D]) (auto intro: fcfs_step.base)

lemma bf_base: "(base_step bf_cancel_sched_loop api)\<^sup>*\<^sup>* q q' \<Longrightarrow> (bf_step api)\<^sup>*\<^sup>* q q'"
  by (rule rtranclp_mono [THEN predicate2D]) (auto intro: bf_step.base)


lemma bf_busy_reached: "(bf_step willing)\<^sup>*\<^sup>* (new_bf 1) bf_busy" "room bf_busy" "m_sched_loop_active bf_busy"
proof -
  have n: "bf_run_sched_loop willing (two_jobs (new_bf 1)) = Some (Inr 0, bf_busy)" by code_simp
  have "(base_step bf_cancel_sched_loop willing)\<^sup>*\<^sup>* (new_bf 1) (two_jobs (new_bf 1))"
    by (rule two_jobs_base) (simp_all add: new_bf_def new_queue_def queue.defs)
  from bf_base [OF this] bf_step.run [OF n] show "(bf_step willing)\<^sup>*\<^sup>* (new_bf 1) bf_busy" by (rule rtranclp.rtrancl_into_rtrancl)
  show "room bf_busy" "m_sched_loop_active bf_busy" by code_simp+
qed

section \<open>Every reachable state\<close>

lemma fcfs_reach_inv: "(fcfs_step api)\<^sup>*\<^sup>* new_fcfs q \<Longrightarrow> loop_inv q"
  by (induction rule: rtranclp_induct) (use new_queue_inv fcfs_step_inv in \<open>auto simp: loop_inv_def\<close>)

lemma bf_reach_inv:
  assumes "(bf_step api)\<^sup>*\<^sup>* (new_bf d) q" and "0 \<le> d" "d < 2 ^ 32"
  shows "bf_inv q \<and> reserves q"
  using assms(1)
proof (induction rule: rtranclp_induct)
  case base
  have "bf_inv (new_bf d)" using new_queue_inv(2,4) by (simp add: bf_inv_def)
  moreover have "reserves (new_bf d)"
    using assms(2,3) by (simp add: reserves_def held_def new_bf_def new_queue_def queue.defs bf_queue.defs)
  ultimately show ?case by simp
next
  case (step q q')
  then show ?case using bf_step_inv by blast
qed





section \<open>Order\<close>

text \<open>Starting the first-come first-served loop sends the resource service the first
  pending jobs in the order of their keys (priority, submission time, arrival), as many as
  the queue depth, the jobs that arrived while no loop ran included.\<close>

theorem fcfs_sends_first:
  assumes "loop_inv q" and "\<not> m_sched_loop_active q" and "in_order q \<noteq> []"
    and "\<forall>(k, i)\<in>set (in_order q). json_loads api (jobspec (the (jobs_of q i)))" and "\<forall>x. 0 \<le> match_allocate_multi api False x"
  shows "\<exists>q'. fcfs_run_sched_loop api q = Some (0, q') \<and> m_sched_loop_active q' \<and> om_ok (m_pending q')
    \<and> (\<forall>k. om_find k (m_pending q') = first_of (om_find k (m_pending q)) (om_find k (m_pending_provisional q)))
    \<and> sent q' = sent q @ [(False, request q (take (nat (m_queue_depth q)) (m_pending q')))]"
proof -
  have q: "qinv q" using assms(1) by (simp add: loop_inv_def)
  then have o: "om_ok (m_pending q)" "om_ok (m_pending_provisional q)" using qinvD(1) by (auto simp: maps_ok_def)
  have "om_find k (in_order q) = first_of (om_find k (m_pending q)) (om_find k (m_pending_provisional q))" for k
    using om_merge_ok(2) [OF o] by (simp add: in_order_def)
  with fcfs_run_ok [OF assms(1), of api] assms(2-5) in_order_ok [OF q] show ?thesis by auto
qed

lemma two_jobs_new: "loop_inv (two_jobs new_fcfs)" "\<not> m_sched_loop_active (two_jobs new_fcfs)" "m_pending_provisional (two_jobs new_fcfs) \<noteq> []"
proof -
  have "(base_step cancel_sched_loop willing)\<^sup>*\<^sup>* new_fcfs (two_jobs new_fcfs)"
    by (rule two_jobs_base) (simp_all add: new_fcfs_def new_queue_def queue.defs)
  from fcfs_reach_inv [OF fcfs_base [OF this]] show "loop_inv (two_jobs new_fcfs)" .
  show "\<not> m_sched_loop_active (two_jobs new_fcfs)" "m_pending_provisional (two_jobs new_fcfs) \<noteq> []" by code_simp+
qed

theorem fcfs_sends_first_witness:
  "\<exists>q'. fcfs_run_sched_loop willing (two_jobs new_fcfs) = Some (0, q') \<and> sent q' = [(False, [(2, ''{}''), (1, ''{}'')])]"
proof -
  have "in_order (two_jobs new_fcfs) \<noteq> []" by code_simp
  from fcfs_sends_first [OF two_jobs_new(1,2) this, of willing] have
    "\<exists>q'. fcfs_run_sched_loop willing (two_jobs new_fcfs) = Some (0, q')" by auto
  moreover have "sent (snd (the (fcfs_run_sched_loop willing (two_jobs new_fcfs)))) = [(False, [(2, ''{}''), (1, ''{}'')])]" by code_simp
  ultimately show ?thesis by auto
qed

text \<open>C22. Every answer moves a backfilling loop on: either the loop is over, or fewer jobs lie
  before it than did. So a loop over \<open>n\<close> pending jobs ends after at most \<open>n\<close>
  answers.\<close>

theorem bf_answer_advances:
  assumes "bf_inv q" and "m_sched_loop_active q" and "room q"
  shows "(bf_handle_match_success api jobid status R at ov q = Some (r, q') \<and> r \<noteq> Inl EINVAL \<and> m_sched_loop_active q' \<longrightarrow> ahead q' < ahead q)
    \<and> (bf_handle_match_failure api errcode q = Some (r, q') \<and> errcode \<noteq> ENODATA \<and> m_sched_loop_active q' \<longrightarrow> ahead q' < ahead q)
    \<and> ahead q \<le> length (m_pending q)"
proof (intro conjI impI)
  have c: "m_rq_cnt q + 1 < 2 ^ 64" "m_dq_cnt q + 1 < 2 ^ 64" using assms(3) by (simp_all add: room_def)
  show "ahead q' < ahead q" if "bf_handle_match_success api jobid status R at ov q = Some (r, q') \<and> r \<noteq> Inl EINVAL \<and> m_sched_loop_active q'"
    using bf_success_ok [OF assms(1,2) c(1), of api jobid status R at ov] that by auto
  show "ahead q' < ahead q" if "bf_handle_match_failure api errcode q = Some (r, q') \<and> errcode \<noteq> ENODATA \<and> m_sched_loop_active q'"
    using bf_failure_ok [OF assms(1,2) c(2), of api errcode] that by auto
  show "ahead q \<le> length (m_pending q)" by (simp add: ahead_def pos_def split: iter.split)
qed

theorem bf_answer_advances_witness:
  "\<exists>r q'. bf_handle_match_success willing 2 ''RESERVED'' [] 7 0 bf_busy = Some (r, q') \<and> ahead q' < ahead bf_busy"
proof -
  have i: "bf_inv bf_busy" using bf_reach_inv [OF bf_busy_reached(1)] by simp
  obtain q' where q': "bf_handle_match_success willing 2 ''RESERVED'' [] 7 0 bf_busy = Some (Inr 0, q')"
    "m_sched_loop_active q'" by (rule that [of "snd (the (bf_handle_match_success willing 2 ''RESERVED'' [] 7 0 bf_busy))"]) code_simp+
  then show ?thesis using bf_answer_advances [OF i bf_busy_reached(3,2)] by blast
qed

section \<open>Work put off\<close>

text \<open>Cancelling a pending job succeeds: at once when the loop is idle; while the loop is
  active it is only remembered, and the job keeps its place under the loop's iterator.\<close>

theorem remove_pending_exact:
  assumes "loop_inv q" and "room q" and "jobs_of q i = Some j" and "job_state j = PENDING"
  shows "\<exists>q'. bf_remove_pending i q = (Inr 0, q') \<and> loop_inv q' \<and>
    (if m_sched_loop_active q
     then om_find (m_cancel_cnt q) (m_pending_cancel_provisional q') = Some i \<and> m_pending q' = m_pending q
       \<and> jobs_of q' = (jobs_of q)(i \<mapsto> stamped (m_cancel_cnt q) j)
     else om_find (m_cancel_cnt q) (m_canceled q') = Some i
       \<and> jobs_of q' = (jobs_of q)(i \<mapsto> set_state CANCELED (stamped (m_cancel_cnt q) j)))"
proof -
  have q: "qinv q" and c: "m_cancel_cnt q + 1 < 2 ^ 64" using assms(1,2) by (simp_all add: loop_inv_def room_def)
  show ?thesis
    by (rule bf.remove_pending_ok [OF q assms(3,4) c])
       (use loop_invI [OF assms(1)] in \<open>auto simp: bf_remove_pending_def calm_def\<close>)
qed

theorem remove_pending_exact_witness:
  "\<exists>q'. bf_remove_pending 1 bf_busy = (Inr 0, q') \<and> om_find 0 (m_pending_cancel_provisional q') = Some 1"
proof -
  have i: "loop_inv bf_busy" using bf_reach_inv [OF bf_busy_reached(1)] bf_invD by simp
  obtain j where j: "jobs_of bf_busy 1 = Some j" "job_state j = PENDING"
    by (rule that [of "the (jobs_of bf_busy 1)"]) code_simp+
  have "m_cancel_cnt bf_busy = 0" by code_simp
  with remove_pending_exact [OF i bf_busy_reached(2) j] bf_busy_reached(3) show ?thesis by auto
qed






section \<open>Insertion and parameters\<close>

text \<open>Inserting a job the queue does not know makes it pending under its key, after every
  job of the same priority and submission time, and leaves the other jobs alone.\<close>

theorem insert_accepts:
  assumes "loop_inv q" and "room q" and "jobs_of q (job_id j) = None"
    and "\<forall>t. om_find t (m_pending_cancel_provisional q) \<noteq> Some (job_id j)"
  shows "\<exists>q'. q_insert (Some j) q = (Inr 0, q') \<and> loop_inv q'
    \<and> jobs_of q' = (jobs_of q)(job_id j \<mapsto> accepted (m_pq_cnt q) j)
    \<and> pend q' = (pend q)((priority j, t_submit j, m_pq_cnt q) \<mapsto> job_id j)
    \<and> (\<forall>k i. pend q k = Some i \<longrightarrow> snd (snd k) < m_pq_cnt q)"
proof -
  have q: "qinv q" and c: "m_pq_cnt q + 1 < 2 ^ 64" using assms(1,2) by (simp_all add: loop_inv_def room_def)
  have last: "snd (snd k) < m_pq_cnt q" if p: "pend q k = Some i" for k i
  proof -
    obtain j' where "jobs_of q i = Some j'" "PENDING = job_state j'" "get_key j' = k"
      using tracksE [OF coreD(2) [OF qinvD(3) [OF q, unfolded core_def]] p] .
    then show ?thesis using freshD(1) [OF qinvD(4) [OF q]] by (auto simp: get_key_def)
  qed
  from q_insert_ok [OF q c assms(3,4)] obtain q' where
    "q_insert (Some j) q = (Inr 0, q')" "qinv q'" "calm q q'" "jobs_of q' = (jobs_of q)(job_id j \<mapsto> accepted (m_pq_cnt q) j)"
    "pend q' = (pend q)(get_key (accepted (m_pq_cnt q) j) \<mapsto> job_id j)" .
  moreover have "get_key (accepted (m_pq_cnt q) j) = (priority j, t_submit j, m_pq_cnt q)" by (simp add: get_key_def accepted_def)
  ultimately show ?thesis using loop_invI [OF assms(1)] last by metis
qed

theorem insert_accepts_witness:
  "\<exists>q'. q_insert (Some (sample_job 3 5)) bf_busy = (Inr 0, q') \<and> pend q' (5, 0, 2) = Some 3"
proof -
  have i: "loop_inv bf_busy" using bf_reach_inv [OF bf_busy_reached(1)] bf_invD by simp
  have n: "jobs_of bf_busy (job_id (sample_job 3 5)) = None" by code_simp
  have p: "m_pending_cancel_provisional bf_busy = []" "m_pq_cnt bf_busy = 2" by code_simp+
  then have "\<forall>t. om_find t (m_pending_cancel_provisional bf_busy) \<noteq> Some (job_id (sample_job 3 5))" by simp
  from insert_accepts [OF i bf_busy_reached(2) n this] p show ?thesis by (auto simp: sample_job_def)
qed

text \<open>C25. Parameters written as text and set come back as the pairs they were, in order.\<close>

theorem set_params_roundtrip:
  assumes "\<forall>(k, v)\<in>set kvs. plain k \<and> plain v \<and> k \<noteq> []" and "kvs \<noteq> []"
  shows "set_params (print_params kvs) m = (Inr 0, fold (\<lambda>(k, v). om_assign k v) kvs m)"
  using assms by (rule set_params_print)

theorem set_params_roundtrip_witness:
  "set_params ''queue-depth=8,max-queue-depth=64'' [] = (Inr 0, [(''max-queue-depth'', ''64''), (''queue-depth'', ''8'')])"
proof -
  let ?kvs = "[(''queue-depth'', ''8''), (''max-queue-depth'', ''64'')]"
  have "\<forall>(k, v)\<in>set ?kvs. plain k \<and> plain v \<and> k \<noteq> []" by code_simp
  from set_params_roundtrip [OF this, of "[]"] have
    "set_params (print_params ?kvs) [] = (Inr 0, fold (\<lambda>(k, v). om_assign k v) ?kvs [])" by simp
  moreover have "print_params ?kvs = ''queue-depth=8,max-queue-depth=64''" by code_simp
  moreover have "fold (\<lambda>(k, v). om_assign k v) ?kvs [] = [(''max-queue-depth'', ''64''), (''queue-depth'', ''8'')]" by code_simp
  ultimately show ?thesis by (simp only:)
qed

text \<open>C26. Whatever text the parameters hold, a queue keeps a depth of at least one and at most
  its maximum, and so do the policies that start from there.\<close>

theorem apply_params_bounds:
  assumes "1 \<le> m_queue_depth q" and "m_queue_depth q \<le> m_max_queue_depth q"
  shows "1 \<le> m_queue_depth (snd (apply_params q)) \<and> m_queue_depth (snd (apply_params q)) \<le> m_max_queue_depth (snd (apply_params q))"
  using apply_params_ok [of q] assms by (simp add: depths_ok_def)

theorem apply_params_bounds_witness:
  "1 \<le> m_queue_depth (snd (apply_params (snd (set_queue_params ''queue-depth=0,max-queue-depth=9'' new_fcfs))))"
proof -
  have "1 \<le> m_queue_depth (snd (set_queue_params ''queue-depth=0,max-queue-depth=9'' new_fcfs))"
    "m_queue_depth (snd (set_queue_params ''queue-depth=0,max-queue-depth=9'' new_fcfs))
      \<le> m_max_queue_depth (snd (set_queue_params ''queue-depth=0,max-queue-depth=9'' new_fcfs))" by code_simp+
  from apply_params_bounds [OF this] show ?thesis by (rule conjunct1)
qed

end
