(* ===== verification/Spec2Isabelle.thy ===== *)
theory Spec2Isabelle
  imports Match_Properties Traverser_Properties Planner_Multi_Correct Queue_Properties
begin

text \<open>
  Fluxion, the graph-based scheduler of Flux, verified in three layers: the planners that keep the
  availability of each resource over time; the matcher, which walks the resource graph with a
  depth-first traverser, scores what it finds and books it in the planners of the vertices; and the
  queueing policies that decide which job asks for resources next. A queue sends jobs to the resource
  service; the service selects a subgraph for the job, every vertex answering from its planner and its
  pruning filter whether it is free, and then updates the chosen vertices with the spans of the job.

  \<^bold>\<open>Theories and sources: planners.\<close>
  \<^item> \<open>Fluxion_Prelude\<close>: error numbers as a datatype, results as \<open>errno + 'a\<close>
    (\<open>Inl\<close> is a return of -1 with \<^verbatim>\<open>errno\<close> set; \<open>UNSET\<close> when the code sets
    none), integer conversions. \<open>Ordered_Map\<close>: \<^verbatim>\<open>std::map\<close> and its iterators.
  \<^item> \<open>Ygg_RBTree\<close>, \<open>Ygg_RBTree_Correct\<close>: the red-black tree
    \<^verbatim>\<open>src/src/common/yggdrasil\<close>; a position in the tree is a zipper, a node's parent pointer
    the context. Insertion and removal with their fixups keep the library's own integrity
    checks and the inorder sequence.
  \<^item> \<open>Mintime_Resource_Tree\<close>, \<open>Mintime_Correct\<close>, \<open>Scheduled_Point_Tree\<close>,
    \<open>Scheduled_Point_Correct\<close>: the two trees of scheduled points in
    \<^verbatim>\<open>src/resource/planner/c++\<close>, one ordered by resources and augmented with the earliest
    time of each subtree, one ordered by time.
  \<^item> \<open>Planner\<close> (\<^verbatim>\<open>planner.cpp\<close>), \<open>Planner_C\<close>
    (\<^verbatim>\<open>planner_c_interface.cpp\<close>): a planner is a record with the fields of the class; each
    C function is a definition that returns its result and the planner. \<open>Planner_Trees\<close>,
    \<open>Planner_Inv\<close>, \<open>Planner_Spans\<close>, \<open>Planner_Avail\<close>,
    \<open>Planner_Life\<close>: the invariant \<open>planner_inv\<close> that ties the points and the
    trees to the spans, and that every operation keeps it. The abstract specification is
    \<open>avail\<close>: the total less what the spans that cover a time hold.
  \<^item> \<open>Planner_Multi\<close>, \<open>Planner_Multi_Correct\<close>: several planners as one
    (\<^verbatim>\<open>planner_multi.cpp\<close>, \<^verbatim>\<open>planner_multi_c_interface.cpp\<close>).

  \<^bold>\<open>Theories and sources: the matcher.\<close>
  \<^item> \<open>Resource_Graph\<close> (\<^verbatim>\<open>src/resource/schema\<close>, \<^verbatim>\<open>src/resource/store\<close>): vertices and
    edges as lists, a vertex or edge as its position; the schedule, the infrastructure data and the
    indices of the graph as records; colors, ephemeral labels. Interned names are strings.
  \<^item> \<open>Matcher\<close> (\<^verbatim>\<open>src/resource/policies/base\<close>): match operations, the counts a
    request asks for, subsystems, pruning filters. \<open>Matcher_Correct\<close>: counting takes the
    greatest count that fits, and when its loop never ends.
  \<^item> \<open>Evaluators\<close> (\<^verbatim>\<open>src/resource/evaluators\<close>), \<open>Evaluators_Correct\<close>: the
    candidates of a type and the choice of the best; the locale \<open>fold_order\<close> holds what the choice
    needs of an order and is interpreted for the orders of \<^verbatim>\<open>fold.hpp\<close>.
  \<^item> \<open>Match_Policies\<close>, \<open>Match_Factory\<close> (\<^verbatim>\<open>src/resource/policies\<close>): the callbacks
    of every policy, a policy being a constructor of \<open>match_cb\<close>. \<open>Policies_Correct\<close>: what each
    callback answers. \<open>Policies_Balance\<close>: the score factors of the multilevel policy.
    \<open>Match_Properties\<close>: the properties C34 to C37.
  \<^item> \<open>Jobspec_Constraint\<close> (\<^verbatim>\<open>src/resource/libjobspec\<close>): constraints and their match.
  \<^item> \<open>Traverser\<close>, \<open>Traverser_Walk\<close> (\<^verbatim>\<open>dfu_impl.cpp\<close>): pruning, exploration,
    slots, resolution, the walk of the dominant subsystem and its climbs into the others, and
    \<open>select\<close>. \<open>Traverser_Prime\<close>: priming of filters and requests.
    \<open>Traverser_Update\<close>, \<open>Traverser_Remove\<close> (\<^verbatim>\<open>dfu_impl_update.cpp\<close>): booking, full and
    partial release, removal of subgraphs, status. \<open>Traverser_Api\<close> (\<^verbatim>\<open>dfu.cpp\<close>): the
    operations of the class, \<^verbatim>\<open>schedule\<close> and its modes included.
  \<^item> \<open>Traverser_Frame\<close>: the locale \<open>walk_relation\<close>, a relation between states that
    each elementary write keeps is kept by the whole walk; interpreted for what a walk leaves alone and
    in \<open>Traverser_Fuel\<close> for the colors it adds. \<open>Traverser_Slots\<close>: counting and packing.
    \<open>Traverser_Prime_Correct\<close>: what priming counts. \<open>Traverser_Books\<close>: the invariant
    \<open>books_ok\<close>, every table of a vertex names spans its planners hold, and removal under it.
    \<open>Traverser_Booking\<close>: the update under it. \<open>Traverser_Properties\<close>: the properties C27 to
    C33 and C38 to C40.

  \<^bold>\<open>Theories and sources: queues.\<close>
  \<^item> \<open>Queue_Policy_Base\<close>, \<open>Queue_Params\<close>, \<open>Queue_FCFS\<close>,
    \<open>Queue_Backfill\<close>: the queue policies of \<^verbatim>\<open>src/qmanager/policies\<close>. The record of
    the base class is extended by the derived ones; shared pointers to jobs are ids into
    \<open>m_jobs\<close>. \<open>Queue_Inv\<close>, \<open>Queue_Ops\<close>,
    \<open>Queue_Interface\<close>, \<open>Queue_Loop\<close>: the invariant of a queue and that every
    operation keeps it; the virtual method of the base class is the locale
    \<open>sched_loop\<close>, interpreted for both implementations. \<open>Queue_Steps\<close>: the
    queues as state machines. \<open>Queue_Properties\<close>: the properties C20 to C26.

  \<^bold>\<open>What is shown.\<close> C1 to C10 are the contract of a planner: a request is granted
  exactly when enough is free at every time of it, booking and releasing change the
  availability by exactly the request, and the search for a start returns the earliest point
  from which the request can run. C11 to C14 lift this to several resources. C15 to C17 are
  the trees below. C18 and C19 are states in which the code does not do what it means to.
  C20 to C26 are the queues: invariants of every reachable state, that the backfilling loop ends, and
  what becomes of work put off while it runs. C27 to C29 carry the contract of the planners to the
  graph: booking keeps the books of every vertex, removal releases exactly the job, and both together
  restore what there was; C30 and C31 are the two ways in which the return code of these operations
  misleads. C32 and C33 say that a selection writes nothing but marks and ends. C34 to C37 are the matcher:
  how much is taken, which candidates, and when a vertex is accepted. C38 and C39 say that pruning filters
  and requests are counted completely, C40 that the slots a walk counts are the slots it packs.

  \<^bold>\<open>Undefined behaviour and loops.\<close> An operation that would follow a null or
  dangling pointer, or an invalid iterator, returns \<open>None\<close>; the theorems show that it
  returns \<open>Some\<close> under the invariant. Loops over pointers are
  \<open>partial_function (option)\<close> and are shown to end. The recursive walks carry fuel.
  Update, removal and priming take one more than the number of vertices, which is enough since each call
  colors a vertex that was white; \<open>mod_dfv_visits\<close> and \<open>upd_dfv_enlists\<close> prove that they
  return. A selection takes one more than twice that number, since from each vertex of the dominant
  subsystem it may climb a path of another; C33 proves that more fuel changes nothing.
  Counters and times are \<open>int\<close> with the conversions of the code written out; the steps of a queue
  exclude the wrap-around of its 64-bit counters.

  \<^bold>\<open>Parameters.\<close> The resource service the queues talk to is the record
  \<open>reapi\<close>. The properties assume of it only what their statements say; the backfilling
  queues rely on it to reserve only when asked to. The traverser takes the record \<open>walk_lib\<close>:
  the sort, of which the contract of \<^verbatim>\<open>std::sort\<close> is the hypothesis \<open>sorts\<close>, the interval set of the
  locality policy, and the host lists and id sets of the constraints. The splitting of strings is an
  argument of the factory, and the reader that recovers an allocation or gives the counts of a partial
  release is the record \<open>reader\<close>. The writer that an
  update calls is the list of the calls made to it. No property assumes anything of these but the sort.

  \<^bold>\<open>Not modelled.\<close> \<^verbatim>\<open>find\<close> with its expression evaluator, and the flexible traverser
  (\<^verbatim>\<open>dfu_flexible.cpp\<close>). The parsing of jobspecs, the readers, the printing of the writers, the Flux
  modules, bindings and command line tools are input and output around third-party libraries. Memory
  exhaustion, logging and the JSON statistics are left out.
\<close>

section \<open>Sample planners\<close>

text \<open>A planner of ten cores over 100 time units, the same with a span of four cores over
  the first five units, and a pair of planners for cores and gpus.\<close>

definition ctx_after :: "'a \<Rightarrow> ('b result \<times> 'a option) option \<Rightarrow> 'a" where
  "ctx_after x r = (case r of Some (_, Some y) \<Rightarrow> y | _ \<Rightarrow> x)"

definition cores :: planner where
  "cores = (case planner_new 0 100 10 (Some ''core'') of Some (Inr p) \<Rightarrow> p | _ \<Rightarrow> planner_default)"

definition busy :: planner where
  "busy = ctx_after cores (planner_add_span (Some cores) 0 5 4)"

definition pair :: planner_multi where
  "pair = (case planner_multi_new 0 100 (Some [(10, ''core''), (4, ''gpu'')]) of
     Some (Inr pm) \<Rightarrow> pm | _ \<Rightarrow> planner_multi_default)"

lemma cores_ok:
  "planner_inv cores" "m_span_lookup cores = []" "m_total_resources cores = 10" "m_plan_start cores = 0"
  "m_plan_end cores = 100" "m_span_counter cores = 0"
  using planner_new_ok [of 10 0 100 "''core''"] by (auto simp: cores_def int64_max_def)

lemma avail_cores: "avail cores u = 10"
  by (simp add: avail_def load_def cores_ok)

lemma fits_cores: "fits cores s d r \<longleftrightarrow> 0 \<le> s \<and> s + d \<le> 100 \<and> 0 \<le> r \<and> r \<le> 10"
  by (auto simp: fits_def avail_cores cores_ok)

lemma busy_ok:
  "planner_inv busy" "m_span_lookup busy = [(1, granted 1 0 5 4)]" "m_total_resources busy = 10"
  "m_plan_start busy = 0" "m_plan_end busy = 100" "m_span_counter busy = 1"
  using planner_add_span_ok [of cores 0 5 4] by (auto simp: busy_def ctx_after_def cores_ok fits_cores int64_max_def)

lemma avail_busy: "avail busy u = (if 0 \<le> u \<and> u < 5 then 6 else 10)"
  by (auto simp: avail_def load_def busy_ok covers_def granted_def)

lemma busy_points: "sp_map (m_sched_point_tree busy) a \<noteq> None \<longleftrightarrow> a = 0 \<or> a = 5"
proof -
  have "map at (inorder (m_sched_point_tree busy)) = [0, 5]" by code_simp
  then have "a \<in> set (map at (inorder (m_sched_point_tree busy))) \<longleftrightarrow> a = 0 \<or> a = 5" by (simp only: list.set) blast
  then show ?thesis by (auto simp: sp_map_None)
qed

lemma pair_ok:
  "multi_inv pair" "list_all2 (fresh_part 0 100) [(10, ''core''), (4, ''gpu'')] (m_types_totals_planners pair)"
  "mm_span_lookup pair = []" "mm_span_counter pair = 0"
  using planner_multi_new_ok [of 0 100 "[(10, ''core''), (4, ''gpu'')]"] by (auto simp: pair_def int64_max_def)

lemma pair_parts:
  "length (parts pair) = Suc (Suc 0)"
  "m_total_resources (parts pair ! 0) = 10" "m_total_resources (parts pair ! Suc 0) = 4"
  "m_plan_start (parts pair ! 0) = 0" "m_plan_start (parts pair ! Suc 0) = 0"
  "m_plan_end (parts pair ! 0) = 100" "m_plan_end (parts pair ! Suc 0) = 100"
  "m_span_counter (parts pair ! 0) = 0" "m_span_counter (parts pair ! Suc 0) = 0"
  "avail (parts pair ! 0) u = 10" "avail (parts pair ! Suc 0) u = 4"
proof -
  from pair_ok(2) obtain e f where "m_types_totals_planners pair = [e, f]"
    "fresh_part 0 100 (10, ''core'') e" "fresh_part 0 100 (4, ''gpu'') f"
    by (auto simp: list_all2_Cons1)
  then show "length (parts pair) = Suc (Suc 0)"
    "m_total_resources (parts pair ! 0) = 10" "m_total_resources (parts pair ! Suc 0) = 4"
    "m_plan_start (parts pair ! 0) = 0" "m_plan_start (parts pair ! Suc 0) = 0"
    "m_plan_end (parts pair ! 0) = 100" "m_plan_end (parts pair ! Suc 0) = 100"
    "m_span_counter (parts pair ! 0) = 0" "m_span_counter (parts pair ! Suc 0) = 0"
    "avail (parts pair ! 0) u = 10" "avail (parts pair ! Suc 0) u = 4"
    by (simp_all add: parts_def fresh_part_def avail_def load_def)
qed

lemmas pair_facts = pair_ok(1,3,4) pair_parts All_less_Suc2 int64_max_def

lemma pair_fits: "\<forall>i<length [4, 2::int]. fits (parts pair ! i) 0 5 ([4, 2] ! i) \<and> m_span_counter (parts pair ! i) < int64_max"
  by (simp add: pair_facts fits_def)

section \<open>Spans of one planner\<close>

text \<open>C1. A request that fits the plan is granted: \<^verbatim>\<open>planner_add_span\<close> returns the
  next id, keeps the invariant, records the span, and takes exactly the requested amount out
  of the availability, at exactly the times of the span.\<close>

theorem add_span_grants:
  assumes "planner_inv p" and "fits p s d r" and "1 \<le> d" "d \<le> int64_max" and "m_span_counter p < int64_max"
  shows "\<exists>p'. planner_add_span (Some p) s d r = Some (Inr (m_span_counter p + 1), Some p') \<and> planner_inv p'
    \<and> om_find (m_span_counter p + 1) (m_span_lookup p') = Some (granted (m_span_counter p + 1) s d r)
    \<and> (\<forall>u. avail p' u = avail p u - (if s \<le> u \<and> u < s + d then r else 0))"
proof -
  have "om_find (m_span_counter p + 1) (m_span_lookup p) = None"
    using planner_invD(6) [OF assms(1)] by (force simp: om_find_None_iff span_inv_def)
  with planner_add_span_ok [OF assms] planner_invD(5) [OF assms(1)] show ?thesis
    by (fastforce simp: avail_def load_assign_new om_find_assign covers_def granted_def)
qed

theorem add_span_grants_witness:
  "\<exists>p'. planner_add_span (Some busy) 3 10 6 = Some (Inr 2, Some p') \<and> planner_inv p' \<and> avail p' 4 = 0"
  using add_span_grants [of busy 3 10 6] by (force simp: busy_ok fits_def avail_busy int64_max_def)

text \<open>C2. A request that does not fit is refused, and the planner is unchanged.\<close>

theorem add_span_refuses:
  assumes "planner_inv p" and "\<not> fits p s d r" and "- (2 ^ 63) \<le> s" "1 \<le> d" "d \<le> int64_max" "s + d \<le> int64_max"
    and "0 \<le> r" "r \<le> int64_max"
  shows "\<exists>e. planner_add_span (Some p) s d r = Some (Inl e, Some p)"
  using assms by (rule add_span_rejected)

theorem add_span_refuses_witness: "\<exists>e. planner_add_span (Some busy) 4 2 7 = Some (Inl e, Some busy)"
  by (rule add_span_refuses) (auto simp: busy_ok fits_def avail_busy int64_max_def intro!: exI [of _ 4])

text \<open>C3. Removing a span returns 0, keeps the invariant, forgets that span and no other, and
  gives back exactly what it held, at exactly the times it held it.\<close>

theorem rem_span_releases:
  assumes "planner_inv p" and "om_find k (m_span_lookup p) = Some s"
  shows "\<exists>p'. planner_rem_span (Some p) k = Some (Inr 0, Some p') \<and> planner_inv p'
    \<and> m_span_lookup p' = om_erase k (m_span_lookup p)
    \<and> (\<forall>u. avail p' u = avail p u + (if span_start s \<le> u \<and> u < span_last s then planned s else 0))"
  using planner_rem_span_ok [OF assms] planner_invD(5) [OF assms(1)] assms(2)
  by (fastforce simp: avail_def load_erase covers_def)

theorem rem_span_releases_witness:
  "\<exists>p'. planner_rem_span (Some busy) 1 = Some (Inr 0, Some p') \<and> planner_inv p' \<and> avail p' 3 = 10"
  using rem_span_releases [of busy 1 "granted 1 0 5 4"]
  by (force simp: busy_ok om_find_def avail_busy granted_def)

text \<open>C4. Adding a span and removing it again restores the spans, and with them the
  availability at every time.\<close>

theorem add_rem_span_roundtrip:
  assumes "planner_inv p" and "fits p s d r" and "1 \<le> d" "d \<le> int64_max" and "m_span_counter p < int64_max"
  shows "\<exists>k p1 p2. planner_add_span (Some p) s d r = Some (Inr k, Some p1)
    \<and> planner_rem_span (Some p1) k = Some (Inr 0, Some p2) \<and> planner_inv p2
    \<and> m_span_lookup p2 = m_span_lookup p \<and> (\<forall>u. avail p2 u = avail p u)"
proof -
  let ?k = "m_span_counter p + 1"
  have fresh: "om_find ?k (m_span_lookup p) = None"
    using planner_invD(6) [OF assms(1)] by (force simp: om_find_None_iff span_inv_def)
  note om = planner_invD(5) [OF assms(1)]
  from planner_add_span_ok [OF assms] obtain p1 where
    1: "planner_add_span (Some p) s d r = Some (Inr ?k, Some p1)" "planner_inv p1"
      "m_span_lookup p1 = om_assign ?k (granted ?k s d r) (m_span_lookup p)" "m_total_resources p1 = m_total_resources p"
    by blast
  have "om_find ?k (m_span_lookup p1) = Some (granted ?k s d r)" using 1(3) om by (simp add: om_find_assign)
  from planner_rem_span_ok [OF 1(2) this] obtain p2 where
    "planner_rem_span (Some p1) ?k = Some (Inr 0, Some p2)" "planner_inv p2"
    "m_span_lookup p2 = m_span_lookup p" "m_total_resources p2 = m_total_resources p"
    using 1(3,4) fresh om by (auto simp: om_erase_assign)
  with 1(1) show ?thesis by (auto simp: avail_def)
qed

theorem add_rem_span_roundtrip_witness:
  "\<exists>k p1 p2. planner_add_span (Some busy) 3 10 6 = Some (Inr k, Some p1)
    \<and> planner_rem_span (Some p1) k = Some (Inr 0, Some p2) \<and> m_span_lookup p2 = [(1, granted 1 0 5 4)]"
  using add_rem_span_roundtrip [of busy 3 10 6] by (force simp: busy_ok fits_def avail_busy int64_max_def)

text \<open>C5. Reducing a span by part of what it holds returns 0 without removing it, keeps the
  invariant, and gives back exactly the reduction at exactly the times of the span.\<close>

theorem reduce_span_releases:
  assumes "planner_inv p" and "om_find k (m_span_lookup p) = Some s" and "0 < n" "n < planned s"
  shows "\<exists>p'. planner_reduce_span (Some p) k n = Some (Inr 0, False, Some p') \<and> planner_inv p'
    \<and> om_find k (m_span_lookup p') = Some (s\<lparr>planned := planned s - n\<rparr>)
    \<and> (\<forall>u. avail p' u = avail p u + (if span_start s \<le> u \<and> u < span_last s then n else 0))"
  using planner_reduce_span_ok [OF assms] planner_invD(5) [OF assms(1)] assms(2)
  by (fastforce simp: avail_def load_assign_old om_find_assign covers_def)

theorem reduce_span_releases_witness:
  "\<exists>p'. planner_reduce_span (Some busy) 1 3 = Some (Inr 0, False, Some p') \<and> planner_inv p' \<and> avail p' 2 = 9"
  using reduce_span_releases [of busy 1 "granted 1 0 5 4" 3]
  by (force simp: busy_ok om_find_def avail_busy granted_def)

section \<open>Availability of one planner\<close>

text \<open>C6. \<^verbatim>\<open>planner_avail_time_first\<close> returns the least scheduled point at or after the
  given time from which the request can run for its whole duration, and fails with
  \<^verbatim>\<open>ENOENT\<close> when there is none or the run would leave the plan; the spans are
  untouched. In particular the search ends.\<close>

theorem avail_time_first_earliest:
  assumes "planner_inv p" and "m_plan_start p \<le> on" "on < m_plan_end p" "1 \<le> d" "m_plan_end p + d \<le> int64_max"
    and "0 \<le> r" "r \<le> m_total_resources p" "0 \<le> m_plan_start p"
    and "C = {a. sp_map (m_sched_point_tree p) a \<noteq> None \<and> on \<le> a \<and> (\<forall>u. a \<le> u \<and> u < a + d \<longrightarrow> r \<le> avail p u)}"
  shows "\<exists>p'. planner_avail_time_first (Some p) on d r
      = Some (if C = {} \<or> Min C + d > m_plan_end p then Inl ENOENT else Inr (Min C), Some p')
    \<and> planner_inv p' \<and> m_span_lookup p' = m_span_lookup p \<and> (\<forall>u. avail p' u = avail p u)"
proof -
  have C: "{a \<in> ptimes p. on \<le> a \<and> window_ok p a d r} = C" by (auto simp: assms(9) window_ok_def)
  from avail_time_first_ok [OF assms(1-8)] obtain p' where
    "planner_avail_time_first (Some p) on d r = Some (earliest p C d, Some p')" "planner_inv p'"
    "m_span_lookup p' = m_span_lookup p" "m_total_resources p' = m_total_resources p"
    unfolding C by blast
  then show ?thesis by (intro exI [of _ p']) (simp add: earliest_def avail_def)
qed

theorem avail_time_first_earliest_witness:
  "\<exists>p'. planner_avail_time_first (Some busy) 0 2 8 = Some (Inr 5, Some p') \<and> planner_inv p' \<and> avail p' 5 = 10"
proof -
  have "{a. sp_map (m_sched_point_tree busy) a \<noteq> None \<and> 0 \<le> a \<and> (\<forall>u. a \<le> u \<and> u < a + 2 \<longrightarrow> 8 \<le> avail busy u)} = {5}"
    unfolding busy_points avail_busy by (auto dest: spec [of _ 0])
  from avail_time_first_earliest [of busy 0 2 8, OF _ _ _ _ _ _ _ _ this [symmetric]] show ?thesis
    by (force simp: busy_ok avail_busy int64_max_def)
qed

text \<open>C7. After \<^verbatim>\<open>planner_avail_time_first\<close> has returned \<open>t\<close>,
  \<^verbatim>\<open>planner_avail_time_next\<close> returns the least later scheduled point from which the
  same request can run, and \<^verbatim>\<open>ENOENT\<close> when there is none within the plan.\<close>

theorem avail_time_next_continues:
  assumes "planner_inv p" and "m_plan_start p \<le> on" "on < m_plan_end p" "1 \<le> d" "m_plan_end p + d \<le> int64_max"
    and "0 \<le> r" "r \<le> m_total_resources p" "0 \<le> m_plan_start p"
    and "planner_avail_time_first (Some p) on d r = Some (Inr t, Some p1)"
    and "C = {a. sp_map (m_sched_point_tree p) a \<noteq> None \<and> t < a \<and> (\<forall>u. a \<le> u \<and> u < a + d \<longrightarrow> r \<le> avail p u)}"
  shows "\<exists>p2. planner_avail_time_next (Some p1)
      = Some (if C = {} \<or> Min C + d > m_plan_end p then Inl ENOENT else Inr (Min C), Some p2)
    \<and> planner_inv p2 \<and> m_span_lookup p2 = m_span_lookup p"
proof -
  let ?A = "{a \<in> ptimes p. on \<le> a \<and> window_ok p a d r}"
  from avail_time_first_ok [OF assms(1-8)] obtain q c where
    q: "planner_avail_time_first (Some p) on d r = Some (earliest p ?A d, Some q)" "planner_inv q"
      "m_span_lookup q = m_span_lookup p" "m_total_resources q = m_total_resources p" "m_avail_time_iter_set q"
      "m_current_request q = \<lparr>req_on_or_after = on, req_duration = d, req_count = r\<rparr>" "ptimes q = ptimes p"
      "m_plan_start q = m_plan_start p" "m_plan_end q = m_plan_end p" "tracked_upto q r c" "?A \<noteq> {} \<longrightarrow> c = Min ?A"
    by blast
  from q(1) assms(9) have e: "earliest p ?A d = Inr t" and "q = p1" by simp_all
  note 1 = q [unfolded \<open>q = p1\<close>]
  have "finite ?A" using finite_times [of p] by simp
  note t = earliest_InrD [OF this e]
  have c: "c = t" using 1(11) t(2,4) by simp
  have w: "window_ok p1 = window_ok p" using 1(3,4) by (auto simp: window_ok_def avail_def fun_eq_iff)
  have C: "{a \<in> ptimes p1. c < a \<and> on \<le> a \<and> window_ok p1 a d r} = C"
    using t(1) by (auto simp: assms(10) 1(7) w c window_ok_def)
  from avail_time_next_ok [OF 1(2,5,6,10) assms(4), of] assms(5,7,8) 1(4,8,9) obtain p2 where
    "planner_avail_time_next (Some p1) = Some (earliest p1 C d, Some p2)" "planner_inv p2" "same_plan p1 p2"
    unfolding C by auto
  then show ?thesis using same_planD(1) [of p1 p2] 1(3,9) by (intro exI [of _ p2]) (simp add: earliest_def)
qed

theorem avail_time_next_continues_witness:
  "\<exists>p1 p2. planner_avail_time_first (Some busy) 0 2 2 = Some (Inr 0, Some p1)
    \<and> planner_avail_time_next (Some p1) = Some (Inr 5, Some p2) \<and> planner_inv p2"
proof -
  have A: "{a \<in> ptimes busy. 0 \<le> a \<and> window_ok busy a 2 2} = {0, 5}"
    using busy_points by (auto simp: window_ok_def avail_busy)
  have "\<exists>p1. planner_avail_time_first (Some busy) 0 2 2 = Some (Inr 0, Some p1)"
    using avail_time_first_ok [of busy 0 2 2] by (auto simp: busy_ok int64_max_def A earliest_def)
  then obtain p1 where p1: "planner_avail_time_first (Some busy) 0 2 2 = Some (Inr 0, Some p1)" by blast
  have "{a. sp_map (m_sched_point_tree busy) a \<noteq> None \<and> 0 < a \<and> (\<forall>u. a \<le> u \<and> u < a + 2 \<longrightarrow> 2 \<le> avail busy u)} = {5}"
    unfolding busy_points avail_busy by auto
  from avail_time_next_continues [of busy 0 2 2, OF _ _ _ _ _ _ _ _ p1 this [symmetric]] p1 show ?thesis
    by (force simp: busy_ok int64_max_def)
qed

text \<open>C8. \<^verbatim>\<open>planner_avail_during\<close> accepts a request inside the plan exactly when it is
  available at every time of the interval, and says \<^verbatim>\<open>EBUSY\<close> otherwise.\<close>

theorem avail_during_exact:
  assumes "planner_inv p" and "m_plan_start p \<le> t" "1 \<le> d" "t + d \<le> m_plan_end p" "d \<le> int64_max"
    and "0 \<le> r" "r \<le> m_total_resources p"
  shows "planner_avail_during (Some p) t d r =
    (if \<forall>u. t \<le> u \<and> u < t + d \<longrightarrow> r \<le> avail p u then Inr () else Inl EBUSY)"
proof -
  have b: "m_plan_end p < int64_max" "m_total_resources p \<le> int64_max"
    using planner_invD(9) [OF assms(1)] by (auto simp: bounds_inv_def)
  with assms have "i64 r = r" by (intro i64_small) auto
  with b assms avail_during_eq [OF assms(1-3,5)] show ?thesis by (simp add: planner_avail_during_def)
qed

theorem avail_during_exact_witness:
  "planner_avail_during (Some busy) 4 2 7 = Inl EBUSY \<and> planner_avail_during (Some busy) 5 95 10 = Inr ()"
proof -
  have "\<not> (\<forall>u. 4 \<le> u \<and> u < (4::int) + 2 \<longrightarrow> 7 \<le> avail busy u)"
    by (auto simp: avail_busy dest: spec [of _ 4])
  with avail_during_exact [of busy 4 2 7] avail_during_exact [of busy 5 95 10] show ?thesis
    by (simp add: busy_ok avail_busy int64_max_def)
qed

text \<open>\<^verbatim>\<open>planner_avail_resources_during\<close> returns the minimum of what is available
  over the interval.\<close>

theorem avail_resources_during_min:
  assumes "planner_inv p" and "m_plan_start p \<le> t" "1 \<le> d" "t + d \<le> m_plan_end p" "d \<le> int64_max"
  shows "\<exists>v. planner_avail_resources_during (Some p) t d = Inr v
    \<and> (\<forall>u. t \<le> u \<and> u < t + d \<longrightarrow> v \<le> avail p u) \<and> (\<exists>u. t \<le> u \<and> u < t + d \<and> v = avail p u)"
  using assms by (rule avail_resources_during_ok)

theorem avail_resources_during_min_witness:
  "\<exists>v. planner_avail_resources_during (Some busy) 3 9 = Inr v \<and> v \<le> 6"
  using avail_resources_during_min [of busy 3 9] by (force simp: busy_ok avail_busy int64_max_def)

text \<open>C9. The tree of points refines the spans: \<^verbatim>\<open>planner_avail_resources_at\<close>, which
  reads the state of one point, returns the total less what the spans covering the time hold.\<close>

theorem avail_resources_at_refines:
  assumes "planner_inv p" and "m_plan_start p \<le> t" "t \<le> m_plan_end p"
  shows "planner_avail_resources_at (Some p) t =
    Inr (m_total_resources p
      - sum_list (map (\<lambda>(k, s). if span_start s \<le> t \<and> t < span_last s then planned s else 0) (m_span_lookup p)))"
  using avail_resources_at_eq [OF assms] by (simp add: avail_def load_def covers_def)

theorem avail_resources_at_refines_witness: "planner_avail_resources_at (Some busy) 4 = Inr 6"
  using avail_resources_at_refines [of busy 4] by (simp add: busy_ok granted_def)

section \<open>Life of one planner\<close>

text \<open>C10. A new planner satisfies the invariant, holds no span and has all its resources
  available.\<close>

theorem planner_new_fresh:
  assumes "0 \<le> n" "n \<le> int64_max" "- (2 ^ 63) \<le> base" "1 \<le> d" "base + d < int64_max" "d \<le> int64_max"
  shows "\<exists>p. planner_new base d n (Some ty) = Some (Inr p) \<and> planner_inv p \<and> m_span_lookup p = []
    \<and> m_plan_start p = base \<and> m_plan_end p = base + d \<and> (\<forall>u. avail p u = n)"
  using planner_new_ok [OF assms] by (fastforce simp: avail_def load_def)

theorem planner_new_fresh_witness:
  "\<exists>p. planner_new 0 100 10 (Some ''core'') = Some (Inr p) \<and> planner_inv p \<and> avail p 7 = 10"
  using planner_new_fresh [of 10 0 100 "''core''"] by (force simp: int64_max_def)

text \<open>\<^verbatim>\<open>planner_reset\<close> drops every span and moves the plan: the result is as
  good as a new planner with the same total, whatever search was under way.\<close>

theorem planner_reset_fresh:
  assumes "planner_inv p" and "- (2 ^ 63) \<le> base" "1 \<le> d" "base + d < int64_max" "d \<le> int64_max"
  shows "\<exists>p'. planner_reset (Some p) base d = Some (Inr 0, Some p') \<and> planner_inv p' \<and> m_span_lookup p' = []
    \<and> m_plan_start p' = base \<and> m_plan_end p' = base + d \<and> (\<forall>u. avail p' u = m_total_resources p)"
  using planner_reset_ok [OF assms] by (fastforce simp: avail_def load_def)

theorem planner_reset_fresh_witness:
  "\<exists>p'. planner_reset (Some busy) 50 10 = Some (Inr 0, Some p') \<and> planner_inv p' \<and> avail p' 52 = 10"
  using planner_reset_fresh [of busy 50 10] by (force simp: busy_ok int64_max_def)

section \<open>Several planners at once\<close>

text \<open>C11. When every part has its share free, \<^verbatim>\<open>planner_multi_add_span\<close> returns the
  next id, adds a span of the same interval to every part, and remembers the ids of the parts
  under the id returned.\<close>

theorem multi_add_span_grants:
  assumes "multi_inv pm" and "length rs = length (parts pm)" "1 \<le> d" "d \<le> int64_max" "mm_span_counter pm < int64_max"
    and "\<forall>i<length rs. fits (parts pm ! i) s d (rs ! i) \<and> m_span_counter (parts pm ! i) < int64_max"
  shows "\<exists>pm' ids. planner_multi_add_span (Some pm) s d (Some rs) = Some (Inr (mm_span_counter pm), Some pm')
    \<and> multi_inv pm' \<and> om_find (mm_span_counter pm) (mm_span_lookup pm') = Some ids
    \<and> length (parts pm') = length (parts pm) \<and> length ids = length rs
    \<and> (\<forall>i<length rs. m_span_lookup (parts pm' ! i)
         = om_assign (ids ! i) (granted (ids ! i) s d (rs ! i)) (m_span_lookup (parts pm ! i)))"
proof -
  from planner_multi_add_span_ok [OF assms(1-5), of s] assms(6) obtain pm' ids where
    "planner_multi_add_span (Some pm) s d (Some rs) = Some (Inr (mm_span_counter pm), Some pm')" "multi_inv pm'"
    "mm_span_lookup pm' = om_assign (mm_span_counter pm) ids (mm_span_lookup pm)"
    "length (parts pm') = length (parts pm)" "length ids = length rs"
    "\<forall>i<length rs. ids ! i \<noteq> - 1 \<and> m_span_lookup (parts pm' ! i)
         = om_assign (ids ! i) (granted (ids ! i) s d (rs ! i)) (m_span_lookup (parts pm ! i))"
    by blast
  with multi_invD(2) [OF assms(1)] show ?thesis
    by (intro exI [of _ pm'] exI [of _ ids]) (simp add: om_find_assign)
qed

theorem multi_add_span_grants_witness:
  "\<exists>pm' ids. planner_multi_add_span (Some pair) 0 5 (Some [4, 2]) = Some (Inr 0, Some pm')
    \<and> multi_inv pm' \<and> om_find 0 (mm_span_lookup pm') = Some ids \<and> length ids = 2"
  using multi_add_span_grants [OF pair_ok(1) _ _ _ _ pair_fits] by (force simp: pair_ok pair_parts int64_max_def)

text \<open>C12. \<^verbatim>\<open>planner_multi_rem_span\<close> removes from every part the span recorded for it,
  and nothing else, and forgets the id.\<close>

theorem multi_rem_span_releases:
  assumes "multi_inv pm" and "om_find k (mm_span_lookup pm) = Some ids"
  shows "\<exists>pm'. planner_multi_rem_span (Some pm) k = Some (Inr 0, Some pm') \<and> multi_inv pm'
    \<and> mm_span_lookup pm' = om_erase k (mm_span_lookup pm) \<and> length (parts pm') = length (parts pm)
    \<and> (\<forall>i<length (parts pm). m_span_lookup (parts pm' ! i)
         = (if ids ! i = - 1 then m_span_lookup (parts pm ! i) else om_erase (ids ! i) (m_span_lookup (parts pm ! i))))"
  using planner_multi_rem_span_ok [OF assms] by blast

theorem multi_rem_span_releases_witness:
  "\<exists>pm1 pm2. planner_multi_add_span (Some pair) 0 5 (Some [4, 2]) = Some (Inr 0, Some pm1)
    \<and> planner_multi_rem_span (Some pm1) 0 = Some (Inr 0, Some pm2) \<and> multi_inv pm2"
proof -
  from planner_multi_add_span_ok [OF pair_ok(1), of "[4, 2]" 5 0] pair_fits obtain pm1 ids where
    "planner_multi_add_span (Some pair) 0 5 (Some [4, 2]) = Some (Inr 0, Some pm1)" "multi_inv pm1"
    "mm_span_lookup pm1 = om_assign 0 ids []"
    by (auto simp: pair_ok pair_parts int64_max_def)
  with multi_rem_span_releases [of pm1 0 ids] show ?thesis by (force simp: om_find_def)
qed

text \<open>C13. \<^verbatim>\<open>planner_multi_avail_during\<close> accepts exactly when every part has its share
  free over the whole interval, within its plan.\<close>

theorem multi_avail_during_exact:
  assumes "multi_inv pm" and "length rs = length (parts pm)" "1 \<le> d" "d \<le> int64_max" "t + d \<le> int64_max"
    and "\<forall>i<length rs. m_plan_start (parts pm ! i) \<le> t \<and> 0 \<le> rs ! i \<and> rs ! i \<le> int64_max"
  shows "planner_multi_avail_during (Some pm) t d (Some rs) = Inr () \<longleftrightarrow>
    (\<forall>i<length rs. t + d \<le> m_plan_end (parts pm ! i) \<and> rs ! i \<le> m_total_resources (parts pm ! i)
       \<and> (\<forall>u. t \<le> u \<and> u < t + d \<longrightarrow> rs ! i \<le> avail (parts pm ! i) u))"
  using multi_avail_during_iff [OF assms(1-5)] assms(6) unfolding fits_def by blast

theorem multi_avail_during_exact_witness:
  "planner_multi_avail_during (Some pair) 0 5 (Some [10, 4]) = Inr ()
    \<and> planner_multi_avail_during (Some pair) 0 5 (Some [10, 5]) \<noteq> Inr ()"
proof -
  have 4: "\<forall>i<length [10, 4::int]. m_plan_start (parts pair ! i) \<le> 0 \<and> 0 \<le> [10, 4::int] ! i \<and> [10, 4] ! i \<le> int64_max"
    and 5: "\<forall>i<length [10, 5::int]. m_plan_start (parts pair ! i) \<le> 0 \<and> 0 \<le> [10, 5::int] ! i \<and> [10, 5] ! i \<le> int64_max"
    by (simp_all add: pair_facts)
  from multi_avail_during_exact [OF pair_ok(1) _ _ _ _ 4, of 5] multi_avail_during_exact [OF pair_ok(1) _ _ _ _ 5, of 5]
  show ?thesis by (simp add: pair_facts)
qed

text \<open>C14. \<^verbatim>\<open>planner_multi_avail_time_first\<close> returns the least scheduled point of the
  first part, at or after the given time, at which every part has its share free for the whole
  duration, and \<^verbatim>\<open>ENOENT\<close> when there is none; in particular its search ends. No
  part loses or gains a span.\<close>

theorem multi_avail_time_first_earliest:
  assumes "multi_inv pm" and "length rs = length (parts pm)" "0 < length rs" and "on < m_plan_end (parts pm ! 0)" "1 \<le> d"
    and "m_plan_end (parts pm ! 0) + d \<le> int64_max" and "0 \<le> m_plan_start (parts pm ! 0)"
    and "\<forall>i<length rs. m_plan_start (parts pm ! i) \<le> on \<and> 0 \<le> rs ! i \<and> rs ! i \<le> m_total_resources (parts pm ! i)"
    and "J = {a. sp_map (m_sched_point_tree (parts pm ! 0)) a \<noteq> None \<and> on \<le> a
                \<and> (\<forall>i<length rs. fits (parts pm ! i) a d (rs ! i))}"
  shows "\<exists>pm'. planner_multi_avail_time_first (Some pm) on d (Some rs) =
      Some (if J = {} then Inl ENOENT else Inr (Min J), Some pm')
    \<and> (\<forall>i<length rs. planner_inv (parts pm' ! i) \<and> m_span_lookup (parts pm' ! i) = m_span_lookup (parts pm ! i))"
proof -
  have J: "joint_starts pm on d rs = J" by (auto simp: assms(9) joint_starts_def)
  show ?thesis using planner_multi_avail_time_first_ok [OF assms(1-7)] assms(8) unfolding J by blast
qed

theorem multi_avail_time_first_earliest_witness:
  "\<exists>pm'. planner_multi_avail_time_first (Some pair) 0 5 (Some [4, 2]) = Some (Inr 0, Some pm') \<and> planner_inv (parts pm' ! 1)"
proof -
  have h: "\<forall>i<length [4, 2::int]. m_plan_start (parts pair ! i) \<le> 0 \<and> 0 \<le> [4, 2::int] ! i \<and> [4, 2] ! i \<le> m_total_resources (parts pair ! i)"
    by (simp add: pair_facts)
  have "map at (inorder (m_sched_point_tree (parts pair ! 0))) = [0]" by code_simp
  then have "sp_map (m_sched_point_tree (parts pair ! 0)) a \<noteq> None \<longleftrightarrow> a = 0" for a
    using set_map [of at "inorder (m_sched_point_tree (parts pair ! 0))"] by (auto simp: sp_map_None)
  then have "{0} = {a. sp_map (m_sched_point_tree (parts pair ! 0)) a \<noteq> None \<and> 0 \<le> a
                \<and> (\<forall>i<length [4, 2::int]. fits (parts pair ! i) a 5 ([4, 2] ! i))}"
    using pair_fits by auto
  from multi_avail_time_first_earliest [OF pair_ok(1) _ _ _ _ _ _ h this] show ?thesis
    by (force simp: pair_parts int64_max_def)
qed

section \<open>The balanced trees underneath\<close>

text \<open>C15. Insertion into a sorted red-black tree keeps the library's own integrity checks
  (black root, equal black paths, no red node with a red child) and inserts the element at its
  place of the order, after smaller and before equal keys.\<close>

theorem rb_insert_correct:
  fixes key :: "'a \<Rightarrow> 'k::linorder"
  assumes "dbg_verify t" and "sorted (map key (inorder t))"
  shows "\<exists>t'. insert_leaf_base default_traits key x t = Some t' \<and> dbg_verify t'
    \<and> inorder t' = insort_key key x (inorder t)"
  using insert_default_ok [OF assms(1), of key x] inorder_insert_default [OF assms(2)] by blast

theorem rb_insert_correct_witness:
  "\<exists>t'. insert_leaf_base default_traits id 2 (Node BLACK (Node RED Null (1::int) Null) 3 Null) = Some t'
    \<and> dbg_verify t' \<and> inorder t' = [1, 2, 3]"
  using rb_insert_correct [of "Node BLACK (Node RED Null 1 Null) 3 Null" "id :: int \<Rightarrow> int" 2]
  by (simp add: dbg_verify_def verify_black_root_def)

text \<open>C16. Removal from a red-black tree keeps the integrity checks and removes one element
  with the property, leaving the rest in order.\<close>

theorem rb_remove_correct:
  assumes "dbg_verify t" and "x \<in> set (inorder t)" and "P x"
  shows "\<exists>t' xs y ys. rb_remove default_traits P t = Some t' \<and> dbg_verify t' \<and> P y
    \<and> inorder t = xs @ y # ys \<and> inorder t' = xs @ ys"
  using assms by (rule remove_default_ok)

theorem rb_remove_correct_witness:
  "\<exists>t' xs y ys. rb_remove default_traits (\<lambda>y. y = 3) (Node BLACK (Node RED Null (1::int) Null) 3 Null) = Some t'
    \<and> dbg_verify t' \<and> y = 3 \<and> [1, 3] = xs @ y # ys \<and> inorder t' = xs @ ys"
  using rb_remove_correct [of "Node BLACK (Node RED Null 1 Null) 3 Null" 3 "\<lambda>y. y = (3::int)"]
  by (simp add: dbg_verify_def verify_black_root_def)

text \<open>Inserting a point into the tree of the minimum times keeps its invariant, which
  includes that every node holds the least time of its subtree, and adds that point only.\<close>

theorem mt_insert_correct:
  assumes "mt_ok t" and "mt_map t a = None"
  shows "\<exists>t'. mt_insert a v t = Some t' \<and> mt_ok t' \<and> mt_map t' = (mt_map t)(a \<mapsto> v)"
  using assms by (rule mt_insert_ok)

theorem mt_insert_correct_witness:
  "\<exists>t'. mt_insert 7 3 Null = Some t' \<and> mt_ok t' \<and> mt_map t' = [7 \<mapsto> 3]"
  using mt_insert_correct [of Null 7 3]
  by (simp add: mt_ok_def mt_map_def dbg_verify_def verify_black_root_def)

text \<open>Removing a point from the tree of the minimum times keeps its invariant and
  removes that point only.\<close>

theorem mt_remove_correct:
  assumes "mt_ok t" and "mt_map t a \<noteq> None"
  shows "\<exists>t'. mt_remove a t = Some t' \<and> mt_ok t' \<and> mt_map t' = (mt_map t)(a := None)"
  using assms by (rule mt_remove_ok)

theorem mt_remove_correct_witness:
  "\<exists>t'. mt_remove 7 (Node BLACK Null \<lparr>mt_at = 7, subtree_min = 7, mt_remaining = 3\<rparr> Null) = Some t' \<and> mt_ok t'"
  using mt_remove_correct [of "Node BLACK Null \<lparr>mt_at = 7, subtree_min = 7, mt_remaining = 3\<rparr> Null" 7]
  by (simp add: mt_ok_def mt_map_def mt_proj_def dbg_verify_def verify_black_root_def)

text \<open>C17. \<^verbatim>\<open>get_mintime\<close> finds the earliest of the points with enough resources left,
  and nothing exactly when no point has enough.\<close>

theorem get_mintime_earliest:
  assumes "mt_ok t" and "\<forall>a\<in>dom (mt_map t). a < int64_max"
  shows "case get_mintime q t of
      Some a \<Rightarrow> (\<exists>v. mt_map t a = Some v \<and> q \<le> v) \<and> (\<forall>b w. mt_map t b = Some w \<and> q \<le> w \<longrightarrow> a \<le> b)
    | None \<Rightarrow> (\<forall>b w. mt_map t b = Some w \<longrightarrow> w < q)"
  using assms by (rule get_mintime_ok)

theorem get_mintime_earliest_witness:
  "get_mintime 2 (Node BLACK Null \<lparr>mt_at = 7, subtree_min = 7, mt_remaining = 3\<rparr> Null) = Some 7"
  using get_mintime_earliest [of "Node BLACK Null \<lparr>mt_at = 7, subtree_min = 7, mt_remaining = 3\<rparr> Null" 2]
  by (auto simp: mt_ok_def mt_map_def mt_proj_def dbg_verify_def verify_black_root_def int64_max_def
        split: option.splits if_splits)

text \<open>\<^verbatim>\<open>get_state\<close> of the tree of scheduled points returns the last point at or
  before the time, and nothing exactly when every point lies after it.\<close>

theorem get_state_latest:
  assumes "sp_ok t"
  shows "case get_state tm t of
      Some p \<Rightarrow> p \<in> set (inorder t) \<and> at p \<le> tm \<and> (\<forall>q\<in>set (inorder t). at q \<le> tm \<longrightarrow> at q \<le> at p)
    | None \<Rightarrow> (\<forall>q\<in>set (inorder t). tm < at q)"
  using get_state_Some [OF assms, of tm] get_state_None [OF assms, of tm] by (auto split: option.split)

theorem get_state_latest_witness:
  "map_option at (get_state 6 (Node BLACK Null (zero_point\<lparr>at := 4\<rparr>) Null)) = Some 4"
  using get_state_latest [of "Node BLACK Null (zero_point\<lparr>at := 4\<rparr>) Null" 6]
  by (auto simp: sp_ok_def dbg_verify_def verify_black_root_def split: option.splits)

text \<open>Following \<^verbatim>\<open>next\<close> from a point visits that point and then every later point,
  in increasing order of time, and ends.\<close>

theorem sp_walk_complete:
  assumes "sp_ok t" and "sp_map t a \<noteq> None"
  shows "sp_from a t = filter (\<lambda>p. a \<le> at p) (inorder t)"
  using assms by (rule sp_from_filter)

theorem sp_walk_complete_witness:
  "map at (sp_from 4 (Node BLACK (Node RED Null (zero_point\<lparr>at := 4\<rparr>) Null) (zero_point\<lparr>at := 6\<rparr>) Null)) = [4, 6]"
  using sp_walk_complete [of "Node BLACK (Node RED Null (zero_point\<lparr>at := 4\<rparr>) Null) (zero_point\<lparr>at := 6\<rparr>) Null" 4]
  by (simp add: sp_ok_def sp_map_def dbg_verify_def verify_black_root_def)

text \<open>The cursor stepped forward stands on the inorder successor, or falls off the end
  when there is none.\<close>

theorem step_forward_successor:
  "(step_forward (Node c l x r, ctx) \<bind> cursor_data) =
    (case inorder r @ Ygg_RBTree.after ctx of [] \<Rightarrow> None | y # _ \<Rightarrow> Some y)"
  by (rule step_forward_data)

section \<open>Where the code does not do what it means to\<close>


text \<open>After \<^verbatim>\<open>planner_update_total\<close> has raised a total, the search for a start
  still uses the old amounts, while the query at a time shows the new ones.\<close>

theorem update_total_search_stale:
  "(case planner_update_total (Some cores) 20 of
      Some (_, p) \<Rightarrow> planner_avail_resources_at (Some p) 0 = Inr 20
        \<and> map_option fst (planner_avail_time_first (Some p) 0 1 15) = Some (Inl ENOENT)
    | None \<Rightarrow> False)"
  by code_simp


text \<open>\<^verbatim>\<open>planner_multi_reset\<close> drops the spans of the parts but keeps the ids of the
  whole, which then name spans that do not exist.\<close>

theorem multi_reset_keeps_ids:
  "(case planner_multi_reset (Some (ctx_after pair (planner_multi_add_span (Some pair) 0 5 (Some [4, 2])))) 0 100 of
      Some (Inr _, Some pm) \<Rightarrow> planner_multi_span_size (Some pm) = 1
        \<and> map_option fst (planner_multi_rem_span (Some pm) 0) = Some (Inl EINVAL)
    | _ \<Rightarrow> False)"
  by code_simp

end
